(* ===== verification/Ky_Prelude.thy ===== *)
theory Ky_Prelude
  imports Main "HOL-Library.AList" "HOL-Library.Char_ord" "HOL-Library.List_Lexorder"
begin

text \<open>
  Shared vocabulary of the development: instants and durations as Go's
  \<^verbatim>\<open>time\<close> package has them, the SQL statements the store issues over tables that are
  lists of rows, results that are an error or a value, and the two interfaces
  (locales) several components implement: a credential that is redeemed at
  most once and a counter with a budget.

  An instant is an \<open>int\<close> number of nanoseconds since the Unix epoch. A table is the list of
  its rows in \<open>rowid\<close> order, so that \<open>INSERT\<close> appends, \<open>UPDATE\<close> maps,
  \<open>DELETE\<close> filters, and a query without \<open>ORDER BY\<close> meets the rows from the left.
\<close>

named_theorems sql_simps \<open>how the SQL statements act on a table\<close>

section \<open>Instants, durations and 64-bit integers\<close>

type_synonym time = int
type_synonym duration = int

abbreviation second :: duration where "second \<equiv> 1000000000"
abbreviation minute :: duration where "minute \<equiv> 60000000000"
abbreviation hour :: duration where "hour \<equiv> 3600000000000"

text \<open>\<open>time.Time.Unix\<close> and SQLite's \<open>unixepoch()\<close>: whole seconds, rounded down.\<close>

definition unixepoch :: "time \<Rightarrow> int" where
  "unixepoch t = t div second"

text \<open>\<open>time.Unix(v, 0)\<close>.\<close>

definition from_unix :: "int \<Rightarrow> time" where
  "from_unix v = v * second"

text \<open>
  An \<open>int64\<close> product wraps around: \<open>wrap64\<close> is two's complement reduction, the
  value Go's \<open>time.Duration(n) * time.Second\<close> really has.
\<close>

definition wrap64 :: "int \<Rightarrow> int" where
  "wrap64 x = (x + 2 ^ 63) mod 2 ^ 64 - 2 ^ 63"

lemma wrap64_id: "- (2 ^ 63) \<le> x \<Longrightarrow> x < 2 ^ 63 \<Longrightarrow> wrap64 x = x"
  by (simp add: wrap64_def)

lemma unixepoch_mono: "s \<le> t \<Longrightarrow> unixepoch s \<le> unixepoch t"
  unfolding unixepoch_def by (rule zdiv_mono1) auto

lemma unixepoch_less_iff: "unixepoch t < v \<longleftrightarrow> t < from_unix v"
proof -
  have "t = t div second * second + t mod second" "0 \<le> t mod second" "t mod second < second" by simp_all
  then show ?thesis unfolding unixepoch_def from_unix_def by linarith
qed

lemma unixepoch_le_iff: "v \<le> unixepoch t \<longleftrightarrow> from_unix v \<le> t"
  using unixepoch_less_iff[of t v] by linarith

lemma from_unix_mono [simp]: "from_unix a < from_unix b \<longleftrightarrow> a < b"
  by (simp add: from_unix_def)

section \<open>Results\<close>

text \<open>
  The sentinel errors of the store, and the constraint failures SQLite reports. A
  transaction that ends in \<open>Inl\<close> is rolled back: the state its caller keeps is the one
  it started from.
\<close>

datatype err =
    ErrNotFound | ErrNoRows | ErrUnique | ErrForeignKey | ErrCheck
  | ErrAppAccessDenied | ErrAppAuthentication | ErrAppLinkConflict | ErrAppRecordMissing
  | ErrRefreshNeedsConfidential | ErrRefreshInvalid | ErrRefreshReuse
  | ErrAuthorizationInteraction | ErrEnrollmentPolicy | ErrEmergencyAdministrator
  | ErrLastCompliantFactor | ErrLastActiveAdmin | ErrExpiryInPast | ErrGuardAdministrator
  | ErrGroupNameExists | ErrGroupSourceOwned | ErrGroupTargetMissing | ErrUserConflict
  | ErrUserMissing | ErrPrivilegedIdentity | ErrDeviceNotApprover | ErrInvalidInput
  | ErrStepUpInvalid | ErrAttemptChanged | ErrOutOfBounds
  | ErrAppNotRequestable | ErrAlreadyHasAccess | ErrDuplicateRequest | ErrTooManyRequests
  | ErrRequestNotPending | ErrSelfApproval | ErrCannotDecide
  | ErrUnsignedDevice | ErrSignature | ErrChallengeState | ErrPushPending | ErrPushMessage
  | ErrMFAAttemptsExhausted | ErrMFAToken | ErrNotEnrolled
  | ErrAppRoleExists | ErrAppRoleInvalid | ErrAlreadyDisabled | ErrRemoteMapping
  | ErrIdentityConflict | ErrSCIMConnectorMissing
  | ErrGroupMemberForeign | ErrGroupExternalExists | ErrGroupVersionStale | ErrReconcileBusy
  | ErrAlertMissing | ErrAlertNotOpen | ErrAlertRecipient | ErrAlertSettings
  | ErrInvalidLauncherPrefs | ErrRecoveryEvidenceUnavailable | ErrRecoveryEvidenceTooLarge

text \<open>Sequencing of fallible statements: the early \<open>return err\<close> of the Go code.\<close>

definition andthen :: "err + 'a \<Rightarrow> ('a \<Rightarrow> err + 'b) \<Rightarrow> err + 'b" where
  "andthen r f = (case r of Inl e \<Rightarrow> Inl e | Inr x \<Rightarrow> f x)"

definition ensure :: "bool \<Rightarrow> err \<Rightarrow> err + unit" where
  "ensure b e = (if b then Inr () else Inl e)"

lemma andthen_simps [simp]:
  "andthen (Inl e) f = Inl e" "andthen (Inr x) f = f x"
  by (simp_all add: andthen_def)

lemma andthen_Inr_iff: "andthen r f = Inr y \<longleftrightarrow> (\<exists>x. r = Inr x \<and> f x = Inr y)"
  by (cases r) auto

lemma andthen_Inl_iff: "andthen r f = Inl e \<longleftrightarrow> r = Inl e \<or> (\<exists>x. r = Inr x \<and> f x = Inl e)"
  by (cases r) auto

lemma ensure_simps [simp]:
  "ensure True e = Inr ()" "ensure False e = Inl e"
  "ensure b e = Inr u \<longleftrightarrow> b" "ensure b e = Inl e' \<longleftrightarrow> \<not> b \<and> e' = e"
  by (auto simp: ensure_def)

lemma succeeds: "\<not> isl r \<Longrightarrow> \<exists>x. r = Inr x"
  by (cases r) auto

lemmas result_iffs = andthen_Inr_iff andthen_Inl_iff

text \<open>A loop over a list whose body may fail: the first error ends it.\<close>

fun each :: "('a \<Rightarrow> 's \<Rightarrow> err + 's) \<Rightarrow> 'a list \<Rightarrow> 's \<Rightarrow> err + 's" where
  "each f [] s = Inr s"
| "each f (x # xs) s = andthen (f x s) (each f xs)"

lemma each_keeps:
  assumes "each f xs s = Inr s'" and "P s" and "\<And>x s s'. x \<in> set xs \<Longrightarrow> f x s = Inr s' \<Longrightarrow> P s \<Longrightarrow> P s'"
  shows "P s'"
  using assms by (induction f xs s rule: each.induct) (auto simp: result_iffs)

section \<open>Case folding\<close>

text \<open>The ASCII folding of \<open>COLLATE NOCASE\<close> and \<open>LIKE\<close>.\<close>

definition ascii_lower :: "char \<Rightarrow> char" where
  "ascii_lower c = (let n = (of_char c :: nat) in if 65 \<le> n \<and> n \<le> 90 then char_of (n + 32) else c)"

definition nocase :: "string \<Rightarrow> string" where
  "nocase s = map ascii_lower s"

section \<open>SQL over lists of rows\<close>

definition sql_update :: "('r \<Rightarrow> bool) \<Rightarrow> ('r \<Rightarrow> 'r) \<Rightarrow> 'r list \<Rightarrow> 'r list" where
  "sql_update p f t = map (\<lambda>r. if p r then f r else r) t"

definition sql_delete :: "('r \<Rightarrow> bool) \<Rightarrow> 'r list \<Rightarrow> 'r list" where
  "sql_delete p t = filter (\<lambda>r. \<not> p r) t"

definition sql_count :: "('r \<Rightarrow> bool) \<Rightarrow> 'r list \<Rightarrow> nat" where
  "sql_count p t = length (filter p t)"

definition sql_insert :: "'r \<Rightarrow> 'r list \<Rightarrow> 'r list" where
  "sql_insert r t = t @ [r]"

text \<open>\<open>QueryRow\<close>: the first row that matches, if any.\<close>

abbreviation sql_first :: "('r \<Rightarrow> bool) \<Rightarrow> 'r list \<Rightarrow> 'r option" where
  "sql_first p t \<equiv> List.find p t"

declare if_image_distrib [simp del]

lemma set_sql_update [sql_simps]: "set (sql_update p f t) = (\<lambda>r. if p r then f r else r) ` set t"
  by (simp add: sql_update_def)

lemma set_sql_delete [sql_simps]: "set (sql_delete p t) = {r \<in> set t. \<not> p r}"
  by (auto simp: sql_delete_def)

lemma set_sql_insert [sql_simps]: "set (sql_insert r t) = insert r (set t)"
  by (auto simp: sql_insert_def)

lemma sql_count_0_iff [sql_simps]: "sql_count p t = 0 \<longleftrightarrow> (\<forall>r \<in> set t. \<not> p r)"
  by (simp add: sql_count_def filter_empty_conv)

lemma sql_count_pos_iff [sql_simps]: "0 < sql_count p t \<longleftrightarrow> (\<exists>r \<in> set t. p r)"
  by (auto simp: sql_count_def filter_empty_conv)

lemma sql_count_oneD: "sql_count p t = 1 \<Longrightarrow> \<exists>r \<in> set t. p r"
  by (metis sql_count_pos_iff zero_less_one)

lemma sql_count_SucD: "sql_count p t = Suc n \<Longrightarrow> \<exists>r \<in> set t. p r"
  by (metis sql_count_pos_iff zero_less_Suc)

lemma sql_update_Nil [simp]: "sql_update p f [] = []"
  and sql_delete_Nil [simp]: "sql_delete p [] = []"
  and sql_count_Nil [simp]: "sql_count p [] = 0"
  by (simp_all add: sql_update_def sql_delete_def sql_count_def)

lemma sql_update_Cons [simp]: "sql_update p f (r # t) = (if p r then f r else r) # sql_update p f t"
  and sql_delete_Cons [simp]: "sql_delete p (r # t) = (if p r then sql_delete p t else r # sql_delete p t)"
  and sql_count_Cons [simp]: "sql_count p (r # t) = (if p r then Suc (sql_count p t) else sql_count p t)"
  by (simp_all add: sql_update_def sql_delete_def sql_count_def)

lemma sql_update_noop: "(\<And>r. r \<in> set t \<Longrightarrow> \<not> p r) \<Longrightarrow> sql_update p f t = t"
  by (induction t) auto

lemma sql_delete_noop: "(\<And>r. r \<in> set t \<Longrightarrow> \<not> p r) \<Longrightarrow> sql_delete p t = t"
  by (induction t) auto

lemma map_sql_update:
  "(\<And>r. r \<in> set t \<Longrightarrow> p r \<Longrightarrow> k (f r) = k r) \<Longrightarrow> map k (sql_update p f t) = map k t"
  by (induction t) auto

lemma distinct_sql_delete: "distinct (map k t) \<Longrightarrow> distinct (map k (sql_delete p t))"
  by (simp add: sql_delete_def distinct_map_filter)

lemma distinct_sql_insert:
  "distinct (map k t) \<Longrightarrow> k r \<notin> k ` set t \<Longrightarrow> distinct (map k (sql_insert r t))"
  by (auto simp: sql_insert_def)

lemma find_SomeD: "List.find p t = Some r \<Longrightarrow> r \<in> set t \<and> p r"
  by (auto simp: find_Some_iff in_set_conv_nth)

lemma find_None_iff2: "List.find p t = None \<longleftrightarrow> (\<forall>r \<in> set t. \<not> p r)"
  by (auto simp: find_None_iff)

lemma find_append: "List.find p (xs @ ys) = (case List.find p xs of None \<Rightarrow> List.find p ys | Some x \<Rightarrow> Some x)"
  by (induction xs) auto

text \<open>With a key that identifies rows, a keyed query finds exactly that row.\<close>

lemma key_unique: "distinct (map k t) \<Longrightarrow> r \<in> set t \<Longrightarrow> s \<in> set t \<Longrightarrow> k r = k s \<Longrightarrow> r = s"
  by (simp add: distinct_map inj_on_def)

lemma find_key_eq:
  "distinct (map k t) \<Longrightarrow> r \<in> set t \<Longrightarrow> List.find (\<lambda>x. k x = k r) t = Some r"
  by (induction t) (auto simp: image_iff)

lemma sql_count_key_le: "distinct (map k t) \<Longrightarrow> sql_count (\<lambda>r. k r = v \<and> p r) t \<le> 1"
proof (induction t)
  case (Cons a t)
  have "k a = v \<Longrightarrow> sql_count (\<lambda>r. k r = v \<and> p r) t = 0"
    using Cons.prems by (auto simp: sql_count_0_iff image_iff)
  with Cons show ?case by auto
qed simp

lemma sql_count_key_one:
  assumes "distinct (map k t)" "r \<in> set t" "k r = v" "p r"
  shows "sql_count (\<lambda>x. k x = v \<and> p x) t = 1"
proof -
  have "0 < sql_count (\<lambda>x. k x = v \<and> p x) t"
    using assms by (auto simp: sql_simps)
  with sql_count_key_le[OF assms(1), of v p] show ?thesis by linarith
qed

section \<open>Interface: a credential redeemed at most once\<close>

text \<open>
  Authorization codes, MFA tokens, step-up grants, passkey challenges, pairing tokens, recovery codes
  and account links are all \<open>redeemed\<close>: an operation that reports whether it succeeded, on
  a state in which a credential may already be \<open>spent\<close>. \<open>redeem_run\<close> is any
  interleaving of redemptions with other operations; it counts the successful redemptions of one
  credential.
\<close>

inductive redeem_run :: "('k \<Rightarrow> 's \<Rightarrow> bool \<times> 's) \<Rightarrow> ('k \<Rightarrow> 't) \<Rightarrow> ('s \<Rightarrow> 's \<Rightarrow> bool) \<Rightarrow> 't
    \<Rightarrow> 's \<Rightarrow> nat \<Rightarrow> 's \<Rightarrow> bool"
  for redeem tok other t where
  start: "redeem_run redeem tok other t s 0 s"
| redeem: "redeem_run redeem tok other t s n s' \<Longrightarrow> redeem k s' = (ok, s'') \<Longrightarrow>
     redeem_run redeem tok other t s (if ok \<and> tok k = t then Suc n else n) s''"
| other: "redeem_run redeem tok other t s n s' \<Longrightarrow> other s' s'' \<Longrightarrow>
     redeem_run redeem tok other t s n s''"

lemma redeem_run_one:
  "redeem k s = (True, s') \<Longrightarrow> tok k = t \<Longrightarrow> redeem_run redeem tok other t s 1 s'"
  using redeem_run.redeem[OF redeem_run.start, where redeem = redeem and k = k and s = s and ok = True
      and s'' = s' and tok = tok and other = other and t = t] by simp

lemma redeem_run_two:
  assumes "redeem k s = (True, s')" "redeem k' s' = (True, s'')" "tok k = t" "tok k' = t"
  shows "redeem_run redeem tok other t s 2 s''"
proof -
  have "redeem_run redeem tok other t s 1 s'" by (rule redeem_run_one) (fact assms)+
  then have "redeem_run redeem tok other t s (if True \<and> tok k' = t then Suc 1 else 1) s''"
    by (rule redeem_run.redeem) (rule assms(2))
  with assms(4) show ?thesis by (simp add: numeral_2_eq_2)
qed

locale single_use =
  fixes redeem :: "'k \<Rightarrow> 's \<Rightarrow> bool \<times> 's"
    and tok :: "'k \<Rightarrow> 't"
    and inv :: "'s \<Rightarrow> bool"
    and spent :: "'t \<Rightarrow> 's \<Rightarrow> bool"
    and other :: "'t \<Rightarrow> 's \<Rightarrow> 's \<Rightarrow> bool"
  assumes redeem_inv: "inv s \<Longrightarrow> redeem k s = (ok, s') \<Longrightarrow> inv s'"
    and other_inv: "inv s \<Longrightarrow> other t s s' \<Longrightarrow> inv s'"
    and redeem_spends: "inv s \<Longrightarrow> redeem k s = (True, s') \<Longrightarrow> spent (tok k) s'"
    and spent_refused: "spent (tok k) s \<Longrightarrow> \<not> fst (redeem k s)"
    and redeem_keeps: "spent t s \<Longrightarrow> redeem k s = (ok, s') \<Longrightarrow> spent t s'"
    and other_keeps: "inv s \<Longrightarrow> spent t s \<Longrightarrow> other t s s' \<Longrightarrow> spent t s'"
begin

lemma run_inv:
  assumes "redeem_run redeem tok (other t) t s n s'" and "inv s"
  shows "inv s'"
  using assms by (induction rule: redeem_run.induct) (auto intro: redeem_inv other_inv)

lemma run_spent:
  assumes "redeem_run redeem tok (other t) t s n s'" and "inv s" and "spent t s \<or> 0 < n"
  shows "spent t s'"
  using assms
proof (induction rule: redeem_run.induct)
  case (redeem s n s' k ok s'')
  show ?case
  proof (cases "ok \<and> tok k = t")
    case True
    with redeem.hyps redeem_spends[of s' k s''] run_inv[OF redeem.hyps(1) redeem.prems(1)] show ?thesis by auto
  next
    case False
    with redeem.prems redeem.IH have "spent t s'" by (auto split: if_splits)
    then show ?thesis using redeem.hyps(2) redeem_keeps by blast
  qed
next
  case (other s n s' s'')
  then show ?case using run_inv[OF other.hyps(1) other.prems(1)] other_keeps by blast
qed auto

lemma at_most_once:
  assumes "redeem_run redeem tok (other t) t s n s'" and "inv s"
  shows "n \<le> 1 \<and> (spent t s \<longrightarrow> n = 0)"
  using assms
proof (induction rule: redeem_run.induct)
  case (redeem s n s' k ok s'')
  show ?case
  proof (cases "ok \<and> tok k = t")
    case True
    then have "\<not> spent t s'" using redeem.hyps(2) spent_refused[of k s'] by auto
    with run_spent[OF redeem.hyps(1) redeem.prems] have "\<not> spent t s" "n = 0" by auto
    with True show ?thesis by simp
  qed (use redeem.IH redeem.prems in auto)
qed auto

end

text \<open>
  How a table may change without making a credential \<open>t\<close> redeemable again: rows may go, rows may
  be rewritten without losing their key or their mark, and rows of other, unused keys may be added.
\<close>

definition evolves :: "('r \<Rightarrow> 't) \<Rightarrow> ('r \<Rightarrow> bool) \<Rightarrow> 't \<Rightarrow> 'r list \<Rightarrow> 'r list \<Rightarrow> bool" where
  "evolves key used t old new \<longleftrightarrow> (\<exists>keep f add. new = map f (filter keep old) @ add \<and>
     (\<forall>r. key (f r) = key r \<and> (used r \<longrightarrow> used (f r))) \<and> distinct (map key add) \<and>
     (\<forall>r \<in> set add. key r \<noteq> t \<and> key r \<notin> key ` set (filter keep old)))"

lemma evolvesI:
  assumes "new = map f (filter keep old)" and "\<And>r. key (f r) = key r" and "\<And>r. used r \<Longrightarrow> used (f r)"
  shows "evolves key used t old new"
  unfolding evolves_def by (intro exI[of _ keep] exI[of _ f] exI[of _ "[]"]) (use assms in simp)

lemma evolves_refl: "evolves key used t old old"
  by (rule evolvesI[where f = id and keep = "\<lambda>_. True"]) simp_all

lemma evolves_filter: "evolves key used t old (filter q old)"
  by (rule evolvesI[where f = id]) simp_all

lemma evolves_delete: "evolves key used t old (sql_delete p old)"
  unfolding sql_delete_def by (rule evolves_filter)

lemma evolves_update:
  "(\<And>r. key (f r) = key r) \<Longrightarrow> (\<And>r. used r \<Longrightarrow> used (f r)) \<Longrightarrow> evolves key used t old (sql_update p f old)"
  by (rule evolvesI[where f = "\<lambda>r. if p r then f r else r" and keep = "\<lambda>_. True"]) (auto simp: sql_update_def)

lemma evolves_insert:
  "key r \<noteq> t \<Longrightarrow> key r \<notin> key ` set old \<Longrightarrow> evolves key used t old (old @ [r])"
  unfolding evolves_def by (intro exI[of _ "\<lambda>_. True"] exI[of _ id] exI[of _ "[r]"]) simp

lemma disjoint_image: "(\<And>r. r \<in> X \<Longrightarrow> f r \<notin> A) \<Longrightarrow> A \<inter> f ` X = {}"
  by auto

lemma evolves_trans:
  assumes "evolves key used t a b" and "evolves key used t b c"
  shows "evolves key used t a c"
proof -
  from assms(1) obtain k1 f1 n1 where 1: "b = map f1 (filter k1 a) @ n1" "\<And>r. key (f1 r) = key r" "\<And>r. used r \<Longrightarrow> used (f1 r)"
      "distinct (map key n1)" "\<And>r. r \<in> set n1 \<Longrightarrow> key r \<noteq> t \<and> key r \<notin> key ` set (filter k1 a)"
    unfolding evolves_def by blast
  from assms(2) obtain k2 f2 n2 where 2: "c = map f2 (filter k2 b) @ n2" "\<And>r. key (f2 r) = key r" "\<And>r. used r \<Longrightarrow> used (f2 r)"
      "distinct (map key n2)" "\<And>r. r \<in> set n2 \<Longrightarrow> key r \<noteq> t \<and> key r \<notin> key ` set (filter k2 b)"
    unfolding evolves_def by blast
  let ?keep = "\<lambda>r. k1 r \<and> k2 (f1 r)" let ?add = "map f2 (filter k2 n1) @ n2"
  have sub1: "key ` set (filter ?keep a) \<subseteq> key ` set (filter k2 b)"
  proof (rule image_subsetI)
    fix x assume "x \<in> set (filter ?keep a)"
    then have "f1 x \<in> set (filter k2 b)" by (auto simp: 1(1))
    then show "key x \<in> key ` set (filter k2 b)" using 1(2)[of x] by (metis imageI)
  qed
  have sub2: "key ` set (filter ?keep a) \<subseteq> key ` set (filter k1 a)" by auto
  have "c = map (f2 \<circ> f1) (filter ?keep a) @ ?add"
    by (simp add: 1(1) 2(1) filter_map comp_def conj_commute)
  moreover have "distinct (map key ?add)"
  proof -
    have m: "map key ?add = map key (filter k2 n1) @ map key n2" using 2(2) by simp
    have "key ` set (filter k2 b) \<inter> key ` set n2 = {}" by (rule disjoint_image) (rule conjunct2[OF 2(5)])
    then have "key ` set (filter k2 n1) \<inter> key ` set n2 = {}" by (auto simp: 1(1))
    then show ?thesis unfolding m using 1(4) 2(4) by (simp add: distinct_map_filter)
  qed
  moreover have "key r \<noteq> t \<and> key r \<notin> key ` set (filter ?keep a)" if "r \<in> set ?add" for r
  proof (cases "r \<in> set n2")
    case True
    with 2(5)[OF True] sub1 show ?thesis by blast
  next
    case False
    with that obtain r1 where "r1 \<in> set n1" "key r = key r1" using 2(2) by auto
    then show ?thesis using 1(5)[of r1] sub2 by auto
  qed
  ultimately show ?thesis
    unfolding evolves_def by (intro exI[of _ ?keep] exI[of _ "f2 \<circ> f1"] exI[of _ ?add]) (use 1(2,3) 2(2,3) in simp)
qed

lemma evolves_distinct:
  assumes "evolves key used t old new" and "distinct (map key old)"
  shows "distinct (map key new)"
proof -
  from assms(1) obtain keep f add where e: "new = map f (filter keep old) @ add" "\<And>r. key (f r) = key r"
      "distinct (map key add)" "\<And>r. r \<in> set add \<Longrightarrow> key r \<notin> key ` set (filter keep old)"
    unfolding evolves_def by blast
  have "map key new = map key (filter keep old) @ map key add" using e(2) by (simp add: e(1))
  moreover have "key ` set (filter keep old) \<inter> key ` set add = {}" by (rule disjoint_image) (rule e(4))
  ultimately show ?thesis using e(3) assms(2) by (simp add: distinct_map_filter)
qed

lemma evolves_unused:
  assumes "evolves key used t old new" and "r \<in> set new" "key r = t" "\<not> used r"
  shows "\<exists>r0 \<in> set old. key r0 = t \<and> \<not> used r0"
proof -
  from assms(1) obtain keep f add where e: "new = map f (filter keep old) @ add"
      "\<And>r. key (f r) = key r \<and> (used r \<longrightarrow> used (f r))" "\<And>r. r \<in> set add \<Longrightarrow> key r \<noteq> t"
    unfolding evolves_def by blast
  from assms(2,3) e(1,3) obtain r0 where "r0 \<in> set old" "r = f r0" by auto
  with e(2)[of r0] assms(3,4) show ?thesis by auto
qed

text \<open>
  The shape all these credentials share: a table of rows with a unique key and a mark that the row is
  used. Redeeming updates unused rows of one key and marks them; succeeding means a row matched; other
  operations keep keys unique and make no unused row of the key appear.
\<close>

locale spendable_rows =
  fixes rows :: "'s \<Rightarrow> 'r list"
    and key :: "'r \<Rightarrow> 't"
    and used :: "'r \<Rightarrow> bool"
    and redeem :: "'k \<Rightarrow> 's \<Rightarrow> bool \<times> 's"
    and tok :: "'k \<Rightarrow> 't"
    and other :: "'t \<Rightarrow> 's \<Rightarrow> 's \<Rightarrow> bool"
  assumes redeem_rows: "redeem k s = (ok, s') \<Longrightarrow> \<exists>p f. rows s' = sql_update p f (rows s) \<and>
      (\<forall>r. p r \<longrightarrow> key r = tok k \<and> \<not> used r \<and> used (f r)) \<and> (\<forall>r. key (f r) = key r) \<and>
      (ok \<longrightarrow> (\<exists>r \<in> set (rows s). p r))"
    and other_evolves: "other t s s' \<Longrightarrow> evolves key used t (rows s) (rows s')"
begin

definition keyed :: "'s \<Rightarrow> bool" where
  "keyed s \<longleftrightarrow> distinct (map key (rows s))"

definition all_used :: "'t \<Rightarrow> 's \<Rightarrow> bool" where
  "all_used t s \<longleftrightarrow> (\<forall>r \<in> set (rows s). key r = t \<longrightarrow> used r)"

end

sublocale spendable_rows \<subseteq> single_use redeem tok keyed all_used other
proof unfold_locales
  fix s k ok s'
  assume s: "keyed s" and r: "redeem k s = (ok, s')"
  from redeem_rows[OF r] obtain p f where "rows s' = sql_update p f (rows s)" "\<forall>r. key (f r) = key r" by blast
  with s show "keyed s'" by (simp add: keyed_def map_sql_update)
next
  fix s t s'
  assume "keyed s" "other t s s'"
  then show "keyed s'" using evolves_distinct[OF other_evolves] by (simp add: keyed_def)
next
  fix s k s'
  assume s: "keyed s" and r: "redeem k s = (True, s')"
  from redeem_rows[OF r] obtain p f where pf: "rows s' = sql_update p f (rows s)"
      "\<And>r. p r \<Longrightarrow> key r = tok k \<and> \<not> used r \<and> used (f r)" "\<And>r. key (f r) = key r" "\<exists>r \<in> set (rows s). p r" by blast
  then obtain r0 where r0: "r0 \<in> set (rows s)" "p r0" by blast
  have "used (if p x then f x else x)" if "x \<in> set (rows s)" "key (if p x then f x else x) = tok k" for x
  proof -
    have "key x = tok k" using that(2) pf(3) by (simp split: if_splits)
    then have "x = r0" using key_unique[of key "rows s" x r0] s that(1) r0 pf(2)[OF r0(2)] by (simp add: keyed_def)
    then show ?thesis using r0(2) pf(2) by simp
  qed
  then show "all_used (tok k) s'" by (auto simp: all_used_def pf(1) sql_simps)
next
  fix k s
  assume "all_used (tok k) s"
  then show "\<not> fst (redeem k s)"
    using redeem_rows[of k s "fst (redeem k s)" "snd (redeem k s)"] by (auto simp: all_used_def)
next
  fix t s k ok s'
  assume t: "all_used t s" and r: "redeem k s = (ok, s')"
  from redeem_rows[OF r] obtain p f where pf: "rows s' = sql_update p f (rows s)"
      "\<And>r. p r \<Longrightarrow> key r = tok k \<and> \<not> used r \<and> used (f r)" "\<And>r. key (f r) = key r" by blast
  then show "all_used t s'" using t by (auto simp: all_used_def sql_simps)
next
  fix s t s'
  assume "keyed s" "all_used t s" "other t s s'"
  then show "all_used t s'" using evolves_unused[OF other_evolves, of t s s'] by (auto simp: all_used_def)
qed

context spendable_rows
begin

lemma rows_at_most_once:
  assumes "redeem_run redeem tok (other t) t s n s'" and "distinct (map key (rows s))"
  shows "n \<le> 1 \<and> ((\<forall>r \<in> set (rows s). key r = t \<longrightarrow> used r) \<longrightarrow> n = 0)"
  using at_most_once[OF assms(1)] assms(2) by (simp add: keyed_def all_used_def)

end

section \<open>Sums over the rows of a table\<close>

lemma sum_list_update_le:
  assumes "\<And>r. r \<in> set t \<Longrightarrow> w' (if p r then f r else r) \<le> (w r :: nat)" and "\<And>r. q (f r) = q r"
  shows "sum_list (map w' (filter q (sql_update p f t))) \<le> sum_list (map w (filter q t))"
  using assms(1)
proof (induction t)
  case (Cons a t)
  have "q (if p a then f a else a) = q a" using assms(2) by simp
  moreover have "sum_list (map w' (filter q (sql_update p f t))) \<le> sum_list (map w (filter q t))" by (rule Cons.IH) (use Cons.prems in auto)
  moreover have "w' (if p a then f a else a) \<le> w a" using Cons.prems[of a] by simp
  ultimately show ?case by (auto split: if_splits)
qed simp

lemma sum_list_update_less:
  assumes "\<And>r. r \<in> set t \<Longrightarrow> w' (if p r then f r else r) \<le> (w r :: nat)" and "\<And>r. q (f r) = q r"
    and "r0 \<in> set t" "q r0" "w' (if p r0 then f r0 else r0) < w r0"
  shows "sum_list (map w' (filter q (sql_update p f t))) < sum_list (map w (filter q t))"
  using assms(1,3)
proof (induction t)
  case (Cons a t)
  have qa: "q (if p a then f a else a) = q a" using assms(2) by simp
  have le: "sum_list (map w' (filter q (sql_update p f t))) \<le> sum_list (map w (filter q t))"
    by (rule sum_list_update_le) (use Cons.prems(1) assms(2) in auto)
  have wa: "w' (if p a then f a else a) \<le> w a" using Cons.prems(1)[of a] by simp
  show ?case
  proof (cases "r0 \<in> set t")
    case True
    have "sum_list (map w' (filter q (sql_update p f t))) < sum_list (map w (filter q t))" by (rule Cons.IH) (use Cons.prems True in auto)
    with qa wa show ?thesis by (auto split: if_splits)
  next
    case False
    with Cons.prems(2) have "a = r0" by simp
    with qa le assms(4,5) show ?thesis by (auto split: if_splits)
  qed
qed simp

lemma sum_list_filter_le: "sum_list (map w (filter q (filter k t))) \<le> sum_list (map (w :: 'a \<Rightarrow> nat) (filter q t))"
  by (induction t) auto

section \<open>Interface: a budget of attempts\<close>

text \<open>
  Second-factor attempts and step-up attempts are reserved from a fixed budget before the proof is
  looked at. \<open>left\<close> is what a state still allows for one item; a granted attempt lowers it and
  nothing else raises it.
\<close>

inductive budget_run :: "('k \<Rightarrow> 's \<Rightarrow> bool \<times> 's) \<Rightarrow> ('k \<Rightarrow> 't) \<Rightarrow> ('s \<Rightarrow> 's \<Rightarrow> bool) \<Rightarrow> 't
    \<Rightarrow> 's \<Rightarrow> nat \<Rightarrow> 's \<Rightarrow> bool"
  for attempt tok other t where
  start: "budget_run attempt tok other t s 0 s"
| attempt: "budget_run attempt tok other t s n s' \<Longrightarrow> attempt k s' = (ok, s'') \<Longrightarrow>
     budget_run attempt tok other t s (if ok \<and> tok k = t then Suc n else n) s''"
| other: "budget_run attempt tok other t s n s' \<Longrightarrow> other s' s'' \<Longrightarrow>
     budget_run attempt tok other t s n s''"

lemma budget_run_one:
  "attempt k s = (True, s') \<Longrightarrow> tok k = t \<Longrightarrow> budget_run attempt tok other t s 1 s'"
  using budget_run.attempt[OF budget_run.start, where attempt = attempt and k = k and s = s and ok = True
      and s'' = s' and tok = tok and other = other and t = t] by simp

locale budgeted =
  fixes attempt :: "'k \<Rightarrow> 's \<Rightarrow> bool \<times> 's"
    and tok :: "'k \<Rightarrow> 't"
    and left :: "'t \<Rightarrow> 's \<Rightarrow> nat"
    and other :: "'t \<Rightarrow> 's \<Rightarrow> 's \<Rightarrow> bool"
  assumes attempt_lowers: "attempt k s = (True, s') \<Longrightarrow> left (tok k) s' < left (tok k) s"
    and attempt_keeps: "attempt k s = (ok, s') \<Longrightarrow> left t s' \<le> left t s"
    and other_keeps: "other t s s' \<Longrightarrow> left t s' \<le> left t s"
begin

lemma within_budget:
  assumes "budget_run attempt tok (other t) t s n s'"
  shows "n + left t s' \<le> left t s"
  using assms
proof (induction rule: budget_run.induct)
  case (attempt s n s' k ok s'')
  show ?case
  proof (cases "ok \<and> tok k = t")
    case True
    with attempt.hyps(2) attempt_lowers[of k s' s''] have "left t s'' < left t s'" by auto
    with attempt.IH True show ?thesis by simp
  next
    case False
    moreover from attempt.hyps(2) have "left t s'' \<le> left t s'" by (rule attempt_keeps)
    ultimately show ?thesis using attempt.IH by auto
  qed
next
  case (other s n s' s'')
  then show ?case using other_keeps[OF other.hyps(2)] by linarith
qed simp

end

end
