(* ===== verification/Ky_Schema.thy ===== *)
theory Ky_Schema
  imports Ky_Prelude
begin

text \<open>
  The data of the store: one record per Go struct and SQL table of
  \<^verbatim>\<open>internal/store\<close>, the database as a record of tables, the foreign-key cascades of the schema,
  the random identifiers and the audit rows every mutation commits with.

  Columns with a \<open>CHECK\<close> over a fixed set of words are datatypes, nullable columns are
  options, instants stored as \<open>DATETIME\<close> are nanoseconds and instants stored as
  \<open>INTEGER\<close> (\<open>ends_at\<close>, \<open>expires_at\<close> of grants, \<open>due_at\<close>) are Unix
  seconds, as in the schema. The embedded Go struct \<open>AuthenticationEvidence\<close> is a record of its
  own. JSON text the store writes (audit details, settings) is held as the value it encodes.
\<close>

section \<open>Rows\<close>

datatype role = RoleUser | RoleAdmin
datatype user_status = Active | Disabled

record user =
  usr_id :: string
  usr_username :: string
  usr_display_name :: string
  usr_email :: string
  usr_password_hash :: string
  usr_role :: role
  usr_status :: user_status
  usr_pending :: bool
  usr_password_change_required :: bool
  usr_email_verified_at :: "time option"
  usr_source_connector_id :: "string option"
  usr_external_id :: "string option"
  usr_source_active :: bool
  usr_locally_disabled :: bool
  usr_ends_at :: "int option"
  usr_created_at :: time
  usr_updated_at :: time

record evidence =
  ev_primary_at :: "time option"
  ev_factor_at :: "time option"
  ev_factor_method :: string

record session =
  ses_id :: string
  ses_user_id :: string
  ses_token_hash :: string
  ses_ip_address :: string
  ses_user_agent :: string
  ses_expires_at :: time
  ses_created_at :: time
  ses_last_active_at :: time
  ses_evidence :: evidence
  ses_enrollment_only :: bool

record login_failure =
  lf_user_id :: string
  lf_source :: string
  lf_failures :: nat
  lf_last_failure_at :: time

datatype mfa_kind = Totp | Push

record mfa_method =
  mm_id :: string
  mm_user_id :: string
  mm_method_type :: mfa_kind
  mm_encrypted_secret :: string
  mm_is_primary :: bool
  mm_last_totp_counter :: int
  mm_created_at :: time

datatype challenge_status = ChPending | ChApproved | ChDenied | ChExpired

record mfa_challenge =
  mc_id :: string
  mc_user_id :: string
  mc_method_type :: string
  mc_match_digits :: string
  mc_decoy_digits :: string
  mc_status :: challenge_status
  mc_purpose :: string
  mc_expires_at :: time
  mc_created_at :: time
  mc_verified_at :: "time option"

record mfa_token =
  mt_id :: string
  mt_user_id :: string
  mt_token_hash :: string
  mt_challenge_id :: "string option"
  mt_attempts :: nat
  mt_expires_at :: time
  mt_used_at :: "time option"
  mt_created_at :: time
  mt_primary_at :: "time option"
  mt_interaction_hash :: string

record recovery_code =
  rc_id :: string
  rc_user_id :: string
  rc_code_hash :: string
  rc_used_at :: "time option"
  rc_created_at :: time

record webauthn_credential =
  wc_id :: string
  wc_user_id :: string
  wc_credential_id :: string
  wc_public_key :: string
  wc_sign_count :: nat
  wc_name :: string
  wc_backup_eligible :: bool
  wc_backup_state :: bool
  wc_last_used_at :: "time option"
  wc_created_at :: time

record webauthn_challenge =
  wch_id :: string
  wch_user_id :: string
  wch_challenge :: string
  wch_purpose :: string
  wch_expires_at :: time
  wch_used_at :: "time option"
  wch_created_at :: time

record native_device =
  nd_id :: string
  nd_user_id :: string
  nd_device_name :: string
  nd_device_identifier :: string
  nd_platform :: string
  nd_public_key :: "string option"
  nd_push_token :: "string option"
  nd_push_token_updated_at_ms :: int
  nd_push_transport :: string
  nd_push_p256dh :: "string option"
  nd_push_auth :: "string option"
  nd_is_mfa_approver :: bool
  nd_can_sign_on :: bool
  nd_attested_level :: string
  nd_attested_at :: "time option"
  nd_boot_state :: string
  nd_attestation_serials :: "string list"
  nd_last_seen_at :: "time option"
  nd_created_at :: time

record pairing_token =
  pt_id :: string
  pt_user_id :: string
  pt_token_hash :: string
  pt_pin_hash :: string
  pt_sign_on :: bool
  pt_pin_failures :: nat
  pt_expires_at :: time
  pt_used_at :: "time option"
  pt_created_at :: time

datatype client_type = Public | Confidential

record oauth_client =
  oc_id :: string
  oc_client_name :: string
  oc_client_type :: client_type
  oc_client_secret_hash :: string
  oc_redirect_uris :: "string list"
  oc_allowed_scopes :: "string list"
  oc_post_logout_redirect_uris :: "string list"
  oc_backchannel_logout_uri :: string
  oc_enabled :: bool
  oc_created_at :: time

record auth_code =
  ac_id :: string
  ac_code_hash :: string
  ac_client_id :: string
  ac_user_id :: string
  ac_redirect_uri :: string
  ac_scope :: string
  ac_code_challenge :: string
  ac_code_challenge_method :: string
  ac_nonce :: string
  ac_expires_at :: time
  ac_used_at :: "time option"
  ac_created_at :: time
  ac_session_id :: string
  ac_evidence :: evidence
  ac_authentication_expires_at :: "time option"
  ac_auth_app_id :: string
  ac_auth_policy_revision :: int
  ac_role_revision :: int

record issued_token =
  it_jti :: string
  it_user_id :: string
  it_client_id :: string
  it_expires_at :: time
  it_revoked_at :: "time option"
  it_created_at :: time
  it_session_id :: "string option"
  it_family_jti :: "string option"

record policy_binding =
  pb_app_id :: string
  pb_auth_revision :: int
  pb_role_revision :: int

record device_binding =
  db_id :: string
  db_user_id :: string
  db_public_key :: string
  db_attested_level :: string

record refresh_family_row =
  rf_jti :: string
  rf_scope :: string
  rf_evidence :: evidence
  rf_policy :: policy_binding
  rf_idle_seconds :: int

record refresh_token =
  rt_token_hash :: string
  rt_family_jti :: string
  rt_expires_at :: time
  rt_used_at :: "time option"
  rt_created_at :: time

record step_up_token =
  su_id :: string
  su_user_id :: string
  su_session_id :: string
  su_token_hash :: string
  su_expires_at :: time
  su_used_at :: "time option"
  su_created_at :: time
  su_operation :: string
  su_factor_method :: string

record step_up_challenge =
  sc_token_hash :: string
  sc_user_id :: string
  sc_session_id :: string
  sc_operation :: string
  sc_method :: string
  sc_proof :: string
  sc_primary_at :: time
  sc_expires_at :: time
  sc_attempts :: nat
  sc_used_at :: "time option"

record interaction =
  ai_hash :: string
  ai_browser_hash :: string
  ai_user_id :: string
  ai_original_session_id :: string
  ai_session_id :: string
  ai_request :: string
  ai_created_at :: time
  ai_expires_at :: time
  ai_client_id :: string

record client_session =
  cs_sid :: string
  cs_client_id :: string
  cs_session_id :: string
  cs_user_id :: string
  cs_created_at :: time

datatype delivery_status = Queued | Delivered | Failed

record logout_delivery =
  ld_id :: string
  ld_client_id :: string
  ld_user_id :: string
  ld_sid :: string
  ld_status :: delivery_status
  ld_attempts :: nat
  ld_last_error :: string
  ld_claim_token :: string
  ld_lease_until :: "time option"
  ld_next_attempt_at :: time
  ld_created_at :: time
  ld_updated_at :: time

datatype link_kind = Activation | Reset
datatype link_delivery = Manual | Email

record account_token =
  at_id :: string
  at_user_id :: string
  at_kind :: link_kind
  at_token_hash :: string
  at_delivery :: link_delivery
  at_expires_at :: time
  at_used_at :: "time option"
  at_created_at :: time

datatype access_mode = AssignedOnly | AllActiveUsers

record auth_policy =
  ap_mode :: string
  ap_primary_max_age :: int
  ap_factor :: string
  ap_factor_max_age :: int
  ap_refresh_idle :: int
  ap_refresh_lifetime :: int

record app_row =
  app_id :: string
  app_revision :: int
  app_client_id :: "string option"
  app_launcher_id :: "string option"
  app_system_id :: "string option"
  app_access_mode :: access_mode
  app_enabled :: bool
  app_authentication :: auth_policy
  app_auth_revision :: int
  app_role_revision :: int
  app_legacy_role_claim :: bool
  app_groups_claim :: bool
  app_requestable :: bool

record user_assignment =
  ua_app_id :: string
  ua_user_id :: string
  ua_expires_at :: "int option"

record group_assignment =
  ga_app_id :: string
  ga_group_id :: string

record directory_group =
  dg_id :: string
  dg_name :: string
  dg_description :: string
  dg_source_connector_id :: "string option"
  dg_external_id :: "string option"
  dg_created_at :: time
  dg_updated_at :: time

record membership =
  gm_group_id :: string
  gm_user_id :: string
  gm_expires_at :: "int option"

datatype delegation_kind = Helpdesk | Auditor | AppOwner

record delegation =
  de_user_id :: string
  de_kind :: delegation_kind
  de_app_id :: "string option"
  de_created_at :: time

record enrollment_policy_row =
  ep_scope :: string
  ep_group_id :: "string option"
  ep_required :: bool
  ep_allowed_mask :: nat
  ep_grace_seconds :: int
  ep_revision :: int

record enrollment_deadline =
  ed_user_id :: string
  ed_scope :: string
  ed_due_at :: int

datatype json =
    JNull | JBool bool | JNum int | JStr string
  | JArr "json list" | JObj "(string \<times> json) list"

datatype outcome = Success | Failure | Denied

record audit_event =
  au_id :: string
  au_actor_id :: string
  au_actor_username :: string
  au_action :: string
  au_target_id :: string
  au_target_type :: string
  au_ip_address :: string
  au_user_agent :: string
  au_outcome :: outcome
  au_details :: json
  au_created_at :: "time option"

datatype system_status = SysActive | SysFailing | SysDisabled

record paired_system =
  ps_id :: string
  ps_name :: string
  ps_system_type :: string
  ps_description :: string
  ps_icon_url :: string
  ps_callback_url :: string
  ps_hmac_secret_encrypted :: string
  ps_status :: system_status
  ps_last_synced_at :: "time option"
  ps_created_at :: time
  ps_groups_enabled :: bool
  ps_reconcile_hours :: int
  ps_provisioning_hold :: bool

datatype resource_kind = UserResource | GroupResource

record sync_state =
  ss_system_id :: string
  ss_resource_id :: string
  ss_kind :: resource_kind
  ss_active :: bool
  ss_provisioned :: bool
  ss_revision :: int
  ss_members :: string
  ss_delivery_revision :: int
  ss_offboarded_at :: "time option"
  ss_observed :: string
  ss_observed_at :: "time option"

text \<open>
  The body of an outbox event, as the value its JSON text encodes. A profile that only
  states an identifier and \<open>active: false\<close> has no names and no role list.
\<close>

record scim_profile =
  sp_id :: string
  sp_user_name :: string
  sp_display_name :: string
  sp_email :: string
  sp_active :: bool
  sp_status :: "string option"
  sp_created :: "time option"
  sp_last_modified :: "time option"
  sp_roles :: "(string \<times> bool) list option"

datatype payload = Profile scim_profile | GroupBody string

datatype event_status = EvPending | EvDelivered | EvFailed

record sync_event =
  se_id :: string
  se_user_id :: string
  se_system_id :: string
  se_event_type :: string
  se_payload :: payload
  se_attempts :: int
  se_status :: event_status
  se_last_error :: "string option"
  se_next_attempt_at :: "time option"
  se_created_at :: time
  se_updated_at :: time
  se_claim_token :: string
  se_revision :: int
  se_delivery_revision :: int
  se_lease_until :: "time option"

record delivery_attempt =
  da_system_id :: string
  da_user_id :: string
  da_token :: string
  da_event_id :: string
  da_event_type :: string
  da_started_at :: time
  da_recover_after :: time

record scim_link =
  lk_system_id :: string
  lk_local_id :: string
  lk_kind :: resource_kind
  lk_remote_id :: string

record app_role =
  ar_id :: string
  ar_app_id :: string
  ar_name :: string
  ar_description :: string
  ar_created_at :: time
  ar_administrator :: bool

record role_user =
  ru_role_id :: string
  ru_user_id :: string

record role_group =
  rg_role_id :: string
  rg_group_id :: string

datatype request_status = RqPending | RqApproved | RqDenied | RqCancelled | RqExpired

record access_request =
  rq_id :: string
  rq_app_id :: string
  rq_user_id :: string
  rq_reason :: string
  rq_duration_seconds :: int
  rq_status :: request_status
  rq_created_at :: time
  rq_expires_at :: int
  rq_decided_at :: "time option"
  rq_decided_by :: string
  rq_decision_note :: string

datatype connector_status = ConnectorActive | ConnectorDisabled
datatype scim_scope = ScopeRead | ScopeWrite

record scim_connector =
  sco_id :: string
  sco_name :: string
  sco_status :: connector_status
  sco_created_at :: time
  sco_updated_at :: time

record scim_connector_token =
  sct_id :: string
  sct_connector_id :: string
  sct_token_hash :: string
  sct_scope :: scim_scope
  sct_created_at :: time
  sct_last_used_at :: "time option"
  sct_revoked_at :: "time option"

record drift_entry =
  dr_id :: string
  dr_username :: string
  dr_reason :: string

record drift_report =
  rp_supported :: bool
  rp_complete :: bool
  rp_repaired :: bool
  rp_listed_users :: nat
  rp_unrelated :: nat
  rp_missing_count :: nat
  rp_stale_count :: nat
  rp_orphaned_count :: nat
  rp_missing :: "drift_entry list"
  rp_stale :: "drift_entry list"
  rp_orphaned :: "drift_entry list"
  rp_groups_requeued :: nat
  rp_groups_orphaned :: nat
  rp_mapping_conflicts :: nat
  rp_listing_error :: string

datatype job_kind = Preview | Repair
datatype job_status = JobQueued | JobRunning | JobDone | JobFailed

record reconcile_job =
  rj_id :: string
  rj_system_id :: string
  rj_kind :: job_kind
  rj_status :: job_status
  rj_requested_by :: string
  rj_claim_token :: string
  rj_attempts :: nat
  rj_created_at :: time
  rj_lease_until :: "time option"
  rj_started_at :: "time option"
  rj_finished_at :: "time option"
  rj_result :: "drift_report option"
  rj_error :: string

record launcher_group =
  lg_name :: string
  lg_apps :: "string list"

record launcher_prefs =
  lp_layout :: string
  lp_groups :: "launcher_group list"
  lp_hidden :: "string list"

record launcher_prefs_row =
  lpr_user_id :: string
  lpr_prefs :: launcher_prefs
  lpr_updated_at :: time

record session_limits =
  sl_absolute :: int
  sl_idle :: int

section \<open>The database\<close>

text \<open>
  The tables, the cached session limits of \<open>Store.limits\<close>, and the random source: every
  UUID and random token the process will draw, in order (\<open>rand_src\<close>), with the position of the
  next one. The source itself (\<open>crypto/rand\<close>, the uuid package, SQLite's
  \<open>randomblob\<close>) is not part of the repository, so it is a component of the state that operations
  only read and advance.
\<close>

record db =
  users :: "user list"
  sessions :: "session list"
  login_failures :: "login_failure list"
  mfa_methods :: "mfa_method list"
  mfa_challenges :: "mfa_challenge list"
  mfa_tokens :: "mfa_token list"
  recovery_codes :: "recovery_code list"
  webauthn_credentials :: "webauthn_credential list"
  webauthn_challenges :: "webauthn_challenge list"
  native_devices :: "native_device list"
  pairing_tokens :: "pairing_token list"
  signon_jtis :: "(string \<times> time) list"
  oauth_clients :: "oauth_client list"
  authorization_codes :: "auth_code list"
  issued_tokens :: "issued_token list"
  refresh_families :: "refresh_family_row list"
  refresh_tokens :: "refresh_token list"
  step_up_tokens :: "step_up_token list"
  step_up_challenges :: "step_up_challenge list"
  interactions :: "interaction list"
  client_sessions :: "client_session list"
  logout_deliveries :: "logout_delivery list"
  account_tokens :: "account_token list"
  app_registry :: "app_row list"
  user_assignments :: "user_assignment list"
  group_assignments :: "group_assignment list"
  directory_groups :: "directory_group list"
  group_memberships :: "membership list"
  admin_delegations :: "delegation list"
  enrollment_policies :: "enrollment_policy_row list"
  enrollment_deadlines :: "enrollment_deadline list"
  paired_systems :: "paired_system list"
  sync_states :: "sync_state list"
  sync_events :: "sync_event list"
  delivery_attempts :: "delivery_attempt list"
  scim_links :: "scim_link list"
  app_roles :: "app_role list"
  role_users :: "role_user list"
  role_groups :: "role_group list"
  access_requests :: "access_request list"
  scim_connectors :: "scim_connector list"
  scim_connector_tokens :: "scim_connector_token list"
  reconcile_jobs :: "reconcile_job list"
  launcher_prefs_rows :: "launcher_prefs_row list"
  audit_events :: "audit_event list"
  system_settings :: "(string \<times> json) list"
  limits :: "session_limits option"
  rand_src :: "nat \<Rightarrow> string"
  rand_pos :: nat

type_synonym 'a tx = "err + ('a \<times> db)"

section \<open>Random identifiers\<close>

definition fresh_id :: "db \<Rightarrow> string \<times> db" where
  "fresh_id d = (rand_src d (rand_pos d), d\<lparr>rand_pos := Suc (rand_pos d)\<rparr>)"

section \<open>Foreign keys: what a deletion takes with it\<close>

text \<open>Deleting sessions removes their pending step-up challenges and the \<open>sid\<close> rows.\<close>

definition delete_sessions :: "(session \<Rightarrow> bool) \<Rightarrow> db \<Rightarrow> db" where
  "delete_sessions p d =
     (let gone = (\<lambda>sid. \<exists>s \<in> set (sessions d). p s \<and> ses_id s = sid)
      in d\<lparr>sessions := sql_delete p (sessions d),
           step_up_challenges := sql_delete (\<lambda>c. gone (sc_session_id c)) (step_up_challenges d),
           client_sessions := sql_delete (\<lambda>c. gone (cs_session_id c)) (client_sessions d)\<rparr>)"

text \<open>Deleting token rows removes the refresh families stored under them and their tokens.\<close>

definition delete_issued_tokens :: "(issued_token \<Rightarrow> bool) \<Rightarrow> db \<Rightarrow> db" where
  "delete_issued_tokens p d =
     (let gone = (\<lambda>j. \<exists>t \<in> set (issued_tokens d). p t \<and> it_jti t = j)
      in d\<lparr>issued_tokens := sql_delete p (issued_tokens d),
           refresh_families := sql_delete (\<lambda>f. gone (rf_jti f)) (refresh_families d),
           refresh_tokens := sql_delete (\<lambda>r. gone (rt_family_jti r)) (refresh_tokens d)\<rparr>)"

text \<open>Deleting an account removes everything that names it.\<close>

definition delete_user :: "string \<Rightarrow> db \<Rightarrow> db" where
  "delete_user uid d =
     (let d1 = delete_issued_tokens (\<lambda>t. it_user_id t = uid)
                 (delete_sessions (\<lambda>s. ses_user_id s = uid) d)
      in d1\<lparr>users := sql_delete (\<lambda>u. usr_id u = uid) (users d1),
            login_failures := sql_delete (\<lambda>r. lf_user_id r = uid) (login_failures d1),
            mfa_methods := sql_delete (\<lambda>r. mm_user_id r = uid) (mfa_methods d1),
            mfa_challenges := sql_delete (\<lambda>r. mc_user_id r = uid) (mfa_challenges d1),
            mfa_tokens := sql_delete (\<lambda>r. mt_user_id r = uid) (mfa_tokens d1),
            recovery_codes := sql_delete (\<lambda>r. rc_user_id r = uid) (recovery_codes d1),
            webauthn_credentials := sql_delete (\<lambda>r. wc_user_id r = uid) (webauthn_credentials d1),
            webauthn_challenges := sql_delete (\<lambda>r. wch_user_id r = uid) (webauthn_challenges d1),
            native_devices := sql_delete (\<lambda>r. nd_user_id r = uid) (native_devices d1),
            pairing_tokens := sql_delete (\<lambda>r. pt_user_id r = uid) (pairing_tokens d1),
            authorization_codes := sql_delete (\<lambda>r. ac_user_id r = uid) (authorization_codes d1),
            step_up_tokens := sql_delete (\<lambda>r. su_user_id r = uid) (step_up_tokens d1),
            step_up_challenges := sql_delete (\<lambda>r. sc_user_id r = uid) (step_up_challenges d1),
            account_tokens := sql_delete (\<lambda>r. at_user_id r = uid) (account_tokens d1),
            user_assignments := sql_delete (\<lambda>r. ua_user_id r = uid) (user_assignments d1),
            group_memberships := sql_delete (\<lambda>r. gm_user_id r = uid) (group_memberships d1),
            admin_delegations := sql_delete (\<lambda>r. de_user_id r = uid) (admin_delegations d1),
            role_users := sql_delete (\<lambda>r. ru_user_id r = uid) (role_users d1),
            access_requests := sql_delete (\<lambda>r. rq_user_id r = uid) (access_requests d1),
            launcher_prefs_rows := sql_delete (\<lambda>r. lpr_user_id r = uid) (launcher_prefs_rows d1),
            enrollment_deadlines := sql_delete (\<lambda>r. ed_user_id r = uid) (enrollment_deadlines d1)\<rparr>)"

section \<open>Audit rows\<close>

text \<open>
  A nil event owes no row. The row commits with the mutation it describes; an identifier already
  used violates the primary key and rolls the mutation back.
\<close>

definition recordAuditTx :: "audit_event option \<Rightarrow> time \<Rightarrow> db \<Rightarrow> err + db" where
  "recordAuditTx audit now d =
     (case audit of
        None \<Rightarrow> Inr d
      | Some e \<Rightarrow>
          (let e' = (if au_created_at e = None then e\<lparr>au_created_at := Some now\<rparr> else e)
           in if \<exists>x \<in> set (audit_events d). au_id x = au_id e' then Inl ErrUnique
              else Inr (d\<lparr>audit_events := sql_insert e' (audit_events d)\<rparr>)))"

definition auditedTx :: "audit_event option \<Rightarrow> time \<Rightarrow> (db \<Rightarrow> 'a tx) \<Rightarrow> db \<Rightarrow> 'a tx" where
  "auditedTx audit now fn d =
     andthen (fn d) (\<lambda>(x, d1). andthen (recordAuditTx audit now d1) (\<lambda>d2. Inr (x, d2)))"

lemma recordAuditTx_InrD:
  "recordAuditTx audit now d = Inr d' \<Longrightarrow> \<exists>es. d' = d\<lparr>audit_events := es\<rparr>"
  by (rule exI[of _ "audit_events d'"])
     (auto simp: recordAuditTx_def Let_def split: option.splits if_splits)

lemma recordAuditTx_None [simp]: "recordAuditTx None now d = Inr d"
  by (simp add: recordAuditTx_def)

lemma auditedTx_InrD:
  assumes "auditedTx audit now fn d = Inr (x, d')"
  obtains d1 es where "fn d = Inr (x, d1)" and "d' = d1\<lparr>audit_events := es\<rparr>"
  using assms by (auto simp: auditedTx_def result_iffs dest!: recordAuditTx_InrD)

lemma auditedTx_None [simp]: "auditedTx None now fn d = fn d"
  by (cases "fn d") (auto simp: auditedTx_def)

section \<open>Key constraints\<close>

text \<open>The primary keys and uniqueness constraints the proofs rely on.\<close>

definition wf_keys :: "db \<Rightarrow> bool" where
  "wf_keys d \<longleftrightarrow>
     distinct (map usr_id (users d)) \<and>
     distinct (map ses_id (sessions d)) \<and>
     distinct (map ses_token_hash (sessions d)) \<and>
     distinct (map (\<lambda>f. (lf_user_id f, lf_source f)) (login_failures d)) \<and>
     distinct (map mt_id (mfa_tokens d)) \<and>
     distinct (map oc_id (oauth_clients d)) \<and>
     distinct (map ac_id (authorization_codes d)) \<and>
     distinct (map it_jti (issued_tokens d)) \<and>
     distinct (map rf_jti (refresh_families d)) \<and>
     distinct (map rt_token_hash (refresh_tokens d)) \<and>
     distinct (map su_token_hash (step_up_tokens d)) \<and>
     distinct (map sc_token_hash (step_up_challenges d)) \<and>
     distinct (map ai_hash (interactions d)) \<and>
     distinct (map at_token_hash (account_tokens d)) \<and>
     distinct (map app_id (app_registry d)) \<and>
     distinct (map app_client_id (filter (\<lambda>a. app_client_id a \<noteq> None) (app_registry d)))"

text \<open>An empty database over a given random source: the state after the schema is created.\<close>

definition empty_db :: "(nat \<Rightarrow> string) \<Rightarrow> db" where
  "empty_db src = \<lparr>users = [], sessions = [], login_failures = [], mfa_methods = [],
     mfa_challenges = [], mfa_tokens = [], recovery_codes = [], webauthn_credentials = [],
     webauthn_challenges = [], native_devices = [], pairing_tokens = [], signon_jtis = [],
     oauth_clients = [], authorization_codes = [], issued_tokens = [], refresh_families = [],
     refresh_tokens = [], step_up_tokens = [], step_up_challenges = [], interactions = [],
     client_sessions = [], logout_deliveries = [], account_tokens = [], app_registry = [],
     user_assignments = [], group_assignments = [], directory_groups = [], group_memberships = [],
     admin_delegations = [],
     enrollment_policies =
       [\<lparr>ep_scope = ''organization'', ep_group_id = None, ep_required = False,
         ep_allowed_mask = 7, ep_grace_seconds = 0, ep_revision = 1\<rparr>,
        \<lparr>ep_scope = ''administrators'', ep_group_id = None, ep_required = False,
         ep_allowed_mask = 7, ep_grace_seconds = 0, ep_revision = 1\<rparr>],
     enrollment_deadlines = [], paired_systems = [], sync_states = [], sync_events = [],
     delivery_attempts = [], scim_links = [], app_roles = [], role_users = [], role_groups = [],
     access_requests = [], scim_connectors = [], scim_connector_tokens = [], reconcile_jobs = [],
     launcher_prefs_rows = [], audit_events = [], system_settings = [], limits = None,
     rand_src = src, rand_pos = 0\<rparr>"

end
