(* ===== verification/Ky_Sample.thy ===== *)
theory Ky_Sample
  imports Ky_Schema
begin

text \<open>
  A small concrete directory used to exhibit inputs at which the properties' hypotheses hold: an
  administrator \<open>root\<close> with no end date, a user \<open>ann\<close> with two browser sessions, one OAuth
  client with its app (assigned users only, a direct grant that ends), and a random source that
  never repeats.
\<close>

definition sample_now :: time where
  "sample_now = 1000 * second"

definition sample_src :: "nat \<Rightarrow> string" where
  "sample_src n = CHR ''r'' # replicate n (CHR ''x'')"

definition sample_root :: user where
  "sample_root = \<lparr>usr_id = ''u0'', usr_username = ''root'', usr_display_name = ''Root'',
     usr_email = ''root@example'', usr_password_hash = ''h0'', usr_role = RoleAdmin,
     usr_status = Active, usr_pending = False, usr_password_change_required = False,
     usr_email_verified_at = None, usr_source_connector_id = None, usr_external_id = None,
     usr_source_active = True, usr_locally_disabled = False, usr_ends_at = None,
     usr_created_at = 0, usr_updated_at = 0\<rparr>"

definition sample_ann :: user where
  "sample_ann = \<lparr>usr_id = ''u1'', usr_username = ''ann'', usr_display_name = ''Ann'',
     usr_email = ''ann@example'', usr_password_hash = ''h1'', usr_role = RoleUser,
     usr_status = Active, usr_pending = False, usr_password_change_required = False,
     usr_email_verified_at = None, usr_source_connector_id = None, usr_external_id = None,
     usr_source_active = True, usr_locally_disabled = False, usr_ends_at = None,
     usr_created_at = 0, usr_updated_at = 0\<rparr>"

definition sample_evidence :: evidence where
  "sample_evidence = \<lparr>ev_primary_at = Some (990 * second), ev_factor_at = Some (991 * second),
     ev_factor_method = ''totp''\<rparr>"

definition sample_session :: "string \<Rightarrow> string \<Rightarrow> session" where
  "sample_session sid uid = \<lparr>ses_id = sid, ses_user_id = uid, ses_token_hash = ''t'' @ sid,
     ses_ip_address = ''192.0.2.1'', ses_user_agent = ''browser'',
     ses_expires_at = 90000 * second, ses_created_at = 990 * second,
     ses_last_active_at = 995 * second, ses_evidence = sample_evidence,
     ses_enrollment_only = False\<rparr>"

definition sample_client :: oauth_client where
  "sample_client = \<lparr>oc_id = ''c1'', oc_client_name = ''Notes'', oc_client_type = Confidential,
     oc_client_secret_hash = ''sh'', oc_redirect_uris = [''https://notes.example/cb''],
     oc_allowed_scopes = [''openid''], oc_post_logout_redirect_uris = [],
     oc_backchannel_logout_uri = ''https://notes.example/logout'', oc_enabled = True,
     oc_created_at = 0\<rparr>"

definition sample_policy :: auth_policy where
  "sample_policy = \<lparr>ap_mode = ''max_age'', ap_primary_max_age = 3600, ap_factor = ''mfa'',
     ap_factor_max_age = 600, ap_refresh_idle = 600, ap_refresh_lifetime = 3600\<rparr>"

definition sample_app :: app_row where
  "sample_app = \<lparr>app_id = ''a1'', app_revision = 1, app_client_id = Some ''c1'',
     app_launcher_id = None, app_system_id = None, app_access_mode = AssignedOnly,
     app_enabled = True, app_authentication = sample_policy, app_auth_revision = 1,
     app_role_revision = 0, app_legacy_role_claim = False, app_groups_claim = False,
     app_requestable = False\<rparr>"

definition sample_db :: db where
  "sample_db = (empty_db sample_src)
     \<lparr>users := [sample_root, sample_ann],
      sessions := [sample_session ''s0'' ''u0'', sample_session ''s1'' ''u1'', sample_session ''s2'' ''u1''],
      oauth_clients := [sample_client], app_registry := [sample_app],
      user_assignments := [\<lparr>ua_app_id = ''a1'', ua_user_id = ''u1'', ua_expires_at = Some 2000\<rparr>],
      client_sessions := [\<lparr>cs_sid = ''sid1'', cs_client_id = ''c1'', cs_session_id = ''s1'',
        cs_user_id = ''u1'', cs_created_at = 0\<rparr>]\<rparr>"

lemmas sample_defs = sample_db_def sample_app_def sample_policy_def sample_client_def
  sample_session_def sample_evidence_def sample_ann_def sample_root_def sample_src_def
  sample_now_def empty_db_def

lemma sample_wf_keys: "wf_keys sample_db"
  by (simp add: wf_keys_def sample_defs)

end
