(* ===== verification/Ky_Access.thy ===== *)
theory Ky_Access
  imports Ky_Schema Ky_Sample
begin

text \<open>
  Application access (\<^verbatim>\<open>internal/store/app_access.go\<close>, the views of \<open>migrateAppAccess\<close>;
  \<^verbatim>\<open>explain.go\<close>, the reason; \<^verbatim>\<open>expiry.go\<close>, the end of access). The SQL views are functions
  of the clock and the tables, evaluated afresh by every decision that reads them.
\<close>

section \<open>The access views\<close>

definition live_until :: "int option \<Rightarrow> time \<Rightarrow> bool" where
  "live_until e now = (case e of None \<Rightarrow> True | Some v \<Rightarrow> unixepoch now < v)"

definition live_group_memberships :: "time \<Rightarrow> db \<Rightarrow> membership list" where
  "live_group_memberships now d = filter (\<lambda>m. live_until (gm_expires_at m) now) (group_memberships d)"

record access_facts =
  af_app_id :: string
  af_user_id :: string
  af_active :: bool
  af_access_mode :: access_mode
  af_enabled :: bool
  af_client_enabled :: bool
  af_direct :: bool
  af_group_assigned :: bool

definition access_facts_row :: "time \<Rightarrow> db \<Rightarrow> app_row \<Rightarrow> user \<Rightarrow> access_facts" where
  "access_facts_row now d a u =
     \<lparr>af_app_id = app_id a, af_user_id = usr_id u,
      af_active = (usr_status u = Active \<and> live_until (usr_ends_at u) now),
      af_access_mode = app_access_mode a, af_enabled = app_enabled a,
      af_client_enabled = (case app_client_id a of None \<Rightarrow> True
        | Some c \<Rightarrow> (\<exists>x \<in> set (oauth_clients d). oc_id x = c \<and> oc_enabled x)),
      af_direct = (\<exists>x \<in> set (user_assignments d). ua_app_id x = app_id a \<and> ua_user_id x = usr_id u
        \<and> live_until (ua_expires_at x) now),
      af_group_assigned = (\<exists>g \<in> set (group_assignments d). \<exists>m \<in> set (live_group_memberships now d).
        gm_group_id m = ga_group_id g \<and> ga_app_id g = app_id a \<and> gm_user_id m = usr_id u)\<rparr>"

definition app_access_facts :: "time \<Rightarrow> db \<Rightarrow> access_facts list" where
  "app_access_facts now d =
     concat (map (\<lambda>a. map (access_facts_row now d a) (users d)) (app_registry d))"

definition appAllowedSQL :: "access_mode \<Rightarrow> bool \<Rightarrow> access_facts \<Rightarrow> bool" where
  "appAllowedSQL mode enabled f \<longleftrightarrow> af_active f \<and> af_client_enabled f \<and> enabled
     \<and> (mode = AllActiveUsers \<or> af_direct f \<or> af_group_assigned f)"

definition effective_app_access :: "time \<Rightarrow> db \<Rightarrow> (string \<times> string) list" where
  "effective_app_access now d =
     map (\<lambda>f. (af_app_id f, af_user_id f))
       (filter (\<lambda>f. appAllowedSQL (af_access_mode f) (af_enabled f) f) (app_access_facts now d))"

definition accessReasonSQL :: "access_facts \<Rightarrow> string" where
  "accessReasonSQL f =
     (if \<not> af_active f then ''user_disabled''
      else if \<not> af_enabled f then ''app_disabled''
      else if \<not> af_client_enabled f then ''client_disabled''
      else if af_access_mode f = AllActiveUsers then ''all_active_users''
      else if af_direct f then ''direct_assignment''
      else if af_group_assigned f then ''group_assignment''
      else ''not_assigned'')"

section \<open>Decisions\<close>

definition ClientAccessAllowed :: "string \<Rightarrow> string \<Rightarrow> time \<Rightarrow> db \<Rightarrow> bool" where
  "ClientAccessAllowed userID clientID now d \<longleftrightarrow>
     (\<exists>e \<in> set (effective_app_access now d). \<exists>a \<in> set (app_registry d). \<exists>c \<in> set (oauth_clients d).
        app_id a = fst e \<and> app_client_id a = Some (oc_id c) \<and> snd e = userID \<and> oc_id c = clientID
        \<and> oc_enabled c)"

text \<open>The launcher keys of the apps a user reaches, and of every enabled app.\<close>

definition app_keys :: "app_row list \<Rightarrow> string list" where
  "app_keys as = concat (map (\<lambda>a.
     (case app_client_id a of Some c \<Rightarrow> if c \<noteq> '''' then [''client:'' @ c] else [] | None \<Rightarrow> []) @
     (case app_launcher_id a of Some l \<Rightarrow> if l \<noteq> '''' then [''custom:'' @ l] else [] | None \<Rightarrow> [])) as)"

definition LauncherAppAccess :: "string \<Rightarrow> time \<Rightarrow> db \<Rightarrow> string list" where
  "LauncherAppAccess userID now d =
     app_keys (filter (\<lambda>a. (app_id a, userID) \<in> set (effective_app_access now d)) (app_registry d))"

definition EnabledAppKeys :: "db \<Rightarrow> string list" where
  "EnabledAppKeys d = app_keys (filter app_enabled (app_registry d))"

text \<open>
  The loop of \<open>AccessEndsAt\<close> over the live grants: an unbounded grant ends it at once, otherwise
  the latest instant is kept. \<open>Inl ()\<close> is the early return.
\<close>

fun latest_grant :: "int option list \<Rightarrow> time option \<Rightarrow> unit + time option" where
  "latest_grant [] latest = Inr latest"
| "latest_grant (None # vs) latest = Inl ()"
| "latest_grant (Some v # vs) latest =
     latest_grant vs (case latest of None \<Rightarrow> Some (from_unix v)
       | Some l \<Rightarrow> if l < from_unix v then Some (from_unix v) else Some l)"

definition grant_expiries :: "string \<Rightarrow> string \<Rightarrow> time \<Rightarrow> db \<Rightarrow> int option list" where
  "grant_expiries appID userID now d =
     map ua_expires_at (filter (\<lambda>x. ua_app_id x = appID \<and> ua_user_id x = userID
        \<and> live_until (ua_expires_at x) now) (user_assignments d))
     @ concat (map (\<lambda>g. map gm_expires_at (filter (\<lambda>m. gm_group_id m = ga_group_id g
          \<and> ga_app_id g = appID \<and> gm_user_id m = userID \<and> live_until (gm_expires_at m) now)
        (group_memberships d))) (group_assignments d))"

definition AccessEndsAt :: "string \<Rightarrow> string \<Rightarrow> time \<Rightarrow> db \<Rightarrow> time option" where
  "AccessEndsAt userID clientID now d =
     (case sql_first (\<lambda>a. app_client_id a = Some clientID) (app_registry d) of
        None \<Rightarrow> None
      | Some a \<Rightarrow>
         (case sql_first (\<lambda>u. usr_id u = userID) (users d) of
            None \<Rightarrow> None
          | Some u \<Rightarrow>
             (let end = map_option from_unix (usr_ends_at u)
              in if app_access_mode a = AllActiveUsers then end
                 else case latest_grant (grant_expiries (app_id a) userID now d) None of
                        Inl _ \<Rightarrow> end
                      | Inr latest \<Rightarrow>
                          (case end of None \<Rightarrow> latest
                           | Some e \<Rightarrow> (case latest of None \<Rightarrow> Some e
                               | Some l \<Rightarrow> if l < e then Some l else Some e)))))"

section \<open>Reading the views\<close>

lemma live_until_simps [simp]: "live_until None now" "live_until (Some v) now \<longleftrightarrow> now < from_unix v"
  by (simp_all add: live_until_def unixepoch_less_iff)

lemma live_until_mono: "live_until e t \<Longrightarrow> s \<le> t \<Longrightarrow> live_until e s"
  by (cases e) auto

lemma access_facts_row_simps [simp]:
  "af_app_id (access_facts_row now d a u) = app_id a"
  "af_user_id (access_facts_row now d a u) = usr_id u"
  "af_access_mode (access_facts_row now d a u) = app_access_mode a"
  "af_enabled (access_facts_row now d a u) = app_enabled a"
  by (simp_all add: access_facts_row_def)

lemma effective_app_access_iff:
  "(aid, uid) \<in> set (effective_app_access now d) \<longleftrightarrow>
     (\<exists>a \<in> set (app_registry d). \<exists>u \<in> set (users d). app_id a = aid \<and> usr_id u = uid \<and>
        appAllowedSQL (app_access_mode a) (app_enabled a) (access_facts_row now d a u))"
  unfolding effective_app_access_def app_access_facts_def by (force simp: image_iff)

lemma find_filter: "(\<And>x. p x \<Longrightarrow> q x) \<Longrightarrow> List.find p (filter q xs) = List.find p xs"
  by (induction xs) auto

lemma find_app_by_client:
  assumes "wf_keys d" and "a \<in> set (app_registry d)" and "app_client_id a = Some c"
  shows "sql_first (\<lambda>x. app_client_id x = Some c) (app_registry d) = Some a"
proof -
  let ?t = "filter (\<lambda>a. app_client_id a \<noteq> None) (app_registry d)"
  have "distinct (map app_client_id ?t)" using assms(1) unfolding wf_keys_def by blast
  moreover have "a \<in> set ?t" using assms by simp
  ultimately have "List.find (\<lambda>x. app_client_id x = app_client_id a) ?t = Some a"
    by (rule find_key_eq)
  with assms(3) have "List.find (\<lambda>x. app_client_id x = Some c) ?t = Some a" by simp
  moreover have "List.find (\<lambda>x. app_client_id x = Some c) ?t =
      List.find (\<lambda>x. app_client_id x = Some c) (app_registry d)"
    by (rule find_filter) simp
  ultimately show ?thesis by simp
qed

lemma client_app_unique:
  assumes "wf_keys d" "a \<in> set (app_registry d)" "b \<in> set (app_registry d)"
    and "app_client_id a = Some c" "app_client_id b = Some c"
  shows "a = b"
  using find_app_by_client[OF assms(1,2,4)] find_app_by_client[OF assms(1,3,5)] by simp

lemma find_user_by_id:
  assumes "wf_keys d" and "u \<in> set (users d)"
  shows "sql_first (\<lambda>x. usr_id x = usr_id u) (users d) = Some u"
  using assms by (intro find_key_eq) (auto simp: wf_keys_def)

lemma user_unique:
  assumes "wf_keys d" "u \<in> set (users d)" "v \<in> set (users d)" "usr_id u = usr_id v"
  shows "u = v"
  using assms key_unique[of usr_id "users d"] by (simp add: wf_keys_def)

lemma app_unique:
  assumes "wf_keys d" "a \<in> set (app_registry d)" "b \<in> set (app_registry d)" "app_id a = app_id b"
  shows "a = b"
  using assms key_unique[of app_id "app_registry d"] by (simp add: wf_keys_def)

lemma effective_app_access_row:
  assumes "wf_keys d" "a \<in> set (app_registry d)" "u \<in> set (users d)"
  shows "(app_id a, usr_id u) \<in> set (effective_app_access now d) \<longleftrightarrow>
    appAllowedSQL (app_access_mode a) (app_enabled a) (access_facts_row now d a u)"
proof
  assume "(app_id a, usr_id u) \<in> set (effective_app_access now d)"
  then obtain b v where bv: "b \<in> set (app_registry d)" "v \<in> set (users d)" "app_id b = app_id a"
      "usr_id v = usr_id u" and ok: "appAllowedSQL (app_access_mode b) (app_enabled b) (access_facts_row now d b v)"
    unfolding effective_app_access_iff by blast
  have "b = a" using app_unique[OF assms(1) bv(1) assms(2) bv(3)] .
  moreover have "v = u" using user_unique[OF assms(1) bv(2) assms(3) bv(4)] .
  ultimately show "appAllowedSQL (app_access_mode a) (app_enabled a) (access_facts_row now d a u)"
    using ok by simp
next
  assume "appAllowedSQL (app_access_mode a) (app_enabled a) (access_facts_row now d a u)"
  then show "(app_id a, usr_id u) \<in> set (effective_app_access now d)"
    using assms(2,3) unfolding effective_app_access_iff by blast
qed

text \<open>One client has one app, so client access is the app's access with the client enabled.\<close>

lemma ClientAccessAllowed_iff:
  assumes "wf_keys d" "a \<in> set (app_registry d)" "app_client_id a = Some c" "u \<in> set (users d)"
  shows "ClientAccessAllowed (usr_id u) c now d \<longleftrightarrow>
    appAllowedSQL (app_access_mode a) (app_enabled a) (access_facts_row now d a u)"
proof
  assume "ClientAccessAllowed (usr_id u) c now d"
  then obtain e b where e: "e \<in> set (effective_app_access now d)" "snd e = usr_id u"
      and b: "b \<in> set (app_registry d)" "app_id b = fst e" "app_client_id b = Some c"
    unfolding ClientAccessAllowed_def by blast
  have "b = a" using client_app_unique[OF assms(1) b(1) assms(2) b(3) assms(3)] .
  with e b have "(app_id a, usr_id u) \<in> set (effective_app_access now d)" by (metis prod.collapse)
  then show "appAllowedSQL (app_access_mode a) (app_enabled a) (access_facts_row now d a u)"
    using effective_app_access_row[OF assms(1,2,4)] by blast
next
  assume ok: "appAllowedSQL (app_access_mode a) (app_enabled a) (access_facts_row now d a u)"
  then obtain x where x: "x \<in> set (oauth_clients d)" "oc_id x = c" "oc_enabled x"
    using assms(3) by (auto simp: appAllowedSQL_def access_facts_row_def)
  have "(app_id a, usr_id u) \<in> set (effective_app_access now d)"
    using ok effective_app_access_row[OF assms(1,2,4)] by blast
  then show "ClientAccessAllowed (usr_id u) c now d"
    unfolding ClientAccessAllowed_def using x assms(2,3)
    by (intro bexI[of _ "(app_id a, usr_id u)"] bexI[of _ a] bexI[of _ x]) simp_all
qed

section \<open>The reason and the verdict\<close>

lemma allowed_iff_reason:
  "appAllowedSQL (af_access_mode f) (af_enabled f) f \<longleftrightarrow>
     accessReasonSQL f \<in> {''all_active_users'', ''direct_assignment'', ''group_assignment''}"
  by (auto simp: appAllowedSQL_def accessReasonSQL_def)

text \<open>
  C31. The reason shown to administrators and the access verdict come from two SQL expressions; they
  never disagree: access to an app is effective exactly when the reason computed for that app and
  user names a grant (open to all, direct, or through a group).
\<close>

theorem access_reason_agrees:
  assumes "wf_keys d" and "a \<in> set (app_registry d)" and "u \<in> set (users d)"
  shows "(app_id a, usr_id u) \<in> set (effective_app_access now d) \<longleftrightarrow>
    accessReasonSQL (access_facts_row now d a u)
      \<in> {''all_active_users'', ''direct_assignment'', ''group_assignment''}"
  using effective_app_access_row[OF assms, of now] allowed_iff_reason[of "access_facts_row now d a u"]
  by simp

theorem access_reason_agrees_witness:
  "(''a1'', ''u1'') \<in> set (effective_app_access sample_now sample_db) \<and>
   accessReasonSQL (access_facts_row sample_now sample_db sample_app sample_ann) = ''direct_assignment''"
  using access_reason_agrees[OF sample_wf_keys, of sample_app sample_ann sample_now]
  by (simp add: sample_defs access_facts_row_def accessReasonSQL_def from_unix_def)

section \<open>When access ends\<close>

lemma latest_grant_spec:
  "latest_grant vs acc =
     (if None \<in> set vs then Inl ()
      else Inr (case fold (\<lambda>v. max (from_unix v)) (map the vs) of f \<Rightarrow>
        (case acc of Some l \<Rightarrow> Some (f l) | None \<Rightarrow> (case vs of [] \<Rightarrow> None
           | v # ws \<Rightarrow> Some (fold (\<lambda>v. max (from_unix v)) (map the ws) (from_unix (the v)))))))"
proof (induction vs acc rule: latest_grant.induct)
  case (3 v vs latest)
  then show ?case by (cases latest) (auto simp: max_def)
qed (auto split: option.splits)

lemma fold_max_less: "(t :: int) < fold (\<lambda>v. max (from_unix v)) vs l \<longleftrightarrow> t < l \<or> (\<exists>v \<in> set vs. t < from_unix v)"
  by (induction vs arbitrary: l) auto

text \<open>What the loop returns bounds exactly the instants at which some grant is still live.\<close>

lemma latest_grant_live:
  assumes "latest_grant vs None = r"
  shows "(\<exists>v \<in> set vs. live_until v t) \<longleftrightarrow>
    (case r of Inl _ \<Rightarrow> True | Inr None \<Rightarrow> False | Inr (Some l) \<Rightarrow> t < l)"
proof (cases "None \<in> set vs")
  case True
  then show ?thesis using assms latest_grant_spec[of vs None] by (auto intro: bexI[of _ None])
next
  case False
  note noNone = False
  show ?thesis
  proof (cases vs)
    case Nil
    then show ?thesis using assms by auto
  next
    case (Cons w ws)
    with False have "\<And>v. v \<in> set vs \<Longrightarrow> \<exists>x. v = Some x" by (metis option.exhaust)
    then have live: "v \<in> set vs \<Longrightarrow> live_until v t \<longleftrightarrow> t < from_unix (the v)" for v by force
    have "r = Inr (Some (fold (\<lambda>v. max (from_unix v)) (map the ws) (from_unix (the w))))"
      using assms noNone Cons latest_grant_spec[of vs None] by auto
    then show ?thesis using Cons live by (auto simp: fold_max_less)
  qed
qed

lemma grant_expiries_live:
  assumes "now \<le> t"
  shows "(\<exists>v \<in> set (grant_expiries (app_id a) (usr_id u) now d). live_until v t) \<longleftrightarrow>
    af_direct (access_facts_row t d a u) \<or> af_group_assigned (access_facts_row t d a u)"
  using assms live_until_mono[OF _ assms]
  by (fastforce simp: grant_expiries_def access_facts_row_def live_group_memberships_def)

text \<open>
  Tokens are bounded at issue by \<open>AccessEndsAt\<close>. For a user who has access to a client now, the
  instant it returns is exact: with the tables unchanged, access holds at every later instant before
  it and at no instant from it on; and when it returns nothing, access never lapses by itself.
\<close>

theorem access_ends_exactly:
  assumes "wf_keys d" and "ClientAccessAllowed userID clientID now d" and "now \<le> t"
  shows "ClientAccessAllowed userID clientID t d \<longleftrightarrow>
    (case AccessEndsAt userID clientID now d of None \<Rightarrow> True | Some e \<Rightarrow> t < e)"
proof -
  from assms(2) obtain a u where au: "a \<in> set (app_registry d)" "app_client_id a = Some clientID"
      "u \<in> set (users d)" "usr_id u = userID"
    unfolding ClientAccessAllowed_def by (auto simp: effective_app_access_iff)
  have allowed: "ClientAccessAllowed userID clientID s d \<longleftrightarrow>
      appAllowedSQL (app_access_mode a) (app_enabled a) (access_facts_row s d a u)" for s
    using ClientAccessAllowed_iff[OF assms(1) au(1,2,3)] au(4) by simp
  let ?r = "latest_grant (grant_expiries (app_id a) userID now d) None"
  have grants: "af_direct (access_facts_row s d a u) \<or> af_group_assigned (access_facts_row s d a u)
      \<longleftrightarrow> (case ?r of Inl _ \<Rightarrow> True | Inr None \<Rightarrow> False | Inr (Some l) \<Rightarrow> s < l)" if "now \<le> s" for s
    using latest_grant_live[of "grant_expiries (app_id a) userID now d" ?r s]
      grant_expiries_live[OF that, of a u d] au(4) by simp
  have ends: "AccessEndsAt userID clientID now d =
     (if app_access_mode a = AllActiveUsers then map_option from_unix (usr_ends_at u)
      else case ?r of Inl _ \<Rightarrow> map_option from_unix (usr_ends_at u)
        | Inr latest \<Rightarrow> (case map_option from_unix (usr_ends_at u) of None \<Rightarrow> latest
            | Some e \<Rightarrow> (case latest of None \<Rightarrow> Some e | Some l \<Rightarrow> if l < e then Some l else Some e)))"
    using find_app_by_client[OF assms(1) au(1,2)] find_user_by_id[OF assms(1) au(3)] au(4)
    by (simp add: AccessEndsAt_def Let_def)
  have now: "appAllowedSQL (app_access_mode a) (app_enabled a) (access_facts_row now d a u)"
    using assms(2) allowed by simp
  show ?thesis
    using now grants[OF assms(3)] grants[of now] unfolding allowed ends
    by (cases "usr_ends_at u"; cases ?r)
       (auto simp: appAllowedSQL_def access_facts_row_def split: option.splits if_splits)
qed

theorem access_ends_exactly_witness:
  "AccessEndsAt ''u1'' ''c1'' sample_now sample_db = Some (2000 * second) \<and>
   ClientAccessAllowed ''u1'' ''c1'' (1999 * second) sample_db \<and>
   \<not> ClientAccessAllowed ''u1'' ''c1'' (2000 * second) sample_db"
proof -
  have now: "ClientAccessAllowed ''u1'' ''c1'' sample_now sample_db" by code_simp
  have ends: "AccessEndsAt ''u1'' ''c1'' sample_now sample_db = Some (2000 * second)" by code_simp
  show ?thesis
    using access_ends_exactly[OF sample_wf_keys now, of "1999 * second"]
      access_ends_exactly[OF sample_wf_keys now, of "2000 * second"] ends
    by (simp add: sample_now_def)
qed

end
