(* ===== verification/Ky_AppAuth.thy ===== *)
theory Ky_AppAuth
  imports Ky_Schema Ky_Sample
begin

text \<open>
  Application authentication policies (\<^verbatim>\<open>internal/store/app_authentication.go\<close>): the validity
  check, the evidence check both the HTTP decision and the store's final transaction use, and the
  deadline a code inherits. Ages are multiplied into durations at Go's 64-bit width; the bounds of a
  valid policy keep that product from wrapping.
\<close>

definition RefreshEnabled :: "auth_policy \<Rightarrow> bool" where
  "RefreshEnabled p \<longleftrightarrow> ap_refresh_lifetime p > 0"

definition policy_Valid :: "auth_policy \<Rightarrow> bool" where
  "policy_Valid p \<longleftrightarrow>
     (ap_mode p = ''reuse'' \<or> ap_mode p = ''fresh'' \<or> ap_mode p = ''max_age'') \<and>
     (ap_factor p = ''password'' \<or> ap_factor p = ''mfa'' \<or> ap_factor p = ''passkey'') \<and>
     ap_primary_max_age p \<ge> 0 \<and> ap_primary_max_age p \<le> 2147483647 \<and>
     ap_factor_max_age p \<ge> 0 \<and> ap_factor_max_age p \<le> 2147483647 \<and>
     ((ap_mode p = ''max_age'' \<and> ap_primary_max_age p > 0)
       \<or> (ap_mode p \<noteq> ''max_age'' \<and> ap_primary_max_age p = 0)) \<and>
     (ap_factor p \<noteq> ''password'' \<or> ap_factor_max_age p = 0) \<and>
     ((ap_refresh_idle p = 0 \<and> ap_refresh_lifetime p = 0) \<or>
       (ap_refresh_idle p \<ge> 5 * 60 \<and> ap_refresh_idle p \<le> 24 * 60 * 60 \<and>
        ap_refresh_lifetime p \<ge> 15 * 60 \<and> ap_refresh_lifetime p \<le> 7 * 24 * 60 * 60 \<and>
        ap_refresh_idle p \<le> ap_refresh_lifetime p))"

text \<open>\<open>time.Duration(age) * time.Second\<close>, at 64 bits.\<close>

definition age_duration :: "int \<Rightarrow> duration" where
  "age_duration age = wrap64 (age * second)"

text \<open>A missing timestamp, or one that lies ahead of the clock, proves nothing.\<close>

definition proven_by :: "time option \<Rightarrow> time \<Rightarrow> bool" where
  "proven_by t now = (case t of None \<Rightarrow> False | Some x \<Rightarrow> x \<le> now)"

definition aged_out :: "time option \<Rightarrow> int \<Rightarrow> time \<Rightarrow> bool" where
  "aged_out t age now = (case t of None \<Rightarrow> False | Some x \<Rightarrow> x + age_duration age < now)"

text \<open>
  The checks in the source's order. \<open>max_age\<close> dereferences the password instant only after the first
  check has refused a missing one, so the \<open>None\<close> case of \<open>aged_out\<close> is never met.
\<close>

definition EvidenceReason :: "auth_policy \<Rightarrow> evidence \<Rightarrow> time \<Rightarrow> string" where
  "EvidenceReason p e now =
     (if (ap_mode p \<noteq> ''reuse'' \<or> ap_factor p \<noteq> ''password'') \<and> \<not> proven_by (ev_primary_at e) now
      then ''password_required''
      else if ap_mode p = ''max_age'' \<and> aged_out (ev_primary_at e) (ap_primary_max_age p) now
      then ''password_expired''
      else if ap_factor p \<noteq> ''password'' then
        (if \<not> proven_by (ev_factor_at e) now then ''factor_required''
         else if ap_factor p = ''passkey'' \<and> ev_factor_method e \<noteq> ''webauthn'' then ''passkey_required''
         else if ev_factor_method e \<noteq> ''totp'' \<and> ev_factor_method e \<noteq> ''push''
              \<and> ev_factor_method e \<noteq> ''webauthn'' then ''factor_required''
         else if ap_factor_max_age p > 0 \<and> aged_out (ev_factor_at e) (ap_factor_max_age p) now
         then ''factor_expired''
         else '''')
      else '''')"

definition Deadline :: "auth_policy \<Rightarrow> evidence \<Rightarrow> time option" where
  "Deadline p e =
     (let d1 = (if ap_mode p = ''max_age'' then
                  (case ev_primary_at e of None \<Rightarrow> None
                   | Some x \<Rightarrow> Some (x + age_duration (ap_primary_max_age p)))
                else None)
      in if ap_factor_max_age p > 0 then
           (case ev_factor_at e of None \<Rightarrow> d1
            | Some y \<Rightarrow> (let at = y + age_duration (ap_factor_max_age p)
                in case d1 of None \<Rightarrow> Some at | Some x \<Rightarrow> if at < x then Some at else Some x))
         else d1)"

section \<open>Lemmas\<close>

lemma age_duration_exact: "0 \<le> a \<Longrightarrow> a \<le> 2147483647 \<Longrightarrow> age_duration a = a * second"
  by (simp add: age_duration_def wrap64_def)

lemma proven_by_mono: "proven_by t now \<Longrightarrow> now \<le> later \<Longrightarrow> proven_by t later"
  by (auto simp: proven_by_def split: option.splits)

lemma proven_by_simps [simp]: "\<not> proven_by None now" "proven_by (Some x) now \<longleftrightarrow> x \<le> now"
  by (simp_all add: proven_by_def)

lemma aged_out_simps [simp]:
  "\<not> aged_out None a now" "aged_out (Some x) a now \<longleftrightarrow> x + age_duration a < now"
  by (simp_all add: aged_out_def)

lemma EvidenceReason_empty_iff:
  "EvidenceReason p e now = '''' \<longleftrightarrow>
     (ap_mode p = ''reuse'' \<and> ap_factor p = ''password'' \<or> proven_by (ev_primary_at e) now) \<and>
     \<not> (ap_mode p = ''max_age'' \<and> aged_out (ev_primary_at e) (ap_primary_max_age p) now) \<and>
     (ap_factor p = ''password'' \<or>
       proven_by (ev_factor_at e) now \<and>
       (ap_factor p = ''passkey'' \<longrightarrow> ev_factor_method e = ''webauthn'') \<and>
       ev_factor_method e \<in> {''totp'', ''push'', ''webauthn''} \<and>
       \<not> (ap_factor_max_age p > 0 \<and> aged_out (ev_factor_at e) (ap_factor_max_age p) now))"
  by (simp add: EvidenceReason_def)

text \<open>Only the ages can turn an accepted piece of evidence down later.\<close>

lemma evidence_later_iff:
  assumes "EvidenceReason p e now = ''''" and "now \<le> t"
  shows "EvidenceReason p e t = '''' \<longleftrightarrow>
     \<not> (ap_mode p = ''max_age'' \<and> aged_out (ev_primary_at e) (ap_primary_max_age p) t) \<and>
     (ap_factor p = ''password'' \<or>
       \<not> (ap_factor_max_age p > 0 \<and> aged_out (ev_factor_at e) (ap_factor_max_age p) t))"
  using assms(1) proven_by_mono[OF _ assms(2)] unfolding EvidenceReason_empty_iff by blast

lemma Deadline_limit:
  "(case Deadline p e of None \<Rightarrow> True | Some x \<Rightarrow> t \<le> x) \<longleftrightarrow>
     \<not> (ap_mode p = ''max_age'' \<and> aged_out (ev_primary_at e) (ap_primary_max_age p) t) \<and>
     \<not> (ap_factor_max_age p > 0 \<and> aged_out (ev_factor_at e) (ap_factor_max_age p) t)"
  by (cases "ev_primary_at e"; cases "ev_factor_at e"; cases "ap_mode p = ''max_age''")
     (simp_all add: Deadline_def Let_def, linarith+)

lemma policy_Valid_password: "policy_Valid p \<Longrightarrow> ap_factor p = ''password'' \<Longrightarrow> ap_factor_max_age p = 0"
  unfolding policy_Valid_def by blast

lemma policy_Valid_ages:
  "policy_Valid p \<Longrightarrow> age_duration (ap_primary_max_age p) = ap_primary_max_age p * second"
  "policy_Valid p \<Longrightarrow> age_duration (ap_factor_max_age p) = ap_factor_max_age p * second"
  unfolding policy_Valid_def by (blast intro: age_duration_exact)+

lemma evidence_deadline_iff:
  assumes "policy_Valid p" and "EvidenceReason p e now = ''''" and "now \<le> t"
  shows "EvidenceReason p e t = '''' \<longleftrightarrow> (case Deadline p e of None \<Rightarrow> True | Some x \<Rightarrow> t \<le> x)"
  using policy_Valid_password[OF assms(1)]
  unfolding evidence_later_iff[OF assms(2,3)] Deadline_limit by auto

text \<open>
  A policy's evidence check and the deadline it hands to a code are the same limit: evidence that
  satisfies a valid policy now keeps satisfying it exactly up to and including \<open>Deadline\<close>, and for
  ever when there is none.
\<close>

theorem evidence_until_deadline:
  assumes "policy_Valid p" and "EvidenceReason p e now = ''''" and "now \<le> t"
  shows "EvidenceReason p e t = '''' \<longleftrightarrow> (case Deadline p e of None \<Rightarrow> True | Some x \<Rightarrow> t \<le> x)"
  by (rule evidence_deadline_iff[OF assms])

theorem evidence_until_deadline_witness:
  "policy_Valid sample_policy \<and> EvidenceReason sample_policy sample_evidence sample_now = '''' \<and>
   Deadline sample_policy sample_evidence = Some (1591 * second) \<and>
   EvidenceReason sample_policy sample_evidence (1591 * second) = '''' \<and>
   EvidenceReason sample_policy sample_evidence (1591 * second + 1) \<noteq> ''''"
proof -
  have v: "policy_Valid sample_policy" by code_simp
  have e: "EvidenceReason sample_policy sample_evidence sample_now = ''''" by code_simp
  have d: "Deadline sample_policy sample_evidence = Some (1591 * second)" by code_simp
  show ?thesis
    using v e d evidence_until_deadline[OF v e, of "1591 * second"]
      evidence_until_deadline[OF v e, of "1591 * second + 1"]
    by (simp add: sample_now_def)
qed

text \<open>
  What an empty reason proves: the password was verified no later than now (unless the policy
  reuses any session), within the policy's age; and when a second factor is demanded, a real one was
  used, a passkey when the policy says so. A recovery code never satisfies a factor requirement.
\<close>

theorem evidence_accepted_means:
  assumes "policy_Valid p" and "EvidenceReason p e now = ''''"
  shows "(ap_mode p = ''reuse'' \<and> ap_factor p = ''password'' \<or>
      (\<exists>x. ev_primary_at e = Some x \<and> x \<le> now \<and>
        (ap_mode p = ''max_age'' \<longrightarrow> now \<le> x + ap_primary_max_age p * second))) \<and>
    (ap_factor p = ''password'' \<or>
      (\<exists>y. ev_factor_at e = Some y \<and> y \<le> now \<and>
        ev_factor_method e \<in> (if ap_factor p = ''passkey'' then {''webauthn''}
                              else {''totp'', ''push'', ''webauthn''}) \<and>
        (ap_factor_max_age p > 0 \<longrightarrow> now \<le> y + ap_factor_max_age p * second)))"
  using assms(2) policy_Valid_ages[OF assms(1)] unfolding EvidenceReason_empty_iff
  by (cases "ev_primary_at e"; cases "ev_factor_at e") (auto simp: not_less)

theorem evidence_accepted_means_witness:
  "ev_factor_at sample_evidence = Some (991 * second) \<and>
   ev_factor_method sample_evidence \<in> {''totp'', ''push'', ''webauthn''}"
proof -
  have v: "policy_Valid sample_policy" by code_simp
  have e: "EvidenceReason sample_policy sample_evidence sample_now = ''''" by code_simp
  show ?thesis
    using evidence_accepted_means[OF v e] by (simp add: sample_policy_def sample_evidence_def)
qed

end
