(* ===== verification/Ky_Enrollment.thy ===== *)
theory Ky_Enrollment
  imports Ky_Schema Ky_Sample
begin

text \<open>
  Factor enrollment policies (\<^verbatim>\<open>internal/store/enrollment_policy.go\<close> and
  \<^verbatim>\<open>group_enrollment.go\<close>): which factors an account has, which policies apply to it, what they
  require together, whether a session satisfies them, and the operations that edit a policy or a device
  without leaving a compliant account without a permitted factor.
\<close>

unbundle bit_operations_syntax

section \<open>Factors and policies\<close>

record enrollment_policy =
  pol_scope :: string
  pol_required :: bool
  pol_allowed_methods :: "string list"
  pol_grace_seconds :: int
  pol_revision :: int

definition factorBit :: "string \<Rightarrow> nat" where
  "factorBit m = (if m = ''totp'' then 1 else if m = ''push'' then 2
     else if m = ''webauthn'' then 4 else 0)"

definition factorNames :: "nat \<Rightarrow> string list" where
  "factorNames bits = filter (\<lambda>m. bits AND factorBit m \<noteq> 0) [''totp'', ''push'', ''webauthn'']"

text \<open>The loop of \<open>mask\<close>: an unknown or repeated name makes the whole mask zero.\<close>

fun mask_loop :: "string list \<Rightarrow> nat \<Rightarrow> nat" where
  "mask_loop [] acc = acc"
| "mask_loop (m # ms) acc =
     (let b = factorBit m
      in if b = 0 \<or> acc AND b \<noteq> 0 then 0 else mask_loop ms (acc OR b))"

definition policy_mask :: "enrollment_policy \<Rightarrow> nat" where
  "policy_mask p = mask_loop (pol_allowed_methods p) 0"

definition group_scope :: "string \<Rightarrow> bool" where
  "group_scope s \<longleftrightarrow> take 6 s = ''group:''"

definition enrollment_Valid :: "enrollment_policy \<Rightarrow> bool" where
  "enrollment_Valid p \<longleftrightarrow>
     (pol_scope p = ''organization'' \<or> pol_scope p = ''administrators'' \<or>
       (group_scope (pol_scope p) \<and> length (pol_scope p) > 6 \<and> length (pol_scope p) \<le> 512)) \<and>
     policy_mask p > 0 \<and> pol_grace_seconds p \<ge> 0 \<and> pol_grace_seconds p \<le> 90 * 86400 \<and>
     pol_revision p > 0"

section \<open>The views\<close>

definition enrolled_factors :: "db \<Rightarrow> (string \<times> nat) list" where
  "enrolled_factors d = remdups
     (map (\<lambda>m. (mm_user_id m, 1)) (filter (\<lambda>m. mm_method_type m = Totp) (mfa_methods d))
      @ map (\<lambda>n. (nd_user_id n, 2)) (filter (\<lambda>n. nd_is_mfa_approver n \<and> nd_public_key n \<noteq> None
           \<and> nd_public_key n \<noteq> Some '''') (native_devices d))
      @ map (\<lambda>c. (wc_user_id c, 4)) (webauthn_credentials d))"

definition administers :: "db \<Rightarrow> user \<Rightarrow> bool" where
  "administers d u \<longleftrightarrow> usr_role u = RoleAdmin \<or> (\<exists>x \<in> set (admin_delegations d). de_user_id x = usr_id u)"

text \<open>The scopes that apply to an account, as the subquery of the view lists them.\<close>

definition enrollment_scopes :: "db \<Rightarrow> user \<Rightarrow> string list" where
  "enrollment_scopes d u =
     [''organization''] @ (if administers d u then [''administrators''] else []) @
     map (\<lambda>m. ''group:'' @ gm_group_id m) (filter (\<lambda>m. gm_user_id m = usr_id u) (group_memberships d))"

definition required_policies :: "db \<Rightarrow> user \<Rightarrow> enrollment_policy_row list" where
  "required_policies d u =
     filter (\<lambda>p. ep_required p \<and> ep_scope p \<in> set (enrollment_scopes d u)) (enrollment_policies d)"

text \<open>\<open>MIN\<close> over a result set; SQL's \<open>NULL\<close> when the set is empty.\<close>

definition sql_min :: "'a::linorder list \<Rightarrow> 'a option" where
  "sql_min xs = (if xs = [] then None else Some (Min (set xs)))"

definition coalesce :: "'a option \<Rightarrow> 'a \<Rightarrow> 'a" where
  "coalesce o' v = (case o' of None \<Rightarrow> v | Some x \<Rightarrow> x)"

record enrollment_requirement =
  er_user_id :: string
  er_required :: bool
  er_allowed_mask :: nat
  er_due_at :: int

definition allowed_mask :: "enrollment_policy_row list \<Rightarrow> nat" where
  "allowed_mask ps =
     (case (sql_min (map (\<lambda>p. ep_allowed_mask p AND 1) ps), sql_min (map (\<lambda>p. ep_allowed_mask p AND 2) ps),
            sql_min (map (\<lambda>p. ep_allowed_mask p AND 4) ps)) of
        (Some x, Some y, Some z) \<Rightarrow> x + y + z
      | _ \<Rightarrow> 7)"

definition policy_due_at :: "db \<Rightarrow> user \<Rightarrow> int" where
  "policy_due_at d u = coalesce (sql_min (concat (map (\<lambda>p.
     (case filter (\<lambda>x. ed_user_id x = usr_id u \<and> ed_scope x = ep_scope p) (enrollment_deadlines d) of
        [] \<Rightarrow> [0] | xs \<Rightarrow> map ed_due_at xs)) (required_policies d u)))) 0"

definition enrollment_requirement_of :: "db \<Rightarrow> user \<Rightarrow> enrollment_requirement" where
  "enrollment_requirement_of d u =
     \<lparr>er_user_id = usr_id u, er_required = (required_policies d u \<noteq> []),
      er_allowed_mask = allowed_mask (required_policies d u), er_due_at = policy_due_at d u\<rparr>"

definition enrollment_requirements :: "db \<Rightarrow> enrollment_requirement list" where
  "enrollment_requirements d = map (enrollment_requirement_of d) (users d)"

text \<open>Policies with the accounts they apply to: the rows deadlines are created from.\<close>

definition applicable_enrollment_policies :: "db \<Rightarrow> (string \<times> string \<times> nat \<times> int) list" where
  "applicable_enrollment_policies d =
     (let row = (\<lambda>uid p. (uid, ep_scope p, ep_allowed_mask p, ep_grace_seconds p));
          req = filter ep_required (enrollment_policies d)
      in concat (map (\<lambda>u. map (row (usr_id u)) (filter (\<lambda>p. ep_scope p = ''organization'') req)) (users d))
       @ concat (map (\<lambda>u. map (row (usr_id u)) (filter (\<lambda>p. ep_scope p = ''administrators'') req))
           (filter (administers d) (users d)))
       @ concat (map (\<lambda>m. map (row (gm_user_id m)) (filter (\<lambda>p. ep_group_id p = Some (gm_group_id m)) req))
           (group_memberships d)))"

definition has_permitted_factor :: "db \<Rightarrow> enrollment_requirement \<Rightarrow> bool" where
  "has_permitted_factor d r \<longleftrightarrow>
     (\<exists>f \<in> set (enrolled_factors d). fst f = er_user_id r \<and> snd f AND er_allowed_mask r \<noteq> 0)"

text \<open>The \<open>allowed\<close> column of \<open>mfa_session_access\<close> for one session and its requirement.\<close>

definition session_access_row :: "time \<Rightarrow> db \<Rightarrow> session \<Rightarrow> enrollment_requirement \<Rightarrow> bool" where
  "session_access_row now d sess r \<longleftrightarrow>
     \<not> ses_enrollment_only sess \<and>
     (\<not> er_required r \<or>
      (ev_factor_method (ses_evidence sess) \<noteq> ''recovery'' \<and> er_due_at r > unixepoch now \<and>
        \<not> (\<exists>f \<in> set (enrolled_factors d). fst f = ses_user_id sess \<and> snd f AND er_allowed_mask r \<noteq> 0)) \<or>
      (ev_primary_at (ses_evidence sess) \<noteq> None \<and> ev_factor_at (ses_evidence sess) \<noteq> None \<and>
        factorBit (ev_factor_method (ses_evidence sess)) AND er_allowed_mask r \<noteq> 0 \<and>
        (ses_user_id sess, factorBit (ev_factor_method (ses_evidence sess))) \<in> set (enrolled_factors d)))"

definition mfa_session_access :: "time \<Rightarrow> db \<Rightarrow> (string \<times> string \<times> bool) list" where
  "mfa_session_access now d = concat (map (\<lambda>s.
     map (\<lambda>r. (ses_id s, ses_user_id s, session_access_row now d s r))
       (filter (\<lambda>r. er_user_id r = ses_user_id s) (enrollment_requirements d))) (sessions d))"

text \<open>\<open>EXISTS(SELECT 1 FROM mfa_session_access WHERE id=? AND user_id=? AND allowed)\<close>.\<close>

definition mfa_allowed :: "string \<Rightarrow> string \<Rightarrow> time \<Rightarrow> db \<Rightarrow> bool" where
  "mfa_allowed sessionID userID now d \<longleftrightarrow> (sessionID, userID, True) \<in> set (mfa_session_access now d)"

section \<open>Status and policy edits\<close>

record enrollment_status =
  es_required :: bool
  es_allowed_methods :: "string list"
  es_deadline :: int
  es_enrolled :: bool
  es_restricted :: bool

definition SessionEnrollmentStatus :: "string \<Rightarrow> string \<Rightarrow> time \<Rightarrow> db \<Rightarrow> err + enrollment_status" where
  "SessionEnrollmentStatus userID sessionID now d =
     (case sql_first (\<lambda>r. er_user_id r = userID) (enrollment_requirements d) of
        None \<Rightarrow> Inl ErrNoRows
      | Some r \<Rightarrow> Inr \<lparr>es_required = er_required r, es_allowed_methods = factorNames (er_allowed_mask r),
          es_deadline = er_due_at r, es_enrolled = has_permitted_factor d r,
          es_restricted = \<not> (case sql_first (\<lambda>(i, u, _). i = sessionID \<and> u = userID) (mfa_session_access now d) of
             None \<Rightarrow> False | Some (_, _, a) \<Rightarrow> a)\<rparr>)"

text \<open>Rows of \<open>enrollment_deadlines\<close>: keep the earliest instant, or ignore a second row.\<close>

definition upsert_deadline :: "enrollment_deadline \<Rightarrow> enrollment_deadline list \<Rightarrow> enrollment_deadline list" where
  "upsert_deadline x t =
     (let same = (\<lambda>y. ed_user_id y = ed_user_id x \<and> ed_scope y = ed_scope x)
      in if \<exists>y \<in> set t. same y
         then sql_update same (\<lambda>y. y\<lparr>ed_due_at := min (ed_due_at y) (ed_due_at x)\<rparr>) t
         else sql_insert x t)"

definition insert_deadline :: "enrollment_deadline \<Rightarrow> enrollment_deadline list \<Rightarrow> enrollment_deadline list" where
  "insert_deadline x t =
     (if \<exists>y \<in> set t. ed_user_id y = ed_user_id x \<and> ed_scope y = ed_scope x then t else sql_insert x t)"

definition deadline_rows :: "time \<Rightarrow> (string \<times> string \<times> nat \<times> int) list \<Rightarrow> enrollment_deadline list" where
  "deadline_rows now rows = map (\<lambda>(u, s, _, g).
     \<lparr>ed_user_id = u, ed_scope = s, ed_due_at = unixepoch now + g\<rparr>) rows"

definition conflicting_requirements :: "db \<Rightarrow> bool" where
  "conflicting_requirements d \<longleftrightarrow>
     (\<exists>r \<in> set (enrollment_requirements d). er_required r \<and> er_allowed_mask r = 0)"

definition applyEnrollmentPolicyTx :: "enrollment_policy \<Rightarrow> time \<Rightarrow> db \<Rightarrow> err + db" where
  "applyEnrollmentPolicyTx p now d =
     andthen (ensure (enrollment_Valid p) ErrEnrollmentPolicy) (\<lambda>_.
     let match = (\<lambda>r. ep_scope r = pol_scope p \<and> ep_revision r = pol_revision p);
         d1 = d\<lparr>enrollment_policies := sql_update match (\<lambda>r. r\<lparr>ep_required := pol_required p,
                  ep_allowed_mask := policy_mask p, ep_grace_seconds := pol_grace_seconds p,
                  ep_revision := ep_revision r + 1\<rparr>) (enrollment_policies d)\<rparr>
     in andthen (ensure (sql_count match (enrollment_policies d) = 1) ErrAppLinkConflict) (\<lambda>_.
        andthen (ensure (\<not> conflicting_requirements d1) ErrEnrollmentPolicy) (\<lambda>_.
        Inr (d1\<lparr>enrollment_deadlines := fold upsert_deadline
               (deadline_rows now (applicable_enrollment_policies d1)) (enrollment_deadlines d1)\<rparr>))))"

record enrollment_preview =
  epv_affected :: nat
  epv_missing_factor :: nat
  epv_restricted_sessions :: nat
  epv_can_activate :: bool

definition in_scope :: "string \<Rightarrow> string \<Rightarrow> db \<Rightarrow> bool" where
  "in_scope scope uid d \<longleftrightarrow> \<not> group_scope scope \<or>
     (\<exists>m \<in> set (group_memberships d). gm_user_id m = uid \<and> ''group:'' @ gm_group_id m = scope)"

definition active_requirements :: "db \<Rightarrow> enrollment_requirement list" where
  "active_requirements d = filter (\<lambda>r. er_required r) (concat (map (\<lambda>r.
     map (\<lambda>_. r) (filter (\<lambda>u. usr_id u = er_user_id r \<and> usr_status u = Active) (users d)))
     (enrollment_requirements d)))"

text \<open>The row of the activating administrator's session, with the account's requirement.\<close>

definition activating_row :: "string \<Rightarrow> time \<Rightarrow> db \<Rightarrow> (session \<times> enrollment_requirement) option" where
  "activating_row sessionID now d = sql_first (\<lambda>(s, r). True) (concat (map (\<lambda>s.
     concat (map (\<lambda>u. map (\<lambda>r. (s, r))
         (filter (\<lambda>r. er_user_id r = ses_user_id s) (enrollment_requirements d)))
       (filter (\<lambda>u. usr_id u = ses_user_id s \<and> usr_role u = RoleAdmin \<and> usr_status u = Active) (users d))))
     (filter (\<lambda>s. ses_id s = sessionID \<and> \<not> ses_enrollment_only s \<and> ses_expires_at s > now) (sessions d))))"

definition within_five_minutes :: "time option \<Rightarrow> time \<Rightarrow> bool" where
  "within_five_minutes t now = (case t of None \<Rightarrow> False | Some x \<Rightarrow> x \<le> now \<and> x > now - 5 * minute)"

definition previewEnrollmentTx :: "string \<Rightarrow> string \<Rightarrow> time \<Rightarrow> db \<Rightarrow> enrollment_preview" where
  "previewEnrollmentTx sessionID scope now d =
     \<lparr>epv_affected = sql_count (\<lambda>r. in_scope scope (er_user_id r) d) (active_requirements d),
      epv_missing_factor = sql_count (\<lambda>r. \<not> has_permitted_factor d r \<and> in_scope scope (er_user_id r) d)
        (active_requirements d),
      epv_restricted_sessions = length (concat (map (\<lambda>(i, u, a). filter (\<lambda>s. ses_id s = i \<and> \<not> a
          \<and> ses_expires_at s > now \<and> in_scope scope u d) (sessions d)) (mfa_session_access now d))),
      epv_can_activate = (case activating_row sessionID now d of None \<Rightarrow> False
        | Some (s, r) \<Rightarrow> \<not> er_required r \<or>
            ((ses_user_id s, factorBit (ev_factor_method (ses_evidence s))) \<in> set (enrolled_factors d) \<and>
             within_five_minutes (ev_primary_at (ses_evidence s)) now \<and>
             within_five_minutes (ev_factor_at (ses_evidence s)) now \<and>
             factorBit (ev_factor_method (ses_evidence s)) AND er_allowed_mask r \<noteq> 0))\<rparr>"

text \<open>The preview applies the policy in a transaction that is always rolled back.\<close>

definition PreviewEnrollmentPolicy :: "enrollment_policy \<Rightarrow> string \<Rightarrow> time \<Rightarrow> db \<Rightarrow> err + enrollment_preview" where
  "PreviewEnrollmentPolicy p sessionID now d =
     andthen (applyEnrollmentPolicyTx p now d) (\<lambda>d1.
       Inr (previewEnrollmentTx sessionID (pol_scope p) now d1))"

definition policy_json :: "enrollment_policy \<Rightarrow> json" where
  "policy_json p = JObj [(''scope'', JStr (pol_scope p)), (''required'', JBool (pol_required p)),
     (''allowedMethods'', JArr (map JStr (pol_allowed_methods p))),
     (''graceSeconds'', JNum (pol_grace_seconds p)), (''revision'', JNum (pol_revision p))]"

definition preview_json :: "enrollment_preview \<Rightarrow> json" where
  "preview_json v = JObj [(''affected'', JNum (int (epv_affected v))),
     (''missingFactor'', JNum (int (epv_missing_factor v))),
     (''restrictedSessions'', JNum (int (epv_restricted_sessions v))),
     (''canActivate'', JBool (epv_can_activate v))]"

definition appRegistryAudit :: "audit_event option \<Rightarrow> json \<Rightarrow> audit_event option" where
  "appRegistryAudit audit details = map_option (\<lambda>e. e\<lparr>au_details := details\<rparr>) audit"

definition policy_group_name :: "string \<Rightarrow> db \<Rightarrow> string option" where
  "policy_group_name scope d = map_option dg_name (sql_first (\<lambda>g. \<exists>p \<in> set (enrollment_policies d).
     ep_scope p = scope \<and> ep_group_id p = Some (dg_id g)) (directory_groups d))"

definition SetEnrollmentPolicy ::
    "enrollment_policy \<Rightarrow> string \<Rightarrow> audit_event option \<Rightarrow> time \<Rightarrow> db \<Rightarrow> err + db" where
  "SetEnrollmentPolicy p sessionID audit now d =
     andthen (applyEnrollmentPolicyTx p now d) (\<lambda>d1.
     let preview = previewEnrollmentTx sessionID (pol_scope p) now d1;
         d2 = d1\<lparr>authorization_codes := [], interactions := [],
                 issued_tokens := sql_update (\<lambda>t. it_revoked_at t = None)
                   (\<lambda>t. t\<lparr>it_revoked_at := Some now\<rparr>) (issued_tokens d1)\<rparr>;
         base = [(''impact'', preview_json preview), (''policy'', policy_json p)]
     in andthen (ensure (epv_can_activate preview) ErrEmergencyAdministrator) (\<lambda>_.
        andthen (if group_scope (pol_scope p)
                 then (case policy_group_name (pol_scope p) d2 of None \<Rightarrow> Inl ErrNoRows
                       | Some n \<Rightarrow> Inr (JObj ((''groupName'', JStr n) # base)))
                 else Inr (JObj base)) (\<lambda>details.
        recordAuditTx (appRegistryAudit audit details) now d2)))"

section \<open>Devices\<close>

definition compliantEnrollmentTx :: "string \<Rightarrow> db \<Rightarrow> bool" where
  "compliantEnrollmentTx userID d \<longleftrightarrow>
     (\<exists>r \<in> set (enrollment_requirements d). \<exists>f \<in> set (enrolled_factors d).
        fst f = er_user_id r \<and> er_user_id r = userID \<and> er_required r \<and> er_allowed_mask r AND snd f \<noteq> 0)"

definition preserveCompliantEnrollmentTx :: "string \<Rightarrow> bool \<Rightarrow> db \<Rightarrow> err + unit" where
  "preserveCompliantEnrollmentTx userID wasCompliant d =
     (if \<not> wasCompliant then Inr ()
      else ensure (compliantEnrollmentTx userID d) ErrLastCompliantFactor)"

definition push_enrolled :: "string \<Rightarrow> db \<Rightarrow> bool" where
  "push_enrolled userID d \<longleftrightarrow> (userID, 2) \<in> set (enrolled_factors d)"

definition syncPushMethodTx :: "string \<Rightarrow> time \<Rightarrow> db \<Rightarrow> db" where
  "syncPushMethodTx userID now d =
     (let d1 = (if push_enrolled userID d then d
                else d\<lparr>mfa_methods := sql_delete (\<lambda>m. mm_user_id m = userID \<and> mm_method_type m = Push)
                   (mfa_methods d)\<rparr>);
          (i, d2) = fresh_id d1
      in if push_enrolled userID d2 \<and>
            \<not> (\<exists>m \<in> set (mfa_methods d2). mm_id m = i \<or> (mm_user_id m = userID \<and> mm_method_type m = Push))
         then d2\<lparr>mfa_methods := sql_insert \<lparr>mm_id = i, mm_user_id = userID, mm_method_type = Push,
                mm_encrypted_secret = '''', mm_is_primary = False, mm_last_totp_counter = 0,
                mm_created_at = now\<rparr> (mfa_methods d2)\<rparr>
         else d2)"

text \<open>
  One device write with its audit row. The write is the statement its callers pass: the number of
  rows it matched and the database after it.
\<close>

definition changeEnrollmentDevice ::
    "string \<Rightarrow> audit_event option \<Rightarrow> (db \<Rightarrow> err + (nat \<times> db)) \<Rightarrow> time \<Rightarrow> db \<Rightarrow> err + db" where
  "changeEnrollmentDevice userID audit write now d =
     (let was = compliantEnrollmentTx userID d
      in andthen (write d) (\<lambda>(n, d1).
         andthen (ensure (n \<noteq> 0) ErrNoRows) (\<lambda>_.
         andthen (recordAuditTx audit now (syncPushMethodTx userID now d1)) (\<lambda>d2.
         andthen (preserveCompliantEnrollmentTx userID was d2) (\<lambda>_. Inr d2)))))"

definition invalidateUserEnrollmentTx :: "string \<Rightarrow> time \<Rightarrow> db \<Rightarrow> db" where
  "invalidateUserEnrollmentTx userID now d =
     d\<lparr>authorization_codes := sql_delete (\<lambda>c. ac_user_id c = userID) (authorization_codes d),
       interactions := sql_delete (\<lambda>i. ai_user_id i = userID) (interactions d),
       issued_tokens := sql_update (\<lambda>t. it_user_id t = userID \<and> it_revoked_at t = None)
         (\<lambda>t. t\<lparr>it_revoked_at := Some now\<rparr>) (issued_tokens d)\<rparr>"

section \<open>Triggers\<close>

text \<open>\<open>enrollment_new_user\<close>, and the deadlines of \<open>enrollment_user_role\<close>.\<close>

definition user_deadlines_trigger :: "string \<Rightarrow> time \<Rightarrow> db \<Rightarrow> db" where
  "user_deadlines_trigger userID now d =
     d\<lparr>enrollment_deadlines := fold insert_deadline
        (deadline_rows now (filter (\<lambda>(u, _). u = userID) (applicable_enrollment_policies d)))
        (enrollment_deadlines d)\<rparr>"

definition unsatisfiable_for :: "string \<Rightarrow> db \<Rightarrow> bool" where
  "unsatisfiable_for userID d \<longleftrightarrow>
     (\<exists>r \<in> set (enrollment_requirements d). er_user_id r = userID \<and> er_allowed_mask r = 0)"

text \<open>\<open>UPDATE OF role\<close>: the compatibility check and the new deadlines.\<close>

definition role_update_trigger :: "string \<Rightarrow> time \<Rightarrow> db \<Rightarrow> err + db" where
  "role_update_trigger userID now d =
     (if unsatisfiable_for userID d then Inl ErrEnrollmentPolicy
      else Inr (user_deadlines_trigger userID now d))"

definition new_group_trigger :: "string \<Rightarrow> db \<Rightarrow> err + db" where
  "new_group_trigger groupID d =
     (if \<exists>p \<in> set (enrollment_policies d). ep_scope p = ''group:'' @ groupID \<or> ep_group_id p = Some groupID
      then Inl ErrUnique
      else Inr (d\<lparr>enrollment_policies := sql_insert \<lparr>ep_scope = ''group:'' @ groupID,
             ep_group_id = Some groupID, ep_required = False, ep_allowed_mask = 7,
             ep_grace_seconds = 0, ep_revision = 1\<rparr> (enrollment_policies d)\<rparr>))"

definition new_member_trigger :: "string \<Rightarrow> string \<Rightarrow> time \<Rightarrow> db \<Rightarrow> db" where
  "new_member_trigger groupID userID now d =
     d\<lparr>enrollment_deadlines := fold insert_deadline
        (deadline_rows now (filter (\<lambda>(u, s, _). u = userID \<and> s = ''group:'' @ groupID)
           (applicable_enrollment_policies d))) (enrollment_deadlines d)\<rparr>"

definition new_delegation_trigger :: "string \<Rightarrow> time \<Rightarrow> db \<Rightarrow> err + db" where
  "new_delegation_trigger userID now d =
     (if unsatisfiable_for userID d then Inl ErrEnrollmentPolicy
      else Inr (d\<lparr>enrollment_deadlines := fold insert_deadline
        (deadline_rows now (filter (\<lambda>(u, s, _). u = userID \<and> s = ''administrators'')
           (applicable_enrollment_policies d))) (enrollment_deadlines d)\<rparr>))"

section \<open>Masks as sets of factors\<close>

lemma and_single_bit: "(m::nat) AND 2 ^ k = (if bit m k then 2 ^ k else 0)"
  by (rule bit_eqI) (auto simp: bit_simps)

lemma and_factor_bit: "b = 2 ^ k \<Longrightarrow> (m::nat) AND b \<noteq> 0 \<longleftrightarrow> bit m k"
  by (simp add: and_single_bit)

lemma sql_min_bit:
  assumes "ps \<noteq> []"
  shows "sql_min (map (\<lambda>p. f p AND (2::nat) ^ k) ps) =
    Some (if \<forall>p \<in> set ps. bit (f p) k then 2 ^ k else 0)"
proof (cases "\<forall>p \<in> set ps. bit (f p) k")
  case True
  moreover from assms obtain p where "p \<in> set ps" by (cases ps) auto
  ultimately have "(\<lambda>p. f p AND (2::nat) ^ k) ` set ps = {2 ^ k}"
    by (auto simp: and_single_bit image_iff)
  with assms True show ?thesis by (simp add: sql_min_def)
next
  case False
  then have "0 \<in> (\<lambda>p. f p AND (2::nat) ^ k) ` set ps" by (auto simp: and_single_bit image_iff)
  then have "Min ((\<lambda>p. f p AND (2::nat) ^ k) ` set ps) = 0"
    by (intro Min_eqI) auto
  with assms False show ?thesis by (simp add: sql_min_def)
qed

lemma allowed_mask_bits:
  assumes "ps \<noteq> []"
  shows "allowed_mask ps = (if \<forall>p \<in> set ps. bit (ep_allowed_mask p) 0 then 1 else 0)
     + (if \<forall>p \<in> set ps. bit (ep_allowed_mask p) 1 then 2 else 0)
     + (if \<forall>p \<in> set ps. bit (ep_allowed_mask p) 2 then 4 else 0)"
  using sql_min_bit[OF assms, of ep_allowed_mask 0] sql_min_bit[OF assms, of ep_allowed_mask 1]
    sql_min_bit[OF assms, of ep_allowed_mask 2]
  by (simp add: allowed_mask_def)

lemma bit_three:
  assumes "k \<in> {0, 1, 2}"
  shows "bit ((if A then 1 else 0) + (if B then 2 else 0) + (if C then 4 else (0::nat))) k \<longleftrightarrow>
     (k = 0 \<and> A \<or> k = 1 \<and> B \<or> k = 2 \<and> C)"
  using assms by (cases A; cases B; cases C) (auto simp: bit_nat_def)

lemma allowed_mask_inter:
  assumes "ps \<noteq> []" and "b \<in> {1, 2, 4}"
  shows "allowed_mask ps AND b \<noteq> 0 \<longleftrightarrow> (\<forall>p \<in> set ps. ep_allowed_mask p AND b \<noteq> 0)"
proof -
  from assms(2) obtain k where k: "k \<in> {0, 1, 2}" "b = 2 ^ k"
    by (elim insertE) (auto intro: that[of 0] that[of 1] that[of 2])
  show ?thesis
    unfolding and_factor_bit[OF k(2)] allowed_mask_bits[OF assms(1)] bit_three[OF k(1)]
    using k(1) by auto
qed

lemma factorBit_cases: "factorBit m \<noteq> 0 \<Longrightarrow> factorBit m \<in> {1, 2, 4}"
  by (auto simp: factorBit_def split: if_splits)

lemma sql_min_le: "v \<in> set xs \<Longrightarrow> coalesce (sql_min xs) c \<le> v"
  by (auto simp: sql_min_def coalesce_def)

lemma enrolled_factors_bit: "f \<in> set (enrolled_factors d) \<Longrightarrow> snd f \<in> {1, 2, 4}"
  by (auto simp: enrolled_factors_def)

section \<open>Reading the views\<close>

text \<open>The tables the enrollment views are computed from; any other change leaves them alone.\<close>

lemma enrolled_factors_cong:
  assumes "mfa_methods d' = mfa_methods d" "native_devices d' = native_devices d"
    "webauthn_credentials d' = webauthn_credentials d"
  shows "enrolled_factors d' = enrolled_factors d"
  using assms by (simp add: enrolled_factors_def)

lemma required_policies_cong:
  assumes "enrollment_policies d' = enrollment_policies d" "admin_delegations d' = admin_delegations d"
    "group_memberships d' = group_memberships d"
  shows "required_policies d' = required_policies d"
  using assms by (simp add: fun_eq_iff required_policies_def enrollment_scopes_def administers_def)

lemma enrollment_requirements_cong:
  assumes "users d' = users d" "enrollment_policies d' = enrollment_policies d"
    "admin_delegations d' = admin_delegations d" "group_memberships d' = group_memberships d"
    "enrollment_deadlines d' = enrollment_deadlines d"
  shows "enrollment_requirements d' = enrollment_requirements d"
proof -
  note rp = required_policies_cong[OF assms(2-4)]
  show ?thesis
    using assms by (simp add: enrollment_requirements_def enrollment_requirement_of_def policy_due_at_def rp)
qed

lemma applicable_policies_cong:
  assumes "users d' = users d" "enrollment_policies d' = enrollment_policies d"
    "admin_delegations d' = admin_delegations d" "group_memberships d' = group_memberships d"
  shows "applicable_enrollment_policies d' = applicable_enrollment_policies d"
proof -
  have "administers d' = administers d" using assms by (simp add: fun_eq_iff administers_def)
  then show ?thesis using assms by (simp add: applicable_enrollment_policies_def)
qed

lemma requirement_of_simps [simp]:
  "er_user_id (enrollment_requirement_of d u) = usr_id u"
  "er_required (enrollment_requirement_of d u) \<longleftrightarrow> required_policies d u \<noteq> []"
  "er_allowed_mask (enrollment_requirement_of d u) = allowed_mask (required_policies d u)"
  "er_due_at (enrollment_requirement_of d u) = policy_due_at d u"
  by (simp_all add: enrollment_requirement_of_def)

lemma mfa_allowed_iff:
  "mfa_allowed sid uid now d \<longleftrightarrow>
     (\<exists>s \<in> set (sessions d). \<exists>u \<in> set (users d). ses_id s = sid \<and> ses_user_id s = uid \<and> usr_id u = uid \<and>
        session_access_row now d s (enrollment_requirement_of d u))"
  unfolding mfa_allowed_def mfa_session_access_def enrollment_requirements_def
  by (force simp: image_iff)

lemma policy_due_at_le:
  assumes "p \<in> set (required_policies d u)" "x \<in> set (enrollment_deadlines d)"
    "ed_user_id x = usr_id u" "ed_scope x = ep_scope p"
  shows "policy_due_at d u \<le> ed_due_at x"
proof -
  let ?rows = "\<lambda>p. filter (\<lambda>x. ed_user_id x = usr_id u \<and> ed_scope x = ep_scope p) (enrollment_deadlines d)"
  let ?L = "concat (map (\<lambda>p. case ?rows p of [] \<Rightarrow> [0] | xs \<Rightarrow> map ed_due_at xs) (required_policies d u))"
  have "x \<in> set (?rows p)" using assms by simp
  then have "ed_due_at x \<in> set (case ?rows p of [] \<Rightarrow> [0] | xs \<Rightarrow> map ed_due_at xs)"
    by (cases "?rows p") auto
  with assms(1) have "ed_due_at x \<in> set ?L" by auto
  then show ?thesis unfolding policy_due_at_def by (rule sql_min_le)
qed

section \<open>What a session has proved\<close>

text \<open>
  A session counts as satisfying the enrollment policies only in two ways when a policy is required of
  its account: either the grace period of \<^emph>\<open>every\<close> required policy is still running, no permitted
  factor is enrolled and the sign-in was not by recovery code; or the sign-in used a factor that is
  still enrolled and that every required policy permits.
\<close>

theorem session_access_means:
  assumes "wf_keys d" and "mfa_allowed sid (usr_id u) now d" and "u \<in> set (users d)"
    and "required_policies d u \<noteq> []"
  shows "\<exists>s \<in> set (sessions d). ses_id s = sid \<and> ses_user_id s = usr_id u \<and> \<not> ses_enrollment_only s \<and>
    ((ev_factor_method (ses_evidence s) \<noteq> ''recovery'' \<and>
       (\<forall>p \<in> set (required_policies d u). \<forall>x \<in> set (enrollment_deadlines d).
          ed_user_id x = usr_id u \<longrightarrow> ed_scope x = ep_scope p \<longrightarrow> now < from_unix (ed_due_at x)) \<and>
       (\<forall>b. (usr_id u, b) \<in> set (enrolled_factors d) \<longrightarrow>
          (\<exists>p \<in> set (required_policies d u). ep_allowed_mask p AND b = 0))) \<or>
     (ev_factor_method (ses_evidence s) \<in> {''totp'', ''push'', ''webauthn''} \<and>
       (usr_id u, factorBit (ev_factor_method (ses_evidence s))) \<in> set (enrolled_factors d) \<and>
       (\<forall>p \<in> set (required_policies d u).
          ep_allowed_mask p AND factorBit (ev_factor_method (ses_evidence s)) \<noteq> 0)))"
proof -
  from assms(2) obtain s v where sv: "s \<in> set (sessions d)" "v \<in> set (users d)" "ses_id s = sid"
      "ses_user_id s = usr_id u" "usr_id v = usr_id u"
      and row: "session_access_row now d s (enrollment_requirement_of d v)"
    unfolding mfa_allowed_iff by blast
  have "v = u" using assms(1,3) sv(2,5) key_unique[of usr_id "users d" v u] by (simp add: wf_keys_def)
  note row = row[unfolded this]
  let ?m = "ev_factor_method (ses_evidence s)"
  note inter = allowed_mask_inter[OF assms(4)]
  have known: "factorBit ?m \<noteq> 0 \<longleftrightarrow> ?m \<in> {''totp'', ''push'', ''webauthn''}"
    by (simp add: factorBit_def)
  from row assms(4) consider
      (grace) "?m \<noteq> ''recovery''" "unixepoch now < policy_due_at d u"
        "\<not> (\<exists>f \<in> set (enrolled_factors d). fst f = usr_id u \<and> snd f AND allowed_mask (required_policies d u) \<noteq> 0)"
    | (factor) "factorBit ?m AND allowed_mask (required_policies d u) \<noteq> 0"
        "(usr_id u, factorBit ?m) \<in> set (enrolled_factors d)"
    unfolding session_access_row_def using sv(4) by auto
  then have "(?m \<noteq> ''recovery'' \<and>
       (\<forall>p \<in> set (required_policies d u). \<forall>x \<in> set (enrollment_deadlines d).
          ed_user_id x = usr_id u \<longrightarrow> ed_scope x = ep_scope p \<longrightarrow> now < from_unix (ed_due_at x)) \<and>
       (\<forall>b. (usr_id u, b) \<in> set (enrolled_factors d) \<longrightarrow>
          (\<exists>p \<in> set (required_policies d u). ep_allowed_mask p AND b = 0))) \<or>
     (?m \<in> {''totp'', ''push'', ''webauthn''} \<and> (usr_id u, factorBit ?m) \<in> set (enrolled_factors d) \<and>
       (\<forall>p \<in> set (required_policies d u). ep_allowed_mask p AND factorBit ?m \<noteq> 0))"
  proof cases
    case grace
    have "now < from_unix (ed_due_at x)" if "p \<in> set (required_policies d u)"
      "x \<in> set (enrollment_deadlines d)" "ed_user_id x = usr_id u" "ed_scope x = ep_scope p" for p x
      using policy_due_at_le[OF that] grace(2) unixepoch_less_iff[of now "ed_due_at x"] by simp
    moreover have "\<exists>p \<in> set (required_policies d u). ep_allowed_mask p AND b = 0"
      if "(usr_id u, b) \<in> set (enrolled_factors d)" for b
      using that grace(3) inter[of b] enrolled_factors_bit[OF that] by (force simp: and.commute)
    ultimately show ?thesis using grace(1) by blast
  next
    case factor
    then have "factorBit ?m \<noteq> 0" using enrolled_factors_bit[OF factor(2)] by auto
    with factor known inter[of "factorBit ?m"] factorBit_cases[of ?m] show ?thesis
      by (simp add: and.commute)
  qed
  moreover have "\<not> ses_enrollment_only s" using row by (simp add: session_access_row_def)
  ultimately show ?thesis using sv by blast
qed

definition enrolled_db :: db where
  "enrolled_db = sample_db
     \<lparr>mfa_methods := [\<lparr>mm_id = ''m1'', mm_user_id = ''u1'', mm_method_type = Totp, mm_encrypted_secret = ''x'',
        mm_is_primary = True, mm_last_totp_counter = 0, mm_created_at = 0\<rparr>,
        \<lparr>mm_id = ''m0'', mm_user_id = ''u0'', mm_method_type = Totp, mm_encrypted_secret = ''x'',
        mm_is_primary = True, mm_last_totp_counter = 0, mm_created_at = 0\<rparr>],
      enrollment_policies := [\<lparr>ep_scope = ''organization'', ep_group_id = None, ep_required = True,
         ep_allowed_mask = 5, ep_grace_seconds = 0, ep_revision = 1\<rparr>]\<rparr>"

lemma enrolled_wf_keys: "wf_keys enrolled_db"
  using sample_wf_keys by (simp add: wf_keys_def enrolled_db_def)

theorem session_access_means_witness:
  "\<exists>s \<in> set (sessions enrolled_db). ses_id s = ''s1'' \<and> \<not> ses_enrollment_only s"
proof -
  have a: "mfa_allowed ''s1'' (usr_id sample_ann) sample_now enrolled_db" by code_simp
  have u: "sample_ann \<in> set (users enrolled_db)" by (simp add: enrolled_db_def sample_db_def)
  have r: "required_policies enrolled_db sample_ann \<noteq> []" by code_simp
  show ?thesis using session_access_means[OF enrolled_wf_keys a u r] by blast
qed

section \<open>Editing a policy\<close>

lemma applyEnrollmentPolicyTx_InrD:
  assumes "applyEnrollmentPolicyTx p now d = Inr d1"
  shows "\<exists>ps ds. d1 = d\<lparr>enrollment_policies := ps, enrollment_deadlines := ds\<rparr> \<and>
      ds = fold upsert_deadline (deadline_rows now
        (applicable_enrollment_policies (d\<lparr>enrollment_policies := ps\<rparr>))) (enrollment_deadlines d) \<and>
      \<not> conflicting_requirements d1"
proof -
  let ?match = "\<lambda>r. ep_scope r = pol_scope p \<and> ep_revision r = pol_revision p"
  let ?ps = "sql_update ?match (\<lambda>r. r\<lparr>ep_required := pol_required p,
      ep_allowed_mask := policy_mask p, ep_grace_seconds := pol_grace_seconds p,
      ep_revision := ep_revision r + 1\<rparr>) (enrollment_policies d)"
  let ?d = "d\<lparr>enrollment_policies := ?ps\<rparr>"
  let ?ds = "fold upsert_deadline (deadline_rows now (applicable_enrollment_policies ?d)) (enrollment_deadlines d)"
  from assms have d1: "d1 = ?d\<lparr>enrollment_deadlines := ?ds\<rparr>" and ok: "\<not> conflicting_requirements ?d"
    by (simp_all add: applyEnrollmentPolicyTx_def result_iffs Let_def)
  have "required_policies d1 = required_policies ?d"
    unfolding d1 by (intro required_policies_cong) simp_all
  with ok have "\<not> conflicting_requirements d1"
    unfolding d1 by (simp add: conflicting_requirements_def enrollment_requirements_def)
  with d1 show ?thesis by auto
qed

lemma upsert_deadline_keeps:
  assumes "\<exists>y \<in> set t. ed_user_id y = u \<and> ed_scope y = s \<and> ed_due_at y \<le> v"
  shows "\<exists>y \<in> set (upsert_deadline x t). ed_user_id y = u \<and> ed_scope y = s \<and> ed_due_at y \<le> v"
proof -
  from assms obtain y where y: "y \<in> set t" "ed_user_id y = u" "ed_scope y = s" "ed_due_at y \<le> v" by blast
  let ?y = "if ed_user_id y = ed_user_id x \<and> ed_scope y = ed_scope x
    then y\<lparr>ed_due_at := min (ed_due_at y) (ed_due_at x)\<rparr> else y"
  have "?y \<in> set (upsert_deadline x t)"
    using y(1) by (auto simp: upsert_deadline_def Let_def sql_simps intro: image_eqI[of _ _ y])
  moreover have "ed_user_id ?y = u \<and> ed_scope ?y = s \<and> ed_due_at ?y \<le> v" using y by auto
  ultimately show ?thesis by blast
qed

lemma fold_upsert_keeps:
  "\<exists>y \<in> set t. ed_user_id y = u \<and> ed_scope y = s \<and> ed_due_at y \<le> v \<Longrightarrow>
   \<exists>y \<in> set (fold upsert_deadline xs t). ed_user_id y = u \<and> ed_scope y = s \<and> ed_due_at y \<le> v"
proof (induction xs arbitrary: t)
  case (Cons x xs)
  show ?case using Cons.IH[OF upsert_deadline_keeps[OF Cons.prems]] by simp
qed simp

lemma upsert_deadline_new:
  "\<exists>y \<in> set (upsert_deadline x t). ed_user_id y = ed_user_id x \<and> ed_scope y = ed_scope x \<and> ed_due_at y \<le> ed_due_at x"
proof (cases "\<exists>y \<in> set t. ed_user_id y = ed_user_id x \<and> ed_scope y = ed_scope x")
  case True
  then obtain y where "y \<in> set t" "ed_user_id y = ed_user_id x" "ed_scope y = ed_scope x" by blast
  then show ?thesis
    by (auto simp: upsert_deadline_def Let_def sql_simps if_image_distrib
      intro!: bexI[of _ "y\<lparr>ed_due_at := min (ed_due_at y) (ed_due_at x)\<rparr>"] image_eqI[of _ _ y])
qed (auto simp: upsert_deadline_def Let_def sql_simps)

lemma fold_upsert_new:
  "x \<in> set xs \<Longrightarrow>
   \<exists>y \<in> set (fold upsert_deadline xs t). ed_user_id y = ed_user_id x \<and> ed_scope y = ed_scope x \<and> ed_due_at y \<le> ed_due_at x"
proof (induction xs arbitrary: t)
  case (Cons a xs)
  show ?case
  proof (cases "x \<in> set xs")
    case False
    with Cons.prems have "x = a" by simp
    then show ?thesis using fold_upsert_keeps[OF upsert_deadline_new[of x t], of xs] by simp
  qed (use Cons.IH in simp)
qed simp

lemma fold_insert_deadline_keeps: "set t \<subseteq> set (fold insert_deadline xs t)"
proof (induction xs arbitrary: t)
  case (Cons x xs)
  have "set t \<subseteq> set (insert_deadline x t)" by (auto simp: insert_deadline_def sql_simps)
  with Cons.IH[of "insert_deadline x t"] show ?case by auto
qed simp

lemma SetEnrollmentPolicy_InrD:
  assumes "SetEnrollmentPolicy p sid audit now d = Inr d'"
  obtains d1 es where "applyEnrollmentPolicyTx p now d = Inr d1"
    and "epv_can_activate (previewEnrollmentTx sid (pol_scope p) now d1)"
    and "d' = d1\<lparr>authorization_codes := [], interactions := [],
            issued_tokens := sql_update (\<lambda>t. it_revoked_at t = None)
              (\<lambda>t. t\<lparr>it_revoked_at := Some now\<rparr>) (issued_tokens d1), audit_events := es\<rparr>"
  using assms by (auto simp: SetEnrollmentPolicy_def Let_def result_iffs dest!: recordAuditTx_InrD)

lemma activating_row_SomeD:
  assumes "activating_row sid now d = Some (s, r)"
  shows "s \<in> set (sessions d) \<and> ses_id s = sid \<and> \<not> ses_enrollment_only s \<and> now < ses_expires_at s \<and>
    (\<exists>u \<in> set (users d). usr_id u = ses_user_id s \<and> usr_role u = RoleAdmin \<and> usr_status u = Active) \<and>
    (\<exists>u \<in> set (users d). usr_id u = ses_user_id s \<and> r = enrollment_requirement_of d u)"
  using find_SomeD[OF assms[unfolded activating_row_def]]
  by (auto simp: enrollment_requirements_def if_image_distrib)

lemma can_activate_allowed:
  assumes "epv_can_activate (previewEnrollmentTx sid scope now d)"
  shows "\<exists>u \<in> set (users d). usr_role u = RoleAdmin \<and> usr_status u = Active \<and> mfa_allowed sid (usr_id u) now d"
proof -
  from assms obtain s r where sr: "activating_row sid now d = Some (s, r)"
    by (auto simp: previewEnrollmentTx_def split: option.splits prod.splits)
  from activating_row_SomeD[OF sr] obtain u v where uv: "s \<in> set (sessions d)" "ses_id s = sid" "\<not> ses_enrollment_only s"
      "u \<in> set (users d)" "usr_id u = ses_user_id s" "usr_role u = RoleAdmin" "usr_status u = Active"
      "v \<in> set (users d)" "usr_id v = ses_user_id s" "r = enrollment_requirement_of d v" by blast
  have "session_access_row now d s r"
    using assms sr uv(3) by (auto simp: previewEnrollmentTx_def session_access_row_def within_five_minutes_def
      split: option.splits)
  with uv have "mfa_allowed sid (usr_id u) now d" unfolding mfa_allowed_iff by metis
  with uv show ?thesis by blast
qed

text \<open>
  Activating a policy never locks out the administrator who activates it, and it leaves no old grant
  behind: after a successful edit the acting session, which belongs to an active administrator,
  satisfies the policies as they now stand; no account is left with a requirement no factor can
  meet; and every authorization code, interaction and unrevoked token is gone.
\<close>

theorem set_policy_keeps_admin_in:
  assumes "SetEnrollmentPolicy p sid audit now d = Inr d'"
  shows "(\<exists>u \<in> set (users d'). usr_role u = RoleAdmin \<and> usr_status u = Active \<and> mfa_allowed sid (usr_id u) now d') \<and>
    \<not> conflicting_requirements d' \<and> authorization_codes d' = [] \<and> interactions d' = [] \<and>
    (\<forall>t \<in> set (issued_tokens d'). it_revoked_at t \<noteq> None)"
proof -
  from assms obtain d1 es where d1: "applyEnrollmentPolicyTx p now d = Inr d1"
    and can: "epv_can_activate (previewEnrollmentTx sid (pol_scope p) now d1)"
    and d': "d' = d1\<lparr>authorization_codes := [], interactions := [],
            issued_tokens := sql_update (\<lambda>t. it_revoked_at t = None)
              (\<lambda>t. t\<lparr>it_revoked_at := Some now\<rparr>) (issued_tokens d1), audit_events := es\<rparr>"
    by (rule SetEnrollmentPolicy_InrD)
  have req: "enrollment_requirements d' = enrollment_requirements d1"
    unfolding d' by (rule enrollment_requirements_cong) simp_all
  have fac: "enrolled_factors d' = enrolled_factors d1"
    unfolding d' by (rule enrolled_factors_cong) simp_all
  have "mfa_session_access now d' = mfa_session_access now d1"
    unfolding mfa_session_access_def session_access_row_def req fac by (simp add: d')
  then have "mfa_allowed sid uid now d' = mfa_allowed sid uid now d1" for uid
    by (simp add: mfa_allowed_def)
  moreover have "\<not> conflicting_requirements d'"
    using applyEnrollmentPolicyTx_InrD[OF d1] req by (auto simp: conflicting_requirements_def)
  moreover have "users d' = users d1" by (simp add: d')
  ultimately show ?thesis
    using can_activate_allowed[OF can] by (auto simp: d' sql_simps)
qed

definition sample_enrollment_policy :: enrollment_policy where
  "sample_enrollment_policy = \<lparr>pol_scope = ''organization'', pol_required = True,
     pol_allowed_methods = [''totp'', ''webauthn''], pol_grace_seconds = 3600, pol_revision = 1\<rparr>"

theorem set_policy_keeps_admin_in_witness:
  "\<exists>d'. SetEnrollmentPolicy sample_enrollment_policy ''s0'' None sample_now enrolled_db = Inr d' \<and>
     (\<exists>u \<in> set (users d'). mfa_allowed ''s0'' (usr_id u) sample_now d')"
proof -
  have "\<not> isl (SetEnrollmentPolicy sample_enrollment_policy ''s0'' None sample_now enrolled_db)" by code_simp
  then obtain d' where "SetEnrollmentPolicy sample_enrollment_policy ''s0'' None sample_now enrolled_db = Inr d'"
    by (blast dest: succeeds)
  with set_policy_keeps_admin_in[OF this] show ?thesis by blast
qed

text \<open>
  A deadline, once set for an account and a policy, is never moved later: a policy edit keeps it or
  brings it forward, gives every account the policy now applies to a deadline within the grace period,
  and joining a group again or changing role keeps the deadlines there are.
\<close>

theorem deadlines_never_extended:
  assumes "SetEnrollmentPolicy p sid audit now d = Inr d'" and "x \<in> set (enrollment_deadlines d)"
  shows "(\<exists>y \<in> set (enrollment_deadlines d'). ed_user_id y = ed_user_id x \<and> ed_scope y = ed_scope x \<and>
       ed_due_at y \<le> ed_due_at x) \<and>
    (\<forall>r \<in> set (applicable_enrollment_policies d'). \<exists>y \<in> set (enrollment_deadlines d').
       ed_user_id y = fst r \<and> ed_scope y = fst (snd r) \<and> ed_due_at y \<le> unixepoch now + snd (snd (snd r))) \<and>
    x \<in> set (enrollment_deadlines (new_member_trigger g u now d)) \<and>
    x \<in> set (enrollment_deadlines (user_deadlines_trigger u now d))"
proof -
  from assms(1) obtain d1 es where ap: "applyEnrollmentPolicyTx p now d = Inr d1"
    and d': "d' = d1\<lparr>authorization_codes := [], interactions := [],
            issued_tokens := sql_update (\<lambda>t. it_revoked_at t = None)
              (\<lambda>t. t\<lparr>it_revoked_at := Some now\<rparr>) (issued_tokens d1), audit_events := es\<rparr>"
    by (rule SetEnrollmentPolicy_InrD)
  from applyEnrollmentPolicyTx_InrD[OF ap] obtain ps where
      d1: "d1 = d\<lparr>enrollment_policies := ps, enrollment_deadlines := fold upsert_deadline (deadline_rows now
        (applicable_enrollment_policies (d\<lparr>enrollment_policies := ps\<rparr>))) (enrollment_deadlines d)\<rparr>" by blast
  have app: "applicable_enrollment_policies d' = applicable_enrollment_policies (d\<lparr>enrollment_policies := ps\<rparr>)"
    unfolding d' d1 by (rule applicable_policies_cong) simp_all
  have dl: "enrollment_deadlines d' = fold upsert_deadline
      (deadline_rows now (applicable_enrollment_policies d')) (enrollment_deadlines d)"
    unfolding app by (simp add: d' d1)
  have "\<exists>y \<in> set (enrollment_deadlines d'). ed_user_id y = fst r \<and> ed_scope y = fst (snd r) \<and>
       ed_due_at y \<le> unixepoch now + snd (snd (snd r))" if "r \<in> set (applicable_enrollment_policies d')" for r
    using fold_upsert_new[of "\<lparr>ed_user_id = fst r, ed_scope = fst (snd r), ed_due_at = unixepoch now + snd (snd (snd r))\<rparr>"
        "deadline_rows now (applicable_enrollment_policies d')" "enrollment_deadlines d"] that
    unfolding dl by (simp add: deadline_rows_def image_iff split_beta)
       (metis prod.collapse)
  moreover have "\<exists>y \<in> set (enrollment_deadlines d'). ed_user_id y = ed_user_id x \<and> ed_scope y = ed_scope x \<and>
       ed_due_at y \<le> ed_due_at x"
    unfolding dl by (rule fold_upsert_keeps) (use assms(2) in auto)
  moreover have "x \<in> set (fold insert_deadline xs (enrollment_deadlines d))" for xs
    using fold_insert_deadline_keeps[of "enrollment_deadlines d" xs] assms(2) by blast
  ultimately show ?thesis by (simp add: new_member_trigger_def user_deadlines_trigger_def)
qed

theorem deadlines_never_extended_witness:
  "\<exists>d'. SetEnrollmentPolicy sample_enrollment_policy ''s0'' None sample_now
       (enrolled_db\<lparr>enrollment_deadlines := [\<lparr>ed_user_id = ''u1'', ed_scope = ''organization'', ed_due_at = 1200\<rparr>]\<rparr>) = Inr d' \<and>
     (\<exists>y \<in> set (enrollment_deadlines d'). ed_user_id y = ''u1'' \<and> ed_due_at y \<le> 1200)"
proof -
  let ?d = "enrolled_db\<lparr>enrollment_deadlines := [\<lparr>ed_user_id = ''u1'', ed_scope = ''organization'', ed_due_at = 1200\<rparr>]\<rparr>"
  have "\<not> isl (SetEnrollmentPolicy sample_enrollment_policy ''s0'' None sample_now ?d)" by code_simp
  then obtain d' where ok: "SetEnrollmentPolicy sample_enrollment_policy ''s0'' None sample_now ?d = Inr d'"
    by (blast dest: succeeds)
  show ?thesis
    using ok deadlines_never_extended[OF ok, of "\<lparr>ed_user_id = ''u1'', ed_scope = ''organization'', ed_due_at = 1200\<rparr>" "''g''" "''u1''"]
    by auto
qed

section \<open>The last compliant factor\<close>

lemma totp_rows_delete_push [simp]:
  "filter (\<lambda>m. mm_method_type m = Totp) (sql_delete (\<lambda>m. mm_user_id m = u \<and> mm_method_type m = Push) t)
    = filter (\<lambda>m. mm_method_type m = Totp) t"
  by (induction t) auto

lemma totp_rows_insert_push [simp]:
  "mm_method_type r = Push \<Longrightarrow> filter (\<lambda>m. mm_method_type m = Totp) (sql_insert r t)
    = filter (\<lambda>m. mm_method_type m = Totp) t"
  by (simp add: sql_insert_def)

lemma enrolled_factors_sync [simp]: "enrolled_factors (syncPushMethodTx userID now d) = enrolled_factors d"
  by (simp add: syncPushMethodTx_def fresh_id_def Let_def enrolled_factors_def push_enrolled_def)

text \<open>
  A device write (pairing, changing an approver, deleting a device) that succeeds never takes an
  account's last permitted factor: an account that met a required policy before still meets it after. And the
  push method login offers follows the devices: afterwards it is there exactly while an approver device
  with a key is, provided the identifier drawn for a new row is unused.
\<close>

theorem device_change_keeps_compliance:
  assumes "changeEnrollmentDevice userID audit write now d = Inr d'" and "write d = Inr (n, d1)"
    and "rand_src d1 (rand_pos d1) \<notin> mm_id ` set (mfa_methods d1)"
  shows "(compliantEnrollmentTx userID d \<longrightarrow> compliantEnrollmentTx userID d') \<and>
    ((\<exists>m \<in> set (mfa_methods d'). mm_user_id m = userID \<and> mm_method_type m = Push) \<longleftrightarrow>
      push_enrolled userID d')"
proof -
  let ?s = "syncPushMethodTx userID now d1"
  from assms(1,2) obtain es where d': "d' = ?s\<lparr>audit_events := es\<rparr>"
      and keep: "compliantEnrollmentTx userID d \<Longrightarrow> compliantEnrollmentTx userID d'"
    by (auto simp: changeEnrollmentDevice_def Let_def result_iffs preserveCompliantEnrollmentTx_def
      split: if_splits dest!: recordAuditTx_InrD)
  have "enrolled_factors d' = enrolled_factors ?s" unfolding d' by (rule enrolled_factors_cong) simp_all
  then have push: "push_enrolled userID d' = push_enrolled userID d1" by (simp add: push_enrolled_def)
  have "(\<exists>m \<in> set (mfa_methods ?s). mm_user_id m = userID \<and> mm_method_type m = Push) \<longleftrightarrow> push_enrolled userID d1"
  proof (cases "push_enrolled userID d1")
    case True
    then have "push_enrolled userID (d1\<lparr>rand_pos := Suc (rand_pos d1)\<rparr>)"
      by (simp add: push_enrolled_def enrolled_factors_def)
    with True assms(3) show ?thesis
      by (auto simp: syncPushMethodTx_def fresh_id_def Let_def sql_simps image_iff)
  next
    case False
    then have "\<not> push_enrolled userID (d1\<lparr>mfa_methods := sql_delete (\<lambda>m. mm_user_id m = userID \<and> mm_method_type m = Push)
        (mfa_methods d1), rand_pos := Suc (rand_pos d1)\<rparr>)"
      by (auto simp: push_enrolled_def enrolled_factors_def sql_simps)
    with False show ?thesis
      by (auto simp: syncPushMethodTx_def fresh_id_def Let_def sql_simps)
  qed
  then show ?thesis using keep push d' by simp
qed

theorem device_change_keeps_compliance_witness:
  "\<exists>d'. changeEnrollmentDevice ''u1'' None (\<lambda>d. Inr (1, d)) sample_now enrolled_db = Inr d' \<and>
     compliantEnrollmentTx ''u1'' d'"
proof -
  have c: "compliantEnrollmentTx ''u1'' enrolled_db" by code_simp
  have "\<not> isl (changeEnrollmentDevice ''u1'' None (\<lambda>d. Inr (1, d)) sample_now enrolled_db)" by code_simp
  then obtain d' where ok: "changeEnrollmentDevice ''u1'' None (\<lambda>d. Inr (1, d)) sample_now enrolled_db = Inr d'"
    by (blast dest: succeeds)
  have "rand_src enrolled_db (rand_pos enrolled_db) \<notin> mm_id ` set (mfa_methods enrolled_db)" by code_simp
  from device_change_keeps_compliance[OF ok refl this] c ok show ?thesis by blast
qed

end
