(* ===== verification/Ky_Logout.thy ===== *)
theory Ky_Logout
  imports Ky_Schema Ky_Sample
begin

text \<open>
  Back-channel logout deliveries (\<^verbatim>\<open>internal/store/logout_deliveries.go\<close>) and the \<open>sid\<close>
  rows they are made from (\<^verbatim>\<open>client_sessions.go\<close>): the queue, its leases, its attempts and
  its backoff.
\<close>

section \<open>The sid of a login\<close>

definition EnsureClientSession :: "string \<Rightarrow> string \<Rightarrow> string \<Rightarrow> time \<Rightarrow> db \<Rightarrow> string tx" where
  "EnsureClientSession clientID sessionID userID now d =
     (let (sid, d0) = fresh_id d;
          live = (\<exists>s \<in> set (sessions d0). ses_id s = sessionID \<and> ses_user_id s = userID);
          clash = (\<exists>c \<in> set (client_sessions d0). cs_sid c = sid \<or>
                     (cs_client_id c = clientID \<and> cs_session_id c = sessionID));
          d1 = (if live \<and> \<not> clash
                then d0\<lparr>client_sessions := sql_insert \<lparr>cs_sid = sid, cs_client_id = clientID,
                       cs_session_id = sessionID, cs_user_id = userID, cs_created_at = now\<rparr> (client_sessions d0)\<rparr>
                else d0)
      in case sql_first (\<lambda>c. cs_client_id c = clientID \<and> cs_session_id c = sessionID) (client_sessions d1) of
           None \<Rightarrow> Inl ErrNotFound
         | Some c \<Rightarrow> Inr (cs_sid c, d1))"

definition GetClientSession :: "string \<Rightarrow> db \<Rightarrow> client_session option" where
  "GetClientSession sid d = sql_first (\<lambda>c. cs_sid c = sid) (client_sessions d)"

section \<open>Queueing\<close>

definition logoutDeliveryAttempts :: nat where
  "logoutDeliveryAttempts = 5"

text \<open>The rows the \<open>INSERT ... SELECT\<close> makes, one per selected login, each with a new random id.\<close>

fun enqueue_rows :: "time \<Rightarrow> client_session list \<Rightarrow> db \<Rightarrow> err + db" where
  "enqueue_rows now [] d = Inr d"
| "enqueue_rows now (c # cs) d =
     (let (i, d1) = fresh_id d
      in if \<exists>x \<in> set (logout_deliveries d1). ld_id x = i then Inl ErrUnique
         else enqueue_rows now cs (d1\<lparr>logout_deliveries := sql_insert
           \<lparr>ld_id = i, ld_client_id = cs_client_id c, ld_user_id = cs_user_id c, ld_sid = cs_sid c,
            ld_status = Queued, ld_attempts = 0, ld_last_error = '''', ld_claim_token = '''',
            ld_lease_until = None, ld_next_attempt_at = now, ld_created_at = now, ld_updated_at = now\<rparr>
           (logout_deliveries d1)\<rparr>))"

definition wants_logout :: "db \<Rightarrow> client_session \<Rightarrow> bool" where
  "wants_logout d c \<longleftrightarrow> (\<exists>x \<in> set (oauth_clients d). oc_id x = cs_client_id c \<and> oc_enabled x
     \<and> oc_backchannel_logout_uri x \<noteq> '''')"

definition enqueueLogoutTx :: "time \<Rightarrow> (client_session \<Rightarrow> bool) \<Rightarrow> db \<Rightarrow> err + db" where
  "enqueueLogoutTx now sel d =
     enqueue_rows now (filter (\<lambda>c. wants_logout d c \<and> sel c) (client_sessions d)) d"

section \<open>Claiming and finishing\<close>

text \<open>\<open>lease_until > now\<close> and \<open>lease_until <= now\<close>; a \<open>NULL\<close> lease satisfies neither.\<close>

definition leased :: "time \<Rightarrow> logout_delivery \<Rightarrow> bool" where
  "leased now x = (case ld_lease_until x of None \<Rightarrow> False | Some t \<Rightarrow> t > now)"

definition lease_lapsed :: "time \<Rightarrow> logout_delivery \<Rightarrow> bool" where
  "lease_lapsed now x = (case ld_lease_until x of None \<Rightarrow> False | Some t \<Rightarrow> t \<le> now)"

definition interrupted :: "time \<Rightarrow> logout_delivery \<Rightarrow> bool" where
  "interrupted now x \<longleftrightarrow> ld_status x = Queued \<and> lease_lapsed now x \<and> ld_attempts x \<ge> logoutDeliveryAttempts"

definition fail_interrupted :: "time \<Rightarrow> logout_delivery list \<Rightarrow> logout_delivery list" where
  "fail_interrupted now = sql_update (interrupted now) (\<lambda>x. x\<lparr>ld_status := Failed,
     ld_last_error := ''interrupted repeatedly'', ld_claim_token := '''', ld_lease_until := None,
     ld_updated_at := now\<rparr>)"

definition claimable :: "time \<Rightarrow> logout_delivery list \<Rightarrow> logout_delivery \<Rightarrow> bool" where
  "claimable now t x \<longleftrightarrow> ld_status x = Queued \<and> ld_next_attempt_at x \<le> now
     \<and> (ld_lease_until x = None \<or> lease_lapsed now x) \<and> ld_attempts x < logoutDeliveryAttempts
     \<and> \<not> (\<exists>y \<in> set t. ld_client_id y = ld_client_id x \<and> ld_status y = Queued \<and> leased now y)"

text \<open>
  The claim. When nothing is claimable the function returns before \<open>Commit\<close>, and the deferred
  rollback also undoes the first statement; only the drawn token stays drawn. \<open>ORDER BY created_at\<close>
  leaves the order of equal instants open; it is taken to be the table's.
\<close>

definition ClaimLogoutDelivery :: "duration \<Rightarrow> time \<Rightarrow> db \<Rightarrow> logout_delivery option \<times> db" where
  "ClaimLogoutDelivery lease now d =
     (let t1 = fail_interrupted now (logout_deliveries d);
          (token, d0) = fresh_id d
      in case filter (claimable now t1) (sort_key ld_created_at t1) of
           [] \<Rightarrow> (None, d0)
         | x # _ \<Rightarrow>
             (let t2 = sql_update (\<lambda>y. ld_id y = ld_id x) (\<lambda>y. y\<lparr>ld_claim_token := token,
                     ld_lease_until := Some (now + lease), ld_attempts := ld_attempts y + 1,
                     ld_updated_at := now\<rparr>) t1
              in (sql_first (\<lambda>y. ld_claim_token y = token) t2, d0\<lparr>logout_deliveries := t2\<rparr>)))"

text \<open>\<open>time.Duration(1<<attempts) * 30 * time.Second\<close>, capped at half an hour.\<close>

definition logoutRetryDelay :: "nat \<Rightarrow> duration" where
  "logoutRetryDelay attempts =
     (let delay = wrap64 (wrap64 (2 ^ attempts) * 30 * second)
      in if delay > 30 * minute then 30 * minute else delay)"

definition FinishLogoutDelivery :: "logout_delivery \<Rightarrow> string option \<Rightarrow> time \<Rightarrow> db \<Rightarrow> err + db" where
  "FinishLogoutDelivery x attemptErr now d =
     (let status = (case attemptErr of None \<Rightarrow> Delivered
                    | Some _ \<Rightarrow> if ld_attempts x \<ge> logoutDeliveryAttempts then Failed else Queued);
          message = (case attemptErr of None \<Rightarrow> '''' | Some m \<Rightarrow> take 200 m);
          next = (case attemptErr of None \<Rightarrow> now | Some _ \<Rightarrow> now + logoutRetryDelay (ld_attempts x));
          match = (\<lambda>y. ld_id y = ld_id x \<and> ld_claim_token y = ld_claim_token x \<and> ld_claim_token y \<noteq> '''')
      in andthen (ensure (sql_count match (logout_deliveries d) \<noteq> 0) ErrNotFound) (\<lambda>_.
         Inr (d\<lparr>logout_deliveries := sql_update match (\<lambda>y. y\<lparr>ld_status := status,
            ld_last_error := message, ld_next_attempt_at := next, ld_claim_token := '''',
            ld_lease_until := None, ld_updated_at := now\<rparr>) (logout_deliveries d)\<rparr>)))"

definition RetryLogoutDeliveryNow :: "string \<Rightarrow> string \<Rightarrow> audit_event option \<Rightarrow> time \<Rightarrow> db \<Rightarrow> bool tx" where
  "RetryLogoutDeliveryNow userID i audit now d =
     (let match = (\<lambda>y. ld_id y = i \<and> ld_user_id y = userID \<and> ld_status y \<noteq> Delivered)
      in if sql_count match (logout_deliveries d) = 0 then Inr (False, d)
         else andthen (recordAuditTx audit now (d\<lparr>logout_deliveries := sql_update match
            (\<lambda>y. y\<lparr>ld_status := Queued, ld_attempts := 0, ld_next_attempt_at := now, ld_claim_token := '''',
               ld_lease_until := None, ld_updated_at := now\<rparr>) (logout_deliveries d)\<rparr>))
           (\<lambda>d1. Inr (True, d1)))"

definition DeleteLogoutDeliveriesOlderThan :: "time \<Rightarrow> db \<Rightarrow> db" where
  "DeleteLogoutDeliveriesOlderThan cutoff d =
     d\<lparr>logout_deliveries := sql_delete (\<lambda>x. ld_status x = Delivered \<and> ld_updated_at x < cutoff)
        (logout_deliveries d)\<rparr>"

section \<open>Queueing: what it adds and what it leaves alone\<close>

lemma enqueue_rows_InrD:
  assumes "enqueue_rows now cs d = Inr d'"
  shows "\<exists>new n. d' = d\<lparr>logout_deliveries := logout_deliveries d @ new, rand_pos := n\<rparr> \<and>
    map (\<lambda>x. (ld_client_id x, ld_user_id x, ld_sid x)) new = map (\<lambda>c. (cs_client_id c, cs_user_id c, cs_sid c)) cs \<and>
    (\<forall>x \<in> set new. ld_status x = Queued \<and> ld_attempts x = 0 \<and> ld_lease_until x = None \<and>
        ld_next_attempt_at x = now \<and> ld_claim_token x = '''') \<and>
    (distinct (map ld_id (logout_deliveries d)) \<longrightarrow> distinct (map ld_id (logout_deliveries d')))"
  using assms
proof (induction cs arbitrary: d)
  case Nil
  then show ?case by (intro exI[of _ "[]"] exI[of _ "rand_pos d"]) simp
next
  case (Cons c cs)
  let ?i = "rand_src d (rand_pos d)"
  let ?r = "\<lparr>ld_id = ?i, ld_client_id = cs_client_id c, ld_user_id = cs_user_id c, ld_sid = cs_sid c,
            ld_status = Queued, ld_attempts = 0, ld_last_error = '''', ld_claim_token = '''',
            ld_lease_until = None, ld_next_attempt_at = now, ld_created_at = now, ld_updated_at = now\<rparr>"
  let ?d = "d\<lparr>rand_pos := Suc (rand_pos d), logout_deliveries := logout_deliveries d @ [?r]\<rparr>"
  from Cons.prems have new: "?i \<notin> ld_id ` set (logout_deliveries d)" and rest: "enqueue_rows now cs ?d = Inr d'"
    by (auto simp: fresh_id_def Let_def sql_insert_def split: if_splits)
  from Cons.IH[OF rest] obtain ns n where
      d': "d' = ?d\<lparr>logout_deliveries := logout_deliveries ?d @ ns, rand_pos := n\<rparr>"
      and keys: "map (\<lambda>x. (ld_client_id x, ld_user_id x, ld_sid x)) ns = map (\<lambda>c. (cs_client_id c, cs_user_id c, cs_sid c)) cs"
      and fresh: "\<forall>x \<in> set ns. ld_status x = Queued \<and> ld_attempts x = 0 \<and> ld_lease_until x = None \<and>
        ld_next_attempt_at x = now \<and> ld_claim_token x = ''''"
      and dist: "distinct (map ld_id (logout_deliveries ?d)) \<longrightarrow> distinct (map ld_id (logout_deliveries d'))" by blast
  show ?case
    by (intro exI[of _ "?r # ns"] exI[of _ n]) (use d' keys fresh dist new in simp)
qed

lemma enqueueLogoutTx_frame:
  assumes "enqueueLogoutTx now sel d = Inr d'"
  shows "\<exists>t n. d' = d\<lparr>logout_deliveries := t, rand_pos := n\<rparr>"
  using enqueue_rows_InrD[OF assms[unfolded enqueueLogoutTx_def]] by blast

text \<open>Every selected login whose client registered a receiver gets a queued delivery.\<close>

lemma enqueueLogoutTx_queues:
  assumes "enqueueLogoutTx now sel d = Inr d'" and "c \<in> set (client_sessions d)" and "sel c" and "wants_logout d c"
  shows "\<exists>x \<in> set (logout_deliveries d'). ld_status x = Queued \<and> ld_attempts x = 0 \<and> ld_next_attempt_at x = now \<and>
     ld_sid x = cs_sid c \<and> ld_client_id x = cs_client_id c \<and> ld_user_id x = cs_user_id c"
proof -
  let ?k = "\<lambda>x. (ld_client_id x, ld_user_id x, ld_sid x)"
  let ?c = "\<lambda>c. (cs_client_id c, cs_user_id c, cs_sid c)"
  from enqueue_rows_InrD[OF assms(1)[unfolded enqueueLogoutTx_def]] obtain ns n where
      d': "d' = d\<lparr>logout_deliveries := logout_deliveries d @ ns, rand_pos := n\<rparr>"
      and keys: "map ?k ns = map ?c (filter (\<lambda>c. wants_logout d c \<and> sel c) (client_sessions d))"
      and fresh: "\<forall>x \<in> set ns. ld_status x = Queued \<and> ld_attempts x = 0 \<and> ld_lease_until x = None \<and>
        ld_next_attempt_at x = now \<and> ld_claim_token x = ''''" by blast
  have "?c c \<in> set (map ?c (filter (\<lambda>c. wants_logout d c \<and> sel c) (client_sessions d)))"
    using assms(2-4) by simp
  then obtain x where "x \<in> set ns" "?k x = ?c c" unfolding keys[symmetric] by auto
  with fresh d' show ?thesis by (intro bexI[of _ x]) auto
qed

lemma enqueueLogoutTx_keeps:
  assumes "enqueueLogoutTx now sel d = Inr d'"
  shows "\<exists>ns. logout_deliveries d' = logout_deliveries d @ ns \<and>
    (\<forall>x \<in> set ns. ld_status x = Queued \<and> ld_attempts x = 0 \<and> ld_lease_until x = None) \<and>
    (distinct (map ld_id (logout_deliveries d)) \<longrightarrow> distinct (map ld_id (logout_deliveries d')))"
  using enqueue_rows_InrD[OF assms[unfolded enqueueLogoutTx_def]] by auto

section \<open>What a claim takes\<close>

lemma fail_interrupted_set:
  "x \<in> set (fail_interrupted now t) \<Longrightarrow> \<exists>y \<in> set t. ld_id x = ld_id y \<and> ld_attempts x = ld_attempts y \<and>
     ld_client_id x = ld_client_id y \<and> (x = y \<or> ld_status x = Failed \<and> ld_lease_until x = None)"
  by (auto simp: fail_interrupted_def sql_simps)

lemma fail_interrupted_claimable:
  assumes "x \<in> set (fail_interrupted now t)" "ld_status x = Queued"
  shows "x \<in> set t"
  using assms by (auto simp: fail_interrupted_def sql_simps split: if_splits)

lemma fail_interrupted_leased:
  "(\<exists>y \<in> set (fail_interrupted now t). ld_client_id y = c \<and> ld_status y = Queued \<and> leased now y) \<longleftrightarrow>
   (\<exists>y \<in> set t. ld_client_id y = c \<and> ld_status y = Queued \<and> leased now y)"
proof -
  have "leased now y \<Longrightarrow> \<not> interrupted now y" for y
    by (auto simp: leased_def interrupted_def lease_lapsed_def split: option.splits)
  then show ?thesis
    by (force simp: fail_interrupted_def sql_simps image_iff leased_def)
qed

lemma fail_interrupted_small: "y \<in> set t \<Longrightarrow> ld_attempts y < logoutDeliveryAttempts \<Longrightarrow> y \<in> set (fail_interrupted now t)"
  by (auto simp: fail_interrupted_def sql_simps interrupted_def image_iff intro!: bexI[of _ y])

lemma claimable_fail_interrupted:
  "x \<in> set (fail_interrupted now t) \<and> claimable now (fail_interrupted now t) x \<longleftrightarrow> x \<in> set t \<and> claimable now t x"
  using fail_interrupted_leased[of now t "ld_client_id x"] fail_interrupted_claimable[of x now t]
    fail_interrupted_small[of x t now]
  unfolding claimable_def by blast

lemma claim_cases:
  assumes "ClaimLogoutDelivery lease now d = (r, d')"
  obtains (none) "r = None" "logout_deliveries d' = logout_deliveries d"
      "\<not> (\<exists>y \<in> set (logout_deliveries d). claimable now (logout_deliveries d) y)"
  | (taken) x where "x \<in> set (logout_deliveries d)" "claimable now (logout_deliveries d) x"
      "\<And>y. y \<in> set (logout_deliveries d) \<Longrightarrow> claimable now (logout_deliveries d) y \<Longrightarrow> ld_created_at x \<le> ld_created_at y"
      "logout_deliveries d' = sql_update (\<lambda>y. ld_id y = ld_id x) (\<lambda>y. y\<lparr>ld_claim_token := rand_src d (rand_pos d),
         ld_lease_until := Some (now + lease), ld_attempts := ld_attempts y + 1, ld_updated_at := now\<rparr>)
         (fail_interrupted now (logout_deliveries d))"
      "r = sql_first (\<lambda>y. ld_claim_token y = rand_src d (rand_pos d)) (logout_deliveries d')"
proof -
  let ?t = "logout_deliveries d" let ?t1 = "fail_interrupted now ?t"
  let ?s = "filter (claimable now ?t1) (sort_key ld_created_at ?t1)"
  have set_s: "set ?s = {x \<in> set ?t. claimable now ?t x}"
    using claimable_fail_interrupted[of _ now ?t] by auto
  show thesis
  proof (cases ?s)
    case Nil
    with assms set_s none show thesis by (auto simp: ClaimLogoutDelivery_def Let_def fresh_id_def)
  next
    case (Cons x xs)
    have "sorted (map ld_created_at ?s)" by (simp add: sorted_filter)
    with Cons have "\<And>y. y \<in> set ?s \<Longrightarrow> ld_created_at x \<le> ld_created_at y" by auto
    moreover have "x \<in> set ?s" using Cons by simp
    ultimately show thesis
      using assms Cons set_s
      by (intro taken[of x]) (auto simp: ClaimLogoutDelivery_def Let_def fresh_id_def)
  qed
qed

lemma interrupted_not_claimed: "claimable now t x \<Longrightarrow> \<not> interrupted now x"
  by (auto simp: claimable_def interrupted_def)

text \<open>
  A claim hands out the oldest delivery that is due, unleased and within its attempts, and only when no
  other delivery to the same client is in flight; it records the attempt and the lease under a token no
  other row carries. (Identifiers are unique, and the drawn token is new.)
\<close>

theorem claim_takes_oldest_due:
  assumes "ClaimLogoutDelivery lease now d = (Some x, d')"
    and "distinct (map ld_id (logout_deliveries d))"
    and "rand_src d (rand_pos d) \<notin> ld_claim_token ` set (logout_deliveries d)" and "rand_src d (rand_pos d) \<noteq> ''''"
  shows "\<exists>y \<in> set (logout_deliveries d). claimable now (logout_deliveries d) y \<and>
    (\<forall>z \<in> set (logout_deliveries d). claimable now (logout_deliveries d) z \<longrightarrow> ld_created_at y \<le> ld_created_at z) \<and>
    x = y\<lparr>ld_claim_token := rand_src d (rand_pos d), ld_lease_until := Some (now + lease),
          ld_attempts := ld_attempts y + 1, ld_updated_at := now\<rparr> \<and>
    {z \<in> set (logout_deliveries d'). ld_claim_token z = ld_claim_token x} = {x}"
  using assms(1)
proof (cases rule: claim_cases)
  case (taken y)
  let ?tok = "rand_src d (rand_pos d)" let ?t = "logout_deliveries d"
  let ?f = "\<lambda>y. y\<lparr>ld_claim_token := ?tok, ld_lease_until := Some (now + lease),
      ld_attempts := ld_attempts y + 1, ld_updated_at := now\<rparr>"
  have "z = y" if z: "z \<in> set (fail_interrupted now ?t)" "ld_id z = ld_id y" for z
  proof -
    from fail_interrupted_set[OF z(1)] obtain w where "w \<in> set ?t" "ld_id z = ld_id w" by blast
    with z(2) taken(1) assms(2) have "w = y" by (intro key_unique[of ld_id ?t]) auto
    then show ?thesis using z \<open>w \<in> set ?t\<close> assms(2) interrupted_not_claimed[OF taken(2)]
      by (auto simp: fail_interrupted_def sql_simps dest: key_unique[of ld_id ?t] split: if_splits)
  qed
  moreover have "y \<in> set (fail_interrupted now ?t)"
    using claimable_fail_interrupted[of y now ?t] taken(1,2) by blast
  moreover have "ld_claim_token z \<noteq> ?tok" if "z \<in> set (fail_interrupted now ?t)" for z
    using that assms(3,4) by (auto simp: fail_interrupted_def sql_simps image_iff split: if_splits)
  ultimately have only: "{z \<in> set (logout_deliveries d'). ld_claim_token z = ?tok} = {?f y}"
    unfolding taken(4) by (auto simp: sql_simps if_image_distrib split: if_splits)
  with find_SomeD[OF taken(5)[symmetric]] have x: "x = ?f y" by blast
  then have "ld_claim_token x = ?tok" by simp
  with x only taken(1-3) show ?thesis by (intro bexI[of _ y]) auto
qed simp

definition queue_db :: db where
  "queue_db = sample_db\<lparr>logout_deliveries := [\<lparr>ld_id = ''d1'', ld_client_id = ''c1'', ld_user_id = ''u1'',
     ld_sid = ''sid1'', ld_status = Queued, ld_attempts = 1, ld_last_error = '''', ld_claim_token = '''',
     ld_lease_until = None, ld_next_attempt_at = 900 * second, ld_created_at = 800 * second, ld_updated_at = 800 * second\<rparr>]\<rparr>"

theorem claim_takes_oldest_due_witness:
  "\<exists>x d'. ClaimLogoutDelivery minute sample_now queue_db = (Some x, d') \<and> ld_id x = ''d1'' \<and> ld_attempts x = 2"
proof -
  have some: "fst (ClaimLogoutDelivery minute sample_now queue_db) \<noteq> None" by code_simp
  have dist: "distinct (map ld_id (logout_deliveries queue_db))" by code_simp
  have tok: "rand_src queue_db (rand_pos queue_db) \<notin> ld_claim_token ` set (logout_deliveries queue_db)" by code_simp
  have ne: "rand_src queue_db (rand_pos queue_db) \<noteq> ''''" by code_simp
  from some obtain x d' where c: "ClaimLogoutDelivery minute sample_now queue_db = (Some x, d')"
    by (cases "ClaimLogoutDelivery minute sample_now queue_db") auto
  from claim_takes_oldest_due[OF c dist tok ne] c show ?thesis by (auto simp: queue_db_def)
qed

text \<open>
  A claim that finds nothing to take changes no delivery: in particular a delivery whose worker was
  interrupted on its last attempt stays \<open>queued\<close>, although no claim can ever take it again.
\<close>

theorem empty_claim_marks_nothing_failed:
  assumes "ClaimLogoutDelivery lease now d = (None, d')"
  shows "logout_deliveries d' = logout_deliveries d \<and>
    (\<forall>x \<in> set (logout_deliveries d). interrupted now x \<longrightarrow> ld_status x = Queued \<and>
       (\<forall>later. \<not> claimable later (logout_deliveries d') x))"
  using assms
proof (cases rule: claim_cases)
  case (taken x)
  let ?f = "\<lambda>y. y\<lparr>ld_claim_token := rand_src d (rand_pos d), ld_lease_until := Some (now + lease),
      ld_attempts := ld_attempts y + 1, ld_updated_at := now\<rparr>"
  have "x \<in> set (fail_interrupted now (logout_deliveries d))"
    using claimable_fail_interrupted[of x now] taken(1,2) by blast
  then have "?f x \<in> set (logout_deliveries d')" unfolding taken(4) by (auto simp: sql_simps intro: image_eqI[of _ _ x])
  then have "r \<noteq> None" if "r = sql_first (\<lambda>y. ld_claim_token y = rand_src d (rand_pos d)) (logout_deliveries d')" for r
    using that by (auto simp: find_None_iff2 intro: bexI[of _ "?f x"])
  with taken(5) show ?thesis by blast
qed (auto simp: interrupted_def claimable_def)

theorem empty_claim_marks_nothing_failed_witness:
  "let stuck = \<lparr>ld_id = ''d1'', ld_client_id = ''c1'', ld_user_id = ''u1'', ld_sid = ''sid1'', ld_status = Queued,
       ld_attempts = 5, ld_last_error = '''', ld_claim_token = ''t'', ld_lease_until = Some (900 * second),
       ld_next_attempt_at = 800 * second, ld_created_at = 800 * second, ld_updated_at = 850 * second\<rparr>;
     d = sample_db\<lparr>logout_deliveries := [stuck]\<rparr>
   in interrupted sample_now stuck \<and> fst (ClaimLogoutDelivery minute sample_now d) = None \<and>
      logout_deliveries (snd (ClaimLogoutDelivery minute sample_now d)) = [stuck]"
proof -
  let ?stuck = "\<lparr>ld_id = ''d1'', ld_client_id = ''c1'', ld_user_id = ''u1'', ld_sid = ''sid1'', ld_status = Queued,
       ld_attempts = 5, ld_last_error = '''', ld_claim_token = ''t'', ld_lease_until = Some (900 * second),
       ld_next_attempt_at = 800 * second, ld_created_at = 800 * second, ld_updated_at = 850 * second\<rparr>"
  let ?d = "sample_db\<lparr>logout_deliveries := [?stuck]\<rparr>"
  have i: "interrupted sample_now ?stuck" by code_simp
  have n: "fst (ClaimLogoutDelivery minute sample_now ?d) = None" by code_simp
  then obtain d' where c: "ClaimLogoutDelivery minute sample_now ?d = (None, d')"
    by (cases "ClaimLogoutDelivery minute sample_now ?d") auto
  from empty_claim_marks_nothing_failed[OF c] c i n show ?thesis by (simp add: Let_def)
qed

section \<open>The queue over time\<close>

text \<open>
  The operations on the queue as steps taken at an instant, and the states reachable from an empty
  queue as the clock advances.
\<close>

inductive logout_step :: "time \<Rightarrow> db \<Rightarrow> db \<Rightarrow> bool" where
  enqueue: "enqueueLogoutTx now sel d = Inr d' \<Longrightarrow> logout_step now d d'"
| claim: "ClaimLogoutDelivery lease now d = (r, d') \<Longrightarrow> logout_step now d d'"
| finish: "FinishLogoutDelivery x e now d = Inr d' \<Longrightarrow> logout_step now d d'"
| retry: "RetryLogoutDeliveryNow userID i audit now d = Inr (b, d') \<Longrightarrow> logout_step now d d'"
| prune: "DeleteLogoutDeliveriesOlderThan cutoff d = d' \<Longrightarrow> logout_step now d d'"
| elsewhere: "logout_deliveries d' = logout_deliveries d \<Longrightarrow> logout_step now d d'"

inductive logout_reach :: "time \<Rightarrow> db \<Rightarrow> bool" where
  empty: "logout_deliveries d = [] \<Longrightarrow> logout_reach now d"
| step: "logout_reach t d \<Longrightarrow> t \<le> now \<Longrightarrow> logout_step now d d' \<Longrightarrow> logout_reach now d'"

definition in_flight :: "time \<Rightarrow> logout_delivery \<Rightarrow> bool" where
  "in_flight now x \<longleftrightarrow> ld_status x = Queued \<and> leased now x"

definition queue_ok :: "time \<Rightarrow> logout_delivery list \<Rightarrow> bool" where
  "queue_ok now t \<longleftrightarrow> distinct (map ld_id t) \<and>
     (\<forall>x \<in> set t. ld_attempts x \<le> logoutDeliveryAttempts) \<and>
     (\<forall>x \<in> set t. \<forall>y \<in> set t. in_flight now x \<longrightarrow> in_flight now y \<longrightarrow>
        ld_client_id x = ld_client_id y \<longrightarrow> ld_id x = ld_id y)"

lemma queue_okI:
  assumes "distinct (map ld_id t)" and "\<And>x. x \<in> set t \<Longrightarrow> ld_attempts x \<le> logoutDeliveryAttempts"
    and "\<And>x y. x \<in> set t \<Longrightarrow> y \<in> set t \<Longrightarrow> in_flight now x \<Longrightarrow> in_flight now y \<Longrightarrow>
      ld_client_id x = ld_client_id y \<Longrightarrow> ld_id x = ld_id y"
  shows "queue_ok now t"
  using assms unfolding queue_ok_def by blast

lemma queue_okD:
  assumes "queue_ok now t"
  shows "distinct (map ld_id t)" and "x \<in> set t \<Longrightarrow> ld_attempts x \<le> logoutDeliveryAttempts"
    and "x \<in> set t \<Longrightarrow> y \<in> set t \<Longrightarrow> in_flight now x \<Longrightarrow> in_flight now y \<Longrightarrow>
      ld_client_id x = ld_client_id y \<Longrightarrow> ld_id x = ld_id y"
  using assms unfolding queue_ok_def by blast+

lemma in_flight_mono: "in_flight now x \<Longrightarrow> t \<le> now \<Longrightarrow> in_flight t x"
  by (auto simp: in_flight_def leased_def split: option.splits)

lemma unleased_not_in_flight: "ld_lease_until x = None \<Longrightarrow> \<not> in_flight now x"
  by (simp add: in_flight_def leased_def)

lemma queue_ok_later:
  assumes "queue_ok t q" and "t \<le> now"
  shows "queue_ok now q"
  by (rule queue_okI) (blast intro: queue_okD[OF assms(1)] in_flight_mono[OF _ assms(2)])+

text \<open>
  Rows may be dropped, and rows may be replaced by unleased ones of the same identity, without
  disturbing the queue.
\<close>

lemma queue_ok_update_unleased:
  assumes "queue_ok now t"
    and f: "\<And>x. ld_id (f x) = ld_id x" "\<And>x. ld_lease_until (f x) = None"
      "\<And>x. ld_attempts (f x) \<le> ld_attempts x"
  shows "queue_ok now (sql_update p f t)"
proof (rule queue_okI)
  show "distinct (map ld_id (sql_update p f t))"
    using queue_okD(1)[OF assms(1)] map_sql_update[of t p ld_id f] f(1) by simp
  show "ld_attempts x \<le> logoutDeliveryAttempts" if "x \<in> set (sql_update p f t)" for x
    using that queue_okD(2)[OF assms(1)] f(3) by (force simp: sql_simps intro: le_trans)
  have old: "x \<in> set t" if "x \<in> set (sql_update p f t)" "in_flight now x" for x
    using that unleased_not_in_flight[OF f(2)] by (auto simp: sql_simps split: if_splits)
  show "ld_id x = ld_id y" if "x \<in> set (sql_update p f t)" "y \<in> set (sql_update p f t)"
      "in_flight now x" "in_flight now y" "ld_client_id x = ld_client_id y" for x y
    using queue_okD(3)[OF assms(1) old[OF that(1,3)] old[OF that(2,4)] that(3,4,5)] .
qed

lemma queue_ok_delete: "queue_ok now t \<Longrightarrow> queue_ok now (sql_delete p t)"
  by (rule queue_okI) (auto simp: sql_simps distinct_sql_delete queue_okD)

lemma queue_ok_append:
  assumes "queue_ok now t" and "distinct (map ld_id (t @ ns))"
    and "\<And>x. x \<in> set ns \<Longrightarrow> ld_attempts x = 0 \<and> ld_lease_until x = None"
  shows "queue_ok now (t @ ns)"
proof -
  have ns: "\<not> in_flight now x" "ld_attempts x \<le> logoutDeliveryAttempts" if "x \<in> set ns" for x
    using assms(3)[OF that] unleased_not_in_flight by auto
  have old: "x \<in> set t" if "x \<in> set (t @ ns)" "in_flight now x" for x
    using that ns(1) by auto
  show ?thesis
  proof (rule queue_okI)
    show "ld_attempts x \<le> logoutDeliveryAttempts" if "x \<in> set (t @ ns)" for x
      using that ns(2) queue_okD(2)[OF assms(1)] by (cases "x \<in> set t") auto
  qed (use assms(2) queue_okD(3)[OF assms(1)] old in blast)+
qed

lemma queue_ok_fail_interrupted: "queue_ok now t \<Longrightarrow> queue_ok now (fail_interrupted now t)"
  unfolding fail_interrupted_def by (rule queue_ok_update_unleased) simp_all

lemma queue_ok_claim:
  assumes "queue_ok now t" and "x \<in> set t" and "claimable now t x"
    and f: "ld_id (f x) = ld_id x" "ld_client_id (f x) = ld_client_id x" "ld_attempts (f x) = Suc (ld_attempts x)"
  shows "queue_ok now (sql_update (\<lambda>y. ld_id y = ld_id x) f t)"
proof (rule queue_okI)
  let ?t = "sql_update (\<lambda>y. ld_id y = ld_id x) f t"
  have only: "y = x" if "y \<in> set t" "ld_id y = ld_id x" for y
    using queue_okD(1)[OF assms(1)] that assms(2) by (blast intro: key_unique[of ld_id t])
  then show "distinct (map ld_id ?t)"
    using queue_okD(1)[OF assms(1)] map_sql_update[of t "\<lambda>y. ld_id y = ld_id x" ld_id f] f(1) by metis
  have cases: "z = f x \<or> z \<in> set t" if "z \<in> set ?t" for z
    using that only by (auto simp: sql_simps if_image_distrib split: if_splits)
  show "ld_attempts z \<le> logoutDeliveryAttempts" if "z \<in> set ?t" for z
    using cases[OF that] queue_okD(2)[OF assms(1)] assms(3) f(3) by (auto simp: claimable_def)
  have free: "ld_client_id z \<noteq> ld_client_id x" if "z \<in> set t" "in_flight now z" for z
    using assms(3) that unfolding claimable_def in_flight_def by blast
  show "ld_id z = ld_id w" if "z \<in> set ?t" "w \<in> set ?t" "in_flight now z" "in_flight now w"
      "ld_client_id z = ld_client_id w" for z w
    using cases[OF that(1)] cases[OF that(2)] free that(3-5) f(2) queue_okD(3)[OF assms(1)] by metis
qed

lemma FinishLogoutDelivery_InrD:
  assumes "FinishLogoutDelivery x e now d = Inr d'"
  obtains p f where "logout_deliveries d' = sql_update p f (logout_deliveries d)"
    "\<And>x. ld_id (f x) = ld_id x" "\<And>x. ld_lease_until (f x) = None" "\<And>x. ld_attempts (f x) \<le> ld_attempts x"
proof -
  from assms have "logout_deliveries d' = sql_update
      (\<lambda>y. ld_id y = ld_id x \<and> ld_claim_token y = ld_claim_token x \<and> ld_claim_token y \<noteq> '''')
      (\<lambda>y. y\<lparr>ld_status := (case e of None \<Rightarrow> Delivered
         | Some _ \<Rightarrow> if ld_attempts x \<ge> logoutDeliveryAttempts then Failed else Queued),
        ld_last_error := (case e of None \<Rightarrow> '''' | Some m \<Rightarrow> take 200 m),
        ld_next_attempt_at := (case e of None \<Rightarrow> now | Some _ \<Rightarrow> now + logoutRetryDelay (ld_attempts x)),
        ld_claim_token := '''', ld_lease_until := None, ld_updated_at := now\<rparr>) (logout_deliveries d)"
    unfolding FinishLogoutDelivery_def Let_def result_iffs by auto
  then show thesis by (rule that) simp_all
qed

lemma RetryLogoutDeliveryNow_InrE:
  assumes "RetryLogoutDeliveryNow userID i audit now d = Inr (b, d')"
  obtains "\<not> b" "d' = d" | p f where "b" "logout_deliveries d' = sql_update p f (logout_deliveries d)"
    "\<And>x. ld_id (f x) = ld_id x" "\<And>x. ld_lease_until (f x) = None" "\<And>x. ld_attempts (f x) \<le> ld_attempts x"
proof (cases "sql_count (\<lambda>y. ld_id y = i \<and> ld_user_id y = userID \<and> ld_status y \<noteq> Delivered) (logout_deliveries d) = 0")
  case True
  with assms that(1) show thesis by (simp add: RetryLogoutDeliveryNow_def)
next
  case False
  with assms have "b" and "logout_deliveries d' = sql_update
      (\<lambda>y. ld_id y = i \<and> ld_user_id y = userID \<and> ld_status y \<noteq> Delivered)
      (\<lambda>y. y\<lparr>ld_status := Queued, ld_attempts := 0, ld_next_attempt_at := now, ld_claim_token := '''',
         ld_lease_until := None, ld_updated_at := now\<rparr>) (logout_deliveries d)"
    by (auto simp: RetryLogoutDeliveryNow_def Let_def result_iffs dest!: recordAuditTx_InrD)
  then show thesis by (rule that(2)) simp_all
qed

lemma logout_step_queue_ok:
  assumes "logout_step now d d'" and "queue_ok now (logout_deliveries d)"
  shows "queue_ok now (logout_deliveries d')"
  using assms
proof cases
  case (enqueue sel)
  from enqueueLogoutTx_keeps[OF this] queue_okD(1)[OF assms(2)] show ?thesis
    by (auto intro!: queue_ok_append[OF assms(2)] simp del: map_append)
next
  case (claim lease r)
  then show ?thesis
  proof (cases rule: claim_cases)
    case (taken x)
    have "x \<in> set (fail_interrupted now (logout_deliveries d)) \<and>
        claimable now (fail_interrupted now (logout_deliveries d)) x"
      using claimable_fail_interrupted taken(1,2) by blast
    then show ?thesis unfolding taken(4)
      by (intro queue_ok_claim[OF queue_ok_fail_interrupted[OF assms(2)]]) simp_all
  qed (use assms(2) in simp)
next
  case (finish x e)
  show ?thesis
    by (rule FinishLogoutDelivery_InrD[OF finish]) (use queue_ok_update_unleased[OF assms(2)] in simp)
next
  case (retry userID i audit b)
  then show ?thesis
  proof (cases rule: RetryLogoutDeliveryNow_InrE)
    case (2 p f)
    then show ?thesis using queue_ok_update_unleased[OF assms(2), of f p] by simp
  qed (use assms(2) in simp)
next
  case (prune cutoff)
  then show ?thesis using queue_ok_delete[OF assms(2)] by (auto simp: DeleteLogoutDeliveriesOlderThan_def)
next
  case elsewhere
  with assms(2) show ?thesis by simp
qed

text \<open>
  Over every history of enqueues, claims, outcomes, retries and prunes, with a clock that never goes
  back: no delivery is attempted more than five times before an administrator retries it, and no client ever
  has two deliveries in flight.
\<close>

theorem one_delivery_in_flight:
  assumes "logout_reach now d"
  shows "(\<forall>x \<in> set (logout_deliveries d). ld_attempts x \<le> 5) \<and>
    (\<forall>x \<in> set (logout_deliveries d). \<forall>y \<in> set (logout_deliveries d).
       ld_status x = Queued \<and> leased now x \<and> ld_status y = Queued \<and> leased now y \<and>
       ld_client_id x = ld_client_id y \<longrightarrow> x = y)"
proof -
  have ok: "queue_ok now (logout_deliveries d)" using assms
  proof induction
    case (step t d now d')
    then show ?case by (blast intro: logout_step_queue_ok queue_ok_later)
  qed (simp add: queue_ok_def)
  have "x = y" if "x \<in> set (logout_deliveries d)" "y \<in> set (logout_deliveries d)" "in_flight now x"
      "in_flight now y" "ld_client_id x = ld_client_id y" for x y
    using key_unique[OF queue_okD(1)[OF ok] that(1,2)] queue_okD(3)[OF ok that] by blast
  then show ?thesis
    using queue_okD(2)[OF ok] unfolding in_flight_def logoutDeliveryAttempts_def by blast
qed

theorem one_delivery_in_flight_witness:
  "\<exists>d'. enqueueLogoutTx sample_now (\<lambda>_. True) sample_db = Inr d' \<and> logout_deliveries d' \<noteq> [] \<and>
     (\<forall>x \<in> set (logout_deliveries d'). ld_attempts x \<le> 5)"
proof -
  have "\<not> isl (enqueueLogoutTx sample_now (\<lambda>_. True) sample_db)" by code_simp
  then obtain d' where e: "enqueueLogoutTx sample_now (\<lambda>_. True) sample_db = Inr d'" by (blast dest: succeeds)
  have "logout_reach sample_now sample_db" by (rule logout_reach.empty) (simp add: sample_defs)
  then have r: "logout_reach sample_now d'" using e by (auto intro: logout_reach.step logout_step.enqueue)
  have "\<exists>c \<in> set (client_sessions sample_db). wants_logout sample_db c" by code_simp
  with enqueueLogoutTx_queues[OF e] have "logout_deliveries d' \<noteq> []" by fastforce
  with e one_delivery_in_flight[OF r] show ?thesis by blast
qed

text \<open>
  The retry delay doubles from a minute with each recorded attempt and never exceeds half an hour, at the
  64-bit width the code computes it in: for every attempt count the queue can hold the product is exact.
\<close>

theorem retry_delay_doubles:
  assumes "1 \<le> n" and "n \<le> logoutDeliveryAttempts"
  shows "logoutRetryDelay n = 2 ^ n * 30 * second \<and> logoutRetryDelay n \<le> 30 * minute \<and>
    (n < logoutDeliveryAttempts \<longrightarrow> logoutRetryDelay (n + 1) = 2 * logoutRetryDelay n)"
proof -
  have "n \<in> {1, 2, 3, 4, 5}" using assms by (auto simp: logoutDeliveryAttempts_def)
  then show ?thesis by (elim insertE) (simp_all add: logoutRetryDelay_def wrap64_def Let_def logoutDeliveryAttempts_def)
qed

theorem retry_delay_doubles_witness: "logoutRetryDelay 3 = 4 * minute"
  using retry_delay_doubles[of 3] by (simp add: logoutDeliveryAttempts_def)

end
