(* ===== verification/Ky_Sessions.thy ===== *)
theory Ky_Sessions
  imports Ky_Access Ky_Enrollment Ky_Logout
begin

text \<open>
  Browser sessions and their revocation (\<^verbatim>\<open>internal/store/store.go\<close>, \<open>CreateSessionForInteraction\<close> to
  \<open>CleanupExpiredSessions\<close> and \<open>revokeUserAccessTx\<close>; \<^verbatim>\<open>sessions.go\<close>;
  \<^verbatim>\<open>session_limits.go\<close>; \<open>revokeLostAppAccessTx\<close> of \<^verbatim>\<open>app_access.go\<close>): what starts a session, what a
  session lookup accepts, and what ending one takes with it.
\<close>

section \<open>Session limits\<close>

definition sessionLimitsKey :: string where
  "sessionLimitsKey = ''session_limits''"

definition AbsoluteTTL :: "session_limits \<Rightarrow> duration" where
  "AbsoluteTTL l = wrap64 (sl_absolute l * second)"

definition IdleTTL :: "session_limits \<Rightarrow> duration" where
  "IdleTTL l = wrap64 (sl_idle l * second)"

definition ValidSessionLimits :: "duration \<Rightarrow> duration \<Rightarrow> bool" where
  "ValidSessionLimits absolute idle \<longleftrightarrow> absolute \<ge> hour \<and> absolute \<le> 7 * 24 * hour
     \<and> idle \<ge> 5 * minute \<and> idle \<le> 24 * hour \<and> idle \<le> absolute"

definition limits_Valid :: "session_limits \<Rightarrow> bool" where
  "limits_Valid l \<longleftrightarrow> ValidSessionLimits (AbsoluteTTL l) (IdleTTL l)"

definition SessionLimits :: "db \<Rightarrow> session_limits" where
  "SessionLimits d = (case limits d of Some l \<Rightarrow> l
     | None \<Rightarrow> \<lparr>sl_absolute = 24 * 3600, sl_idle = 8 * 3600\<rparr>)"

definition limits_json :: "session_limits \<Rightarrow> json" where
  "limits_json l = JObj [(''absolute'', JNum (sl_absolute l)), (''idle'', JNum (sl_idle l))]"

text \<open>\<open>json.Unmarshal\<close> into limits that already hold the seed: a missing member keeps the seed's.\<close>

definition json_member :: "string \<Rightarrow> json \<Rightarrow> json option" where
  "json_member k v = (case v of JObj ms \<Rightarrow> map_of ms k | _ \<Rightarrow> None)"

definition unmarshal_limits :: "json \<Rightarrow> session_limits \<Rightarrow> session_limits option" where
  "unmarshal_limits v seed =
     (case v of
        JObj _ \<Rightarrow>
          (let field = (\<lambda>k old. case json_member k v of None \<Rightarrow> Some old | Some JNull \<Rightarrow> Some old
                 | Some (JNum n) \<Rightarrow> (if - (2 ^ 63) \<le> n \<and> n < 2 ^ 63 then Some n else None) | _ \<Rightarrow> None)
           in case (field ''absolute'' (sl_absolute seed), field ''idle'' (sl_idle seed)) of
                (Some a, Some i) \<Rightarrow> Some \<lparr>sl_absolute = a, sl_idle = i\<rparr>
              | _ \<Rightarrow> None)
      | JNull \<Rightarrow> Some seed
      | _ \<Rightarrow> None)"

definition LoadSessionLimits :: "session_limits \<Rightarrow> db \<Rightarrow> err + db" where
  "LoadSessionLimits seed d =
     (let l = (case map_of (system_settings d) sessionLimitsKey of
                 None \<Rightarrow> Some seed | Some v \<Rightarrow> unmarshal_limits v seed)
      in case l of None \<Rightarrow> Inl ErrInvalidInput
         | Some l \<Rightarrow> if limits_Valid l then Inr (d\<lparr>limits := Some l\<rparr>) else Inl ErrOutOfBounds)"

section \<open>Ending sessions\<close>

text \<open>
  The statements of \<open>revokeSessionGrantsTx\<close>. The predicate its callers splice in is over the columns
  \<open>session_id\<close> and \<open>user_id\<close> every one of these tables has.
\<close>

definition revokeSessionGrantsTx :: "(string option \<Rightarrow> string \<Rightarrow> bool) \<Rightarrow> time \<Rightarrow> db \<Rightarrow> db" where
  "revokeSessionGrantsTx sel now d =
     d\<lparr>issued_tokens := sql_update (\<lambda>t. it_revoked_at t = None \<and> sel (it_session_id t) (it_user_id t))
         (\<lambda>t. t\<lparr>it_revoked_at := Some now\<rparr>) (issued_tokens d),
       authorization_codes := sql_delete (\<lambda>c. sel (Some (ac_session_id c)) (ac_user_id c)) (authorization_codes d),
       step_up_tokens := sql_update (\<lambda>t. su_used_at t = None \<and> sel (Some (su_session_id t)) (su_user_id t))
         (\<lambda>t. t\<lparr>su_used_at := Some now\<rparr>) (step_up_tokens d),
       step_up_challenges := sql_update (\<lambda>c. sc_used_at c = None \<and> sel (Some (sc_session_id c)) (sc_user_id c))
         (\<lambda>c. c\<lparr>sc_used_at := Some now\<rparr>) (step_up_challenges d),
       interactions := sql_delete (\<lambda>i. sel (Some (ai_session_id i)) (ai_user_id i)) (interactions d)\<rparr>"

definition revokeSessionsTx :: "time \<Rightarrow> (session \<Rightarrow> bool) \<Rightarrow> db \<Rightarrow> nat tx" where
  "revokeSessionsTx now p d =
     andthen (enqueueLogoutTx now (\<lambda>c. \<exists>s \<in> set (sessions d). p s \<and> ses_id s = cs_session_id c) d) (\<lambda>d1.
     let d2 = revokeSessionGrantsTx (\<lambda>sid _. \<exists>s \<in> set (sessions d1). p s \<and> sid = Some (ses_id s)) now d1
     in Inr (sql_count p (sessions d2), delete_sessions p d2))"

definition RevokeSession :: "string \<Rightarrow> string \<Rightarrow> audit_event option \<Rightarrow> time \<Rightarrow> db \<Rightarrow> unit tx" where
  "RevokeSession userID sessionID audit now = auditedTx audit now (\<lambda>d.
     andthen (revokeSessionsTx now (\<lambda>s. ses_id s = sessionID \<and> ses_user_id s = userID) d) (\<lambda>(n, d1).
     if n = 0 then Inl ErrNotFound else Inr ((), d1)))"

definition RevokeOtherSessions :: "string \<Rightarrow> string \<Rightarrow> audit_event option \<Rightarrow> time \<Rightarrow> db \<Rightarrow> unit tx" where
  "RevokeOtherSessions userID keepSessionID audit now = auditedTx audit now (\<lambda>d.
     andthen (revokeSessionsTx now (\<lambda>s. ses_user_id s = userID \<and> ses_id s \<noteq> keepSessionID) d) (\<lambda>(n, d1).
     Inr ((), d1)))"

definition RevokeUserClientAccess :: "string \<Rightarrow> string \<Rightarrow> audit_event option \<Rightarrow> time \<Rightarrow> db \<Rightarrow> unit tx" where
  "RevokeUserClientAccess userID clientID audit now = auditedTx audit now (\<lambda>d.
     andthen (enqueueLogoutTx now (\<lambda>c. cs_user_id c = userID \<and> cs_client_id c = clientID) d) (\<lambda>d1.
     Inr ((), d1\<lparr>issued_tokens := sql_update (\<lambda>t. it_user_id t = userID \<and> it_client_id t = clientID \<and> it_revoked_at t = None)
           (\<lambda>t. t\<lparr>it_revoked_at := Some now\<rparr>) (issued_tokens d1),
         authorization_codes := sql_delete (\<lambda>c. ac_user_id c = userID \<and> ac_client_id c = clientID)
           (authorization_codes d1)\<rparr>)))"

definition SetSessionLimits :: "session_limits \<Rightarrow> audit_event option \<Rightarrow> time \<Rightarrow> db \<Rightarrow> nat tx" where
  "SetSessionLimits l audit now d =
     andthen (ensure (limits_Valid l) ErrOutOfBounds) (\<lambda>_.
     let old = SessionLimits d;
         strict = \<lparr>sl_absolute = min (sl_absolute old) (sl_absolute l), sl_idle = min (sl_idle old) (sl_idle l)\<rparr>;
         d0 = d\<lparr>system_settings := AList.update sessionLimitsKey (limits_json l) (system_settings d)\<rparr>
     in andthen (revokeSessionsTx now (\<lambda>s. ses_last_active_at s \<le> now - IdleTTL strict
                                         \<or> ses_created_at s \<le> now - AbsoluteTTL strict) d0) (\<lambda>(ended, d1).
        let audit' = map_option (\<lambda>e. e\<lparr>au_details := JObj [(''new'', limits_json l), (''old'', limits_json old),
              (''sessionsEnded'', JNum (int ended))]\<rparr>) audit
        in andthen (recordAuditTx audit' now d1) (\<lambda>d2. Inr (ended, d2\<lparr>limits := Some l\<rparr>))))"

section \<open>Ending everything an account holds\<close>

definition spendMFATokensTx :: "time \<Rightarrow> string \<Rightarrow> db \<Rightarrow> db" where
  "spendMFATokensTx now userID d =
     d\<lparr>mfa_tokens := sql_update (\<lambda>t. mt_user_id t = userID \<and> mt_used_at t = None)
        (\<lambda>t. t\<lparr>mt_used_at := Some now\<rparr>) (mfa_tokens d)\<rparr>"

definition expireAccountTokensTx :: "time \<Rightarrow> (account_token \<Rightarrow> bool) \<Rightarrow> db \<Rightarrow> db" where
  "expireAccountTokensTx now p d =
     d\<lparr>account_tokens := sql_update (\<lambda>t. at_used_at t = None \<and> at_expires_at t > now \<and> p t)
        (\<lambda>t. t\<lparr>at_expires_at := now\<rparr>) (account_tokens d)\<rparr>"

definition expirePairingTokensTx :: "time \<Rightarrow> string \<Rightarrow> db \<Rightarrow> db" where
  "expirePairingTokensTx now userID d =
     d\<lparr>pairing_tokens := sql_update (\<lambda>t. pt_user_id t = userID \<and> pt_used_at t = None)
        (\<lambda>t. t\<lparr>pt_expires_at := now\<rparr>) (pairing_tokens d)\<rparr>"

definition revokeUserAccessTx :: "string \<Rightarrow> time \<Rightarrow> db \<Rightarrow> err + db" where
  "revokeUserAccessTx userID now d =
     andthen (revokeSessionsTx now (\<lambda>s. ses_user_id s = userID) d) (\<lambda>(n, d1).
     let d2 = expirePairingTokensTx now userID d1;
         d3 = revokeSessionGrantsTx (\<lambda>_ u. u = userID) now d2;
         d4 = spendMFATokensTx now userID d3
     in Inr (expireAccountTokensTx now (\<lambda>t. at_user_id t = userID) d4))"

definition RevokeUserAccess :: "string \<Rightarrow> audit_event option \<Rightarrow> time \<Rightarrow> db \<Rightarrow> unit tx" where
  "RevokeUserAccess userID audit now = auditedTx audit now (\<lambda>d.
     andthen (revokeUserAccessTx userID now d) (\<lambda>d1. Inr ((), d1)))"

text \<open>The client a user still reaches through some app, as the subquery \<open>lost\<close> negates it.\<close>

definition reaches_client :: "time \<Rightarrow> db \<Rightarrow> string \<Rightarrow> string \<Rightarrow> bool" where
  "reaches_client now d userID clientID \<longleftrightarrow>
     (\<exists>e \<in> set (effective_app_access now d). \<exists>a \<in> set (app_registry d).
        app_id a = fst e \<and> snd e = userID \<and> app_client_id a = Some clientID)"

definition revokeLostAppAccessTx :: "time \<Rightarrow> db \<Rightarrow> err + db" where
  "revokeLostAppAccessTx now d =
     (let d1 = d\<lparr>issued_tokens := sql_update (\<lambda>t. it_revoked_at t = None \<and>
                 \<not> reaches_client now d (it_user_id t) (it_client_id t)) (\<lambda>t. t\<lparr>it_revoked_at := Some now\<rparr>) (issued_tokens d)\<rparr>;
          d2 = d1\<lparr>authorization_codes := sql_delete (\<lambda>c. \<not> reaches_client now d1 (ac_user_id c) (ac_client_id c))
                 (authorization_codes d1)\<rparr>;
          lost = (\<lambda>c. \<not> reaches_client now d2 (cs_user_id c) (cs_client_id c))
      in andthen (enqueueLogoutTx now lost d2) (\<lambda>d3.
         Inr (d3\<lparr>client_sessions := sql_delete lost (client_sessions d3)\<rparr>)))"

section \<open>Starting, finding and touching sessions\<close>

definition eligible_user :: "string \<Rightarrow> string \<Rightarrow> db \<Rightarrow> bool" where
  "eligible_user userID provenHash d \<longleftrightarrow> (\<exists>u \<in> set (users d). usr_id u = userID \<and> usr_status u = Active
     \<and> (provenHash = '''' \<or> usr_password_hash u = provenHash))"

definition live_session_of :: "string \<Rightarrow> string \<Rightarrow> time \<Rightarrow> db \<Rightarrow> bool" where
  "live_session_of sid userID now d \<longleftrightarrow>
     (\<exists>s \<in> set (sessions d). ses_id s = sid \<and> ses_user_id s = userID \<and> ses_expires_at s > now)"

text \<open>The \<open>WHERE\<close> clause under which an authorization interaction accepts the login.\<close>

definition interaction_accepts :: "string \<Rightarrow> string \<Rightarrow> session \<Rightarrow> time \<Rightarrow> db \<Rightarrow> interaction \<Rightarrow> bool" where
  "interaction_accepts h b sess now d i \<longleftrightarrow>
     ai_hash i = h \<and> ai_browser_hash i = b \<and> ai_session_id i = '''' \<and> ai_expires_at i > now \<and>
     (ai_user_id i = '''' \<or> ai_user_id i = ses_user_id sess) \<and>
     sql_count (\<lambda>j. ai_user_id j = ses_user_id sess \<and> ai_hash j \<noteq> h) (interactions d) < 10 \<and>
     (case ev_primary_at (ses_evidence sess) of None \<Rightarrow> False | Some t \<Rightarrow> ai_created_at i \<le> t) \<and>
     (\<exists>u \<in> set (users d). usr_id u = ses_user_id sess \<and> usr_status u = Active) \<and>
     (ai_original_session_id i = '''' \<or>
       (\<exists>s \<in> set (sessions d). ses_id s = ai_original_session_id i \<and> ses_expires_at s > now))"

text \<open>Binding the login to its interaction: the session identifier to use, and whether it renews one.\<close>

definition bind_interaction :: "session \<Rightarrow> string \<Rightarrow> string \<Rightarrow> time \<Rightarrow> db \<Rightarrow> err + (string \<times> bool \<times> db)" where
  "bind_interaction sess h b now d =
     (if h = '''' then Inr (ses_id sess, False, d)
      else
        (let original = (case sql_first (\<lambda>i. ai_hash i = h \<and> ai_browser_hash i = b) (interactions d) of
               None \<Rightarrow> '''' | Some i \<Rightarrow> ai_original_session_id i);
             renew = (original \<noteq> '''' \<and> live_session_of original (ses_user_id sess) now d);
             i = (if renew then original else ses_id sess);
             accepts = interaction_accepts h b sess now d;
             d1 = d\<lparr>interactions := sql_update accepts
                    (\<lambda>x. x\<lparr>ai_session_id := i, ai_user_id := ses_user_id sess\<rparr>) (interactions d)\<rparr>;
             d2 = (if renew then d1\<lparr>interactions := sql_update (\<lambda>x. ai_session_id x = i \<and> ai_hash x \<noteq> h)
                    (\<lambda>x. x\<lparr>ai_expires_at := now\<rparr>) (interactions d1)\<rparr> else d1)
         in andthen (ensure (sql_count accepts (interactions d) = 1) ErrAuthorizationInteraction) (\<lambda>_.
            Inr (i, renew, d2))))"

definition write_session :: "session \<Rightarrow> string \<Rightarrow> string \<Rightarrow> bool \<Rightarrow> time \<Rightarrow> db \<Rightarrow> err + db" where
  "write_session sess provenHash i renew now d =
     (let row = sess\<lparr>ses_id := i, ses_created_at := now, ses_last_active_at := now, ses_enrollment_only := False\<rparr>;
          match = (\<lambda>s. ses_id s = i \<and> ses_user_id s = ses_user_id sess)
      in andthen (ensure (eligible_user (ses_user_id sess) provenHash d
              \<and> (renew \<longrightarrow> sql_count match (sessions d) = 1)) ErrAppAccessDenied) (\<lambda>_.
         andthen (ensure (\<not> (\<exists>s \<in> set (sessions d). (ses_token_hash s = ses_token_hash sess \<and> \<not> (renew \<and> match s))
              \<or> (\<not> renew \<and> ses_id s = i))) ErrUnique) (\<lambda>_.
         Inr (d\<lparr>sessions := (if renew then sql_update match (\<lambda>_. row) (sessions d)
                              else sql_insert row (sessions d))\<rparr>))))"

text \<open>\<open>UPDATE sessions SET enrollment_only=NOT (SELECT allowed FROM mfa_session_access WHERE id=?)\<close>.\<close>

definition mark_enrollment_only :: "string \<Rightarrow> time \<Rightarrow> db \<Rightarrow> err + db" where
  "mark_enrollment_only i now d =
     (case sql_first (\<lambda>(j, _, _). j = i) (mfa_session_access now d) of
        None \<Rightarrow> Inl ErrCheck
      | Some (_, _, allowed) \<Rightarrow> Inr (d\<lparr>sessions := sql_update (\<lambda>s. ses_id s = i)
          (\<lambda>s. s\<lparr>ses_enrollment_only := \<not> allowed\<rparr>) (sessions d)\<rparr>))"

definition CreateSessionForInteraction :: "session \<Rightarrow> string \<Rightarrow> string \<Rightarrow> string \<Rightarrow> time \<Rightarrow> db \<Rightarrow> string tx" where
  "CreateSessionForInteraction sess provenHash interactionHash browserHash now d =
     andthen (bind_interaction sess interactionHash browserHash now d) (\<lambda>(i, renew, d1).
     andthen (write_session sess provenHash i renew now d1) (\<lambda>d2.
     andthen (mark_enrollment_only i now d2) (\<lambda>d3. Inr (i, d3))))"

definition CreateSession :: "session \<Rightarrow> string \<Rightarrow> time \<Rightarrow> db \<Rightarrow> string tx" where
  "CreateSession sess provenHash now d = CreateSessionForInteraction sess provenHash '''' '''' now d"

definition GetSessionByTokenHash :: "string \<Rightarrow> duration \<Rightarrow> time \<Rightarrow> db \<Rightarrow> session option" where
  "GetSessionByTokenHash tokenHash idleTTL now d =
     sql_first (\<lambda>s. ses_token_hash s = tokenHash \<and> ses_expires_at s > now \<and> ses_last_active_at s > now - idleTTL
       \<and> ses_created_at s > now - AbsoluteTTL (SessionLimits d)) (sessions d)"

definition GetSessionByID :: "string \<Rightarrow> time \<Rightarrow> db \<Rightarrow> session option" where
  "GetSessionByID i now d = sql_first (\<lambda>s. ses_id s = i \<and> ses_expires_at s > now) (sessions d)"

definition ListUserSessions :: "string \<Rightarrow> duration \<Rightarrow> time \<Rightarrow> db \<Rightarrow> session list" where
  "ListUserSessions userID idleTTL now d = sort_key (\<lambda>s. - ses_last_active_at s)
     (filter (\<lambda>s. ses_user_id s = userID \<and> ses_expires_at s > now \<and> ses_last_active_at s > now - idleTTL
       \<and> ses_created_at s > now - AbsoluteTTL (SessionLimits d)) (sessions d))"

definition TouchSession :: "string \<Rightarrow> time \<Rightarrow> db \<Rightarrow> db" where
  "TouchSession i now d = d\<lparr>sessions := sql_update (\<lambda>s. ses_id s = i) (\<lambda>s. s\<lparr>ses_last_active_at := now\<rparr>) (sessions d)\<rparr>"

definition DeleteSession :: "string \<Rightarrow> db \<Rightarrow> db" where
  "DeleteSession i d = delete_sessions (\<lambda>s. ses_id s = i) d"

definition HasAnySession :: "string \<Rightarrow> db \<Rightarrow> bool" where
  "HasAnySession userID d \<longleftrightarrow> sql_count (\<lambda>s. userID = '''' \<or> ses_user_id s = userID) (sessions d) > 0"

definition CleanupExpiredSessions :: "time \<Rightarrow> db \<Rightarrow> db" where
  "CleanupExpiredSessions now d = delete_sessions (\<lambda>s. ses_expires_at s < now) d"

text \<open>The live tokens of a user grouped by client: the loop of \<open>ListUserAppGrants\<close>.\<close>

record app_grant =
  ag_client_id :: string
  ag_client_name :: string
  ag_tokens :: nat
  ag_issued_at :: time
  ag_expires_at :: time

definition add_grant :: "string \<Rightarrow> issued_token \<Rightarrow> app_grant list \<Rightarrow> app_grant list" where
  "add_grant name t out =
     (if \<exists>g \<in> set out. ag_client_id g = it_client_id t
      then sql_update (\<lambda>g. ag_client_id g = it_client_id t) (\<lambda>g. g\<lparr>ag_tokens := ag_tokens g + 1,
             ag_issued_at := (if it_created_at t < ag_issued_at g then it_created_at t else ag_issued_at g),
             ag_expires_at := (if it_expires_at t > ag_expires_at g then it_expires_at t else ag_expires_at g)\<rparr>) out
      else out @ [\<lparr>ag_client_id = it_client_id t, ag_client_name = name, ag_tokens = 1,
             ag_issued_at = it_created_at t, ag_expires_at = it_expires_at t\<rparr>])"

definition client_name_of :: "db \<Rightarrow> string \<Rightarrow> string" where
  "client_name_of d c = (case sql_first (\<lambda>x. oc_id x = c) (oauth_clients d) of None \<Rightarrow> c | Some x \<Rightarrow> oc_client_name x)"

definition ListUserAppGrants :: "string \<Rightarrow> time \<Rightarrow> db \<Rightarrow> app_grant list" where
  "ListUserAppGrants userID now d =
     fold (\<lambda>t. add_grant (client_name_of d (it_client_id t)) t)
       (sort_key (\<lambda>t. - it_created_at t) (filter (\<lambda>t. it_user_id t = userID \<and> it_revoked_at t = None
          \<and> it_expires_at t > now) (issued_tokens d))) []"

section \<open>What ending sessions does\<close>

lemma revokeSessionsTx_InrE:
  assumes "revokeSessionsTx now p d = Inr (n, d')"
  obtains t m where "d' = delete_sessions p (revokeSessionGrantsTx (\<lambda>sid _. \<exists>s \<in> set (sessions d). p s \<and> sid = Some (ses_id s))
      now (d\<lparr>logout_deliveries := t, rand_pos := m\<rparr>))"
    and "enqueueLogoutTx now (\<lambda>c. \<exists>s \<in> set (sessions d). p s \<and> ses_id s = cs_session_id c) d =
      Inr (d\<lparr>logout_deliveries := t, rand_pos := m\<rparr>)"
    and "n = sql_count p (sessions d)"
proof -
  let ?sel = "\<lambda>c. \<exists>s \<in> set (sessions d). p s \<and> ses_id s = cs_session_id c"
  from assms obtain d1 where e: "enqueueLogoutTx now ?sel d = Inr d1"
      and r: "n = sql_count p (sessions (revokeSessionGrantsTx (\<lambda>sid _. \<exists>s \<in> set (sessions d1). p s \<and> sid = Some (ses_id s)) now d1))"
        "d' = delete_sessions p (revokeSessionGrantsTx (\<lambda>sid _. \<exists>s \<in> set (sessions d1). p s \<and> sid = Some (ses_id s)) now d1)"
    by (auto simp: revokeSessionsTx_def Let_def result_iffs)
  from enqueueLogoutTx_frame[OF e] obtain t m where "d1 = d\<lparr>logout_deliveries := t, rand_pos := m\<rparr>" by blast
  with e r that[of m t] show thesis by (simp add: revokeSessionGrantsTx_def)
qed

text \<open>The tables ending sessions does not touch.\<close>

lemma revokeSessionsTx_frame:
  assumes "revokeSessionsTx now p d = Inr (n, d')"
  shows "users d' = users d \<and> oauth_clients d' = oauth_clients d \<and> mfa_tokens d' = mfa_tokens d \<and>
    pairing_tokens d' = pairing_tokens d \<and> account_tokens d' = account_tokens d \<and>
    system_settings d' = system_settings d \<and> limits d' = limits d \<and> audit_events d' = audit_events d \<and>
    login_failures d' = login_failures d \<and> app_registry d' = app_registry d"
  using assms by (elim revokeSessionsTx_InrE) (simp add: revokeSessionGrantsTx_def delete_sessions_def Let_def)

lemma revokeSessionsTx_sessions:
  assumes "revokeSessionsTx now p d = Inr (n, d')"
  shows "sessions d' = sql_delete p (sessions d)" and "n = sql_count p (sessions d)"
  using assms by (elim revokeSessionsTx_InrE, simp add: revokeSessionGrantsTx_def delete_sessions_def Let_def)+

text \<open>A session identifier all of whose rows match is gone from every table that mentions it.\<close>

definition session_over :: "string \<Rightarrow> db \<Rightarrow> bool" where
  "session_over sid d \<longleftrightarrow>
     (\<forall>s \<in> set (sessions d). ses_id s \<noteq> sid) \<and>
     (\<forall>t \<in> set (issued_tokens d). it_session_id t = Some sid \<longrightarrow> it_revoked_at t \<noteq> None) \<and>
     (\<forall>c \<in> set (authorization_codes d). ac_session_id c \<noteq> sid) \<and>
     (\<forall>t \<in> set (step_up_tokens d). su_session_id t = sid \<longrightarrow> su_used_at t \<noteq> None) \<and>
     (\<forall>c \<in> set (step_up_challenges d). sc_session_id c \<noteq> sid) \<and>
     (\<forall>i \<in> set (interactions d). ai_session_id i \<noteq> sid) \<and>
     (\<forall>c \<in> set (client_sessions d). cs_session_id c \<noteq> sid)"

lemma revokeSessionsTx_over:
  assumes "revokeSessionsTx now p d = Inr (n, d')" and "wf_keys d" and "s \<in> set (sessions d)" and "p s"
  shows "session_over (ses_id s) d'"
proof -
  have only: "x = s" if "x \<in> set (sessions d)" "ses_id x = ses_id s" for x
    using that assms(2,3) key_unique[of ses_id "sessions d" x s] by (simp add: wf_keys_def)
  from assms(1) show ?thesis
  proof (elim revokeSessionsTx_InrE)
    fix t m
    let ?sel = "\<lambda>sid (_::string). \<exists>s \<in> set (sessions d). p s \<and> sid = Some (ses_id s)"
    assume d': "d' = delete_sessions p (revokeSessionGrantsTx ?sel now (d\<lparr>logout_deliveries := t, rand_pos := m\<rparr>))"
    have "\<forall>x \<in> set (sessions d'). ses_id x \<noteq> ses_id s"
      using only assms(4) by (auto simp: d' delete_sessions_def revokeSessionGrantsTx_def Let_def sql_simps)
    moreover have "\<forall>x \<in> set (issued_tokens d'). it_session_id x = Some (ses_id s) \<longrightarrow> it_revoked_at x \<noteq> None"
      using assms(3,4) by (auto simp: d' delete_sessions_def revokeSessionGrantsTx_def Let_def sql_simps)
    moreover have "\<forall>x \<in> set (authorization_codes d'). ac_session_id x \<noteq> ses_id s"
      using assms(3,4) by (auto simp: d' delete_sessions_def revokeSessionGrantsTx_def Let_def sql_simps)
    moreover have "\<forall>x \<in> set (step_up_tokens d'). su_session_id x = ses_id s \<longrightarrow> su_used_at x \<noteq> None"
      using assms(3,4) by (auto simp: d' delete_sessions_def revokeSessionGrantsTx_def Let_def sql_simps)
    moreover have "\<forall>x \<in> set (step_up_challenges d'). sc_session_id x \<noteq> ses_id s"
      using assms(3,4) by (auto simp: d' delete_sessions_def revokeSessionGrantsTx_def Let_def sql_simps)
    moreover have "\<forall>x \<in> set (interactions d'). ai_session_id x \<noteq> ses_id s"
      using assms(3,4) by (auto simp: d' delete_sessions_def revokeSessionGrantsTx_def Let_def sql_simps)
    moreover have "\<forall>x \<in> set (client_sessions d'). cs_session_id x \<noteq> ses_id s"
      using assms(3,4) by (auto simp: d' delete_sessions_def revokeSessionGrantsTx_def Let_def sql_simps)
    ultimately show ?thesis unfolding session_over_def by blast
  qed
qed

definition logout_queued :: "client_session \<Rightarrow> time \<Rightarrow> db \<Rightarrow> bool" where
  "logout_queued c now d \<longleftrightarrow> (\<exists>x \<in> set (logout_deliveries d). ld_status x = Queued \<and> ld_attempts x = 0 \<and>
     ld_next_attempt_at x = now \<and> ld_sid x = cs_sid c \<and> ld_client_id x = cs_client_id c \<and> ld_user_id x = cs_user_id c)"

lemma revokeSessionsTx_queues:
  assumes "revokeSessionsTx now p d = Inr (n, d')" and "c \<in> set (client_sessions d)" and "wants_logout d c"
    and "s \<in> set (sessions d)" and "p s" and "ses_id s = cs_session_id c"
  shows "logout_queued c now d'"
  using assms(1)
proof (elim revokeSessionsTx_InrE)
  fix t m
  let ?d1 = "d\<lparr>logout_deliveries := t, rand_pos := m\<rparr>"
  assume d': "d' = delete_sessions p (revokeSessionGrantsTx (\<lambda>sid _. \<exists>s \<in> set (sessions d). p s \<and> sid = Some (ses_id s)) now ?d1)"
    and e: "enqueueLogoutTx now (\<lambda>c. \<exists>s \<in> set (sessions d). p s \<and> ses_id s = cs_session_id c) d = Inr ?d1"
  have "logout_deliveries d' = logout_deliveries ?d1"
    by (simp add: d' delete_sessions_def revokeSessionGrantsTx_def Let_def)
  with enqueueLogoutTx_queues[OF e assms(2) _ assms(3)] assms(4-6) show ?thesis
    unfolding logout_queued_def by auto
qed

text \<open>
  C13. Revoking a session ends everything that session minted: the session is gone, its access tokens are
  revoked, its codes, pending interactions, step-up challenges and \<open>sid\<close> rows are deleted, its
  step-up grants are burned, and every client with a receiver that saw the login is owed a
  back-channel logout. No other session is touched; and it only succeeds on a session of that user.
\<close>

theorem revoke_session_ends_it:
  assumes "RevokeSession userID sid audit now d = Inr ((), d')" and "wf_keys d"
  shows "session_over sid d' \<and> (\<exists>s \<in> set (sessions d). ses_id s = sid \<and> ses_user_id s = userID) \<and>
    sessions d' = filter (\<lambda>s. ses_id s \<noteq> sid) (sessions d) \<and>
    (\<forall>c \<in> set (client_sessions d). cs_session_id c = sid \<and> wants_logout d c \<longrightarrow> logout_queued c now d')"
proof -
  let ?p = "\<lambda>s. ses_id s = sid \<and> ses_user_id s = userID"
  from assms(1) obtain d1 es n where r: "revokeSessionsTx now ?p d = Inr (n, d1)" and n: "n \<noteq> 0"
      and d': "d' = d1\<lparr>audit_events := es\<rparr>"
    unfolding RevokeSession_def by (elim auditedTx_InrD) (auto simp: result_iffs split: if_splits)
  note sess = revokeSessionsTx_sessions[OF r]
  from n sess(2) obtain s where s: "s \<in> set (sessions d)" "?p s" by (auto simp: sql_count_0_iff)
  have uniq: "x = s" if "x \<in> set (sessions d)" "ses_id x = sid" for x
    using that s assms(2) key_unique[of ses_id "sessions d" x s] by (simp add: wf_keys_def)
  have "sql_delete ?p (sessions d) = filter (\<lambda>s. ses_id s \<noteq> sid) (sessions d)"
    unfolding sql_delete_def by (rule filter_cong) (use uniq s in auto)
  moreover have "session_over sid d1" using revokeSessionsTx_over[OF r assms(2) s] s(2) by simp
  ultimately show ?thesis
    using s sess(1) revokeSessionsTx_queues[OF r _ _ s]
    by (auto simp: d' session_over_def logout_queued_def)
qed

theorem revoke_session_ends_it_witness:
  "\<exists>d'. RevokeSession ''u1'' ''s1'' None sample_now sample_db = Inr ((), d') \<and> session_over ''s1'' d'"
proof -
  have "\<not> isl (RevokeSession ''u1'' ''s1'' None sample_now sample_db)" by code_simp
  then obtain d' where r: "RevokeSession ''u1'' ''s1'' None sample_now sample_db = Inr ((), d')"
    by (auto dest: succeeds)
  from revoke_session_ends_it[OF r sample_wf_keys] r show ?thesis by blast
qed

section \<open>Ending everything an account holds\<close>

lemma revokeUserAccessTx_InrE:
  assumes "revokeUserAccessTx userID now d = Inr d'"
  obtains n d1 where "revokeSessionsTx now (\<lambda>s. ses_user_id s = userID) d = Inr (n, d1)"
    and "d' = expireAccountTokensTx now (\<lambda>t. at_user_id t = userID) (spendMFATokensTx now userID
      (revokeSessionGrantsTx (\<lambda>_ u. u = userID) now (expirePairingTokensTx now userID d1)))"
  using assms by (auto simp: revokeUserAccessTx_def Let_def result_iffs)

lemmas revoke_access_defs = expireAccountTokensTx_def spendMFATokensTx_def revokeSessionGrantsTx_def
  expirePairingTokensTx_def

text \<open>No credential of the account works at \<open>now\<close> or later.\<close>

definition access_over :: "string \<Rightarrow> time \<Rightarrow> db \<Rightarrow> bool" where
  "access_over userID now d \<longleftrightarrow>
     (\<forall>s \<in> set (sessions d). ses_user_id s \<noteq> userID) \<and>
     (\<forall>t \<in> set (issued_tokens d). it_user_id t = userID \<longrightarrow> it_revoked_at t \<noteq> None) \<and>
     (\<forall>c \<in> set (authorization_codes d). ac_user_id c \<noteq> userID) \<and>
     (\<forall>i \<in> set (interactions d). ai_user_id i \<noteq> userID) \<and>
     (\<forall>t \<in> set (step_up_tokens d). su_user_id t = userID \<longrightarrow> su_used_at t \<noteq> None) \<and>
     (\<forall>c \<in> set (step_up_challenges d). sc_user_id c = userID \<longrightarrow> sc_used_at c \<noteq> None) \<and>
     (\<forall>t \<in> set (mfa_tokens d). mt_user_id t = userID \<longrightarrow> mt_used_at t \<noteq> None) \<and>
     (\<forall>t \<in> set (pairing_tokens d). pt_user_id t = userID \<longrightarrow> pt_used_at t \<noteq> None \<or> pt_expires_at t \<le> now) \<and>
     (\<forall>t \<in> set (account_tokens d). at_user_id t = userID \<longrightarrow> at_used_at t \<noteq> None \<or> at_expires_at t \<le> now)"

lemma revokeUserAccessTx_over:
  assumes "revokeUserAccessTx userID now d = Inr d'"
  shows "access_over userID now d'"
  using assms
proof (elim revokeUserAccessTx_InrE)
  fix n d1
  assume r: "revokeSessionsTx now (\<lambda>s. ses_user_id s = userID) d = Inr (n, d1)"
    and d': "d' = expireAccountTokensTx now (\<lambda>t. at_user_id t = userID) (spendMFATokensTx now userID
      (revokeSessionGrantsTx (\<lambda>_ u. u = userID) now (expirePairingTokensTx now userID d1)))"
  have "\<forall>s \<in> set (sessions d'). ses_user_id s \<noteq> userID"
    using revokeSessionsTx_sessions(1)[OF r] by (simp add: d' revoke_access_defs sql_simps)
  moreover have "\<forall>t \<in> set (issued_tokens d'). it_user_id t = userID \<longrightarrow> it_revoked_at t \<noteq> None"
    by (auto simp: d' revoke_access_defs sql_simps)
  moreover have "\<forall>t \<in> set (step_up_tokens d'). su_user_id t = userID \<longrightarrow> su_used_at t \<noteq> None"
    by (auto simp: d' revoke_access_defs sql_simps)
  moreover have "\<forall>c \<in> set (step_up_challenges d'). sc_user_id c = userID \<longrightarrow> sc_used_at c \<noteq> None"
    by (auto simp: d' revoke_access_defs sql_simps)
  moreover have "\<forall>t \<in> set (mfa_tokens d'). mt_user_id t = userID \<longrightarrow> mt_used_at t \<noteq> None"
    by (auto simp: d' revoke_access_defs sql_simps)
  moreover have "\<forall>t \<in> set (pairing_tokens d'). pt_user_id t = userID \<longrightarrow> pt_used_at t \<noteq> None \<or> pt_expires_at t \<le> now"
    by (auto simp: d' revoke_access_defs sql_simps)
  moreover have "\<forall>t \<in> set (account_tokens d'). at_user_id t = userID \<longrightarrow> at_used_at t \<noteq> None \<or> at_expires_at t \<le> now"
    by (auto simp: d' revoke_access_defs sql_simps)
  moreover have "\<forall>c \<in> set (authorization_codes d'). ac_user_id c \<noteq> userID" "\<forall>i \<in> set (interactions d'). ai_user_id i \<noteq> userID"
    by (simp_all add: d' revoke_access_defs sql_simps)
  ultimately show ?thesis unfolding access_over_def by blast
qed



section \<open>Revocation keeps to its account\<close>

text \<open>
  Rows minted under a session belong to the account of the session. (A code, token or interaction
  copies both from one session row.)
\<close>

definition grants_follow_sessions :: "db \<Rightarrow> bool" where
  "grants_follow_sessions d \<longleftrightarrow> (\<forall>s \<in> set (sessions d).
     (\<forall>t \<in> set (issued_tokens d). it_session_id t = Some (ses_id s) \<longrightarrow> it_user_id t = ses_user_id s) \<and>
     (\<forall>c \<in> set (authorization_codes d). ac_session_id c = ses_id s \<longrightarrow> ac_user_id c = ses_user_id s) \<and>
     (\<forall>t \<in> set (step_up_tokens d). su_session_id t = ses_id s \<longrightarrow> su_user_id t = ses_user_id s) \<and>
     (\<forall>c \<in> set (step_up_challenges d). sc_session_id c = ses_id s \<longrightarrow> sc_user_id c = ses_user_id s) \<and>
     (\<forall>i \<in> set (interactions d). ai_session_id i = ses_id s \<longrightarrow> ai_user_id i = ses_user_id s))"

lemma filter_sql_update_other:
  "(\<And>r. r \<in> set t \<Longrightarrow> p r \<Longrightarrow> \<not> q r \<and> \<not> q (f r)) \<Longrightarrow> filter q (sql_update p f t) = filter q t"
  by (induction t) auto

lemma filter_sql_delete_other:
  "(\<And>r. r \<in> set t \<Longrightarrow> p r \<Longrightarrow> \<not> q r) \<Longrightarrow> filter q (sql_delete p t) = filter q t"
  by (induction t) auto

text \<open>
  Revoking one account's access touches no other account: every session, token, code, interaction, step-up
  grant, second-factor token, pairing token and account link of every other account is unchanged.
\<close>

theorem revoke_user_access_only_that_account:
  assumes "revokeUserAccessTx userID now d = Inr d'" and "grants_follow_sessions d" and "other \<noteq> userID"
  shows "filter (\<lambda>s. ses_user_id s = other) (sessions d') = filter (\<lambda>s. ses_user_id s = other) (sessions d) \<and>
    filter (\<lambda>t. it_user_id t = other) (issued_tokens d') = filter (\<lambda>t. it_user_id t = other) (issued_tokens d) \<and>
    filter (\<lambda>c. ac_user_id c = other) (authorization_codes d') = filter (\<lambda>c. ac_user_id c = other) (authorization_codes d) \<and>
    filter (\<lambda>i. ai_user_id i = other) (interactions d') = filter (\<lambda>i. ai_user_id i = other) (interactions d) \<and>
    filter (\<lambda>t. su_user_id t = other) (step_up_tokens d') = filter (\<lambda>t. su_user_id t = other) (step_up_tokens d) \<and>
    filter (\<lambda>t. mt_user_id t = other) (mfa_tokens d') = filter (\<lambda>t. mt_user_id t = other) (mfa_tokens d) \<and>
    filter (\<lambda>t. pt_user_id t = other) (pairing_tokens d') = filter (\<lambda>t. pt_user_id t = other) (pairing_tokens d) \<and>
    filter (\<lambda>t. at_user_id t = other) (account_tokens d') = filter (\<lambda>t. at_user_id t = other) (account_tokens d)"
proof -
  let ?p = "\<lambda>s. ses_user_id s = userID"
  from assms(1) obtain n d1 where r: "revokeSessionsTx now ?p d = Inr (n, d1)"
      and d': "d' = expireAccountTokensTx now (\<lambda>t. at_user_id t = userID) (spendMFATokensTx now userID
      (revokeSessionGrantsTx (\<lambda>_ u. u = userID) now (expirePairingTokensTx now userID d1)))"
    by (rule revokeUserAccessTx_InrE)
  from r obtain t m where d1: "d1 = delete_sessions ?p (revokeSessionGrantsTx
      (\<lambda>sid _. \<exists>s \<in> set (sessions d). ?p s \<and> sid = Some (ses_id s)) now (d\<lparr>logout_deliveries := t, rand_pos := m\<rparr>))"
    by (rule revokeSessionsTx_InrE)
  note tables = d' d1 revoke_access_defs delete_sessions_def Let_def
  note own = assms(2)[unfolded grants_follow_sessions_def]
  have "filter (\<lambda>s. ses_user_id s = other) (sessions d') = filter (\<lambda>s. ses_user_id s = other) (sessions d)"
    by (simp add: tables, rule filter_sql_delete_other, use assms(3) in auto)
  moreover have "filter (\<lambda>t. it_user_id t = other) (issued_tokens d') = filter (\<lambda>t. it_user_id t = other) (issued_tokens d)"
    using own assms(3) by (simp add: tables) (subst filter_sql_update_other, auto)+
  moreover have "filter (\<lambda>c. ac_user_id c = other) (authorization_codes d') = filter (\<lambda>c. ac_user_id c = other) (authorization_codes d)"
    using own assms(3) by (simp add: tables) (subst filter_sql_delete_other, auto)+
  moreover have "filter (\<lambda>i. ai_user_id i = other) (interactions d') = filter (\<lambda>i. ai_user_id i = other) (interactions d)"
    using own assms(3) by (simp add: tables) (subst filter_sql_delete_other, auto)+
  moreover have "filter (\<lambda>t. su_user_id t = other) (step_up_tokens d') = filter (\<lambda>t. su_user_id t = other) (step_up_tokens d)"
    using own assms(3) by (simp add: tables) (subst filter_sql_update_other, auto)+
  moreover have "filter (\<lambda>t. mt_user_id t = other) (mfa_tokens d') = filter (\<lambda>t. mt_user_id t = other) (mfa_tokens d)"
    using assms(3) by (simp add: tables) (subst filter_sql_update_other, auto)
  moreover have "filter (\<lambda>t. pt_user_id t = other) (pairing_tokens d') = filter (\<lambda>t. pt_user_id t = other) (pairing_tokens d)"
    using assms(3) by (simp add: tables) (subst filter_sql_update_other, auto)
  moreover have "filter (\<lambda>t. at_user_id t = other) (account_tokens d') = filter (\<lambda>t. at_user_id t = other) (account_tokens d)"
    using assms(3) by (simp add: tables) (subst filter_sql_update_other, auto)
  ultimately show ?thesis by blast
qed

theorem revoke_user_access_only_that_account_witness:
  "\<exists>d'. revokeUserAccessTx ''u1'' sample_now sample_db = Inr d' \<and>
     filter (\<lambda>s. ses_user_id s = ''u0'') (sessions d') = [sample_session ''s0'' ''u0'']"
proof -
  have "\<not> isl (revokeUserAccessTx ''u1'' sample_now sample_db)" by code_simp
  then obtain d' where r: "revokeUserAccessTx ''u1'' sample_now sample_db = Inr d'" by (blast dest: succeeds)
  have g: "grants_follow_sessions sample_db" by code_simp
  from revoke_user_access_only_that_account[OF r g, of "''u0''"] r show ?thesis
    by (simp add: sample_db_def sample_session_def)
qed

section \<open>Access that ended\<close>

lemma reaches_client_cong:
  assumes "users d' = users d" "app_registry d' = app_registry d" "oauth_clients d' = oauth_clients d"
    "user_assignments d' = user_assignments d" "group_assignments d' = group_assignments d"
    "group_memberships d' = group_memberships d"
  shows "reaches_client now d' = reaches_client now d"
proof -
  have "access_facts_row now d' = access_facts_row now d"
    using assms by (simp add: fun_eq_iff access_facts_row_def live_group_memberships_def split: option.split)
  then have "effective_app_access now d' = effective_app_access now d"
    using assms by (simp add: effective_app_access_def app_access_facts_def)
  then show ?thesis using assms by (simp add: fun_eq_iff reaches_client_def)
qed

text \<open>
  After access was edited or expired, the sweep leaves no grant behind it and takes no other: every
  unrevoked token, every code and every \<open>sid\<close> row that remains is for a client its user still
  reaches, every one of those there was remains, and each lost login whose client has a receiver is owed a logout.
\<close>

theorem lost_access_swept:
  assumes "revokeLostAppAccessTx now d = Inr d'"
  shows "(\<forall>t \<in> set (issued_tokens d'). it_revoked_at t = None \<longrightarrow> reaches_client now d' (it_user_id t) (it_client_id t)) \<and>
    (\<forall>c \<in> set (authorization_codes d'). reaches_client now d' (ac_user_id c) (ac_client_id c)) \<and>
    (\<forall>c \<in> set (client_sessions d'). reaches_client now d' (cs_user_id c) (cs_client_id c)) \<and>
    (\<forall>t \<in> set (issued_tokens d). reaches_client now d (it_user_id t) (it_client_id t) \<longrightarrow> t \<in> set (issued_tokens d')) \<and>
    (\<forall>c \<in> set (authorization_codes d). reaches_client now d (ac_user_id c) (ac_client_id c) \<longrightarrow> c \<in> set (authorization_codes d')) \<and>
    (\<forall>c \<in> set (client_sessions d). \<not> reaches_client now d (cs_user_id c) (cs_client_id c) \<longrightarrow> wants_logout d c \<longrightarrow>
       logout_queued c now d')"
proof -
  let ?R = "reaches_client now d"
  let ?d1 = "d\<lparr>issued_tokens := sql_update (\<lambda>t. it_revoked_at t = None \<and> \<not> ?R (it_user_id t) (it_client_id t))
      (\<lambda>t. t\<lparr>it_revoked_at := Some now\<rparr>) (issued_tokens d)\<rparr>"
  have R1: "reaches_client now ?d1 = ?R" by (rule reaches_client_cong) simp_all
  let ?d2 = "?d1\<lparr>authorization_codes := sql_delete (\<lambda>c. \<not> ?R (ac_user_id c) (ac_client_id c)) (authorization_codes d)\<rparr>"
  have R2: "reaches_client now ?d2 = ?R" by (rule reaches_client_cong) simp_all
  let ?lost = "\<lambda>c. \<not> ?R (cs_user_id c) (cs_client_id c)"
  from assms R1 R2 obtain d3 where e: "enqueueLogoutTx now ?lost ?d2 = Inr d3"
      and d': "d' = d3\<lparr>client_sessions := sql_delete ?lost (client_sessions d3)\<rparr>"
    by (auto simp: revokeLostAppAccessTx_def Let_def result_iffs)
  from enqueueLogoutTx_frame[OF e] obtain t m where d3: "d3 = ?d2\<lparr>logout_deliveries := t, rand_pos := m\<rparr>" by blast
  have R': "reaches_client now d' = ?R" by (rule reaches_client_cong) (simp_all add: d' d3)
  have "wants_logout ?d2 = wants_logout d" by (simp add: fun_eq_iff wants_logout_def)
  then have "logout_queued c now d'" if "c \<in> set (client_sessions d)" "?lost c" "wants_logout d c" for c
    using enqueueLogoutTx_queues[OF e, of c] that by (auto simp: logout_queued_def d')
  moreover have "\<forall>t \<in> set (issued_tokens d). ?R (it_user_id t) (it_client_id t) \<longrightarrow> t \<in> set (issued_tokens d')"
    by (auto simp: d' d3 sql_simps image_iff)
  ultimately show ?thesis
    unfolding R' by (auto simp: d' d3 sql_simps)
qed

theorem lost_access_swept_witness:
  "\<exists>d'. revokeLostAppAccessTx (2000 * second) sample_db = Inr d' \<and> logout_deliveries d' \<noteq> []"
proof -
  have "\<not> isl (revokeLostAppAccessTx (2000 * second) sample_db)" by code_simp
  then obtain d' where r: "revokeLostAppAccessTx (2000 * second) sample_db = Inr d'" by (blast dest: succeeds)
  have "\<not> reaches_client (2000 * second) sample_db ''u1'' ''c1''" by code_simp
  moreover have "\<exists>c \<in> set (client_sessions sample_db). wants_logout sample_db c \<and> cs_user_id c = ''u1'' \<and> cs_client_id c = ''c1''"
    by code_simp
  ultimately have "\<exists>c. logout_queued c (2000 * second) d'" using lost_access_swept[OF r] by metis
  then have "logout_deliveries d' \<noteq> []" unfolding logout_queued_def by auto
  with r show ?thesis by blast
qed

section \<open>Session limits\<close>

lemma in_range_ttl: "0 \<le> v \<Longrightarrow> v \<le> 604800 \<Longrightarrow> wrap64 (v * second) = v * second"
  by (rule wrap64_id) auto

lemma SetSessionLimits_InrE:
  assumes "SetSessionLimits l audit now d = Inr (n, d')"
  obtains d1 es where "limits_Valid l"
    and "revokeSessionsTx now (\<lambda>s. ses_last_active_at s \<le> now - wrap64 (min (sl_idle (SessionLimits d)) (sl_idle l) * second)
        \<or> ses_created_at s \<le> now - wrap64 (min (sl_absolute (SessionLimits d)) (sl_absolute l) * second))
      (d\<lparr>system_settings := AList.update sessionLimitsKey (limits_json l) (system_settings d)\<rparr>) = Inr (n, d1)"
    and "d' = d1\<lparr>audit_events := es, limits := Some l\<rparr>"
proof -
  from assms obtain d1 d2 a where "limits_Valid l"
    and r: "revokeSessionsTx now (\<lambda>s. ses_last_active_at s \<le> now - wrap64 (min (sl_idle (SessionLimits d)) (sl_idle l) * second)
        \<or> ses_created_at s \<le> now - wrap64 (min (sl_absolute (SessionLimits d)) (sl_absolute l) * second))
      (d\<lparr>system_settings := AList.update sessionLimitsKey (limits_json l) (system_settings d)\<rparr>) = Inr (n, d1)"
    and "recordAuditTx a now d1 = Inr d2" and "d' = d2\<lparr>limits := Some l\<rparr>"
    by (auto simp: SetSessionLimits_def Let_def result_iffs IdleTTL_def AbsoluteTTL_def)
  with recordAuditTx_InrD[of a now d1 d2] that[of d1] show thesis by auto
qed

text \<open>
  New session limits take effect on the sessions there are: with both the old and the new limits written in
  range (at most seven days, in seconds), a session survives exactly when it is younger and more recently active than
  the stricter of the two, everything else is over, and the new limits are the ones in force.
\<close>

theorem session_limits_enforced:
  assumes "SetSessionLimits l audit now d = Inr (n, d')" and "wf_keys d"
    and "0 \<le> sl_absolute l" "sl_absolute l \<le> 604800" "0 \<le> sl_idle l" "sl_idle l \<le> 604800"
    and "0 \<le> sl_absolute (SessionLimits d)" "sl_absolute (SessionLimits d) \<le> 604800"
    and "0 \<le> sl_idle (SessionLimits d)" "sl_idle (SessionLimits d) \<le> 604800"
  shows "SessionLimits d' = l \<and>
    (\<forall>s \<in> set (sessions d).
      if now < ses_last_active_at s + min (sl_idle (SessionLimits d)) (sl_idle l) * second \<and>
         now < ses_created_at s + min (sl_absolute (SessionLimits d)) (sl_absolute l) * second
      then s \<in> set (sessions d') else session_over (ses_id s) d')"
  using assms(1)
proof (rule SetSessionLimits_InrE)
  fix d1 es
  let ?i = "min (sl_idle (SessionLimits d)) (sl_idle l)" and ?a = "min (sl_absolute (SessionLimits d)) (sl_absolute l)"
  let ?p = "\<lambda>s. ses_last_active_at s \<le> now - wrap64 (?i * second) \<or> ses_created_at s \<le> now - wrap64 (?a * second)"
  let ?d0 = "d\<lparr>system_settings := AList.update sessionLimitsKey (limits_json l) (system_settings d)\<rparr>"
  assume r: "revokeSessionsTx now ?p ?d0 = Inr (n, d1)" and d': "d' = d1\<lparr>audit_events := es, limits := Some l\<rparr>"
  have wf: "wf_keys ?d0" using assms(2) by (simp add: wf_keys_def)
  have w: "wrap64 (?i * second) = ?i * second" "wrap64 (?a * second) = ?a * second"
    using assms(3-) by (auto intro: in_range_ttl)
  have p: "?p s \<longleftrightarrow> \<not> (now < ses_last_active_at s + ?i * second \<and> now < ses_created_at s + ?a * second)" for s
    unfolding w by linarith
  have "session_over sid d' = session_over sid d1" for sid by (simp add: d' session_over_def)
  moreover have "SessionLimits d' = l" by (simp add: SessionLimits_def d')
  moreover have "sessions d' = sessions d1" by (simp add: d')
  ultimately show ?thesis
    using revokeSessionsTx_over[OF r wf] revokeSessionsTx_sessions(1)[OF r] p
    by (auto simp: sql_simps)
qed

theorem session_limits_enforced_witness:
  "\<exists>n d'. SetSessionLimits \<lparr>sl_absolute = 3600, sl_idle = 300\<rparr> None (4000 * second) sample_db = Inr (n, d') \<and>
     session_over ''s1'' d'"
proof -
  let ?l = "\<lparr>sl_absolute = 3600, sl_idle = 300\<rparr>"
  have "\<not> isl (SetSessionLimits ?l None (4000 * second) sample_db)" by code_simp
  then obtain n d' where r: "SetSessionLimits ?l None (4000 * second) sample_db = Inr (n, d')"
    by (metis succeeds surj_pair)
  have l: "SessionLimits sample_db = \<lparr>sl_absolute = 86400, sl_idle = 28800\<rparr>" by (simp add: SessionLimits_def sample_defs)
  have s: "sample_session ''s1'' ''u1'' \<in> set (sessions sample_db)" by (simp add: sample_db_def)
  show ?thesis
    using r session_limits_enforced[OF r sample_wf_keys] s by (auto simp: l sample_session_def)
qed


section \<open>Starting a session\<close>

lemma wf_keys_sessions:
  assumes "wf_keys d"
  shows "distinct (map ses_id (sessions d))" "distinct (map ses_token_hash (sessions d))"
    "s \<in> set (sessions d) \<Longrightarrow> s' \<in> set (sessions d) \<Longrightarrow> ses_id s = ses_id s' \<Longrightarrow> s = s'"
  using assms key_unique[of ses_id "sessions d"] by (auto simp: wf_keys_def)

lemma wf_keys_sessions_update:
  "wf_keys (d\<lparr>sessions := ss\<rparr>) \<longleftrightarrow> distinct (map ses_id ss) \<and> distinct (map ses_token_hash ss) \<and> wf_keys (d\<lparr>sessions := []\<rparr>)"
  by (simp add: wf_keys_def) blast

lemma wf_keys_no_sessions: "wf_keys d \<Longrightarrow> wf_keys (d\<lparr>sessions := []\<rparr>)"
  by (simp add: wf_keys_def)

text \<open>The session row after the enrollment check: barred exactly when the check refuses it.\<close>

lemma mark_enrollment_only_InrD:
  assumes m: "mark_enrollment_only i now d = Inr d'" and wf: "wf_keys d"
    and s: "s \<in> set (sessions d)" "ses_id s = i" "\<not> ses_enrollment_only s"
  shows "\<exists>a. d' = d\<lparr>sessions := sql_update (\<lambda>s. ses_id s = i) (\<lambda>s. s\<lparr>ses_enrollment_only := \<not> a\<rparr>) (sessions d)\<rparr> \<and>
    (mfa_allowed i (ses_user_id s) now d' \<longleftrightarrow> a)"
proof -
  from m obtain j uid a where f: "sql_first (\<lambda>(j, _, _). j = i) (mfa_session_access now d) = Some (j, uid, a)"
      and d': "d' = d\<lparr>sessions := sql_update (\<lambda>s. ses_id s = i) (\<lambda>s. s\<lparr>ses_enrollment_only := \<not> a\<rparr>) (sessions d)\<rparr>"
    by (auto simp: mark_enrollment_only_def split: option.splits)
  from find_SomeD[OF f] obtain s' u where su: "s' \<in> set (sessions d)" "ses_id s' = i" "u \<in> set (users d)"
      "usr_id u = ses_user_id s'" "a = session_access_row now d s' (enrollment_requirement_of d u)"
    by (auto simp: mfa_session_access_def enrollment_requirements_def)
  then have s': "s' = s" using wf_keys_sessions(3)[OF wf] s by metis
  have req: "enrollment_requirement_of d' = enrollment_requirement_of d"
    using required_policies_cong[of d' d]
    by (simp add: fun_eq_iff d' enrollment_requirement_of_def policy_due_at_def)
  have fac: "enrolled_factors d' = enrolled_factors d" by (simp add: d' enrolled_factors_def)
  let ?s = "s\<lparr>ses_enrollment_only := \<not> a\<rparr>"
  have row: "session_access_row now d' ?s (enrollment_requirement_of d' u) \<longleftrightarrow> a"
    using su(5) s(3) unfolding s' session_access_row_def req fac by auto
  have only: "y = s" if "y \<in> set (sessions d)" "ses_id y = i" for y
    using wf_keys_sessions(3)[OF wf that(1) s(1)] that(2) s(2) by simp
  have "?s \<in> set (sessions d')" using s by (auto simp: d' sql_simps intro: image_eqI[of _ _ s])
  moreover have "x = ?s" if "x \<in> set (sessions d')" "ses_id x = i" for x
  proof -
    from that(1) obtain y where y: "y \<in> set (sessions d)" "x = (if ses_id y = i then y\<lparr>ses_enrollment_only := \<not> a\<rparr> else y)"
      by (auto simp: d' sql_simps)
    with that(2) have "ses_id y = i" by (simp split: if_splits)
    with y only[OF y(1)] show ?thesis by simp
  qed
  moreover have "ses_id ?s = i" using s(2) by simp
  ultimately have in': "x \<in> set (sessions d') \<and> ses_id x = i \<longleftrightarrow> x = ?s" for x by blast
  have users: "v = u" if "v \<in> set (users d')" "usr_id v = usr_id u" for v
    using that su(3) user_unique[OF wf, of v u] by (simp add: d')
  have "mfa_allowed i (ses_user_id s) now d' \<longleftrightarrow> a"
  proof
    assume "mfa_allowed i (ses_user_id s) now d'"
    then obtain x v where "x \<in> set (sessions d')" "ses_id x = i" "v \<in> set (users d')" "usr_id v = ses_user_id s"
        "session_access_row now d' x (enrollment_requirement_of d' v)" unfolding mfa_allowed_iff by blast
    then show a using in'[of x] users[of v] row su(4) s' by auto
  next
    assume a
    then show "mfa_allowed i (ses_user_id s) now d'"
      using row in'[of ?s] su(3,4) s' unfolding mfa_allowed_iff
      by (intro bexI[of _ ?s] bexI[of _ u]) (auto simp: d')
  qed
  with d' show ?thesis by blast
qed

lemma write_session_InrD:
  assumes w: "write_session sess pw i renew now d = Inr d'" and wf: "wf_keys d"
  shows "eligible_user (ses_user_id sess) pw d \<and> wf_keys d' \<and> (\<exists>ss. d' = d\<lparr>sessions := ss\<rparr>) \<and>
    sess\<lparr>ses_id := i, ses_created_at := now, ses_last_active_at := now, ses_enrollment_only := False\<rparr> \<in> set (sessions d')"
proof -
  let ?row = "sess\<lparr>ses_id := i, ses_created_at := now, ses_last_active_at := now, ses_enrollment_only := False\<rparr>"
  let ?m = "\<lambda>s. ses_id s = i \<and> ses_user_id s = ses_user_id sess"
  note ids = wf_keys_sessions[OF wf]
  from w have el: "eligible_user (ses_user_id sess) pw d" and one: "renew \<Longrightarrow> sql_count ?m (sessions d) = 1"
      and free: "\<And>s. s \<in> set (sessions d) \<Longrightarrow> \<not> (renew \<and> ?m s) \<Longrightarrow> ses_token_hash s \<noteq> ses_token_hash sess"
        "\<And>s. s \<in> set (sessions d) \<Longrightarrow> \<not> renew \<Longrightarrow> ses_id s \<noteq> i"
      and d': "d' = d\<lparr>sessions := (if renew then sql_update ?m (\<lambda>_. ?row) (sessions d) else sql_insert ?row (sessions d))\<rparr>"
    by (auto simp: write_session_def Let_def result_iffs)
  have "distinct (map ses_id (sessions d')) \<and> distinct (map ses_token_hash (sessions d')) \<and> ?row \<in> set (sessions d')"
  proof (cases renew)
    case True
    from sql_count_oneD[OF one[OF True]] obtain s0 where s0: "s0 \<in> set (sessions d)" "?m s0" by blast
    have m0: "?m x \<longleftrightarrow> x = s0" if "x \<in> set (sessions d)" for x
      using ids(3)[OF that s0(1)] s0(2) by auto
    have "map ses_id (sessions d') = map ses_id (sessions d)"
      using True by (auto simp: d' intro: map_sql_update)
    moreover have "map ses_token_hash (sessions d') = map (\<lambda>s. if s = s0 then ses_token_hash sess else ses_token_hash s) (sessions d)"
      using True m0 by (simp add: d' sql_update_def)
    moreover have "inj_on (\<lambda>s. if s = s0 then ses_token_hash sess else ses_token_hash s) (set (sessions d))"
    proof (rule inj_onI)
      fix x y assume xy: "x \<in> set (sessions d)" "y \<in> set (sessions d)"
        "(if x = s0 then ses_token_hash sess else ses_token_hash x) = (if y = s0 then ses_token_hash sess else ses_token_hash y)"
      have other: "z = s0" if "z \<in> set (sessions d)" "ses_token_hash z = ses_token_hash sess" for z
        using free(1)[OF that(1)] that(2) ids(3)[OF that(1) s0(1)] s0(2) by auto
      show "x = y"
        using xy(3) other[OF xy(1)] other[OF xy(2)] key_unique[OF ids(2) xy(1,2)] by (auto split: if_splits)
    qed
    moreover have "distinct (sessions d)" using ids(1) by (simp add: distinct_map)
    ultimately show ?thesis
      using ids(1) True s0 by (auto simp: d' distinct_map sql_simps intro: image_eqI[of _ _ s0])
  next
    case False
    then have "ses_token_hash sess \<notin> ses_token_hash ` set (sessions d)" "i \<notin> ses_id ` set (sessions d)"
      using free by (auto simp: image_iff) metis+
    with False show ?thesis using ids(1,2) by (simp add: d' sql_insert_def)
  qed
  moreover have "wf_keys (d\<lparr>sessions := []\<rparr>)" by (rule wf_keys_no_sessions[OF wf])
  ultimately have "wf_keys d'" using wf_keys_sessions_update[of "sessions d'" d] by (simp add: d')
  with el d' \<open>distinct (map ses_id (sessions d')) \<and> _\<close> show ?thesis by blast
qed

lemma wf_keys_interactions: "wf_keys d \<Longrightarrow> distinct (map ai_hash (interactions d))"
  by (simp add: wf_keys_def)

lemma wf_keys_interactions_update:
  "wf_keys d \<Longrightarrow> map ai_hash is = map ai_hash (interactions d) \<Longrightarrow> wf_keys (d\<lparr>interactions := is\<rparr>)"
  by (simp add: wf_keys_def)

lemma bind_interaction_InrD:
  assumes b: "bind_interaction sess h br now d = Inr (i, renew, d')" and wf: "wf_keys d"
  shows "wf_keys d' \<and> (\<exists>is. d' = d\<lparr>interactions := is\<rparr>) \<and>
    (h \<noteq> '''' \<longrightarrow> (\<exists>x \<in> set (interactions d). interaction_accepts h br sess now d x) \<and>
      (\<exists>x \<in> set (interactions d'). ai_hash x = h \<and> ai_session_id x = i \<and> ai_user_id x = ses_user_id sess)) \<and>
    (renew \<longrightarrow> live_session_of i (ses_user_id sess) now d \<and>
      (\<forall>x \<in> set (interactions d'). ai_session_id x = i \<longrightarrow> ai_hash x \<noteq> h \<longrightarrow> ai_expires_at x = now))"
proof (cases "h = ''''")
  case True
  with b wf show ?thesis by (auto simp: bind_interaction_def intro!: exI[of _ "interactions d"])
next
  case False
  let ?acc = "interaction_accepts h br sess now d"
  let ?f = "\<lambda>x. x\<lparr>ai_session_id := i, ai_user_id := ses_user_id sess\<rparr>"
  let ?i1 = "sql_update ?acc ?f (interactions d)"
  let ?i2 = "sql_update (\<lambda>x. ai_session_id x = i \<and> ai_hash x \<noteq> h) (\<lambda>x. x\<lparr>ai_expires_at := now\<rparr>) ?i1"
  from b False have one: "sql_count ?acc (interactions d) = 1" and d': "d' = d\<lparr>interactions := if renew then ?i2 else ?i1\<rparr>"
      and live: "renew \<Longrightarrow> live_session_of i (ses_user_id sess) now d"
    by (auto simp: bind_interaction_def Let_def result_iffs split: if_splits)
  from sql_count_oneD[OF one] obtain x where x: "x \<in> set (interactions d)" "?acc x" by blast
  then have fx: "?f x \<in> set (interactions d')"
    by (auto simp: d' sql_simps interaction_accepts_def image_iff intro!: bexI[of _ x])
  have "map ai_hash (interactions d') = map ai_hash (interactions d)"
    by (simp add: d' map_sql_update)
  then have "wf_keys d'" using wf_keys_interactions_update[OF wf, of "interactions d'"] by (simp add: d')
  moreover have "ai_hash (?f x) = h" using x(2) by (simp add: interaction_accepts_def)
  moreover have "\<forall>x \<in> set (interactions d'). ai_session_id x = i \<longrightarrow> ai_hash x \<noteq> h \<longrightarrow> ai_expires_at x = now" if renew
    using that by (auto simp: d' set_sql_update[of _ _ ?i1])
  moreover have "\<exists>is. d' = d\<lparr>interactions := is\<rparr>" using d' by blast
  moreover have "ai_session_id (?f x) = i" "ai_user_id (?f x) = ses_user_id sess" by simp_all
  ultimately show ?thesis using x fx live by blast
qed

text \<open>
  A session starts only for an account that is active now and whose password is still the one that was
  proved; it starts barred to enrollment exactly when the enrollment policies do not accept it; and a login made for
  an authorization interaction binds that interaction, which was unbound, unexpired and opened by this
  browser before the password was proved. A re-authentication renews the browser's own live session, and
  every other interaction that session had satisfied expires at once. Keys stay unique.
\<close>

theorem session_start_checks:
  assumes "CreateSessionForInteraction sess pw h br now d = Inr (i, d')" and "wf_keys d"
  shows "wf_keys d' \<and>
    (\<exists>u \<in> set (users d). usr_id u = ses_user_id sess \<and> usr_status u = Active \<and> (pw = '''' \<or> usr_password_hash u = pw)) \<and>
    (\<exists>s \<in> set (sessions d'). ses_id s = i \<and> ses_user_id s = ses_user_id sess \<and> ses_token_hash s = ses_token_hash sess \<and>
       ses_evidence s = ses_evidence sess \<and> ses_created_at s = now \<and>
       (ses_enrollment_only s \<longleftrightarrow> \<not> mfa_allowed i (ses_user_id sess) now d')) \<and>
    (h \<noteq> '''' \<longrightarrow> (\<exists>x \<in> set (interactions d). interaction_accepts h br sess now d x) \<and>
      (\<exists>x \<in> set (interactions d'). ai_hash x = h \<and> ai_session_id x = i \<and> ai_user_id x = ses_user_id sess)) \<and>
    (i \<noteq> ses_id sess \<longrightarrow> live_session_of i (ses_user_id sess) now d \<and>
      (\<forall>x \<in> set (interactions d'). ai_session_id x = i \<longrightarrow> ai_hash x \<noteq> h \<longrightarrow> ai_expires_at x = now))"
proof -
  from assms(1) obtain renew d1 d2 where b: "bind_interaction sess h br now d = Inr (i, renew, d1)"
      and w: "write_session sess pw i renew now d1 = Inr d2" and m: "mark_enrollment_only i now d2 = Inr d'"
    by (auto simp: CreateSessionForInteraction_def result_iffs)
  note bd = bind_interaction_InrD[OF b assms(2)]
  then have wf1: "wf_keys d1" by blast
  note wd = write_session_InrD[OF w wf1]
  then have wf2: "wf_keys d2" by blast
  let ?row = "sess\<lparr>ses_id := i, ses_created_at := now, ses_last_active_at := now, ses_enrollment_only := False\<rparr>"
  from mark_enrollment_only_InrD[OF m wf2, of ?row] wd obtain a where
      d': "d' = d2\<lparr>sessions := sql_update (\<lambda>s. ses_id s = i) (\<lambda>s. s\<lparr>ses_enrollment_only := \<not> a\<rparr>) (sessions d2)\<rparr>"
      and a: "mfa_allowed i (ses_user_id sess) now d' \<longleftrightarrow> a" by auto
  have "wf_keys d'"
    using wf2 wf_keys_sessions_update[where d = d2] wf_keys_no_sessions[OF wf2] wf_keys_sessions[OF wf2]
    by (simp add: d' map_sql_update)
  moreover have "?row\<lparr>ses_enrollment_only := \<not> a\<rparr> \<in> set (sessions d')"
    using wd by (auto simp: d' sql_simps intro: image_eqI[of _ _ ?row])
  moreover have "users d1 = users d" "interactions d' = interactions d1" using bd wd by (auto simp: d')
  moreover have "i \<noteq> ses_id sess \<Longrightarrow> renew" using b by (auto simp: bind_interaction_def Let_def result_iffs split: if_splits)
  ultimately show ?thesis
    using bd wd a unfolding eligible_user_def
    by (auto intro!: bexI[of _ "?row\<lparr>ses_enrollment_only := \<not> a\<rparr>"])
qed

definition sample_interaction :: interaction where
  "sample_interaction = \<lparr>ai_hash = ''h'', ai_browser_hash = ''b'', ai_user_id = '''', ai_original_session_id = ''s1'',
     ai_session_id = '''', ai_request = ''q'', ai_created_at = 980 * second, ai_expires_at = 1500 * second, ai_client_id = ''c1''\<rparr>"

theorem session_start_checks_witness:
  "\<exists>d'. CreateSessionForInteraction ((sample_session ''new'' ''u1'')\<lparr>ses_token_hash := ''fresh''\<rparr>) ''h1'' ''h'' ''b''
     sample_now (sample_db\<lparr>interactions := [sample_interaction]\<rparr>) = Inr (''s1'', d') \<and>
     (\<exists>s \<in> set (sessions d'). ses_id s = ''s1'' \<and> ses_token_hash s = ''fresh'')"
proof -
  let ?s = "(sample_session ''new'' ''u1'')\<lparr>ses_token_hash := ''fresh''\<rparr>"
  let ?d = "sample_db\<lparr>interactions := [sample_interaction]\<rparr>"
  let ?r = "CreateSessionForInteraction ?s ''h1'' ''h'' ''b'' sample_now ?d"
  have ok: "\<not> isl ?r" and i: "fst (projr ?r) = ''s1''" by code_simp+
  from succeeds[OF ok] i obtain d' where r: "?r = Inr (''s1'', d')" by (cases ?r) auto
  have wf: "wf_keys ?d" using sample_wf_keys by (simp add: wf_keys_def sample_db_def empty_db_def)
  from session_start_checks[OF r wf] r show ?thesis by auto
qed

end
