(* ===== verification/Ky_Tokens.thy ===== *)
theory Ky_Tokens
  imports Ky_AppAuth Ky_Sessions
begin

text \<open>
  Authorization interactions, authorization codes and the registry of issued tokens
  (\<^verbatim>\<open>internal/store/authorization_interactions.go\<close>; \<^verbatim>\<open>store.go\<close>, \<open>CreateAuthorizationCode\<close> to
  \<open>DeleteExpiredIssuedTokens\<close>; \<^verbatim>\<open>app_authentication.go\<close>, the policy edit and the code check):
  how a login becomes a code, a code becomes a token, and what the final guard re-checks.
\<close>

section \<open>Authorization interactions\<close>

text \<open>
  The repair of rows older than the per-account limit: adopt the session's account, drop rows whose session is gone,
  and keep the ten best rows of an account (completed first, then newest, then by hash).
\<close>

definition adopt_account :: "db \<Rightarrow> interaction list \<Rightarrow> interaction list" where
  "adopt_account d = map (\<lambda>i. if ai_user_id i = '''' \<and> ai_session_id i \<noteq> ''''
     then (case sql_first (\<lambda>s. ses_id s = ai_session_id i) (sessions d) of
             None \<Rightarrow> i | Some s \<Rightarrow> i\<lparr>ai_user_id := ses_user_id s\<rparr>)
     else i)"

definition ranked_before :: "interaction \<Rightarrow> interaction \<Rightarrow> bool" where
  "ranked_before x y \<longleftrightarrow>
     (if (ai_session_id x \<noteq> '''') \<noteq> (ai_session_id y \<noteq> '''') then ai_session_id x \<noteq> ''''
      else if ai_created_at x \<noteq> ai_created_at y then ai_created_at x > ai_created_at y
      else ai_hash x < ai_hash y)"

definition repairAuthorizationAccounts :: "db \<Rightarrow> interaction list \<Rightarrow> interaction list" where
  "repairAuthorizationAccounts d t =
     (let t1 = adopt_account d t;
          t2 = sql_delete (\<lambda>i. ai_session_id i \<noteq> '''' \<and> \<not> (\<exists>s \<in> set (sessions d). ses_id s = ai_session_id i)) t1
      in sql_delete (\<lambda>i. ai_user_id i \<noteq> '''' \<and>
           sql_count (\<lambda>j. ai_user_id j = ai_user_id i \<and> ranked_before j i) t2 \<ge> 10) t2)"

text \<open>Under pressure, the oldest pending requests no account owns make room.\<close>

definition reclaim_anonymous :: "interaction list \<Rightarrow> interaction list" where
  "reclaim_anonymous t =
     (let old = take (length t - 9999) (sort_key ai_created_at (sort_key ai_hash
            (filter (\<lambda>i. ai_session_id i = '''' \<and> ai_user_id i = '''') t)))
      in sql_delete (\<lambda>i. ai_hash i \<in> set (map ai_hash old)) t)"

definition CreateAuthorizationInteraction :: "interaction \<Rightarrow> time \<Rightarrow> db \<Rightarrow> err + db" where
  "CreateAuthorizationInteraction i now d =
     (let t1 = sql_delete (\<lambda>x. ai_expires_at x \<le> now) (interactions d);
          t2 = (if length t1 \<ge> 10000 then repairAuthorizationAccounts d t1 else t1);
          t3 = reclaim_anonymous t2;
          admitted = (sql_count (\<lambda>x. ai_browser_hash x = ai_browser_hash i) t3 < 10 \<and>
             (ai_user_id i = '''' \<or> sql_count (\<lambda>x. ai_user_id x = ai_user_id i) t3 < 10) \<and> length t3 < 10000)
      in andthen (ensure admitted ErrAuthorizationInteraction) (\<lambda>_.
         andthen (ensure (\<not> (\<exists>x \<in> set t3. ai_hash x = ai_hash i)) ErrUnique) (\<lambda>_.
         Inr (d\<lparr>interactions := sql_insert (i\<lparr>ai_session_id := ''''\<rparr>) t3\<rparr>))))"

definition GetAuthorizationInteraction :: "string \<Rightarrow> string \<Rightarrow> time \<Rightarrow> db \<Rightarrow> err + interaction" where
  "GetAuthorizationInteraction h b now d =
     (case sql_first (\<lambda>i. ai_hash i = h \<and> ai_browser_hash i = b \<and> ai_expires_at i > now \<and>
          (ai_original_session_id i = '''' \<or> (\<exists>s \<in> set (sessions d). ses_id s = ai_original_session_id i \<and> ses_expires_at s > now)))
        (interactions d) of
        None \<Rightarrow> Inl ErrAuthorizationInteraction | Some i \<Rightarrow> Inr i)"

definition CancelAuthorizationInteraction :: "string \<Rightarrow> string \<Rightarrow> db \<Rightarrow> db" where
  "CancelAuthorizationInteraction h b d =
     d\<lparr>interactions := sql_delete (\<lambda>i. ai_hash i = h \<and> ai_browser_hash i = b) (interactions d)\<rparr>"

section \<open>Policies and their revisions\<close>

definition lockAppRecord :: "string \<Rightarrow> int \<Rightarrow> db \<Rightarrow> err + app_row" where
  "lockAppRecord i revision d =
     (case sql_first (\<lambda>a. app_id a = i) (app_registry d) of
        None \<Rightarrow> Inl ErrAppRecordMissing
      | Some a \<Rightarrow> if app_revision a \<noteq> revision then Inl ErrAppLinkConflict else Inr a)"

definition ClientAuthenticationPolicyBinding :: "string \<Rightarrow> db \<Rightarrow> err + (auth_policy \<times> policy_binding)" where
  "ClientAuthenticationPolicyBinding clientID d =
     (case sql_first (\<lambda>a. app_client_id a = Some clientID) (app_registry d) of
        None \<Rightarrow> Inl ErrNoRows
      | Some a \<Rightarrow> Inr (app_authentication a, \<lparr>pb_app_id = app_id a, pb_auth_revision = app_auth_revision a,
          pb_role_revision = app_role_revision a\<rparr>))"

definition authentication_json :: "auth_policy \<Rightarrow> json" where
  "authentication_json p = JObj [(''mode'', JStr (ap_mode p)), (''primaryMaxAge'', JNum (ap_primary_max_age p)),
     (''factor'', JStr (ap_factor p)), (''factorMaxAge'', JNum (ap_factor_max_age p)),
     (''refreshIdle'', JNum (ap_refresh_idle p)), (''refreshLifetime'', JNum (ap_refresh_lifetime p))]"

text \<open>
  \<open>render\<close> is the JSON of an app record; it also shows the names of the linked launcher entry and
  paired system, which are no part of this state.
\<close>

definition SetAppAuthenticationPolicy ::
    "(app_row \<Rightarrow> json) \<Rightarrow> string \<Rightarrow> auth_policy \<Rightarrow> int \<Rightarrow> audit_event option \<Rightarrow> time \<Rightarrow> db \<Rightarrow> err + db" where
  "SetAppAuthenticationPolicy render i p revision audit now d =
     andthen (ensure (policy_Valid p) ErrAppAuthentication) (\<lambda>_.
     andthen (lockAppRecord i revision d) (\<lambda>a.
     case app_client_id a of
       None \<Rightarrow> Inl ErrAppAuthentication
     | Some c \<Rightarrow>
        andthen (ensure (c \<noteq> '''') ErrAppAuthentication) (\<lambda>_.
        andthen (if RefreshEnabled p then
                   (case sql_first (\<lambda>x. oc_id x = c) (oauth_clients d) of
                      None \<Rightarrow> Inl ErrNoRows
                    | Some x \<Rightarrow> ensure (oc_client_type x = Confidential) ErrRefreshNeedsConfidential)
                 else Inr ()) (\<lambda>_.
        if app_authentication a = p then
          recordAuditTx (appRegistryAudit audit (JObj [(''app'', render a), (''authentication'', authentication_json p),
            (''unchanged'', JBool True)])) now d
        else
          (let d1 = d\<lparr>app_registry := sql_update (\<lambda>x. app_id x = i) (\<lambda>x. x\<lparr>app_authentication := p,
                   app_auth_revision := app_auth_revision x + 1, app_revision := app_revision x + 1\<rparr>) (app_registry d),
                 interactions := sql_delete (\<lambda>x. ai_client_id x = c) (interactions d),
                 authorization_codes := sql_delete (\<lambda>x. ac_client_id x = c) (authorization_codes d),
                 issued_tokens := sql_update (\<lambda>t. it_client_id t = c \<and> it_revoked_at t = None)
                   (\<lambda>t. t\<lparr>it_revoked_at := Some now\<rparr>) (issued_tokens d)\<rparr>
           in recordAuditTx (appRegistryAudit audit (JObj [(''app'', render a), (''authentication'', authentication_json p),
                (''policyRevision'', JNum (app_auth_revision a + 1))])) now d1)))))"

section \<open>Authorization codes\<close>

text \<open>
  \<open>checkCodeAppAuthenticationTx\<close> stamps the code with the app, the revisions and the deadline it was
  checked against; the interaction hash travels beside the row.
\<close>

definition checkCodeAppAuthenticationTx :: "auth_code \<Rightarrow> string \<Rightarrow> time \<Rightarrow> db \<Rightarrow> err + auth_code" where
  "checkCodeAppAuthenticationTx code interactionHash now d =
     (case sql_first (\<lambda>a. app_client_id a = Some (ac_client_id code)) (app_registry d) of
        None \<Rightarrow> Inl ErrNoRows
      | Some a \<Rightarrow>
         (let p = app_authentication a;
              fresh_ok = (case sql_first (\<lambda>i. ai_hash i = interactionHash \<and> ai_session_id i = ac_session_id code
                             \<and> ai_expires_at i > now) (interactions d) of
                 None \<Rightarrow> False
               | Some i \<Rightarrow> (case ev_primary_at (ac_evidence code) of None \<Rightarrow> False
                    | Some t \<Rightarrow> \<not> t < ai_created_at i))
          in andthen (ensure (policy_Valid p \<and> EvidenceReason p (ac_evidence code) now = '''') ErrAppAuthentication) (\<lambda>_.
             andthen (ensure (ap_mode p = ''fresh'' \<longrightarrow> fresh_ok) ErrAppAuthentication) (\<lambda>_.
             Inr (code\<lparr>ac_authentication_expires_at :=
                    (case (Deadline p (ac_evidence code), ac_authentication_expires_at code) of
                       (None, e) \<Rightarrow> e
                     | (Some x, None) \<Rightarrow> Some x
                     | (Some x, Some e) \<Rightarrow> if x < e then Some x else Some e),
                  ac_auth_app_id := app_id a, ac_auth_policy_revision := app_auth_revision a,
                  ac_role_revision := app_role_revision a\<rparr>)))))"

definition password_change_required :: "string \<Rightarrow> db \<Rightarrow> bool" where
  "password_change_required userID d \<longleftrightarrow> (\<exists>u \<in> set (users d). usr_id u = userID \<and> usr_password_change_required u)"

definition CreateAuthorizationCode :: "auth_code \<Rightarrow> string \<Rightarrow> time \<Rightarrow> db \<Rightarrow> err + db" where
  "CreateAuthorizationCode code interactionHash now d =
     andthen (checkCodeAppAuthenticationTx code interactionHash now d) (\<lambda>code1.
     let match = (\<lambda>i. ai_hash i = interactionHash \<and> ai_session_id i = ac_session_id code1 \<and> ai_expires_at i > now);
         d1 = (if interactionHash \<noteq> '''' then d\<lparr>interactions := sql_delete match (interactions d)\<rparr> else d);
         row = code1\<lparr>ac_used_at := None, ac_created_at := now\<rparr>;
         permitted = (ClientAccessAllowed (ac_user_id row) (ac_client_id row) now d1 \<and>
           (\<exists>s \<in> set (sessions d1). ses_user_id s = ac_user_id row \<and> ses_id s = ac_session_id row \<and> ses_expires_at s > now
              \<and> (\<exists>m \<in> set (mfa_session_access now d1). fst m = ses_id s \<and> snd (snd m)))
           \<and> \<not> password_change_required (ac_user_id row) d1)
     in andthen (ensure (interactionHash = '''' \<or> sql_count match (interactions d) = 1) ErrAuthorizationInteraction) (\<lambda>_.
        andthen (ensure permitted ErrAppAccessDenied) (\<lambda>_.
        andthen (ensure (\<not> (\<exists>c \<in> set (authorization_codes d1). ac_id c = ac_id row \<or> ac_code_hash c = ac_code_hash row)) ErrUnique) (\<lambda>_.
        Inr (d1\<lparr>authorization_codes := sql_insert row (authorization_codes d1)\<rparr>)))))"

definition GetValidAuthorizationCode :: "string \<Rightarrow> time \<Rightarrow> db \<Rightarrow> auth_code option" where
  "GetValidAuthorizationCode codeHash now d =
     sql_first (\<lambda>c. ac_code_hash c = codeHash \<and> ac_used_at c = None \<and> ac_expires_at c > now) (authorization_codes d)"

definition ConsumeAuthorizationCode :: "string \<Rightarrow> time \<Rightarrow> db \<Rightarrow> bool \<times> db" where
  "ConsumeAuthorizationCode codeID now d =
     (let match = (\<lambda>c. ac_id c = codeID \<and> ac_used_at c = None \<and> ac_expires_at c > now)
      in (sql_count match (authorization_codes d) = 1,
          d\<lparr>authorization_codes := sql_update match (\<lambda>c. c\<lparr>ac_used_at := Some now\<rparr>) (authorization_codes d)\<rparr>))"

definition DeleteExpiredAuthorizationCodes :: "time \<Rightarrow> db \<Rightarrow> db" where
  "DeleteExpiredAuthorizationCodes now d =
     d\<lparr>authorization_codes := sql_delete (\<lambda>c. ac_expires_at c < now) (authorization_codes d)\<rparr>"

section \<open>Issued tokens\<close>

text \<open>What registration is given beyond the row it stores.\<close>

record token_request =
  tr_code_id :: string
  tr_policy :: policy_binding
  tr_device :: device_binding
  tr_family_jti :: string
  tr_session_id :: string
  tr_jti :: string
  tr_user_id :: string
  tr_client_id :: string
  tr_expires_at :: time

definition no_policy :: policy_binding where
  "no_policy = \<lparr>pb_app_id = '''', pb_auth_revision = 0, pb_role_revision = 0\<rparr>"

definition no_device :: device_binding where
  "no_device = \<lparr>db_id = '''', db_user_id = '''', db_public_key = '''', db_attested_level = ''''\<rparr>"

text \<open>The five conditions of the guard, one per \<open>EXISTS\<close> of the statement.\<close>

definition session_backs :: "token_request \<Rightarrow> time \<Rightarrow> db \<Rightarrow> bool" where
  "session_backs t now d \<longleftrightarrow>
     (\<exists>s \<in> set (sessions d). \<exists>u \<in> set (users d). usr_id u = ses_user_id s \<and>
        ses_id s = tr_session_id t \<and> ses_user_id s = tr_user_id t \<and> ses_expires_at s > now \<and>
        usr_status u = Active \<and> \<not> usr_password_change_required u \<and> live_until (usr_ends_at u) now \<and>
        (\<exists>m \<in> set (mfa_session_access now d). fst m = ses_id s \<and> snd (snd m)))"

definition code_backs :: "token_request \<Rightarrow> time \<Rightarrow> db \<Rightarrow> bool" where
  "code_backs t now d \<longleftrightarrow>
     (\<exists>c \<in> set (authorization_codes d). \<exists>a \<in> set (app_registry d).
        app_client_id a = Some (ac_client_id c) \<and> app_id a = ac_auth_app_id c \<and>
        app_auth_revision a = ac_auth_policy_revision c \<and> app_role_revision a = ac_role_revision c \<and>
        ac_id c = tr_code_id t \<and> ac_session_id c = tr_session_id t \<and> ac_client_id c = tr_client_id t \<and>
        ac_user_id c = tr_user_id t \<and> ac_used_at c \<noteq> None \<and> ac_expires_at c > now \<and>
        (case ac_authentication_expires_at c of None \<Rightarrow> True | Some e \<Rightarrow> e \<ge> now))"

definition policy_backs :: "token_request \<Rightarrow> db \<Rightarrow> bool" where
  "policy_backs t d \<longleftrightarrow>
     (\<exists>a \<in> set (app_registry d). app_id a = pb_app_id (tr_policy t) \<and> app_client_id a = Some (tr_client_id t) \<and>
        app_auth_revision a = pb_auth_revision (tr_policy t) \<and> app_role_revision a = pb_role_revision (tr_policy t))"

definition device_backs :: "token_request \<Rightarrow> db \<Rightarrow> bool" where
  "device_backs t d \<longleftrightarrow>
     (\<exists>x \<in> set (native_devices d). nd_id x = db_id (tr_device t) \<and> nd_user_id x = db_user_id (tr_device t) \<and>
        nd_public_key x = Some (db_public_key (tr_device t)) \<and> nd_can_sign_on x \<and> nd_is_mfa_approver x \<and>
        nd_attested_level x = db_attested_level (tr_device t))"

definition issuance_permitted :: "token_request \<Rightarrow> time \<Rightarrow> db \<Rightarrow> bool" where
  "issuance_permitted t now d \<longleftrightarrow>
     session_backs t now d \<and> ClientAccessAllowed (tr_user_id t) (tr_client_id t) now d \<and>
     (tr_code_id t = '''' \<or> code_backs t now d) \<and>
     (pb_app_id (tr_policy t) = '''' \<or> policy_backs t d) \<and>
     (db_id (tr_device t) = '''' \<or> device_backs t d)"

definition recordIssuedTokenTx :: "token_request \<Rightarrow> time \<Rightarrow> db \<Rightarrow> err + db" where
  "recordIssuedTokenTx t now d =
     andthen (ensure (issuance_permitted t now d) ErrAppAccessDenied) (\<lambda>_.
     andthen (ensure (\<not> (\<exists>x \<in> set (issued_tokens d). it_jti x = tr_jti t)) ErrUnique) (\<lambda>_.
     Inr (d\<lparr>issued_tokens := sql_insert \<lparr>it_jti = tr_jti t, it_user_id = tr_user_id t, it_client_id = tr_client_id t,
        it_expires_at = tr_expires_at t, it_revoked_at = None, it_created_at = now, it_session_id = Some (tr_session_id t),
        it_family_jti = (if tr_family_jti t = '''' then None else Some (tr_family_jti t))\<rparr> (issued_tokens d)\<rparr>)))"

definition RecordIssuedToken :: "token_request \<Rightarrow> time \<Rightarrow> db \<Rightarrow> err + db" where
  "RecordIssuedToken t now d = recordIssuedTokenTx t now d"

definition IsTokenRevoked :: "string \<Rightarrow> time \<Rightarrow> db \<Rightarrow> bool" where
  "IsTokenRevoked jti now d =
     (case sql_first (\<lambda>t. it_jti t = jti \<and> it_expires_at t > now \<and>
          (it_session_id t = None \<or> (\<exists>m \<in> set (mfa_session_access now d). Some (fst m) = it_session_id t \<and> snd (snd m))) \<and>
          \<not> password_change_required (it_user_id t) d) (issued_tokens d) of
        None \<Rightarrow> True
      | Some t \<Rightarrow> it_revoked_at t \<noteq> None)"

definition revoke_tokens :: "(issued_token \<Rightarrow> bool) \<Rightarrow> time \<Rightarrow> db \<Rightarrow> db" where
  "revoke_tokens p now d =
     d\<lparr>issued_tokens := sql_update (\<lambda>t. p t \<and> it_revoked_at t = None) (\<lambda>t. t\<lparr>it_revoked_at := Some now\<rparr>) (issued_tokens d)\<rparr>"

definition RevokeToken :: "string \<Rightarrow> time \<Rightarrow> db \<Rightarrow> db" where
  "RevokeToken jti now d = revoke_tokens (\<lambda>t. it_jti t = jti) now d"

definition RevokeUserTokens :: "string \<Rightarrow> time \<Rightarrow> db \<Rightarrow> db" where
  "RevokeUserTokens userID now d = revoke_tokens (\<lambda>t. it_user_id t = userID) now d"

definition revokeClientTokensTx :: "string \<Rightarrow> time \<Rightarrow> db \<Rightarrow> db" where
  "revokeClientTokensTx clientID now d = revoke_tokens (\<lambda>t. it_client_id t = clientID) now d"

definition DeleteExpiredIssuedTokens :: "time \<Rightarrow> db \<Rightarrow> db" where
  "DeleteExpiredIssuedTokens now d = delete_issued_tokens (\<lambda>t. it_expires_at t < now) d"

section \<open>What the final guard establishes\<close>

lemma mfa_row_allowed:
  assumes "wf_keys d" "s \<in> set (sessions d)" "m \<in> set (mfa_session_access now d)" "fst m = ses_id s" "snd (snd m)"
  shows "mfa_allowed (ses_id s) (ses_user_id s) now d"
proof -
  obtain i u a where m: "m = (i, u, a)" by (cases m)
  with assms(3-5) obtain s' where "s' \<in> set (sessions d)" "ses_id s' = ses_id s" "u = ses_user_id s'" "a" "i = ses_id s"
    by (auto simp: mfa_session_access_def)
  with wf_keys_sessions(3)[OF assms(1) _ assms(2)] assms(3) m show ?thesis
    unfolding mfa_allowed_def by metis
qed

lemma recordIssuedTokenTx_InrD:
  assumes "recordIssuedTokenTx t now d = Inr d'"
  shows "issuance_permitted t now d" and "tr_jti t \<notin> it_jti ` set (issued_tokens d)"
    and "\<exists>row. d' = d\<lparr>issued_tokens := issued_tokens d @ [row]\<rparr> \<and> it_jti row = tr_jti t \<and> it_user_id row = tr_user_id t \<and>
      it_client_id row = tr_client_id t \<and> it_expires_at row = tr_expires_at t \<and> it_revoked_at row = None \<and>
      it_session_id row = Some (tr_session_id t) \<and>
      it_family_jti row = (if tr_family_jti t = '''' then None else Some (tr_family_jti t))"
  using assms by (auto simp: recordIssuedTokenTx_def result_iffs sql_insert_def)

lemma mfa_session_access_cong:
  assumes "sessions d' = sessions d" "users d' = users d" "enrollment_policies d' = enrollment_policies d"
    "admin_delegations d' = admin_delegations d" "group_memberships d' = group_memberships d"
    "enrollment_deadlines d' = enrollment_deadlines d" "mfa_methods d' = mfa_methods d"
    "native_devices d' = native_devices d" "webauthn_credentials d' = webauthn_credentials d"
  shows "mfa_session_access now d' = mfa_session_access now d"
  using assms enrollment_requirements_cong[OF assms(2-6)] enrolled_factors_cong[OF assms(7-9)]
  by (simp add: mfa_session_access_def session_access_row_def)

text \<open>
  C3. A token is registered only while everything it rests on still stands, all checked in the one statement
  that stores it: the account is active, has not reached its end and owes no password change; its session is
  live and satisfies the enrollment policies; the user may use the client now; and a token for a code
  needs that code spent, unexpired, minted by the same session for the same client and user, under the app's
  current policy and role revisions and within the code's authentication deadline. The token then reads
  as valid until it expires.
\<close>

theorem issued_token_is_backed:
  assumes "RecordIssuedToken t now d = Inr d'" and "wf_keys d" and "now < tr_expires_at t"
  shows "(\<exists>u \<in> set (users d). usr_id u = tr_user_id t \<and> usr_status u = Active \<and> \<not> usr_password_change_required u \<and>
       (case usr_ends_at u of None \<Rightarrow> True | Some v \<Rightarrow> now < from_unix v)) \<and>
    live_session_of (tr_session_id t) (tr_user_id t) now d \<and>
    mfa_allowed (tr_session_id t) (tr_user_id t) now d \<and>
    ClientAccessAllowed (tr_user_id t) (tr_client_id t) now d \<and>
    (tr_code_id t \<noteq> '''' \<longrightarrow> (\<exists>c \<in> set (authorization_codes d). ac_id c = tr_code_id t \<and> ac_used_at c \<noteq> None \<and>
       now < ac_expires_at c \<and> ac_session_id c = tr_session_id t \<and> ac_user_id c = tr_user_id t \<and> ac_client_id c = tr_client_id t)) \<and>
    \<not> IsTokenRevoked (tr_jti t) now d'"
proof -
  from assms(1) have r: "recordIssuedTokenTx t now d = Inr d'" by (simp add: RecordIssuedToken_def)
  note perm = recordIssuedTokenTx_InrD(1)[OF r] and fresh = recordIssuedTokenTx_InrD(2)[OF r]
  from perm obtain s u m where su: "s \<in> set (sessions d)" "u \<in> set (users d)" "usr_id u = ses_user_id s"
      "ses_id s = tr_session_id t" "ses_user_id s = tr_user_id t" "now < ses_expires_at s" "usr_status u = Active"
      "\<not> usr_password_change_required u" "live_until (usr_ends_at u) now"
      "m \<in> set (mfa_session_access now d)" "fst m = ses_id s" "snd (snd m)"
    by (auto simp: issuance_permitted_def session_backs_def)
  from recordIssuedTokenTx_InrD(3)[OF r] obtain row where d': "d' = d\<lparr>issued_tokens := issued_tokens d @ [row]\<rparr>"
      and row: "it_jti row = tr_jti t" "it_user_id row = tr_user_id t" "it_expires_at row = tr_expires_at t"
        "it_revoked_at row = None" "it_session_id row = Some (tr_session_id t)" by blast
  have acc: "mfa_session_access now d' = mfa_session_access now d"
    unfolding d' by (rule mfa_session_access_cong) simp_all
  have same: "v = u" if "v \<in> set (users d)" "usr_id v = tr_user_id t" for v
    using user_unique[OF assms(2) that(1) su(2)] that(2) su(3,5) by simp
  have "\<not> password_change_required (tr_user_id t) d'"
    using su(8) by (auto simp: password_change_required_def d' dest: same)
  then have found: "sql_first (\<lambda>x. it_jti x = tr_jti t \<and> it_expires_at x > now \<and>
          (it_session_id x = None \<or> (\<exists>m \<in> set (mfa_session_access now d'). Some (fst m) = it_session_id x \<and> snd (snd m))) \<and>
          \<not> password_change_required (it_user_id x) d') (issued_tokens d') \<noteq> None"
    using su(4,10-12) row assms(3) unfolding find_None_iff2 acc by (auto simp: d')
  have only: "x = row" if "x \<in> set (issued_tokens d')" "it_jti x = tr_jti t" for x
    using that fresh by (auto simp: d' image_iff)
  have "\<not> IsTokenRevoked (tr_jti t) now d'"
  proof
    assume "IsTokenRevoked (tr_jti t) now d'"
    with found obtain x where "sql_first (\<lambda>x. it_jti x = tr_jti t \<and> it_expires_at x > now \<and>
          (it_session_id x = None \<or> (\<exists>m \<in> set (mfa_session_access now d'). Some (fst m) = it_session_id x \<and> snd (snd m))) \<and>
          \<not> password_change_required (it_user_id x) d') (issued_tokens d') = Some x" "it_revoked_at x \<noteq> None"
      by (auto simp: IsTokenRevoked_def split: option.splits)
    from find_SomeD[OF this(1)] only[of x] row(4) this(2) show False by auto
  qed
  moreover have "mfa_allowed (tr_session_id t) (tr_user_id t) now d"
    using mfa_row_allowed[OF assms(2) su(1,10,11,12)] su(4,5) by simp
  moreover have "case usr_ends_at u of None \<Rightarrow> True | Some v \<Rightarrow> now < from_unix v"
    using su(9) by (auto split: option.splits)
  ultimately show ?thesis
    using perm su(1-8) unfolding issuance_permitted_def live_session_of_def code_backs_def by metis
qed

definition sample_token :: token_request where
  "sample_token = \<lparr>tr_code_id = '''', tr_policy = no_policy, tr_device = no_device, tr_family_jti = '''',
     tr_session_id = ''s1'', tr_jti = ''j1'', tr_user_id = ''u1'', tr_client_id = ''c1'', tr_expires_at = 1300 * second\<rparr>"

theorem issued_token_is_backed_witness:
  "\<exists>d'. RecordIssuedToken sample_token sample_now sample_db = Inr d' \<and> \<not> IsTokenRevoked ''j1'' sample_now d'"
proof -
  have "\<not> isl (RecordIssuedToken sample_token sample_now sample_db)" by code_simp
  then obtain d' where r: "RecordIssuedToken sample_token sample_now sample_db = Inr d'" by (blast dest: succeeds)
  have "sample_now < tr_expires_at sample_token" by code_simp
  from issued_token_is_backed[OF r sample_wf_keys this] r show ?thesis by (auto simp: sample_token_def)
qed

section \<open>What happens to codes\<close>

text \<open>Every operation but issuing and spending a code only deletes codes.\<close>

lemma revokeSessionsTx_codes:
  "revokeSessionsTx now p d = Inr (n, d') \<Longrightarrow> evolves ac_id used i (authorization_codes d) (authorization_codes d')"
  by (elim revokeSessionsTx_InrE) (simp add: revokeSessionGrantsTx_def delete_sessions_def Let_def evolves_delete)

lemma revokeUserAccessTx_codes:
  assumes "revokeUserAccessTx u now d = Inr d'"
  shows "evolves ac_id used i (authorization_codes d) (authorization_codes d')"
  using assms
proof (rule revokeUserAccessTx_InrE)
  fix n d1
  assume r: "revokeSessionsTx now (\<lambda>s. ses_user_id s = u) d = Inr (n, d1)"
    and d': "d' = expireAccountTokensTx now (\<lambda>t. at_user_id t = u) (spendMFATokensTx now u
      (revokeSessionGrantsTx (\<lambda>_ x. x = u) now (expirePairingTokensTx now u d1)))"
  show ?thesis
    by (rule evolves_trans[OF revokeSessionsTx_codes[OF r]]) (simp add: d' revoke_access_defs evolves_delete)
qed

lemma revokeLostAppAccessTx_codes:
  assumes "revokeLostAppAccessTx now d = Inr d'"
  shows "evolves ac_id used i (authorization_codes d) (authorization_codes d')"
  using assms by (auto simp: revokeLostAppAccessTx_def Let_def result_iffs evolves_delete dest!: enqueueLogoutTx_frame)

lemma RevokeUserClientAccess_codes:
  assumes "RevokeUserClientAccess u c audit now d = Inr (x, d')"
  shows "evolves ac_id used i (authorization_codes d) (authorization_codes d')"
  using assms unfolding RevokeUserClientAccess_def
  by (elim auditedTx_InrD) (auto simp: result_iffs evolves_delete dest!: enqueueLogoutTx_frame)

lemma SetEnrollmentPolicy_codes:
  assumes "SetEnrollmentPolicy p sid audit now d = Inr d'"
  shows "evolves ac_id used i (authorization_codes d) (authorization_codes d')"
  using assms by (elim SetEnrollmentPolicy_InrD) (simp add: evolvesI[where f = id and keep = "\<lambda>_. False"])

lemma SetAppAuthenticationPolicy_InrE:
  assumes "SetAppAuthenticationPolicy render i p revision audit now d = Inr d'"
  obtains (same) a es where "a \<in> set (app_registry d)" "app_id a = i" "app_authentication a = p" "d' = d\<lparr>audit_events := es\<rparr>"
  | (changed) a c es where "a \<in> set (app_registry d)" "app_id a = i" "app_client_id a = Some c" "policy_Valid p"
      "app_authentication a \<noteq> p" "app_revision a = revision"
      "RefreshEnabled p \<longrightarrow> (\<exists>x \<in> set (oauth_clients d). oc_id x = c \<and> oc_client_type x = Confidential)"
      "d' = d\<lparr>app_registry := sql_update (\<lambda>x. app_id x = i) (\<lambda>x. x\<lparr>app_authentication := p,
                   app_auth_revision := app_auth_revision x + 1, app_revision := app_revision x + 1\<rparr>) (app_registry d),
                 interactions := sql_delete (\<lambda>x. ai_client_id x = c) (interactions d),
                 authorization_codes := sql_delete (\<lambda>x. ac_client_id x = c) (authorization_codes d),
                 issued_tokens := sql_update (\<lambda>t. it_client_id t = c \<and> it_revoked_at t = None)
                   (\<lambda>t. t\<lparr>it_revoked_at := Some now\<rparr>) (issued_tokens d), audit_events := es\<rparr>"
proof -
  from assms obtain a c where a: "sql_first (\<lambda>a. app_id a = i) (app_registry d) = Some a" "app_revision a = revision"
      "app_client_id a = Some c" and v: "policy_Valid p"
      and ref: "RefreshEnabled p \<longrightarrow> (\<exists>x. sql_first (\<lambda>x. oc_id x = c) (oauth_clients d) = Some x \<and> oc_client_type x = Confidential)"
    by (auto simp: SetAppAuthenticationPolicy_def lockAppRecord_def result_iffs split: option.splits if_splits)
  from find_SomeD[OF a(1)] have a': "a \<in> set (app_registry d)" "app_id a = i" by auto
  from ref have ref': "RefreshEnabled p \<longrightarrow> (\<exists>x \<in> set (oauth_clients d). oc_id x = c \<and> oc_client_type x = Confidential)"
    by (auto dest!: find_SomeD)
  show thesis
  proof (cases "app_authentication a = p")
    case True
    with assms a v have "\<exists>e. recordAuditTx e now d = Inr d'"
      by (auto simp: SetAppAuthenticationPolicy_def lockAppRecord_def result_iffs split: option.splits if_splits)
    then show thesis using same[OF a' True] recordAuditTx_InrD by blast
  next
    case False
    let ?d1 = "d\<lparr>app_registry := sql_update (\<lambda>x. app_id x = i) (\<lambda>x. x\<lparr>app_authentication := p,
                   app_auth_revision := app_auth_revision x + 1, app_revision := app_revision x + 1\<rparr>) (app_registry d),
                 interactions := sql_delete (\<lambda>x. ai_client_id x = c) (interactions d),
                 authorization_codes := sql_delete (\<lambda>x. ac_client_id x = c) (authorization_codes d),
                 issued_tokens := sql_update (\<lambda>t. it_client_id t = c \<and> it_revoked_at t = None)
                   (\<lambda>t. t\<lparr>it_revoked_at := Some now\<rparr>) (issued_tokens d)\<rparr>"
    from False assms a v have "\<exists>e. recordAuditTx e now ?d1 = Inr d'"
      by (auto simp: SetAppAuthenticationPolicy_def lockAppRecord_def result_iffs Let_def split: option.splits if_splits)
    then obtain es where "d' = ?d1\<lparr>audit_events := es\<rparr>" using recordAuditTx_InrD by blast
    then show thesis by (intro changed[OF a' a(3) v False a(2) ref']) simp
  qed
qed

lemma SetAppAuthenticationPolicy_changed:
  assumes "SetAppAuthenticationPolicy render i p revision audit now d = Inr d'" and "wf_keys d"
    and "a \<in> set (app_registry d)" and "app_id a = i" and "app_client_id a = Some c" and "app_authentication a \<noteq> p"
  shows "\<exists>es. policy_Valid p \<and> app_revision a = revision \<and>
      (RefreshEnabled p \<longrightarrow> (\<exists>x \<in> set (oauth_clients d). oc_id x = c \<and> oc_client_type x = Confidential)) \<and>
      d' = d\<lparr>app_registry := sql_update (\<lambda>x. app_id x = i) (\<lambda>x. x\<lparr>app_authentication := p,
                   app_auth_revision := app_auth_revision x + 1, app_revision := app_revision x + 1\<rparr>) (app_registry d),
                 interactions := sql_delete (\<lambda>x. ai_client_id x = c) (interactions d),
                 authorization_codes := sql_delete (\<lambda>x. ac_client_id x = c) (authorization_codes d),
                 issued_tokens := sql_update (\<lambda>t. it_client_id t = c \<and> it_revoked_at t = None)
                   (\<lambda>t. t\<lparr>it_revoked_at := Some now\<rparr>) (issued_tokens d), audit_events := es\<rparr>"
  using assms(1)
proof (cases rule: SetAppAuthenticationPolicy_InrE)
  case (same b es)
  have "app_id b = app_id a" using same(2) assms(4) by simp
  then have "b = a" by (rule app_unique[OF assms(2) same(1) assms(3)])
  with same(3) assms(6) show ?thesis by blast
next
  case (changed b k es)
  then have "b = a" using app_unique[OF assms(2) changed(1) assms(3)] assms(4) by simp
  with changed assms(5) show ?thesis by auto
qed

lemma SetAppAuthenticationPolicy_codes:
  assumes "SetAppAuthenticationPolicy render i p revision audit now d = Inr d'"
  shows "evolves ac_id used j (authorization_codes d) (authorization_codes d')"
  using assms by (rule SetAppAuthenticationPolicy_InrE) (simp_all add: evolves_delete evolves_refl)

lemmas codes_evolve = revokeSessionsTx_codes revokeUserAccessTx_codes revokeLostAppAccessTx_codes
  RevokeUserClientAccess_codes SetEnrollmentPolicy_codes SetAppAuthenticationPolicy_codes

lemma checkCodeAppAuthenticationTx_InrD:
  assumes "checkCodeAppAuthenticationTx code h now d = Inr code'"
  shows "\<exists>a \<in> set (app_registry d). app_client_id a = Some (ac_client_id code) \<and> policy_Valid (app_authentication a) \<and>
    EvidenceReason (app_authentication a) (ac_evidence code) now = '''' \<and>
    ac_auth_app_id code' = app_id a \<and> ac_auth_policy_revision code' = app_auth_revision a \<and>
    (\<forall>x. Deadline (app_authentication a) (ac_evidence code) = Some x \<longrightarrow>
       (\<exists>y. ac_authentication_expires_at code' = Some y \<and> y \<le> x)) \<and>
    (\<exists>e aid pr rr. code' = code\<lparr>ac_authentication_expires_at := e, ac_auth_app_id := aid,
        ac_auth_policy_revision := pr, ac_role_revision := rr\<rparr>)"
proof -
  from assms obtain a where a: "sql_first (\<lambda>a. app_client_id a = Some (ac_client_id code)) (app_registry d) = Some a"
    by (auto simp: checkCodeAppAuthenticationTx_def split: option.splits)
  let ?e = "case (Deadline (app_authentication a) (ac_evidence code), ac_authentication_expires_at code) of
      (None, e) \<Rightarrow> e | (Some x, None) \<Rightarrow> Some x | (Some x, Some e) \<Rightarrow> if x < e then Some x else Some e"
  from assms a have v: "policy_Valid (app_authentication a)" "EvidenceReason (app_authentication a) (ac_evidence code) now = ''''"
    and c: "code' = code\<lparr>ac_authentication_expires_at := ?e, ac_auth_app_id := app_id a,
        ac_auth_policy_revision := app_auth_revision a, ac_role_revision := app_role_revision a\<rparr>"
    by (auto simp: checkCodeAppAuthenticationTx_def Let_def result_iffs)
  have "\<exists>y. ?e = Some y \<and> y \<le> x" if "Deadline (app_authentication a) (ac_evidence code) = Some x" for x
    using that by (cases "ac_authentication_expires_at code") auto
  with find_SomeD[OF a] v c show ?thesis by (intro bexI[of _ a]) auto
qed

lemma CreateAuthorizationCode_InrD:
  assumes "CreateAuthorizationCode code h now d = Inr d'"
  obtains code' ins where "checkCodeAppAuthenticationTx code h now d = Inr code'"
    and "d' = d\<lparr>interactions := ins, authorization_codes := authorization_codes d @ [code'\<lparr>ac_used_at := None, ac_created_at := now\<rparr>]\<rparr>"
    and "ac_id code \<notin> ac_id ` set (authorization_codes d)"
proof -
  from assms obtain code' where c: "checkCodeAppAuthenticationTx code h now d = Inr code'"
      and d': "d' = d\<lparr>interactions := interactions d', authorization_codes := authorization_codes d @ [code'\<lparr>ac_used_at := None, ac_created_at := now\<rparr>]\<rparr>"
      and new: "\<forall>c \<in> set (authorization_codes d). ac_id c \<noteq> ac_id code'"
    by (cases "h = ''''") (auto simp: CreateAuthorizationCode_def Let_def result_iffs sql_insert_def)
  moreover from new have "ac_id code' \<notin> ac_id ` set (authorization_codes d)" by force
  moreover from checkCodeAppAuthenticationTx_InrD[OF c] have "ac_id code' = ac_id code" by auto
  ultimately show thesis using that by auto
qed

lemma CreateAuthorizationCode_row:
  assumes "CreateAuthorizationCode code h now d = Inr d'"
  shows "\<exists>row. authorization_codes d' = authorization_codes d @ [row] \<and> ac_id row = ac_id code \<and>
    ac_id code \<notin> ac_id ` set (authorization_codes d)"
  using assms
proof (rule CreateAuthorizationCode_InrD)
  fix code' ins
  assume c: "checkCodeAppAuthenticationTx code h now d = Inr code'"
    and d': "d' = d\<lparr>interactions := ins, authorization_codes := authorization_codes d @ [code'\<lparr>ac_used_at := None, ac_created_at := now\<rparr>]\<rparr>"
    and "ac_id code \<notin> ac_id ` set (authorization_codes d)"
  moreover from checkCodeAppAuthenticationTx_InrD[OF c] have "ac_id code' = ac_id code" by auto
  ultimately show ?thesis by simp
qed

section \<open>A code is spent at most once\<close>

text \<open>The other operations of the store; a new code is given an identifier of its own.\<close>

inductive code_other :: "string \<Rightarrow> db \<Rightarrow> db \<Rightarrow> bool" for i where
  create: "CreateAuthorizationCode code h now d = Inr d' \<Longrightarrow> ac_id code \<noteq> i \<Longrightarrow> code_other i d d'"
| expire: "code_other i d (DeleteExpiredAuthorizationCodes now d)"
| policy: "SetAppAuthenticationPolicy render a p revision audit now d = Inr d' \<Longrightarrow> code_other i d d'"
| session: "revokeSessionsTx now q d = Inr (n, d') \<Longrightarrow> code_other i d d'"
| account: "revokeUserAccessTx u now d = Inr d' \<Longrightarrow> code_other i d d'"
| client: "RevokeUserClientAccess u c audit now d = Inr (x, d') \<Longrightarrow> code_other i d d'"
| lost: "revokeLostAppAccessTx now d = Inr d' \<Longrightarrow> code_other i d d'"
| enrollment: "SetEnrollmentPolicy pol sid audit now d = Inr d' \<Longrightarrow> code_other i d d'"
| elsewhere: "authorization_codes d' = authorization_codes d \<Longrightarrow> code_other i d d'"

lemma code_other_evolves:
  assumes "code_other i d d'"
  shows "evolves ac_id used i (authorization_codes d) (authorization_codes d')"
  using assms
proof cases
  case (create code h now)
  from CreateAuthorizationCode_row[OF create(1)] obtain row where "authorization_codes d' = authorization_codes d @ [row]"
      "ac_id row = ac_id code" "ac_id code \<notin> ac_id ` set (authorization_codes d)" by blast
  with create(2) evolves_insert[of ac_id row i "authorization_codes d" used] show ?thesis by simp
qed (auto simp: DeleteExpiredAuthorizationCodes_def evolves_delete evolves_refl intro: codes_evolve)

interpretation code: spendable_rows authorization_codes ac_id "\<lambda>c. ac_used_at c \<noteq> None"
  "\<lambda>(i, now) d. ConsumeAuthorizationCode i now d" fst code_other
proof unfold_locales
  fix k d ok d' assume "(case k of (i, now) \<Rightarrow> ConsumeAuthorizationCode i now) d = (ok, d')"
  then show "\<exists>p f. authorization_codes d' = sql_update p f (authorization_codes d) \<and>
      (\<forall>r. p r \<longrightarrow> ac_id r = fst k \<and> \<not> ac_used_at r \<noteq> None \<and> ac_used_at (f r) \<noteq> None) \<and> (\<forall>r. ac_id (f r) = ac_id r) \<and>
      (ok \<longrightarrow> (\<exists>r \<in> set (authorization_codes d). p r))"
    by (cases k)
       (auto simp: ConsumeAuthorizationCode_def Let_def dest: sql_count_SucD
         intro!: exI[of _ "\<lambda>c. ac_id c = fst k \<and> ac_used_at c = None \<and> ac_expires_at c > snd k"]
           exI[of _ "\<lambda>c. c\<lparr>ac_used_at := Some (snd k)\<rparr>"])
qed (rule code_other_evolves)

text \<open>
  C4. An authorization code is redeemed at most once: in any interleaving of redemptions, at any instants, with
  any other operations of the store that do not issue a second code under the same identifier, at most
  one redemption of a code succeeds, and none does once it is spent.
\<close>

theorem code_redeemed_at_most_once:
  assumes "redeem_run (\<lambda>(i, now) d. ConsumeAuthorizationCode i now d) fst (code_other i) i d n d'"
    and "distinct (map ac_id (authorization_codes d))"
  shows "n \<le> 1 \<and> ((\<forall>c \<in> set (authorization_codes d). ac_id c = i \<longrightarrow> ac_used_at c \<noteq> None) \<longrightarrow> n = 0)"
  by (rule code.rows_at_most_once[OF assms])

definition sample_code :: auth_code where
  "sample_code = \<lparr>ac_id = ''k1'', ac_code_hash = ''kh1'', ac_client_id = ''c1'', ac_user_id = ''u1'',
     ac_redirect_uri = ''https://notes.example/cb'', ac_scope = ''openid'', ac_code_challenge = ''x'',
     ac_code_challenge_method = ''S256'', ac_nonce = '''', ac_expires_at = 1060 * second, ac_used_at = None,
     ac_created_at = 0, ac_session_id = ''s1'', ac_evidence = sample_evidence, ac_authentication_expires_at = None,
     ac_auth_app_id = '''', ac_auth_policy_revision = 0, ac_role_revision = 0\<rparr>"

theorem code_redeemed_at_most_once_witness:
  "\<exists>d d'. CreateAuthorizationCode sample_code '''' sample_now sample_db = Inr d \<and>
     ConsumeAuthorizationCode ''k1'' (1001 * second) d = (True, d') \<and> \<not> fst (ConsumeAuthorizationCode ''k1'' (1002 * second) d')"
proof -
  let ?redeem = "\<lambda>(i, now). ConsumeAuthorizationCode i now"
  let ?r = "CreateAuthorizationCode sample_code '''' sample_now sample_db"
  have ok: "\<not> isl ?r" and one: "fst (ConsumeAuthorizationCode ''k1'' (1001 * second) (projr ?r))"
    and keys: "distinct (map ac_id (authorization_codes (projr ?r)))" by code_simp+
  from ok obtain d where r: "?r = Inr d" by (blast dest: succeeds)
  with one obtain d' where c: "?redeem (''k1'', 1001 * second) d = (True, d')"
    by (cases "ConsumeAuthorizationCode ''k1'' (1001 * second) d") auto
  have "\<not> fst (?redeem (''k1'', 1002 * second) d')"
  proof
    assume "fst (?redeem (''k1'', 1002 * second) d')"
    then obtain d2 where c2: "?redeem (''k1'', 1002 * second) d' = (True, d2)"
      by (cases "?redeem (''k1'', 1002 * second) d'") auto
    have "redeem_run ?redeem fst (code_other ''k1'') ''k1'' d 2 d2"
      by (rule redeem_run_two, rule c, rule c2) simp_all
    from code_redeemed_at_most_once[OF this] keys r show False by simp
  qed
  with r c show ?thesis by auto
qed

section \<open>Evidence behind a token\<close>

text \<open>
  What a code proves about the policy it was issued under: while its app still has the revision the code was
  stamped with, that policy is valid, accepted the code's evidence when the code was made, and bounds the code's own
  authentication deadline.
\<close>

definition code_proves :: "auth_code \<Rightarrow> app_row \<Rightarrow> bool" where
  "code_proves c a \<longleftrightarrow> policy_Valid (app_authentication a) \<and>
     EvidenceReason (app_authentication a) (ac_evidence c) (ac_created_at c) = '''' \<and>
     (\<forall>x. Deadline (app_authentication a) (ac_evidence c) = Some x \<longrightarrow>
        (\<exists>y. ac_authentication_expires_at c = Some y \<and> y \<le> x))"

definition stamped_by :: "auth_code \<Rightarrow> app_row \<Rightarrow> bool" where
  "stamped_by c a \<longleftrightarrow> app_client_id a = Some (ac_client_id c) \<and> app_id a = ac_auth_app_id c \<and>
     app_auth_revision a = ac_auth_policy_revision c"

definition codes_sound :: "time \<Rightarrow> db \<Rightarrow> bool" where
  "codes_sound now d \<longleftrightarrow> (\<forall>c \<in> set (authorization_codes d). ac_created_at c \<le> now \<and>
     (\<forall>a \<in> set (app_registry d). stamped_by c a \<longrightarrow> code_proves c a))"

text \<open>Operations that edit no policy: every app row that remains has the policy and revision it had.\<close>

definition policies_kept :: "db \<Rightarrow> db \<Rightarrow> bool" where
  "policies_kept d d' \<longleftrightarrow> (\<forall>a' \<in> set (app_registry d'). \<exists>a \<in> set (app_registry d). app_id a = app_id a' \<and>
     app_client_id a = app_client_id a' \<and> app_auth_revision a = app_auth_revision a' \<and> app_authentication a = app_authentication a')"

inductive code_reach :: "time \<Rightarrow> db \<Rightarrow> bool" where
  empty: "authorization_codes d = [] \<Longrightarrow> code_reach now d"
| create: "code_reach t d \<Longrightarrow> t \<le> now \<Longrightarrow> wf_keys d \<Longrightarrow> CreateAuthorizationCode code h now d = Inr d' \<Longrightarrow> code_reach now d'"
| consume: "code_reach t d \<Longrightarrow> t \<le> now \<Longrightarrow> ConsumeAuthorizationCode i now d = (b, d') \<Longrightarrow> code_reach now d'"
| policy: "code_reach t d \<Longrightarrow> t \<le> now \<Longrightarrow> wf_keys d \<Longrightarrow>
     SetAppAuthenticationPolicy render i p revision audit now d = Inr d' \<Longrightarrow> code_reach now d'"
| elsewhere: "code_reach t d \<Longrightarrow> t \<le> now \<Longrightarrow> set (authorization_codes d') \<subseteq> set (authorization_codes d) \<Longrightarrow>
     policies_kept d d' \<Longrightarrow> code_reach now d'"

lemma codes_sound_later: "codes_sound t d \<Longrightarrow> t \<le> now \<Longrightarrow> codes_sound now d"
  unfolding codes_sound_def by force

lemma codes_sound_elsewhere:
  assumes "codes_sound now d" and "set (authorization_codes d') \<subseteq> set (authorization_codes d)" and "policies_kept d d'"
  shows "codes_sound now d'"
  unfolding codes_sound_def
proof (intro ballI conjI impI)
  fix c a' assume c: "c \<in> set (authorization_codes d')" and a': "a' \<in> set (app_registry d')" and st: "stamped_by c a'"
  from a' assms(3) obtain a where a: "a \<in> set (app_registry d)" "app_id a = app_id a'" "app_client_id a = app_client_id a'"
      "app_auth_revision a = app_auth_revision a'" "app_authentication a = app_authentication a'"
    unfolding policies_kept_def by blast
  with st have "stamped_by c a" by (simp add: stamped_by_def)
  with a c assms(1,2) have "code_proves c a" unfolding codes_sound_def by blast
  with a(5) show "code_proves c a'" by (simp add: code_proves_def)
qed (use assms in \<open>auto simp: codes_sound_def\<close>)

lemma codes_sound_create:
  assumes "codes_sound now d" and "wf_keys d" and "CreateAuthorizationCode code h now d = Inr d'"
  shows "codes_sound now d'"
  using assms(3)
proof (rule CreateAuthorizationCode_InrD)
  fix code' ins
  assume c: "checkCodeAppAuthenticationTx code h now d = Inr code'"
    and d': "d' = d\<lparr>interactions := ins, authorization_codes := authorization_codes d @ [code'\<lparr>ac_used_at := None, ac_created_at := now\<rparr>]\<rparr>"
  let ?row = "code'\<lparr>ac_used_at := None, ac_created_at := now\<rparr>"
  from checkCodeAppAuthenticationTx_InrD[OF c] obtain a e aid pr rr where a: "a \<in> set (app_registry d)"
      "policy_Valid (app_authentication a)" "EvidenceReason (app_authentication a) (ac_evidence code) now = ''''"
      "ac_auth_app_id code' = app_id a"
      "\<forall>x. Deadline (app_authentication a) (ac_evidence code) = Some x \<longrightarrow> (\<exists>y. ac_authentication_expires_at code' = Some y \<and> y \<le> x)"
      and code': "code' = code\<lparr>ac_authentication_expires_at := e, ac_auth_app_id := aid, ac_auth_policy_revision := pr, ac_role_revision := rr\<rparr>"
    by blast
  then have "ac_evidence code' = ac_evidence code" by simp
  with a have "code_proves ?row a" by (simp add: code_proves_def)
  moreover have "b = a" if "b \<in> set (app_registry d)" "stamped_by ?row b" for b
    using app_unique[OF assms(2) that(1) a(1)] that(2) a(4) by (simp add: stamped_by_def)
  ultimately have "\<forall>b \<in> set (app_registry d). stamped_by ?row b \<longrightarrow> code_proves ?row b" by metis
  with assms(1) show ?thesis unfolding codes_sound_def d' by auto
qed

lemma codes_sound_consume:
  assumes "codes_sound now d" and "ConsumeAuthorizationCode i now d = (b, d')"
  shows "codes_sound now d'"
  using assms
  by (auto simp: ConsumeAuthorizationCode_def Let_def codes_sound_def sql_simps stamped_by_def code_proves_def)

lemma codes_sound_policy:
  assumes "codes_sound now d" and "wf_keys d" and "SetAppAuthenticationPolicy render i p revision audit now d = Inr d'"
  shows "codes_sound now d'"
  using assms(3)
proof (cases rule: SetAppAuthenticationPolicy_InrE)
  case (same a es)
  with assms(1) show ?thesis by (simp add: codes_sound_def)
next
  case (changed a c es)
  let ?f = "\<lambda>x. x\<lparr>app_authentication := p, app_auth_revision := app_auth_revision x + 1, app_revision := app_revision x + 1\<rparr>"
  have only: "app_client_id x = Some c" if "x \<in> set (app_registry d)" "app_id x = i" for x
    using app_unique[OF assms(2) that(1) changed(1)] that(2) changed(2,3) by simp
  have codes: "set (authorization_codes d') = {k \<in> set (authorization_codes d). ac_client_id k \<noteq> c}"
    by (simp add: changed(8) sql_simps)
  have apps: "set (app_registry d') = (\<lambda>x. if app_id x = i then ?f x else x) ` set (app_registry d)"
    by (simp add: changed(8) sql_simps)
  show ?thesis
    unfolding codes_sound_def
  proof (intro ballI conjI impI)
    fix k assume k: "k \<in> set (authorization_codes d')"
    then show "ac_created_at k \<le> now" using assms(1) codes unfolding codes_sound_def by auto
    fix b' assume b': "b' \<in> set (app_registry d')" and st: "stamped_by k b'"
    then obtain b where b: "b \<in> set (app_registry d)" "b' = (if app_id b = i then ?f b else b)" unfolding apps by auto
    have "app_client_id b = Some (ac_client_id k)" using st b(2) by (simp add: stamped_by_def split: if_splits)
    with only[OF b(1)] k codes have "app_id b \<noteq> i" by auto
    with b st have "b' = b" by simp
    with st k b(1) codes assms(1) show "code_proves k b'" unfolding codes_sound_def by auto
  qed
qed

lemma code_reach_sound: "code_reach now d \<Longrightarrow> codes_sound now d"
proof (induction rule: code_reach.induct)
  case (empty d now)
  then show ?case by (simp add: codes_sound_def)
qed (blast intro: codes_sound_later codes_sound_create codes_sound_consume codes_sound_policy codes_sound_elsewhere)+

text \<open>
  End to end: whenever a token is registered for an authorization code, the sign-in evidence behind that code
  satisfies the app's policy \<^emph>\<open>as it stands at that instant\<close>, ages included. This holds in every state
  reached by issuing and redeeming codes, editing policies, and any other operations, which may delete codes and
  apps but edit no policy.
\<close>

theorem token_evidence_is_current:
  assumes "code_reach now d" and "RecordIssuedToken t now d = Inr d'" and "tr_code_id t \<noteq> ''''"
  shows "\<exists>c \<in> set (authorization_codes d). \<exists>a \<in> set (app_registry d). ac_id c = tr_code_id t \<and>
    ac_session_id c = tr_session_id t \<and> ac_user_id c = tr_user_id t \<and> app_client_id a = Some (tr_client_id t) \<and>
    policy_Valid (app_authentication a) \<and> EvidenceReason (app_authentication a) (ac_evidence c) now = ''''"
proof -
  from assms(2) have "issuance_permitted t now d"
    unfolding RecordIssuedToken_def by (rule recordIssuedTokenTx_InrD(1))
  with assms(3) obtain c a where ca: "c \<in> set (authorization_codes d)" "a \<in> set (app_registry d)" "stamped_by c a"
      "ac_id c = tr_code_id t" "ac_session_id c = tr_session_id t" "ac_client_id c = tr_client_id t" "ac_user_id c = tr_user_id t"
      and dl: "case ac_authentication_expires_at c of None \<Rightarrow> True | Some e \<Rightarrow> now \<le> e"
    unfolding issuance_permitted_def code_backs_def stamped_by_def by blast
  from code_reach_sound[OF assms(1)] ca have pr: "code_proves c a" and le: "ac_created_at c \<le> now"
    unfolding codes_sound_def by blast+
  have "case Deadline (app_authentication a) (ac_evidence c) of None \<Rightarrow> True | Some x \<Rightarrow> now \<le> x"
    using pr dl unfolding code_proves_def by (auto split: option.splits)
  then have "EvidenceReason (app_authentication a) (ac_evidence c) now = ''''"
    using evidence_deadline_iff[of "app_authentication a" "ac_evidence c" "ac_created_at c" now] pr le
    by (simp add: code_proves_def)
  with pr ca show ?thesis unfolding code_proves_def stamped_by_def by auto
qed

theorem token_evidence_is_current_witness:
  "\<exists>d1 d2 d3. CreateAuthorizationCode sample_code '''' sample_now sample_db = Inr d1 \<and>
     ConsumeAuthorizationCode ''k1'' (1001 * second) d1 = (True, d2) \<and>
     RecordIssuedToken (sample_token\<lparr>tr_code_id := ''k1''\<rparr>) (1002 * second) d2 = Inr d3 \<and>
     (\<exists>c \<in> set (authorization_codes d2). \<exists>a \<in> set (app_registry d2). ac_id c = ''k1'' \<and>
        EvidenceReason (app_authentication a) (ac_evidence c) (1002 * second) = '''')"
proof -
  let ?r1 = "CreateAuthorizationCode sample_code '''' sample_now sample_db"
  let ?r2 = "ConsumeAuthorizationCode ''k1'' (1001 * second) (projr ?r1)"
  let ?t = "sample_token\<lparr>tr_code_id := ''k1''\<rparr>"
  have "\<not> isl ?r1" "fst ?r2" "\<not> isl (RecordIssuedToken ?t (1002 * second) (snd ?r2))" by code_simp+
  note run = this
  from run(1) obtain d1 where r1: "?r1 = Inr d1" by (blast dest: succeeds)
  with run(2) obtain d2 where r2: "ConsumeAuthorizationCode ''k1'' (1001 * second) d1 = (True, d2)"
    by (cases "ConsumeAuthorizationCode ''k1'' (1001 * second) d1") auto
  with run(3) r1 have "\<not> isl (RecordIssuedToken ?t (1002 * second) d2)" by simp
  then obtain d3 where r3: "RecordIssuedToken ?t (1002 * second) d2 = Inr d3" by (blast dest: succeeds)
  note r = r1 r2 r3
  have "code_reach sample_now sample_db" by (rule code_reach.empty) (simp add: sample_defs)
  from code_reach.create[OF this order.refl sample_wf_keys r(1)] have "code_reach sample_now d1" .
  moreover have "sample_now \<le> 1001 * second" by (simp add: sample_now_def)
  ultimately have "code_reach (1001 * second) d2" using r(2) by (rule code_reach.consume)
  then have "code_reach (1002 * second) d2"
    by (rule code_reach.elsewhere) (auto simp: policies_kept_def)
  from token_evidence_is_current[OF this r(3)] r show ?thesis by (auto simp: sample_token_def)
qed

text \<open>
  Editing an app's authentication policy to anything else ends every grant made under the old one: no code, no
  pending interaction and no unrevoked token of its client is left, the policy revision moves on so that nothing
  bound to the old one can be issued, and refresh can only be enabled for a confidential client.
\<close>

theorem policy_edit_ends_grants:
  assumes "SetAppAuthenticationPolicy render i p revision audit now d = Inr d'" and "wf_keys d"
    and "a \<in> set (app_registry d)" and "app_id a = i" and "app_client_id a = Some c" and "app_authentication a \<noteq> p"
  shows "policy_Valid p \<and> revision = app_revision a \<and>
    (\<exists>a' \<in> set (app_registry d'). app_id a' = i \<and> app_client_id a' = Some c \<and> app_authentication a' = p \<and>
       app_auth_revision a' = app_auth_revision a + 1) \<and>
    (\<forall>k \<in> set (authorization_codes d'). ac_client_id k \<noteq> c) \<and> (\<forall>x \<in> set (interactions d'). ai_client_id x \<noteq> c) \<and>
    (\<forall>t \<in> set (issued_tokens d'). it_client_id t = c \<longrightarrow> it_revoked_at t \<noteq> None) \<and>
    (RefreshEnabled p \<longrightarrow> (\<exists>x \<in> set (oauth_clients d'). oc_id x = c \<and> oc_client_type x = Confidential))"
proof -
  obtain es where ch: "policy_Valid p" "app_revision a = revision"
      "RefreshEnabled p \<longrightarrow> (\<exists>x \<in> set (oauth_clients d). oc_id x = c \<and> oc_client_type x = Confidential)"
      "d' = d\<lparr>app_registry := sql_update (\<lambda>x. app_id x = i) (\<lambda>x. x\<lparr>app_authentication := p,
                   app_auth_revision := app_auth_revision x + 1, app_revision := app_revision x + 1\<rparr>) (app_registry d),
                 interactions := sql_delete (\<lambda>x. ai_client_id x = c) (interactions d),
                 authorization_codes := sql_delete (\<lambda>x. ac_client_id x = c) (authorization_codes d),
                 issued_tokens := sql_update (\<lambda>t. it_client_id t = c \<and> it_revoked_at t = None)
                   (\<lambda>t. t\<lparr>it_revoked_at := Some now\<rparr>) (issued_tokens d), audit_events := es\<rparr>"
    using SetAppAuthenticationPolicy_changed[OF assms] by blast
  let ?a = "a\<lparr>app_authentication := p, app_auth_revision := app_auth_revision a + 1, app_revision := app_revision a + 1\<rparr>"
  have "?a \<in> set (app_registry d')"
    using assms(3,4) by (auto simp: ch(4) sql_simps intro: image_eqI[of _ _ a])
  moreover have "\<forall>t \<in> set (issued_tokens d'). it_client_id t = c \<longrightarrow> it_revoked_at t \<noteq> None"
    by (auto simp: ch(4) sql_simps)
  moreover have "app_id ?a = i" "app_client_id ?a = Some c" "app_authentication ?a = p"
      "app_auth_revision ?a = app_auth_revision a + 1" using assms(4,5) by simp_all
  moreover have "\<forall>k \<in> set (authorization_codes d'). ac_client_id k \<noteq> c" "\<forall>x \<in> set (interactions d'). ai_client_id x \<noteq> c"
      "oauth_clients d' = oauth_clients d" by (simp_all add: ch(4) sql_simps)
  ultimately show ?thesis using ch(1-3) by metis
qed

theorem policy_edit_ends_grants_witness:
  "\<exists>d'. SetAppAuthenticationPolicy (\<lambda>_. JNull) ''a1'' (sample_policy\<lparr>ap_factor_max_age := 0\<rparr>) 1 None sample_now sample_db = Inr d' \<and>
     (\<exists>a' \<in> set (app_registry d'). app_auth_revision a' = 2)"
proof -
  let ?p = "sample_policy\<lparr>ap_factor_max_age := 0\<rparr>"
  have "\<not> isl (SetAppAuthenticationPolicy (\<lambda>_. JNull) ''a1'' ?p 1 None sample_now sample_db)" by code_simp
  then obtain d' where r: "SetAppAuthenticationPolicy (\<lambda>_. JNull) ''a1'' ?p 1 None sample_now sample_db = Inr d'" by (blast dest: succeeds)
  have a: "sample_app \<in> set (app_registry sample_db)" "app_id sample_app = ''a1''" "app_client_id sample_app = Some ''c1''"
    by (simp_all add: sample_db_def sample_app_def)
  have ne: "app_authentication sample_app \<noteq> ?p" by (simp add: sample_app_def sample_policy_def)
  from policy_edit_ends_grants[OF r sample_wf_keys a ne] r show ?thesis by (auto simp: sample_app_def)
qed

section \<open>Bounds on pending authorizations\<close>

definition interactions_bounded :: "interaction list \<Rightarrow> bool" where
  "interactions_bounded t \<longleftrightarrow> length t \<le> 10000 \<and> (\<forall>b. sql_count (\<lambda>x. ai_browser_hash x = b) t \<le> 10) \<and>
     (\<forall>u. u \<noteq> '''' \<longrightarrow> sql_count (\<lambda>x. ai_user_id x = u) t \<le> 10) \<and>
     (\<forall>x \<in> set t. ai_session_id x \<noteq> '''' \<longrightarrow> ai_user_id x \<noteq> '''')"

lemma sql_count_filter_le: "sql_count p (filter q t) \<le> sql_count p t"
  by (induction t) auto

lemma interactions_bounded_filter:
  assumes "interactions_bounded t"
  shows "interactions_bounded (filter q t)"
  using assms sql_count_filter_le[of _ q t] length_filter_le[of q t]
  unfolding interactions_bounded_def by (metis filter_is_subset le_trans subsetD)

lemma interactions_bounded_delete: "interactions_bounded t \<Longrightarrow> interactions_bounded (sql_delete q t)"
  unfolding sql_delete_def by (rule interactions_bounded_filter)

lemma adopt_account_noop: "interactions_bounded t \<Longrightarrow> adopt_account d t = t"
  unfolding adopt_account_def interactions_bounded_def by (intro map_idI) auto

lemma repair_filters:
  assumes "interactions_bounded t"
  shows "\<exists>q. repairAuthorizationAccounts d t = filter q t"
  unfolding repairAuthorizationAccounts_def Let_def adopt_account_noop[OF assms] sql_delete_def filter_filter
  by (rule exI, rule refl)

lemma ranked_before_irrefl: "\<not> ranked_before x x"
  by (simp add: ranked_before_def)

lemma sql_count_less: "x \<in> set t \<Longrightarrow> p x \<Longrightarrow> \<not> q x \<Longrightarrow> (\<And>y. q y \<Longrightarrow> p y) \<Longrightarrow> sql_count q t < sql_count p t"
proof (induction t)
  case (Cons a t)
  have "sql_count q t \<le> sql_count p t" using Cons.prems(4) by (induction t) auto
  with Cons show ?case by auto
qed simp

text \<open>A request an account owns, and whose session if any still exists, is never evicted.\<close>

lemma repair_keeps:
  assumes "interactions_bounded t" and "x \<in> set t" and "ai_user_id x \<noteq> ''''"
    and "ai_session_id x = '''' \<or> (\<exists>s \<in> set (sessions d). ses_id s = ai_session_id x)"
  shows "x \<in> set (repairAuthorizationAccounts d t)"
proof -
  let ?t2 = "sql_delete (\<lambda>i. ai_session_id i \<noteq> '''' \<and> \<not> (\<exists>s \<in> set (sessions d). ses_id s = ai_session_id i)) t"
  have x: "x \<in> set ?t2" using assms by (auto simp: sql_simps)
  have "sql_count (\<lambda>j. ai_user_id j = ai_user_id x \<and> ranked_before j x) ?t2 < sql_count (\<lambda>j. ai_user_id j = ai_user_id x) ?t2"
    by (rule sql_count_less[OF x]) (auto simp: ranked_before_irrefl)
  also have "\<dots> \<le> 10"
    using interactions_bounded_delete[OF assms(1)] assms(3) unfolding interactions_bounded_def by blast
  finally show ?thesis
    using x by (simp add: repairAuthorizationAccounts_def Let_def adopt_account_noop[OF assms(1)] sql_simps)
qed

lemma reclaim_keeps: "x \<in> set t \<Longrightarrow> distinct (map ai_hash t) \<Longrightarrow> ai_user_id x \<noteq> '''' \<Longrightarrow> x \<in> set (reclaim_anonymous t)"
proof -
  assume x: "x \<in> set t" and dist: "distinct (map ai_hash t)" and own: "ai_user_id x \<noteq> ''''"
  have "ai_hash x \<noteq> ai_hash y" if "y \<in> set (take n (sort_key ai_created_at (sort_key ai_hash
      (filter (\<lambda>i. ai_session_id i = '''' \<and> ai_user_id i = '''') t))))" for y n
  proof -
    from in_set_takeD[OF that] have y: "y \<in> set t" "ai_user_id y = ''''" by auto
    with key_unique[OF dist x y(1)] own show ?thesis by auto
  qed
  with x show ?thesis by (auto simp: reclaim_anonymous_def Let_def sql_simps)
qed

text \<open>
  Pending authorizations stay bounded without one caller pushing out another: with at most ten per browser, ten
  per account and ten thousand in all beforehand, opening one more keeps those bounds, and whatever is evicted to
  make room is never an unexpired request owned by an account whose session is still there.
\<close>

theorem interactions_stay_bounded:
  assumes "CreateAuthorizationInteraction i now d = Inr d'" and "interactions_bounded (interactions d)"
    and "distinct (map ai_hash (interactions d))"
  shows "interactions_bounded (interactions d') \<and> distinct (map ai_hash (interactions d')) \<and>
    i\<lparr>ai_session_id := ''''\<rparr> \<in> set (interactions d') \<and>
    (\<forall>x \<in> set (interactions d). now < ai_expires_at x \<longrightarrow> ai_user_id x \<noteq> '''' \<longrightarrow>
       (ai_session_id x = '''' \<or> (\<exists>s \<in> set (sessions d). ses_id s = ai_session_id x)) \<longrightarrow> x \<in> set (interactions d'))"
proof -
  let ?t1 = "sql_delete (\<lambda>x. ai_expires_at x \<le> now) (interactions d)"
  let ?t2 = "if length ?t1 \<ge> 10000 then repairAuthorizationAccounts d ?t1 else ?t1"
  let ?t3 = "reclaim_anonymous ?t2"
  let ?i = "i\<lparr>ai_session_id := ''''\<rparr>"
  from assms(1) have adm: "sql_count (\<lambda>x. ai_browser_hash x = ai_browser_hash i) ?t3 < 10"
      "ai_user_id i = '''' \<or> sql_count (\<lambda>x. ai_user_id x = ai_user_id i) ?t3 < 10" "length ?t3 < 10000"
      and new: "\<forall>x \<in> set ?t3. ai_hash x \<noteq> ai_hash i" and d': "d' = d\<lparr>interactions := sql_insert ?i ?t3\<rparr>"
    by (auto simp: CreateAuthorizationInteraction_def Let_def result_iffs)
  have b1: "interactions_bounded ?t1" by (rule interactions_bounded_delete[OF assms(2)])
  have k1: "distinct (map ai_hash ?t1)" by (rule distinct_sql_delete[OF assms(3)])
  from repair_filters[OF b1] obtain q where q: "repairAuthorizationAccounts d ?t1 = filter q ?t1" by blast
  have b2: "interactions_bounded ?t2" using b1 interactions_bounded_filter[OF b1, of q] q by simp
  have k2: "distinct (map ai_hash ?t2)" using k1 distinct_map_filter[OF k1, of q] q by simp
  have b3: "interactions_bounded ?t3" unfolding reclaim_anonymous_def Let_def by (rule interactions_bounded_delete[OF b2])
  have k3: "distinct (map ai_hash ?t3)" unfolding reclaim_anonymous_def Let_def by (rule distinct_sql_delete[OF k2])
  have count: "sql_count p (sql_insert ?i ?t3) = sql_count p ?t3 + (if p ?i then 1 else 0)" for p
    by (simp add: sql_insert_def sql_count_def)
  have "interactions_bounded (sql_insert ?i ?t3)"
    using b3 adm unfolding interactions_bounded_def count by (auto simp: sql_simps sql_insert_def)
  moreover have "distinct (map ai_hash (sql_insert ?i ?t3))" using k3 new by (auto simp: sql_insert_def)
  moreover have "x \<in> set ?t3" if "x \<in> set (interactions d)" "now < ai_expires_at x" "ai_user_id x \<noteq> ''''"
      "ai_session_id x = '''' \<or> (\<exists>s \<in> set (sessions d). ses_id s = ai_session_id x)" for x
  proof -
    have "x \<in> set ?t1" using that by (simp add: sql_simps)
    then have "x \<in> set ?t2" using repair_keeps[OF b1 _ that(3,4)] by simp
    then show ?thesis by (rule reclaim_keeps[OF _ k2 that(3)])
  qed
  ultimately show ?thesis by (auto simp: d' sql_simps)
qed

theorem interactions_stay_bounded_witness:
  "\<exists>d'. CreateAuthorizationInteraction sample_interaction sample_now sample_db = Inr d' \<and> interactions_bounded (interactions d')"
proof -
  have "\<not> isl (CreateAuthorizationInteraction sample_interaction sample_now sample_db)"
    by (simp add: CreateAuthorizationInteraction_def reclaim_anonymous_def sample_defs Let_def)
  then obtain d' where r: "CreateAuthorizationInteraction sample_interaction sample_now sample_db = Inr d'" by (blast dest: succeeds)
  have "interactions_bounded (interactions sample_db)" "distinct (map ai_hash (interactions sample_db))"
    by (simp_all add: interactions_bounded_def sample_defs)
  from interactions_stay_bounded[OF r this] r show ?thesis by blast
qed

end
