(* ===== verification/Ky_Refresh.thy ===== *)
theory Ky_Refresh
  imports Ky_Tokens
begin

text \<open>
  Refresh tokens (\<^verbatim>\<open>internal/store/refresh_tokens.go\<close>). A family is a row of the token registry, so every
  revocation reaches it; its tokens rotate, one usable at a time, and showing a spent one ends the family.
\<close>

record refresh_family =
  fam_jti :: string
  fam_user_id :: string
  fam_client_id :: string
  fam_session_id :: string
  fam_scope :: string
  fam_evidence :: evidence
  fam_policy :: policy_binding
  fam_idle :: duration
  fam_expires_at :: time

definition insertRefreshTokenTx :: "refresh_family \<Rightarrow> string \<Rightarrow> time \<Rightarrow> db \<Rightarrow> err + db" where
  "insertRefreshTokenTx f tokenHash now d =
     (let expires = (if fam_expires_at f < now + fam_idle f then fam_expires_at f else now + fam_idle f)
      in andthen (ensure (\<not> (\<exists>r \<in> set (refresh_tokens d). rt_token_hash r = tokenHash)) ErrUnique) (\<lambda>_.
         Inr (d\<lparr>refresh_tokens := sql_insert \<lparr>rt_token_hash = tokenHash, rt_family_jti = fam_jti f, rt_expires_at = expires,
            rt_used_at = None, rt_created_at = now\<rparr> (refresh_tokens d)\<rparr>)))"

definition CreateRefreshFamily :: "refresh_family \<Rightarrow> string \<Rightarrow> string \<Rightarrow> time \<Rightarrow> db \<Rightarrow> err + db" where
  "CreateRefreshFamily f authorizationCodeID tokenHash now d =
     andthen (recordIssuedTokenTx \<lparr>tr_code_id = authorizationCodeID, tr_policy = no_policy, tr_device = no_device,
        tr_family_jti = '''', tr_session_id = fam_session_id f, tr_jti = fam_jti f, tr_user_id = fam_user_id f,
        tr_client_id = fam_client_id f, tr_expires_at = fam_expires_at f\<rparr> now d) (\<lambda>d1.
     andthen (ensure (\<not> (\<exists>x \<in> set (refresh_families d1). rf_jti x = fam_jti f)) ErrUnique) (\<lambda>_.
     andthen (ensure (fam_idle f div second > 0) ErrCheck) (\<lambda>_.
     insertRefreshTokenTx f tokenHash now (d1\<lparr>refresh_families := sql_insert \<lparr>rf_jti = fam_jti f, rf_scope = fam_scope f,
        rf_evidence = fam_evidence f, rf_policy = fam_policy f, rf_idle_seconds = fam_idle f div second\<rparr>
        (refresh_families d1)\<rparr>))))"

text \<open>The join behind a token: its row, its family and the registry row of the family.\<close>

definition refresh_join :: "string \<Rightarrow> db \<Rightarrow> (refresh_token \<times> refresh_family_row \<times> issued_token) option" where
  "refresh_join tokenHash d =
     (case sql_first (\<lambda>r. rt_token_hash r = tokenHash) (refresh_tokens d) of
        None \<Rightarrow> None
      | Some r \<Rightarrow>
         (case (sql_first (\<lambda>f. rf_jti f = rt_family_jti r) (refresh_families d),
                sql_first (\<lambda>t. it_jti t = rt_family_jti r) (issued_tokens d)) of
            (Some f, Some t) \<Rightarrow> Some (r, f, t)
          | _ \<Rightarrow> None))"

definition scanRefreshFamily :: "refresh_family_row \<Rightarrow> issued_token \<Rightarrow> refresh_family" where
  "scanRefreshFamily f t =
     \<lparr>fam_jti = rf_jti f, fam_user_id = it_user_id t, fam_client_id = it_client_id t,
      fam_session_id = (case it_session_id t of None \<Rightarrow> '''' | Some s \<Rightarrow> s), fam_scope = rf_scope f,
      fam_evidence = rf_evidence f, fam_policy = rf_policy f, fam_idle = wrap64 (rf_idle_seconds f * second),
      fam_expires_at = it_expires_at t\<rparr>"

definition LookupRefreshFamily :: "string \<Rightarrow> db \<Rightarrow> err + refresh_family" where
  "LookupRefreshFamily tokenHash d =
     (case refresh_join tokenHash d of None \<Rightarrow> Inl ErrRefreshInvalid | Some (_, f, t) \<Rightarrow> Inr (scanRefreshFamily f t))"

definition revokeRefreshFamilyTx :: "string \<Rightarrow> time \<Rightarrow> db \<Rightarrow> db" where
  "revokeRefreshFamilyTx jti now d =
     d\<lparr>issued_tokens := sql_update (\<lambda>t. (it_jti t = jti \<or> it_family_jti t = Some jti) \<and> it_revoked_at t = None)
        (\<lambda>t. t\<lparr>it_revoked_at := Some now\<rparr>) (issued_tokens d)\<rparr>"

text \<open>
  The rotation proper, once the token is found usable. Its transaction commits only as a whole.
\<close>

definition rotate_usable :: "refresh_family \<Rightarrow> string \<Rightarrow> string \<Rightarrow> token_request \<Rightarrow> time \<Rightarrow> db \<Rightarrow> err + db" where
  "rotate_usable f oldHash newHash access now d =
     (let l = SessionLimits d;
          active = (\<lambda>s. ses_id s = fam_session_id f \<and> ses_last_active_at s > now - IdleTTL l
                        \<and> ses_created_at s > now - AbsoluteTTL l);
          d1 = d\<lparr>sessions := sql_update active (\<lambda>s. s\<lparr>ses_last_active_at := now\<rparr>) (sessions d)\<rparr>;
          d2 = d1\<lparr>refresh_tokens := sql_update (\<lambda>r. rt_token_hash r = oldHash \<and> rt_used_at r = None)
                 (\<lambda>r. r\<lparr>rt_used_at := Some now\<rparr>) (refresh_tokens d1)\<rparr>;
          access' = access\<lparr>tr_policy := fam_policy f, tr_family_jti := fam_jti f, tr_session_id := fam_session_id f,
                 tr_user_id := fam_user_id f, tr_client_id := fam_client_id f,
                 tr_expires_at := (if fam_expires_at f < tr_expires_at access then fam_expires_at f else tr_expires_at access)\<rparr>
      in andthen (ensure (sql_count active (sessions d) = 1) ErrRefreshInvalid) (\<lambda>_.
         andthen (case recordIssuedTokenTx access' now d2 of
                    Inl e \<Rightarrow> Inl (if e = ErrAppAccessDenied then ErrRefreshInvalid else e)
                  | Inr d3 \<Rightarrow> Inr d3) (\<lambda>d3.
         insertRefreshTokenTx f newHash now d3)))"

text \<open>
  The only operation that commits while it reports an error: a reuse revokes the family. Every other
  error leaves the database as it was.
\<close>

definition RotateRefreshToken ::
    "string \<Rightarrow> string \<Rightarrow> string \<Rightarrow> token_request \<Rightarrow> time \<Rightarrow> db \<Rightarrow> (err + refresh_family) \<times> db" where
  "RotateRefreshToken oldHash clientID newHash access now d =
     (case refresh_join oldHash d of
        None \<Rightarrow> (Inl ErrRefreshInvalid, d)
      | Some (r, fr, t) \<Rightarrow>
         (let f = scanRefreshFamily fr t
          in if rt_used_at r \<noteq> None \<or> fam_client_id f \<noteq> clientID
             then (Inl ErrRefreshReuse, revokeRefreshFamilyTx (fam_jti f) now d)
             else if it_revoked_at t \<noteq> None \<or> \<not> rt_expires_at r > now \<or> \<not> fam_expires_at f > now
             then (Inl ErrRefreshInvalid, d)
             else case rotate_usable f oldHash newHash access now d of
                    Inl e \<Rightarrow> (Inl e, d)
                  | Inr d' \<Rightarrow> (Inr f, d')))"

definition RevokeRefreshFamily :: "string \<Rightarrow> string \<Rightarrow> time \<Rightarrow> db \<Rightarrow> db" where
  "RevokeRefreshFamily tokenHash clientID now d =
     (case sql_first (\<lambda>r. rt_token_hash r = tokenHash) (refresh_tokens d) of
        None \<Rightarrow> d
      | Some r \<Rightarrow>
         (case sql_first (\<lambda>t. it_jti t = rt_family_jti r \<and> it_client_id t = clientID) (issued_tokens d) of
            None \<Rightarrow> d
          | Some t \<Rightarrow> revokeRefreshFamilyTx (it_jti t) now d))"

section \<open>The shape of a family\<close>

lemma refresh_join_SomeD:
  assumes "refresh_join h d = Some (r, f, t)"
  shows "r \<in> set (refresh_tokens d)" "rt_token_hash r = h" "f \<in> set (refresh_families d)" "rf_jti f = rt_family_jti r"
    "t \<in> set (issued_tokens d)" "it_jti t = rt_family_jti r"
  using assms by (auto simp: refresh_join_def split: option.splits dest!: find_SomeD)

definition refresh_ok :: "db \<Rightarrow> bool" where
  "refresh_ok d \<longleftrightarrow>
     distinct (map it_jti (issued_tokens d)) \<and> distinct (map rf_jti (refresh_families d)) \<and>
     distinct (map rt_token_hash (refresh_tokens d)) \<and>
     (\<forall>r \<in> set (refresh_tokens d). rt_family_jti r \<in> rf_jti ` set (refresh_families d)) \<and>
     (\<forall>f \<in> set (refresh_families d). rf_jti f \<in> it_jti ` set (issued_tokens d)) \<and>
     (\<forall>r \<in> set (refresh_tokens d). \<forall>t \<in> set (issued_tokens d). it_jti t = rt_family_jti r \<longrightarrow> rt_expires_at r \<le> it_expires_at t) \<and>
     (\<forall>r \<in> set (refresh_tokens d). \<forall>s \<in> set (refresh_tokens d). rt_family_jti r = rt_family_jti s \<longrightarrow>
        rt_used_at r = None \<longrightarrow> rt_used_at s = None \<longrightarrow> r = s)"

text \<open>An operation that keeps the refresh tables and, of the registry, which tokens there are and when they expire.\<close>

definition registry_kept :: "db \<Rightarrow> db \<Rightarrow> bool" where
  "registry_kept d d' \<longleftrightarrow> refresh_tokens d' = refresh_tokens d \<and> refresh_families d' = refresh_families d \<and>
     map (\<lambda>t. (it_jti t, it_expires_at t)) (issued_tokens d') = map (\<lambda>t. (it_jti t, it_expires_at t)) (issued_tokens d)"

lemma refresh_ok_kept:
  assumes "registry_kept d d'" and "refresh_ok d"
  shows "refresh_ok d'"
proof -
  let ?k = "\<lambda>t. (it_jti t, it_expires_at t)"
  have ts: "map ?k (issued_tokens d') = map ?k (issued_tokens d)" using assms(1) by (simp add: registry_kept_def)
  have "map it_jti (issued_tokens d') = map it_jti (issued_tokens d)"
    using arg_cong[OF ts, of "map fst"] by (simp add: comp_def)
  moreover have "(\<forall>t \<in> set (issued_tokens d'). it_jti t = j \<longrightarrow> e \<le> it_expires_at t) \<longleftrightarrow>
      (\<forall>t \<in> set (issued_tokens d). it_jti t = j \<longrightarrow> e \<le> it_expires_at t)" for j e
  proof -
    have "?k ` set (issued_tokens d') = ?k ` set (issued_tokens d)" using arg_cong[OF ts, of set] by simp
    then have "(\<forall>p \<in> ?k ` set (issued_tokens d'). fst p = j \<longrightarrow> e \<le> snd p) \<longleftrightarrow> (\<forall>p \<in> ?k ` set (issued_tokens d). fst p = j \<longrightarrow> e \<le> snd p)"
      by simp
    then show ?thesis by simp
  qed
  moreover from calculation(1) have "it_jti ` set (issued_tokens d') = it_jti ` set (issued_tokens d)"
    using arg_cong[of _ _ set] by (metis set_map)
  ultimately show ?thesis
    using assms unfolding refresh_ok_def registry_kept_def by simp
qed

lemma registry_kept_revoke: "registry_kept d (revokeRefreshFamilyTx jti now d)"
  by (simp add: registry_kept_def revokeRefreshFamilyTx_def map_sql_update)

lemma insertRefreshTokenTx_InrD:
  assumes "insertRefreshTokenTx f h now d = Inr d'"
  shows "h \<notin> rt_token_hash ` set (refresh_tokens d)"
    and "\<exists>r. d' = d\<lparr>refresh_tokens := refresh_tokens d @ [r]\<rparr> \<and> rt_token_hash r = h \<and> rt_family_jti r = fam_jti f \<and>
      rt_used_at r = None \<and> rt_expires_at r = min (fam_expires_at f) (now + fam_idle f)"
proof -
  let ?r = "\<lparr>rt_token_hash = h, rt_family_jti = fam_jti f, rt_expires_at = min (fam_expires_at f) (now + fam_idle f),
      rt_used_at = None, rt_created_at = now\<rparr>"
  from assms have new: "\<forall>r \<in> set (refresh_tokens d). rt_token_hash r \<noteq> h"
      and d': "d' = d\<lparr>refresh_tokens := refresh_tokens d @ [?r]\<rparr>"
    by (auto simp: insertRefreshTokenTx_def Let_def result_iffs sql_insert_def min_def)
  from new show "h \<notin> rt_token_hash ` set (refresh_tokens d)" by blast
  from d' show "\<exists>r. d' = d\<lparr>refresh_tokens := refresh_tokens d @ [r]\<rparr> \<and> rt_token_hash r = h \<and> rt_family_jti r = fam_jti f \<and>
      rt_used_at r = None \<and> rt_expires_at r = min (fam_expires_at f) (now + fam_idle f)"
    by (intro exI[of _ ?r]) simp
qed

lemma refresh_ok_record:
  assumes "recordIssuedTokenTx t now d = Inr d'" and "refresh_ok d"
  shows "refresh_ok d'"
proof -
  from recordIssuedTokenTx_InrD(3)[OF assms(1)] obtain row where d': "d' = d\<lparr>issued_tokens := issued_tokens d @ [row]\<rparr>"
      and "it_jti row = tr_jti t" by blast
  moreover have "tr_jti t \<notin> it_jti ` set (issued_tokens d)" by (rule recordIssuedTokenTx_InrD(2)[OF assms(1)])
  moreover have "rt_family_jti r \<noteq> tr_jti t" if "r \<in> set (refresh_tokens d)" for r
    using that assms(2) calculation(3) unfolding refresh_ok_def by (auto simp: image_iff) (metis)
  ultimately show ?thesis using assms(2) unfolding refresh_ok_def by auto
qed

text \<open>Adding a token to a family that has no unspent one.\<close>

lemma refresh_ok_insert:
  assumes "insertRefreshTokenTx f h now d = Inr d'" and "refresh_ok d"
    and "fam_jti f \<in> rf_jti ` set (refresh_families d)"
    and "\<And>t. t \<in> set (issued_tokens d) \<Longrightarrow> it_jti t = fam_jti f \<Longrightarrow> it_expires_at t = fam_expires_at f"
    and "\<And>r. r \<in> set (refresh_tokens d) \<Longrightarrow> rt_family_jti r = fam_jti f \<Longrightarrow> rt_used_at r \<noteq> None"
  shows "refresh_ok d'"
proof -
  from insertRefreshTokenTx_InrD(2)[OF assms(1)] obtain r where d': "d' = d\<lparr>refresh_tokens := refresh_tokens d @ [r]\<rparr>"
      and r: "rt_token_hash r = h" "rt_family_jti r = fam_jti f" "rt_used_at r = None"
        "rt_expires_at r = min (fam_expires_at f) (now + fam_idle f)" by blast
  have "distinct (map rt_token_hash (refresh_tokens d'))"
    using assms(2) insertRefreshTokenTx_InrD(1)[OF assms(1)] r(1) by (simp add: d' refresh_ok_def)
  moreover have "\<forall>x \<in> set (refresh_tokens d'). \<forall>t \<in> set (issued_tokens d'). it_jti t = rt_family_jti x \<longrightarrow> rt_expires_at x \<le> it_expires_at t"
    using assms(2,4) r by (auto simp: d' refresh_ok_def)
  moreover have "\<forall>x \<in> set (refresh_tokens d'). \<forall>y \<in> set (refresh_tokens d'). rt_family_jti x = rt_family_jti y \<longrightarrow>
        rt_used_at x = None \<longrightarrow> rt_used_at y = None \<longrightarrow> x = y"
  proof (intro ballI impI)
    fix x y assume xy: "x \<in> set (refresh_tokens d')" "y \<in> set (refresh_tokens d')" "rt_family_jti x = rt_family_jti y"
      "rt_used_at x = None" "rt_used_at y = None"
    have new: "z = r" if "z \<in> set (refresh_tokens d')" "rt_used_at z = None" "rt_family_jti z = fam_jti f" for z
      using that assms(5)[of z] by (auto simp: d')
    have old: "z \<in> set (refresh_tokens d)" if "z \<in> set (refresh_tokens d')" "z \<noteq> r" for z using that by (simp add: d')
    show "x = y"
    proof (cases "rt_family_jti x = fam_jti f")
      case True
      then show ?thesis using new[OF xy(1,4)] new[OF xy(2,5)] xy(3) by simp
    next
      case False
      with xy(3) r(2) have "x \<noteq> r" "y \<noteq> r" by auto
      with old xy assms(2) show ?thesis unfolding refresh_ok_def by blast
    qed
  qed
  ultimately show ?thesis
    using assms(2,3) r(2) unfolding refresh_ok_def by (simp add: d')
qed

section \<open>A successful rotation\<close>

lemma RotateRefreshToken_InrE:
  assumes "RotateRefreshToken oldHash clientID newHash access now d = (Inr f, d')"
  obtains r fr t where "refresh_join oldHash d = Some (r, fr, t)" "f = scanRefreshFamily fr t" "rt_used_at r = None"
    "it_client_id t = clientID" "it_revoked_at t = None" "now < rt_expires_at r" "now < it_expires_at t"
    "rotate_usable f oldHash newHash access now d = Inr d'"
proof -
  from assms obtain r fr t where j: "refresh_join oldHash d = Some (r, fr, t)"
    by (auto simp: RotateRefreshToken_def split: option.splits)
  have fam: "fam_client_id (scanRefreshFamily fr t) = it_client_id t" "fam_expires_at (scanRefreshFamily fr t) = it_expires_at t"
    by (simp_all add: scanRefreshFamily_def)
  show thesis
    using assms by (intro that[OF j]) (auto simp: RotateRefreshToken_def j Let_def fam split: if_splits sum.splits)
qed

lemma rotate_usable_InrE:
  assumes "rotate_usable f oldHash newHash access now d = Inr d'"
  obtains ss d3 access' where
    "recordIssuedTokenTx access' now (d\<lparr>sessions := ss, refresh_tokens := sql_update (\<lambda>r. rt_token_hash r = oldHash \<and> rt_used_at r = None)
        (\<lambda>r. r\<lparr>rt_used_at := Some now\<rparr>) (refresh_tokens d)\<rparr>) = Inr d3"
    "insertRefreshTokenTx f newHash now d3 = Inr d'"
    "ss = sql_update (\<lambda>s. ses_id s = fam_session_id f \<and> ses_last_active_at s > now - IdleTTL (SessionLimits d)
        \<and> ses_created_at s > now - AbsoluteTTL (SessionLimits d)) (\<lambda>s. s\<lparr>ses_last_active_at := now\<rparr>) (sessions d)"
    "\<exists>s \<in> set (sessions d). ses_id s = fam_session_id f \<and> ses_last_active_at s > now - IdleTTL (SessionLimits d)
        \<and> ses_created_at s > now - AbsoluteTTL (SessionLimits d)"
    "tr_jti access' = tr_jti access" "tr_family_jti access' = fam_jti f" "tr_session_id access' = fam_session_id f"
    "tr_user_id access' = fam_user_id f" "tr_client_id access' = fam_client_id f" "tr_policy access' = fam_policy f"
    "tr_expires_at access' = min (fam_expires_at f) (tr_expires_at access)"
proof -
  let ?active = "\<lambda>s. ses_id s = fam_session_id f \<and> ses_last_active_at s > now - IdleTTL (SessionLimits d)
      \<and> ses_created_at s > now - AbsoluteTTL (SessionLimits d)"
  let ?access = "access\<lparr>tr_policy := fam_policy f, tr_family_jti := fam_jti f, tr_session_id := fam_session_id f,
      tr_user_id := fam_user_id f, tr_client_id := fam_client_id f,
      tr_expires_at := (if fam_expires_at f < tr_expires_at access then fam_expires_at f else tr_expires_at access)\<rparr>"
  let ?d2 = "d\<lparr>sessions := sql_update ?active (\<lambda>s. s\<lparr>ses_last_active_at := now\<rparr>) (sessions d),
      refresh_tokens := sql_update (\<lambda>r. rt_token_hash r = oldHash \<and> rt_used_at r = None) (\<lambda>r. r\<lparr>rt_used_at := Some now\<rparr>) (refresh_tokens d)\<rparr>"
  from assms obtain d3 where one: "sql_count ?active (sessions d) = 1" and rec: "recordIssuedTokenTx ?access now ?d2 = Inr d3"
      and ins: "insertRefreshTokenTx f newHash now d3 = Inr d'"
    by (auto simp: rotate_usable_def Let_def result_iffs split: sum.splits)
  show thesis
    by (rule that[OF rec ins refl sql_count_oneD[OF one]]) (simp_all add: min_def)
qed

lemma refresh_ok_spend:
  assumes "refresh_ok d"
  shows "refresh_ok (d\<lparr>sessions := ss, refresh_tokens := sql_update p (\<lambda>r. r\<lparr>rt_used_at := Some now\<rparr>) (refresh_tokens d)\<rparr>)"
proof -
  let ?u = "sql_update p (\<lambda>r. r\<lparr>rt_used_at := Some now\<rparr>) (refresh_tokens d)"
  have "map rt_token_hash ?u = map rt_token_hash (refresh_tokens d)" by (simp add: map_sql_update)
  moreover have "r \<in> set (refresh_tokens d)" if "r \<in> set ?u" "rt_used_at r = None" for r
    using that by (auto simp: sql_simps split: if_splits)
  moreover have "\<forall>r \<in> set ?u. rt_family_jti r \<in> rf_jti ` set (refresh_families d)"
    using assms by (auto simp: refresh_ok_def sql_simps)
  moreover have "\<forall>r \<in> set ?u. \<forall>t \<in> set (issued_tokens d). it_jti t = rt_family_jti r \<longrightarrow> rt_expires_at r \<le> it_expires_at t"
    using assms by (auto simp: refresh_ok_def sql_simps)
  ultimately show ?thesis using assms unfolding refresh_ok_def by simp
qed

lemma refresh_ok_rotate:
  assumes "RotateRefreshToken oldHash clientID newHash access now d = (res, d')" and ok: "refresh_ok d"
  shows "refresh_ok d'"
proof (cases res)
  case (Inl e)
  with assms have "d' = d \<or> (\<exists>jti. d' = revokeRefreshFamilyTx jti now d)"
    by (auto simp: RotateRefreshToken_def Let_def split: option.splits if_splits sum.splits)
  then show ?thesis using ok refresh_ok_kept[OF registry_kept_revoke ok] by auto
next
  case (Inr f)
  with assms(1) have "RotateRefreshToken oldHash clientID newHash access now d = (Inr f, d')" by simp
  then obtain r fr t where j: "refresh_join oldHash d = Some (r, fr, t)" and f: "f = scanRefreshFamily fr t"
      and u: "rotate_usable f oldHash newHash access now d = Inr d'" and un: "rt_used_at r = None" by (rule RotateRefreshToken_InrE)
  note jd = refresh_join_SomeD[OF j]
  let ?p = "\<lambda>r. rt_token_hash r = oldHash \<and> rt_used_at r = None"
  from u obtain ss d3 access' where
      rec: "recordIssuedTokenTx access' now (d\<lparr>sessions := ss, refresh_tokens := sql_update ?p
        (\<lambda>r. r\<lparr>rt_used_at := Some now\<rparr>) (refresh_tokens d)\<rparr>) = Inr d3"
      and ins: "insertRefreshTokenTx f newHash now d3 = Inr d'" by (rule rotate_usable_InrE)
  from recordIssuedTokenTx_InrD[OF rec] obtain row where row: "it_jti row = tr_jti access'" "tr_jti access' \<notin> it_jti ` set (issued_tokens d)"
      and d3: "d3 = d\<lparr>sessions := ss, refresh_tokens := sql_update ?p (\<lambda>r. r\<lparr>rt_used_at := Some now\<rparr>) (refresh_tokens d),
        issued_tokens := issued_tokens d @ [row]\<rparr>" by auto
  have jti: "fam_jti f = rt_family_jti r" "fam_expires_at f = it_expires_at t" using jd by (simp_all add: f scanRefreshFamily_def)
  show ?thesis
  proof (rule refresh_ok_insert[OF ins refresh_ok_record[OF rec refresh_ok_spend[OF ok]]])
    show "fam_jti f \<in> rf_jti ` set (refresh_families d3)" using jd(3) imageI[OF jd(3), of rf_jti] jd(4) jti(1) by (simp add: d3)
    show "it_expires_at x = fam_expires_at f" if "x \<in> set (issued_tokens d3)" "it_jti x = fam_jti f" for x
    proof -
      have "x \<noteq> row" using that(2) row jd(5,6) jti(1) by (metis image_eqI)
      then have "x \<in> set (issued_tokens d)" using that(1) by (simp add: d3)
      then have "x = t" using key_unique[of it_jti "issued_tokens d" x t] ok jd(5,6) that(2) jti(1) by (simp add: refresh_ok_def)
      then show ?thesis using jti(2) by simp
    qed
    show "rt_used_at x \<noteq> None" if x: "x \<in> set (refresh_tokens d3)" "rt_family_jti x = fam_jti f" for x
    proof
      assume un': "rt_used_at x = None"
      from x(1) obtain y where y: "y \<in> set (refresh_tokens d)" "x = (if ?p y then y\<lparr>rt_used_at := Some now\<rparr> else y)"
        by (auto simp: d3 sql_simps)
      with un' have "x = y" "\<not> ?p y" by (auto split: if_splits)
      moreover from this y(1) x(2) jti(1) un' un jd(1) ok have "y = r" unfolding refresh_ok_def by metis
      ultimately show False using jd(2) un by simp
    qed
  qed
qed

lemma refresh_ok_create:
  assumes "CreateRefreshFamily f c h now d = Inr d'" and ok: "refresh_ok d"
  shows "refresh_ok d'"
proof -
  let ?t = "\<lparr>tr_code_id = c, tr_policy = no_policy, tr_device = no_device, tr_family_jti = '''', tr_session_id = fam_session_id f,
      tr_jti = fam_jti f, tr_user_id = fam_user_id f, tr_client_id = fam_client_id f, tr_expires_at = fam_expires_at f\<rparr>"
  let ?fr = "\<lparr>rf_jti = fam_jti f, rf_scope = fam_scope f, rf_evidence = fam_evidence f, rf_policy = fam_policy f,
      rf_idle_seconds = fam_idle f div second\<rparr>"
  from assms(1) obtain d1 where rec: "recordIssuedTokenTx ?t now d = Inr d1"
      and new: "\<forall>x \<in> set (refresh_families d1). rf_jti x \<noteq> fam_jti f"
      and ins: "insertRefreshTokenTx f h now (d1\<lparr>refresh_families := sql_insert ?fr (refresh_families d1)\<rparr>) = Inr d'"
    by (auto simp: CreateRefreshFamily_def result_iffs)
  note ok1 = refresh_ok_record[OF rec ok]
  from recordIssuedTokenTx_InrD[OF rec] obtain row where d1: "d1 = d\<lparr>issued_tokens := issued_tokens d @ [row]\<rparr>"
      and row: "it_jti row = fam_jti f" "it_expires_at row = fam_expires_at f" "fam_jti f \<notin> it_jti ` set (issued_tokens d)" by auto
  let ?d2 = "d1\<lparr>refresh_families := sql_insert ?fr (refresh_families d1)\<rparr>"
  have ok2: "refresh_ok ?d2"
    using ok1 new row(1) unfolding refresh_ok_def by (auto simp: sql_insert_def d1)
  have fams: "rt_family_jti r \<in> it_jti ` set (issued_tokens d)" if "r \<in> set (refresh_tokens d)" for r
    using that ok unfolding refresh_ok_def by (metis imageE)
  show ?thesis
  proof (rule refresh_ok_insert[OF ins ok2])
    show "fam_jti f \<in> rf_jti ` set (refresh_families ?d2)" by (simp add: sql_insert_def)
    show "it_expires_at x = fam_expires_at f" if "x \<in> set (issued_tokens ?d2)" "it_jti x = fam_jti f" for x
      using that row by (auto simp: d1 image_iff)
    show "rt_used_at x \<noteq> None" if "x \<in> set (refresh_tokens ?d2)" "rt_family_jti x = fam_jti f" for x
      using that row(3) fams[of x] by (simp add: d1)
  qed
qed


lemma refresh_ok_delete:
  assumes "refresh_ok d"
  shows "refresh_ok (delete_issued_tokens p d)"
proof -
  let ?d = "delete_issued_tokens p d"
  have sub: "set (issued_tokens ?d) \<subseteq> set (issued_tokens d)" "set (refresh_tokens ?d) \<subseteq> set (refresh_tokens d)"
    by (auto simp: delete_issued_tokens_def Let_def sql_simps)
  have "distinct (map it_jti (issued_tokens ?d))" "distinct (map rf_jti (refresh_families ?d))" "distinct (map rt_token_hash (refresh_tokens ?d))"
    using assms by (simp_all add: refresh_ok_def delete_issued_tokens_def Let_def distinct_sql_delete)
  moreover have "\<forall>r \<in> set (refresh_tokens ?d). rt_family_jti r \<in> rf_jti ` set (refresh_families ?d)"
  proof
    fix r assume r: "r \<in> set (refresh_tokens ?d)"
    with assms sub obtain f where f: "f \<in> set (refresh_families d)" "rf_jti f = rt_family_jti r" unfolding refresh_ok_def by (metis imageE subsetD)
    with r have "f \<in> set (refresh_families ?d)" by (auto simp: delete_issued_tokens_def Let_def sql_simps)
    with f(2) show "rt_family_jti r \<in> rf_jti ` set (refresh_families ?d)" by (metis imageI)
  qed
  moreover have "\<forall>f \<in> set (refresh_families ?d). rf_jti f \<in> it_jti ` set (issued_tokens ?d)"
  proof
    fix f assume f: "f \<in> set (refresh_families ?d)"
    then have "f \<in> set (refresh_families d)" by (simp add: delete_issued_tokens_def Let_def sql_simps)
    with assms obtain t where t: "t \<in> set (issued_tokens d)" "it_jti t = rf_jti f" unfolding refresh_ok_def by (metis imageE)
    with f have "t \<in> set (issued_tokens ?d)" by (auto simp: delete_issued_tokens_def Let_def sql_simps)
    with t(2) show "rf_jti f \<in> it_jti ` set (issued_tokens ?d)" by (metis imageI)
  qed
  ultimately show ?thesis using assms sub unfolding refresh_ok_def by blast
qed

text \<open>
  The states the token registry and the refresh tables go through: the operations above, the registry's own, and
  any other step that only revokes tokens or does not touch these tables.
\<close>

inductive refresh_reach :: "db \<Rightarrow> bool" where
  empty: "issued_tokens d = [] \<Longrightarrow> refresh_families d = [] \<Longrightarrow> refresh_tokens d = [] \<Longrightarrow> refresh_reach d"
| create: "refresh_reach d \<Longrightarrow> CreateRefreshFamily f c h now d = Inr d' \<Longrightarrow> refresh_reach d'"
| rotate: "refresh_reach d \<Longrightarrow> RotateRefreshToken h c h' t now d = (r, d') \<Longrightarrow> refresh_reach d'"
| revoke: "refresh_reach d \<Longrightarrow> refresh_reach (RevokeRefreshFamily h c now d)"
| issue: "refresh_reach d \<Longrightarrow> RecordIssuedToken t now d = Inr d' \<Longrightarrow> refresh_reach d'"
| expire: "refresh_reach d \<Longrightarrow> refresh_reach (DeleteExpiredIssuedTokens now d)"
| remove: "refresh_reach d \<Longrightarrow> refresh_reach (delete_issued_tokens p d)"
| kept: "refresh_reach d \<Longrightarrow> registry_kept d d' \<Longrightarrow> refresh_reach d'"

lemma registry_kept_RevokeRefreshFamily: "registry_kept d (RevokeRefreshFamily h c now d)"
  using registry_kept_revoke[of d] by (auto simp: RevokeRefreshFamily_def registry_kept_def split: option.splits)

lemma refresh_reach_ok: "refresh_reach d \<Longrightarrow> refresh_ok d"
proof (induction rule: refresh_reach.induct)
  case (empty d)
  then show ?case by (simp add: refresh_ok_def)
next
  case (expire d now)
  then show ?case by (simp add: DeleteExpiredIssuedTokens_def refresh_ok_delete)
qed (auto simp: RecordIssuedToken_def intro: refresh_ok_create refresh_ok_rotate refresh_ok_record refresh_ok_delete refresh_ok_kept
       registry_kept_RevokeRefreshFamily)

section \<open>Rotation and reuse\<close>

lemma ClientAccessAllowed_kept: "ClientAccessAllowed u c now (d\<lparr>sessions := ss, refresh_tokens := rs\<rparr>) = ClientAccessAllowed u c now d"
proof -
  have "access_facts_row now (d\<lparr>sessions := ss, refresh_tokens := rs\<rparr>) = access_facts_row now d"
    by (intro ext) (simp add: access_facts_row_def live_group_memberships_def split: option.split)
  then show ?thesis by (simp add: ClientAccessAllowed_def effective_app_access_def app_access_facts_def)
qed

lemma refresh_join_of:
  assumes "refresh_ok d" and "r \<in> set (refresh_tokens d)"
  shows "\<exists>f t. refresh_join (rt_token_hash r) d = Some (r, f, t)"
proof -
  from assms obtain f t where f: "f \<in> set (refresh_families d)" "rf_jti f = rt_family_jti r"
      and t: "t \<in> set (issued_tokens d)" "it_jti t = rt_family_jti r"
    unfolding refresh_ok_def by (metis imageE)
  have "sql_first (\<lambda>x. rt_token_hash x = rt_token_hash r) (refresh_tokens d) = Some r"
    using assms by (simp add: find_key_eq refresh_ok_def)
  moreover have "sql_first (\<lambda>x. rf_jti x = rt_family_jti r) (refresh_families d) = Some f"
    using find_key_eq[of rf_jti "refresh_families d" f] assms f by (simp add: refresh_ok_def)
  moreover have "sql_first (\<lambda>x. it_jti x = rt_family_jti r) (issued_tokens d) = Some t"
    using find_key_eq[of it_jti "issued_tokens d" t] assms t by (simp add: refresh_ok_def)
  ultimately show ?thesis by (simp add: refresh_join_def)
qed

lemma rotate_spent_token:
  assumes "refresh_ok d" and "r \<in> set (refresh_tokens d)" and "rt_used_at r \<noteq> None"
  shows "fst (RotateRefreshToken (rt_token_hash r) c h t now d) = Inl ErrRefreshReuse"
proof -
  from refresh_join_of[OF assms(1,2)] obtain f x where "refresh_join (rt_token_hash r) d = Some (r, f, x)" by blast
  then show ?thesis using assms(3) by (simp add: RotateRefreshToken_def Let_def)
qed

text \<open>
  C6. In every state these tables can reach, a family has at most one unspent token, every token belongs to a
  family that the registry knows, and no token outlives its family.
\<close>

theorem one_unspent_token_per_family:
  assumes "refresh_reach d"
  shows "(\<forall>r \<in> set (refresh_tokens d). \<exists>f \<in> set (refresh_families d). \<exists>t \<in> set (issued_tokens d).
      rf_jti f = rt_family_jti r \<and> it_jti t = rt_family_jti r \<and> rt_expires_at r \<le> it_expires_at t) \<and>
    (\<forall>j. sql_count (\<lambda>r. rt_family_jti r = j \<and> rt_used_at r = None) (refresh_tokens d) \<le> 1)"
proof -
  note ok = refresh_reach_ok[OF assms]
  have "sql_count (\<lambda>r. rt_family_jti r = j \<and> rt_used_at r = None) (refresh_tokens d) \<le> 1" for j
  proof -
    let ?u = "filter (\<lambda>r. rt_family_jti r = j \<and> rt_used_at r = None) (refresh_tokens d)"
    have "\<forall>x \<in> set ?u. \<forall>y \<in> set ?u. x = y" using ok unfolding refresh_ok_def by auto
    moreover have "distinct ?u" using ok by (simp add: refresh_ok_def distinct_map)
    moreover have "length u \<le> 1" if "\<forall>x \<in> set u. \<forall>y \<in> set u. x = y" "distinct u" for u :: "refresh_token list"
      using that by (metis One_nat_def card_le_Suc0_iff_eq distinct_card finite_set)
    ultimately have "length ?u \<le> 1" by blast
    then show ?thesis by (simp add: sql_count_def)
  qed
  moreover have "\<exists>f \<in> set (refresh_families d). \<exists>t \<in> set (issued_tokens d).
      rf_jti f = rt_family_jti r \<and> it_jti t = rt_family_jti r \<and> rt_expires_at r \<le> it_expires_at t"
    if "r \<in> set (refresh_tokens d)" for r
  proof -
    from that ok obtain f t where "f \<in> set (refresh_families d)" "rf_jti f = rt_family_jti r"
        and t: "t \<in> set (issued_tokens d)" "it_jti t = rt_family_jti r"
      unfolding refresh_ok_def by (metis imageE)
    moreover from that ok t have "rt_expires_at r \<le> it_expires_at t" unfolding refresh_ok_def by blast
    ultimately show ?thesis by blast
  qed
  ultimately show ?thesis by blast
qed

text \<open>
  What a successful rotation did: the old token was the family's unspent, unexpired one shown by its own client,
  the session behind it was inside both limits, the account was active, might use the client, and
  the app's policy was still the one the family was bound to. Afterwards the old token
  is spent and showing it again is a reuse, the new token is unspent and expires by the family's end, and exactly one
  access token was registered: of the family, for its user and client, not outliving it.
\<close>

theorem rotation_effect:
  assumes "RotateRefreshToken oldHash clientID newHash access now d = (Inr f, d')" and "refresh_reach d"
  shows "fam_client_id f = clientID \<and>
    (\<exists>r \<in> set (refresh_tokens d). rt_token_hash r = oldHash \<and> rt_family_jti r = fam_jti f \<and> rt_used_at r = None \<and> now < rt_expires_at r) \<and>
    (\<exists>s \<in> set (sessions d). ses_id s = fam_session_id f \<and> now - IdleTTL (SessionLimits d) < ses_last_active_at s \<and>
       now - AbsoluteTTL (SessionLimits d) < ses_created_at s) \<and>
    (\<exists>u \<in> set (users d). usr_id u = fam_user_id f \<and> usr_status u = Active \<and> \<not> usr_password_change_required u) \<and>
    ClientAccessAllowed (fam_user_id f) clientID now d \<and>
    (pb_app_id (fam_policy f) \<noteq> '''' \<longrightarrow> (\<exists>a \<in> set (app_registry d). app_id a = pb_app_id (fam_policy f) \<and>
       app_client_id a = Some clientID \<and> app_auth_revision a = pb_auth_revision (fam_policy f) \<and>
       app_role_revision a = pb_role_revision (fam_policy f))) \<and>
    (\<exists>r \<in> set (refresh_tokens d'). rt_token_hash r = newHash \<and> rt_family_jti r = fam_jti f \<and> rt_used_at r = None \<and>
       rt_expires_at r = min (fam_expires_at f) (now + fam_idle f)) \<and>
    (\<exists>t. issued_tokens d' = issued_tokens d @ [t] \<and> it_jti t = tr_jti access \<and> it_family_jti t = (if fam_jti f = '''' then None else Some (fam_jti f)) \<and>
       it_user_id t = fam_user_id f \<and> it_client_id t = clientID \<and> it_revoked_at t = None \<and>
       it_expires_at t = min (fam_expires_at f) (tr_expires_at access)) \<and>
    (\<forall>c h t later. fst (RotateRefreshToken oldHash c h t later d') = Inl ErrRefreshReuse)"
proof -
  let ?p = "\<lambda>r. rt_token_hash r = oldHash \<and> rt_used_at r = None"
  let ?spend = "\<lambda>r. r\<lparr>rt_used_at := Some now\<rparr>"
  from assms(1) obtain r fr t where j: "refresh_join oldHash d = Some (r, fr, t)" and f: "f = scanRefreshFamily fr t"
      and u: "rotate_usable f oldHash newHash access now d = Inr d'" and un: "rt_used_at r = None" "now < rt_expires_at r"
      and cl: "it_client_id t = clientID" by (rule RotateRefreshToken_InrE)
  note jd = refresh_join_SomeD[OF j]
  from u obtain ss d3 access' where
      rec: "recordIssuedTokenTx access' now (d\<lparr>sessions := ss, refresh_tokens := sql_update ?p ?spend (refresh_tokens d)\<rparr>) = Inr d3"
      and ins: "insertRefreshTokenTx f newHash now d3 = Inr d'"
      and ses: "\<exists>s \<in> set (sessions d). ses_id s = fam_session_id f \<and> ses_last_active_at s > now - IdleTTL (SessionLimits d)
        \<and> ses_created_at s > now - AbsoluteTTL (SessionLimits d)"
      and acc: "tr_jti access' = tr_jti access" "tr_family_jti access' = fam_jti f" "tr_user_id access' = fam_user_id f"
        "tr_client_id access' = fam_client_id f" "tr_policy access' = fam_policy f"
        "tr_expires_at access' = min (fam_expires_at f) (tr_expires_at access)"
    by (rule rotate_usable_InrE)
  from recordIssuedTokenTx_InrD(3)[OF rec] obtain row where
      d3: "d3 = d\<lparr>sessions := ss, refresh_tokens := sql_update ?p ?spend (refresh_tokens d), issued_tokens := issued_tokens d @ [row]\<rparr>"
      and row: "it_jti row = tr_jti access" "it_family_jti row = (if fam_jti f = '''' then None else Some (fam_jti f))"
        "it_user_id row = fam_user_id f" "it_client_id row = fam_client_id f" "it_revoked_at row = None"
        "it_expires_at row = min (fam_expires_at f) (tr_expires_at access)"
    unfolding acc by auto
  from insertRefreshTokenTx_InrD(2)[OF ins] obtain r' where d': "d' = d3\<lparr>refresh_tokens := refresh_tokens d3 @ [r']\<rparr>"
      and r': "rt_token_hash r' = newHash" "rt_family_jti r' = fam_jti f" "rt_used_at r' = None"
        "rt_expires_at r' = min (fam_expires_at f) (now + fam_idle f)" by blast
  have fam: "fam_client_id f = clientID" "rt_family_jti r = fam_jti f" using cl jd by (simp_all add: f scanRefreshFamily_def)
  have ok': "refresh_ok d'" by (rule refresh_ok_rotate[OF assms(1) refresh_reach_ok[OF assms(2)]])
  have "?spend r \<in> set (refresh_tokens d')"
    using jd(1,2) un(1) by (auto simp: d' d3 sql_simps intro!: image_eqI[of _ _ r])
  from rotate_spent_token[OF ok' this] jd(2) have again: "\<forall>c h t later. fst (RotateRefreshToken oldHash c h t later d') = Inl ErrRefreshReuse"
    by simp
  note perm = recordIssuedTokenTx_InrD(1)[OF rec, unfolded issuance_permitted_def]
  have user: "\<exists>u \<in> set (users d). usr_id u = fam_user_id f \<and> usr_status u = Active \<and> \<not> usr_password_change_required u"
    using perm by (auto simp: session_backs_def acc)
  have allowed: "ClientAccessAllowed (fam_user_id f) clientID now d"
    using conjunct1[OF conjunct2[OF perm]] by (simp add: acc fam(1) ClientAccessAllowed_kept)
  have bound: "pb_app_id (fam_policy f) \<noteq> '''' \<longrightarrow> (\<exists>a \<in> set (app_registry d). app_id a = pb_app_id (fam_policy f) \<and>
       app_client_id a = Some clientID \<and> app_auth_revision a = pb_auth_revision (fam_policy f) \<and>
       app_role_revision a = pb_role_revision (fam_policy f))"
    using perm by (auto simp: policy_backs_def acc fam(1))
  have "issued_tokens d' = issued_tokens d @ [row]" "r' \<in> set (refresh_tokens d')" by (simp_all add: d' d3)
  with row r' fam ses again jd(1,2) un user allowed bound show ?thesis by blast
qed


section \<open>A family in the sample deployment\<close>

definition sample_family :: refresh_family where
  "sample_family = \<lparr>fam_jti = ''f1'', fam_user_id = ''u1'', fam_client_id = ''c1'', fam_session_id = ''s1'', fam_scope = ''openid'',
     fam_evidence = sample_evidence, fam_policy = no_policy, fam_idle = 600 * second, fam_expires_at = 5000 * second\<rparr>"

definition sample_create where "sample_create = CreateRefreshFamily sample_family '''' ''h1'' sample_now sample_db"

definition sample_rotate where
  "sample_rotate h h' c j d = RotateRefreshToken h c h' (sample_token\<lparr>tr_jti := j\<rparr>) (1010 * second) d"

lemma sample_reach: "refresh_reach sample_db"
  by (rule refresh_reach.empty) (simp_all add: sample_defs)

lemma sample_run:
  obtains d1 f d2 where "CreateRefreshFamily sample_family '''' ''h1'' sample_now sample_db = Inr d1" "refresh_reach d1"
    "RotateRefreshToken ''h1'' ''c1'' ''h2'' (sample_token\<lparr>tr_jti := ''j1''\<rparr>) (1010 * second) d1 = (Inr f, d2)" "refresh_reach d2"
    "d1 = projr sample_create" "d2 = snd (sample_rotate ''h1'' ''h2'' ''c1'' ''j1'' (projr sample_create))"
proof -
  have "\<not> isl sample_create" "\<not> isl (fst (sample_rotate ''h1'' ''h2'' ''c1'' ''j1'' (projr sample_create)))" by code_simp+
  note run = this
  from run(1) obtain d1 where c: "sample_create = Inr d1" by (blast dest: succeeds)
  let ?r = "sample_rotate ''h1'' ''h2'' ''c1'' ''j1'' d1"
  have "\<not> isl (fst ?r)" using run(2) unfolding c by simp
  then obtain f where "fst ?r = Inr f" by (blast dest: succeeds)
  then obtain d2 where r: "?r = (Inr f, d2)" by (metis prod.collapse)
  have "refresh_reach d1" by (rule refresh_reach.create[OF sample_reach c[unfolded sample_create_def]])
  moreover from this have "refresh_reach d2" by (rule refresh_reach.rotate[OF _ r[unfolded sample_rotate_def]])
  moreover have "d1 = projr sample_create" "d2 = snd (sample_rotate ''h1'' ''h2'' ''c1'' ''j1'' (projr sample_create))" using r by (simp_all add: c)
  ultimately show thesis by (intro that[OF c[unfolded sample_create_def] _ r[unfolded sample_rotate_def]])
qed

theorem one_unspent_token_per_family_witness:
  "\<exists>d. refresh_reach d \<and> length (refresh_tokens d) = 2 \<and>
     sql_count (\<lambda>r. rt_family_jti r = ''f1'' \<and> rt_used_at r = None) (refresh_tokens d) \<le> 1"
proof -
  obtain d1 f d2 where r: "refresh_reach d2" and d2: "d2 = snd (sample_rotate ''h1'' ''h2'' ''c1'' ''j1'' (projr sample_create))"
    by (rule sample_run)
  have "length (refresh_tokens (snd (sample_rotate ''h1'' ''h2'' ''c1'' ''j1'' (projr sample_create)))) = 2" by code_simp
  with one_unspent_token_per_family[OF r] r d2 show ?thesis by blast
qed

theorem rotation_effect_witness:
  "\<exists>d1 f d2. RotateRefreshToken ''h1'' ''c1'' ''h2'' (sample_token\<lparr>tr_jti := ''j1''\<rparr>) (1010 * second) d1 = (Inr f, d2) \<and>
     fst (RotateRefreshToken ''h1'' ''c1'' ''h3'' sample_token (1020 * second) d2) = Inl ErrRefreshReuse"
proof -
  obtain d1 f d2 where r: "RotateRefreshToken ''h1'' ''c1'' ''h2'' (sample_token\<lparr>tr_jti := ''j1''\<rparr>) (1010 * second) d1 = (Inr f, d2)"
      "refresh_reach d1" by (rule sample_run)
  from rotation_effect[OF r] r(1) show ?thesis by blast
qed


end
