(* ===== verification/Ky_StepUp.thy ===== *)
theory Ky_StepUp
  imports Ky_Tokens
begin

text \<open>
  Step-up authentication (\<^verbatim>\<open>internal/store/stepup.go\<close>): a challenge proves a second factor for one
  operation of one live session, and completing it mints a grant that the operation consumes.
\<close>

section \<open>The operations\<close>

definition step_up_session :: "string \<Rightarrow> (string \<Rightarrow> bool) \<Rightarrow> time \<Rightarrow> db \<Rightarrow> bool" where
  "step_up_session sessionID owner now d \<longleftrightarrow>
     (\<exists>s \<in> set (sessions d). \<exists>u \<in> set (users d). usr_id u = ses_user_id s \<and> ses_id s = sessionID \<and>
        owner (ses_user_id s) \<and> now < ses_expires_at s \<and> usr_status u = Active)"

definition createStepUpTokenTx :: "step_up_token \<Rightarrow> audit_event option \<Rightarrow> time \<Rightarrow> db \<Rightarrow> err + db" where
  "createStepUpTokenTx t audit now d =
     andthen (ensure (su_operation t \<noteq> '''' \<and> step_up_session (su_session_id t) (\<lambda>u. u = su_user_id t) now d) ErrStepUpInvalid) (\<lambda>_.
     andthen (ensure (\<not> (\<exists>x \<in> set (step_up_tokens d). su_id x = su_id t \<or> su_token_hash x = su_token_hash t)) ErrUnique) (\<lambda>_.
     recordAuditTx audit now (d\<lparr>step_up_tokens := sql_insert (t\<lparr>su_created_at := now, su_used_at := None\<rparr>) (step_up_tokens d)\<rparr>)))"

definition CreateStepUpToken :: "step_up_token \<Rightarrow> audit_event option \<Rightarrow> time \<Rightarrow> db \<Rightarrow> err + db" where
  "CreateStepUpToken t audit now d = createStepUpTokenTx t audit now d"

definition CreateStepUpChallenge :: "step_up_challenge \<Rightarrow> audit_event option \<Rightarrow> time \<Rightarrow> db \<Rightarrow> err + db" where
  "CreateStepUpChallenge c audit now d =
     andthen (ensure (\<not> (\<exists>x \<in> set (step_up_challenges d). sc_token_hash x = sc_token_hash c)) ErrUnique) (\<lambda>_.
     andthen (ensure ((\<exists>u \<in> set (users d). usr_id u = sc_user_id c) \<and> (\<exists>s \<in> set (sessions d). ses_id s = sc_session_id c)) ErrForeignKey) (\<lambda>_.
     recordAuditTx audit now (d\<lparr>step_up_challenges := sql_insert (c\<lparr>sc_attempts := 0, sc_used_at := None\<rparr>) (step_up_challenges d)\<rparr>)))"

definition challenge_open :: "time \<Rightarrow> step_up_challenge \<Rightarrow> bool" where
  "challenge_open now c \<longleftrightarrow> sc_used_at c = None \<and> now < sc_expires_at c \<and> sc_attempts c < 5"

definition GetStepUpChallenge :: "string \<Rightarrow> string \<Rightarrow> string \<Rightarrow> time \<Rightarrow> db \<Rightarrow> step_up_challenge option" where
  "GetStepUpChallenge hash userID sessionID now d =
     sql_first (\<lambda>c. sc_token_hash c = hash \<and> sc_user_id c = userID \<and> sc_session_id c = sessionID \<and> challenge_open now c)
       (step_up_challenges d)"

definition FailStepUpChallenge :: "string \<Rightarrow> db \<Rightarrow> db" where
  "FailStepUpChallenge hash d =
     d\<lparr>step_up_challenges := sql_update (\<lambda>c. sc_token_hash c = hash \<and> sc_used_at c = None)
        (\<lambda>c. c\<lparr>sc_attempts := sc_attempts c + 1\<rparr>) (step_up_challenges d)\<rparr>"

definition CompleteStepUpChallenge :: "string \<Rightarrow> step_up_token \<Rightarrow> audit_event option \<Rightarrow> time \<Rightarrow> db \<Rightarrow> bool tx" where
  "CompleteStepUpChallenge hash t audit now d =
     (let p = (\<lambda>c. sc_token_hash c = hash \<and> sc_user_id c = su_user_id t \<and> sc_session_id c = su_session_id t \<and>
                 sc_operation c = su_operation t \<and> challenge_open now c)
      in if sql_count p (step_up_challenges d) \<noteq> 1 then Inr (False, d)
         else andthen (createStepUpTokenTx t audit now (d\<lparr>step_up_challenges := sql_update p
                (\<lambda>c. c\<lparr>sc_used_at := Some now\<rparr>) (step_up_challenges d)\<rparr>)) (\<lambda>d'. Inr (True, d')))"

definition CancelStepUp :: "string \<Rightarrow> string \<Rightarrow> string \<Rightarrow> time \<Rightarrow> db \<Rightarrow> db" where
  "CancelStepUp hash userID sessionID now d =
     d\<lparr>step_up_challenges := sql_update (\<lambda>c. sc_token_hash c = hash \<and> sc_user_id c = userID \<and> sc_session_id c = sessionID)
          (\<lambda>c. c\<lparr>sc_used_at := Some now\<rparr>) (step_up_challenges d),
       step_up_tokens := sql_update (\<lambda>t. su_token_hash t = hash \<and> su_user_id t = userID \<and> su_session_id t = sessionID)
          (\<lambda>t. t\<lparr>su_used_at := Some now\<rparr>) (step_up_tokens d)\<rparr>"

definition step_up_matches :: "string \<Rightarrow> string \<Rightarrow> string \<Rightarrow> string \<Rightarrow> time \<Rightarrow> step_up_token \<Rightarrow> bool" where
  "step_up_matches hash userID sessionID operation now t \<longleftrightarrow>
     su_token_hash t = hash \<and> su_user_id t = userID \<and> su_session_id t = sessionID \<and> su_operation t = operation \<and>
     su_used_at t = None \<and> now < su_expires_at t"

definition ConsumeStepUpToken :: "string \<Rightarrow> string \<Rightarrow> string \<Rightarrow> string \<Rightarrow> time \<Rightarrow> db \<Rightarrow> bool \<times> db" where
  "ConsumeStepUpToken hash userID sessionID operation now d =
     (let p = (\<lambda>t. step_up_matches hash userID sessionID operation now t \<and> step_up_session (su_session_id t) (\<lambda>_. True) now d)
      in (sql_count p (step_up_tokens d) = 1,
          d\<lparr>step_up_tokens := sql_update p (\<lambda>t. t\<lparr>su_used_at := Some now\<rparr>) (step_up_tokens d)\<rparr>))"

definition HasValidStepUpToken :: "string \<Rightarrow> string \<Rightarrow> string \<Rightarrow> string \<Rightarrow> time \<Rightarrow> db \<Rightarrow> bool" where
  "HasValidStepUpToken hash userID sessionID operation now d \<longleftrightarrow>
     0 < sql_count (step_up_matches hash userID sessionID operation now) (step_up_tokens d)"

definition DeleteExpiredStepUpTokens :: "time \<Rightarrow> db \<Rightarrow> db" where
  "DeleteExpiredStepUpTokens now d =
     d\<lparr>step_up_tokens := sql_delete (\<lambda>t. su_expires_at t < now) (step_up_tokens d),
       step_up_challenges := sql_delete (\<lambda>c. sc_expires_at c < now) (step_up_challenges d)\<rparr>"

section \<open>What other operations do to the two tables\<close>

lemma createStepUpTokenTx_InrD:
  assumes "createStepUpTokenTx t audit now d = Inr d'"
  shows "su_operation t \<noteq> ''''" "step_up_session (su_session_id t) (\<lambda>u. u = su_user_id t) now d"
    "su_token_hash t \<notin> su_token_hash ` set (step_up_tokens d)"
    "step_up_tokens d' = step_up_tokens d @ [t\<lparr>su_created_at := now, su_used_at := None\<rparr>]"
    "step_up_challenges d' = step_up_challenges d"
  using assms by (auto simp: createStepUpTokenTx_def result_iffs sql_insert_def dest!: recordAuditTx_InrD)

lemma CompleteStepUpChallenge_TrueD:
  assumes "CompleteStepUpChallenge hash t audit now d = Inr (True, d')"
  obtains p where "p = (\<lambda>c. sc_token_hash c = hash \<and> sc_user_id c = su_user_id t \<and> sc_session_id c = su_session_id t \<and>
      sc_operation c = su_operation t \<and> challenge_open now c)"
    and "sql_count p (step_up_challenges d) = 1"
    and "createStepUpTokenTx t audit now (d\<lparr>step_up_challenges := sql_update p
      (\<lambda>c. c\<lparr>sc_used_at := Some now\<rparr>) (step_up_challenges d)\<rparr>) = Inr d'"
  using assms by (auto simp: CompleteStepUpChallenge_def Let_def result_iffs split: if_splits)

lemma revokeSessionGrantsTx_step_up:
  "evolves su_token_hash (\<lambda>t. su_used_at t \<noteq> None) i (step_up_tokens d) (step_up_tokens (revokeSessionGrantsTx sel now d))"
  "evolves sc_token_hash (\<lambda>t. sc_used_at t \<noteq> None) i (step_up_challenges d) (step_up_challenges (revokeSessionGrantsTx sel now d))"
  by (simp_all add: revokeSessionGrantsTx_def evolves_update)

lemma revokeSessionsTx_step_up:
  assumes "revokeSessionsTx now p d = Inr (n, d')"
  shows "evolves su_token_hash (\<lambda>t. su_used_at t \<noteq> None) i (step_up_tokens d) (step_up_tokens d')"
    and "evolves sc_token_hash (\<lambda>t. sc_used_at t \<noteq> None) i (step_up_challenges d) (step_up_challenges d')"
proof -
  from assms obtain t m where d': "d' = delete_sessions p (revokeSessionGrantsTx (\<lambda>sid _. \<exists>s \<in> set (sessions d). p s \<and> sid = Some (ses_id s))
      now (d\<lparr>logout_deliveries := t, rand_pos := m\<rparr>))" by (rule revokeSessionsTx_InrE)
  show "evolves su_token_hash (\<lambda>t. su_used_at t \<noteq> None) i (step_up_tokens d) (step_up_tokens d')"
    unfolding d' by (simp add: delete_sessions_def Let_def revokeSessionGrantsTx_def evolves_update)
  show "evolves sc_token_hash (\<lambda>t. sc_used_at t \<noteq> None) i (step_up_challenges d) (step_up_challenges d')"
    unfolding d' by (simp add: delete_sessions_def Let_def revokeSessionGrantsTx_def)
      (rule evolves_trans[OF evolves_update evolves_delete], simp_all)
qed

lemma revokeUserAccessTx_step_up:
  assumes "revokeUserAccessTx u now d = Inr d'"
  shows "evolves su_token_hash (\<lambda>t. su_used_at t \<noteq> None) i (step_up_tokens d) (step_up_tokens d')"
    and "evolves sc_token_hash (\<lambda>t. sc_used_at t \<noteq> None) i (step_up_challenges d) (step_up_challenges d')"
proof -
  from assms obtain n d1 where r: "revokeSessionsTx now (\<lambda>s. ses_user_id s = u) d = Inr (n, d1)"
      and d': "d' = expireAccountTokensTx now (\<lambda>t. at_user_id t = u) (spendMFATokensTx now u
        (revokeSessionGrantsTx (\<lambda>_ x. x = u) now (expirePairingTokensTx now u d1)))" by (rule revokeUserAccessTx_InrE)
  show "evolves su_token_hash (\<lambda>t. su_used_at t \<noteq> None) i (step_up_tokens d) (step_up_tokens d')"
    by (rule evolves_trans[OF revokeSessionsTx_step_up(1)[OF r]]) (simp add: d' revoke_access_defs evolves_update)
  show "evolves sc_token_hash (\<lambda>t. sc_used_at t \<noteq> None) i (step_up_challenges d) (step_up_challenges d')"
    by (rule evolves_trans[OF revokeSessionsTx_step_up(2)[OF r]]) (simp add: d' revoke_access_defs evolves_update)
qed

text \<open>The operations other than the redemption itself; a new row is given a hash of its own.\<close>

inductive step_up_other :: "string \<Rightarrow> db \<Rightarrow> db \<Rightarrow> bool" for i where
  grant: "CreateStepUpToken t audit now d = Inr d' \<Longrightarrow> su_token_hash t \<noteq> i \<Longrightarrow> step_up_other i d d'"
| challenge: "CreateStepUpChallenge c audit now d = Inr d' \<Longrightarrow> sc_token_hash c \<noteq> i \<Longrightarrow> step_up_other i d d'"
| fail: "step_up_other i d (FailStepUpChallenge h d)"
| cancel: "step_up_other i d (CancelStepUp h u s now d)"
| complete: "CompleteStepUpChallenge h t audit now d = Inr (b, d') \<Longrightarrow> su_token_hash t \<noteq> i \<Longrightarrow> step_up_other i d d'"
| consume: "ConsumeStepUpToken h u s op now d = (b, d') \<Longrightarrow> step_up_other i d d'"
| expire: "step_up_other i d (DeleteExpiredStepUpTokens now d)"
| revoke: "revokeSessionsTx now q d = Inr (n, d') \<Longrightarrow> step_up_other i d d'"
| account: "revokeUserAccessTx u now d = Inr d' \<Longrightarrow> step_up_other i d d'"
| elsewhere: "step_up_tokens d' = step_up_tokens d \<Longrightarrow> step_up_challenges d' = step_up_challenges d \<Longrightarrow> step_up_other i d d'"

lemma CreateStepUpChallenge_InrD:
  assumes "CreateStepUpChallenge c audit now d = Inr d'"
  shows "sc_token_hash c \<notin> sc_token_hash ` set (step_up_challenges d)" "step_up_tokens d' = step_up_tokens d"
    "step_up_challenges d' = step_up_challenges d @ [c\<lparr>sc_attempts := 0, sc_used_at := None\<rparr>]"
  using assms by (auto simp: CreateStepUpChallenge_def result_iffs sql_insert_def dest!: recordAuditTx_InrD)

lemma CompleteStepUpChallenge_step_up:
  assumes "CompleteStepUpChallenge h t audit now d = Inr (b, d')"
  shows "su_token_hash t \<noteq> i \<Longrightarrow> evolves su_token_hash (\<lambda>t. su_used_at t \<noteq> None) i (step_up_tokens d) (step_up_tokens d')"
    and "evolves sc_token_hash (\<lambda>t. sc_used_at t \<noteq> None) i (step_up_challenges d) (step_up_challenges d')"
proof -
  have *: "(su_token_hash t \<noteq> i \<longrightarrow> evolves su_token_hash (\<lambda>t. su_used_at t \<noteq> None) i (step_up_tokens d) (step_up_tokens d')) \<and>
    evolves sc_token_hash (\<lambda>t. sc_used_at t \<noteq> None) i (step_up_challenges d) (step_up_challenges d')"
  proof (cases b)
    case True
    with assms obtain p where c: "createStepUpTokenTx t audit now (d\<lparr>step_up_challenges := sql_update p
        (\<lambda>c. c\<lparr>sc_used_at := Some now\<rparr>) (step_up_challenges d)\<rparr>) = Inr d'"
      by (auto elim: CompleteStepUpChallenge_TrueD)
    note cd = createStepUpTokenTx_InrD(3-5)[OF c]
    have "evolves sc_token_hash (\<lambda>t. sc_used_at t \<noteq> None) i (step_up_challenges d) (step_up_challenges d')"
      unfolding cd(3) by (simp add: evolves_update)
    moreover have "evolves su_token_hash (\<lambda>t. su_used_at t \<noteq> None) i (step_up_tokens d) (step_up_tokens d')" if "su_token_hash t \<noteq> i"
      using that cd(1) unfolding cd(2) by (simp add: evolves_insert)
    ultimately show ?thesis by blast
  next
    case False
    with assms have "d' = d" by (auto simp: CompleteStepUpChallenge_def Let_def result_iffs split: if_splits)
    then show ?thesis by (simp add: evolves_refl)
  qed
  show "su_token_hash t \<noteq> i \<Longrightarrow> evolves su_token_hash (\<lambda>t. su_used_at t \<noteq> None) i (step_up_tokens d) (step_up_tokens d')"
    using * by blast
  show "evolves sc_token_hash (\<lambda>t. sc_used_at t \<noteq> None) i (step_up_challenges d) (step_up_challenges d')" using * by blast
qed

lemma ConsumeStepUpToken_step_up:
  assumes "ConsumeStepUpToken h u s op now d = (b, d')"
  shows "evolves su_token_hash (\<lambda>t. su_used_at t \<noteq> None) i (step_up_tokens d) (step_up_tokens d')"
    and "step_up_challenges d' = step_up_challenges d"
  using assms by (auto simp: ConsumeStepUpToken_def Let_def evolves_update)

lemmas step_up_evolve = revokeSessionsTx_step_up revokeUserAccessTx_step_up CompleteStepUpChallenge_step_up ConsumeStepUpToken_step_up(1)

lemma step_up_other_grants:
  assumes "step_up_other i d d'"
  shows "evolves su_token_hash (\<lambda>t. su_used_at t \<noteq> None) i (step_up_tokens d) (step_up_tokens d')"
  using assms
proof cases
  case (grant t audit now)
  then have "createStepUpTokenTx t audit now d = Inr d'" by (simp add: CreateStepUpToken_def)
  from createStepUpTokenTx_InrD(3,4)[OF this] grant(2) show ?thesis by (simp add: evolves_insert)
next
  case (challenge c audit now)
  then show ?thesis using CreateStepUpChallenge_InrD(2)[OF challenge(1)] by (simp add: evolves_refl)
qed (auto simp del: not_None_eq simp: FailStepUpChallenge_def CancelStepUp_def DeleteExpiredStepUpTokens_def ConsumeStepUpToken_step_up(2)
       intro: evolves_refl evolves_update evolves_delete step_up_evolve)

lemma step_up_other_challenges:
  assumes "step_up_other i d d'"
  shows "evolves sc_token_hash (\<lambda>c. sc_used_at c \<noteq> None) i (step_up_challenges d) (step_up_challenges d')"
  using assms
proof cases
  case (grant t audit now)
  then have "createStepUpTokenTx t audit now d = Inr d'" by (simp add: CreateStepUpToken_def)
  from createStepUpTokenTx_InrD(5)[OF this] show ?thesis by (simp add: evolves_refl)
next
  case (challenge c audit now)
  then show ?thesis using CreateStepUpChallenge_InrD(1,3)[OF challenge(1)] by (simp add: evolves_insert)
qed (auto simp del: not_None_eq simp: FailStepUpChallenge_def CancelStepUp_def DeleteExpiredStepUpTokens_def ConsumeStepUpToken_step_up(2)
       intro: evolves_refl evolves_update evolves_delete step_up_evolve)

section \<open>A grant is consumed at most once, a challenge completed at most once\<close>

interpretation grant: spendable_rows step_up_tokens su_token_hash "\<lambda>t. su_used_at t \<noteq> None"
  "\<lambda>(h, u, s, op, now) d. ConsumeStepUpToken h u s op now d" fst step_up_other
proof unfold_locales
  fix k d ok d' assume r: "(case k of (h, u, s, op, now) \<Rightarrow> ConsumeStepUpToken h u s op now) d = (ok, d')"
  obtain h u s op now where k: "k = (h, u, s, op, now)" by (cases k)
  let ?p = "\<lambda>t. step_up_matches h u s op now t \<and> step_up_session (su_session_id t) (\<lambda>_. True) now d"
  from r have "step_up_tokens d' = sql_update ?p (\<lambda>t. t\<lparr>su_used_at := Some now\<rparr>) (step_up_tokens d)"
      and "ok \<Longrightarrow> \<exists>t \<in> set (step_up_tokens d). ?p t"
    by (auto simp: k ConsumeStepUpToken_def Let_def dest: sql_count_SucD)
  moreover have "\<forall>t. ?p t \<longrightarrow> su_token_hash t = fst k \<and> \<not> su_used_at t \<noteq> None" by (simp add: k step_up_matches_def)
  ultimately show "\<exists>p f. step_up_tokens d' = sql_update p f (step_up_tokens d) \<and>
      (\<forall>r. p r \<longrightarrow> su_token_hash r = fst k \<and> \<not> su_used_at r \<noteq> None \<and> su_used_at (f r) \<noteq> None) \<and>
      (\<forall>r. su_token_hash (f r) = su_token_hash r) \<and> (ok \<longrightarrow> (\<exists>r \<in> set (step_up_tokens d). p r))"
    by (intro exI[of _ ?p] exI[of _ "\<lambda>t. t\<lparr>su_used_at := Some now\<rparr>"]) simp
qed (rule step_up_other_grants)

definition complete_attempt :: "string \<times> step_up_token \<times> audit_event option \<times> time \<Rightarrow> db \<Rightarrow> bool \<times> db" where
  "complete_attempt = (\<lambda>(h, t, audit, now) d. case CompleteStepUpChallenge h t audit now d of Inl _ \<Rightarrow> (False, d) | Inr r \<Rightarrow> r)"

interpretation challenge: spendable_rows step_up_challenges sc_token_hash "\<lambda>c. sc_used_at c \<noteq> None" complete_attempt fst step_up_other
proof unfold_locales
  fix k d ok d' assume r: "complete_attempt k d = (ok, d')"
  obtain h t audit now where k: "k = (h, t, audit, now)" by (cases k)
  let ?goal = "\<exists>p f. step_up_challenges d' = sql_update p f (step_up_challenges d) \<and>
      (\<forall>r. p r \<longrightarrow> sc_token_hash r = fst k \<and> \<not> sc_used_at r \<noteq> None \<and> sc_used_at (f r) \<noteq> None) \<and>
      (\<forall>r. sc_token_hash (f r) = sc_token_hash r) \<and> (ok \<longrightarrow> (\<exists>r \<in> set (step_up_challenges d). p r))"
  show ?goal
  proof (cases ok)
    case True
    with r have "CompleteStepUpChallenge h t audit now d = Inr (True, d')"
      by (auto simp: k complete_attempt_def split: sum.splits)
    then obtain p where p: "p = (\<lambda>c. sc_token_hash c = h \<and> sc_user_id c = su_user_id t \<and> sc_session_id c = su_session_id t \<and>
        sc_operation c = su_operation t \<and> challenge_open now c)" "sql_count p (step_up_challenges d) = 1"
        and c: "createStepUpTokenTx t audit now (d\<lparr>step_up_challenges := sql_update p
          (\<lambda>c. c\<lparr>sc_used_at := Some now\<rparr>) (step_up_challenges d)\<rparr>) = Inr d'" by (rule CompleteStepUpChallenge_TrueD)
    have "step_up_challenges d' = sql_update p (\<lambda>c. c\<lparr>sc_used_at := Some now\<rparr>) (step_up_challenges d)"
      using createStepUpTokenTx_InrD(5)[OF c] by simp
    moreover have "\<exists>r \<in> set (step_up_challenges d). p r" using sql_count_oneD[OF p(2)] by blast
    ultimately show ?thesis
      by (intro exI[of _ p] exI[of _ "\<lambda>c. c\<lparr>sc_used_at := Some now\<rparr>"]) (simp add: p(1) k challenge_open_def)
  next
    case False
    with r have "d' = d"
      by (auto simp: k complete_attempt_def CompleteStepUpChallenge_def Let_def result_iffs split: sum.splits if_splits)
    with False show ?thesis by (intro exI[of _ "\<lambda>_. False"] exI[of _ id]) (simp add: sql_update_noop)
  qed
qed (rule step_up_other_challenges)

text \<open>
  C32. A step-up grant authorises one operation once: in any interleaving of attempts to consume it, for whatever
  account, session and operation, at any instants, with any other operations that mint no second grant under its hash,
  at most one attempt succeeds, and none does once it is spent or cancelled.
\<close>

theorem step_up_grant_single_use:
  assumes "redeem_run (\<lambda>(h, u, s, op, now) d. ConsumeStepUpToken h u s op now d) fst (step_up_other i) i d n d'"
    and "distinct (map su_token_hash (step_up_tokens d))"
  shows "n \<le> 1 \<and> ((\<forall>t \<in> set (step_up_tokens d). su_token_hash t = i \<longrightarrow> su_used_at t \<noteq> None) \<longrightarrow> n = 0)"
  by (rule grant.rows_at_most_once[OF assms])

text \<open>
  What a grant that was consumed proves: a challenge for that very operation, account and session was open, with
  fewer than five failed proofs, when it was completed; it cannot be completed twice, whatever happens in between; the
  grant it minted was live and unspent when consumed; and at both moments the session was live and its account active.
\<close>

theorem step_up_chain:
  assumes "CompleteStepUpChallenge h t audit t1 d = Inr (True, d1)" and "wf_keys d"
    and "redeem_run complete_attempt fst (step_up_other h) h d1 n d2"
    and "ConsumeStepUpToken (su_token_hash t) u s op t2 d2 = (True, d3)"
  shows "(\<exists>c \<in> set (step_up_challenges d). sc_token_hash c = h \<and> sc_user_id c = su_user_id t \<and> sc_session_id c = su_session_id t \<and>
      sc_operation c = su_operation t \<and> sc_used_at c = None \<and> t1 < sc_expires_at c \<and> sc_attempts c < 5) \<and>
    step_up_session (su_session_id t) (\<lambda>x. x = su_user_id t) t1 d \<and> n = 0 \<and>
    (\<exists>g \<in> set (step_up_tokens d2). su_token_hash g = su_token_hash t \<and> su_user_id g = u \<and> su_session_id g = s \<and>
       su_operation g = op \<and> su_used_at g = None \<and> t2 < su_expires_at g) \<and>
    step_up_session s (\<lambda>_. True) t2 d2 \<and> \<not> HasValidStepUpToken (su_token_hash t) u s op t2 d3"
proof -
  from assms(1) obtain p where p: "p = (\<lambda>c. sc_token_hash c = h \<and> sc_user_id c = su_user_id t \<and> sc_session_id c = su_session_id t \<and>
      sc_operation c = su_operation t \<and> challenge_open t1 c)" "sql_count p (step_up_challenges d) = 1"
      and cr: "createStepUpTokenTx t audit t1 (d\<lparr>step_up_challenges := sql_update p
        (\<lambda>c. c\<lparr>sc_used_at := Some t1\<rparr>) (step_up_challenges d)\<rparr>) = Inr d1" by (rule CompleteStepUpChallenge_TrueD)
  note cd = createStepUpTokenTx_InrD[OF cr]
  have open_c: "\<exists>c \<in> set (step_up_challenges d). p c" using sql_count_oneD[OF p(2)] by blast
  have sess: "step_up_session (su_session_id t) (\<lambda>x. x = su_user_id t) t1 d" using cd(2) by (simp add: step_up_session_def)
  have keys: "distinct (map sc_token_hash (step_up_challenges d))" using assms(2) by (simp add: wf_keys_def)
  then have keys1: "distinct (map sc_token_hash (step_up_challenges d1))" by (simp add: cd(5) map_sql_update)
  have "complete_attempt (h, t, audit, t1) d = (True, d1)" by (simp add: complete_attempt_def assms(1))
  from challenge.redeem_spends[OF _ this] keys have "challenge.all_used h d1" by (simp add: challenge.keyed_def)
  then have n: "n = 0" using challenge.rows_at_most_once[OF assms(3) keys1] unfolding challenge.all_used_def by blast
  let ?q = "\<lambda>g. step_up_matches (su_token_hash t) u s op t2 g \<and> step_up_session (su_session_id g) (\<lambda>_. True) t2 d2"
  from assms(4) have q: "sql_count ?q (step_up_tokens d2) = 1"
      and d3: "d3 = d2\<lparr>step_up_tokens := sql_update ?q (\<lambda>t. t\<lparr>su_used_at := Some t2\<rparr>) (step_up_tokens d2)\<rparr>"
    by (auto simp: ConsumeStepUpToken_def Let_def)
  from sql_count_oneD[OF q] obtain g where g: "g \<in> set (step_up_tokens d2)" "?q g" by blast
  have here: "step_up_session s (\<lambda>_. True) t2 d2" using g(2) by (auto simp: step_up_matches_def)
  have "\<not> step_up_matches (su_token_hash t) u s op t2 x" if "x \<in> set (step_up_tokens d3)" for x
  proof
    assume m: "step_up_matches (su_token_hash t) u s op t2 x"
    from that obtain y where y: "x = (if ?q y then y\<lparr>su_used_at := Some t2\<rparr> else y)" by (auto simp: d3 sql_simps)
    with m have "x = y" "\<not> ?q y" by (auto simp: step_up_matches_def split: if_splits)
    with m here show False by (auto simp: step_up_matches_def)
  qed
  then have "\<not> HasValidStepUpToken (su_token_hash t) u s op t2 d3" by (simp add: HasValidStepUpToken_def sql_count_0_iff)
  with open_c sess n g here show ?thesis unfolding p(1) challenge_open_def step_up_matches_def by blast
qed

section \<open>A step-up in the sample deployment\<close>

definition sample_challenge :: step_up_challenge where
  "sample_challenge = \<lparr>sc_token_hash = ''g1'', sc_user_id = ''u1'', sc_session_id = ''s1'', sc_operation = ''mfa.reset'', sc_method = ''totp'',
     sc_proof = '''', sc_primary_at = sample_now, sc_expires_at = 1300 * second, sc_attempts = 0, sc_used_at = None\<rparr>"

definition sample_grant :: step_up_token where
  "sample_grant = \<lparr>su_id = ''i1'', su_user_id = ''u1'', su_session_id = ''s1'', su_token_hash = ''g1'', su_expires_at = 1300 * second,
     su_used_at = None, su_created_at = 0, su_operation = ''mfa.reset'', su_factor_method = ''totp''\<rparr>"

definition step_up_db :: db where
  "step_up_db = sample_db\<lparr>step_up_challenges := [sample_challenge]\<rparr>"

lemma step_up_db_wf: "wf_keys step_up_db"
  using sample_wf_keys by (simp add: step_up_db_def wf_keys_def sample_db_def empty_db_def)

lemma sample_complete:
  obtains d1 where "CompleteStepUpChallenge ''g1'' sample_grant None sample_now step_up_db = Inr (True, d1)"
    "d1 = snd (projr (CompleteStepUpChallenge ''g1'' sample_grant None sample_now step_up_db))"
proof -
  let ?r = "CompleteStepUpChallenge ''g1'' sample_grant None sample_now step_up_db"
  have "\<not> isl ?r" "fst (projr ?r)" by code_simp+
  then have "?r = Inr (True, snd (projr ?r))" by (cases ?r) auto
  with that show thesis by blast
qed

lemma sample_consume:
  obtains d1 d2 where "CompleteStepUpChallenge ''g1'' sample_grant None sample_now step_up_db = Inr (True, d1)"
    "ConsumeStepUpToken ''g1'' ''u1'' ''s1'' ''mfa.reset'' (1001 * second) d1 = (True, d2)"
    "distinct (map su_token_hash (step_up_tokens d1))"
proof -
  obtain d1 where r: "CompleteStepUpChallenge ''g1'' sample_grant None sample_now step_up_db = Inr (True, d1)"
      "d1 = snd (projr (CompleteStepUpChallenge ''g1'' sample_grant None sample_now step_up_db))" by (rule sample_complete)
  have "fst (ConsumeStepUpToken ''g1'' ''u1'' ''s1'' ''mfa.reset'' (1001 * second)
      (snd (projr (CompleteStepUpChallenge ''g1'' sample_grant None sample_now step_up_db))))"
    "distinct (map su_token_hash (step_up_tokens (snd (projr (CompleteStepUpChallenge ''g1'' sample_grant None sample_now step_up_db)))))"
    by code_simp+
  note c = this[folded r(2)]
  then have "ConsumeStepUpToken ''g1'' ''u1'' ''s1'' ''mfa.reset'' (1001 * second) d1 =
      (True, snd (ConsumeStepUpToken ''g1'' ''u1'' ''s1'' ''mfa.reset'' (1001 * second) d1))" by (metis prod.collapse)
  with that r(1) c(2) show thesis by blast
qed

theorem step_up_grant_single_use_witness:
  "\<exists>d1 d2. ConsumeStepUpToken ''g1'' ''u1'' ''s1'' ''mfa.reset'' (1001 * second) d1 = (True, d2) \<and>
     \<not> fst (ConsumeStepUpToken ''g1'' ''u1'' ''s1'' ''mfa.reset'' (1002 * second) d2)"
proof -
  let ?redeem = "\<lambda>(h, u, s, op, now). ConsumeStepUpToken h u s op now"
  obtain d1 d2 where c0: "ConsumeStepUpToken ''g1'' ''u1'' ''s1'' ''mfa.reset'' (1001 * second) d1 = (True, d2)"
      and keys: "distinct (map su_token_hash (step_up_tokens d1))" by (rule sample_consume)
  then have c: "?redeem (''g1'', ''u1'', ''s1'', ''mfa.reset'', 1001 * second) d1 = (True, d2)" by simp
  have "\<not> fst (?redeem (''g1'', ''u1'', ''s1'', ''mfa.reset'', 1002 * second) d2)"
  proof
    assume "fst (?redeem (''g1'', ''u1'', ''s1'', ''mfa.reset'', 1002 * second) d2)"
    then obtain d3 where c2: "?redeem (''g1'', ''u1'', ''s1'', ''mfa.reset'', 1002 * second) d2 = (True, d3)"
      by (cases "ConsumeStepUpToken ''g1'' ''u1'' ''s1'' ''mfa.reset'' (1002 * second) d2") auto
    have "redeem_run ?redeem fst (step_up_other ''g1'') ''g1'' d1 2 d3"
      by (rule redeem_run_two, rule c, rule c2) simp_all
    from step_up_grant_single_use[OF this keys] show False by simp
  qed
  with c0 show ?thesis by auto
qed

theorem step_up_chain_witness:
  "\<exists>d1 d3. CompleteStepUpChallenge ''g1'' sample_grant None sample_now step_up_db = Inr (True, d1) \<and>
     ConsumeStepUpToken ''g1'' ''u1'' ''s1'' ''mfa.reset'' (1001 * second) d1 = (True, d3) \<and>
     \<not> HasValidStepUpToken ''g1'' ''u1'' ''s1'' ''mfa.reset'' (1001 * second) d3"
proof -
  obtain d1 d2 where c: "CompleteStepUpChallenge ''g1'' sample_grant None sample_now step_up_db = Inr (True, d1)"
      "ConsumeStepUpToken ''g1'' ''u1'' ''s1'' ''mfa.reset'' (1001 * second) d1 = (True, d2)" by (rule sample_consume)
  have h: "su_token_hash sample_grant = ''g1''" by (simp add: sample_grant_def)
  from step_up_chain[OF c(1) step_up_db_wf redeem_run.start, of "''u1''" "''s1''" "''mfa.reset''" "1001 * second" d2] c
  show ?thesis unfolding h by blast
qed

end
