(* ===== verification/Ky_Lockout.thy ===== *)
theory Ky_Lockout
  imports Ky_Sample
begin

text \<open>
  Account lockout (\<^verbatim>\<open>internal/store/store.go\<close>, \<open>RecordFailedLogin\<close> to
  \<open>ClearFailedLogins\<close>). The table keeps one counter per account and client address; the specification
  keeps the failures themselves, and the counters are shown to implement it.
\<close>

section \<open>The operations\<close>

definition MaxFailedLogins :: nat where
  "MaxFailedLogins = 10"

definition LockoutDuration :: duration where
  "LockoutDuration = 15 * minute"

definition counts_for :: "string \<Rightarrow> string \<Rightarrow> login_failure \<Rightarrow> bool" where
  "counts_for userID source r \<longleftrightarrow> lf_user_id r = userID \<and> lf_source r = source"

definition RecordFailedLogin :: "string \<Rightarrow> string \<Rightarrow> time \<Rightarrow> db \<Rightarrow> nat tx" where
  "RecordFailedLogin userID source now d =
     (case sql_first (counts_for userID source) (login_failures d) of
        None \<Rightarrow>
          andthen (ensure (\<exists>u \<in> set (users d). usr_id u = userID) ErrForeignKey) (\<lambda>_.
          Inr (1, d\<lparr>login_failures := sql_insert \<lparr>lf_user_id = userID, lf_source = source, lf_failures = 1,
            lf_last_failure_at = now\<rparr> (login_failures d)\<rparr>))
      | Some r \<Rightarrow>
          (let n = (if lf_last_failure_at r \<le> now - LockoutDuration then 1 else lf_failures r + 1)
           in Inr (n, d\<lparr>login_failures := sql_update (counts_for userID source)
                (\<lambda>r. r\<lparr>lf_failures := n, lf_last_failure_at := now\<rparr>) (login_failures d)\<rparr>)))"

definition IsAccountLocked :: "string \<Rightarrow> string \<Rightarrow> time \<Rightarrow> db \<Rightarrow> bool" where
  "IsAccountLocked userID source now d \<longleftrightarrow>
     (\<exists>r \<in> set (login_failures d). lf_user_id r = userID \<and> (lf_source r = source \<or> lf_source r = '''') \<and>
        MaxFailedLogins \<le> lf_failures r \<and> now - LockoutDuration < lf_last_failure_at r)"

definition DeleteExpiredLoginFailures :: "time \<Rightarrow> db \<Rightarrow> db" where
  "DeleteExpiredLoginFailures now d =
     d\<lparr>login_failures := sql_delete (\<lambda>r. lf_last_failure_at r \<le> now - LockoutDuration) (login_failures d)\<rparr>"

definition ClearFailedLogins :: "string \<Rightarrow> string \<Rightarrow> db \<Rightarrow> db" where
  "ClearFailedLogins userID source d =
     d\<lparr>login_failures := sql_delete (\<lambda>r. lf_user_id r = userID \<and>
        (source = '''' \<or> lf_source r = source \<or> lf_source r = '''')) (login_failures d)\<rparr>"

section \<open>The specification: a history of failures\<close>

datatype lockout_event = Failed string string time | Cleared string string time | Swept time

fun event_time :: "lockout_event \<Rightarrow> time" where
  "event_time (Failed u s t) = t"
| "event_time (Cleared u s t) = t"
| "event_time (Swept t) = t"

fun run_event :: "lockout_event \<Rightarrow> db \<Rightarrow> db" where
  "run_event (Failed u s t) d = (case RecordFailedLogin u s t d of Inl _ \<Rightarrow> d | Inr (_, d') \<Rightarrow> d')"
| "run_event (Cleared u s t) d = ClearFailedLogins u s d"
| "run_event (Swept t) d = DeleteExpiredLoginFailures t d"

text \<open>
  The failures of one account and address that still count, latest first: a failure joins the ones before it
  unless a quiet \<open>LockoutDuration\<close> went by, and a proof clears them. Housekeeping is not part of the specification.
\<close>

fun joins :: "time \<Rightarrow> time list \<Rightarrow> time list" where
  "joins t [] = [t]"
| "joins t (l # w) = (if l \<le> t - LockoutDuration then [t] else t # l # w)"

fun window_step :: "string \<Rightarrow> string \<Rightarrow> lockout_event \<Rightarrow> time list \<Rightarrow> time list" where
  "window_step u s (Failed u' s' t) w = (if u' = u \<and> s' = s then joins t w else w)"
| "window_step u s (Cleared u' s' t) w = (if u' = u \<and> (s' = '''' \<or> s = s' \<or> s = '''') then [] else w)"
| "window_step u s (Swept t) w = w"

definition window :: "string \<Rightarrow> string \<Rightarrow> lockout_event list \<Rightarrow> time list" where
  "window u s es = fold (window_step u s) es []"

definition locked_by :: "time list \<Rightarrow> time \<Rightarrow> bool" where
  "locked_by w now \<longleftrightarrow> w \<noteq> [] \<and> MaxFailedLogins \<le> length w \<and> now - LockoutDuration < hd w"

section \<open>The counters implement the history\<close>

definition counter_of :: "string \<Rightarrow> string \<Rightarrow> db \<Rightarrow> (nat \<times> time) option" where
  "counter_of u s d = map_option (\<lambda>r. (lf_failures r, lf_last_failure_at r)) (sql_first (counts_for u s) (login_failures d))"

text \<open>A counter is the length and the latest of its window; a window with no counter has been quiet long enough.\<close>

definition counter_ok :: "time \<Rightarrow> time list \<Rightarrow> (nat \<times> time) option \<Rightarrow> bool" where
  "counter_ok now w c \<longleftrightarrow> (case c of
       None \<Rightarrow> w = [] \<or> hd w \<le> now - LockoutDuration
     | Some (n, l) \<Rightarrow> w \<noteq> [] \<and> n = length w \<and> l = hd w)"

definition keyed_failures :: "db \<Rightarrow> bool" where
  "keyed_failures d \<longleftrightarrow> distinct (map (\<lambda>r. (lf_user_id r, lf_source r)) (login_failures d))"

lemma find_sql_update_other: "(\<And>r. p r \<Longrightarrow> \<not> q r \<and> \<not> q (f r)) \<Longrightarrow> List.find q (sql_update p f t) = List.find q t"
  by (induction t) auto

lemma find_sql_update_same: "(\<And>r. p r \<Longrightarrow> p (f r)) \<Longrightarrow> List.find p (sql_update p f t) = map_option f (List.find p t)"
  by (induction t) auto

lemma find_sql_delete: "List.find q (sql_delete p t) = List.find (\<lambda>r. q r \<and> \<not> p r) t"
  by (induction t) auto

lemma keyed_counter:
  assumes "keyed_failures d" and "r \<in> set (login_failures d)"
  shows "counter_of (lf_user_id r) (lf_source r) d = Some (lf_failures r, lf_last_failure_at r)"
proof -
  have "sql_first (counts_for (lf_user_id r) (lf_source r)) (login_failures d) = Some r"
    using find_key_eq[of "\<lambda>r. (lf_user_id r, lf_source r)" "login_failures d" r] assms
    by (simp add: keyed_failures_def counts_for_def[abs_def])
  then show ?thesis by (simp add: counter_of_def)
qed

lemma counter_of_SomeD: "counter_of u s d = Some (n, l) \<Longrightarrow>
    \<exists>r \<in> set (login_failures d). lf_user_id r = u \<and> lf_source r = s \<and> lf_failures r = n \<and> lf_last_failure_at r = l"
  by (auto simp: counter_of_def counts_for_def dest!: find_SomeD)

lemma locked_iff_counter:
  assumes "keyed_failures d"
  shows "IsAccountLocked u s now d \<longleftrightarrow> (\<exists>a \<in> {s, ''''}. \<exists>n l. counter_of u a d = Some (n, l) \<and>
    MaxFailedLogins \<le> n \<and> now - LockoutDuration < l)"
proof
  assume "IsAccountLocked u s now d"
  then obtain r where r: "r \<in> set (login_failures d)" "lf_user_id r = u" "lf_source r = s \<or> lf_source r = ''''"
      "MaxFailedLogins \<le> lf_failures r" "now - LockoutDuration < lf_last_failure_at r"
    unfolding IsAccountLocked_def by blast
  with keyed_counter[OF assms r(1)] show "\<exists>a \<in> {s, ''''}. \<exists>n l. counter_of u a d = Some (n, l) \<and>
    MaxFailedLogins \<le> n \<and> now - LockoutDuration < l" by auto
next
  assume "\<exists>a \<in> {s, ''''}. \<exists>n l. counter_of u a d = Some (n, l) \<and> MaxFailedLogins \<le> n \<and> now - LockoutDuration < l"
  then show "IsAccountLocked u s now d" unfolding IsAccountLocked_def by (auto dest!: counter_of_SomeD)
qed

subsection \<open>One step\<close>

lemma record_counter:
  assumes "RecordFailedLogin u s t d = Inr (n, d')" and "keyed_failures d"
  shows "keyed_failures d'" and "users d' = users d"
    and "counter_of a b d' = (if a = u \<and> b = s then Some (case counter_of u s d of None \<Rightarrow> (1, t)
      | Some (n, l) \<Rightarrow> (if l \<le> t - LockoutDuration then 1 else n + 1, t)) else counter_of a b d)"
proof -
  consider (new) "sql_first (counts_for u s) (login_failures d) = None"
      "d' = d\<lparr>login_failures := login_failures d @ [\<lparr>lf_user_id = u, lf_source = s, lf_failures = 1, lf_last_failure_at = t\<rparr>]\<rparr>"
    | (old) r m where "sql_first (counts_for u s) (login_failures d) = Some r"
      "m = (if lf_last_failure_at r \<le> t - LockoutDuration then 1 else lf_failures r + 1)"
      "d' = d\<lparr>login_failures := sql_update (counts_for u s) (\<lambda>r. r\<lparr>lf_failures := m, lf_last_failure_at := t\<rparr>) (login_failures d)\<rparr>"
    using assms(1) by (auto simp: RecordFailedLogin_def Let_def result_iffs sql_insert_def split: option.splits)
  then have "keyed_failures d' \<and> users d' = users d \<and> counter_of a b d' = (if a = u \<and> b = s then Some (case counter_of u s d of None \<Rightarrow> (1, t)
      | Some (n, l) \<Rightarrow> (if l \<le> t - LockoutDuration then 1 else n + 1, t)) else counter_of a b d)"
  proof cases
    case new
    then have "\<forall>r \<in> set (login_failures d). \<not> counts_for u s r" by (simp add: find_None_iff2)
    then have "keyed_failures d'" using assms(2) by (auto simp: keyed_failures_def new(2) counts_for_def)
    moreover have "counter_of a b d' = (if a = u \<and> b = s then Some (1, t) else counter_of a b d)"
      using new(1) by (auto simp: counter_of_def new(2) find_append counts_for_def split: option.splits)
    ultimately show ?thesis using new by (simp add: counter_of_def)
  next
    case old
    have "keyed_failures d'" using assms(2) by (simp add: keyed_failures_def old(3) map_sql_update)
    moreover have "counter_of a b d' = (if a = u \<and> b = s then Some (m, t) else counter_of a b d)"
    proof (cases "a = u \<and> b = s")
      case True
      then show ?thesis using old(1) find_sql_update_same[of "counts_for u s" "\<lambda>r. r\<lparr>lf_failures := m, lf_last_failure_at := t\<rparr>"]
        by (simp add: counter_of_def old(3) counts_for_def)
    next
      case False
      then have "sql_first (counts_for a b) (login_failures d') = sql_first (counts_for a b) (login_failures d)"
        unfolding old(3) by (auto simp: counts_for_def intro: find_sql_update_other)
      with False show ?thesis by (simp only: counter_of_def if_False)
    qed
    ultimately show ?thesis using old by (simp add: counter_of_def)
  qed
  then show "keyed_failures d'" "users d' = users d" "counter_of a b d' = (if a = u \<and> b = s then Some (case counter_of u s d of None \<Rightarrow> (1, t)
      | Some (n, l) \<Rightarrow> (if l \<le> t - LockoutDuration then 1 else n + 1, t)) else counter_of a b d)" by auto
qed


lemma clear_counter:
  "counter_of a b (ClearFailedLogins u s d) = (if a = u \<and> (s = '''' \<or> b = s \<or> b = '''') then None else counter_of a b d)"
proof (cases "a = u \<and> (s = '''' \<or> b = s \<or> b = '''')")
  case True
  then have "sql_first (\<lambda>r. counts_for a b r \<and> \<not> (lf_user_id r = u \<and> (s = '''' \<or> lf_source r = s \<or> lf_source r = ''''))) (login_failures d) = None"
    by (auto simp: find_None_iff2 counts_for_def)
  with True show ?thesis by (simp add: counter_of_def ClearFailedLogins_def find_sql_delete)
next
  case False
  then have "(\<lambda>r. counts_for a b r \<and> \<not> (lf_user_id r = u \<and> (s = '''' \<or> lf_source r = s \<or> lf_source r = ''''))) = counts_for a b"
    by (intro ext) (auto simp: counts_for_def)
  with False show ?thesis by (auto simp: counter_of_def ClearFailedLogins_def find_sql_delete)
qed

lemma sweep_counter:
  assumes "keyed_failures d"
  shows "counter_of a b (DeleteExpiredLoginFailures t d) = (case counter_of a b d of None \<Rightarrow> None
    | Some (n, l) \<Rightarrow> if l \<le> t - LockoutDuration then None else Some (n, l))"
proof (cases "counter_of a b d")
  case None
  then have "\<forall>r \<in> set (login_failures d). \<not> counts_for a b r" by (simp add: counter_of_def find_None_iff2)
  then have "sql_first (\<lambda>r. counts_for a b r \<and> \<not> lf_last_failure_at r \<le> t - LockoutDuration) (login_failures d) = None"
    by (simp add: find_None_iff2)
  then show ?thesis using None by (simp add: counter_of_def DeleteExpiredLoginFailures_def find_sql_delete)
next
  case (Some c)
  then obtain r where r: "r \<in> set (login_failures d)" "lf_user_id r = a" "lf_source r = b" "c = (lf_failures r, lf_last_failure_at r)"
    by (cases c) (auto dest!: counter_of_SomeD)
  have only: "x = r" if "x \<in> set (login_failures d)" "counts_for a b x" for x
    using key_unique[of "\<lambda>r. (lf_user_id r, lf_source r)" "login_failures d" x r] assms that r
    by (simp add: keyed_failures_def counts_for_def)
  have "sql_first (\<lambda>x. counts_for a b x \<and> \<not> lf_last_failure_at x \<le> t - LockoutDuration) (login_failures d) =
      (if lf_last_failure_at r \<le> t - LockoutDuration then None else Some r)"
  proof (cases "lf_last_failure_at r \<le> t - LockoutDuration")
    case True
    with only show ?thesis by (auto simp: find_None_iff2)
  next
    case False
    then obtain y where "sql_first (\<lambda>x. counts_for a b x \<and> \<not> lf_last_failure_at x \<le> t - LockoutDuration) (login_failures d) = Some y"
      using r(1-3) by (cases "sql_first (\<lambda>x. counts_for a b x \<and> \<not> lf_last_failure_at x \<le> t - LockoutDuration) (login_failures d)")
         (auto simp: find_None_iff2 counts_for_def)
    with find_SomeD[OF this] only False show ?thesis by auto
  qed
  then have "counter_of a b (DeleteExpiredLoginFailures t d) =
      (if lf_last_failure_at r \<le> t - LockoutDuration then None else Some (lf_failures r, lf_last_failure_at r))"
    by (simp add: counter_of_def DeleteExpiredLoginFailures_def find_sql_delete)
  then show ?thesis using Some r(4) by simp
qed

lemma keyed_failures_delete: "keyed_failures d \<Longrightarrow> keyed_failures (d\<lparr>login_failures := sql_delete p (login_failures d)\<rparr>)"
  by (simp add: keyed_failures_def distinct_sql_delete)

lemma counter_ok_later: "counter_ok t w c \<Longrightarrow> t \<le> t' \<Longrightarrow> counter_ok t' w c"
  by (auto simp: counter_ok_def split: option.splits)

text \<open>One event keeps the agreement, provided a failure names an account that exists and time does not run back.\<close>

definition known :: "db \<Rightarrow> lockout_event \<Rightarrow> bool" where
  "known d e = (case e of Failed u s t \<Rightarrow> (\<exists>x \<in> set (users d). usr_id x = u) | _ \<Rightarrow> True)"

lemma run_event_ok:
  assumes "keyed_failures d" and "counter_ok now w (counter_of a b d)" and "now \<le> event_time e" and "known d e"
  shows "keyed_failures (run_event e d) \<and> users (run_event e d) = users d \<and>
    counter_ok (event_time e) (window_step a b e w) (counter_of a b (run_event e d))"
proof -
  note ok = counter_ok_later[OF assms(2,3)]
  show ?thesis
  proof (cases e)
    case (Failed u s t)
    then have "\<exists>x \<in> set (users d). usr_id x = u" using assms(4) by (simp add: known_def)
    then have "\<not> isl (RecordFailedLogin u s t d)"
      by (cases "sql_first (counts_for u s) (login_failures d)") (simp_all add: RecordFailedLogin_def Let_def)
    then obtain n d' where r: "RecordFailedLogin u s t d = Inr (n, d')" by (cases "RecordFailedLogin u s t d") auto
    note c = record_counter[OF r assms(1)]
    show ?thesis
    proof (cases "a = u \<and> b = s")
      case True
      have "counter_ok t (joins t w) (Some (case counter_of u s d of None \<Rightarrow> (1, t)
          | Some (n, l) \<Rightarrow> (if l \<le> t - LockoutDuration then 1 else n + 1, t)))"
        using ok True Failed by (cases w) (auto simp: counter_ok_def split: option.splits)
      with True Failed r c show ?thesis by simp
    next
      case False
      then have "counter_of a b d' = counter_of a b d" using c(3)[of a b] by auto
      with False Failed r c(1,2) ok show ?thesis by auto
    qed
  next
    case (Cleared u s t)
    have "keyed_failures (ClearFailedLogins u s d)" "users (ClearFailedLogins u s d) = users d"
      using keyed_failures_delete[OF assms(1)] by (simp_all add: ClearFailedLogins_def)
    moreover have "counter_ok t (window_step a b e w) (counter_of a b (ClearFailedLogins u s d))"
      using ok Cleared by (auto simp: clear_counter counter_ok_def)
    ultimately show ?thesis using Cleared by simp
  next
    case (Swept t)
    have "keyed_failures (DeleteExpiredLoginFailures t d)" "users (DeleteExpiredLoginFailures t d) = users d"
      using keyed_failures_delete[OF assms(1)] by (simp_all add: DeleteExpiredLoginFailures_def)
    moreover have "counter_ok t w (counter_of a b (DeleteExpiredLoginFailures t d))"
      using ok Swept by (auto simp: sweep_counter[OF assms(1)] counter_ok_def split: option.splits)
    ultimately show ?thesis using Swept by simp
  qed
qed

lemma run_events_ok:
  assumes "keyed_failures d" and "counter_ok now w (counter_of a b d)" and "sorted (now # map event_time es)"
    and "\<forall>e \<in> set es. known d e"
  shows "keyed_failures (fold run_event es d) \<and>
    counter_ok (last (now # map event_time es)) (fold (window_step a b) es w) (counter_of a b (fold run_event es d))"
  using assms
proof (induction es arbitrary: d now w)
  case (Cons e es)
  from Cons.prems have step: "keyed_failures (run_event e d)" "users (run_event e d) = users d"
      "counter_ok (event_time e) (window_step a b e w) (counter_of a b (run_event e d))"
    using run_event_ok[of d now w a b e] by auto
  have "sorted (event_time e # map event_time es)" using Cons.prems(3) by simp
  moreover have "\<forall>x \<in> set es. known (run_event e d) x" using Cons.prems(4) step(2) by (auto simp: known_def split: lockout_event.splits)
  ultimately show ?case using Cons.IH[OF step(1) step(3)] by simp
qed simp

text \<open>
  C33. The lockout counters implement the history of failures: after any sequence of failed logins, cleared counters and
  housekeeping, in time order, an account is locked for an address exactly when ten failures from that address, or
  ten second-factor failures, are on record with no quiet quarter of an hour between them and no proof since, the
  latest less than a quarter of an hour ago. Failures from other addresses do not count, and the housekeeping that
  bounds the table changes no verdict.
\<close>

theorem lockout_implements_history:
  assumes "login_failures d = []" and "sorted (map event_time es)" and "\<forall>e \<in> set es. known d e \<and> event_time e \<le> now"
  shows "IsAccountLocked u source now (fold run_event es d) \<longleftrightarrow>
    locked_by (window u source es) now \<or> locked_by (window u '''' es) now"
proof -
  define d' where "d' = fold run_event es d"
  define start where "start = (case es of [] \<Rightarrow> now | e # _ \<Rightarrow> event_time e)"
  have srt: "sorted (start # map event_time es)" using assms(2) by (cases es) (auto simp: start_def)
  have "\<forall>x \<in> set (start # map event_time es). x \<le> now" using assms(3) by (cases es) (auto simp: start_def)
  then have late: "last (start # map event_time es) \<le> now" by (metis last_in_set list.discI)
  have known: "\<forall>e \<in> set es. known d e" using assms(3) by blast
  have k: "keyed_failures d" by (simp add: keyed_failures_def assms(1))
  have c: "counter_ok start [] (counter_of u b d)" for b by (simp add: counter_ok_def counter_of_def assms(1))
  have ok: "counter_ok now (window u b es) (counter_of u b d')" for b
    using run_events_ok[OF k c[of b] srt known] counter_ok_later[OF _ late] by (simp add: window_def d'_def)
  have "keyed_failures d'" using run_events_ok[OF k c[of source] srt known] by (simp add: d'_def)
  moreover have "(\<exists>n l. counter_of u b d' = Some (n, l) \<and> MaxFailedLogins \<le> n \<and> now - LockoutDuration < l) \<longleftrightarrow>
      locked_by (window u b es) now" for b
    using ok[of b] by (auto simp: counter_ok_def locked_by_def split: option.splits)
  ultimately show ?thesis unfolding d'_def[symmetric] by (simp add: locked_iff_counter)
qed

definition sample_failures :: "lockout_event list" where
  "sample_failures = map (\<lambda>k. Failed ''u1'' ''192.0.2.1'' (k * minute)) [1, 2, 3, 4, 5, 6, 7, 8, 9, 10]"

theorem lockout_implements_history_witness:
  "IsAccountLocked ''u1'' ''192.0.2.1'' (20 * minute) (fold run_event sample_failures sample_db) \<and>
   \<not> IsAccountLocked ''u1'' ''192.0.2.2'' (20 * minute) (fold run_event sample_failures sample_db)"
proof -
  have none: "login_failures sample_db = []" by (simp add: sample_defs)
  have srt: "sorted (map event_time sample_failures)" by code_simp
  have pre: "\<forall>e \<in> set sample_failures. known sample_db e \<and> event_time e \<le> 20 * minute" by code_simp
  have "locked_by (window ''u1'' ''192.0.2.1'' sample_failures) (20 * minute)"
    "\<not> locked_by (window ''u1'' ''192.0.2.2'' sample_failures) (20 * minute)"
    "\<not> locked_by (window ''u1'' '''' sample_failures) (20 * minute)" by code_simp+
  with lockout_implements_history[OF none srt pre, of "''u1''"] show ?thesis by simp
qed

end
