(* ===== verification/Ky_Devices.thy ===== *)
theory Ky_Devices
  imports Ky_Tokens
begin

text \<open>
  Native devices and their pairing (\<^verbatim>\<open>internal/store/store.go\<close>, \<open>CreateDevicePairingToken\<close> to
  \<open>ClearNativeDevicePushToken\<close>, \<open>TouchNativeDeviceLastSeen\<close>). A pairing token enrols one device; a PIN
  resolves a token within one account, under a budget of misses that all the account's live tokens share.
\<close>

section \<open>Pairing tokens\<close>

definition CreateDevicePairingToken :: "pairing_token \<Rightarrow> audit_event option \<Rightarrow> time \<Rightarrow> db \<Rightarrow> unit tx" where
  "CreateDevicePairingToken token audit now = auditedTx audit now (\<lambda>d.
     andthen (ensure (\<not> (\<exists>t \<in> set (pairing_tokens d). pt_id t = pt_id token \<or> pt_token_hash t = pt_token_hash token)) ErrUnique) (\<lambda>_.
     andthen (ensure (\<exists>u \<in> set (users d). usr_id u = pt_user_id token) ErrForeignKey) (\<lambda>_.
     Inr ((), d\<lparr>pairing_tokens := sql_insert (token\<lparr>pt_pin_failures := 0, pt_used_at := None, pt_created_at := now\<rparr>) (pairing_tokens d)\<rparr>))))"

definition pairing_live :: "time \<Rightarrow> pairing_token \<Rightarrow> bool" where
  "pairing_live now t \<longleftrightarrow> pt_used_at t = None \<and> now < pt_expires_at t"

definition GetValidDevicePairingToken :: "string \<Rightarrow> time \<Rightarrow> db \<Rightarrow> pairing_token option" where
  "GetValidDevicePairingToken tokenHash now d =
     sql_first (\<lambda>t. pt_token_hash t = tokenHash \<and> pairing_live now t) (pairing_tokens d)"

definition PairingPINBudget :: nat where
  "PairingPINBudget = 5"

text \<open>The largest failure count the update returned, as the loop over its rows computes it.\<close>

definition worst_failures :: "pairing_token list \<Rightarrow> nat" where
  "worst_failures rows = fold (\<lambda>t w. max w (pt_pin_failures t)) rows 0"

text \<open>A match returns before anything is written; a miss commits.\<close>

definition MatchDevicePairingPIN :: "string \<Rightarrow> string \<Rightarrow> time \<Rightarrow> db \<Rightarrow> pairing_token option \<times> db" where
  "MatchDevicePairingPIN userID pinHash now d =
     (case sql_first (\<lambda>t. pt_user_id t = userID \<and> pt_pin_hash t = pinHash \<and> pt_pin_hash t \<noteq> '''' \<and> pairing_live now t)
        (pairing_tokens d) of
        Some t \<Rightarrow> (Some t, d)
      | None \<Rightarrow>
         (let live = (\<lambda>t. pt_user_id t = userID \<and> pairing_live now t);
              missed = sql_update live (\<lambda>t. t\<lparr>pt_pin_failures := pt_pin_failures t + 1\<rparr>) (pairing_tokens d);
              worst = worst_failures (filter live missed)
          in (None, d\<lparr>pairing_tokens := (if worst \<ge> PairingPINBudget
                 then sql_update live (\<lambda>t. t\<lparr>pt_expires_at := now\<rparr>) missed else missed)\<rparr>)))"

definition ExpireDevicePairingTokens :: "string \<Rightarrow> time \<Rightarrow> db \<Rightarrow> db" where
  "ExpireDevicePairingTokens userID at d =
     d\<lparr>pairing_tokens := sql_update (\<lambda>t. pt_user_id t = userID) (\<lambda>t. t\<lparr>pt_expires_at := at\<rparr>) (pairing_tokens d)\<rparr>"

definition DeleteExpiredDevicePairingTokens :: "time \<Rightarrow> db \<Rightarrow> db" where
  "DeleteExpiredDevicePairingTokens now d = d\<lparr>pairing_tokens := sql_delete (\<lambda>t. pt_expires_at t < now) (pairing_tokens d)\<rparr>"

text \<open>The statement that spends a token: how many rows it matched, and the database after it.\<close>

definition spend_pairing :: "string \<Rightarrow> time \<Rightarrow> db \<Rightarrow> nat \<times> db" where
  "spend_pairing tokenID now d =
     (let p = (\<lambda>t. pt_id t = tokenID \<and> pairing_live now t)
      in (sql_count p (pairing_tokens d),
          d\<lparr>pairing_tokens := sql_update p (\<lambda>t. t\<lparr>pt_used_at := Some now\<rparr>) (pairing_tokens d)\<rparr>))"

definition ConsumeDevicePairingToken :: "string \<Rightarrow> time \<Rightarrow> db \<Rightarrow> bool \<times> db" where
  "ConsumeDevicePairingToken tokenID now d = (let (n, d') = spend_pairing tokenID now d in (n = 1, d'))"

section \<open>Enrolling a device\<close>

definition attestationColumns :: "string \<Rightarrow> string \<Rightarrow> time \<Rightarrow> err + time option" where
  "attestationColumns level bootState at =
     andthen (ensure (level \<in> {''none'', ''tee'', ''strongbox'', ''appattest''}) ErrInvalidInput) (\<lambda>_.
     andthen (ensure (bootState \<in> {''locked-verified'', ''locked-selfsigned'', ''unlocked'', ''unknown''}) ErrInvalidInput) (\<lambda>_.
     Inr (if level = ''none'' then None else Some at)))"

definition or_default :: "string \<Rightarrow> string \<Rightarrow> string" where
  "or_default s v = (if s = '''' then v else s)"

definition prepareEnrollment :: "native_device \<Rightarrow> time \<Rightarrow> err + native_device" where
  "prepareEnrollment dev now =
     (let d1 = dev\<lparr>nd_created_at := now, nd_last_seen_at := Some now, nd_platform := or_default (nd_platform dev) ''android'',
            nd_push_transport := or_default (nd_push_transport dev) ''fcm'',
            nd_attested_level := or_default (nd_attested_level dev) ''none'',
            nd_boot_state := or_default (nd_boot_state dev) ''unknown''\<rparr>
      in andthen (attestationColumns (nd_attested_level d1) (nd_boot_state d1) now) (\<lambda>at. Inr (d1\<lparr>nd_attested_at := at\<rparr>)))"

definition device_checks :: "native_device \<Rightarrow> bool" where
  "device_checks dev \<longleftrightarrow> nd_platform dev \<in> {''android'', ''ios'', ''macos'', ''linux''} \<and>
     nd_push_transport dev \<in> {''fcm'', ''unifiedpush'', ''ubuntupush''}"

text \<open>
  The upsert, with the stored device it returns. On the account's own identifier it rewrites every column but the
  row's id, its creation instant and the instant of its last push token; an id another row has is a conflict.
\<close>

definition nativeDeviceUpsert :: "native_device \<Rightarrow> db \<Rightarrow> native_device tx" where
  "nativeDeviceUpsert dev d =
     (let same = (\<lambda>r. nd_user_id r = nd_user_id dev \<and> nd_device_identifier r = nd_device_identifier dev)
      in andthen (ensure (device_checks dev) ErrCheck) (\<lambda>_.
         andthen (ensure (\<not> (\<exists>r \<in> set (native_devices d). nd_id r = nd_id dev \<and> \<not> same r)) ErrUnique) (\<lambda>_.
         case sql_first same (native_devices d) of
           Some r \<Rightarrow>
             (let new = dev\<lparr>nd_id := nd_id r, nd_created_at := nd_created_at r,
                    nd_push_token_updated_at_ms := nd_push_token_updated_at_ms r\<rparr>
              in Inr (new, d\<lparr>native_devices := sql_update same (\<lambda>_. new) (native_devices d)\<rparr>))
         | None \<Rightarrow>
             andthen (ensure (\<exists>u \<in> set (users d). usr_id u = nd_user_id dev) ErrForeignKey) (\<lambda>_.
             let new = dev\<lparr>nd_push_token_updated_at_ms := 0\<rparr>
             in Inr (new, d\<lparr>native_devices := sql_insert new (native_devices d)\<rparr>)))))"

definition upsert_method :: "mfa_method \<Rightarrow> db \<Rightarrow> err + db" where
  "upsert_method m d =
     (let same = (\<lambda>r. mm_user_id r = mm_user_id m \<and> mm_method_type r = mm_method_type m)
      in andthen (ensure (\<not> (\<exists>r \<in> set (mfa_methods d). mm_id r = mm_id m \<and> \<not> same r)) ErrUnique) (\<lambda>_.
         if \<exists>r \<in> set (mfa_methods d). same r
         then Inr (d\<lparr>mfa_methods := sql_update same (\<lambda>r. r\<lparr>mm_encrypted_secret := mm_encrypted_secret m,
                mm_is_primary := mm_is_primary m\<rparr>) (mfa_methods d)\<rparr>)
         else andthen (ensure (\<exists>u \<in> set (users d). usr_id u = mm_user_id m) ErrForeignKey) (\<lambda>_.
              Inr (d\<lparr>mfa_methods := sql_insert (m\<lparr>mm_last_totp_counter := 0\<rparr>) (mfa_methods d)\<rparr>))))"

definition RegisterNativeDeviceWithPairingToken ::
    "string \<Rightarrow> native_device \<Rightarrow> mfa_method \<Rightarrow> (native_device \<Rightarrow> audit_event option) \<Rightarrow> time \<Rightarrow> db \<Rightarrow> bool tx" where
  "RegisterNativeDeviceWithPairingToken tokenID dev method audit now d =
     (let (n, d1) = spend_pairing tokenID now d
      in if n \<noteq> 1 then Inr (False, d)
         else let was = compliantEnrollmentTx (nd_user_id dev) d1
              in andthen (prepareEnrollment dev now) (\<lambda>dev1.
                 andthen (nativeDeviceUpsert dev1 d1) (\<lambda>(dev2, d2).
                 andthen (upsert_method (method\<lparr>mm_created_at := now\<rparr>) d2) (\<lambda>d3.
                 andthen (preserveCompliantEnrollmentTx (nd_user_id dev) was d3) (\<lambda>_.
                 andthen (recordAuditTx (audit dev2) now d3) (\<lambda>d4. Inr (True, d4)))))))"

definition UpsertNativeDevice :: "native_device \<Rightarrow> time \<Rightarrow> db \<Rightarrow> err + db" where
  "UpsertNativeDevice dev now d =
     andthen (prepareEnrollment dev now) (\<lambda>dev1.
     changeEnrollmentDevice (nd_user_id dev) None
       (\<lambda>d. andthen (nativeDeviceUpsert dev1 d) (\<lambda>(_, d'). Inr (1, d'))) now d)"

section \<open>Changing a device\<close>

definition update_devices :: "(native_device \<Rightarrow> bool) \<Rightarrow> (native_device \<Rightarrow> native_device) \<Rightarrow> db \<Rightarrow> nat \<times> db" where
  "update_devices p f d = (sql_count p (native_devices d), d\<lparr>native_devices := sql_update p f (native_devices d)\<rparr>)"

definition SetNativeDeviceAttestation ::
    "string \<Rightarrow> string \<Rightarrow> string \<Rightarrow> string \<Rightarrow> string list \<Rightarrow> time \<Rightarrow> db \<Rightarrow> bool tx" where
  "SetNativeDeviceAttestation deviceID publicKey level bootState serials at d =
     andthen (attestationColumns level bootState at) (\<lambda>attestedAt.
     let (n, d') = update_devices (\<lambda>r. nd_id r = deviceID \<and> nd_public_key r = Some publicKey)
           (\<lambda>r. r\<lparr>nd_attested_level := level, nd_attested_at := attestedAt, nd_boot_state := bootState,
              nd_attestation_serials := serials\<rparr>) d
     in Inr (n = 1, d'))"

definition GetNativeDevice :: "string \<Rightarrow> db \<Rightarrow> native_device option" where
  "GetNativeDevice deviceID d = sql_first (\<lambda>r. nd_id r = deviceID) (native_devices d)"

definition ListUserNativeDevices :: "string \<Rightarrow> db \<Rightarrow> native_device list" where
  "ListUserNativeDevices userID d = sort_key (\<lambda>r. - nd_created_at r) (filter (\<lambda>r. nd_user_id r = userID) (native_devices d))"

definition ListAttestedDevices :: "db \<Rightarrow> native_device list" where
  "ListAttestedDevices d = sort_key (\<lambda>r. - nd_created_at r) (filter (\<lambda>r. nd_attested_level r \<noteq> ''none'') (native_devices d))"

definition UpdateNativeDevicePushToken ::
    "string \<Rightarrow> string \<Rightarrow> string \<Rightarrow> string \<Rightarrow> string \<Rightarrow> int \<Rightarrow> time \<Rightarrow> audit_event option \<Rightarrow> time \<Rightarrow> db \<Rightarrow> bool tx" where
  "UpdateNativeDevicePushToken deviceID transport pushToken p256dh auth issuedAtMS seenAt audit now d =
     (let p = (\<lambda>r. nd_id r = deviceID \<and> nd_push_token_updated_at_ms r < issuedAtMS);
          (n, d1) = update_devices p (\<lambda>r. r\<lparr>nd_push_transport := transport, nd_push_token := Some pushToken,
            nd_push_p256dh := Some p256dh, nd_push_auth := Some auth, nd_push_token_updated_at_ms := issuedAtMS,
            nd_last_seen_at := Some seenAt\<rparr>) d
      in andthen (ensure (n = 0 \<or> transport \<in> {''fcm'', ''unifiedpush'', ''ubuntupush''}) ErrCheck) (\<lambda>_.
         if n \<noteq> 1 then Inr (False, d)
         else andthen (recordAuditTx audit now d1) (\<lambda>d2. Inr (True, d2))))"

definition SetNativeDeviceMFAApprover :: "string \<Rightarrow> string \<Rightarrow> bool \<Rightarrow> audit_event option \<Rightarrow> time \<Rightarrow> db \<Rightarrow> err + db" where
  "SetNativeDeviceMFAApprover deviceID userID isApprover audit now d =
     changeEnrollmentDevice userID audit
       (\<lambda>d. Inr (update_devices (\<lambda>r. nd_id r = deviceID \<and> nd_user_id r = userID)
          (\<lambda>r. r\<lparr>nd_is_mfa_approver := isApprover\<rparr>) d)) now d"

definition SetNativeDeviceCanSignOn :: "string \<Rightarrow> string \<Rightarrow> bool \<Rightarrow> audit_event option \<Rightarrow> time \<Rightarrow> db \<Rightarrow> err + db" where
  "SetNativeDeviceCanSignOn deviceID userID enabled audit now d =
     (let (n, d1) = update_devices (\<lambda>r. nd_id r = deviceID \<and> nd_user_id r = userID \<and> (\<not> enabled \<or> nd_is_mfa_approver r))
            (\<lambda>r. r\<lparr>nd_can_sign_on := enabled\<rparr>) d
      in if n = 1 then recordAuditTx audit now d1
         else if \<exists>r \<in> set (native_devices d). nd_id r = deviceID \<and> nd_user_id r = userID then Inl ErrDeviceNotApprover
         else Inl ErrNoRows)"

definition DeleteNativeDevice :: "string \<Rightarrow> string \<Rightarrow> audit_event option \<Rightarrow> time \<Rightarrow> db \<Rightarrow> err + db" where
  "DeleteNativeDevice deviceID userID audit now d =
     changeEnrollmentDevice userID audit
       (\<lambda>d. let p = (\<lambda>r. nd_id r = deviceID \<and> nd_user_id r = userID)
            in Inr (sql_count p (native_devices d), d\<lparr>native_devices := sql_delete p (native_devices d)\<rparr>)) now d"

definition or_empty :: "string option \<Rightarrow> string" where
  "or_empty s = (case s of None \<Rightarrow> '''' | Some v \<Rightarrow> v)"

definition ClearNativeDevicePushToken :: "native_device \<Rightarrow> db \<Rightarrow> db" where
  "ClearNativeDevicePushToken stale d =
     snd (update_devices (\<lambda>r. nd_id r = nd_id stale \<and> nd_user_id r = nd_user_id stale \<and>
         nd_push_token r = Some (or_empty (nd_push_token stale)) \<and>
         or_empty (nd_push_p256dh r) = or_empty (nd_push_p256dh stale) \<and> or_empty (nd_push_auth r) = or_empty (nd_push_auth stale))
       (\<lambda>r. r\<lparr>nd_push_token := Some '''', nd_push_p256dh := None, nd_push_auth := None\<rparr>) d)"

definition TouchNativeDeviceLastSeen :: "string \<Rightarrow> time \<Rightarrow> db \<Rightarrow> db" where
  "TouchNativeDeviceLastSeen deviceID at d =
     snd (update_devices (\<lambda>r. nd_id r = deviceID) (\<lambda>r. r\<lparr>nd_last_seen_at := Some at\<rparr>) d)"

section \<open>A pairing token enrols one device\<close>

lemma compliant_pairing: "compliantEnrollmentTx u (d\<lparr>pairing_tokens := ts\<rparr>) = compliantEnrollmentTx u d"
  using enrollment_requirements_cong[of "d\<lparr>pairing_tokens := ts\<rparr>" d] enrolled_factors_cong[of "d\<lparr>pairing_tokens := ts\<rparr>" d]
  by (simp add: compliantEnrollmentTx_def)

lemma compliant_audit: "compliantEnrollmentTx u (d\<lparr>audit_events := es\<rparr>) = compliantEnrollmentTx u d"
  using enrollment_requirements_cong[of "d\<lparr>audit_events := es\<rparr>" d] enrolled_factors_cong[of "d\<lparr>audit_events := es\<rparr>" d]
  by (simp add: compliantEnrollmentTx_def)

inductive pairing_other :: "string \<Rightarrow> db \<Rightarrow> db \<Rightarrow> bool" for i where
  create: "CreateDevicePairingToken t audit now d = Inr ((), d') \<Longrightarrow> pt_id t \<noteq> i \<Longrightarrow> pairing_other i d d'"
| pin: "MatchDevicePairingPIN u h now d = (r, d') \<Longrightarrow> pairing_other i d d'"
| consume: "ConsumeDevicePairingToken j now d = (b, d') \<Longrightarrow> pairing_other i d d'"
| expire: "pairing_other i d (ExpireDevicePairingTokens u at d)"
| sweep: "pairing_other i d (DeleteExpiredDevicePairingTokens now d)"
| account: "revokeUserAccessTx u now d = Inr d' \<Longrightarrow> pairing_other i d d'"
| elsewhere: "pairing_tokens d' = pairing_tokens d \<Longrightarrow> pairing_other i d d'"

lemma MatchDevicePairingPIN_rows:
  assumes "MatchDevicePairingPIN u h now d = (r, d')"
  shows "evolves pt_id (\<lambda>t. pt_used_at t \<noteq> None) i (pairing_tokens d) (pairing_tokens d')"
proof (cases "sql_first (\<lambda>t. pt_user_id t = u \<and> pt_pin_hash t = h \<and> pt_pin_hash t \<noteq> '''' \<and> pairing_live now t) (pairing_tokens d)")
  case (Some t)
  with assms show ?thesis by (auto simp: MatchDevicePairingPIN_def evolves_refl)
next
  case None
  let ?live = "\<lambda>t. pt_user_id t = u \<and> pairing_live now t"
  let ?m = "sql_update ?live (\<lambda>t. t\<lparr>pt_pin_failures := pt_pin_failures t + 1\<rparr>) (pairing_tokens d)"
  have m: "evolves pt_id (\<lambda>t. pt_used_at t \<noteq> None) i (pairing_tokens d) ?m" by (rule evolves_update) simp_all
  have e: "evolves pt_id (\<lambda>t. pt_used_at t \<noteq> None) i ?m (sql_update ?live (\<lambda>t. t\<lparr>pt_expires_at := now\<rparr>) ?m)"
    by (rule evolves_update) simp_all
  from assms None have "pairing_tokens d' = (if worst_failures (filter ?live ?m) \<ge> PairingPINBudget
      then sql_update ?live (\<lambda>t. t\<lparr>pt_expires_at := now\<rparr>) ?m else ?m)"
    by (auto simp: MatchDevicePairingPIN_def Let_def)
  then show ?thesis using m evolves_trans[OF m e] by (simp del: not_None_eq split: if_splits)
qed

lemma spend_pairing_rows: "evolves pt_id (\<lambda>t. pt_used_at t \<noteq> None) i (pairing_tokens d) (pairing_tokens (snd (spend_pairing j now d)))"
  by (simp add: spend_pairing_def Let_def evolves_update)

lemma revokeUserAccessTx_pairing:
  assumes "revokeUserAccessTx u now d = Inr d'"
  shows "evolves pt_id (\<lambda>t. pt_used_at t \<noteq> None) i (pairing_tokens d) (pairing_tokens d')"
proof -
  from assms obtain n d1 where r: "revokeSessionsTx now (\<lambda>s. ses_user_id s = u) d = Inr (n, d1)"
      and d': "d' = expireAccountTokensTx now (\<lambda>t. at_user_id t = u) (spendMFATokensTx now u
        (revokeSessionGrantsTx (\<lambda>_ x. x = u) now (expirePairingTokensTx now u d1)))" by (rule revokeUserAccessTx_InrE)
  have "pairing_tokens d1 = pairing_tokens d" using revokeSessionsTx_frame[OF r] by simp
  then show ?thesis by (simp add: d' revoke_access_defs evolves_update)
qed

lemma pairing_other_evolves:
  assumes "pairing_other i d d'"
  shows "evolves pt_id (\<lambda>t. pt_used_at t \<noteq> None) i (pairing_tokens d) (pairing_tokens d')"
  using assms
proof cases
  case (create t audit now)
  from create(1) have "pairing_tokens d' = pairing_tokens d @ [t\<lparr>pt_pin_failures := 0, pt_used_at := None, pt_created_at := now\<rparr>]"
      "pt_id t \<notin> pt_id ` set (pairing_tokens d)"
    unfolding CreateDevicePairingToken_def
    by (auto elim!: auditedTx_InrD simp: result_iffs sql_insert_def)
  with create(2) show ?thesis by (simp add: evolves_insert)
next
  case (consume j now b)
  then have "d' = snd (spend_pairing j now d)" by (auto simp: ConsumeDevicePairingToken_def split: prod.splits)
  then show ?thesis using spend_pairing_rows by metis
qed (auto simp del: not_None_eq simp: ExpireDevicePairingTokens_def DeleteExpiredDevicePairingTokens_def
       intro: evolves_refl evolves_update evolves_delete MatchDevicePairingPIN_rows revokeUserAccessTx_pairing)

definition register_attempt ::
    "string \<times> native_device \<times> mfa_method \<times> (native_device \<Rightarrow> audit_event option) \<times> time \<Rightarrow> db \<Rightarrow> bool \<times> db" where
  "register_attempt = (\<lambda>(i, dev, m, audit, now) d. case RegisterNativeDeviceWithPairingToken i dev m audit now d of Inl _ \<Rightarrow> (False, d) | Inr r \<Rightarrow> r)"

lemma nativeDeviceUpsert_InrD:
  assumes "nativeDeviceUpsert dev d = Inr (dev', d')"
  shows "\<exists>ds. d' = d\<lparr>native_devices := ds\<rparr> \<and> dev' \<in> set ds"
    and "nd_user_id dev' = nd_user_id dev" "nd_device_identifier dev' = nd_device_identifier dev" "nd_public_key dev' = nd_public_key dev"
    "nd_is_mfa_approver dev' = nd_is_mfa_approver dev" "nd_can_sign_on dev' = nd_can_sign_on dev"
    "nd_attested_level dev' = nd_attested_level dev" "nd_attested_at dev' = nd_attested_at dev" "nd_boot_state dev' = nd_boot_state dev"
proof -
  let ?same = "\<lambda>r. nd_user_id r = nd_user_id dev \<and> nd_device_identifier r = nd_device_identifier dev"
  consider (old) r where "sql_first ?same (native_devices d) = Some r"
      "dev' = dev\<lparr>nd_id := nd_id r, nd_created_at := nd_created_at r, nd_push_token_updated_at_ms := nd_push_token_updated_at_ms r\<rparr>"
      "d' = d\<lparr>native_devices := sql_update ?same (\<lambda>_. dev') (native_devices d)\<rparr>"
    | (new) "dev' = dev\<lparr>nd_push_token_updated_at_ms := 0\<rparr>" "d' = d\<lparr>native_devices := native_devices d @ [dev']\<rparr>"
    using assms by (auto simp: nativeDeviceUpsert_def Let_def result_iffs sql_insert_def split: option.splits)
  then have *: "(\<exists>ds. d' = d\<lparr>native_devices := ds\<rparr> \<and> dev' \<in> set ds) \<and> nd_user_id dev' = nd_user_id dev \<and>
    nd_device_identifier dev' = nd_device_identifier dev \<and> nd_public_key dev' = nd_public_key dev \<and>
    nd_is_mfa_approver dev' = nd_is_mfa_approver dev \<and> nd_can_sign_on dev' = nd_can_sign_on dev \<and>
    nd_attested_level dev' = nd_attested_level dev \<and> nd_attested_at dev' = nd_attested_at dev \<and> nd_boot_state dev' = nd_boot_state dev"
  proof cases
    case old
    from find_SomeD[OF old(1)] have "dev' \<in> set (sql_update ?same (\<lambda>_. dev') (native_devices d))"
      by (auto simp: sql_simps intro!: image_eqI[of _ _ r])
    then have "\<exists>ds. d' = d\<lparr>native_devices := ds\<rparr> \<and> dev' \<in> set ds" using old(3) by blast
    then show ?thesis by (simp add: old(2))
  next
    case new
    then have "\<exists>ds. d' = d\<lparr>native_devices := ds\<rparr> \<and> dev' \<in> set ds" by (intro exI[of _ "native_devices d @ [dev']"]) simp
    then show ?thesis by (simp add: new(1))
  qed
  then show "\<exists>ds. d' = d\<lparr>native_devices := ds\<rparr> \<and> dev' \<in> set ds"
    and "nd_user_id dev' = nd_user_id dev" "nd_device_identifier dev' = nd_device_identifier dev" "nd_public_key dev' = nd_public_key dev"
    "nd_is_mfa_approver dev' = nd_is_mfa_approver dev" "nd_can_sign_on dev' = nd_can_sign_on dev"
    "nd_attested_level dev' = nd_attested_level dev" "nd_attested_at dev' = nd_attested_at dev" "nd_boot_state dev' = nd_boot_state dev"
    by auto
qed

lemma upsert_method_InrD: "upsert_method m d = Inr d' \<Longrightarrow> \<exists>ms. d' = d\<lparr>mfa_methods := ms\<rparr>"
  by (auto simp: upsert_method_def Let_def result_iffs split: if_splits)

lemma upsert_method_present:
  assumes "upsert_method m d = Inr d'"
  shows "\<exists>r \<in> set (mfa_methods d'). mm_user_id r = mm_user_id m \<and> mm_method_type r = mm_method_type m"
  using assms by (force simp: upsert_method_def Let_def result_iffs sql_simps sql_insert_def split: if_splits)

lemma RegisterNativeDeviceWithPairingToken_TrueE:
  assumes "RegisterNativeDeviceWithPairingToken i dev m audit now d = Inr (True, d')"
  obtains d1 dev1 dev2 d2 d3 es where "spend_pairing i now d = (1, d1)" "prepareEnrollment dev now = Inr dev1"
    "nativeDeviceUpsert dev1 d1 = Inr (dev2, d2)" "upsert_method (m\<lparr>mm_created_at := now\<rparr>) d2 = Inr d3"
    "preserveCompliantEnrollmentTx (nd_user_id dev) (compliantEnrollmentTx (nd_user_id dev) d1) d3 = Inr ()"
    "d' = d3\<lparr>audit_events := es\<rparr>"
proof -
  obtain n d1 where sp: "spend_pairing i now d = (n, d1)" by (cases "spend_pairing i now d")
  with assms obtain dev1 dev2 d2 d3 where "n = 1" "prepareEnrollment dev now = Inr dev1"
      "nativeDeviceUpsert dev1 d1 = Inr (dev2, d2)" "upsert_method (m\<lparr>mm_created_at := now\<rparr>) d2 = Inr d3"
      "preserveCompliantEnrollmentTx (nd_user_id dev) (compliantEnrollmentTx (nd_user_id dev) d1) d3 = Inr ()"
      and rec: "recordAuditTx (audit dev2) now d3 = Inr d'"
    by (auto simp: RegisterNativeDeviceWithPairingToken_def Let_def result_iffs split: if_splits)
  moreover from recordAuditTx_InrD[OF rec] obtain es where "d' = d3\<lparr>audit_events := es\<rparr>" by blast
  ultimately show thesis using that sp by blast
qed

lemma register_pairing_rows:
  assumes "RegisterNativeDeviceWithPairingToken i dev m audit now d = Inr (True, d')"
  shows "sql_count (\<lambda>t. pt_id t = i \<and> pairing_live now t) (pairing_tokens d) = 1"
    and "pairing_tokens d' = sql_update (\<lambda>t. pt_id t = i \<and> pairing_live now t) (\<lambda>t. t\<lparr>pt_used_at := Some now\<rparr>) (pairing_tokens d)"
proof -
  from assms obtain d1 dev1 dev2 d2 d3 es where r: "spend_pairing i now d = (1, d1)" "nativeDeviceUpsert dev1 d1 = Inr (dev2, d2)"
      "upsert_method (m\<lparr>mm_created_at := now\<rparr>) d2 = Inr d3" "d' = d3\<lparr>audit_events := es\<rparr>"
    by (rule RegisterNativeDeviceWithPairingToken_TrueE)
  from nativeDeviceUpsert_InrD(1)[OF r(2)] upsert_method_InrD[OF r(3)] r(4) have "pairing_tokens d' = pairing_tokens d1" by auto
  with r(1) show "sql_count (\<lambda>t. pt_id t = i \<and> pairing_live now t) (pairing_tokens d) = 1"
    and "pairing_tokens d' = sql_update (\<lambda>t. pt_id t = i \<and> pairing_live now t) (\<lambda>t. t\<lparr>pt_used_at := Some now\<rparr>) (pairing_tokens d)"
    by (auto simp: spend_pairing_def Let_def)
qed

interpretation pairing: spendable_rows pairing_tokens pt_id "\<lambda>t. pt_used_at t \<noteq> None" register_attempt fst pairing_other
proof unfold_locales
  fix k d ok d' assume r: "register_attempt k d = (ok, d')"
  obtain i dev m audit now where k: "k = (i, dev, m, audit, now)" by (cases k)
  let ?p = "\<lambda>t. pt_id t = i \<and> pairing_live now t"
  show "\<exists>p f. pairing_tokens d' = sql_update p f (pairing_tokens d) \<and>
      (\<forall>r. p r \<longrightarrow> pt_id r = fst k \<and> \<not> pt_used_at r \<noteq> None \<and> pt_used_at (f r) \<noteq> None) \<and>
      (\<forall>r. pt_id (f r) = pt_id r) \<and> (ok \<longrightarrow> (\<exists>r \<in> set (pairing_tokens d). p r))"
  proof (cases ok)
    case True
    with r have "RegisterNativeDeviceWithPairingToken i dev m audit now d = Inr (True, d')"
      by (auto simp: k register_attempt_def split: sum.splits)
    note rows = register_pairing_rows[OF this]
    show ?thesis
      by (rule exI[of _ ?p], rule exI[of _ "\<lambda>t. t\<lparr>pt_used_at := Some now\<rparr>"])
         (use rows(2) sql_count_oneD[OF rows(1)] in \<open>simp add: k pairing_live_def\<close>)
  next
    case False
    with r have "d' = d"
      by (auto simp: k register_attempt_def RegisterNativeDeviceWithPairingToken_def Let_def result_iffs split: sum.splits if_splits prod.splits)
    with False show ?thesis by (intro exI[of _ "\<lambda>_. False"] exI[of _ id]) (simp add: sql_update_noop)
  qed
qed (rule pairing_other_evolves)

lemma prepareEnrollment_InrD:
  assumes "prepareEnrollment dev now = Inr dev'"
  shows "nd_user_id dev' = nd_user_id dev" "nd_device_identifier dev' = nd_device_identifier dev" "nd_public_key dev' = nd_public_key dev"
    "nd_is_mfa_approver dev' = nd_is_mfa_approver dev" "nd_can_sign_on dev' = nd_can_sign_on dev"
    "nd_attested_level dev' = (if nd_attested_level dev = '''' then ''none'' else nd_attested_level dev)"
    "nd_attested_at dev' = (if nd_attested_level dev' = ''none'' then None else Some now)"
proof -
  let ?d1 = "dev\<lparr>nd_created_at := now, nd_last_seen_at := Some now, nd_platform := or_default (nd_platform dev) ''android'',
     nd_push_transport := or_default (nd_push_transport dev) ''fcm'', nd_attested_level := or_default (nd_attested_level dev) ''none'',
     nd_boot_state := or_default (nd_boot_state dev) ''unknown''\<rparr>"
  from assms obtain at where at: "attestationColumns (nd_attested_level ?d1) (nd_boot_state ?d1) now = Inr at" and d': "dev' = ?d1\<lparr>nd_attested_at := at\<rparr>"
    unfolding prepareEnrollment_def Let_def andthen_Inr_iff by auto
  from at have "at = (if nd_attested_level ?d1 = ''none'' then None else Some now)"
    unfolding attestationColumns_def andthen_Inr_iff by auto
  then show "nd_user_id dev' = nd_user_id dev" "nd_device_identifier dev' = nd_device_identifier dev" "nd_public_key dev' = nd_public_key dev"
    "nd_is_mfa_approver dev' = nd_is_mfa_approver dev" "nd_can_sign_on dev' = nd_can_sign_on dev"
    "nd_attested_level dev' = (if nd_attested_level dev = '''' then ''none'' else nd_attested_level dev)"
    "nd_attested_at dev' = (if nd_attested_level dev' = ''none'' then None else Some now)"
    by (simp_all only: d' or_default_def) simp_all
qed

text \<open>
  Pairing enrols exactly the device that was graded, once: a registration that succeeds spent a live token, and
  whatever happens afterwards that token never registers another device. The device is stored for its account with the
  key, the sign-on right and the attestation grade of this very request, also when it replaces an earlier pairing of
  the same device; the push method is there; and an account that met its enrolment policies still does.
\<close>

theorem pairing_enrols_one_device:
  assumes "RegisterNativeDeviceWithPairingToken i dev m audit now d = Inr (True, d')"
    and "distinct (map pt_id (pairing_tokens d))" and "redeem_run register_attempt fst (pairing_other i) i d' n d2"
  shows "(\<exists>t \<in> set (pairing_tokens d). pt_id t = i \<and> pt_used_at t = None \<and> now < pt_expires_at t) \<and> n = 0 \<and>
    (\<exists>r \<in> set (native_devices d'). nd_user_id r = nd_user_id dev \<and> nd_device_identifier r = nd_device_identifier dev \<and>
       nd_public_key r = nd_public_key dev \<and> nd_is_mfa_approver r = nd_is_mfa_approver dev \<and> nd_can_sign_on r = nd_can_sign_on dev \<and>
       nd_attested_level r = (if nd_attested_level dev = '''' then ''none'' else nd_attested_level dev) \<and>
       nd_attested_at r = (if nd_attested_level r = ''none'' then None else Some now)) \<and>
    (\<exists>x \<in> set (mfa_methods d'). mm_user_id x = mm_user_id m \<and> mm_method_type x = mm_method_type m) \<and>
    (compliantEnrollmentTx (nd_user_id dev) d \<longrightarrow> compliantEnrollmentTx (nd_user_id dev) d')"
proof -
  note rows = register_pairing_rows[OF assms(1)]
  from sql_count_oneD[OF rows(1)] have live: "\<exists>t \<in> set (pairing_tokens d). pt_id t = i \<and> pt_used_at t = None \<and> now < pt_expires_at t"
    by (auto simp: pairing_live_def)
  have "register_attempt (i, dev, m, audit, now) d = (True, d')" by (simp add: register_attempt_def assms(1))
  from pairing.redeem_spends[OF _ this] assms(2) have "pairing.all_used i d'" by (simp add: pairing.keyed_def)
  moreover have "distinct (map pt_id (pairing_tokens d'))" using assms(2) by (simp add: rows(2) map_sql_update)
  ultimately have n: "n = 0" using pairing.rows_at_most_once[OF assms(3)] unfolding pairing.all_used_def by blast
  from assms(1) obtain d1 dev1 dev2 d2 d3 es where r: "spend_pairing i now d = (1, d1)" "prepareEnrollment dev now = Inr dev1"
      "nativeDeviceUpsert dev1 d1 = Inr (dev2, d2)" "upsert_method (m\<lparr>mm_created_at := now\<rparr>) d2 = Inr d3"
      "preserveCompliantEnrollmentTx (nd_user_id dev) (compliantEnrollmentTx (nd_user_id dev) d1) d3 = Inr ()"
      "d' = d3\<lparr>audit_events := es\<rparr>" by (rule RegisterNativeDeviceWithPairingToken_TrueE)
  note up = nativeDeviceUpsert_InrD[OF r(3)] and prep = prepareEnrollment_InrD[OF r(2)]
  from up(1) obtain ds where d2: "d2 = d1\<lparr>native_devices := ds\<rparr>" "dev2 \<in> set ds" by blast
  from upsert_method_InrD[OF r(4)] obtain ms where d3: "d3 = d2\<lparr>mfa_methods := ms\<rparr>" by blast
  have dev2: "dev2 \<in> set (native_devices d')" using d2 d3 r(6) by simp
  have stored: "\<exists>r \<in> set (native_devices d'). nd_user_id r = nd_user_id dev \<and> nd_device_identifier r = nd_device_identifier dev \<and>
       nd_public_key r = nd_public_key dev \<and> nd_is_mfa_approver r = nd_is_mfa_approver dev \<and> nd_can_sign_on r = nd_can_sign_on dev \<and>
       nd_attested_level r = (if nd_attested_level dev = '''' then ''none'' else nd_attested_level dev) \<and>
       nd_attested_at r = (if nd_attested_level r = ''none'' then None else Some now)"
    by (rule bexI[OF _ dev2]) (simp add: up prep)
  have meth: "\<exists>x \<in> set (mfa_methods d'). mm_user_id x = mm_user_id m \<and> mm_method_type x = mm_method_type m"
    using upsert_method_present[OF r(4)] r(6) by simp
  have "d1 = d\<lparr>pairing_tokens := pairing_tokens d1\<rparr>" using r(1) by (auto simp: spend_pairing_def Let_def)
  then have c: "compliantEnrollmentTx u d1 = compliantEnrollmentTx u d" for u by (rule ssubst) (rule compliant_pairing)
  have c': "compliantEnrollmentTx u d' = compliantEnrollmentTx u d3" for u unfolding r(6) by (rule compliant_audit)
  have kept: "compliantEnrollmentTx (nd_user_id dev) d \<longrightarrow> compliantEnrollmentTx (nd_user_id dev) d'"
    using r(5) unfolding c c' by (simp add: preserveCompliantEnrollmentTx_def split: if_splits)
  from live n stored meth kept show ?thesis by blast
qed

section \<open>The PIN budget\<close>

text \<open>
  What a pairing token can still afford at an instant: nothing once it is spent or expired, otherwise the misses left
  of its budget (a live token always affords one, the one that expires it).
\<close>

definition pin_left :: "time \<Rightarrow> pairing_token \<Rightarrow> nat" where
  "pin_left now t = (if pairing_live now t then max 1 (PairingPINBudget - pt_pin_failures t) else 0)"

definition pins_left :: "string \<Rightarrow> time \<times> db \<Rightarrow> nat" where
  "pins_left i s = sum_list (map (pin_left (fst s)) (filter (\<lambda>t. pt_id t = i) (pairing_tokens (snd s))))"

text \<open>One guess for an account, some time after the last event; it succeeds as an attack step on token \<open>i\<close> when it misses while \<open>i\<close> is live.\<close>

definition pin_guess :: "string \<times> string \<times> string \<times> nat \<Rightarrow> time \<times> db \<Rightarrow> bool \<times> (time \<times> db)" where
  "pin_guess = (\<lambda>(i, u, h, wait) (clock, d).
     let now = clock + int wait; (r, d') = MatchDevicePairingPIN u h now d
     in (r = None \<and> (\<exists>t \<in> set (pairing_tokens d). pt_id t = i \<and> pt_user_id t = u \<and> pairing_live now t), (now, d')))"

inductive pin_other :: "string \<Rightarrow> time \<times> db \<Rightarrow> time \<times> db \<Rightarrow> bool" for i where
  create: "CreateDevicePairingToken t audit clock d = Inr ((), d') \<Longrightarrow> pt_id t \<noteq> i \<Longrightarrow> pin_other i (clock, d) (clock, d')"
| spend: "pin_other i (clock, d) (clock, snd (spend_pairing j clock d))"
| register: "RegisterNativeDeviceWithPairingToken j dev m audit clock d = Inr (b, d') \<Longrightarrow> pin_other i (clock, d) (clock, d')"
| expire: "at \<le> clock \<Longrightarrow> pin_other i (clock, d) (clock, ExpireDevicePairingTokens u at d)"
| sweep: "pin_other i (clock, d) (clock, DeleteExpiredDevicePairingTokens clock d)"
| account: "revokeUserAccessTx u clock d = Inr d' \<Longrightarrow> pin_other i (clock, d) (clock, d')"
| wait: "clock \<le> later \<Longrightarrow> pairing_tokens d' = pairing_tokens d \<Longrightarrow> pin_other i (clock, d) (later, d')"

lemma pin_left_later: "clock \<le> now \<Longrightarrow> pin_left now t \<le> pin_left clock t"
  by (auto simp: pin_left_def pairing_live_def)

text \<open>A miss as one update: the count goes up, and when the worst reaches the budget every live token of the account expires.\<close>

lemma MatchDevicePairingPIN_miss:
  assumes "MatchDevicePairingPIN u h now d = (None, d')"
  shows "\<exists>f. pairing_tokens d' = sql_update (\<lambda>t. pt_user_id t = u \<and> pairing_live now t) f (pairing_tokens d) \<and>
    (\<forall>t. pt_id (f t) = pt_id t) \<and>
    (\<forall>t \<in> set (pairing_tokens d). pt_user_id t = u \<and> pairing_live now t \<longrightarrow> pin_left now (f t) < pin_left now t)"
proof -
  let ?live = "\<lambda>t. pt_user_id t = u \<and> pairing_live now t"
  let ?bump = "\<lambda>t. t\<lparr>pt_pin_failures := pt_pin_failures t + 1\<rparr>"
  let ?m = "sql_update ?live ?bump (pairing_tokens d)"
  let ?worst = "worst_failures (filter ?live ?m)"
  have d': "pairing_tokens d' = (if ?worst \<ge> PairingPINBudget then sql_update ?live (\<lambda>t. t\<lparr>pt_expires_at := now\<rparr>) ?m else ?m)"
    using assms by (auto simp: MatchDevicePairingPIN_def Let_def split: option.splits)
  have worst: "pt_pin_failures x \<le> fold (\<lambda>t w. max w (pt_pin_failures t)) xs w" if "x \<in> set xs \<or> pt_pin_failures x \<le> w" for x xs w
    using that
  proof (induction xs arbitrary: w)
    case (Cons a xs)
    have "x \<in> set xs \<or> pt_pin_failures x \<le> max w (pt_pin_failures a)" using Cons.prems by auto
    then show ?case using Cons.IH by simp
  qed simp
  show ?thesis
  proof (cases "?worst \<ge> PairingPINBudget")
    case True
    let ?f = "\<lambda>t. (?bump t)\<lparr>pt_expires_at := now\<rparr>"
    have "sql_update ?live (\<lambda>t. t\<lparr>pt_expires_at := now\<rparr>) ?m = sql_update ?live ?f (pairing_tokens d)"
      by (simp add: sql_update_def pairing_live_def)
    moreover have "pin_left now (?f t) < pin_left now t" if "?live t" for t
      using that by (simp add: pin_left_def pairing_live_def)
    ultimately show ?thesis using True d' by (intro exI[of _ ?f]) simp
  next
    case False
    have "pin_left now (?bump t) < pin_left now t" if "t \<in> set (pairing_tokens d)" "?live t" for t
    proof -
      have "?bump t \<in> set (filter ?live ?m)" using that by (auto simp: sql_simps pairing_live_def intro!: image_eqI[of _ _ t])
      then have "pt_pin_failures (?bump t) \<le> ?worst" unfolding worst_failures_def by (intro worst) blast
      with False have "pt_pin_failures t + 1 < PairingPINBudget" by simp
      with that(2) show ?thesis by (simp add: pin_left_def pairing_live_def)
    qed
    then show ?thesis using False d' by (intro exI[of _ ?bump]) simp
  qed
qed

lemma MatchDevicePairingPIN_hit: "MatchDevicePairingPIN u h now d = (Some t, d') \<Longrightarrow> d' = d"
  by (auto simp: MatchDevicePairingPIN_def Let_def split: option.splits)

lemma pin_guess_left:
  assumes "pin_guess (i, u, h, wait) (clock, d) = (ok, (now, d'))"
  shows "pins_left j (now, d') \<le> pins_left j (clock, d)" and "ok \<Longrightarrow> pins_left i (now, d') < pins_left i (clock, d)"
proof -
  obtain r where m: "MatchDevicePairingPIN u h now d = (r, d')" and now: "now = clock + int wait"
      and ok: "ok \<longleftrightarrow> r = None \<and> (\<exists>t \<in> set (pairing_tokens d). pt_id t = i \<and> pt_user_id t = u \<and> pairing_live now t)"
    using assms by (auto simp: pin_guess_def Let_def split: prod.splits)
  have later: "pin_left now t \<le> pin_left clock t" for t using now by (intro pin_left_later) simp
  have miss: "pins_left j (now, d') \<le> pins_left j (clock, d) \<and> (ok \<longrightarrow> pins_left i (now, d') < pins_left i (clock, d))" if r: "r = None"
  proof -
    let ?live = "\<lambda>t. pt_user_id t = u \<and> pairing_live now t"
    from MatchDevicePairingPIN_miss[OF m[unfolded r]] obtain f where f: "pairing_tokens d' = sql_update ?live f (pairing_tokens d)"
        "\<And>t. pt_id (f t) = pt_id t" "\<And>t. t \<in> set (pairing_tokens d) \<Longrightarrow> ?live t \<Longrightarrow> pin_left now (f t) < pin_left now t" by blast
    have w: "pin_left now (if ?live t then f t else t) \<le> pin_left clock t" if "t \<in> set (pairing_tokens d)" for t
      using f(3)[OF that] later[of t] by auto
    have all: "pins_left j (now, d') \<le> pins_left j (clock, d)"
      unfolding pins_left_def f(1) fst_conv snd_conv by (rule sum_list_update_le) (use w f(2) in auto)
    moreover have "pins_left i (now, d') < pins_left i (clock, d)" if ok
    proof -
      from that ok obtain t where t: "t \<in> set (pairing_tokens d)" "pt_id t = i" "?live t" by blast
      have "pin_left now (if ?live t then f t else t) < pin_left clock t" using f(3)[OF t(1,3)] later[of t] t(3) by simp
      then show ?thesis unfolding pins_left_def f(1) fst_conv snd_conv
        by (intro sum_list_update_less[where ?r0.0 = t]) (use w f(2) t in auto)
    qed
    ultimately show ?thesis by blast
  qed
  have hit: "pins_left j (now, d') \<le> pins_left j (clock, d) \<and> \<not> ok" if "r = Some t" for t
    using that m ok MatchDevicePairingPIN_hit[of u h now d t d'] later by (auto simp: pins_left_def intro: sum_list_mono)
  show "pins_left j (now, d') \<le> pins_left j (clock, d)" using miss hit by (cases r) auto
  show "ok \<Longrightarrow> pins_left i (now, d') < pins_left i (clock, d)" using miss hit by (cases r) auto
qed

lemma pins_left_kept: "pairing_tokens d' = pairing_tokens d \<Longrightarrow> pins_left i (clock, d') = pins_left i (clock, d)"
  by (simp add: pins_left_def)

lemma pins_left_update:
  assumes "pairing_tokens d' = sql_update p f (pairing_tokens d)" and "\<And>t. pt_id (f t) = pt_id t"
    and "\<And>t. pin_left clock (f t) \<le> pin_left clock t"
  shows "pins_left i (clock, d') \<le> pins_left i (clock, d)"
  unfolding pins_left_def assms(1) fst_conv snd_conv by (rule sum_list_update_le) (use assms(2,3) in auto)

lemma pin_other_left:
  assumes "pin_other i s s'"
  shows "pins_left i s' \<le> pins_left i s"
  using assms
proof cases
  case (create t audit clock d d')
  from create(3) have "pairing_tokens d' = pairing_tokens d @ [t\<lparr>pt_pin_failures := 0, pt_used_at := None, pt_created_at := clock\<rparr>]"
    unfolding CreateDevicePairingToken_def by (auto elim!: auditedTx_InrD simp: result_iffs sql_insert_def)
  with create show ?thesis by (simp add: pins_left_def)
next
  case (spend clock d j)
  have "pairing_tokens (snd (spend_pairing j clock d)) =
      sql_update (\<lambda>t. pt_id t = j \<and> pairing_live clock t) (\<lambda>t. t\<lparr>pt_used_at := Some clock\<rparr>) (pairing_tokens d)"
    by (simp add: spend_pairing_def Let_def)
  from pins_left_update[OF this] show ?thesis using spend by (simp add: pin_left_def pairing_live_def)
next
  case (register j dev m audit clock d b d')
  show ?thesis
  proof (cases b)
    case True
    with register have "RegisterNativeDeviceWithPairingToken j dev m audit clock d = Inr (True, d')" by simp
    from pins_left_update[OF register_pairing_rows(2)[OF this]] register show ?thesis by (simp add: pin_left_def pairing_live_def)
  next
    case False
    with register have "d' = d"
      by (auto simp: RegisterNativeDeviceWithPairingToken_def Let_def result_iffs split: if_splits prod.splits)
    with register show ?thesis by simp
  qed
next
  case (expire at clock d u)
  have "pairing_tokens (ExpireDevicePairingTokens u at d) =
      sql_update (\<lambda>t. pt_user_id t = u) (\<lambda>t. t\<lparr>pt_expires_at := at\<rparr>) (pairing_tokens d)"
    by (simp add: ExpireDevicePairingTokens_def)
  from pins_left_update[OF this] expire show ?thesis by (simp add: pin_left_def pairing_live_def)
next
  case (sweep clock d)
  then show ?thesis
    using sum_list_filter_le[of "pin_left clock" "\<lambda>t. pt_id t = i" "\<lambda>t. \<not> pt_expires_at t < clock" "pairing_tokens d"]
    by (simp add: pins_left_def DeleteExpiredDevicePairingTokens_def sql_delete_def)
next
  case (account u clock d d')
  from account(3) obtain n d1 where r: "revokeSessionsTx clock (\<lambda>s. ses_user_id s = u) d = Inr (n, d1)"
      and d': "d' = expireAccountTokensTx clock (\<lambda>t. at_user_id t = u) (spendMFATokensTx clock u
        (revokeSessionGrantsTx (\<lambda>_ x. x = u) clock (expirePairingTokensTx clock u d1)))" by (rule revokeUserAccessTx_InrE)
  have "pairing_tokens d1 = pairing_tokens d" using revokeSessionsTx_frame[OF r] by simp
  then have "pairing_tokens d' = sql_update (\<lambda>t. pt_user_id t = u \<and> pt_used_at t = None) (\<lambda>t. t\<lparr>pt_expires_at := clock\<rparr>) (pairing_tokens d)"
    by (simp add: d' revoke_access_defs)
  from pins_left_update[OF this] account show ?thesis by (simp add: pin_left_def pairing_live_def)
next
  case (wait clock later d' d)
  then show ?thesis using pin_left_later by (simp add: pins_left_def) (rule sum_list_mono, simp)
qed

interpretation pin: budgeted pin_guess fst pins_left pin_other
proof unfold_locales
  fix k s s' assume g: "pin_guess k s = (True, s')"
  obtain i u h wait where k: "k = (i, u, h, wait)" by (cases k)
  obtain clock d where s: "s = (clock, d)" by (cases s)
  obtain now d' where s': "s' = (now, d')" by (cases s')
  from pin_guess_left(2)[OF g[unfolded k s s']] show "pins_left (fst k) s' < pins_left (fst k) s" by (simp add: k s s')
next
  fix k s ok s' t assume g: "pin_guess k s = (ok, s')"
  obtain i u h wait where k: "k = (i, u, h, wait)" by (cases k)
  obtain clock d where s: "s = (clock, d)" by (cases s)
  obtain now d' where s': "s' = (now, d')" by (cases s')
  from pin_guess_left(1)[OF g[unfolded k s s']] show "pins_left t s' \<le> pins_left t s" by (simp add: s s')
qed (rule pin_other_left)

text \<open>
  A pairing token survives at most five wrong PINs: over any history of guesses, at whatever pace, interleaved with
  new pairing tokens, registrations, revocations and housekeeping, with a clock that never goes back, at most five
  guesses miss while the token is live; the fifth expires it with every other live token of the account.
\<close>

theorem pairing_pin_budget:
  assumes "budget_run pin_guess fst (pin_other i) i (clock, d) n s" and "distinct (map pt_id (pairing_tokens d))"
  shows "n \<le> 5"
proof -
  have "pins_left i (clock, d) \<le> 5"
  proof -
    have "filter (\<lambda>t. pt_id t = i) xs = [] \<or> (\<exists>t. filter (\<lambda>t. pt_id t = i) xs = [t])" if "distinct (map pt_id xs)" for xs :: "pairing_token list"
      using that by (induction xs) (auto simp: filter_empty_conv image_iff)
    from this[OF assms(2)] show ?thesis by (auto simp: pins_left_def pin_left_def PairingPINBudget_def)
  qed
  with pin.within_budget[OF assms(1)] show ?thesis by simp
qed

section \<open>Pairing in the sample deployment\<close>

definition sample_pairing :: pairing_token where
  "sample_pairing = \<lparr>pt_id = ''p1'', pt_user_id = ''u1'', pt_token_hash = ''ph1'', pt_pin_hash = ''pin1'', pt_sign_on = True,
     pt_pin_failures = 0, pt_expires_at = 1600 * second, pt_used_at = None, pt_created_at = 0\<rparr>"

definition sample_device :: native_device where
  "sample_device = \<lparr>nd_id = ''n1'', nd_user_id = ''u1'', nd_device_name = ''phone'', nd_device_identifier = ''dev1'', nd_platform = '''',
     nd_public_key = Some ''key'', nd_push_token = Some ''pt'', nd_push_token_updated_at_ms = 0, nd_push_transport = '''', nd_push_p256dh = Some '''',
     nd_push_auth = Some '''', nd_is_mfa_approver = True, nd_can_sign_on = True, nd_attested_level = ''tee'', nd_attested_at = None,
     nd_boot_state = ''locked-verified'', nd_attestation_serials = [], nd_last_seen_at = None, nd_created_at = 0\<rparr>"

definition sample_push :: mfa_method where
  "sample_push = \<lparr>mm_id = ''m1'', mm_user_id = ''u1'', mm_method_type = Push, mm_encrypted_secret = '''', mm_is_primary = False,
     mm_last_totp_counter = 0, mm_created_at = 0\<rparr>"

definition pairing_db :: db where
  "pairing_db = sample_db\<lparr>pairing_tokens := [sample_pairing]\<rparr>"

theorem pairing_enrols_one_device_witness:
  "\<exists>d'. RegisterNativeDeviceWithPairingToken ''p1'' sample_device sample_push (\<lambda>_. None) sample_now pairing_db = Inr (True, d') \<and>
     (\<exists>r \<in> set (native_devices d'). nd_public_key r = Some ''key'' \<and> nd_attested_level r = ''tee'')"
proof -
  let ?r = "RegisterNativeDeviceWithPairingToken ''p1'' sample_device sample_push (\<lambda>_. None) sample_now pairing_db"
  have "\<not> isl ?r" "fst (projr ?r)" "distinct (map pt_id (pairing_tokens pairing_db))" by code_simp+
  note run = this
  then have r: "?r = Inr (True, snd (projr ?r))" by (cases ?r) auto
  from pairing_enrols_one_device[OF r run(3) redeem_run.start] r show ?thesis by (auto simp: sample_device_def)
qed

theorem pairing_pin_budget_witness:
  "\<exists>s. budget_run pin_guess fst (pin_other ''p1'') ''p1'' (sample_now, pairing_db) 1 s \<and> (1 :: nat) \<le> 5"
proof -
  let ?g = "pin_guess (''p1'', ''u1'', ''wrong'', 0) (sample_now, pairing_db)"
  have "fst ?g" "distinct (map pt_id (pairing_tokens pairing_db))" by code_simp+
  note run = this
  have g: "?g = (True, snd ?g)" using run(1) by (metis prod.collapse)
  have b: "budget_run pin_guess fst (pin_other ''p1'') ''p1'' (sample_now, pairing_db) 1 (snd ?g)"
    by (rule budget_run_one, rule g) simp
  from pairing_pin_budget[OF b run(2)] b show ?thesis by blast
qed

end
