(* ===== verification/Ky_MFA.thy ===== *)
theory Ky_MFA
  imports Ky_Devices
begin

text \<open>
  Second factors (\<^verbatim>\<open>internal/store/store.go\<close>, \<open>SetMFAMethod\<close> to \<open>HasLegacyRecoveryCodes\<close> and
  \<open>ConsumeDeviceSignOnJTI\<close>): enrolled methods and the TOTP counter, push challenges, the token of a sign-in that
  has proved the password, passkeys and their challenges, recovery codes, and device assertions.
\<close>

section \<open>Methods\<close>

definition SetMFAMethod :: "mfa_method \<Rightarrow> audit_event option \<Rightarrow> time \<Rightarrow> db \<Rightarrow> err + db" where
  "SetMFAMethod m audit now d = andthen (upsert_method (m\<lparr>mm_created_at := now\<rparr>) d) (recordAuditTx audit now)"

definition ConsumeTOTPCounter :: "string \<Rightarrow> int \<Rightarrow> db \<Rightarrow> bool \<times> db" where
  "ConsumeTOTPCounter userID counter d =
     (let p = (\<lambda>m. mm_user_id m = userID \<and> mm_method_type m = Totp \<and> mm_last_totp_counter m < counter)
      in (sql_count p (mfa_methods d) = 1,
          d\<lparr>mfa_methods := sql_update p (\<lambda>m. m\<lparr>mm_last_totp_counter := counter\<rparr>) (mfa_methods d)\<rparr>))"

definition GetMFAMethod :: "string \<Rightarrow> mfa_kind \<Rightarrow> db \<Rightarrow> mfa_method option" where
  "GetMFAMethod userID methodType d = sql_first (\<lambda>m. mm_user_id m = userID \<and> mm_method_type m = methodType) (mfa_methods d)"

definition ListUserMFAMethods :: "string \<Rightarrow> db \<Rightarrow> mfa_method list" where
  "ListUserMFAMethods userID d = filter (\<lambda>m. mm_user_id m = userID) (mfa_methods d)"

section \<open>Push challenges\<close>

definition insert_challenge :: "mfa_challenge \<Rightarrow> db \<Rightarrow> err + db" where
  "insert_challenge ch d =
     andthen (ensure (\<not> (\<exists>c \<in> set (mfa_challenges d). mc_id c = mc_id ch)) ErrUnique) (\<lambda>_.
     andthen (ensure (\<exists>u \<in> set (users d). usr_id u = mc_user_id ch) ErrForeignKey) (\<lambda>_.
     Inr (d\<lparr>mfa_challenges := sql_insert (ch\<lparr>mc_verified_at := None\<rparr>) (mfa_challenges d)\<rparr>)))"

definition CreateMFAChallenge :: "mfa_challenge \<Rightarrow> time \<Rightarrow> db \<Rightarrow> err + db" where
  "CreateMFAChallenge ch now d = insert_challenge (ch\<lparr>mc_created_at := now\<rparr>) d"

definition pending_login :: "string \<Rightarrow> time \<Rightarrow> mfa_challenge \<Rightarrow> bool" where
  "pending_login userID now c \<longleftrightarrow> mc_user_id c = userID \<and> mc_purpose c = ''login'' \<and> mc_status c = ChPending \<and> now < mc_expires_at c"

definition CreateLoginPushChallenge :: "mfa_challenge \<Rightarrow> time \<Rightarrow> db \<Rightarrow> bool tx" where
  "CreateLoginPushChallenge ch now d =
     (if \<exists>c \<in> set (mfa_challenges d). pending_login (mc_user_id ch) now c then Inr (False, d)
      else andthen (insert_challenge (ch\<lparr>mc_created_at := now, mc_purpose := ''login''\<rparr>) d) (\<lambda>d'. Inr (True, d')))"

definition HasPendingLoginPush :: "string \<Rightarrow> time \<Rightarrow> db \<Rightarrow> bool" where
  "HasPendingLoginPush userID now d \<longleftrightarrow> (\<exists>c \<in> set (mfa_challenges d). pending_login userID now c)"

definition CountUnansweredLoginPushes :: "string \<Rightarrow> time \<Rightarrow> time \<Rightarrow> db \<Rightarrow> nat" where
  "CountUnansweredLoginPushes userID since now d =
     sql_count (\<lambda>c. mc_user_id c = userID \<and> mc_purpose c = ''login'' \<and> since < mc_created_at c \<and>
        (mc_status c = ChDenied \<or> mc_status c = ChExpired \<or> (mc_status c = ChPending \<and> mc_expires_at c \<le> now))) (mfa_challenges d)"

definition GetMFAChallenge :: "string \<Rightarrow> db \<Rightarrow> mfa_challenge option" where
  "GetMFAChallenge challengeID d = sql_first (\<lambda>c. mc_id c = challengeID) (mfa_challenges d)"

definition TransitionMFAChallengeStatus :: "string \<Rightarrow> challenge_status \<Rightarrow> challenge_status \<Rightarrow> time \<Rightarrow> db \<Rightarrow> bool \<times> db" where
  "TransitionMFAChallengeStatus challengeID from to now d =
     (let verifiedAt = (if to = ChApproved then Some now else None);
          p = (\<lambda>c. mc_id c = challengeID \<and> mc_status c = from)
      in (sql_count p (mfa_challenges d) = 1,
          d\<lparr>mfa_challenges := sql_update p (\<lambda>c. c\<lparr>mc_status := to, mc_verified_at := verifiedAt\<rparr>) (mfa_challenges d)\<rparr>))"

definition DeleteExpiredMFAChallenges :: "time \<Rightarrow> db \<Rightarrow> db" where
  "DeleteExpiredMFAChallenges now d = d\<lparr>mfa_challenges := sql_delete (\<lambda>c. mc_expires_at c < now - hour) (mfa_challenges d)\<rparr>"

section \<open>The token of a half-finished sign-in\<close>

definition CreateMFAToken :: "mfa_token \<Rightarrow> string \<Rightarrow> time \<Rightarrow> db \<Rightarrow> err + db" where
  "CreateMFAToken t provenPasswordHash now d =
     andthen (ensure (provenPasswordHash = '''' \<or> (\<exists>u \<in> set (users d). usr_id u = mt_user_id t \<and> usr_status u = Active \<and>
        usr_password_hash u = provenPasswordHash)) ErrNotFound) (\<lambda>_.
     andthen (ensure (\<not> (\<exists>x \<in> set (mfa_tokens d). mt_id x = mt_id t \<or> mt_token_hash x = mt_token_hash t)) ErrUnique) (\<lambda>_.
     andthen (ensure (\<exists>u \<in> set (users d). usr_id u = mt_user_id t) ErrForeignKey) (\<lambda>_.
     Inr (d\<lparr>mfa_tokens := sql_insert (t\<lparr>mt_created_at := now, mt_attempts := 0, mt_used_at := None,
        mt_challenge_id := (if mt_challenge_id t = Some '''' then None else mt_challenge_id t)\<rparr>) (mfa_tokens d)\<rparr>))))"

definition mfa_token_open :: "nat \<Rightarrow> time \<Rightarrow> mfa_token \<Rightarrow> bool" where
  "mfa_token_open maxAttempts now t \<longleftrightarrow> mt_used_at t = None \<and> now < mt_expires_at t \<and> mt_attempts t < maxAttempts"

definition GetValidMFAToken :: "string \<Rightarrow> nat \<Rightarrow> time \<Rightarrow> db \<Rightarrow> mfa_token option" where
  "GetValidMFAToken tokenHash maxAttempts now d =
     sql_first (\<lambda>t. mt_token_hash t = tokenHash \<and> mfa_token_open maxAttempts now t) (mfa_tokens d)"

text \<open>The new total, or 0 when no attempt is left. The identifier is the primary key, so at most one row matches.\<close>

definition ReserveMFAAttempt :: "string \<Rightarrow> nat \<Rightarrow> time \<Rightarrow> db \<Rightarrow> nat \<times> db" where
  "ReserveMFAAttempt tokenID maxAttempts now d =
     (let p = (\<lambda>t. mt_id t = tokenID \<and> mfa_token_open maxAttempts now t)
      in (case sql_first p (mfa_tokens d) of None \<Rightarrow> 0 | Some t \<Rightarrow> mt_attempts t + 1,
          d\<lparr>mfa_tokens := sql_update p (\<lambda>t. t\<lparr>mt_attempts := mt_attempts t + 1\<rparr>) (mfa_tokens d)\<rparr>))"

definition MaxMFAAttempts :: nat where
  "MaxMFAAttempts = 5"

definition ConsumeMFAToken :: "string \<Rightarrow> time \<Rightarrow> db \<Rightarrow> bool \<times> db" where
  "ConsumeMFAToken tokenID now d =
     (let p = (\<lambda>t. mt_id t = tokenID \<and> mt_used_at t = None)
      in (sql_count p (mfa_tokens d) = 1, d\<lparr>mfa_tokens := sql_update p (\<lambda>t. t\<lparr>mt_used_at := Some now\<rparr>) (mfa_tokens d)\<rparr>))"

definition DeleteExpiredMFATokens :: "time \<Rightarrow> db \<Rightarrow> db" where
  "DeleteExpiredMFATokens now d = d\<lparr>mfa_tokens := sql_delete (\<lambda>t. mt_expires_at t < now) (mfa_tokens d)\<rparr>"

section \<open>Passkeys\<close>

definition CreateWebAuthnChallenge :: "webauthn_challenge \<Rightarrow> time \<Rightarrow> db \<Rightarrow> err + db" where
  "CreateWebAuthnChallenge ch now d =
     andthen (ensure (\<not> (\<exists>c \<in> set (webauthn_challenges d). wch_id c = wch_id ch \<or> wch_challenge c = wch_challenge ch)) ErrUnique) (\<lambda>_.
     andthen (ensure (\<exists>u \<in> set (users d). usr_id u = wch_user_id ch) ErrForeignKey) (\<lambda>_.
     Inr (d\<lparr>webauthn_challenges := sql_insert (ch\<lparr>wch_created_at := now, wch_used_at := None\<rparr>) (webauthn_challenges d)\<rparr>)))"

definition ConsumeWebAuthnChallenge :: "string \<Rightarrow> string \<Rightarrow> string \<Rightarrow> time \<Rightarrow> db \<Rightarrow> bool \<times> db" where
  "ConsumeWebAuthnChallenge challenge purpose userID now d =
     (let p = (\<lambda>c. wch_challenge c = challenge \<and> wch_purpose c = purpose \<and> wch_user_id c = userID \<and> wch_used_at c = None \<and>
            now < wch_expires_at c)
      in (sql_count p (webauthn_challenges d) = 1,
          d\<lparr>webauthn_challenges := sql_update p (\<lambda>c. c\<lparr>wch_used_at := Some now\<rparr>) (webauthn_challenges d)\<rparr>))"

definition DeleteExpiredWebAuthnChallenges :: "time \<Rightarrow> db \<Rightarrow> db" where
  "DeleteExpiredWebAuthnChallenges now d =
     d\<lparr>webauthn_challenges := sql_delete (\<lambda>c. wch_expires_at c < now \<or> wch_used_at c \<noteq> None) (webauthn_challenges d)\<rparr>"

definition CreateWebAuthnCredential :: "webauthn_credential \<Rightarrow> audit_event option \<Rightarrow> time \<Rightarrow> db \<Rightarrow> err + db" where
  "CreateWebAuthnCredential c audit now d =
     andthen (ensure (\<not> (\<exists>x \<in> set (webauthn_credentials d). wc_id x = wc_id c \<or> wc_credential_id x = wc_credential_id c)) ErrUnique) (\<lambda>_.
     andthen (ensure (\<exists>u \<in> set (users d). usr_id u = wc_user_id c) ErrForeignKey) (\<lambda>_.
     recordAuditTx audit now (d\<lparr>webauthn_credentials := sql_insert (c\<lparr>wc_created_at := now, wc_last_used_at := None\<rparr>)
        (webauthn_credentials d)\<rparr>)))"

definition ListUserWebAuthnCredentials :: "string \<Rightarrow> db \<Rightarrow> webauthn_credential list" where
  "ListUserWebAuthnCredentials userID d = sort_key wc_created_at (filter (\<lambda>c. wc_user_id c = userID) (webauthn_credentials d))"

definition GetWebAuthnCredential :: "string \<Rightarrow> string \<Rightarrow> db \<Rightarrow> webauthn_credential option" where
  "GetWebAuthnCredential userID credentialID d =
     sql_first (\<lambda>c. wc_user_id c = userID \<and> wc_credential_id c = credentialID) (webauthn_credentials d)"

definition RecordWebAuthnUse :: "string \<Rightarrow> nat \<Rightarrow> bool \<Rightarrow> time \<Rightarrow> db \<Rightarrow> db" where
  "RecordWebAuthnUse i signCount backupState usedAt d =
     d\<lparr>webauthn_credentials := sql_update (\<lambda>c. wc_id c = i)
        (\<lambda>c. c\<lparr>wc_sign_count := signCount, wc_backup_state := backupState, wc_last_used_at := Some usedAt\<rparr>) (webauthn_credentials d)\<rparr>"

definition DeleteWebAuthnCredential :: "string \<Rightarrow> string \<Rightarrow> audit_event option \<Rightarrow> time \<Rightarrow> db \<Rightarrow> bool tx" where
  "DeleteWebAuthnCredential i userID audit now d =
     (let was = compliantEnrollmentTx userID d; p = (\<lambda>c. wc_id c = i \<and> wc_user_id c = userID)
      in if sql_count p (webauthn_credentials d) = 0 then Inr (False, d)
         else andthen (recordAuditTx audit now (d\<lparr>webauthn_credentials := sql_delete p (webauthn_credentials d)\<rparr>)) (\<lambda>d1.
              andthen (preserveCompliantEnrollmentTx userID was d1) (\<lambda>_. Inr (True, d1))))"

section \<open>Recovery codes\<close>

fun insert_codes :: "recovery_code list \<Rightarrow> time \<Rightarrow> db \<Rightarrow> err + db" where
  "insert_codes [] now d = Inr d"
| "insert_codes (c # cs) now d =
     andthen (ensure (\<not> (\<exists>x \<in> set (recovery_codes d). rc_id x = rc_id c)) ErrUnique) (\<lambda>_.
     andthen (ensure (\<exists>u \<in> set (users d). usr_id u = rc_user_id c) ErrForeignKey) (\<lambda>_.
     insert_codes cs now (d\<lparr>recovery_codes := sql_insert (c\<lparr>rc_created_at := now, rc_used_at := None\<rparr>) (recovery_codes d)\<rparr>)))"

definition ReplaceRecoveryCodes :: "string \<Rightarrow> recovery_code list \<Rightarrow> audit_event option \<Rightarrow> time \<Rightarrow> db \<Rightarrow> err + db" where
  "ReplaceRecoveryCodes userID codes audit now d =
     andthen (insert_codes codes now (d\<lparr>recovery_codes := sql_delete (\<lambda>c. rc_user_id c = userID) (recovery_codes d)\<rparr>))
       (recordAuditTx audit now)"

definition GetValidRecoveryCodes :: "string \<Rightarrow> db \<Rightarrow> recovery_code list" where
  "GetValidRecoveryCodes userID d = filter (\<lambda>c. rc_user_id c = userID \<and> rc_used_at c = None) (recovery_codes d)"

text \<open>
  Anything but exactly one row is "no code matched" and rolls back; an audit row that cannot be written rolls back with
  its error.
\<close>

definition ConsumeRecoveryCode :: "string \<Rightarrow> string \<Rightarrow> string \<Rightarrow> audit_event option \<Rightarrow> time \<Rightarrow> db \<Rightarrow> bool tx" where
  "ConsumeRecoveryCode userID keyedHash legacyHash audit now d =
     (let p = (\<lambda>c. rc_user_id c = userID \<and> (rc_code_hash c = keyedHash \<or> rc_code_hash c = legacyHash) \<and> rc_used_at c = None)
      in if sql_count p (recovery_codes d) \<noteq> 1 then Inr (False, d)
         else auditedTx audit now (\<lambda>d. Inr (True, d\<lparr>recovery_codes := sql_update p (\<lambda>c. c\<lparr>rc_used_at := Some now\<rparr>) (recovery_codes d)\<rparr>)) d)"

definition HasLegacyRecoveryCodes :: "string \<Rightarrow> db \<Rightarrow> bool" where
  "HasLegacyRecoveryCodes userID d \<longleftrightarrow>
     (\<exists>c \<in> set (recovery_codes d). rc_user_id c = userID \<and> rc_used_at c = None \<and> nocase (take 5 (rc_code_hash c)) \<noteq> ''hmac:'')"

section \<open>Device assertions\<close>

definition ConsumeDeviceSignOnJTI :: "string \<Rightarrow> time \<Rightarrow> time \<Rightarrow> db \<Rightarrow> bool \<times> db" where
  "ConsumeDeviceSignOnJTI jti expiresAt now d =
     (let kept = sql_delete (\<lambda>r. snd r < now) (signon_jtis d)
      in if \<exists>r \<in> set kept. fst r = jti then (False, d\<lparr>signon_jtis := kept\<rparr>)
         else (True, d\<lparr>signon_jtis := sql_insert (jti, expiresAt) kept\<rparr>))"

section \<open>Attempts of a sign-in\<close>

definition reserve_attempt :: "string \<times> time \<Rightarrow> db \<Rightarrow> bool \<times> db" where
  "reserve_attempt = (\<lambda>(i, now) d. let (n, d') = ReserveMFAAttempt i MaxMFAAttempts now d in (n \<noteq> 0, d'))"

definition token_left :: "mfa_token \<Rightarrow> nat" where
  "token_left t = (if mt_used_at t = None then MaxMFAAttempts - mt_attempts t else 0)"

definition attempts_left :: "string \<Rightarrow> db \<Rightarrow> nat" where
  "attempts_left i d = sum_list (map token_left (filter (\<lambda>t. mt_id t = i) (mfa_tokens d)))"

inductive mfa_other :: "string \<Rightarrow> db \<Rightarrow> db \<Rightarrow> bool" for i where
  create: "CreateMFAToken t h now d = Inr d' \<Longrightarrow> mt_id t \<noteq> i \<Longrightarrow> mfa_other i d d'"
| consume: "ConsumeMFAToken j now d = (b, d') \<Longrightarrow> mfa_other i d d'"
| spend: "mfa_other i d (spendMFATokensTx now u d)"
| account: "revokeUserAccessTx u now d = Inr d' \<Longrightarrow> mfa_other i d d'"
| sweep: "mfa_other i d (DeleteExpiredMFATokens now d)"
| elsewhere: "mfa_tokens d' = mfa_tokens d \<Longrightarrow> mfa_other i d d'"

lemma attempts_left_update:
  assumes "mfa_tokens d' = sql_update p f (mfa_tokens d)" and "\<And>t. mt_id (f t) = mt_id t" and "\<And>t. token_left (f t) \<le> token_left t"
  shows "attempts_left i d' \<le> attempts_left i d"
  unfolding attempts_left_def assms(1) by (rule sum_list_update_le) (use assms(2,3) in auto)

lemma spendMFATokensTx_rows: "mfa_tokens (spendMFATokensTx now u d) =
    sql_update (\<lambda>t. mt_user_id t = u \<and> mt_used_at t = None) (\<lambda>t. t\<lparr>mt_used_at := Some now\<rparr>) (mfa_tokens d)"
  by (simp add: spendMFATokensTx_def)

lemma revokeUserAccessTx_mfa:
  assumes "revokeUserAccessTx u now d = Inr d'"
  shows "mfa_tokens d' = sql_update (\<lambda>t. mt_user_id t = u \<and> mt_used_at t = None) (\<lambda>t. t\<lparr>mt_used_at := Some now\<rparr>) (mfa_tokens d)"
proof -
  from assms obtain n d1 where r: "revokeSessionsTx now (\<lambda>s. ses_user_id s = u) d = Inr (n, d1)"
      and d': "d' = expireAccountTokensTx now (\<lambda>t. at_user_id t = u) (spendMFATokensTx now u
        (revokeSessionGrantsTx (\<lambda>_ x. x = u) now (expirePairingTokensTx now u d1)))" by (rule revokeUserAccessTx_InrE)
  have "mfa_tokens d1 = mfa_tokens d" using revokeSessionsTx_frame[OF r] by simp
  then show ?thesis by (simp add: d' revoke_access_defs)
qed

lemma mfa_other_left:
  assumes "mfa_other i d d'"
  shows "attempts_left i d' \<le> attempts_left i d"
  using assms
proof cases
  case (create t h now)
  then show ?thesis by (auto simp: CreateMFAToken_def result_iffs sql_insert_def attempts_left_def)
next
  case (consume j now b)
  then have "mfa_tokens d' = sql_update (\<lambda>t. mt_id t = j \<and> mt_used_at t = None) (\<lambda>t. t\<lparr>mt_used_at := Some now\<rparr>) (mfa_tokens d)"
    by (auto simp: ConsumeMFAToken_def Let_def)
  from attempts_left_update[OF this] show ?thesis by (simp add: token_left_def)
next
  case (spend now u)
  from attempts_left_update[OF spendMFATokensTx_rows] spend show ?thesis by (simp add: token_left_def)
next
  case (account u now)
  from attempts_left_update[OF revokeUserAccessTx_mfa[OF account]] show ?thesis by (simp add: token_left_def)
next
  case (sweep now)
  then show ?thesis
    using sum_list_filter_le[of token_left "\<lambda>t. mt_id t = i" "\<lambda>t. \<not> mt_expires_at t < now" "mfa_tokens d"]
    by (simp add: attempts_left_def DeleteExpiredMFATokens_def sql_delete_def)
next
  case elsewhere
  then show ?thesis by (simp add: attempts_left_def)
qed

lemma reserve_attempt_left:
  assumes "reserve_attempt (i, now) d = (ok, d')"
  shows "attempts_left j d' \<le> attempts_left j d" and "ok \<Longrightarrow> attempts_left i d' < attempts_left i d"
proof -
  let ?p = "\<lambda>t. mt_id t = i \<and> mfa_token_open MaxMFAAttempts now t" and ?f = "\<lambda>t. t\<lparr>mt_attempts := mt_attempts t + 1\<rparr>"
  from assms have d': "mfa_tokens d' = sql_update ?p ?f (mfa_tokens d)" and ok: "ok \<Longrightarrow> \<exists>t \<in> set (mfa_tokens d). ?p t"
    by (auto simp: reserve_attempt_def ReserveMFAAttempt_def Let_def split: option.splits dest: find_SomeD)
  have le: "token_left (?f t) \<le> token_left t" for t by (auto simp: token_left_def)
  from attempts_left_update[OF d' _ le] show "attempts_left j d' \<le> attempts_left j d" by simp
  assume ok
  with ok obtain t where t: "t \<in> set (mfa_tokens d)" "?p t" by blast
  have "token_left (if ?p t then ?f t else t) < token_left t" using t(2) by (auto simp: token_left_def mfa_token_open_def)
  then show "attempts_left i d' < attempts_left i d"
    unfolding attempts_left_def d' by (intro sum_list_update_less[where ?r0.0 = t]) (use le t in auto)
qed

interpretation sign_in: budgeted reserve_attempt fst attempts_left mfa_other
proof unfold_locales
  fix k d d' assume "reserve_attempt k d = (True, d')"
  then show "attempts_left (fst k) d' < attempts_left (fst k) d" using reserve_attempt_left(2)[of "fst k" "snd k" d True d'] by simp
next
  fix k d ok d' t assume "reserve_attempt k d = (ok, d')"
  then show "attempts_left t d' \<le> attempts_left t d" using reserve_attempt_left(1)[of "fst k" "snd k" d ok d' t] by simp
qed (rule mfa_other_left)

lemma sum_list_filter_key:
  assumes "distinct (map key xs)" and "\<And>x. w x \<le> (b :: nat)"
  shows "sum_list (map w (filter (\<lambda>x. key x = i) xs)) \<le> b"
  using assms(1)
proof (induction xs)
  case (Cons a xs)
  show ?case
  proof (cases "key a = i")
    case True
    with Cons.prems have "filter (\<lambda>x. key x = i) xs = []" by (auto simp: filter_empty_conv image_iff)
    with True assms(2)[of a] show ?thesis by simp
  qed (use Cons in simp)
qed simp

text \<open>
  C34. A sign-in that has proved the password gets at most five guesses at the second factor, however the guesses race:
  over any interleaving of reservations with other operations at most five are granted for one token, and none once it
  is spent by a completed sign-in, a revocation or a password change.
\<close>

theorem second_factor_attempts_bounded:
  assumes "budget_run reserve_attempt fst (mfa_other i) i d n d'" and "distinct (map mt_id (mfa_tokens d))"
  shows "n \<le> 5 \<and> ((\<forall>t \<in> set (mfa_tokens d). mt_id t = i \<longrightarrow> mt_used_at t \<noteq> None) \<longrightarrow> n = 0)"
proof -
  have b: "n \<le> attempts_left i d" using sign_in.within_budget[OF assms(1)] by simp
  have "attempts_left i d \<le> 5"
    unfolding attempts_left_def by (rule sum_list_filter_key[OF assms(2)]) (simp add: token_left_def MaxMFAAttempts_def)
  moreover have "attempts_left i d = 0" if "\<forall>t \<in> set (mfa_tokens d). mt_id t = i \<longrightarrow> mt_used_at t \<noteq> None"
    using that by (auto simp: attempts_left_def token_left_def)
  ultimately show ?thesis using b by auto
qed

section \<open>A TOTP time step is accepted once\<close>

definition totp_spent :: "string \<times> int \<Rightarrow> db \<Rightarrow> bool" where
  "totp_spent = (\<lambda>(u, c) d. \<forall>m \<in> set (mfa_methods d). mm_user_id m = u \<and> mm_method_type m = Totp \<longrightarrow> c \<le> mm_last_totp_counter m)"

text \<open>The other operations, while the authenticator stays enrolled: replacing its secret keeps the counter.\<close>

inductive totp_other :: "string \<times> int \<Rightarrow> db \<Rightarrow> db \<Rightarrow> bool" for k where
  set_method: "SetMFAMethod m audit now d = Inr d' \<Longrightarrow>
     mm_user_id m \<noteq> fst k \<or> mm_method_type m \<noteq> Totp \<or> (\<exists>r \<in> set (mfa_methods d). mm_user_id r = mm_user_id m \<and> mm_method_type r = Totp) \<Longrightarrow>
     totp_other k d d'"
| remove: "mfa_methods d' = sql_delete p (mfa_methods d) \<Longrightarrow> totp_other k d d'"
| sync: "totp_other k d (syncPushMethodTx u now d)"

lemma upsert_method_counters:
  assumes "upsert_method m d = Inr d'" and "totp_spent (u, c) d"
    and "mm_user_id m \<noteq> u \<or> mm_method_type m \<noteq> Totp \<or> (\<exists>r \<in> set (mfa_methods d). mm_user_id r = mm_user_id m \<and> mm_method_type r = Totp)"
  shows "totp_spent (u, c) d'"
  using assms by (auto simp: upsert_method_def Let_def result_iffs totp_spent_def sql_simps sql_insert_def split: if_splits)

lemma syncPushMethodTx_totp_rows:
  assumes "m \<in> set (mfa_methods (syncPushMethodTx v now d))" and "mm_method_type m = Totp"
  shows "m \<in> set (mfa_methods d)"
proof -
  let ?d1 = "if push_enrolled v d then d else d\<lparr>mfa_methods := sql_delete (\<lambda>m. mm_user_id m = v \<and> mm_method_type m = Push) (mfa_methods d)\<rparr>"
  have "set (mfa_methods ?d1) \<subseteq> set (mfa_methods d)" by (simp add: sql_simps)
  moreover have "m \<in> set (mfa_methods ?d1)"
    using assms unfolding syncPushMethodTx_def Let_def fresh_id_def sql_insert_def by (auto split: if_splits)
  ultimately show ?thesis by blast
qed

lemma syncPushMethodTx_totp: "totp_spent (u, c) d \<Longrightarrow> totp_spent (u, c) (syncPushMethodTx v now d)"
  using syncPushMethodTx_totp_rows[of _ v now d] unfolding totp_spent_def by blast

lemma ConsumeTOTPCounter_rows:
  assumes "ConsumeTOTPCounter u c d = (ok, d')"
  shows "mfa_methods d' = sql_update (\<lambda>m. mm_user_id m = u \<and> mm_method_type m = Totp \<and> mm_last_totp_counter m < c)
      (\<lambda>m. m\<lparr>mm_last_totp_counter := c\<rparr>) (mfa_methods d)"
    and "ok \<Longrightarrow> \<exists>m \<in> set (mfa_methods d). mm_user_id m = u \<and> mm_method_type m = Totp \<and> mm_last_totp_counter m < c"
  using assms by (auto simp: ConsumeTOTPCounter_def Let_def dest: sql_count_SucD)

interpretation totp: single_use "\<lambda>(u, c) d. ConsumeTOTPCounter u c d" id "\<lambda>_. True" totp_spent totp_other
proof unfold_locales
  fix s k s' assume "(case k of (u, c) \<Rightarrow> ConsumeTOTPCounter u c) s = (True, s')"
  then have c: "ConsumeTOTPCounter (fst k) (snd k) s = (True, s')" by (cases k) simp
  show "totp_spent (id k) s'"
    using ConsumeTOTPCounter_rows(1)[OF c] by (cases k) (auto simp: totp_spent_def sql_simps)
next
  fix k s assume sp: "totp_spent (id k) s"
  obtain u c where k: "k = (u, c)" by (cases k)
  show "\<not> fst ((case k of (u, c) \<Rightarrow> ConsumeTOTPCounter u c) s)"
  proof
    assume "fst ((case k of (u, c) \<Rightarrow> ConsumeTOTPCounter u c) s)"
    then obtain s' where "ConsumeTOTPCounter u c s = (True, s')" by (cases "ConsumeTOTPCounter u c s") (simp add: k)
    from ConsumeTOTPCounter_rows(2)[OF this] sp show False by (auto simp: k totp_spent_def)
  qed
next
  fix t s k ok s' assume sp: "totp_spent t s" and r: "(case k of (u, c) \<Rightarrow> ConsumeTOTPCounter u c) s = (ok, s')"
  then have c: "ConsumeTOTPCounter (fst k) (snd k) s = (ok, s')" by (cases k) simp
  show "totp_spent t s'"
    using sp ConsumeTOTPCounter_rows(1)[OF c] by (cases t) (fastforce simp: totp_spent_def sql_simps)
next
  fix s t s' assume sp: "totp_spent t s" and o: "totp_other t s s'"
  obtain u c where t: "t = (u, c)" by (cases t)
  from o show "totp_spent t s'"
  proof cases
    case (set_method m audit now)
    then obtain d1 es where "upsert_method (m\<lparr>mm_created_at := now\<rparr>) s = Inr d1" "s' = d1\<lparr>audit_events := es\<rparr>"
      by (auto simp: SetMFAMethod_def result_iffs dest!: recordAuditTx_InrD)
    with upsert_method_counters[of "m\<lparr>mm_created_at := now\<rparr>" s d1 u c] set_method(2) sp show ?thesis by (simp add: t totp_spent_def)
  next
    case (remove p)
    with sp show ?thesis by (simp add: t totp_spent_def sql_simps)
  next
    case (sync u' now)
    with sp show ?thesis by (simp add: t syncPushMethodTx_totp)
  qed
qed simp_all

text \<open>
  A one-time code cannot be replayed: while an account keeps its authenticator, a given time step is accepted at most
  once over any interleaving of sign-ins, method changes and device changes, and not at all once the same or a later
  step has been accepted.
\<close>

theorem totp_step_single_use:
  assumes "redeem_run (\<lambda>(u, c) d. ConsumeTOTPCounter u c d) id (totp_other (u, c)) (u, c) d n d'"
  shows "n \<le> 1 \<and> ((\<forall>m \<in> set (mfa_methods d). mm_user_id m = u \<and> mm_method_type m = Totp \<longrightarrow> c \<le> mm_last_totp_counter m) \<longrightarrow> n = 0)"
  using totp.at_most_once[OF assms] by (simp add: totp_spent_def)

section \<open>Recovery codes\<close>

definition recover :: "string \<times> string \<times> string \<times> audit_event option \<times> time \<Rightarrow> db \<Rightarrow> bool \<times> db" where
  "recover = (\<lambda>(u, keyed, legacy, audit, now) d. case ConsumeRecoveryCode u keyed legacy audit now d of Inl _ \<Rightarrow> (False, d) | Inr r \<Rightarrow> r)"

definition codes_left :: "string \<Rightarrow> db \<Rightarrow> nat" where
  "codes_left u d = length (GetValidRecoveryCodes u d)"

inductive recovery_other :: "string \<Rightarrow> db \<Rightarrow> db \<Rightarrow> bool" for u where
  replace: "ReplaceRecoveryCodes v codes audit now d = Inr d' \<Longrightarrow> \<forall>c \<in> set codes. rc_user_id c \<noteq> u \<Longrightarrow> recovery_other u d d'"
| remove: "recovery_codes d' = sql_delete p (recovery_codes d) \<Longrightarrow> recovery_other u d d'"

lemma insert_codes_rows:
  "insert_codes cs now d = Inr d' \<Longrightarrow> \<exists>new. recovery_codes d' = recovery_codes d @ new \<and> map rc_user_id new = map rc_user_id cs"
proof (induction cs now d arbitrary: d' rule: insert_codes.induct)
  case (2 c cs now d)
  let ?r = "c\<lparr>rc_created_at := now, rc_used_at := None\<rparr>"
  from "2.prems" have "insert_codes cs now (d\<lparr>recovery_codes := sql_insert ?r (recovery_codes d)\<rparr>) = Inr d'"
    by (auto simp: result_iffs)
  with "2.prems" "2.IH" obtain new where "recovery_codes d' = sql_insert ?r (recovery_codes d) @ new" "map rc_user_id new = map rc_user_id cs"
    by (auto simp: result_iffs)
  then show ?case by (intro exI[of _ "?r # new"]) (simp add: sql_insert_def)
qed simp

lemma length_filter_filter_le: "length (filter q (filter k t)) \<le> length (filter q t)"
  by (induction t) auto

lemma recovery_other_left:
  assumes "recovery_other u d d'"
  shows "codes_left u d' \<le> codes_left u d"
  using assms
proof cases
  case (replace v codes audit now)
  then obtain d1 es where ins: "insert_codes codes now (d\<lparr>recovery_codes := sql_delete (\<lambda>c. rc_user_id c = v) (recovery_codes d)\<rparr>) = Inr d1"
      and d': "d' = d1\<lparr>audit_events := es\<rparr>"
    by (auto simp: ReplaceRecoveryCodes_def result_iffs dest!: recordAuditTx_InrD)
  from insert_codes_rows[OF ins] obtain new where new: "recovery_codes d1 = sql_delete (\<lambda>c. rc_user_id c = v) (recovery_codes d) @ new"
      "map rc_user_id new = map rc_user_id codes" by auto
  have "rc_user_id ` set new = rc_user_id ` set codes" using arg_cong[OF new(2), of set] by simp
  with replace(2) have none: "filter (\<lambda>c. rc_user_id c = u \<and> rc_used_at c = None) new = []"
    by (auto simp: filter_empty_conv) (metis imageE imageI)
  show ?thesis
    using length_filter_filter_le[of "\<lambda>c. rc_user_id c = u \<and> rc_used_at c = None" "\<lambda>c. \<not> rc_user_id c = v" "recovery_codes d"] none
    by (simp add: codes_left_def GetValidRecoveryCodes_def d' new(1) sql_delete_def del: filter_filter)
next
  case (remove p)
  then show ?thesis
    using length_filter_filter_le[of "\<lambda>c. rc_user_id c = u \<and> rc_used_at c = None" "\<lambda>c. \<not> p c" "recovery_codes d"]
    by (simp add: codes_left_def GetValidRecoveryCodes_def sql_delete_def del: filter_filter)
qed

lemma ConsumeRecoveryCode_TrueD:
  assumes "ConsumeRecoveryCode u keyed legacy audit now d = Inr (True, d')"
  shows "sql_count (\<lambda>c. rc_user_id c = u \<and> (rc_code_hash c = keyed \<or> rc_code_hash c = legacy) \<and> rc_used_at c = None) (recovery_codes d) = 1"
    and "recovery_codes d' = sql_update (\<lambda>c. rc_user_id c = u \<and> (rc_code_hash c = keyed \<or> rc_code_hash c = legacy) \<and> rc_used_at c = None)
      (\<lambda>c. c\<lparr>rc_used_at := Some now\<rparr>) (recovery_codes d)"
  using assms by (auto simp: ConsumeRecoveryCode_def Let_def split: if_splits elim!: auditedTx_InrD)

text \<open>The unused codes of an account, as a sum over its rows.\<close>

definition code_weight :: "recovery_code \<Rightarrow> nat" where
  "code_weight c = (if rc_used_at c = None then 1 else 0)"

lemma unused_sum: "length (filter (\<lambda>c. rc_user_id c = u \<and> rc_used_at c = None) cs) = sum_list (map code_weight (filter (\<lambda>c. rc_user_id c = u) cs))"
  by (induction cs) (auto simp: code_weight_def)

lemma codes_left_sum: "codes_left u d = sum_list (map code_weight (filter (\<lambda>c. rc_user_id c = u) (recovery_codes d)))"
  by (simp add: codes_left_def GetValidRecoveryCodes_def unused_sum)

lemma recover_left:
  assumes "recover (u, keyed, legacy, audit, now) d = (ok, d')"
  shows "codes_left v d' \<le> codes_left v d" and "ok \<Longrightarrow> codes_left u d' < codes_left u d"
proof -
  let ?p = "\<lambda>c. rc_user_id c = u \<and> (rc_code_hash c = keyed \<or> rc_code_hash c = legacy) \<and> rc_used_at c = None"
  let ?f = "\<lambda>c. c\<lparr>rc_used_at := Some now\<rparr>"
  have w: "code_weight (if ?p c then ?f c else c) \<le> code_weight c" for c by (simp add: code_weight_def)
  have *: "codes_left v d' \<le> codes_left v d \<and> codes_left u d' < codes_left u d" if ok
  proof -
    from that assms have "ConsumeRecoveryCode u keyed legacy audit now d = Inr (True, d')" by (auto simp: recover_def split: sum.splits)
    note c = ConsumeRecoveryCode_TrueD[OF this]
    from sql_count_oneD[OF c(1)] obtain x where x: "x \<in> set (recovery_codes d)" "?p x" by blast
    have "codes_left v d' \<le> codes_left v d" unfolding codes_left_sum c(2) by (rule sum_list_update_le) (use w in auto)
    moreover have "code_weight (if ?p x then ?f x else x) < code_weight x" using x(2) by (simp add: code_weight_def)
    then have "codes_left u d' < codes_left u d"
      unfolding codes_left_sum c(2) by (intro sum_list_update_less[where ?r0.0 = x]) (use w x in auto)
    ultimately show ?thesis by blast
  qed
  have "d' = d" if "\<not> ok"
    using that assms
    by (auto simp: recover_def ConsumeRecoveryCode_def Let_def split: sum.splits if_splits elim!: auditedTx_InrD)
  with * show "codes_left v d' \<le> codes_left v d" by (cases ok) auto
  from * show "ok \<Longrightarrow> codes_left u d' < codes_left u d" by blast
qed

interpretation recovery: budgeted recover fst codes_left recovery_other
proof unfold_locales
  fix k d d' assume r: "recover k d = (True, d')"
  obtain u keyed legacy audit now where k: "k = (u, keyed, legacy, audit, now)" by (cases k)
  from recover_left(2)[OF r[unfolded k]] show "codes_left (fst k) d' < codes_left (fst k) d" by (simp add: k)
next
  fix k d ok d' t assume r: "recover k d = (ok, d')"
  obtain u keyed legacy audit now where k: "k = (u, keyed, legacy, audit, now)" by (cases k)
  from recover_left(1)[OF r[unfolded k]] show "codes_left t d' \<le> codes_left t d" .
qed (rule recovery_other_left)

text \<open>
  A set of recovery codes signs in at most as often as it has codes: over any interleaving of attempts, with keyed or
  legacy hashes, and of other operations that issue the account no new set, the number of successful recoveries plus the
  codes still unused never exceeds the unused codes there were.
\<close>

theorem recovery_codes_bounded:
  assumes "budget_run recover fst (recovery_other u) u d n d'"
  shows "n + length (GetValidRecoveryCodes u d') \<le> length (GetValidRecoveryCodes u d)"
  using recovery.within_budget[OF assms] by (simp add: codes_left_def)

section \<open>Passkey challenges and sign-in tokens\<close>

inductive passkey_other :: "string \<Rightarrow> db \<Rightarrow> db \<Rightarrow> bool" for i where
  create: "CreateWebAuthnChallenge c now d = Inr d' \<Longrightarrow> wch_challenge c \<noteq> i \<Longrightarrow> passkey_other i d d'"
| sweep: "passkey_other i d (DeleteExpiredWebAuthnChallenges now d)"
| elsewhere: "webauthn_challenges d' = webauthn_challenges d \<Longrightarrow> passkey_other i d d'"

lemma passkey_other_evolves:
  assumes "passkey_other i d d'"
  shows "evolves wch_challenge (\<lambda>c. wch_used_at c \<noteq> None) i (webauthn_challenges d) (webauthn_challenges d')"
  using assms
proof cases
  case (create c now)
  then have "webauthn_challenges d' = webauthn_challenges d @ [c\<lparr>wch_created_at := now, wch_used_at := None\<rparr>]"
      "wch_challenge c \<notin> wch_challenge ` set (webauthn_challenges d)"
    by (auto simp: CreateWebAuthnChallenge_def result_iffs sql_insert_def)
  with create(2) show ?thesis by (simp add: evolves_insert)
qed (auto simp del: not_None_eq simp: DeleteExpiredWebAuthnChallenges_def intro: evolves_delete evolves_refl)

interpretation passkey: spendable_rows webauthn_challenges wch_challenge "\<lambda>c. wch_used_at c \<noteq> None"
  "\<lambda>(c, purpose, u, now) d. ConsumeWebAuthnChallenge c purpose u now d" fst passkey_other
proof unfold_locales
  fix k d ok d' assume r: "(case k of (c, purpose, u, now) \<Rightarrow> ConsumeWebAuthnChallenge c purpose u now) d = (ok, d')"
  obtain c purpose u now where k: "k = (c, purpose, u, now)" by (cases k)
  let ?p = "\<lambda>x. wch_challenge x = c \<and> wch_purpose x = purpose \<and> wch_user_id x = u \<and> wch_used_at x = None \<and> now < wch_expires_at x"
  from r have "webauthn_challenges d' = sql_update ?p (\<lambda>x. x\<lparr>wch_used_at := Some now\<rparr>) (webauthn_challenges d)"
      and "ok \<Longrightarrow> \<exists>x \<in> set (webauthn_challenges d). ?p x"
    by (auto simp: k ConsumeWebAuthnChallenge_def Let_def dest: sql_count_SucD)
  then show "\<exists>p f. webauthn_challenges d' = sql_update p f (webauthn_challenges d) \<and>
      (\<forall>r. p r \<longrightarrow> wch_challenge r = fst k \<and> \<not> wch_used_at r \<noteq> None \<and> wch_used_at (f r) \<noteq> None) \<and>
      (\<forall>r. wch_challenge (f r) = wch_challenge r) \<and> (ok \<longrightarrow> (\<exists>r \<in> set (webauthn_challenges d). p r))"
    by (intro exI[of _ ?p] exI[of _ "\<lambda>x. x\<lparr>wch_used_at := Some now\<rparr>"]) (simp add: k)
qed (rule passkey_other_evolves)

lemma mfa_other_evolves:
  assumes "mfa_other i d d'"
  shows "evolves mt_id (\<lambda>t. mt_used_at t \<noteq> None) i (mfa_tokens d) (mfa_tokens d')"
  using assms
proof cases
  case (create t h now)
  then obtain r where "mfa_tokens d' = mfa_tokens d @ [r]" "mt_id r = mt_id t" "\<forall>x \<in> set (mfa_tokens d). mt_id x \<noteq> mt_id t"
    by (auto simp: CreateMFAToken_def result_iffs sql_insert_def)
  then have "mfa_tokens d' = mfa_tokens d @ [r]" "mt_id r = mt_id t" "mt_id r \<notin> mt_id ` set (mfa_tokens d)" by auto
  with create(2) show ?thesis by (simp add: evolves_insert)
qed (auto simp del: not_None_eq simp: ConsumeMFAToken_def Let_def spendMFATokensTx_rows revokeUserAccessTx_mfa DeleteExpiredMFATokens_def
       intro!: evolves_delete evolves_refl evolves_update)

interpretation sign_in_token: spendable_rows mfa_tokens mt_id "\<lambda>t. mt_used_at t \<noteq> None"
  "\<lambda>(i, now) d. ConsumeMFAToken i now d" fst mfa_other
proof unfold_locales
  fix k d ok d' assume r: "(case k of (i, now) \<Rightarrow> ConsumeMFAToken i now) d = (ok, d')"
  obtain i now where k: "k = (i, now)" by (cases k)
  let ?p = "\<lambda>t. mt_id t = i \<and> mt_used_at t = None"
  from r have "mfa_tokens d' = sql_update ?p (\<lambda>t. t\<lparr>mt_used_at := Some now\<rparr>) (mfa_tokens d)"
      and "ok \<Longrightarrow> \<exists>t \<in> set (mfa_tokens d). ?p t"
    by (auto simp: k ConsumeMFAToken_def Let_def dest: sql_count_SucD)
  then show "\<exists>p f. mfa_tokens d' = sql_update p f (mfa_tokens d) \<and>
      (\<forall>r. p r \<longrightarrow> mt_id r = fst k \<and> \<not> mt_used_at r \<noteq> None \<and> mt_used_at (f r) \<noteq> None) \<and>
      (\<forall>r. mt_id (f r) = mt_id r) \<and> (ok \<longrightarrow> (\<exists>r \<in> set (mfa_tokens d). p r))"
    by (intro exI[of _ ?p] exI[of _ "\<lambda>t. t\<lparr>mt_used_at := Some now\<rparr>"]) (simp add: k)
qed (rule mfa_other_evolves)

section \<open>Push challenges\<close>

text \<open>Every caller moves a challenge out of \<open>pending\<close>.\<close>

inductive push_reach :: "time \<Rightarrow> db \<Rightarrow> bool" where
  empty: "mfa_challenges d = [] \<Longrightarrow> push_reach now d"
| login: "push_reach now d \<Longrightarrow> CreateLoginPushChallenge c now d = Inr (b, d') \<Longrightarrow> mc_status c = ChPending \<Longrightarrow> push_reach now d'"
| step_up: "push_reach now d \<Longrightarrow> CreateMFAChallenge c now d = Inr d' \<Longrightarrow> mc_purpose c \<noteq> ''login'' \<Longrightarrow> push_reach now d'"
| settle: "push_reach now d \<Longrightarrow> TransitionMFAChallengeStatus i ChPending to now d = (b, d') \<Longrightarrow> to \<noteq> ChPending \<Longrightarrow> push_reach now d'"
| sweep: "push_reach now d \<Longrightarrow> push_reach now (DeleteExpiredMFAChallenges now d)"
| later: "push_reach now d \<Longrightarrow> now \<le> now' \<Longrightarrow> mfa_challenges d' = mfa_challenges d \<Longrightarrow> push_reach now' d'"

definition push_ok :: "time \<Rightarrow> db \<Rightarrow> bool" where
  "push_ok now d \<longleftrightarrow> (\<forall>u. sql_count (pending_login u now) (mfa_challenges d) \<le> 1) \<and>
     (\<forall>c \<in> set (mfa_challenges d). (mc_verified_at c \<noteq> None) \<longrightarrow> mc_status c = ChApproved)"

lemma sql_count_mono: "(\<And>r. r \<in> set t \<Longrightarrow> p r \<Longrightarrow> q r) \<Longrightarrow> sql_count p t \<le> sql_count q t"
  by (induction t) auto

lemma sql_count_append: "sql_count p (xs @ ys) = sql_count p xs + sql_count p ys"
  by (simp add: sql_count_def)

lemma sql_count_delete_le: "sql_count p (sql_delete q t) \<le> sql_count p t"
  by (induction t) auto

lemma sql_count_update_le: "(\<And>r. q r \<Longrightarrow> p (f r) \<Longrightarrow> p r) \<Longrightarrow> sql_count p (sql_update q f t) \<le> sql_count p t"
  by (induction t) auto

lemma push_reach_ok: "push_reach now d \<Longrightarrow> push_ok now d"
proof (induction rule: push_reach.induct)
  case (empty d now)
  then show ?case by (simp add: push_ok_def)
next
  case (login now d c b d')
  show ?case
  proof (cases b)
    case True
    let ?c = "c\<lparr>mc_created_at := now, mc_purpose := ''login'', mc_verified_at := None\<rparr>"
    from True login(2) have none: "\<forall>x \<in> set (mfa_challenges d). \<not> pending_login (mc_user_id c) now x"
        and d': "mfa_challenges d' = mfa_challenges d @ [?c]"
      by (auto simp: CreateLoginPushChallenge_def insert_challenge_def result_iffs sql_insert_def split: if_splits)
    have "sql_count (pending_login u now) (mfa_challenges d') \<le> 1" for u
    proof (cases "u = mc_user_id c")
      case True
      with none have "sql_count (pending_login u now) (mfa_challenges d) = 0" by (simp add: sql_count_0_iff)
      then show ?thesis by (simp add: d' sql_count_append)
    next
      case False
      then have "\<not> pending_login u now ?c" by (simp add: pending_login_def)
      then show ?thesis using login.IH by (simp add: d' sql_count_append push_ok_def)
    qed
    then show ?thesis using login.IH by (auto simp: push_ok_def d')
  next
    case False
    with login show ?thesis by (auto simp: CreateLoginPushChallenge_def result_iffs split: if_splits)
  qed
next
  case (step_up now d c d')
  let ?c = "c\<lparr>mc_created_at := now, mc_verified_at := None\<rparr>"
  from step_up(2) have d': "mfa_challenges d' = mfa_challenges d @ [?c]"
    by (auto simp: CreateMFAChallenge_def insert_challenge_def result_iffs sql_insert_def)
  have "\<not> pending_login u now ?c" for u using step_up(3) by (simp add: pending_login_def)
  then show ?case using step_up.IH by (auto simp: push_ok_def d' sql_count_append)
next
  case (settle now d i to b d')
  let ?p = "\<lambda>c. mc_id c = i \<and> mc_status c = ChPending"
  let ?f = "\<lambda>c. c\<lparr>mc_status := to, mc_verified_at := if to = ChApproved then Some now else None\<rparr>"
  from settle(2) have d': "mfa_challenges d' = sql_update ?p ?f (mfa_challenges d)"
    by (auto simp: TransitionMFAChallengeStatus_def Let_def)
  have "sql_count (pending_login u now) (mfa_challenges d') \<le> sql_count (pending_login u now) (mfa_challenges d)" for u
    unfolding d' by (rule sql_count_update_le) (use settle(3) in \<open>simp add: pending_login_def\<close>)
  then have "\<forall>u. sql_count (pending_login u now) (mfa_challenges d') \<le> 1"
    using settle.IH unfolding push_ok_def by (meson le_trans)
  then show ?case using settle.IH by (auto simp: push_ok_def d' sql_simps)
next
  case (sweep now d)
  have "sql_count (pending_login u now) (mfa_challenges (DeleteExpiredMFAChallenges now d)) \<le> sql_count (pending_login u now) (mfa_challenges d)" for u
    by (simp add: DeleteExpiredMFAChallenges_def sql_count_delete_le)
  then have "\<forall>u. sql_count (pending_login u now) (mfa_challenges (DeleteExpiredMFAChallenges now d)) \<le> 1"
    using sweep.IH unfolding push_ok_def by (meson le_trans)
  then show ?case using sweep.IH by (simp add: push_ok_def DeleteExpiredMFAChallenges_def sql_simps)
next
  case (later now d now' d')
  have "sql_count (pending_login u now') (mfa_challenges d') \<le> sql_count (pending_login u now) (mfa_challenges d)" for u
    unfolding later(3) by (rule sql_count_mono) (use later(2) in \<open>simp add: pending_login_def\<close>)
  then show ?case using later.IH unfolding push_ok_def later(3) by (meson le_trans)
qed

section \<open>Second factors in the sample deployment\<close>

definition sample_mfa_token :: mfa_token where
  "sample_mfa_token = \<lparr>mt_id = ''t1'', mt_user_id = ''u1'', mt_token_hash = ''th1'', mt_challenge_id = None, mt_attempts = 0,
     mt_expires_at = 1300 * second, mt_used_at = None, mt_created_at = 0, mt_primary_at = Some sample_now, mt_interaction_hash = ''''\<rparr>"

definition sample_totp :: mfa_method where
  "sample_totp = \<lparr>mm_id = ''m2'', mm_user_id = ''u1'', mm_method_type = Totp, mm_encrypted_secret = ''sealed'', mm_is_primary = True,
     mm_last_totp_counter = 0, mm_created_at = 0\<rparr>"

definition sample_recovery :: "string \<Rightarrow> recovery_code" where
  "sample_recovery i = \<lparr>rc_id = i, rc_user_id = ''u1'', rc_code_hash = ''hmac:'' @ i, rc_used_at = None, rc_created_at = 0\<rparr>"

definition factor_db :: db where
  "factor_db = sample_db\<lparr>mfa_tokens := [sample_mfa_token], mfa_methods := [sample_totp],
     recovery_codes := [sample_recovery ''r1'', sample_recovery ''r2'']\<rparr>"

theorem second_factor_attempts_bounded_witness:
  "\<exists>d'. budget_run reserve_attempt fst (mfa_other ''t1'') ''t1'' factor_db 1 d' \<and> (1 :: nat) \<le> 5"
proof -
  let ?g = "reserve_attempt (''t1'', sample_now) factor_db"
  have "fst ?g" "distinct (map mt_id (mfa_tokens factor_db))" by code_simp+
  note run = this
  have g: "?g = (True, snd ?g)" using run(1) by (metis prod.collapse)
  have b: "budget_run reserve_attempt fst (mfa_other ''t1'') ''t1'' factor_db 1 (snd ?g)" by (rule budget_run_one, rule g) simp
  from second_factor_attempts_bounded[OF b run(2)] b show ?thesis by blast
qed

theorem totp_step_single_use_witness:
  "\<exists>d'. ConsumeTOTPCounter ''u1'' 7 factor_db = (True, d') \<and> \<not> fst (ConsumeTOTPCounter ''u1'' 7 d')"
proof -
  let ?redeem = "\<lambda>(u, c). ConsumeTOTPCounter u c"
  have "fst (ConsumeTOTPCounter ''u1'' 7 factor_db)" by code_simp
  then obtain d' where c0: "ConsumeTOTPCounter ''u1'' 7 factor_db = (True, d')"
    by (cases "ConsumeTOTPCounter ''u1'' 7 factor_db") auto
  then have c: "?redeem (''u1'', 7) factor_db = (True, d')" by simp
  have "\<not> fst (?redeem (''u1'', 7) d')"
  proof
    assume "fst (?redeem (''u1'', 7) d')"
    then obtain d2 where c2: "?redeem (''u1'', 7) d' = (True, d2)" by (cases "ConsumeTOTPCounter ''u1'' 7 d'") auto
    have "redeem_run ?redeem id (totp_other (''u1'', 7)) (''u1'', 7) factor_db 2 d2"
      by (rule redeem_run_two, rule c, rule c2) simp_all
    from totp_step_single_use[OF this] show False by simp
  qed
  with c0 show ?thesis by auto
qed

theorem recovery_codes_bounded_witness:
  "\<exists>d'. recover (''u1'', ''hmac:r1'', ''r1'', None, sample_now) factor_db = (True, d') \<and> length (GetValidRecoveryCodes ''u1'' d') \<le> 1"
proof -
  let ?g = "recover (''u1'', ''hmac:r1'', ''r1'', None, sample_now) factor_db"
  have "fst ?g" "length (GetValidRecoveryCodes ''u1'' factor_db) = 2" by code_simp+
  note run = this
  have g: "?g = (True, snd ?g)" using run(1) by (metis prod.collapse)
  have b: "budget_run recover fst (recovery_other ''u1'') ''u1'' factor_db 1 (snd ?g)" by (rule budget_run_one, rule g) simp
  from recovery_codes_bounded[OF b] run(2) g show ?thesis by auto
qed

end
