(* ===== verification/Ky_Push.thy ===== *)
theory Ky_Push
  imports Ky_MFA
begin

text \<open>
  The second-factor engine (\<^verbatim>\<open>internal/mfa/mfa.go\<close>): the message a device signs to answer a push
  challenge, the decision on a signed answer, and the checks around the store operations. Signature verification, the hash,
  the unsealing of stored secrets and the TOTP algorithm (a third-party package) are parameters. Trimming and case folding
  are those of ASCII text.
\<close>

section \<open>Signed messages\<close>

fun dec_nat :: "nat \<Rightarrow> string" where
  "dec_nat n = (if n < 10 then [char_of (48 + n)] else dec_nat (n div 10) @ [char_of (48 + n mod 10)])"

declare dec_nat.simps [simp del]

definition FormatInt :: "int \<Rightarrow> string" where
  "FormatInt i = (if i < 0 then CHR ''-'' # dec_nat (nat (- i)) else dec_nat (nat i))"

fun join :: "string list \<Rightarrow> string" where
  "join [] = ''''"
| "join [s] = s"
| "join (s # t # ss) = s @ ''|'' @ join (t # ss)"

record push_binding =
  pu_origin :: string
  pu_user_id :: string
  pu_device_id :: string
  pu_challenge_id :: string
  pu_purpose :: string
  pu_expires_at_ms :: int

definition has_bar :: "string \<Rightarrow> bool" where
  "has_bar s \<longleftrightarrow> CHR ''|'' \<in> set s"

definition PushResponseMessage :: "push_binding \<Rightarrow> bool \<Rightarrow> string \<Rightarrow> err + string" where
  "PushResponseMessage b approve selectedDigits =
     andthen (ensure (pu_purpose b = ''login'' \<or> pu_purpose b = ''step_up'') ErrPushMessage) (\<lambda>_.
     andthen (ensure (\<forall>f \<in> set [pu_origin b, pu_user_id b, pu_device_id b, pu_challenge_id b]. f \<noteq> '''' \<and> \<not> has_bar f) ErrPushMessage) (\<lambda>_.
     andthen (ensure (\<not> has_bar selectedDigits) ErrPushMessage) (\<lambda>_.
     Inr (join [''kyidentity-push-v2'', pu_origin b, pu_user_id b, pu_device_id b, pu_challenge_id b, pu_purpose b,
        FormatInt (pu_expires_at_ms b), if approve then ''approve'' else ''deny'', selectedDigits]))))"

definition PushTokenRefreshMessage ::
    "(string \<Rightarrow> string) \<Rightarrow> string \<Rightarrow> string \<Rightarrow> int \<Rightarrow> string \<Rightarrow> string \<Rightarrow> string \<Rightarrow> string \<Rightarrow> err + string" where
  "PushTokenRefreshMessage sha origin deviceID issuedAtMS transport pushToken p256dh auth =
     andthen (ensure (\<forall>f \<in> set [origin, deviceID, transport]. f \<noteq> '''') ErrInvalidInput) (\<lambda>_.
     andthen (ensure (\<forall>f \<in> set [origin, deviceID, transport, p256dh, auth]. \<not> has_bar f) ErrInvalidInput) (\<lambda>_.
     Inr (join [''kyidentity-push-token-v2'', origin, deviceID, FormatInt issuedAtMS, transport, sha pushToken, p256dh, auth])))"

section \<open>Platforms and transports\<close>

definition PlatformAllowsTransport :: "string \<Rightarrow> string \<Rightarrow> bool" where
  "PlatformAllowsTransport platform transport =
     (if transport = ''fcm'' then platform \<noteq> ''linux'' else if transport = ''ubuntupush'' then platform = ''linux'' else True)"

definition is_space :: "char \<Rightarrow> bool" where
  "is_space c \<longleftrightarrow> (let n = (of_char c :: nat) in n = 32 \<or> 9 \<le> n \<and> n \<le> 13)"

definition trim_space :: "string \<Rightarrow> string" where
  "trim_space s = rev (dropWhile is_space (rev (dropWhile is_space s)))"

definition normalizeDevicePlatform :: "string \<Rightarrow> err + string" where
  "normalizeDevicePlatform platform =
     (let p = nocase (trim_space platform)
      in if p = '''' \<or> p = ''android'' then Inr ''android''
         else if p = ''ios'' \<or> p = ''macos'' \<or> p = ''linux'' then Inr p else Inl ErrInvalidInput)"

section \<open>Creating a challenge\<close>

text \<open>The draws are numbers from 10 to 99; the loop gives up after 200 tries that found no third decoy.\<close>

function decoys_from :: "(nat \<Rightarrow> nat) \<Rightarrow> nat \<Rightarrow> nat list \<Rightarrow> nat list \<Rightarrow> nat \<Rightarrow> err + nat list" where
  "decoys_from draw k seen decoys attempts =
     (if length decoys \<ge> 3 then Inr decoys
      else if attempts > 200 then Inl ErrOutOfBounds
      else if draw k \<in> set seen then decoys_from draw (Suc k) seen decoys (Suc attempts)
      else decoys_from draw (Suc k) (draw k # seen) (decoys @ [draw k]) (Suc attempts))"
  by pat_completeness auto
termination by (relation "measure (\<lambda>(draw, k, seen, decoys, attempts). 201 - attempts)") auto

datatype send_result = NoSender | Sent | StaleToken | SendFailed

definition dispatchPushChallenge :: "(native_device \<Rightarrow> send_result) \<Rightarrow> string \<Rightarrow> db \<Rightarrow> db" where
  "dispatchPushChallenge send userID d =
     fold (\<lambda>dev e. if nd_is_mfa_approver dev \<and> or_empty (nd_push_token dev) \<noteq> '''' \<and> send dev = StaleToken
                   then ClearNativeDevicePushToken dev e else e)
       (ListUserNativeDevices userID d) d"

definition truncate_second :: "time \<Rightarrow> time" where
  "truncate_second t = t - t mod second"

definition CreatePushChallenge ::
    "(nat \<Rightarrow> nat) \<Rightarrow> (nat list \<Rightarrow> string) \<Rightarrow> (native_device \<Rightarrow> send_result) \<Rightarrow> string \<Rightarrow> string \<Rightarrow> time \<Rightarrow> db \<Rightarrow> mfa_challenge tx" where
  "CreatePushChallenge draw marshal send userID purpose now d =
     andthen (ensure (purpose = ''login'' \<or> purpose = ''step_up'') ErrInvalidInput) (\<lambda>_.
     andthen (decoys_from draw 1 [draw 0] [] 0) (\<lambda>decoys.
     let (i, d1) = fresh_id d;
         ch = \<lparr>mc_id = i, mc_user_id = userID, mc_method_type = ''push'', mc_match_digits = dec_nat (draw 0),
               mc_decoy_digits = marshal decoys, mc_status = ChPending, mc_purpose = purpose,
               mc_expires_at = truncate_second (now + 5 * minute), mc_created_at = now, mc_verified_at = None\<rparr>
     in andthen (if purpose = ''login''
                 then andthen (CreateLoginPushChallenge ch now d1) (\<lambda>(created, d2). if created then Inr d2 else Inl ErrPushPending)
                 else CreateMFAChallenge ch now d1) (\<lambda>d2.
        Inr (ch, dispatchPushChallenge send userID d2))))"

section \<open>Answering a challenge\<close>

definition verifyDeviceSignature ::
    "(string \<Rightarrow> string \<Rightarrow> string \<Rightarrow> bool) \<Rightarrow> string \<Rightarrow> mfa_challenge \<Rightarrow> string \<Rightarrow> bool \<Rightarrow> string \<Rightarrow> string \<Rightarrow> db \<Rightarrow> err + native_device" where
  "verifyDeviceSignature verify origin ch deviceID approve selectedDigits signature d =
     andthen (ensure (\<exists>x \<in> set (ListUserNativeDevices (mc_user_id ch) d). nd_is_mfa_approver x \<and> or_empty (nd_public_key x) \<noteq> '''') ErrUnsignedDevice) (\<lambda>_.
     case GetNativeDevice deviceID d of
       None \<Rightarrow> Inl ErrSignature
     | Some dev \<Rightarrow>
         andthen (ensure (nd_user_id dev = mc_user_id ch \<and> nd_is_mfa_approver dev \<and> or_empty (nd_public_key dev) \<noteq> '''') ErrSignature) (\<lambda>_.
         case PushResponseMessage \<lparr>pu_origin = origin, pu_user_id = mc_user_id ch, pu_device_id = nd_id dev, pu_challenge_id = mc_id ch,
                pu_purpose = mc_purpose ch, pu_expires_at_ms = mc_expires_at ch div 1000000\<rparr> approve selectedDigits of
           Inl _ \<Rightarrow> Inl ErrSignature
         | Inr msg \<Rightarrow> if verify (or_empty (nd_public_key dev)) msg signature then Inr dev else Inl ErrSignature))"

text \<open>The result is the verdict, the device named in it, and the error if any; an expired challenge is settled even then.\<close>

definition RespondPushChallenge ::
    "(string \<Rightarrow> string \<Rightarrow> string \<Rightarrow> bool) \<Rightarrow> string \<Rightarrow> string \<Rightarrow> string \<Rightarrow> string \<Rightarrow> bool \<Rightarrow> string \<Rightarrow> time \<Rightarrow> db
      \<Rightarrow> (bool \<times> string \<times> err option) \<times> db" where
  "RespondPushChallenge verify origin challengeID namedDeviceID selectedDigits approve signature now d =
     (case GetMFAChallenge challengeID d of
        None \<Rightarrow> ((False, '''', Some ErrNotFound), d)
      | Some ch \<Rightarrow>
         if mc_status ch \<noteq> ChPending then ((False, '''', Some ErrChallengeState), d)
         else if mc_expires_at ch < now
         then ((False, '''', Some ErrChallengeState), snd (TransitionMFAChallengeStatus (mc_id ch) ChPending ChExpired now d))
         else case verifyDeviceSignature verify origin ch namedDeviceID approve selectedDigits signature d of
             Inl e \<Rightarrow> ((False, '''', Some e), d)
           | Inr dev \<Rightarrow>
              (let verdict = approve \<and> selectedDigits = mc_match_digits ch;
                   (ok, d') = TransitionMFAChallengeStatus (mc_id ch) ChPending (if verdict then ChApproved else ChDenied) now d
               in if \<not> ok then ((False, nd_id dev, Some ErrChallengeState), d')
                  else ((verdict, nd_id dev, None), d')))"

definition CheckPushChallenge :: "string \<Rightarrow> time \<Rightarrow> db \<Rightarrow> (err + (challenge_status \<times> string)) \<times> db" where
  "CheckPushChallenge challengeID now d =
     (case GetMFAChallenge challengeID d of
        None \<Rightarrow> (Inl ErrNotFound, d)
      | Some ch \<Rightarrow>
         if mc_status ch = ChPending \<and> mc_expires_at ch < now
         then (let (ok, d') = TransitionMFAChallengeStatus (mc_id ch) ChPending ChExpired now d
               in (Inr (if ok then ChExpired else mc_status ch, mc_user_id ch), d'))
         else (Inr (mc_status ch, mc_user_id ch), d))"

section \<open>Other factors\<close>

definition VerifyUserTOTP ::
    "(string \<Rightarrow> string \<Rightarrow> err + string) \<Rightarrow> (string \<Rightarrow> string \<Rightarrow> time \<Rightarrow> int option) \<Rightarrow> string \<Rightarrow> string \<Rightarrow> time \<Rightarrow> db \<Rightarrow> bool tx" where
  "VerifyUserTOTP unseal validate userID code now d =
     (case GetMFAMethod userID Totp d of
        None \<Rightarrow> Inl ErrNotEnrolled
      | Some method \<Rightarrow>
         andthen (ensure (mm_encrypted_secret method \<noteq> '''') ErrNotEnrolled) (\<lambda>_.
         andthen (unseal (mm_user_id method) (mm_encrypted_secret method)) (\<lambda>secret.
         case validate secret code now of
           None \<Rightarrow> Inr (False, d)
         | Some counter \<Rightarrow> Inr (ConsumeTOTPCounter userID counter d))))"

definition ReserveEngineAttempt :: "string \<Rightarrow> time \<Rightarrow> db \<Rightarrow> err + (nat \<times> db)" where
  "ReserveEngineAttempt tokenID now d =
     (let (n, d') = ReserveMFAAttempt tokenID MaxMFAAttempts now d in if n = 0 then Inl ErrMFAAttemptsExhausted else Inr (n, d'))"

definition ValidateMFAToken :: "(string \<Rightarrow> string) \<Rightarrow> string \<Rightarrow> time \<Rightarrow> db \<Rightarrow> err + mfa_token" where
  "ValidateMFAToken sha rawToken now d =
     andthen (ensure (rawToken \<noteq> '''' \<and> length rawToken \<le> 256) ErrMFAToken) (\<lambda>_.
     case GetValidMFAToken (sha (trim_space rawToken)) MaxMFAAttempts now d of None \<Rightarrow> Inl ErrMFAToken | Some t \<Rightarrow> Inr t)"

definition ascii_upper :: "char \<Rightarrow> char" where
  "ascii_upper c = (let n = (of_char c :: nat) in if 97 \<le> n \<and> n \<le> 122 then char_of (n - 32) else c)"

definition normalizeRecoveryCode :: "string \<Rightarrow> string" where
  "normalizeRecoveryCode code = map ascii_upper (filter (\<lambda>c. c \<noteq> CHR ''-'') (trim_space code))"

definition recoveryCodeHash :: "(string \<Rightarrow> string) \<Rightarrow> string \<Rightarrow> string \<Rightarrow> string" where
  "recoveryCodeHash hmac userID normalized = ''hmac:'' @ hmac (userID @ ''|'' @ normalized)"

definition VerifyAndConsumeRecoveryCode ::
    "(string \<Rightarrow> string) \<Rightarrow> (string \<Rightarrow> string) \<Rightarrow> string \<Rightarrow> string \<Rightarrow> audit_event option \<Rightarrow> time \<Rightarrow> db \<Rightarrow> bool tx" where
  "VerifyAndConsumeRecoveryCode hmac sha userID code audit now d =
     (let normalized = normalizeRecoveryCode code
      in ConsumeRecoveryCode userID (recoveryCodeHash hmac userID normalized) (sha normalized) audit now d)"

text \<open>The rendering computes on binary numerals, so that a millisecond timestamp evaluates.\<close>

definition dec_int :: "int \<Rightarrow> string" where
  "dec_int i = dec_nat (nat i)"

lemma dec_int_code [code]: "dec_int i = (if i < 10 then [char_of (48 + nat i)] else dec_int (i div 10) @ [char_of (48 + nat (i mod 10))])"
  unfolding dec_int_def by (subst dec_nat.simps) (auto simp: nat_div_distrib nat_mod_distrib nat_less_iff)

lemma FormatInt_code [code]: "FormatInt i = (if i < 0 then CHR ''-'' # dec_int (- i) else dec_int i)"
  by (simp add: FormatInt_def dec_int_def)

section \<open>Messages state what they bind\<close>

lemma digit_char: "n < 10 \<Longrightarrow> (of_char (char_of (48 + n) :: char) :: nat) = 48 + n"
  by (simp add: of_char_of)

lemma dec_nat_chars: "c \<in> set (dec_nat n) \<Longrightarrow> 48 \<le> (of_char c :: nat) \<and> (of_char c :: nat) \<le> 57"
proof (induction n arbitrary: c rule: dec_nat.induct)
  case (1 n)
  show ?case
  proof (cases "n < 10")
    case True
    then have "dec_nat n = [char_of (48 + n)]" by (subst dec_nat.simps) simp
    with "1.prems" True show ?thesis by (simp add: of_char_of)
  next
    case False
    then have "dec_nat n = dec_nat (n div 10) @ [char_of (48 + n mod 10)]" by (subst dec_nat.simps) simp
    with "1.prems" consider "c \<in> set (dec_nat (n div 10))" | "c = char_of (48 + n mod 10)" by auto
    then show ?thesis
    proof cases
      case 1
      with "1.IH"[OF False] show ?thesis by blast
    next
      case 2
      have "n mod 10 < 10" by simp
      with 2 show ?thesis by (simp add: of_char_of)
    qed
  qed
qed

lemma dec_nat_not_empty: "dec_nat n \<noteq> []"
  by (subst dec_nat.simps) simp

text \<open>The number a digit string reads as; it undoes the rendering.\<close>

definition read_dec :: "string \<Rightarrow> nat" where
  "read_dec s = fold (\<lambda>c n. 10 * n + (of_char c - 48)) s 0"

lemma read_dec_nat: "read_dec (dec_nat n) = n"
proof (induction n rule: dec_nat.induct)
  case (1 n)
  show ?case
  proof (cases "n < 10")
    case True
    then have "dec_nat n = [char_of (48 + n)]" by (subst dec_nat.simps) simp
    with True show ?thesis by (simp add: read_dec_def of_char_of)
  next
    case False
    then have d: "dec_nat n = dec_nat (n div 10) @ [char_of (48 + n mod 10)]" by (subst dec_nat.simps) simp
    have "(of_char (char_of (48 + n mod 10) :: char) :: nat) = 48 + n mod 10" by (rule digit_char) simp
    with "1.IH"[OF False] show ?thesis by (simp add: d read_dec_def)
  qed
qed

lemma FormatInt_inj: "FormatInt i = FormatInt j \<Longrightarrow> i = j"
proof -
  assume eq: "FormatInt i = FormatInt j"
  have minus: "CHR ''-'' \<notin> set (dec_nat n)" for n using dec_nat_chars[of "CHR ''-''" n] by auto
  have inj: "dec_nat m = dec_nat n \<Longrightarrow> m = n" for m n by (metis read_dec_nat)
  have hd: "dec_nat n \<noteq> CHR ''-'' # x" for n x using minus[of n] by auto
  show "i = j"
    using eq hd inj[of "nat (- i)" "nat (- j)"] inj[of "nat i" "nat j"] by (auto simp: FormatInt_def split: if_splits) metis+
qed

lemma FormatInt_no_bar: "\<not> has_bar (FormatInt i)"
  using dec_nat_chars[of "CHR ''|''"] by (auto simp: has_bar_def FormatInt_def)

lemma append_bar_inj:
  "\<not> has_bar s \<Longrightarrow> \<not> has_bar t \<Longrightarrow> s @ ''|'' @ x = t @ ''|'' @ y \<Longrightarrow> s = t \<and> x = y"
proof (induction s arbitrary: t)
  case Nil
  then show ?case by (cases t) (auto simp: has_bar_def)
next
  case (Cons c s)
  then show ?case by (cases t) (auto simp: has_bar_def)
qed

lemma join_no_bar: "\<not> has_bar s \<Longrightarrow> s \<noteq> t @ ''|'' @ x"
  by (auto simp: has_bar_def)

text \<open>Fields without the separator can be read back from the joined string.\<close>

lemma join_inj:
  assumes "\<forall>s \<in> set ss. \<not> has_bar s" and "\<forall>t \<in> set ts. \<not> has_bar t" and "length ss = length ts" and "join ss = join ts"
  shows "ss = ts"
  using assms
proof (induction ss arbitrary: ts rule: join.induct)
  case (3 s t ss)
  from "3.prems"(3) obtain s' t' ts' where ts: "ts = s' # t' # ts'" by (metis Suc_length_conv list.size(4))
  have "s = s' \<and> join (t # ss) = join (t' # ts')"
    using "3.prems" append_bar_inj[of s s' "join (t # ss)" "join (t' # ts')"] by (simp add: ts)
  with "3.IH"[of "t' # ts'"] "3.prems" show ?case by (simp add: ts)
next
  case (2 s)
  then show ?case by (cases ts) auto
qed simp

lemma PushResponseMessage_InrD:
  assumes "PushResponseMessage b approve digits = Inr m"
  shows "m = join [''kyidentity-push-v2'', pu_origin b, pu_user_id b, pu_device_id b, pu_challenge_id b, pu_purpose b,
      FormatInt (pu_expires_at_ms b), if approve then ''approve'' else ''deny'', digits]"
    and "\<forall>s \<in> set [''kyidentity-push-v2'', pu_origin b, pu_user_id b, pu_device_id b, pu_challenge_id b, pu_purpose b,
      FormatInt (pu_expires_at_ms b), if approve then ''approve'' else ''deny'', digits]. \<not> has_bar s"
proof -
  from assms have p: "pu_purpose b = ''login'' \<or> pu_purpose b = ''step_up''"
      and f: "\<forall>f \<in> set [pu_origin b, pu_user_id b, pu_device_id b, pu_challenge_id b]. \<not> has_bar f" "\<not> has_bar digits"
      and m: "m = join [''kyidentity-push-v2'', pu_origin b, pu_user_id b, pu_device_id b, pu_challenge_id b, pu_purpose b,
        FormatInt (pu_expires_at_ms b), if approve then ''approve'' else ''deny'', digits]"
    unfolding PushResponseMessage_def andthen_Inr_iff by auto
  show "m = join [''kyidentity-push-v2'', pu_origin b, pu_user_id b, pu_device_id b, pu_challenge_id b, pu_purpose b,
      FormatInt (pu_expires_at_ms b), if approve then ''approve'' else ''deny'', digits]" by (rule m)
  have "\<not> has_bar (pu_purpose b)" using p by (auto simp: has_bar_def)
  moreover have "\<not> has_bar ''kyidentity-push-v2''" "\<not> has_bar (if approve then ''approve'' else ''deny'')" by (simp_all add: has_bar_def)
  ultimately show "\<forall>s \<in> set [''kyidentity-push-v2'', pu_origin b, pu_user_id b, pu_device_id b, pu_challenge_id b, pu_purpose b,
      FormatInt (pu_expires_at_ms b), if approve then ''approve'' else ''deny'', digits]. \<not> has_bar s"
    using f FormatInt_no_bar by simp
qed

text \<open>
  A signed answer states everything it decides: two answers have the same signed message only when server, account,
  device, challenge, purpose, deadline, verdict and digits are all the same, so a signature given for one challenge, device
  or verdict is worth nothing for another; and no answer is ever the message of a push-token refresh.
\<close>

theorem push_message_binds:
  assumes "PushResponseMessage b approve digits = Inr m"
  shows "(\<forall>b' approve' digits'. PushResponseMessage b' approve' digits' = Inr m \<longrightarrow> b' = b \<and> approve' = approve \<and> digits' = digits) \<and>
    (\<forall>sha origin deviceID issuedAtMS transport pushToken p256dh auth.
       PushTokenRefreshMessage sha origin deviceID issuedAtMS transport pushToken p256dh auth \<noteq> Inr m)"
proof (intro conjI allI impI)
  fix b' approve' digits' assume m': "PushResponseMessage b' approve' digits' = Inr m"
  note m = PushResponseMessage_InrD[OF assms] and m'' = PushResponseMessage_InrD[OF m']
  from join_inj[OF m(2) m''(2) _ trans[OF m(1)[symmetric] m''(1)]]
  have eq: "pu_origin b = pu_origin b'" "pu_user_id b = pu_user_id b'" "pu_device_id b = pu_device_id b'"
      "pu_challenge_id b = pu_challenge_id b'" "pu_purpose b = pu_purpose b'" "FormatInt (pu_expires_at_ms b) = FormatInt (pu_expires_at_ms b')"
      "approve = approve'" "digits = digits'" by (auto split: if_splits)
  from eq show "b' = b" using FormatInt_inj by (metis push_binding.equality old.unit.exhaust)
  from eq show "approve' = approve" "digits' = digits" by simp_all
next
  fix sha origin deviceID issuedAtMS transport pushToken p256dh auth
  show "PushTokenRefreshMessage sha origin deviceID issuedAtMS transport pushToken p256dh auth \<noteq> Inr m"
    using PushResponseMessage_InrD(1)[OF assms] by (auto simp: PushTokenRefreshMessage_def result_iffs)
qed

section \<open>A challenge is approved at most once\<close>

definition answer :: "string \<times> (string \<Rightarrow> string \<Rightarrow> string \<Rightarrow> bool) \<times> string \<times> string \<times> string \<times> bool \<times> string \<times> time \<Rightarrow> db \<Rightarrow> bool \<times> db" where
  "answer = (\<lambda>(i, verify, origin, dev, digits, approve, signature, now) d.
     let ((ok, _), d') = RespondPushChallenge verify origin i dev digits approve signature now d in (ok, d'))"

inductive push_other :: "string \<Rightarrow> db \<Rightarrow> db \<Rightarrow> bool" for i where
  create: "insert_challenge c d = Inr d' \<Longrightarrow> mc_id c \<noteq> i \<Longrightarrow> push_other i d d'"
| check: "CheckPushChallenge j now d = (r, d') \<Longrightarrow> push_other i d d'"
| sweep: "push_other i d (DeleteExpiredMFAChallenges now d)"
| elsewhere: "mfa_challenges d' = mfa_challenges d \<Longrightarrow> push_other i d d'"

lemma transition_rows: "mfa_challenges (snd (TransitionMFAChallengeStatus i from to now d)) =
    sql_update (\<lambda>c. mc_id c = i \<and> mc_status c = from) (\<lambda>c. c\<lparr>mc_status := to, mc_verified_at := if to = ChApproved then Some now else None\<rparr>) (mfa_challenges d)"
  by (simp add: TransitionMFAChallengeStatus_def Let_def)

lemma transition_evolves: "to \<noteq> ChPending \<Longrightarrow> evolves mc_id (\<lambda>c. mc_status c \<noteq> ChPending) i (mfa_challenges d)
    (mfa_challenges (snd (TransitionMFAChallengeStatus j ChPending to now d)))"
  unfolding transition_rows by (rule evolves_update) simp_all

lemma push_other_evolves:
  assumes "push_other i d d'"
  shows "evolves mc_id (\<lambda>c. mc_status c \<noteq> ChPending) i (mfa_challenges d) (mfa_challenges d')"
  using assms
proof cases
  case (create c)
  then have "mfa_challenges d' = mfa_challenges d @ [c\<lparr>mc_verified_at := None\<rparr>]" "mc_id c \<notin> mc_id ` set (mfa_challenges d)"
    by (auto simp: insert_challenge_def result_iffs sql_insert_def)
  with create(2) show ?thesis by (simp add: evolves_insert)
next
  case (check j now r)
  then have "d' = d \<or> (\<exists>k. d' = snd (TransitionMFAChallengeStatus k ChPending ChExpired now d))"
    by (auto simp: CheckPushChallenge_def Let_def split: option.splits if_splits prod.splits)
       (metis snd_conv)+
  then show ?thesis using transition_evolves[of ChExpired i d] by (auto simp: evolves_refl)
qed (simp_all add: DeleteExpiredMFAChallenges_def evolves_delete evolves_refl)

text \<open>The branches of a response, one equation each.\<close>

lemma RespondPushChallenge_equations:
  shows "GetMFAChallenge i d = None \<Longrightarrow>
      RespondPushChallenge verify origin i dev digits approve signature now d = ((False, '''', Some ErrNotFound), d)"
    and "GetMFAChallenge i d = Some ch \<Longrightarrow> mc_status ch \<noteq> ChPending \<Longrightarrow>
      RespondPushChallenge verify origin i dev digits approve signature now d = ((False, '''', Some ErrChallengeState), d)"
    and "GetMFAChallenge i d = Some ch \<Longrightarrow> mc_status ch = ChPending \<Longrightarrow> mc_expires_at ch < now \<Longrightarrow>
      RespondPushChallenge verify origin i dev digits approve signature now d =
        ((False, '''', Some ErrChallengeState), snd (TransitionMFAChallengeStatus (mc_id ch) ChPending ChExpired now d))"
    and "GetMFAChallenge i d = Some ch \<Longrightarrow> mc_status ch = ChPending \<Longrightarrow> \<not> mc_expires_at ch < now \<Longrightarrow>
      verifyDeviceSignature verify origin ch dev approve digits signature d = Inl e \<Longrightarrow>
      RespondPushChallenge verify origin i dev digits approve signature now d = ((False, '''', Some e), d)"
    and "GetMFAChallenge i d = Some ch \<Longrightarrow> mc_status ch = ChPending \<Longrightarrow> \<not> mc_expires_at ch < now \<Longrightarrow>
      verifyDeviceSignature verify origin ch dev approve digits signature d = Inr r \<Longrightarrow>
      TransitionMFAChallengeStatus (mc_id ch) ChPending (if approve \<and> digits = mc_match_digits ch then ChApproved else ChDenied) now d = (ok, d') \<Longrightarrow>
      RespondPushChallenge verify origin i dev digits approve signature now d =
        (if ok then ((approve \<and> digits = mc_match_digits ch, nd_id r, None), d') else ((False, nd_id r, Some ErrChallengeState), d'))"
  by (simp_all add: RespondPushChallenge_def Let_def case_prod_beta)

lemma GetMFAChallenge_id: "GetMFAChallenge i d = Some ch \<Longrightarrow> ch \<in> set (mfa_challenges d) \<and> mc_id ch = i"
  unfolding GetMFAChallenge_def by (drule find_SomeD) simp

lemma RespondPushChallenge_cases:
  assumes "RespondPushChallenge verify origin i dev digits approve signature now d = ((v, x, e), d')"
  obtains (refused) "d' = d" "\<not> v" "e \<noteq> None"
    | (expired) "d' = snd (TransitionMFAChallengeStatus i ChPending ChExpired now d)" "\<not> v" "e \<noteq> None"
    | (raced) to where "to \<noteq> ChPending" "TransitionMFAChallengeStatus i ChPending to now d = (False, d')" "\<not> v" "e \<noteq> None"
    | (decided) ch r where "GetMFAChallenge i d = Some ch" "mc_status ch = ChPending" "now \<le> mc_expires_at ch"
      "verifyDeviceSignature verify origin ch dev approve digits signature d = Inr r" "x = nd_id r" "v = (approve \<and> digits = mc_match_digits ch)"
      "TransitionMFAChallengeStatus i ChPending (if v then ChApproved else ChDenied) now d = (True, d')" "e = None"
proof (cases "GetMFAChallenge i d")
  case None
  with assms show ?thesis by (intro refused) (auto simp: RespondPushChallenge_equations(1))
next
  case (Some ch)
  then have i: "mc_id ch = i" using GetMFAChallenge_id by blast
  show ?thesis
  proof (cases "mc_status ch = ChPending")
    case pending: True
    show ?thesis
    proof (cases "mc_expires_at ch < now")
      case True
      from assms show ?thesis by (intro expired) (auto simp: RespondPushChallenge_equations(3)[OF Some pending True] i)
    next
      case live: False
      show ?thesis
      proof (cases "verifyDeviceSignature verify origin ch dev approve digits signature d")
        case (Inl e')
        from assms show ?thesis by (intro refused) (auto simp: RespondPushChallenge_equations(4)[OF Some pending live Inl])
      next
        case (Inr r)
        let ?v = "approve \<and> digits = mc_match_digits ch"
        let ?to = "if ?v then ChApproved else ChDenied"
        show ?thesis
        proof (cases "TransitionMFAChallengeStatus (mc_id ch) ChPending ?to now d")
          case (Pair ok d2)
          note eq = RespondPushChallenge_equations(5)[OF Some pending live Inr Pair]
          show ?thesis
          proof (cases ok)
            case True
            with eq assms have "v = ?v" "x = nd_id r" "e = None" "d2 = d'" by auto
            with decided[OF Some pending _ Inr] live Pair True i show ?thesis by simp
          next
            case False
            with eq assms have "\<not> v" "e \<noteq> None" "d2 = d'" by auto
            with raced[of ?to] Pair False i show ?thesis by simp
          qed
        qed
      qed
    qed
  next
    case False
    from assms show ?thesis by (intro refused) (auto simp: RespondPushChallenge_equations(2)[OF Some False])
  qed
qed

interpretation push: spendable_rows mfa_challenges mc_id "\<lambda>c. mc_status c \<noteq> ChPending" answer fst push_other
proof unfold_locales
  fix k d ok d' assume a: "answer k d = (ok, d')"
  obtain i verify origin dev digits approve s where "k = (i, verify, origin, dev, digits, approve, s)" by (cases k)
  moreover obtain signature now where "s = (signature, now)" by (cases s)
  ultimately have k: "k = (i, verify, origin, dev, digits, approve, signature, now)" by simp
  obtain v x e d2 where r: "RespondPushChallenge verify origin i dev digits approve signature now d = ((v, x, e), d2)" by (metis surj_pair)
  with a k have [simp]: "v = ok" "d2 = d'" by (auto simp: answer_def)
  let ?goal = "\<exists>p f. mfa_challenges d' = sql_update p f (mfa_challenges d) \<and>
      (\<forall>r. p r \<longrightarrow> mc_id r = fst k \<and> \<not> mc_status r \<noteq> ChPending \<and> mc_status (f r) \<noteq> ChPending) \<and>
      (\<forall>r. mc_id (f r) = mc_id r) \<and> (ok \<longrightarrow> (\<exists>r \<in> set (mfa_challenges d). p r))"
  let ?p = "\<lambda>c. mc_id c = i \<and> mc_status c = ChPending"
  have rows: ?goal if "to \<noteq> ChPending" "d' = snd (TransitionMFAChallengeStatus i ChPending to now d)" "ok \<Longrightarrow> \<exists>c \<in> set (mfa_challenges d). ?p c" for to
    unfolding that(2) transition_rows
    by (rule exI[of _ ?p], rule exI[of _ "\<lambda>c. c\<lparr>mc_status := to, mc_verified_at := if to = ChApproved then Some now else None\<rparr>"])
       (use that(1,3) in \<open>simp add: k\<close>)
  from r show ?goal
  proof (cases rule: RespondPushChallenge_cases)
    case refused
    then show ?thesis by (intro exI[of _ "\<lambda>_. False"] exI[of _ id]) (simp add: sql_update_noop)
  next
    case expired
    then show ?thesis by (intro rows[of ChExpired]) simp_all
  next
    case (raced to)
    then show ?thesis by (intro rows[of to]) simp_all
  next
    case (decided ch y)
    show ?thesis
    proof (rule rows[of "if v then ChApproved else ChDenied"])
      show "\<exists>c \<in> set (mfa_challenges d). ?p c" using decided(1,2) GetMFAChallenge_id by blast
    qed (use decided(7) in simp_all)
  qed
qed (rule push_other_evolves)

text \<open>
  C35. What an approved push proves: the challenge was pending and not expired, the digits typed were the ones it shows,
  and the signature verifies under the key of the very device the answer names, an approver of the challenge's own
  account, over the message that states this server, account, device, challenge, purpose and deadline with the verdict
  \<open>approve\<close>. The challenge is then approved, and no answer whatsoever is accepted for it again.
\<close>

theorem push_approval_means:
  assumes "RespondPushChallenge verify origin i dev digits approve signature now d = ((True, x, None), d')"
    and "distinct (map mc_id (mfa_challenges d))" and "redeem_run answer fst (push_other i) i d' n d2"
  shows "(\<exists>ch \<in> set (mfa_challenges d). \<exists>r \<in> set (native_devices d). \<exists>m. mc_id ch = i \<and> mc_status ch = ChPending \<and> now \<le> mc_expires_at ch \<and>
      digits = mc_match_digits ch \<and> nd_id r = x \<and> nd_id r = dev \<and> nd_user_id r = mc_user_id ch \<and> nd_is_mfa_approver r \<and>
      PushResponseMessage \<lparr>pu_origin = origin, pu_user_id = mc_user_id ch, pu_device_id = dev, pu_challenge_id = i, pu_purpose = mc_purpose ch,
         pu_expires_at_ms = mc_expires_at ch div 1000000\<rparr> True digits = Inr m \<and>
      (\<exists>key. nd_public_key r = Some key \<and> key \<noteq> '''' \<and> verify key m signature)) \<and>
    (\<exists>ch \<in> set (mfa_challenges d'). mc_id ch = i \<and> mc_status ch = ChApproved \<and> mc_verified_at ch = Some now) \<and> n = 0"
proof -
  obtain ch r where ch: "GetMFAChallenge i d = Some ch" "mc_status ch = ChPending" "now \<le> mc_expires_at ch"
      and v: "verifyDeviceSignature verify origin ch dev approve digits signature d = Inr r" and x: "x = nd_id r"
      and ok: "True = (approve \<and> digits = mc_match_digits ch)"
      and t: "TransitionMFAChallengeStatus i ChPending (if True then ChApproved else ChDenied) now d = (True, d')"
    using assms(1) by (cases rule: RespondPushChallenge_cases) auto
  from ch(1) have c: "ch \<in> set (mfa_challenges d)" "mc_id ch = i" using GetMFAChallenge_id by blast+
  from v have r: "GetNativeDevice dev d = Some r" "nd_user_id r = mc_user_id ch" "nd_is_mfa_approver r" "or_empty (nd_public_key r) \<noteq> ''''"
      and m: "\<exists>m. PushResponseMessage \<lparr>pu_origin = origin, pu_user_id = mc_user_id ch, pu_device_id = nd_id r, pu_challenge_id = mc_id ch,
         pu_purpose = mc_purpose ch, pu_expires_at_ms = mc_expires_at ch div 1000000\<rparr> approve digits = Inr m \<and>
        verify (or_empty (nd_public_key r)) m signature"
    by (auto simp: verifyDeviceSignature_def result_iffs split: option.splits sum.splits if_splits)
  from r(1) have rd: "r \<in> set (native_devices d)" "nd_id r = dev" by (auto simp: GetNativeDevice_def dest!: find_SomeD)
  from r(4) obtain key where key: "nd_public_key r = Some key" "key \<noteq> ''''" by (cases "nd_public_key r") (auto simp: or_empty_def)
  have d': "mfa_challenges d' = sql_update (\<lambda>c. mc_id c = i \<and> mc_status c = ChPending)
      (\<lambda>c. c\<lparr>mc_status := ChApproved, mc_verified_at := Some now\<rparr>) (mfa_challenges d)"
    using t transition_rows[of i ChPending ChApproved now d] by simp
  have settled: "\<exists>ch \<in> set (mfa_challenges d'). mc_id ch = i \<and> mc_status ch = ChApproved \<and> mc_verified_at ch = Some now"
    using c ch(2) by (auto simp: d' sql_simps intro!: bexI[of _ ch])
  have "answer (i, verify, origin, dev, digits, approve, signature, now) d = (True, d')" by (simp add: answer_def assms(1))
  from push.redeem_spends[OF _ this] assms(2) have "push.all_used i d'" by (simp add: push.keyed_def)
  moreover have "distinct (map mc_id (mfa_challenges d'))" using assms(2) by (simp add: d' map_sql_update)
  ultimately have n: "n = 0" using push.rows_at_most_once[OF assms(3)] unfolding push.all_used_def by blast
  from m key c rd ok obtain msg where "PushResponseMessage \<lparr>pu_origin = origin, pu_user_id = mc_user_id ch, pu_device_id = dev,
       pu_challenge_id = i, pu_purpose = mc_purpose ch, pu_expires_at_ms = mc_expires_at ch div 1000000\<rparr> True digits = Inr msg"
      "verify key msg signature" by (auto simp: or_empty_def)
  with c ch r rd key x ok settled n show ?thesis by blast
qed

text \<open>
  An account never has two live login pushes at once, so one approval cannot sign in two sessions: in every state
  reached by creating push challenges, settling them and housekeeping, with a clock that never goes back, at most one
  login challenge of an account is pending and unexpired, and a challenge carries a verification instant only when it
  was approved.
\<close>

theorem one_live_login_push:
  assumes "push_reach now d"
  shows "(\<forall>u. sql_count (\<lambda>c. mc_user_id c = u \<and> mc_purpose c = ''login'' \<and> mc_status c = ChPending \<and> now < mc_expires_at c) (mfa_challenges d) \<le> 1) \<and>
    (\<forall>c \<in> set (mfa_challenges d). mc_verified_at c \<noteq> None \<longrightarrow> mc_status c = ChApproved)"
  using push_reach_ok[OF assms] unfolding push_ok_def pending_login_def[abs_def] by blast

section \<open>A push in the sample deployment\<close>

definition sample_verify :: "string \<Rightarrow> string \<Rightarrow> string \<Rightarrow> bool" where
  "sample_verify key message signature \<longleftrightarrow> signature = key @ message"

definition sample_push_challenge :: mfa_challenge where
  "sample_push_challenge = \<lparr>mc_id = ''ch1'', mc_user_id = ''u1'', mc_method_type = ''push'', mc_match_digits = ''42'', mc_decoy_digits = '''',
     mc_status = ChPending, mc_purpose = ''login'', mc_expires_at = 1300 * second, mc_created_at = sample_now, mc_verified_at = None\<rparr>"

definition push_db :: db where
  "push_db = sample_db\<lparr>native_devices := [sample_device]\<rparr>"

definition sample_signature :: string where
  "sample_signature = ''key'' @ projr (PushResponseMessage \<lparr>pu_origin = ''https://id.example'', pu_user_id = ''u1'', pu_device_id = ''n1'',
     pu_challenge_id = ''ch1'', pu_purpose = ''login'', pu_expires_at_ms = 1300000\<rparr> True ''42'')"

definition sample_pushed :: "bool tx" where
  "sample_pushed = CreateLoginPushChallenge sample_push_challenge sample_now push_db"

theorem push_message_binds_witness:
  "\<exists>m. PushResponseMessage \<lparr>pu_origin = ''https://id.example'', pu_user_id = ''u1'', pu_device_id = ''n1'', pu_challenge_id = ''ch1'',
      pu_purpose = ''login'', pu_expires_at_ms = 1300000\<rparr> True ''42'' = Inr m \<and>
    PushResponseMessage \<lparr>pu_origin = ''https://id.example'', pu_user_id = ''u1'', pu_device_id = ''n1'', pu_challenge_id = ''ch1'',
      pu_purpose = ''login'', pu_expires_at_ms = 1300000\<rparr> False ''42'' \<noteq> Inr m"
proof -
  let ?b = "\<lparr>pu_origin = ''https://id.example'', pu_user_id = ''u1'', pu_device_id = ''n1'', pu_challenge_id = ''ch1'', pu_purpose = ''login'',
      pu_expires_at_ms = 1300000\<rparr>"
  have "\<not> isl (PushResponseMessage ?b True ''42'')" by code_simp
  then obtain m where m: "PushResponseMessage ?b True ''42'' = Inr m" by (blast dest: succeeds)
  from push_message_binds[OF m] m show ?thesis by blast
qed

theorem push_approval_means_witness:
  "\<exists>d d'. RespondPushChallenge sample_verify ''https://id.example'' ''ch1'' ''n1'' ''42'' True sample_signature sample_now d = ((True, ''n1'', None), d') \<and>
     (\<exists>ch \<in> set (mfa_challenges d'). mc_status ch = ChApproved)"
proof -
  let ?d = "snd (projr sample_pushed)"
  let ?r = "RespondPushChallenge sample_verify ''https://id.example'' ''ch1'' ''n1'' ''42'' True sample_signature sample_now ?d"
  have "fst ?r = (True, ''n1'', None)" "distinct (map mc_id (mfa_challenges ?d))" by code_simp+
  note run = this
  then have r: "?r = ((True, ''n1'', None), snd ?r)" by (metis prod.collapse)
  from push_approval_means[OF r run(2) redeem_run.start] r show ?thesis by blast
qed

theorem one_live_login_push_witness:
  "\<exists>d. push_reach sample_now d \<and> sql_count (\<lambda>c. mc_user_id c = ''u1'' \<and> mc_purpose c = ''login'' \<and> mc_status c = ChPending \<and> sample_now < mc_expires_at c)
     (mfa_challenges d) \<le> 1"
proof -
  have "\<not> isl sample_pushed" by code_simp
  then obtain b d where "CreateLoginPushChallenge sample_push_challenge sample_now push_db = Inr (b, d)"
    by (cases sample_pushed) (auto simp: sample_pushed_def)
  moreover have "push_reach sample_now push_db" by (rule push_reach.empty) (simp add: push_db_def sample_defs)
  ultimately have "push_reach sample_now d" using push_reach.login[of sample_now push_db sample_push_challenge b d]
    by (simp add: sample_push_challenge_def)
  with one_live_login_push[OF this] show ?thesis by blast
qed

end
