(* ===== verification/Ky_Provisioning.thy ===== *)
theory Ky_Provisioning
  imports Ky_Access Ky_Enrollment
begin

text \<open>
  Downstream provisioning (\<^verbatim>\<open>internal/store/provisioning.go\<close>, \<^verbatim>\<open>scim.go\<close>, and the claims of
  \<^verbatim>\<open>app_roles.go\<close> a profile carries): the desired state kept per connector and resource, the outbox events that
  deliver it, and the reconciliation every access change runs. The digest of a group's members is a parameter.
\<close>

section \<open>Accounts as read\<close>

text \<open>An account past its end date reads as disabled.\<close>

definition scanUser :: "time \<Rightarrow> user \<Rightarrow> user" where
  "scanUser now u = (case usr_ends_at u of
       Some v \<Rightarrow> if from_unix v \<le> now then u\<lparr>usr_status := Disabled\<rparr> else u
     | None \<Rightarrow> u)"

definition user_by_id :: "string \<Rightarrow> time \<Rightarrow> db \<Rightarrow> user option" where
  "user_by_id i now d = map_option (scanUser now) (sql_first (\<lambda>u. usr_id u = i) (users d))"

section \<open>What a token or a profile says about a user\<close>

record app_claims =
  cl_roles :: "string list"
  cl_groups :: "string list"
  cl_legacy_role :: bool
  cl_groups_claim :: bool

definition holds_role :: "string \<Rightarrow> time \<Rightarrow> db \<Rightarrow> app_role \<Rightarrow> bool" where
  "holds_role userID now d r \<longleftrightarrow>
     (\<exists>a \<in> set (role_users d). ru_role_id a = ar_id r \<and> ru_user_id a = userID) \<or>
     (\<exists>a \<in> set (role_groups d). \<exists>m \<in> set (live_group_memberships now d).
        gm_group_id m = rg_group_id a \<and> rg_role_id a = ar_id r \<and> gm_user_id m = userID)"

definition group_claimed :: "string \<Rightarrow> string \<Rightarrow> time \<Rightarrow> db \<Rightarrow> directory_group \<Rightarrow> bool" where
  "group_claimed userID appID now d g \<longleftrightarrow>
     (\<exists>m \<in> set (live_group_memberships now d). gm_group_id m = dg_id g \<and> gm_user_id m = userID) \<and>
     ((\<exists>a \<in> set (group_assignments d). ga_app_id a = appID \<and> ga_group_id a = dg_id g) \<or>
      (\<exists>a \<in> set (role_groups d). \<exists>r \<in> set (app_roles d). ar_id r = rg_role_id a \<and> ar_app_id r = appID \<and> rg_group_id a = dg_id g))"

definition appClaimsTx :: "string \<Rightarrow> string \<Rightarrow> time \<Rightarrow> db \<Rightarrow> err + app_claims" where
  "appClaimsTx userID appID now d =
     (case sql_first (\<lambda>a. app_id a = appID) (app_registry d) of
        None \<Rightarrow> Inl ErrNoRows
      | Some a \<Rightarrow> Inr
         \<lparr>cl_roles = sort (remdups (map ar_name (filter (\<lambda>r. ar_app_id r = appID \<and> holds_role userID now d r) (app_roles d)))),
          cl_groups = (if app_groups_claim a
            then sort (remdups (map dg_name (filter (group_claimed userID appID now d) (directory_groups d)))) else []),
          cl_legacy_role = app_legacy_role_claim a, cl_groups_claim = app_groups_claim a\<rparr>)"

definition UserAppClaims :: "string \<Rightarrow> string \<Rightarrow> time \<Rightarrow> db \<Rightarrow> err + app_claims" where
  "UserAppClaims userID clientID now d =
     (case sql_first (\<lambda>a. app_client_id a = Some clientID) (app_registry d) of
        None \<Rightarrow> Inr \<lparr>cl_roles = [], cl_groups = [], cl_legacy_role = True, cl_groups_claim = False\<rparr>
      | Some a \<Rightarrow> appClaimsTx userID (app_id a) now d)"

definition appSCIMRolesTx :: "string \<Rightarrow> string \<Rightarrow> time \<Rightarrow> db \<Rightarrow> err + (string \<times> bool) list" where
  "appSCIMRolesTx userID appID now d =
     andthen (appClaimsTx userID appID now d) (\<lambda>c. Inr (map (\<lambda>(i, r). (r, i = 0)) (List.enumerate (0::nat) (cl_roles c))))"

definition role_name :: "role \<Rightarrow> string" where
  "role_name r = (case r of RoleUser \<Rightarrow> ''user'' | RoleAdmin \<Rightarrow> ''admin'')"

definition scimUserPayloadWithRoles :: "user \<Rightarrow> bool \<Rightarrow> (string \<times> bool) list \<Rightarrow> payload" where
  "scimUserPayloadWithRoles u active roles = Profile \<lparr>sp_id = usr_id u, sp_user_name = usr_username u,
     sp_display_name = usr_display_name u, sp_email = usr_email u, sp_active = active, sp_status = None,
     sp_created = Some (usr_created_at u), sp_last_modified = Some (usr_updated_at u), sp_roles = Some roles\<rparr>"

definition scimUserPayload :: "user \<Rightarrow> bool \<Rightarrow> payload" where
  "scimUserPayload u active = scimUserPayloadWithRoles u active [(role_name (usr_role u), True)]"

definition scimInactivePayload :: "string \<Rightarrow> payload" where
  "scimInactivePayload userID = Profile \<lparr>sp_id = userID, sp_user_name = '''', sp_display_name = '''', sp_email = '''',
     sp_active = False, sp_status = None, sp_created = None, sp_last_modified = None, sp_roles = None\<rparr>"

definition scimGroupPayload :: "string \<Rightarrow> payload" where
  "scimGroupPayload groupID = GroupBody groupID"

definition scimUserPayloadTx :: "user \<Rightarrow> bool \<Rightarrow> string \<Rightarrow> time \<Rightarrow> db \<Rightarrow> err + payload" where
  "scimUserPayloadTx u active systemID now d =
     (case sql_first (\<lambda>a. app_system_id a = Some systemID) (app_registry d) of
        None \<Rightarrow> Inr (scimUserPayload u active)
      | Some a \<Rightarrow> andthen (appSCIMRolesTx (usr_id u) (app_id a) now d) (\<lambda>roles. Inr (scimUserPayloadWithRoles u active roles)))"

section \<open>The outbox\<close>

record desired_state =
  ds_system_id :: string
  ds_resource_id :: string
  ds_kind :: resource_kind
  ds_active :: bool
  ds_payload :: payload
  ds_members :: string
  ds_force :: bool
  ds_deleted :: bool

definition insert_event :: "sync_event \<Rightarrow> db \<Rightarrow> err + db" where
  "insert_event e d =
     (if \<exists>x \<in> set (sync_events d). se_id x = se_id e then Inl ErrUnique
      else Inr (d\<lparr>sync_events := sql_insert e (sync_events d)\<rparr>))"

definition insertResourceEventTx :: "string \<Rightarrow> string \<Rightarrow> string \<Rightarrow> payload \<Rightarrow> int \<Rightarrow> time \<Rightarrow> db \<Rightarrow> err + db" where
  "insertResourceEventTx systemID resourceID eventType body revision now d =
     (let (i, d1) = fresh_id d
      in insert_event \<lparr>se_id = i, se_user_id = resourceID, se_system_id = systemID, se_event_type = eventType, se_payload = body,
           se_attempts = 0, se_status = EvPending, se_last_error = None, se_next_attempt_at = None, se_created_at = now,
           se_updated_at = now, se_claim_token = '''', se_revision = revision, se_delivery_revision = 0, se_lease_until = None\<rparr> d1)"

abbreviation state_at :: "string \<Rightarrow> string \<Rightarrow> sync_state \<Rightarrow> bool" where
  "state_at sys res st \<equiv> ss_system_id st = sys \<and> ss_resource_id st = res"

definition unsent :: "string \<Rightarrow> string \<Rightarrow> db \<Rightarrow> sync_event \<Rightarrow> bool" where
  "unsent sys res d e \<longleftrightarrow> se_system_id e = sys \<and> se_user_id e = res \<and> (se_status e = EvPending \<or> se_status e = EvFailed) \<and>
     \<not> (\<exists>a \<in> set (delivery_attempts d). da_event_id a = se_id e)"

text \<open>The upsert of the state row, with the revision it returns.\<close>

definition upsert_state :: "desired_state \<Rightarrow> db \<Rightarrow> err + (int \<times> db)" where
  "upsert_state s d =
     (let key = state_at (ds_system_id s) (ds_resource_id s)
      in case sql_first key (sync_states d) of
           Some st \<Rightarrow> Inr (ss_revision st + 1, d\<lparr>sync_states := sql_update key (\<lambda>x. x\<lparr>ss_active := ds_active s,
                         ss_revision := ss_revision x + 1, ss_members := ds_members s, ss_offboarded_at := None\<rparr>) (sync_states d)\<rparr>)
         | None \<Rightarrow>
            andthen (ensure (\<exists>x \<in> set (paired_systems d). ps_id x = ds_system_id s) ErrForeignKey) (\<lambda>_.
            Inr (1, d\<lparr>sync_states := sql_insert \<lparr>ss_system_id = ds_system_id s, ss_resource_id = ds_resource_id s, ss_kind = ds_kind s,
                ss_active = ds_active s, ss_provisioned = False, ss_revision = 1, ss_members = ds_members s, ss_delivery_revision = 0,
                ss_offboarded_at = None, ss_observed = '''', ss_observed_at = None\<rparr> (sync_states d)\<rparr>)))"

definition event_type :: "desired_state \<Rightarrow> bool \<Rightarrow> string" where
  "event_type s provisioned =
     (if ds_deleted s then ''user.deleted''
      else if ds_kind s = GroupResource \<and> ds_active s then ''group.updated''
      else if ds_kind s = GroupResource then ''group.deleted''
      else if ds_active s \<and> (\<not> provisioned \<or> ds_force s) then ''user.created'' else ''user.updated'')"

text \<open>
  Undelivered work for the resource gives way to the new state; an undelivered MFA reset is taken out too when the new
  state removes access, to be queued again behind it.
\<close>

definition supersede :: "desired_state \<Rightarrow> db \<Rightarrow> sync_event list \<times> db" where
  "supersede s d =
     (let sys = ds_system_id s; res = ds_resource_id s;
          d1 = d\<lparr>sync_events := sql_delete (\<lambda>e. unsent sys res d e \<and>
                   se_event_type e \<in> {''user.created'', ''user.updated'', ''group.updated'', ''group.deleted''}) (sync_events d)\<rparr>;
          reset = (\<lambda>e. ds_kind s = UserResource \<and> (\<not> ds_active s \<or> ds_deleted s) \<and> unsent sys res d1 e \<and> se_event_type e = ''user.mfa_reset'')
      in (filter reset (sync_events d1), d1\<lparr>sync_events := sql_delete reset (sync_events d1)\<rparr>))"

definition requeue_reset :: "payload \<Rightarrow> int \<Rightarrow> time \<Rightarrow> sync_event \<Rightarrow> sync_event" where
  "requeue_reset body revision now r = r\<lparr>se_payload := body, se_updated_at := now, se_claim_token := '''', se_revision := revision,
     se_delivery_revision := 0, se_lease_until := None\<rparr>"

definition queueDesiredStateTx :: "desired_state \<Rightarrow> time \<Rightarrow> db \<Rightarrow> err + db" where
  "queueDesiredStateTx s now d =
     (let sys = ds_system_id s; res = ds_resource_id s;
          provisioned = (case sql_first (state_at sys res) (sync_states d) of None \<Rightarrow> False | Some st \<Rightarrow> ss_provisioned st);
          fenced = (\<exists>a \<in> set (delivery_attempts d). da_system_id a = sys \<and> da_user_id a = res);
          (resets, d2) = supersede s d
      in if ds_kind s = GroupResource \<and> \<not> ds_active s \<and> \<not> provisioned \<and> \<not> fenced
         then Inr (d2\<lparr>sync_states := sql_delete (state_at sys res) (sync_states d2)\<rparr>)
         else
           andthen (upsert_state s d2) (\<lambda>(revision, d3).
           andthen (insertResourceEventTx sys res (event_type s provisioned) (ds_payload s) revision now d3) (\<lambda>d4.
           each (\<lambda>r. insert_event (requeue_reset (ds_payload s) revision now r)) resets d4)))"

definition desired_user :: "string \<Rightarrow> string \<Rightarrow> bool \<Rightarrow> payload \<Rightarrow> desired_state" where
  "desired_user sys res active body = \<lparr>ds_system_id = sys, ds_resource_id = res, ds_kind = UserResource, ds_active = active,
     ds_payload = body, ds_members = '''', ds_force = False, ds_deleted = False\<rparr>"

definition desired_group :: "string \<Rightarrow> string \<Rightarrow> bool \<Rightarrow> string \<Rightarrow> bool \<Rightarrow> desired_state" where
  "desired_group sys res active members force = \<lparr>ds_system_id = sys, ds_resource_id = res, ds_kind = GroupResource, ds_active = active,
     ds_payload = scimGroupPayload res, ds_members = members, ds_force = force, ds_deleted = False\<rparr>"

definition system_enabled :: "string \<Rightarrow> db \<Rightarrow> bool" where
  "system_enabled sys d \<longleftrightarrow> (\<exists>s \<in> set (paired_systems d). ps_id s = sys \<and> ps_status s \<noteq> SysDisabled)"

text \<open>The subquery every scope decision repeats: the user reaches the app the connector is linked to.\<close>

definition system_access :: "string \<Rightarrow> string \<Rightarrow> time \<Rightarrow> db \<Rightarrow> bool" where
  "system_access sys uid now d \<longleftrightarrow>
     (\<exists>a \<in> set (app_registry d). app_system_id a = Some sys \<and> (app_id a, uid) \<in> set (effective_app_access now d))"

definition queueUserNotificationTx :: "user \<Rightarrow> string \<Rightarrow> time \<Rightarrow> db \<Rightarrow> err + db" where
  "queueUserNotificationTx u eventType now d =
     (let targets = map (\<lambda>st. (ss_system_id st, ss_revision st))
          (filter (\<lambda>st. ss_resource_id st = usr_id u \<and> ss_kind st = UserResource \<and> ss_active st \<and> system_enabled (ss_system_id st) d) (sync_states d))
      in each (\<lambda>(sys, rev) e.
           andthen (scimUserPayloadTx u (usr_status u = Active) sys now e) (\<lambda>body.
           insertResourceEventTx sys (usr_id u) eventType body rev now e)) targets d)"

definition queueUserUpdateTx :: "user \<Rightarrow> time \<Rightarrow> db \<Rightarrow> err + db" where
  "queueUserUpdateTx u now d =
     (let systems = map ss_system_id (filter (\<lambda>st. ss_resource_id st = usr_id u \<and> ss_kind st = UserResource \<and> ss_active st \<and>
            system_enabled (ss_system_id st) d \<and> system_access (ss_system_id st) (usr_id u) now d) (sync_states d))
      in each (\<lambda>sys e.
           andthen (scimUserPayloadTx u True sys now e) (\<lambda>body.
           queueDesiredStateTx (desired_user sys (usr_id u) True body) now e)) systems d)"

section \<open>Reconciliation\<close>

record desired_group_row =
  dgr_system_id :: string
  dgr_group_id :: string
  dgr_name :: string

text \<open>\<open>ORDER BY\<close> two identifiers, which compare as bytes.\<close>

definition order_pairs :: "('r \<Rightarrow> string) \<Rightarrow> ('r \<Rightarrow> string) \<Rightarrow> 'r list \<Rightarrow> 'r list" where
  "order_pairs a b rs = sort_key a (sort_key b rs)"

definition assigned_groups :: "string \<Rightarrow> db \<Rightarrow> directory_group list" where
  "assigned_groups sys d = concat (map (\<lambda>a. concat (map (\<lambda>ga.
       filter (\<lambda>g. dg_id g = ga_group_id ga) (directory_groups d))
       (filter (\<lambda>ga. ga_app_id ga = app_id a) (group_assignments d))))
     (filter (\<lambda>a. app_system_id a = Some sys) (app_registry d)))"

definition desiredGroupsTx :: "string \<Rightarrow> db \<Rightarrow> desired_group_row list" where
  "desiredGroupsTx systemID d = order_pairs dgr_system_id dgr_group_id
     (concat (map (\<lambda>s. map (\<lambda>g. \<lparr>dgr_system_id = ps_id s, dgr_group_id = dg_id g, dgr_name = dg_name g\<rparr>) (assigned_groups (ps_id s) d))
     (filter (\<lambda>s. ps_groups_enabled s \<and> ps_system_type s = ''scim'' \<and> ps_status s \<noteq> SysDisabled \<and>
         (systemID = '''' \<or> ps_id s = systemID)) (paired_systems d))))"

fun join_lines :: "string list \<Rightarrow> string" where
  "join_lines [] = ''''"
| "join_lines [s] = s"
| "join_lines (s # t # ss) = s @ [CHR 0x0A] @ join_lines (t # ss)"

definition groupMembersHashTx :: "(string \<Rightarrow> string) \<Rightarrow> desired_group_row \<Rightarrow> time \<Rightarrow> db \<Rightarrow> string" where
  "groupMembersHashTx sha g now d =
     (let ids = sort (map gm_user_id (filter (\<lambda>m. gm_group_id m = dgr_group_id g \<and> system_access (dgr_system_id g) (gm_user_id m) now d)
                  (live_group_memberships now d)))
      in sha (dgr_name g @ [CHR 0x0A] @ join_lines ids))"

definition group_assigned :: "string \<Rightarrow> string \<Rightarrow> db \<Rightarrow> bool" where
  "group_assigned sys res d \<longleftrightarrow> (\<exists>a \<in> set (app_registry d). \<exists>ga \<in> set (group_assignments d).
     ga_app_id ga = app_id a \<and> app_system_id a = Some sys \<and> ga_group_id ga = res)"

definition delivers_groups :: "string \<Rightarrow> db \<Rightarrow> bool" where
  "delivers_groups sys d \<longleftrightarrow> (\<exists>s \<in> set (paired_systems d). ps_id s = sys \<and> ps_groups_enabled s \<and> ps_status s \<noteq> SysDisabled)"

definition lost_groups :: "db \<Rightarrow> (string \<times> string) list" where
  "lost_groups d = map (\<lambda>st. (ss_system_id st, ss_resource_id st)) (filter (\<lambda>st. ss_kind st = GroupResource \<and> ss_active st \<and>
     delivers_groups (ss_system_id st) d \<and> \<not> group_assigned (ss_system_id st) (ss_resource_id st) d) (sync_states d))"

definition reconcileGroupsTx :: "(string \<Rightarrow> string) \<Rightarrow> time \<Rightarrow> bool \<Rightarrow> db \<Rightarrow> err + db" where
  "reconcileGroupsTx sha now force d =
     andthen (each (\<lambda>g e.
         let h = groupMembersHashTx sha g now e;
             settled = (case sql_first (state_at (dgr_system_id g) (dgr_group_id g)) (sync_states e) of
                 None \<Rightarrow> False | Some st \<Rightarrow> ss_active st \<and> ss_members st = h)
         in if force \<or> \<not> settled then queueDesiredStateTx (desired_group (dgr_system_id g) (dgr_group_id g) True h force) now e else Inr e)
       (desiredGroupsTx '''' d) d) (\<lambda>d1.
     each (\<lambda>(sys, res). queueDesiredStateTx (desired_group sys res False '''' False) now) (lost_groups d1) d1)"

text \<open>
  The pairs of an enabled connector and an account in its scope that the connector does not hold (an effective grant
  always names an existing account), and the held pairs out of scope.
\<close>

definition provisioning_gains :: "time \<Rightarrow> db \<Rightarrow> (string \<times> string) list" where
  "provisioning_gains now d = order_pairs fst snd
     (filter (\<lambda>(sys, uid). case sql_first (state_at sys uid) (sync_states d) of None \<Rightarrow> True | Some st \<Rightarrow> \<not> ss_active st)
       (concat (map (\<lambda>s. concat (map (\<lambda>a. map (\<lambda>e. (ps_id s, snd e)) (filter (\<lambda>e. fst e = app_id a) (effective_app_access now d)))
          (filter (\<lambda>a. app_system_id a = Some (ps_id s)) (app_registry d))))
        (filter (\<lambda>s. ps_status s \<noteq> SysDisabled) (paired_systems d)))))"

definition provisioning_losses :: "time \<Rightarrow> db \<Rightarrow> (string \<times> string) list" where
  "provisioning_losses now d = order_pairs fst snd (map (\<lambda>st. (ss_system_id st, ss_resource_id st))
     (filter (\<lambda>st. ss_kind st = UserResource \<and> ss_active st \<and> system_enabled (ss_system_id st) d \<and>
        \<not> system_access (ss_system_id st) (ss_resource_id st) now d) (sync_states d)))"

text \<open>The loop over the gains, and what follows it: an account that is gone ends the whole pass.\<close>

fun queue_gains :: "time \<Rightarrow> (db \<Rightarrow> err + db) \<Rightarrow> (string \<times> string) list \<Rightarrow> db \<Rightarrow> err + db" where
  "queue_gains now rest [] d = rest d"
| "queue_gains now rest ((sys, uid) # ps) d =
     (case user_by_id uid now d of
        None \<Rightarrow> Inr d
      | Some u \<Rightarrow>
         andthen (scimUserPayloadTx u True sys now d) (\<lambda>body.
         andthen (queueDesiredStateTx (desired_user sys uid True body) now d) (queue_gains now rest ps)))"

definition queue_loss :: "time \<Rightarrow> string \<times> string \<Rightarrow> db \<Rightarrow> err + db" where
  "queue_loss now = (\<lambda>(sys, uid) d.
     andthen (case user_by_id uid now d of None \<Rightarrow> Inr (scimInactivePayload uid) | Some u \<Rightarrow> scimUserPayloadTx u False sys now d) (\<lambda>body.
     queueDesiredStateTx (desired_user sys uid False body) now d))"

definition current_revision :: "sync_event \<Rightarrow> db \<Rightarrow> int option" where
  "current_revision e d = map_option ss_revision (sql_first (state_at (se_system_id e) (se_user_id e)) (sync_states d))"

definition stateless :: "sync_event \<Rightarrow> bool" where
  "stateless e \<longleftrightarrow> se_event_type e = ''user.deleted'' \<or> se_event_type e = ''user.mfa_reset''"

definition unfenced_failed :: "db \<Rightarrow> sync_event \<Rightarrow> bool" where
  "unfenced_failed d e \<longleftrightarrow> se_status e = EvFailed \<and> \<not> (\<exists>a \<in> set (delivery_attempts d). da_event_id a = se_id e)"

text \<open>Exhausted work: what a newer state has overtaken is dropped, the rest re-enters backoff.\<close>

definition revive_exhausted :: "time \<Rightarrow> db \<Rightarrow> db" where
  "revive_exhausted now d =
     (let d1 = d\<lparr>sync_events := sql_delete (\<lambda>e. unfenced_failed d e \<and> \<not> stateless e \<and>
                   se_revision e \<noteq> (case current_revision e d of None \<Rightarrow> - 1 | Some r \<Rightarrow> r)) (sync_events d)\<rparr>
      in d1\<lparr>sync_events := sql_update (\<lambda>e. unfenced_failed d1 e \<and> (stateless e \<or> current_revision e d1 = Some (se_revision e)) \<and>
                   (\<exists>p \<in> set (paired_systems d1). ps_id p = se_system_id e))
              (\<lambda>e. e\<lparr>se_status := EvPending, se_attempts := 0, se_next_attempt_at := Some (now + 30 * minute), se_updated_at := now\<rparr>)
              (sync_events d1)\<rparr>)"

definition reconcileProvisioningTx :: "(string \<Rightarrow> string) \<Rightarrow> time \<Rightarrow> db \<Rightarrow> err + db" where
  "reconcileProvisioningTx sha now d =
     (let gains = provisioning_gains now d; losses = provisioning_losses now d
      in queue_gains now (\<lambda>d1.
           andthen (each (queue_loss now) losses d1) (\<lambda>d2.
           andthen (reconcileGroupsTx sha now False d2) (\<lambda>d3.
           Inr (revive_exhausted now d3)))) gains d)"

definition ReconcileProvisioning :: "(string \<Rightarrow> string) \<Rightarrow> time \<Rightarrow> db \<Rightarrow> err + db" where
  "ReconcileProvisioning sha now d = reconcileProvisioningTx sha now d"

section \<open>Resynchronisation, links and connectors\<close>

definition linked_user :: "string \<Rightarrow> string \<Rightarrow> db \<Rightarrow> bool" where
  "linked_user sys uid d \<longleftrightarrow> (\<exists>l \<in> set (scim_links d). lk_system_id l = sys \<and> lk_local_id l = uid \<and> lk_kind l = UserResource \<and> lk_remote_id l \<noteq> '''')"

text \<open>A state row for every remote mapping out of scope that has none, and the mapping as proof of a remote account.\<close>

definition recover_removals :: "string \<Rightarrow> time \<Rightarrow> db \<Rightarrow> db" where
  "recover_removals systemID now d =
     (let rows = map (\<lambda>l. \<lparr>ss_system_id = lk_system_id l, ss_resource_id = lk_local_id l, ss_kind = UserResource, ss_active = False,
                ss_provisioned = True, ss_revision = 0, ss_members = '''', ss_delivery_revision = 0, ss_offboarded_at = None,
                ss_observed = '''', ss_observed_at = None\<rparr>)
              (filter (\<lambda>l. lk_system_id l = systemID \<and> lk_kind l = UserResource \<and> lk_remote_id l \<noteq> '''' \<and>
                 \<not> system_access (lk_system_id l) (lk_local_id l) now d) (scim_links d));
          insert_ignore = (\<lambda>r t. if \<exists>x \<in> set t. state_at (ss_system_id r) (ss_resource_id r) x then t else sql_insert r t);
          d1 = d\<lparr>sync_states := fold insert_ignore rows (sync_states d)\<rparr>
      in d1\<lparr>sync_states := sql_update (\<lambda>st. ss_system_id st = systemID \<and> ss_kind st = UserResource \<and> \<not> ss_active st \<and> \<not> ss_provisioned st \<and>
             linked_user (ss_system_id st) (ss_resource_id st) d1) (\<lambda>st. st\<lparr>ss_provisioned := True\<rparr>) (sync_states d1)\<rparr>)"

definition ResyncSystem :: "(string \<Rightarrow> string) \<Rightarrow> string \<Rightarrow> audit_event option \<Rightarrow> time \<Rightarrow> db \<Rightarrow> err + db" where
  "ResyncSystem sha systemID audit now d =
     andthen (ensure (\<exists>s \<in> set (paired_systems d). ps_id s = systemID) ErrNotFound) (\<lambda>_.
     andthen (reconcileProvisioningTx sha now d) (\<lambda>d1.
     let resident = map (scanUser now) (sort_key usr_id (filter (\<lambda>u. \<exists>st \<in> set (sync_states d1). ss_system_id st = systemID \<and>
            ss_resource_id st = usr_id u \<and> ss_kind st = UserResource \<and> ss_active st) (users d1)))
     in andthen (each (\<lambda>u e. andthen (scimUserPayloadTx u True systemID now e) (\<lambda>body.
            queueDesiredStateTx ((desired_user systemID (usr_id u) True body)\<lparr>ds_force := True\<rparr>) now e)) resident d1) (\<lambda>d2.
     let d3 = recover_removals systemID now d2;
         removed = sort (map ss_resource_id (filter (\<lambda>st. ss_system_id st = systemID \<and> ss_kind st = UserResource \<and> \<not> ss_active st) (sync_states d3)))
     in andthen (each (\<lambda>i. queue_loss now (systemID, i)) removed d3) (\<lambda>d4.
     andthen (each (\<lambda>g e. queueDesiredStateTx (desired_group (dgr_system_id g) (dgr_group_id g) True (groupMembersHashTx sha g now e) True) now e)
         (desiredGroupsTx systemID d4) d4) (\<lambda>d5.
     recordAuditTx audit now d5)))))"

record scim_member =
  sm_local_id :: string
  sm_remote_id :: string

text \<open>What a remote group should hold: nothing once the group is gone.\<close>

definition SCIMGroupMembers :: "string \<Rightarrow> string \<Rightarrow> time \<Rightarrow> db \<Rightarrow> (string \<times> scim_member list) option" where
  "SCIMGroupMembers systemID groupID now d =
     (case sql_first (\<lambda>g. dg_id g = groupID) (directory_groups d) of
        None \<Rightarrow> None
      | Some g \<Rightarrow> Some (dg_name g, sort_key sm_remote_id (concat (map (\<lambda>m.
           map (\<lambda>l. \<lparr>sm_local_id = gm_user_id m, sm_remote_id = lk_remote_id l\<rparr>)
             (filter (\<lambda>l. lk_system_id l = systemID \<and> lk_kind l = UserResource \<and> lk_local_id l = gm_user_id m \<and> lk_remote_id l \<noteq> '''') (scim_links d)))
           (filter (\<lambda>m. gm_group_id m = groupID \<and> system_access systemID (gm_user_id m) now d) (live_group_memberships now d))))))"

text \<open>The follow-up to a confirmed delivery.\<close>

definition provisionedTx :: "(string \<Rightarrow> string) \<Rightarrow> sync_event \<Rightarrow> time \<Rightarrow> db \<Rightarrow> err + db" where
  "provisionedTx sha ev now d =
     (let sys = se_system_id ev; res = se_user_id ev;
          d1 = (if se_event_type ev = ''user.deleted'' \<or> se_event_type ev = ''user.updated''
                then d\<lparr>sync_states := sql_update (\<lambda>st. state_at sys res st \<and> ss_kind st = UserResource \<and> \<not> ss_active st \<and> ss_revision st = se_revision ev)
                       (\<lambda>st. st\<lparr>ss_offboarded_at := Some now\<rparr>) (sync_states d)\<rparr>
                else d)
      in if se_event_type ev = ''group.deleted''
         then Inr (d1\<lparr>sync_states := sql_delete (\<lambda>st. state_at sys res st \<and> ss_kind st = GroupResource \<and> \<not> ss_active st) (sync_states d1)\<rparr>)
         else if se_event_type ev \<noteq> ''user.created'' \<and> se_event_type ev \<noteq> ''group.updated'' then Inr d1
         else
           let fresh = (\<lambda>st. state_at sys res st \<and> \<not> ss_provisioned st);
               n = sql_count fresh (sync_states d1);
               d2 = d1\<lparr>sync_states := sql_update fresh (\<lambda>st. st\<lparr>ss_provisioned := True\<rparr>) (sync_states d1)\<rparr>
           in if n \<noteq> 1 \<or> se_event_type ev = ''group.updated'' then Inr d2
              else each (\<lambda>g e. if \<exists>m \<in> set (live_group_memberships now e). gm_group_id m = dgr_group_id g \<and> gm_user_id m = res
                     then queueDesiredStateTx (desired_group (dgr_system_id g) (dgr_group_id g) True (groupMembersHashTx sha g now e) True) now e
                     else Inr e) (desiredGroupsTx sys d2) d2)"

text \<open>A blank remote identifier records a create with an uncertain outcome.\<close>

abbreviation link_at :: "string \<Rightarrow> string \<Rightarrow> scim_link \<Rightarrow> bool" where
  "link_at sys res l \<equiv> lk_system_id l = sys \<and> lk_local_id l = res"

definition SCIMLink :: "string \<Rightarrow> resource_kind \<Rightarrow> string \<Rightarrow> db \<Rightarrow> string option" where
  "SCIMLink systemID kind localID d = map_option lk_remote_id (sql_first (\<lambda>l. link_at systemID localID l \<and> lk_kind l = kind) (scim_links d))"

text \<open>Every insert checks the row's own constraints: the connector exists and the local identifier is not blank.\<close>

definition link_checks :: "string \<Rightarrow> string \<Rightarrow> db \<Rightarrow> err + unit" where
  "link_checks systemID localID d =
     andthen (ensure (localID \<noteq> '''') ErrCheck) (\<lambda>_. ensure (\<exists>s \<in> set (paired_systems d). ps_id s = systemID) ErrForeignKey)"

definition StartSCIMCreate :: "string \<Rightarrow> resource_kind \<Rightarrow> string \<Rightarrow> db \<Rightarrow> bool tx" where
  "StartSCIMCreate systemID kind localID d =
     (if \<exists>l \<in> set (scim_links d). link_at systemID localID l then Inr (False, d)
      else andthen (link_checks systemID localID d) (\<lambda>_.
        Inr (True, d\<lparr>scim_links := sql_insert \<lparr>lk_system_id = systemID, lk_local_id = localID, lk_kind = kind, lk_remote_id = ''''\<rparr> (scim_links d)\<rparr>)))"

definition remote_taken :: "string \<Rightarrow> string \<Rightarrow> resource_kind \<Rightarrow> string \<Rightarrow> db \<Rightarrow> bool" where
  "remote_taken systemID localID kind remoteID d \<longleftrightarrow> (\<exists>l \<in> set (scim_links d). lk_system_id l = systemID \<and> lk_kind l = kind \<and>
     lk_remote_id l = remoteID \<and> lk_local_id l \<noteq> localID)"

definition SaveSCIMLink :: "string \<Rightarrow> resource_kind \<Rightarrow> string \<Rightarrow> string \<Rightarrow> db \<Rightarrow> err + db" where
  "SaveSCIMLink systemID kind localID remoteID d =
     andthen (ensure (remoteID \<noteq> '''' \<and> remoteID \<noteq> ''.'' \<and> remoteID \<noteq> ''..'') ErrInvalidInput) (\<lambda>_.
     case sql_first (link_at systemID localID) (scim_links d) of
       None \<Rightarrow>
         andthen (link_checks systemID localID d) (\<lambda>_.
         andthen (ensure (\<not> remote_taken systemID localID kind remoteID d) ErrUnique) (\<lambda>_.
         Inr (d\<lparr>scim_links := sql_insert \<lparr>lk_system_id = systemID, lk_local_id = localID, lk_kind = kind, lk_remote_id = remoteID\<rparr> (scim_links d)\<rparr>)))
     | Some l \<Rightarrow>
         andthen (ensure (lk_kind l = kind \<and> (lk_remote_id l = '''' \<or> lk_remote_id l = remoteID)) ErrRemoteMapping) (\<lambda>_.
         andthen (ensure (\<not> remote_taken systemID localID kind remoteID d) ErrUnique) (\<lambda>_.
         Inr (d\<lparr>scim_links := sql_update (link_at systemID localID) (\<lambda>l. l\<lparr>lk_remote_id := remoteID\<rparr>) (scim_links d)\<rparr>))))"

definition RejectSCIMCreate :: "string \<Rightarrow> resource_kind \<Rightarrow> string \<Rightarrow> db \<Rightarrow> db" where
  "RejectSCIMCreate systemID kind localID d =
     d\<lparr>scim_links := sql_delete (\<lambda>l. link_at systemID localID l \<and> lk_kind l = kind \<and> lk_remote_id l = '''') (scim_links d)\<rparr>"

definition DeleteSCIMLink :: "string \<Rightarrow> resource_kind \<Rightarrow> string \<Rightarrow> db \<Rightarrow> db" where
  "DeleteSCIMLink systemID kind localID d =
     d\<lparr>scim_links := sql_delete (\<lambda>l. link_at systemID localID l \<and> lk_kind l = kind) (scim_links d)\<rparr>"

definition ConfigureSystem :: "(string \<Rightarrow> string) \<Rightarrow> string \<Rightarrow> string \<Rightarrow> string \<Rightarrow> string \<Rightarrow> bool \<Rightarrow> int \<Rightarrow> audit_event option \<Rightarrow> time \<Rightarrow> db \<Rightarrow> err + db" where
  "ConfigureSystem sha i oldType newType encrypted groups reconcileHours audit now d =
     andthen (ensure (0 \<le> reconcileHours \<and> reconcileHours \<le> 24 * 30) ErrInvalidInput) (\<lambda>_.
     let match = (\<lambda>s. ps_id s = i \<and> ps_system_type s = oldType);
         d1 = d\<lparr>paired_systems := sql_update match (\<lambda>s. s\<lparr>ps_system_type := newType, ps_hmac_secret_encrypted := encrypted,
                  ps_groups_enabled := groups, ps_reconcile_hours := reconcileHours\<rparr>) (paired_systems d)\<rparr>
     in andthen (ensure (sql_count match (paired_systems d) = 1) ErrInvalidInput) (\<lambda>_.
        andthen (reconcileProvisioningTx sha now d1) (recordAuditTx audit now)))"

section \<open>What a queued state does to the desired states\<close>

definition state_of :: "db \<Rightarrow> string \<Rightarrow> string \<Rightarrow> sync_state option" where
  "state_of d sys res = sql_first (state_at sys res) (sync_states d)"

definition keyed_states :: "db \<Rightarrow> bool" where
  "keyed_states d \<longleftrightarrow> distinct (map (\<lambda>st. (ss_system_id st, ss_resource_id st)) (sync_states d))"

text \<open>Queueing touches the desired states, the outbox and the random source, nothing else.\<close>

definition sync_frame :: "db \<Rightarrow> db \<Rightarrow> bool" where
  "sync_frame d d' \<longleftrightarrow> (\<exists>sts evs p. d' = d\<lparr>sync_states := sts, sync_events := evs, rand_pos := p\<rparr>)"

lemma sync_frameI: "d' = d\<lparr>sync_states := sts, sync_events := evs, rand_pos := p\<rparr> \<Longrightarrow> sync_frame d d'"
  unfolding sync_frame_def by blast

lemma sync_frame_refl [simp, intro]: "sync_frame d d"
  by (rule sync_frameI[where sts = "sync_states d" and evs = "sync_events d" and p = "rand_pos d"]) simp

lemma sync_frame_trans: "sync_frame a b \<Longrightarrow> sync_frame b c \<Longrightarrow> sync_frame a c"
  unfolding sync_frame_def
proof (elim exE)
  fix sts evs p sts' evs' p'
  assume "b = a\<lparr>sync_states := sts, sync_events := evs, rand_pos := p\<rparr>" "c = b\<lparr>sync_states := sts', sync_events := evs', rand_pos := p'\<rparr>"
  then have "c = a\<lparr>sync_states := sts', sync_events := evs', rand_pos := p'\<rparr>" by simp
  then show "\<exists>sts evs p. c = a\<lparr>sync_states := sts, sync_events := evs, rand_pos := p\<rparr>" by blast
qed

lemma effective_app_access_cong:
  assumes "users d' = users d" "app_registry d' = app_registry d" "oauth_clients d' = oauth_clients d"
    "user_assignments d' = user_assignments d" "group_assignments d' = group_assignments d" "group_memberships d' = group_memberships d"
  shows "effective_app_access now d' = effective_app_access now d"
proof -
  have "access_facts_row now d' a u = access_facts_row now d a u" for a u
    unfolding access_facts_row_def live_group_memberships_def assms ..
  then show ?thesis unfolding effective_app_access_def app_access_facts_def assms by presburger
qed

lemma sync_frame_tables:
  assumes "sync_frame d d'"
  shows "users d' = users d" "app_registry d' = app_registry d" "paired_systems d' = paired_systems d"
    "group_assignments d' = group_assignments d" "directory_groups d' = directory_groups d" "delivery_attempts d' = delivery_attempts d"
    "effective_app_access now d' = effective_app_access now d" "live_group_memberships now d' = live_group_memberships now d"
  using assms unfolding sync_frame_def by (auto simp: live_group_memberships_def intro!: effective_app_access_cong)

lemma sync_frame_views:
  assumes "sync_frame d d'"
  shows "system_access sys uid now d' = system_access sys uid now d" "system_enabled sys d' = system_enabled sys d"
    "user_by_id uid now d' = user_by_id uid now d" "desiredGroupsTx s d' = desiredGroupsTx s d"
    "groupMembersHashTx sha g now d' = groupMembersHashTx sha g now d"
  by (simp_all add: system_access_def system_enabled_def user_by_id_def desiredGroupsTx_def assigned_groups_def groupMembersHashTx_def sync_frame_tables[OF assms])

lemma insert_event_InrD: "insert_event e d = Inr d' \<Longrightarrow> d' = d\<lparr>sync_events := sql_insert e (sync_events d)\<rparr>"
  by (auto simp: insert_event_def split: if_splits)

lemma each_insert_event:
  assumes "each (\<lambda>r. insert_event (f r)) rs d = Inr d'"
  shows "\<exists>evs. d' = d\<lparr>sync_events := evs\<rparr>"
  using assms
proof (rule each_keeps[where P = "\<lambda>e. \<exists>evs. e = d\<lparr>sync_events := evs\<rparr>"])
  show "\<exists>evs. d = d\<lparr>sync_events := evs\<rparr>" by (rule exI[of _ "sync_events d"]) simp
qed (auto dest!: insert_event_InrD)

lemma insertResourceEventTx_InrD:
  "insertResourceEventTx sys res ty body rv now d = Inr d' \<Longrightarrow> \<exists>evs p. d' = d\<lparr>sync_events := evs, rand_pos := p\<rparr>"
  by (rule exI[of _ "sync_events d'"], rule exI[of _ "rand_pos d'"])
     (auto simp: insertResourceEventTx_def fresh_id_def dest!: insert_event_InrD)

lemma find_update_key:
  assumes "\<And>r. k (f r) = k r"
  shows "List.find (\<lambda>r. k r = v) (sql_update (\<lambda>r. k r = w) f t) =
    (if v = w then map_option f (List.find (\<lambda>r. k r = v) t) else List.find (\<lambda>r. k r = v) t)"
  by (induction t) (auto simp: assms)

lemma find_delete_key:
  "List.find (\<lambda>r. k r = v) (sql_delete (\<lambda>r. k r = w) t) = (if v = w then None else List.find (\<lambda>r. k r = v) t)"
  by (induction t) auto

definition state_key :: "sync_state \<Rightarrow> string \<times> string" where
  "state_key st = (ss_system_id st, ss_resource_id st)"

lemma state_at_key: "state_at sys res = (\<lambda>st. state_key st = (sys, res))"
  by (auto simp: state_key_def)

lemma state_of_key: "state_of d sys res = List.find (\<lambda>st. state_key st = (sys, res)) (sync_states d)"
  unfolding state_of_def state_at_key ..

lemma keyed_states_key: "keyed_states d \<longleftrightarrow> distinct (map state_key (sync_states d))"
  by (simp add: keyed_states_def state_key_def[abs_def])

lemma state_of_SomeD: "state_of d sys res = Some st \<Longrightarrow> st \<in> set (sync_states d) \<and> ss_system_id st = sys \<and> ss_resource_id st = res"
  unfolding state_of_def by (drule find_SomeD) auto

lemma state_of_row: "keyed_states d \<Longrightarrow> st \<in> set (sync_states d) \<Longrightarrow> state_of d (ss_system_id st) (ss_resource_id st) = Some st"
  using find_key_eq[of state_key "sync_states d" st] unfolding state_of_key keyed_states_key by (simp add: state_key_def)

text \<open>The row a queued state leaves.\<close>

definition queued_row :: "desired_state \<Rightarrow> sync_state option \<Rightarrow> sync_state \<Rightarrow> bool" where
  "queued_row s old st \<longleftrightarrow> ss_active st = ds_active s \<and> ss_members st = ds_members s \<and> ss_offboarded_at st = None \<and>
     ss_kind st = (case old of None \<Rightarrow> ds_kind s | Some x \<Rightarrow> ss_kind x) \<and>
     ss_provisioned st = (case old of None \<Rightarrow> False | Some x \<Rightarrow> ss_provisioned x) \<and>
     ss_revision st = (case old of None \<Rightarrow> 1 | Some x \<Rightarrow> ss_revision x + 1)"

lemma upsert_state_InrD:
  assumes "upsert_state s d = Inr (rv, d')"
  shows "\<exists>sts. d' = d\<lparr>sync_states := sts\<rparr>" (is ?frame)
    and "\<exists>st. state_of d' (ds_system_id s) (ds_resource_id s) = Some st \<and> queued_row s (state_of d (ds_system_id s) (ds_resource_id s)) st" (is ?row)
    and "(sys, res) \<noteq> (ds_system_id s, ds_resource_id s) \<Longrightarrow> state_of d' sys res = state_of d sys res"
    and "keyed_states d \<Longrightarrow> keyed_states d'"
proof -
  let ?k = "(ds_system_id s, ds_resource_id s)"
  let ?f = "\<lambda>x. x\<lparr>ss_active := ds_active s, ss_revision := ss_revision x + 1, ss_members := ds_members s, ss_offboarded_at := None\<rparr>"
  have f: "state_key (?f r) = state_key r" for r by (simp add: state_key_def)
  let ?new = "\<lparr>ss_system_id = ds_system_id s, ss_resource_id = ds_resource_id s, ss_kind = ds_kind s, ss_active = ds_active s,
      ss_provisioned = False, ss_revision = 1, ss_members = ds_members s, ss_delivery_revision = 0, ss_offboarded_at = None,
      ss_observed = '''', ss_observed_at = None\<rparr>"
  have new: "state_key ?new = ?k" by (simp add: state_key_def)
  consider (old) st where "state_of d (ds_system_id s) (ds_resource_id s) = Some st"
      "d' = d\<lparr>sync_states := sql_update (\<lambda>r. state_key r = ?k) ?f (sync_states d)\<rparr>"
    | (new) "state_of d (ds_system_id s) (ds_resource_id s) = None" "d' = d\<lparr>sync_states := sync_states d @ [?new]\<rparr>"
    using assms by (auto simp: upsert_state_def Let_def result_iffs state_of_def sql_insert_def state_key_def split: option.splits)
  then have "?frame \<and> ?row \<and> (\<forall>sys res. (sys, res) \<noteq> ?k \<longrightarrow> state_of d' sys res = state_of d sys res) \<and> (keyed_states d \<longrightarrow> keyed_states d')"
  proof cases
    case old
    have "state_of d' (ds_system_id s) (ds_resource_id s) = Some (?f st)"
      using old(1) by (simp add: old(2) state_of_key find_update_key[of state_key, OF f])
    moreover have "queued_row s (Some st) (?f st)" by (simp add: queued_row_def)
    moreover have "map state_key (sync_states d') = map state_key (sync_states d)" unfolding old(2) by (simp add: map_sql_update f)
    ultimately show ?thesis
      unfolding old(1) by (auto simp: keyed_states_key) (auto simp: old(2) state_of_key find_update_key[of state_key, OF f])
  next
    case new
    have "state_of d' (ds_system_id s) (ds_resource_id s) = Some ?new"
      using new(1) \<open>state_key ?new = ?k\<close> by (simp add: new(2) state_of_key find_append)
    moreover have "queued_row s None ?new" by (simp add: queued_row_def)
    moreover have "?k \<notin> state_key ` set (sync_states d)" using new(1) by (auto simp: state_of_key find_None_iff2)
    ultimately show ?thesis
      unfolding new(1) using \<open>state_key ?new = ?k\<close>
      by (auto simp: keyed_states_key new(2)) (auto simp: state_of_key find_append split: option.splits)
  qed
  then show ?frame ?row "(sys, res) \<noteq> ?k \<Longrightarrow> state_of d' sys res = state_of d sys res" "keyed_states d \<Longrightarrow> keyed_states d'" by blast+
qed

lemma state_of_events [simp]: "state_of (d\<lparr>sync_events := evs\<rparr>) = state_of d" "state_of (d\<lparr>rand_pos := p\<rparr>) = state_of d"
  "keyed_states (d\<lparr>sync_events := evs\<rparr>) = keyed_states d" "keyed_states (d\<lparr>rand_pos := p\<rparr>) = keyed_states d"
  by (auto simp: state_of_def keyed_states_def fun_eq_iff)

lemma queueDesiredStateTx_InrD:
  assumes "queueDesiredStateTx s now d = Inr d'"
  shows "sync_frame d d'" (is ?frame)
    and "(sys, res) \<noteq> (ds_system_id s, ds_resource_id s) \<Longrightarrow> state_of d' sys res = state_of d sys res"
    and "(\<exists>st. state_of d' (ds_system_id s) (ds_resource_id s) = Some st \<and> queued_row s (state_of d (ds_system_id s) (ds_resource_id s)) st) \<or>
      ds_kind s = GroupResource \<and> \<not> ds_active s \<and> state_of d' (ds_system_id s) (ds_resource_id s) = None" (is ?row)
    and "keyed_states d \<Longrightarrow> keyed_states d'"
proof -
  let ?k = "(ds_system_id s, ds_resource_id s)"
  have "?frame \<and> ?row \<and> (\<forall>sys res. (sys, res) \<noteq> ?k \<longrightarrow> state_of d' sys res = state_of d sys res) \<and> (keyed_states d \<longrightarrow> keyed_states d')"
  proof -
    obtain resets d2 where sup: "supersede s d = (resets, d2)" by fastforce
    then obtain evs where d2: "d2 = d\<lparr>sync_events := evs\<rparr>" by (auto simp: supersede_def Let_def)
    from assms sup consider
        (forget) "ds_kind s = GroupResource" "\<not> ds_active s"
          "d' = d2\<lparr>sync_states := sql_delete (\<lambda>r. state_key r = ?k) (sync_states d2)\<rparr>"
      | (store) rv d3 ty d4 where "upsert_state s d2 = Inr (rv, d3)"
          "insertResourceEventTx (ds_system_id s) (ds_resource_id s) ty (ds_payload s) rv now d3 = Inr d4"
          "each (\<lambda>r. insert_event (requeue_reset (ds_payload s) rv now r)) resets d4 = Inr d'"
      by (auto simp: queueDesiredStateTx_def Let_def result_iffs state_key_def split: if_splits)
    then show ?thesis
    proof cases
      case forget
      have "sync_frame d d'"
        by (rule sync_frameI[where sts = "sync_states d'" and evs = "sync_events d'" and p = "rand_pos d'"]) (simp add: forget(3) d2)
      moreover have "state_of d' sys res = (if (sys, res) = ?k then None else state_of d sys res)" for sys res
        by (simp add: forget(3) d2 state_of_key find_delete_key[of state_key])
      moreover have "keyed_states d \<longrightarrow> keyed_states d'" by (simp add: keyed_states_key forget(3) d2 distinct_sql_delete)
      ultimately show ?thesis using forget(1,2) by auto
    next
      case store
      note up = upsert_state_InrD[OF store(1), unfolded d2 state_of_events]
      from insertResourceEventTx_InrD[OF store(2)] obtain evs4 p where d4: "d4 = d3\<lparr>sync_events := evs4, rand_pos := p\<rparr>" by blast
      from each_insert_event[OF store(3)] obtain evs5 where d': "d' = d4\<lparr>sync_events := evs5\<rparr>" by blast
      from up(1) obtain sts where d3: "d3 = d\<lparr>sync_events := evs, sync_states := sts\<rparr>" by blast
      have "sync_frame d d'" by (rule sync_frameI[where sts = sts and evs = evs5 and p = p]) (simp add: d' d4 d3)
      moreover have "state_of d' = state_of d3" "keyed_states d' = keyed_states d3" by (simp_all add: d' d4)
      ultimately show ?thesis using up(2-4) by auto
    qed
  qed
  then show ?frame ?row "(sys, res) \<noteq> ?k \<Longrightarrow> state_of d' sys res = state_of d sys res" "keyed_states d \<Longrightarrow> keyed_states d'" by blast+
qed

section \<open>The loops of a reconciliation\<close>

text \<open>A run of queued states: the resources in a set end in one activity, keeping the kind they had; no other changes.\<close>

definition changed :: "resource_kind \<Rightarrow> bool \<Rightarrow> (string \<times> string) set \<Rightarrow> db \<Rightarrow> db \<Rightarrow> bool" where
  "changed K b A d d' \<longleftrightarrow> sync_frame d d' \<and> (keyed_states d \<longrightarrow> keyed_states d') \<and>
     (\<forall>sys res. (sys, res) \<notin> A \<longrightarrow> state_of d' sys res = state_of d sys res) \<and>
     (\<forall>sys res. (sys, res) \<in> A \<longrightarrow> (\<exists>st. state_of d' sys res = Some st \<and> ss_active st = b \<and>
        ss_kind st = (case state_of d sys res of None \<Rightarrow> K | Some x \<Rightarrow> ss_kind x)))"

lemma changedD:
  assumes "changed K b A d d'"
  shows "(sys, res) \<notin> A \<Longrightarrow> state_of d' sys res = state_of d sys res"
    and "(sys, res) \<in> A \<Longrightarrow> \<exists>st. state_of d' sys res = Some st \<and> ss_active st = b \<and>
        ss_kind st = (case state_of d sys res of None \<Rightarrow> K | Some x \<Rightarrow> ss_kind x)"
    and "sync_frame d d'" and "keyed_states d \<Longrightarrow> keyed_states d'"
  using assms unfolding changed_def by blast+

lemma changed_refl: "changed K b {} d d"
  by (simp add: changed_def)

lemma changed_step:
  assumes q: "queueDesiredStateTx s now d = Inr d1" and k: "ds_kind s = K" "ds_active s = b" "K = UserResource \<or> b"
    and c: "changed K b A d1 d2"
  shows "changed K b (insert (ds_system_id s, ds_resource_id s) A) d d2"
proof -
  note q = queueDesiredStateTx_InrD[OF q]
  let ?k = "(ds_system_id s, ds_resource_id s)"
  from q(3) k obtain st where st: "state_of d1 (ds_system_id s) (ds_resource_id s) = Some st"
      "queued_row s (state_of d (ds_system_id s) (ds_resource_id s)) st" by auto
  have kind: "ss_kind st = (case state_of d (ds_system_id s) (ds_resource_id s) of None \<Rightarrow> K | Some x \<Rightarrow> ss_kind x)" "ss_active st = b"
    using st(2) k by (auto simp: queued_row_def)
  have "\<exists>st. state_of d2 sys res = Some st \<and> ss_active st = b \<and> ss_kind st = (case state_of d sys res of None \<Rightarrow> K | Some x \<Rightarrow> ss_kind x)"
    if "(sys, res) \<in> insert ?k A" for sys res
  proof (cases "(sys, res) \<in> A")
    case True
    with c obtain st' where st': "state_of d2 sys res = Some st'" "ss_active st' = b"
        "ss_kind st' = (case state_of d1 sys res of None \<Rightarrow> K | Some x \<Rightarrow> ss_kind x)" unfolding changed_def by blast
    show ?thesis
    proof (cases "(sys, res) = ?k")
      case True
      with st' st(1) kind show ?thesis by auto
    next
      case False
      with st' q(2) show ?thesis by auto
    qed
  next
    case False
    with that have "(sys, res) = ?k" by simp
    moreover from False c have "state_of d2 sys res = state_of d1 sys res" unfolding changed_def by blast
    ultimately show ?thesis using st(1) kind by auto
  qed
  moreover have "state_of d2 sys res = state_of d sys res" if "(sys, res) \<notin> insert ?k A" for sys res
    using that q(2)[of sys res] c unfolding changed_def by auto
  moreover have "sync_frame d d2" "keyed_states d \<longrightarrow> keyed_states d2"
    using c q(1,4) sync_frame_trans unfolding changed_def by metis+
  ultimately show ?thesis unfolding changed_def by (intro conjI allI impI) simp_all
qed

lemma desired_user_simps [simp]:
  "ds_system_id (desired_user sys res b body) = sys" "ds_resource_id (desired_user sys res b body) = res"
  "ds_kind (desired_user sys res b body) = UserResource" "ds_active (desired_user sys res b body) = b"
  "ds_members (desired_user sys res b body) = ''''"
  by (simp_all add: desired_user_def)

lemma desired_group_simps [simp]:
  "ds_system_id (desired_group sys res b m f) = sys" "ds_resource_id (desired_group sys res b m f) = res"
  "ds_kind (desired_group sys res b m f) = GroupResource" "ds_active (desired_group sys res b m f) = b"
  "ds_members (desired_group sys res b m f) = m"
  by (simp_all add: desired_group_def)

lemma queue_gains_InrD:
  assumes "queue_gains now rest ps d = Inr d'" and "\<forall>p \<in> set ps. user_by_id (snd p) now d \<noteq> None"
  shows "\<exists>d1. rest d1 = Inr d' \<and> changed UserResource True (set ps) d d1"
  using assms
proof (induction ps arbitrary: d)
  case Nil
  then show ?case by (auto intro: changed_refl)
next
  case (Cons p ps)
  obtain sys uid where p: "p = (sys, uid)" by (cases p)
  from Cons.prems(2) p obtain u where u: "user_by_id uid now d = Some u" by auto
  from Cons.prems(1) p u obtain body d1 where q: "queueDesiredStateTx (desired_user sys uid True body) now d = Inr d1"
      and rest: "queue_gains now rest ps d1 = Inr d'" by (auto simp: result_iffs)
  have "\<forall>p \<in> set ps. user_by_id (snd p) now d1 \<noteq> None"
    using Cons.prems(2) sync_frame_views(3)[OF queueDesiredStateTx_InrD(1)[OF q]] by simp
  from Cons.IH[OF rest this] obtain d2 where "rest d2 = Inr d'" "changed UserResource True (set ps) d1 d2" by blast
  with changed_step[OF q, of UserResource True "set ps" d2] show ?case by (auto simp: p)
qed

lemma queue_loss_InrD:
  assumes "each (queue_loss now) ps d = Inr d'"
  shows "changed UserResource False (set ps) d d'"
  using assms
proof (induction ps arbitrary: d)
  case Nil
  then show ?case by (simp add: changed_refl)
next
  case (Cons p ps)
  obtain sys uid where p: "p = (sys, uid)" by (cases p)
  from Cons.prems p obtain body d1 where q: "queueDesiredStateTx (desired_user sys uid False body) now d = Inr d1"
      and rest: "each (queue_loss now) ps d1 = Inr d'" by (auto simp: result_iffs queue_loss_def split: prod.splits)
  from changed_step[OF q _ _ _ Cons.IH[OF rest]] show ?case by (simp add: p)
qed

definition group_key :: "desired_group_row \<Rightarrow> string \<times> string" where
  "group_key g = (dgr_system_id g, dgr_group_id g)"

definition group_settled :: "(string \<Rightarrow> string) \<Rightarrow> time \<Rightarrow> db \<Rightarrow> desired_group_row \<Rightarrow> bool" where
  "group_settled sha now d g \<longleftrightarrow> (case state_of d (dgr_system_id g) (dgr_group_id g) of
     None \<Rightarrow> False | Some st \<Rightarrow> ss_active st \<and> ss_members st = groupMembersHashTx sha g now d)"

definition queue_group :: "(string \<Rightarrow> string) \<Rightarrow> time \<Rightarrow> bool \<Rightarrow> desired_group_row \<Rightarrow> db \<Rightarrow> err + db" where
  "queue_group sha now force g d = (if force \<or> \<not> group_settled sha now d g
     then queueDesiredStateTx (desired_group (dgr_system_id g) (dgr_group_id g) True (groupMembersHashTx sha g now d) force) now d else Inr d)"

definition queue_lost_group :: "time \<Rightarrow> string \<times> string \<Rightarrow> db \<Rightarrow> err + db" where
  "queue_lost_group now = (\<lambda>(sys, res). queueDesiredStateTx (desired_group sys res False '''' False) now)"

lemma reconcileGroupsTx_eq: "reconcileGroupsTx sha now force d =
    andthen (each (queue_group sha now force) (desiredGroupsTx '''' d) d) (\<lambda>d1. each (queue_lost_group now) (lost_groups d1) d1)"
  unfolding reconcileGroupsTx_def queue_group_def[abs_def] group_settled_def[abs_def] state_of_def queue_lost_group_def
    Let_def ..

lemma group_settled_cong:
  assumes "sync_frame d d'" and "state_of d' (dgr_system_id g) (dgr_group_id g) = state_of d (dgr_system_id g) (dgr_group_id g)"
  shows "group_settled sha now d' g = group_settled sha now d g"
  unfolding group_settled_def assms(2) sync_frame_views(5)[OF assms(1)] ..

lemma queue_group_InrD:
  assumes "queue_group sha now force g d = Inr d'"
  shows "sync_frame d d'" "keyed_states d \<Longrightarrow> keyed_states d'" "group_settled sha now d' g"
    "(sys, res) \<noteq> group_key g \<Longrightarrow> state_of d' sys res = state_of d sys res"
    "(\<exists>st. state_of d' (dgr_system_id g) (dgr_group_id g) = Some st \<and>
        ss_kind st = (case state_of d (dgr_system_id g) (dgr_group_id g) of None \<Rightarrow> GroupResource | Some x \<Rightarrow> ss_kind x))"
proof -
  let ?s = "desired_group (dgr_system_id g) (dgr_group_id g) True (groupMembersHashTx sha g now d) force"
  consider (same) "d' = d" "group_settled sha now d g" | (queue) "queueDesiredStateTx ?s now d = Inr d'"
    using assms unfolding queue_group_def by (cases "force \<or> \<not> group_settled sha now d g") simp_all
  then have "sync_frame d d' \<and> (keyed_states d \<longrightarrow> keyed_states d') \<and> group_settled sha now d' g \<and>
    (\<forall>sys res. (sys, res) \<noteq> group_key g \<longrightarrow> state_of d' sys res = state_of d sys res) \<and>
    (\<exists>st. state_of d' (dgr_system_id g) (dgr_group_id g) = Some st \<and>
        ss_kind st = (case state_of d (dgr_system_id g) (dgr_group_id g) of None \<Rightarrow> GroupResource | Some x \<Rightarrow> ss_kind x))"
  proof cases
    case same
    then show ?thesis by (auto simp: group_settled_def split: option.splits)
  next
    case queue
    note q = queueDesiredStateTx_InrD[OF queue]
    from q(3) obtain st where "state_of d' (dgr_system_id g) (dgr_group_id g) = Some st"
        "queued_row ?s (state_of d (dgr_system_id g) (dgr_group_id g)) st" by auto
    with q(1,2,4) show ?thesis
      by (auto simp: group_settled_def queued_row_def group_key_def sync_frame_views(5)[OF q(1)] split: option.split)
  qed
  then show "sync_frame d d'" "keyed_states d \<Longrightarrow> keyed_states d'" "group_settled sha now d' g"
    "(sys, res) \<noteq> group_key g \<Longrightarrow> state_of d' sys res = state_of d sys res"
    "(\<exists>st. state_of d' (dgr_system_id g) (dgr_group_id g) = Some st \<and>
        ss_kind st = (case state_of d (dgr_system_id g) (dgr_group_id g) of None \<Rightarrow> GroupResource | Some x \<Rightarrow> ss_kind x))" by blast+
qed

lemma queue_groups_InrD:
  assumes "each (queue_group sha now force) gs d = Inr d'" and "\<And>g h. g \<in> set gs \<Longrightarrow> h \<in> set gs \<Longrightarrow> group_key g = group_key h \<Longrightarrow> g = h"
  shows "sync_frame d d' \<and> (keyed_states d \<longrightarrow> keyed_states d') \<and> (\<forall>g \<in> set gs. group_settled sha now d' g) \<and>
    (\<forall>sys res. (sys, res) \<notin> group_key ` set gs \<longrightarrow> state_of d' sys res = state_of d sys res) \<and>
    (\<forall>sys res. map_option ss_kind (state_of d' sys res) = map_option ss_kind (state_of d sys res) \<or>
       state_of d sys res = None \<and> map_option ss_kind (state_of d' sys res) = Some GroupResource)"
  using assms
proof (induction gs arbitrary: d)
  case (Cons g gs)
  from Cons.prems(1) obtain d1 where q: "queue_group sha now force g d = Inr d1" and rest: "each (queue_group sha now force) gs d1 = Inr d'"
    by (auto simp: result_iffs)
  note q = queue_group_InrD[OF q]
  have IH: "sync_frame d1 d' \<and> (keyed_states d1 \<longrightarrow> keyed_states d') \<and> (\<forall>g \<in> set gs. group_settled sha now d' g) \<and>
    (\<forall>sys res. (sys, res) \<notin> group_key ` set gs \<longrightarrow> state_of d' sys res = state_of d1 sys res) \<and>
    (\<forall>sys res. map_option ss_kind (state_of d' sys res) = map_option ss_kind (state_of d1 sys res) \<or>
       state_of d1 sys res = None \<and> map_option ss_kind (state_of d' sys res) = Some GroupResource)"
    using Cons.IH[OF rest] Cons.prems(2) by (meson list.set_intros(2))
  have "group_settled sha now d' g"
  proof (cases "group_key g \<in> group_key ` set gs")
    case True
    with Cons.prems(2)[of g] have "g \<in> set gs" by auto
    with IH show ?thesis by blast
  next
    case False
    with IH have "state_of d' (dgr_system_id g) (dgr_group_id g) = state_of d1 (dgr_system_id g) (dgr_group_id g)"
      by (simp add: group_key_def)
    with q(3) show ?thesis using group_settled_cong[of d1 d' g] IH by blast
  qed
  moreover have "map_option ss_kind (state_of d1 sys res) = map_option ss_kind (state_of d sys res) \<or>
       state_of d sys res = None \<and> map_option ss_kind (state_of d1 sys res) = Some GroupResource" for sys res
  proof (cases "(sys, res) = group_key g")
    case True
    with q(5) show ?thesis by (cases "state_of d sys res") (auto simp: group_key_def)
  qed (simp add: q(4))
  then have "map_option ss_kind (state_of d' sys res) = map_option ss_kind (state_of d sys res) \<or>
       state_of d sys res = None \<and> map_option ss_kind (state_of d' sys res) = Some GroupResource" for sys res
    using IH by (metis map_option_is_None)
  moreover have "sync_frame d d'" "keyed_states d \<longrightarrow> keyed_states d'" using IH q(1,2) sync_frame_trans by metis+
  moreover have "state_of d' sys res = state_of d sys res" if "(sys, res) \<notin> group_key ` set (g # gs)" for sys res
    using that IH q(4)[of sys res] by simp
  ultimately show ?case using IH by simp
qed simp

lemma queue_lost_groups_InrD:
  assumes "each (queue_lost_group now) ps d = Inr d'"
  shows "sync_frame d d' \<and> (keyed_states d \<longrightarrow> keyed_states d') \<and>
    (\<forall>sys res. (sys, res) \<notin> set ps \<longrightarrow> state_of d' sys res = state_of d sys res) \<and>
    (\<forall>sys res. (sys, res) \<in> set ps \<longrightarrow> (case state_of d' sys res of None \<Rightarrow> True | Some st \<Rightarrow> \<not> ss_active st))"
  using assms
proof (induction ps arbitrary: d)
  case (Cons p ps)
  obtain sys res where p: "p = (sys, res)" by (cases p)
  from Cons.prems p obtain d1 where q: "queueDesiredStateTx (desired_group sys res False '''' False) now d = Inr d1"
      and rest: "each (queue_lost_group now) ps d1 = Inr d'" by (auto simp: result_iffs queue_lost_group_def)
  note q = queueDesiredStateTx_InrD[OF q]
  note IH = Cons.IH[OF rest]
  have "case state_of d1 sys res of None \<Rightarrow> True | Some st \<Rightarrow> \<not> ss_active st" using q(3) by (auto simp: queued_row_def)
  then have "case state_of d' s r of None \<Rightarrow> True | Some st \<Rightarrow> \<not> ss_active st" if "(s, r) \<in> set (p # ps)" for s r
    using that IH p by (cases "(s, r) \<in> set ps") auto
  moreover have "sync_frame d d'" "keyed_states d \<longrightarrow> keyed_states d'" using IH q(1,4) sync_frame_trans by metis+
  moreover have "state_of d' s r = state_of d s r" if "(s, r) \<notin> set (p # ps)" for s r
    using that IH q(2)[of s r] p by auto
  ultimately show ?case by blast
qed simp

section \<open>Reconciliation converges\<close>

text \<open>An account a connector is recorded to hold.\<close>

definition held :: "string \<Rightarrow> string \<Rightarrow> db \<Rightarrow> bool" where
  "held sys uid d \<longleftrightarrow> (case state_of d sys uid of None \<Rightarrow> False | Some st \<Rightarrow> ss_kind st = UserResource \<and> ss_active st)"

text \<open>Accounts and groups do not share identifiers, neither in the directory nor in the recorded states.\<close>

definition ids_apart :: "db \<Rightarrow> bool" where
  "ids_apart d \<longleftrightarrow> distinct (map dg_id (directory_groups d)) \<and> usr_id ` set (users d) \<inter> dg_id ` set (directory_groups d) = {} \<and>
     (\<forall>st \<in> set (sync_states d). if ss_kind st = GroupResource then ss_resource_id st \<notin> usr_id ` set (users d)
        else ss_resource_id st \<notin> dg_id ` set (directory_groups d))"

lemma set_order_pairs [simp]: "set (order_pairs a b xs) = set xs"
  by (simp add: order_pairs_def)

lemma system_access_user: "system_access sys uid now d \<Longrightarrow> uid \<in> usr_id ` set (users d)"
  by (auto simp: system_access_def effective_app_access_iff)

lemma provisioning_gains_iff: "(sys, uid) \<in> set (provisioning_gains now d) \<longleftrightarrow>
    system_enabled sys d \<and> system_access sys uid now d \<and> (case state_of d sys uid of None \<Rightarrow> True | Some st \<Rightarrow> \<not> ss_active st)"
  unfolding provisioning_gains_def system_enabled_def system_access_def state_of_def by force

lemma provisioning_losses_iff: "keyed_states d \<Longrightarrow> (sys, uid) \<in> set (provisioning_losses now d) \<longleftrightarrow>
    system_enabled sys d \<and> \<not> system_access sys uid now d \<and> held sys uid d"
  using state_of_row state_of_SomeD unfolding provisioning_losses_def held_def
  by (fastforce split: option.splits)

lemma assigned_groups_iff: "g \<in> set (assigned_groups sys d) \<longleftrightarrow> g \<in> set (directory_groups d) \<and> group_assigned sys (dg_id g) d"
  unfolding assigned_groups_def group_assigned_def by (auto; metis)

lemma desiredGroupsTx_row:
  assumes "g \<in> set (desiredGroupsTx s d)"
  obtains x where "x \<in> set (directory_groups d)" "group_assigned (dgr_system_id g) (dgr_group_id g) d" "dg_id x = dgr_group_id g"
    "g = \<lparr>dgr_system_id = dgr_system_id g, dgr_group_id = dg_id x, dgr_name = dg_name x\<rparr>"
  using assms unfolding desiredGroupsTx_def by (auto simp: assigned_groups_iff)

lemma desiredGroupsTx_unique:
  assumes "distinct (map dg_id (directory_groups d))" "g \<in> set (desiredGroupsTx s d)" "h \<in> set (desiredGroupsTx s d)" "group_key g = group_key h"
  shows "g = h"
proof -
  obtain x where x: "x \<in> set (directory_groups d)" "dg_id x = dgr_group_id g" "g = \<lparr>dgr_system_id = dgr_system_id g, dgr_group_id = dg_id x, dgr_name = dg_name x\<rparr>"
    using desiredGroupsTx_row[OF assms(2)] by metis
  obtain y where y: "y \<in> set (directory_groups d)" "dg_id y = dgr_group_id h" "h = \<lparr>dgr_system_id = dgr_system_id h, dgr_group_id = dg_id y, dgr_name = dg_name y\<rparr>"
    using desiredGroupsTx_row[OF assms(3)] by metis
  have k: "dgr_group_id g = dgr_group_id h" "dgr_system_id g = dgr_system_id h" using assms(4) by (simp_all add: group_key_def)
  with x(2) y(2) have "x = y" using key_unique[OF assms(1) x(1) y(1)] by simp
  with x(3) y(3) k show ?thesis by metis
qed

lemma state_of_iff:
  assumes "keyed_states d"
  shows "(\<exists>st \<in> set (sync_states d). (ss_system_id st, ss_resource_id st) = (sys, res) \<and> P st) \<longleftrightarrow> (\<exists>st. state_of d sys res = Some st \<and> P st)"
proof
  assume "\<exists>st \<in> set (sync_states d). (ss_system_id st, ss_resource_id st) = (sys, res) \<and> P st"
  with state_of_row[OF assms] show "\<exists>st. state_of d sys res = Some st \<and> P st" by auto
next
  assume "\<exists>st. state_of d sys res = Some st \<and> P st"
  with state_of_SomeD show "\<exists>st \<in> set (sync_states d). (ss_system_id st, ss_resource_id st) = (sys, res) \<and> P st" by fastforce
qed

lemma lost_groups_iff:
  assumes "keyed_states d"
  shows "(sys, res) \<in> set (lost_groups d) \<longleftrightarrow>
    (\<exists>st. state_of d sys res = Some st \<and> ss_kind st = GroupResource \<and> ss_active st \<and> delivers_groups sys d \<and> \<not> group_assigned sys res d)"
  unfolding state_of_iff[OF assms, symmetric] by (auto simp: lost_groups_def)

definition kinds_apart :: "db \<Rightarrow> bool" where
  "kinds_apart d \<longleftrightarrow> (\<forall>sys res st. state_of d sys res = Some st \<longrightarrow>
     (if ss_kind st = GroupResource then res \<notin> usr_id ` set (users d) else res \<notin> dg_id ` set (directory_groups d)))"

lemma ids_apart_kinds: "ids_apart d \<Longrightarrow> kinds_apart d"
  unfolding kinds_apart_def
proof (intro allI impI)
  fix sys res st assume a: "ids_apart d" "state_of d sys res = Some st"
  from state_of_SomeD[OF a(2)] have "st \<in> set (sync_states d)" "ss_resource_id st = res" by auto
  with a(1) show "if ss_kind st = GroupResource then res \<notin> usr_id ` set (users d) else res \<notin> dg_id ` set (directory_groups d)"
    unfolding ids_apart_def by blast
qed

lemma kind_not_group [simp]: "k \<noteq> GroupResource \<longleftrightarrow> k = UserResource"
  by (cases k) auto

lemma held_iff: "held sys uid d \<longleftrightarrow> (\<exists>st. state_of d sys uid = Some st \<and> ss_kind st = UserResource \<and> ss_active st)"
  by (auto simp: held_def split: option.splits)

lemma kinds_apartD:
  assumes "kinds_apart d" "state_of d sys res = Some st"
  shows "ss_kind st = GroupResource \<Longrightarrow> res \<notin> usr_id ` set (users d)" and "ss_kind st = UserResource \<Longrightarrow> res \<notin> dg_id ` set (directory_groups d)"
proof -
  from assms have "if ss_kind st = GroupResource then res \<notin> usr_id ` set (users d) else res \<notin> dg_id ` set (directory_groups d)"
    unfolding kinds_apart_def by blast
  then show "ss_kind st = GroupResource \<Longrightarrow> res \<notin> usr_id ` set (users d)" "ss_kind st = UserResource \<Longrightarrow> res \<notin> dg_id ` set (directory_groups d)"
    by simp_all
qed

lemma kinds_apart_user: "kinds_apart d \<Longrightarrow> uid \<in> usr_id ` set (users d) \<Longrightarrow> state_of d sys uid = Some st \<Longrightarrow> ss_kind st = UserResource"
  using kinds_apartD(1) by (cases "ss_kind st") auto

text \<open>After the gains and the losses the accounts held are the accounts in scope.\<close>

lemma accounts_settled:
  assumes k: "keyed_states d" and ap: "kinds_apart d" "usr_id ` set (users d) \<inter> dg_id ` set (directory_groups d) = {}"
    and g: "changed UserResource True (set (provisioning_gains now d)) d d1"
    and l: "changed UserResource False (set (provisioning_losses now d)) d1 d2"
  shows "system_enabled sys d \<Longrightarrow> held sys uid d2 \<longleftrightarrow> system_access sys uid now d" and "kinds_apart d2"
proof -
  have kind1: "\<exists>st. state_of d1 sys uid = Some st \<and> ss_active st \<and> ss_kind st = UserResource" if "(sys, uid) \<in> set (provisioning_gains now d)" for sys uid
  proof -
    from that have "uid \<in> usr_id ` set (users d)" using system_access_user by (auto simp: provisioning_gains_iff)
    then have "(case state_of d sys uid of None \<Rightarrow> UserResource | Some x \<Rightarrow> ss_kind x) = UserResource"
      using kinds_apart_user[OF ap(1)] by (auto split: option.splits)
    with changedD(2)[OF g that] show ?thesis by auto
  qed
  have disj: "(sys, uid) \<notin> set (provisioning_losses now d)" if "(sys, uid) \<in> set (provisioning_gains now d)" for sys uid
    using that by (auto simp: provisioning_gains_iff provisioning_losses_iff[OF k])
  have s1: "state_of d1 sys uid = state_of d sys uid" if "(sys, uid) \<notin> set (provisioning_gains now d)" for sys uid
    using that by (rule changedD(1)[OF g])
  have s2: "state_of d2 sys uid = state_of d1 sys uid" if "(sys, uid) \<notin> set (provisioning_losses now d)" for sys uid
    using that by (rule changedD(1)[OF l])
  have lost: "\<exists>st. state_of d2 sys uid = Some st \<and> \<not> ss_active st \<and> ss_kind st = UserResource" if "(sys, uid) \<in> set (provisioning_losses now d)" for sys uid
  proof -
    from that have h: "held sys uid d" "(sys, uid) \<notin> set (provisioning_gains now d)" using disj by (auto simp: provisioning_losses_iff[OF k])
    then have "(case state_of d1 sys uid of None \<Rightarrow> UserResource | Some x \<Rightarrow> ss_kind x) = UserResource"
      by (auto simp: held_iff s1)
    with changedD(2)[OF l that] show ?thesis by auto
  qed
  show "held sys uid d2 \<longleftrightarrow> system_access sys uid now d" if e: "system_enabled sys d"
  proof (cases "system_access sys uid now d")
    case True
    then have u: "uid \<in> usr_id ` set (users d)" by (rule system_access_user)
    have nl: "(sys, uid) \<notin> set (provisioning_losses now d)" using True by (simp add: provisioning_losses_iff[OF k])
    have "held sys uid d2"
    proof (cases "(sys, uid) \<in> set (provisioning_gains now d)")
      case True
      with kind1[OF True] nl show ?thesis by (auto simp: held_iff s2)
    next
      case False
      with e \<open>system_access sys uid now d\<close> obtain st where "state_of d sys uid = Some st" "ss_active st"
        by (auto simp: provisioning_gains_iff split: option.splits)
      with kinds_apart_user[OF ap(1) u] False nl show ?thesis by (auto simp: held_iff s1 s2)
    qed
    with True show ?thesis by simp
  next
    case False
    then have ng: "(sys, uid) \<notin> set (provisioning_gains now d)" by (simp add: provisioning_gains_iff)
    have "\<not> held sys uid d2"
    proof (cases "(sys, uid) \<in> set (provisioning_losses now d)")
      case True
      with lost[OF True] show ?thesis by (auto simp: held_iff)
    next
      case nl: False
      with e False have "\<not> held sys uid d" by (simp add: provisioning_losses_iff[OF k])
      with ng nl show ?thesis by (simp add: held_iff s1 s2)
    qed
    with False show ?thesis by simp
  qed
  have f: "users d2 = users d" "directory_groups d2 = directory_groups d"
    using sync_frame_tables(1,5)[OF sync_frame_trans[OF changedD(3)[OF g] changedD(3)[OF l]]] by simp_all
  show "kinds_apart d2"
    unfolding kinds_apart_def f
  proof (intro allI impI)
    fix sys res st assume st: "state_of d2 sys res = Some st"
    consider "(sys, res) \<in> set (provisioning_losses now d)" | "(sys, res) \<in> set (provisioning_gains now d)"
      | "(sys, res) \<notin> set (provisioning_losses now d)" "(sys, res) \<notin> set (provisioning_gains now d)" by blast
    then show "if ss_kind st = GroupResource then res \<notin> usr_id ` set (users d) else res \<notin> dg_id ` set (directory_groups d)"
    proof cases
      case 1
      then have "held sys res d" by (simp add: provisioning_losses_iff[OF k])
      then have "res \<notin> dg_id ` set (directory_groups d)" using kinds_apartD(2)[OF ap(1)] by (auto simp: held_iff)
      with lost[OF 1] st show ?thesis by auto
    next
      case 2
      then have "res \<in> usr_id ` set (users d)" using system_access_user by (auto simp: provisioning_gains_iff)
      with ap(2) have "res \<notin> dg_id ` set (directory_groups d)" by blast
      with kind1[OF 2] st s2[OF disj[OF 2]] show ?thesis by auto
    next
      case 3
      with st have "state_of d sys res = Some st" by (simp add: s1 s2)
      from kinds_apartD[OF ap(1) this] show ?thesis by (cases "ss_kind st") auto
    qed
  qed
qed

text \<open>The group pass leaves accounts as they were and every group settled.\<close>

lemma groups_settled:
  assumes k: "keyed_states d" and ap: "kinds_apart d" "distinct (map dg_id (directory_groups d))"
    and r: "reconcileGroupsTx sha now False d = Inr d'"
  shows "sync_frame d d'" "keyed_states d'" "held sys uid d' \<longleftrightarrow> held sys uid d"
    "\<forall>g \<in> set (desiredGroupsTx '''' d'). group_settled sha now d' g" "lost_groups d' = []"
proof -
  from r obtain d1 where d1: "each (queue_group sha now False) (desiredGroupsTx '''' d) d = Inr d1"
      and d': "each (queue_lost_group now) (lost_groups d1) d1 = Inr d'" unfolding reconcileGroupsTx_eq by (auto simp: result_iffs)
  note q = queue_groups_InrD[OF d1 desiredGroupsTx_unique[OF ap(2), of _ "''''"]]
  note w = queue_lost_groups_InrD[OF d']
  have f1: "sync_frame d d1" and k1: "keyed_states d1" using q k by blast+
  have f: "sync_frame d d'" and k': "keyed_states d'" using f1 k1 w sync_frame_trans by blast+
  note views = sync_frame_views[OF f] sync_frame_views[OF f1]
  have tables: "group_assigned s r d' = group_assigned s r d" "group_assigned s r d1 = group_assigned s r d"
      "delivers_groups s d' = delivers_groups s d" "delivers_groups s d1 = delivers_groups s d" for s r
    by (simp_all add: group_assigned_def delivers_groups_def sync_frame_tables[OF f] sync_frame_tables[OF f1])
  have desired: "group_assigned s r d \<and> r \<in> dg_id ` set (directory_groups d)" if "(s, r) \<in> group_key ` set (desiredGroupsTx '''' d)" for s r
    using that by (auto simp: group_key_def elim!: desiredGroupsTx_row intro!: image_eqI[where f = dg_id])
  have lost: "state_of d1 s r = state_of d s r" "(\<exists>st. state_of d s r = Some st \<and> ss_kind st = GroupResource) \<or> (\<exists>st. state_of d1 s r = Some st \<and> ss_kind st = GroupResource)"
    if "(s, r) \<in> set (lost_groups d1)" for s r
  proof -
    from that have na: "\<not> group_assigned s r d" and g: "\<exists>st. state_of d1 s r = Some st \<and> ss_kind st = GroupResource"
      by (auto simp: lost_groups_iff[OF k1] tables)
    with desired have "(s, r) \<notin> group_key ` set (desiredGroupsTx '''' d)" by blast
    with q g show "state_of d1 s r = state_of d s r" "(\<exists>st. state_of d s r = Some st \<and> ss_kind st = GroupResource) \<or>
        (\<exists>st. state_of d1 s r = Some st \<and> ss_kind st = GroupResource)" by blast+
  qed
  have kind: "ss_kind st = GroupResource" if "state_of d s r = Some st" "(s, r) \<in> group_key ` set (desiredGroupsTx '''' d)" for s r st
    using desired[OF that(2)] kinds_apartD(2)[OF ap(1) that(1)] by (cases "ss_kind st") auto
  have held1: "held s u d1 \<longleftrightarrow> held s u d" for s u
  proof (cases "(s, u) \<in> group_key ` set (desiredGroupsTx '''' d)")
    case True
    have "map_option ss_kind (state_of d1 s u) \<noteq> Some UserResource"
    proof -
      from q have "map_option ss_kind (state_of d1 s u) = map_option ss_kind (state_of d s u) \<or> map_option ss_kind (state_of d1 s u) = Some GroupResource"
        by blast
      with kind[OF _ True] show ?thesis by (cases "state_of d s u") auto
    qed
    moreover have "map_option ss_kind (state_of d s u) \<noteq> Some UserResource" using kind[OF _ True] by auto
    ultimately show ?thesis by (auto simp: held_iff)
  next
    case False
    with q have "state_of d1 s u = state_of d s u" by blast
    then show ?thesis by (simp add: held_def)
  qed
  have held': "held s u d' \<longleftrightarrow> held s u d1" for s u
  proof (cases "(s, u) \<in> set (lost_groups d1)")
    case True
    then have "\<not> held s u d1" by (auto simp: lost_groups_iff[OF k1] held_iff)
    moreover have "\<not> held s u d'" using w True by (auto simp: held_def split: option.splits)
    ultimately show ?thesis by simp
  next
    case False
    with w have "state_of d' s u = state_of d1 s u" by blast
    then show ?thesis by (simp add: held_def)
  qed
  show "sync_frame d d'" by (rule f)
  show "keyed_states d'" by (rule k')
  show "held sys uid d' \<longleftrightarrow> held sys uid d" using held1 held' by simp
  show "\<forall>g \<in> set (desiredGroupsTx '''' d'). group_settled sha now d' g"
  proof
    fix g assume "g \<in> set (desiredGroupsTx '''' d')"
    then have g: "g \<in> set (desiredGroupsTx '''' d)" by (simp add: views)
    with desired[of "dgr_system_id g" "dgr_group_id g"] have "group_assigned (dgr_system_id g) (dgr_group_id g) d"
      by (simp add: group_key_def image_iff) metis
    then have "(dgr_system_id g, dgr_group_id g) \<notin> set (lost_groups d1)" by (simp add: lost_groups_iff[OF k1] tables)
    with w have "state_of d' (dgr_system_id g) (dgr_group_id g) = state_of d1 (dgr_system_id g) (dgr_group_id g)" by blast
    moreover have "group_settled sha now d1 g" using q g by blast
    ultimately show "group_settled sha now d' g" using group_settled_cong[of d1 d' g] w by blast
  qed
  have "(s, r) \<notin> set (lost_groups d')" for s r
  proof
    assume a: "(s, r) \<in> set (lost_groups d')"
    then obtain st where st: "state_of d' s r = Some st" "ss_kind st = GroupResource" "ss_active st" "delivers_groups s d" "\<not> group_assigned s r d"
      by (auto simp: lost_groups_iff[OF k'] tables)
    show False
    proof (cases "(s, r) \<in> set (lost_groups d1)")
      case True
      with w st show False by (metis (no_types, lifting) option.case(2))
    next
      case False
      with w st have "state_of d1 s r = Some st" by metis
      with False st show False by (auto simp: lost_groups_iff[OF k1] tables)
    qed
  qed
  then show "lost_groups d' = []" by (metis equals0I set_empty2 surj_pair)
qed

lemma reconcileProvisioningTx_stages:
  assumes "reconcileProvisioningTx sha now d = Inr d'" and k: "keyed_states d" and ap: "ids_apart d"
  obtains d3 where "sync_frame d d3" "keyed_states d3" "d' = revive_exhausted now d3"
    "\<And>sys uid. system_enabled sys d \<Longrightarrow> held sys uid d3 \<longleftrightarrow> system_access sys uid now d"
    "\<forall>g \<in> set (desiredGroupsTx '''' d3). group_settled sha now d3 g" "lost_groups d3 = []"
proof -
  have "\<forall>p \<in> set (provisioning_gains now d). user_by_id (snd p) now d \<noteq> None"
  proof
    fix p assume "p \<in> set (provisioning_gains now d)"
    then have "system_access (fst p) (snd p) now d" using provisioning_gains_iff[of "fst p" "snd p" now d] by simp
    then have "snd p \<in> usr_id ` set (users d)" by (rule system_access_user)
    then show "user_by_id (snd p) now d \<noteq> None" by (auto simp: user_by_id_def find_None_iff2)
  qed
  from queue_gains_InrD[OF assms(1)[unfolded reconcileProvisioningTx_def Let_def] this] obtain d1 d2 d3
    where g: "changed UserResource True (set (provisioning_gains now d)) d d1" and l: "each (queue_loss now) (provisioning_losses now d) d1 = Inr d2"
      and r: "reconcileGroupsTx sha now False d2 = Inr d3" and d': "d' = revive_exhausted now d3" by (auto simp: result_iffs)
  note l = queue_loss_InrD[OF l]
  have ap': "kinds_apart d" "usr_id ` set (users d) \<inter> dg_id ` set (directory_groups d) = {}" "distinct (map dg_id (directory_groups d))"
    using ap ids_apart_kinds unfolding ids_apart_def by blast+
  note acc = accounts_settled[OF k ap'(1,2) g l]
  have f2: "sync_frame d d2" and k2: "keyed_states d2" using changedD(3,4)[OF g] changedD(3,4)[OF l] k sync_frame_trans by blast+
  have dg: "distinct (map dg_id (directory_groups d2))" using ap'(3) by (simp add: sync_frame_tables[OF f2])
  note gr = groups_settled[OF k2 acc(2) dg r]
  show thesis
    by (rule that[OF sync_frame_trans[OF f2 gr(1)] gr(2) d' _ gr(4,5)]) (simp add: gr(3) acc(1))
qed

lemma revive_exhausted_frame: "sync_frame d (revive_exhausted now d)" "state_of (revive_exhausted now d) = state_of d"
  "keyed_states (revive_exhausted now d) = keyed_states d" "sync_states (revive_exhausted now d) = sync_states d"
proof -
  obtain evs where e: "revive_exhausted now d = d\<lparr>sync_events := evs\<rparr>" by (simp add: revive_exhausted_def Let_def)
  show "sync_frame d (revive_exhausted now d)"
    by (rule sync_frameI[where sts = "sync_states d" and evs = evs and p = "rand_pos d"]) (simp add: e)
  show "state_of (revive_exhausted now d) = state_of d" "keyed_states (revive_exhausted now d) = keyed_states d"
    "sync_states (revive_exhausted now d) = sync_states d" by (simp_all add: e)
qed

text \<open>Whatever its outcome, a pass writes only the desired states and the outbox.\<close>

lemma each_sync_frame:
  assumes "each f xs d = Inr d'" and "\<And>x e e'. f x e = Inr e' \<Longrightarrow> sync_frame e e'"
  shows "sync_frame d d'"
  using assms(1)
proof (rule each_keeps[where P = "sync_frame d"])
  show "sync_frame d s'" if "f x s = Inr s'" "sync_frame d s" for x s s' using that assms(2) sync_frame_trans by blast
qed simp

lemma queue_gains_frame:
  assumes "queue_gains now rest ps d = Inr d'" and "\<And>e e'. rest e = Inr e' \<Longrightarrow> sync_frame e e'"
  shows "sync_frame d d'"
  using assms(1)
proof (induction ps arbitrary: d)
  case (Cons p ps)
  obtain sys uid where p: "p = (sys, uid)" by (cases p)
  show ?case
  proof (cases "user_by_id uid now d")
    case (Some u)
    with Cons.prems p obtain body d1 where q: "queueDesiredStateTx (desired_user sys uid True body) now d = Inr d1"
        and rest: "queue_gains now rest ps d1 = Inr d'" by (auto simp: result_iffs)
    show ?thesis by (rule sync_frame_trans[OF queueDesiredStateTx_InrD(1)[OF q] Cons.IH[OF rest]])
  qed (use Cons.prems p in simp)
qed (simp add: assms(2))

lemma reconcileGroupsTx_frame:
  assumes "reconcileGroupsTx sha now force d = Inr d'"
  shows "sync_frame d d'"
proof -
  from assms obtain d1 where e: "each (queue_group sha now force) (desiredGroupsTx '''' d) d = Inr d1" "each (queue_lost_group now) (lost_groups d1) d1 = Inr d'"
    by (auto simp: reconcileGroupsTx_eq result_iffs)
  have f: "sync_frame e e'" if "queue_group sha now force g e = Inr e'" for g e e'
    using that queueDesiredStateTx_InrD(1) by (auto simp: queue_group_def split: if_splits)
  have g: "sync_frame e e'" if "queue_lost_group now p e = Inr e'" for p e e'
    using that queueDesiredStateTx_InrD(1) by (auto simp: queue_lost_group_def split: prod.splits)
  from e(1) f have "sync_frame d d1" by (rule each_sync_frame)
  moreover from e(2) g have "sync_frame d1 d'" by (rule each_sync_frame)
  ultimately show ?thesis by (rule sync_frame_trans)
qed

lemma reconcileProvisioningTx_frame:
  assumes "reconcileProvisioningTx sha now d = Inr d'"
  shows "sync_frame d d'"
proof (rule queue_gains_frame[OF assms[unfolded reconcileProvisioningTx_def Let_def]])
  fix e e'
  assume "andthen (each (queue_loss now) (provisioning_losses now d) e) (\<lambda>d2. andthen (reconcileGroupsTx sha now False d2) (\<lambda>d3. Inr (revive_exhausted now d3))) = Inr e'"
  then obtain d2 d3 where "each (queue_loss now) (provisioning_losses now d) e = Inr d2" "reconcileGroupsTx sha now False d2 = Inr d3" "e' = revive_exhausted now d3"
    by (auto simp: result_iffs)
  then show "sync_frame e e'"
    using changedD(3)[OF queue_loss_InrD] reconcileGroupsTx_frame revive_exhausted_frame(1) sync_frame_trans by metis
qed

lemma each_settled: "(\<And>x. x \<in> set xs \<Longrightarrow> f x s = Inr s) \<Longrightarrow> each f xs s = Inr s"
  by (induction xs) auto

lemma reconcile_in_step:
  assumes "reconcileProvisioningTx sha now d = Inr d'" and "keyed_states d" and "ids_apart d" and "system_enabled sys d'"
  shows "held sys uid d' = system_access sys uid now d'"
proof -
  obtain d3 where f3: "sync_frame d d3" and d': "d' = revive_exhausted now d3"
      and acc: "\<And>sys uid. system_enabled sys d \<Longrightarrow> held sys uid d3 \<longleftrightarrow> system_access sys uid now d"
    using reconcileProvisioningTx_stages[OF assms(1-3)] by metis
  note rv = revive_exhausted_frame[where now = now and d = d3, folded d']
  have f': "sync_frame d d'" using f3 rv(1) by (rule sync_frame_trans)
  show ?thesis using acc[of sys uid] assms(4) by (simp add: sync_frame_views[OF f'] held_def rv(2))
qed

text \<open>
  C36. Reconciliation converges: after a pass, what each enabled connector is recorded to hold is exactly the accounts
  with effective access to its app, whatever was recorded before, and a second pass at the same instant succeeds and
  changes no desired state.
\<close>

theorem reconcile_converges:
  assumes "reconcileProvisioningTx sha now d = Inr d'" and "keyed_states d" and "ids_apart d"
  shows "(\<forall>sys uid. system_enabled sys d' \<longrightarrow> held sys uid d' = system_access sys uid now d') \<and>
    (\<exists>d''. reconcileProvisioningTx sha now d' = Inr d'' \<and> sync_states d'' = sync_states d')"
proof -
  obtain d3 where f3: "sync_frame d d3" and k3: "keyed_states d3" and d': "d' = revive_exhausted now d3"
      and acc: "\<And>sys uid. system_enabled sys d \<Longrightarrow> held sys uid d3 \<longleftrightarrow> system_access sys uid now d"
      and gr: "\<forall>g \<in> set (desiredGroupsTx '''' d3). group_settled sha now d3 g" "lost_groups d3 = []"
    using reconcileProvisioningTx_stages[OF assms] by metis
  note rv = revive_exhausted_frame[where now = now and d = d3, folded d']
  have f': "sync_frame d d'" using f3 rv(1) by (rule sync_frame_trans)
  have k': "keyed_states d'" using k3 rv(3) by simp
  have acc': "held sys uid d' = system_access sys uid now d'" if "system_enabled sys d'" for sys uid
    by (rule reconcile_in_step[OF assms that])
  have "(sys, uid) \<notin> set (provisioning_gains now d')" for sys uid
    using acc'[of sys uid] by (auto simp: provisioning_gains_iff held_iff)
  then have gains: "provisioning_gains now d' = []" by (metis equals0I set_empty2 surj_pair)
  have "(sys, uid) \<notin> set (provisioning_losses now d')" for sys uid
    using acc'[of sys uid] by (auto simp: provisioning_losses_iff[OF k'])
  then have losses: "provisioning_losses now d' = []" by (metis equals0I set_empty2 surj_pair)
  have "group_settled sha now d' g" if "g \<in> set (desiredGroupsTx '''' d')" for g
    using that gr(1) group_settled_cong[OF rv(1)] by (simp add: sync_frame_views[OF rv(1)] rv(2))
  then have "each (queue_group sha now False) (desiredGroupsTx '''' d') d' = Inr d'"
    by (intro each_settled) (simp add: queue_group_def)
  moreover have "lost_groups d' = []"
    using gr(2) by (simp add: lost_groups_def rv(4) delivers_groups_def group_assigned_def sync_frame_tables[OF rv(1)])
  ultimately have "reconcileGroupsTx sha now False d' = Inr d'" by (simp add: reconcileGroupsTx_eq)
  then have "reconcileProvisioningTx sha now d' = Inr (revive_exhausted now d')" by (simp add: reconcileProvisioningTx_def gains losses)
  with revive_exhausted_frame(4)[where now = now and d = d'] acc' show ?thesis by blast
qed

section \<open>A connector in the sample directory\<close>

definition sample_system :: paired_system where
  "sample_system = \<lparr>ps_id = ''y1'', ps_name = ''Notes'', ps_system_type = ''scim'', ps_description = '''', ps_icon_url = '''',
     ps_callback_url = ''https://notes.example/scim'', ps_hmac_secret_encrypted = ''k'', ps_status = SysActive, ps_last_synced_at = None,
     ps_created_at = 0, ps_groups_enabled = True, ps_reconcile_hours = 0, ps_provisioning_hold = False\<rparr>"

definition sample_state :: "string \<Rightarrow> sync_state" where
  "sample_state uid = \<lparr>ss_system_id = ''y1'', ss_resource_id = uid, ss_kind = UserResource, ss_active = True, ss_provisioned = True, ss_revision = 1,
     ss_members = '''', ss_delivery_revision = 1, ss_offboarded_at = None, ss_observed = '''', ss_observed_at = None\<rparr>"

text \<open>The connector of the sample app, still recorded as holding an account that has no access.\<close>

definition connector_db :: db where
  "connector_db = sample_db\<lparr>app_registry := [sample_app\<lparr>app_system_id := Some ''y1''\<rparr>], paired_systems := [sample_system],
     sync_states := [sample_state ''u0'']\<rparr>"

theorem reconcile_converges_witness:
  "\<exists>d'. reconcileProvisioningTx id sample_now connector_db = Inr d' \<and> held ''y1'' ''u1'' d' \<and> \<not> held ''y1'' ''u0'' d'"
proof -
  have "\<not> isl (reconcileProvisioningTx id sample_now connector_db)" by code_simp
  then obtain d' where r: "reconcileProvisioningTx id sample_now connector_db = Inr d'" by (blast dest: succeeds)
  have w: "keyed_states connector_db" "ids_apart connector_db" by code_simp+
  have e: "system_enabled ''y1'' (projr (reconcileProvisioningTx id sample_now connector_db))"
    "system_access ''y1'' ''u1'' sample_now (projr (reconcileProvisioningTx id sample_now connector_db))"
    "\<not> system_access ''y1'' ''u0'' sample_now (projr (reconcileProvisioningTx id sample_now connector_db))" by code_simp+
  from reconcile_converges[OF r w] e r show ?thesis by simp
qed

end
