(* ===== verification/Ky_Delivery.thy ===== *)
theory Ky_Delivery
  imports Ky_Provisioning
begin

text \<open>
  Delivery of the outbox (\<^verbatim>\<open>internal/store/sync_delivery.go\<close>, the sync part of \<^verbatim>\<open>store.go\<close> and
  \<open>refreshSyncEventRolesTx\<close> of \<^verbatim>\<open>app_roles.go\<close>): leases on due events, the durable fence a dispatcher
  takes before it may send, and the outcomes that release it. Bodies are held as the values their JSON text encodes, so a
  body that is not an object does not arise.
\<close>

section \<open>Events\<close>

definition SyncAttemptBudget :: int where
  "SyncAttemptBudget = 5"

definition Removal :: "sync_event \<Rightarrow> bool" where
  "Removal ev \<longleftrightarrow> se_event_type ev = ''user.deleted'' \<or> se_event_type ev = ''group.deleted'' \<or>
     (se_event_type ev = ''user.updated'' \<and> (case se_payload ev of Profile p \<Rightarrow> \<not> sp_active p | GroupBody _ \<Rightarrow> False))"

definition GetPendingSyncEvents :: "nat \<Rightarrow> db \<Rightarrow> sync_event list" where
  "GetPendingSyncEvents limit d = take limit (sort_key se_created_at
     (filter (\<lambda>e. (se_status e = EvPending \<or> se_status e = EvFailed) \<and> se_attempts e < 5) (sync_events d)))"

definition due :: "time \<Rightarrow> time option \<Rightarrow> bool" where
  "due now t = (case t of None \<Rightarrow> True | Some v \<Rightarrow> v \<le> now)"

definition GetDueSyncEvents :: "nat \<Rightarrow> time \<Rightarrow> db \<Rightarrow> sync_event list" where
  "GetDueSyncEvents limit now d = take limit (sort_key se_created_at
     (filter (\<lambda>e. se_status e = EvPending \<and> se_attempts e < 5 \<and> due now (se_next_attempt_at e)) (sync_events d)))"

definition UpdateSyncEventStatus :: "string \<Rightarrow> event_status \<Rightarrow> string \<Rightarrow> int \<Rightarrow> time option \<Rightarrow> time \<Rightarrow> db \<Rightarrow> db" where
  "UpdateSyncEventStatus eventID status lastError attempts nextAttempt now d =
     d\<lparr>sync_events := sql_update (\<lambda>e. se_id e = eventID) (\<lambda>e. e\<lparr>se_status := status, se_last_error := Some lastError, se_attempts := attempts,
        se_next_attempt_at := nextAttempt, se_lease_until := None, se_updated_at := now\<rparr>) (sync_events d)\<rparr>"

definition ReleaseSyncEventLease :: "string \<Rightarrow> db \<Rightarrow> db" where
  "ReleaseSyncEventLease eventID d = d\<lparr>sync_events := sql_update (\<lambda>e. se_id e = eventID) (\<lambda>e. e\<lparr>se_lease_until := None\<rparr>) (sync_events d)\<rparr>"

definition DeleteDeliveredSyncEvents :: "time \<Rightarrow> db \<Rightarrow> db" where
  "DeleteDeliveredSyncEvents olderThan d =
     d\<lparr>sync_events := sql_delete (\<lambda>e. se_status e = EvDelivered \<and> se_updated_at e < olderThan) (sync_events d)\<rparr>"

section \<open>Claims\<close>

text \<open>A removal's own fence lapses with its recovery time; a fence on any other write stays.\<close>

definition releaseFencesForRemovalsTx :: "time \<Rightarrow> db \<Rightarrow> db" where
  "releaseFencesForRemovalsTx now d =
     (let expired = (\<lambda>i. \<exists>a \<in> set (delivery_attempts d). da_recover_after a \<le> now \<and> da_event_id a = i);
          d1 = d\<lparr>sync_events := sql_update (\<lambda>e. expired (se_id e) \<and> Removal e) (\<lambda>e. e\<lparr>se_status := EvPending, se_next_attempt_at := None,
                   se_lease_until := None, se_claim_token := '''', se_updated_at := now\<rparr>) (sync_events d)\<rparr>
      in d1\<lparr>delivery_attempts := sql_delete (\<lambda>a. da_recover_after a \<le> now \<and>
             (\<exists>e \<in> set (sync_events d1). se_id e = da_event_id a \<and> Removal e)) (delivery_attempts d1)\<rparr>)"

definition deliverableTypes :: "string list" where
  "deliverableTypes = [''scim'', ''suite_webhook'', ''kypost'', ''kypasswords'', ''kybookmarks'', ''kynotes'']"

text \<open>The rows before an event, by row number.\<close>

definition earlier :: "sync_event \<Rightarrow> sync_event list \<Rightarrow> sync_event list" where
  "earlier e es = takeWhile (\<lambda>x. se_id x \<noteq> se_id e) es"

definition claimable_event :: "time \<Rightarrow> db \<Rightarrow> sync_event \<Rightarrow> bool" where
  "claimable_event now d e \<longleftrightarrow> se_status e = EvPending \<and>
     \<not> (\<exists>a \<in> set (delivery_attempts d). da_system_id a = se_system_id e \<and> da_user_id a = se_user_id e) \<and>
     \<not> (\<exists>x \<in> set (earlier e (sync_events d)). se_system_id x = se_system_id e \<and> se_user_id x = se_user_id e \<and>
         (se_status x = EvPending \<or> se_status x = EvFailed \<and> se_event_type x = ''user.mfa_reset'')) \<and>
     \<not> (\<exists>p \<in> set (paired_systems d). ps_id p = se_system_id e \<and>
         (ps_status p = SysDisabled \<or> ps_provisioning_hold p \<or> ps_system_type p \<notin> set deliverableTypes)) \<and>
     due now (se_next_attempt_at e) \<and> due now (se_lease_until e)"

definition user_event :: "sync_event \<Rightarrow> bool" where
  "user_event ev \<longleftrightarrow> take 5 (se_event_type ev) = ''user.''"

definition deactivate :: "payload \<Rightarrow> payload" where
  "deactivate body = (case body of
     Profile p \<Rightarrow> Profile (p\<lparr>sp_active := False, sp_status := map_option (\<lambda>_. ''disabled'') (sp_status p)\<rparr>) | GroupBody g \<Rightarrow> GroupBody g)"

definition still_desired :: "string \<Rightarrow> string \<Rightarrow> time \<Rightarrow> db \<Rightarrow> bool" where
  "still_desired sys uid now d \<longleftrightarrow> (\<exists>st \<in> set (sync_states d). state_at sys uid st \<and> ss_active st) \<and>
     (\<exists>u \<in> set (users d). usr_id u = uid \<and> usr_status u = Active \<and> live_until (usr_ends_at u) now) \<and> system_access sys uid now d"

text \<open>The version a delivery is ordered by, assigned once.\<close>

definition prepareSyncDeliveryTx :: "sync_event \<Rightarrow> time \<Rightarrow> db \<Rightarrow> err + (sync_event \<times> db)" where
  "prepareSyncDeliveryTx ev now d =
     (if se_delivery_revision ev \<noteq> 0 \<or> \<not> user_event ev then Inr (ev, d)
      else
        let sys = se_system_id ev; res = se_user_id ev;
            ev1 = (if se_event_type ev = ''user.mfa_reset'' \<and> \<not> still_desired sys res now d
                   then ev\<lparr>se_payload := deactivate (se_payload ev)\<rparr> else ev)
        in andthen (if \<exists>st \<in> set (sync_states d). state_at sys res st then Inr d
                    else andthen (ensure (\<exists>s \<in> set (paired_systems d). ps_id s = sys) ErrForeignKey) (\<lambda>_.
                      Inr (d\<lparr>sync_states := sql_insert \<lparr>ss_system_id = sys, ss_resource_id = res, ss_kind = UserResource, ss_active = False,
                        ss_provisioned = False, ss_revision = 0, ss_members = '''', ss_delivery_revision = 0, ss_offboarded_at = None,
                        ss_observed = '''', ss_observed_at = None\<rparr> (sync_states d)\<rparr>))) (\<lambda>d1.
           let d2 = d1\<lparr>sync_states := sql_update (state_at sys res) (\<lambda>st. st\<lparr>ss_delivery_revision :=
                      max (max (ss_delivery_revision st + 1) (ss_revision st + 1)) (se_revision ev)\<rparr>) (sync_states d1)\<rparr>
           in case sql_first (state_at sys res) (sync_states d2) of
                None \<Rightarrow> Inl ErrNoRows
              | Some st \<Rightarrow>
                 (let ev2 = ev1\<lparr>se_delivery_revision := ss_delivery_revision st\<rparr>
                  in Inr (ev2, d2\<lparr>sync_events := sql_update (\<lambda>e. se_id e = se_id ev) (\<lambda>e. e\<lparr>se_delivery_revision := ss_delivery_revision st,
                       se_payload := se_payload ev2\<rparr>) (sync_events d2)\<rparr>))))"

definition set_roles :: "(string \<times> bool) list \<Rightarrow> payload \<Rightarrow> payload" where
  "set_roles roles body = (case body of Profile p \<Rightarrow> Profile (p\<lparr>sp_roles := Some roles\<rparr>) | GroupBody g \<Rightarrow> GroupBody g)"

definition profile_event :: "sync_event \<Rightarrow> bool" where
  "profile_event ev \<longleftrightarrow> se_event_type ev \<in> {''user.created'', ''user.updated'', ''user.deleted'', ''user.mfa_reset''}"

definition refreshSyncEventRolesTx :: "sync_event \<Rightarrow> time \<Rightarrow> db \<Rightarrow> err + (sync_event \<times> db)" where
  "refreshSyncEventRolesTx ev now d =
     (if \<not> profile_event ev then Inr (ev, d)
      else case sql_first (\<lambda>a. app_system_id a = Some (se_system_id ev)) (app_registry d) of
             None \<Rightarrow> Inr (ev, d)
           | Some a \<Rightarrow>
               andthen (appSCIMRolesTx (se_user_id ev) (app_id a) now d) (\<lambda>roles.
               let body = set_roles roles (se_payload ev)
               in if body = se_payload ev then Inr (ev, d)
                  else Inr (ev\<lparr>se_payload := body\<rparr>, d\<lparr>sync_events := sql_update (\<lambda>e. se_id e = se_id ev) (\<lambda>e. e\<lparr>se_payload := body\<rparr>) (sync_events d)\<rparr>)))"

fun prepare_all :: "sync_event list \<Rightarrow> time \<Rightarrow> db \<Rightarrow> err + (sync_event list \<times> db)" where
  "prepare_all [] now d = Inr ([], d)"
| "prepare_all (ev # evs) now d =
     andthen (prepareSyncDeliveryTx ev now d) (\<lambda>(ev1, d1).
     andthen (refreshSyncEventRolesTx ev1 now d1) (\<lambda>(ev2, d2).
     andthen (prepare_all evs now d2) (\<lambda>(rest, d3). Inr (ev2 # rest, d3))))"

text \<open>The leases: each event gets a claim token of its own.\<close>

fun lease_all :: "sync_event list \<Rightarrow> time \<Rightarrow> time \<Rightarrow> db \<Rightarrow> sync_event list \<times> db" where
  "lease_all [] until now d = ([], d)"
| "lease_all (ev # evs) until now d =
     (let (token, d1) = fresh_id d;
          free = (\<lambda>e. se_id e = se_id ev \<and> due now (se_lease_until e));
          n = sql_count free (sync_events d1);
          d2 = d1\<lparr>sync_events := sql_update free (\<lambda>e. e\<lparr>se_lease_until := Some until, se_updated_at := now, se_claim_token := token\<rparr>) (sync_events d1)\<rparr>;
          (rest, d3) = lease_all evs until now d2
      in (if n = 1 then ev\<lparr>se_claim_token := token\<rparr> # rest else rest, d3))"

definition ClaimDueSyncEvents :: "nat \<Rightarrow> duration \<Rightarrow> time \<Rightarrow> db \<Rightarrow> sync_event list tx" where
  "ClaimDueSyncEvents limit lease now d =
     (let d1 = releaseFencesForRemovalsTx now d;
          events = take limit (sort_key se_created_at (filter (claimable_event now d1) (sync_events d1)))
      in if events = [] then Inr ([], d1)
         else andthen (prepare_all events now d1) (\<lambda>(evs, d2). Inr (lease_all evs (now + lease) now d2)))"

section \<open>Fences\<close>

text \<open>A live claim becomes a durable fence on the resource; a resource that has one keeps it.\<close>

definition BeginSyncDelivery :: "sync_event \<Rightarrow> duration \<Rightarrow> time \<Rightarrow> db \<Rightarrow> bool tx" where
  "BeginSyncDelivery ev duration now d =
     (case sql_first (\<lambda>e. se_id e = se_id ev \<and> se_claim_token e = se_claim_token ev \<and> se_claim_token e \<noteq> '''' \<and>
             (case se_lease_until e of None \<Rightarrow> False | Some t \<Rightarrow> now < t) \<and> se_status e = EvPending) (sync_events d) of
        None \<Rightarrow> Inr (False, d)
      | Some e \<Rightarrow>
         if \<exists>a \<in> set (delivery_attempts d). da_system_id a = se_system_id e \<and> da_user_id a = se_user_id e then Inr (False, d)
         else if \<exists>a \<in> set (delivery_attempts d). da_token a = se_claim_token e then Inl ErrUnique
         else Inr (True, d\<lparr>delivery_attempts := sql_insert \<lparr>da_system_id = se_system_id e, da_user_id = se_user_id e, da_token = se_claim_token e,
                da_event_id = se_id e, da_event_type = se_event_type e, da_started_at = now, da_recover_after = now + duration\<rparr> (delivery_attempts d)\<rparr>))"

definition settled_status :: "sync_event \<Rightarrow> event_status \<Rightarrow> int \<Rightarrow> event_status" where
  "settled_status ev status attempts =
     (if status = EvPending \<and> SyncAttemptBudget \<le> attempts \<and> \<not> Removal ev \<and> se_event_type ev \<noteq> ''user.mfa_reset'' then EvFailed else status)"

definition mark_system :: "string \<Rightarrow> (paired_system \<Rightarrow> paired_system) \<Rightarrow> db \<Rightarrow> db" where
  "mark_system sys f d = d\<lparr>paired_systems := sql_update (\<lambda>s. ps_id s = sys \<and> ps_status s \<noteq> SysDisabled) f (paired_systems d)\<rparr>"

definition FinishSyncDelivery :: "(string \<Rightarrow> string) \<Rightarrow> sync_event \<Rightarrow> event_status \<Rightarrow> string \<Rightarrow> int \<Rightarrow> time option \<Rightarrow> time \<Rightarrow> db \<Rightarrow> err + db" where
  "FinishSyncDelivery sha ev status0 message attempts next_at now d =
     (let status = settled_status ev status0 attempts;
          mine = (\<lambda>a. da_token a = se_claim_token ev);
          d1 = d\<lparr>delivery_attempts := sql_delete mine (delivery_attempts d)\<rparr>
      in andthen (ensure (sql_count mine (delivery_attempts d) = 1) ErrAttemptChanged) (\<lambda>_.
         let d2 = d1\<lparr>sync_events := sql_update (\<lambda>e. se_id e = se_id ev \<and> se_claim_token e = se_claim_token ev)
                 (\<lambda>e. e\<lparr>se_status := status, se_last_error := Some message, se_attempts := attempts, se_next_attempt_at := next_at,
                    se_lease_until := None, se_claim_token := '''', se_updated_at := now\<rparr>) (sync_events d1)\<rparr>
         in if status = EvDelivered
            then andthen (provisionedTx sha ev now d2) (\<lambda>d3.
                 Inr (mark_system (se_system_id ev) (\<lambda>s. s\<lparr>ps_status := SysActive, ps_last_synced_at := Some now\<rparr>) d3))
            else if message \<noteq> '''' then Inr (mark_system (se_system_id ev) (\<lambda>s. s\<lparr>ps_status := SysFailing\<rparr>) d2)
            else Inr d2))"

definition ListSyncDeliveryAttempts :: "string \<Rightarrow> db \<Rightarrow> delivery_attempt list" where
  "ListSyncDeliveryAttempts systemID d = take 100 (sort_key da_started_at (filter (\<lambda>a. da_system_id a = systemID) (delivery_attempts d)))"

definition releaseAttemptEventTx :: "string \<Rightarrow> time \<Rightarrow> db \<Rightarrow> db" where
  "releaseAttemptEventTx eventID now d =
     d\<lparr>sync_events := sql_update (\<lambda>e. se_id e = eventID) (\<lambda>e. e\<lparr>se_status := EvPending, se_attempts := 0, se_next_attempt_at := None,
        se_lease_until := None, se_claim_token := '''', se_last_error := Some '''',
        se_delivery_revision := if se_event_type e = ''user.mfa_reset'' then 0 else se_delivery_revision e, se_updated_at := now\<rparr>) (sync_events d)\<rparr>"

definition ResumeSyncDelivery :: "string \<Rightarrow> string \<Rightarrow> bool \<Rightarrow> audit_event option \<Rightarrow> time \<Rightarrow> db \<Rightarrow> err + db" where
  "ResumeSyncDelivery systemID token allowCreateRetry audit now d =
     (let mine = (\<lambda>a. da_system_id a = systemID \<and> da_token a = token \<and> da_recover_after a \<le> now)
      in case sql_first mine (delivery_attempts d) of
           None \<Rightarrow> Inl ErrAttemptChanged
         | Some a \<Rightarrow>
            (let d1 = d\<lparr>delivery_attempts := sql_delete mine (delivery_attempts d)\<rparr>;
                 d2 = (if allowCreateRetry
                       then d1\<lparr>scim_links := sql_delete (\<lambda>l. link_at systemID (da_user_id a) l \<and> lk_remote_id l = '''') (scim_links d1)\<rparr> else d1)
             in recordAuditTx audit now (releaseAttemptEventTx (da_event_id a) now d2)))"

text \<open>The audit row gains the released tokens among its details.\<close>

definition with_tokens :: "string list \<Rightarrow> audit_event \<Rightarrow> audit_event" where
  "with_tokens tokens e = e\<lparr>au_details := JObj ((case au_details e of JObj kvs \<Rightarrow> filter (\<lambda>kv. fst kv \<noteq> ''attemptTokens'') kvs | _ \<Rightarrow> [])
     @ [(''attemptTokens'', JArr (map JStr tokens))])\<rparr>"

definition ResumeSyncDeliveries :: "string \<Rightarrow> audit_event \<Rightarrow> time \<Rightarrow> db \<Rightarrow> nat tx" where
  "ResumeSyncDeliveries systemID audit now d =
     (let mine = (\<lambda>a. da_system_id a = systemID \<and> da_recover_after a \<le> now);
          released = filter mine (delivery_attempts d);
          d1 = d\<lparr>delivery_attempts := sql_delete mine (delivery_attempts d)\<rparr>
      in andthen (ensure (released \<noteq> []) ErrAttemptChanged) (\<lambda>_.
         andthen (recordAuditTx (Some (with_tokens (map da_token released) audit)) now
             (fold (\<lambda>a. releaseAttemptEventTx (da_event_id a) now) released d1)) (\<lambda>d2.
         Inr (length released, d2))))"

definition ListFailingSyncEvents :: "string \<Rightarrow> db \<Rightarrow> sync_event list" where
  "ListFailingSyncEvents systemID d = take 100 (sort_key se_created_at (filter (\<lambda>e. se_system_id e = systemID \<and>
     (se_status e = EvFailed \<or> se_status e = EvPending \<and> SyncAttemptBudget \<le> se_attempts e)) (sync_events d)))"

definition MarkSyncDeliveryUncertain :: "sync_event \<Rightarrow> time \<Rightarrow> db \<Rightarrow> db" where
  "MarkSyncDeliveryUncertain ev now d =
     (let d1 = d\<lparr>sync_events := sql_update (\<lambda>e. se_id e = se_id ev \<and> se_claim_token e = se_claim_token ev)
            (\<lambda>e. e\<lparr>se_last_error := Some ''remote write outcome uncertain; operator recovery required'', se_updated_at := now\<rparr>) (sync_events d)\<rparr>
      in if \<exists>a \<in> set (delivery_attempts d1). da_token a = se_claim_token ev
         then mark_system (se_system_id ev) (\<lambda>s. s\<lparr>ps_status := SysFailing\<rparr>) d1 else d1)"

definition SystemForClient :: "string \<Rightarrow> db \<Rightarrow> err + string" where
  "SystemForClient clientID d =
     (case sql_first (\<lambda>a. app_client_id a = Some clientID \<and> app_system_id a \<noteq> None) (app_registry d) of
        Some a \<Rightarrow> (case app_system_id a of Some s \<Rightarrow> Inr s | None \<Rightarrow> Inl ErrNotFound) | None \<Rightarrow> Inl ErrNotFound)"

record sync_backlog =
  sb_pending :: nat
  sb_failed :: nat
  sb_blocked :: string

definition SyncBacklog :: "string \<Rightarrow> time \<Rightarrow> db \<Rightarrow> err + sync_backlog" where
  "SyncBacklog systemID now d =
     (case sql_first (\<lambda>p. ps_id p = systemID) (paired_systems d) of
        None \<Rightarrow> Inl ErrNotFound
      | Some p \<Rightarrow> Inr
         \<lparr>sb_pending = sql_count (\<lambda>e. se_system_id e = systemID \<and> se_status e = EvPending) (sync_events d),
          sb_failed = sql_count (\<lambda>e. se_system_id e = systemID \<and> (se_status e = EvFailed \<or>
              (case se_last_error e of None \<Rightarrow> False | Some m \<Rightarrow> m \<noteq> '''') \<and> (\<exists>a \<in> set (delivery_attempts d). da_event_id a = se_id e) \<or>
              se_status e = EvPending \<and> (\<exists>a \<in> set (delivery_attempts d). da_system_id a = se_system_id e \<and> da_user_id a = se_user_id e \<and>
                 da_recover_after a \<le> now \<and> \<not> (\<exists>x \<in> set (sync_events d). se_id x = da_event_id a \<and> Removal x)))) (sync_events d),
          sb_blocked = (if ps_status p = SysDisabled then ''disabled'' else if ps_provisioning_hold p then ''held''
              else if ps_system_type p \<notin> set deliverableTypes then ''unsupported'' else '''')\<rparr>)"

section \<open>What a claim leaves of a row\<close>

text \<open>The columns a claim never writes, and those only the lease writes.\<close>

definition core :: "sync_event \<Rightarrow> _" where
  "core e = (se_id e, se_system_id e, se_user_id e, se_event_type e, se_status e, se_revision e)"

definition hold :: "sync_event \<Rightarrow> _" where
  "hold e = (core e, se_claim_token e, se_lease_until e)"

lemma core_hold: "core e = fst (hold e)"
  by (simp add: hold_def)

lemma map_core_hold: "map hold xs = map hold ys \<Longrightarrow> map core xs = map core ys"
proof -
  have "core = fst \<circ> hold" by (rule ext) (simp add: core_hold)
  then show "map hold xs = map hold ys \<Longrightarrow> map core xs = map core ys" by (metis map_map)
qed

lemma map_update_same: "(\<And>e. k (f e) = k e) \<Longrightarrow> map k (sql_update p f t) = map k t"
  by (rule map_sql_update) simp

lemma prepareSyncDeliveryTx_InrD:
  assumes "prepareSyncDeliveryTx ev now d = Inr (ev', d')"
  shows "hold ev' = hold ev" "map hold (sync_events d') = map hold (sync_events d)" "delivery_attempts d' = delivery_attempts d"
    "paired_systems d' = paired_systems d"
proof -
  have k: "hold (e\<lparr>se_delivery_revision := v, se_payload := b\<rparr>) = hold e" "hold (e\<lparr>se_payload := b\<rparr>) = hold e"
    "hold (e\<lparr>se_delivery_revision := v\<rparr>) = hold e" for e v b by (simp_all add: hold_def core_def)
  show "hold ev' = hold ev" "map hold (sync_events d') = map hold (sync_events d)" "delivery_attempts d' = delivery_attempts d"
    "paired_systems d' = paired_systems d"
    using assms by (auto simp: prepareSyncDeliveryTx_def Let_def result_iffs k map_update_same split: if_splits option.splits)
qed

lemma refreshSyncEventRolesTx_cases:
  assumes "refreshSyncEventRolesTx ev now d = Inr (ev', d')"
  obtains (same) "ev' = ev" "d' = d"
    | (changed) body where "ev' = ev\<lparr>se_payload := body\<rparr>"
      "d' = d\<lparr>sync_events := sql_update (\<lambda>e. se_id e = se_id ev) (\<lambda>e. e\<lparr>se_payload := body\<rparr>) (sync_events d)\<rparr>"
proof (cases "profile_event ev")
  case profile: True
  show thesis
  proof (cases "sql_first (\<lambda>a. app_system_id a = Some (se_system_id ev)) (app_registry d)")
    case None
    with profile assms same show thesis by (simp add: refreshSyncEventRolesTx_def)
  next
    case (Some a)
    with profile assms obtain roles where r: "appSCIMRolesTx (se_user_id ev) (app_id a) now d = Inr roles"
      by (cases "appSCIMRolesTx (se_user_id ev) (app_id a) now d") (simp_all add: refreshSyncEventRolesTx_def)
    show thesis
    proof (cases "set_roles roles (se_payload ev) = se_payload ev")
      case True
      with profile assms Some r same show thesis by (simp add: refreshSyncEventRolesTx_def Let_def)
    next
      case False
      from changed[of "set_roles roles (se_payload ev)"] profile assms Some r False show thesis
        by (simp add: refreshSyncEventRolesTx_def Let_def)
    qed
  qed
next
  case False
  with assms have "ev' = ev \<and> d' = d" by (simp add: refreshSyncEventRolesTx_def)
  with same show thesis by blast
qed

lemma refreshSyncEventRolesTx_InrD:
  assumes "refreshSyncEventRolesTx ev now d = Inr (ev', d')"
  shows "hold ev' = hold ev" "map hold (sync_events d') = map hold (sync_events d)" "delivery_attempts d' = delivery_attempts d"
    "paired_systems d' = paired_systems d" "se_delivery_revision ev' = se_delivery_revision ev" "sync_states d' = sync_states d"
    "map se_delivery_revision (sync_events d') = map se_delivery_revision (sync_events d)"
proof -
  have k: "hold (e\<lparr>se_payload := b\<rparr>) = hold e" for e b by (simp add: hold_def core_def)
  show "hold ev' = hold ev" "map hold (sync_events d') = map hold (sync_events d)" "delivery_attempts d' = delivery_attempts d"
    "paired_systems d' = paired_systems d" "se_delivery_revision ev' = se_delivery_revision ev" "sync_states d' = sync_states d"
    "map se_delivery_revision (sync_events d') = map se_delivery_revision (sync_events d)"
    using assms by (cases rule: refreshSyncEventRolesTx_cases; simp add: k map_update_same)+
qed

lemma prepare_all_InrD:
  assumes "prepare_all evs now d = Inr (evs', d')"
  shows "map hold evs' = map hold evs \<and> map hold (sync_events d') = map hold (sync_events d) \<and> delivery_attempts d' = delivery_attempts d \<and>
    paired_systems d' = paired_systems d"
  using assms
proof (induction evs arbitrary: evs' d)
  case (Cons ev evs)
  from Cons.prems obtain ev1 d1 ev2 d2 rest where p: "prepareSyncDeliveryTx ev now d = Inr (ev1, d1)"
      and r: "refreshSyncEventRolesTx ev1 now d1 = Inr (ev2, d2)" and a: "prepare_all evs now d2 = Inr (rest, d')" and e: "evs' = ev2 # rest"
    by (auto simp: result_iffs)
  from prepareSyncDeliveryTx_InrD[OF p] refreshSyncEventRolesTx_InrD(1-4)[OF r] Cons.IH[OF a] show ?case by (simp add: e)
qed simp

lemma map_eq_ids: "map core xs = map core ys \<Longrightarrow> map se_id xs = map se_id ys"
proof -
  have "se_id = fst \<circ> core" by (rule ext) (simp add: core_def)
  then show "map core xs = map core ys \<Longrightarrow> map se_id xs = map se_id ys" by (metis map_map)
qed

lemma fresh_id_rows [simp]: "sync_events (snd (fresh_id d)) = sync_events d" "delivery_attempts (snd (fresh_id d)) = delivery_attempts d"
  "paired_systems (snd (fresh_id d)) = paired_systems d" "sync_states (snd (fresh_id d)) = sync_states d"
  by (simp_all add: fresh_id_def)

text \<open>The leases written: every leased event's row carries its token until the same instant.\<close>

lemma lease_all_rows:
  assumes "lease_all evs until now d = (out, d')" and "distinct (map se_id evs)"
  shows "map core (sync_events d') = map core (sync_events d) \<and> map se_delivery_revision (sync_events d') = map se_delivery_revision (sync_events d) \<and>
    delivery_attempts d' = delivery_attempts d \<and> paired_systems d' = paired_systems d \<and> sync_states d' = sync_states d \<and>
    set (map se_id out) \<subseteq> set (map se_id evs) \<and> distinct (map se_id out) \<and>
    (\<forall>e \<in> set out. \<exists>x \<in> set evs. core e = core x \<and> se_delivery_revision e = se_delivery_revision x) \<and>
    (\<forall>e \<in> set out. \<exists>r \<in> set (sync_events d'). se_id r = se_id e \<and> se_claim_token r = se_claim_token e \<and> se_lease_until r = Some until) \<and>
    (\<forall>r \<in> set (sync_events d). se_id r \<notin> set (map se_id evs) \<longrightarrow> r \<in> set (sync_events d'))"
  using assms
proof (induction evs arbitrary: d d' out)
  case (Cons ev evs)
  obtain token d1 where f: "fresh_id d = (token, d1)" by fastforce
  let ?free = "\<lambda>e. se_id e = se_id ev \<and> due now (se_lease_until e)"
  let ?lease = "\<lambda>e. e\<lparr>se_lease_until := Some until, se_updated_at := now, se_claim_token := token\<rparr>"
  let ?d2 = "d1\<lparr>sync_events := sql_update ?free ?lease (sync_events d1)\<rparr>"
  obtain rest d3 where l: "lease_all evs until now ?d2 = (rest, d3)" by fastforce
  have d1: "sync_events d1 = sync_events d" "delivery_attempts d1 = delivery_attempts d" "paired_systems d1 = paired_systems d" "sync_states d1 = sync_states d"
    using fresh_id_rows[of d] f by simp_all
  have out: "out = (if sql_count ?free (sync_events d) = 1 then ev\<lparr>se_claim_token := token\<rparr> # rest else rest)" "d' = d3"
    using Cons.prems(1) f l by (auto simp: Let_def d1)
  have dist: "distinct (map se_id evs)" "se_id ev \<notin> set (map se_id evs)" using Cons.prems(2) by auto
  note IH = Cons.IH[OF l dist(1)]
  have kept: "core (?lease e) = core e" "se_delivery_revision (?lease e) = se_delivery_revision e" for e by (simp_all add: core_def)
  have maps: "map core (sync_events ?d2) = map core (sync_events d)" "map se_delivery_revision (sync_events ?d2) = map se_delivery_revision (sync_events d)"
    by (simp_all add: d1 map_update_same kept)
  have new: "\<exists>r \<in> set (sync_events d3). se_id r = se_id ev \<and> se_claim_token r = token \<and> se_lease_until r = Some until"
    if one: "sql_count ?free (sync_events d) = 1"
  proof -
    from sql_count_oneD[OF one] obtain r where r: "r \<in> set (sync_events d)" "?free r" by blast
    then have "?lease r \<in> set (sync_events ?d2)" by (auto simp: d1 sql_simps image_iff intro!: bexI[of _ r])
    moreover have "se_id (?lease r) \<notin> set (map se_id evs)" using r dist(2) by simp
    ultimately have "?lease r \<in> set (sync_events d3)" using IH by blast
    with r(2) show ?thesis by (intro bexI[of _ "?lease r"]) simp_all
  qed
  have old: "r \<in> set (sync_events d3)" if "r \<in> set (sync_events d)" "se_id r \<notin> set (map se_id (ev # evs))" for r
  proof -
    from that have "r \<in> set (sync_events ?d2)" by (auto simp: d1 sql_simps image_iff intro!: bexI[of _ r])
    with that(2) IH show ?thesis by simp
  qed
  have head: "core (ev\<lparr>se_claim_token := token\<rparr>) = core ev" by (simp add: core_def)
  show ?case
  proof (cases "sql_count ?free (sync_events d) = 1")
    case True
    with out have o: "out = ev\<lparr>se_claim_token := token\<rparr> # rest" by simp
    from IH dist(2) have "se_id ev \<notin> set (map se_id rest)" by blast
    with IH maps new[OF True] old head show ?thesis unfolding o out(2) by (auto simp: d1)
  next
    case False
    with out have o: "out = rest" by simp
    from IH maps old show ?thesis unfolding o out(2) by (auto simp: d1)
  qed
qed simp

section \<open>Claims are exclusive\<close>

lemma core_eqD: "core e = core x \<Longrightarrow> se_id e = se_id x \<and> se_system_id e = se_system_id x \<and> se_user_id e = se_user_id x \<and>
    se_event_type e = se_event_type x \<and> se_status e = se_status x \<and> se_revision e = se_revision x"
  by (simp add: core_def)

lemma earlier_core:
  assumes "map core xs = map core ys" and "se_id a = se_id b"
  shows "map core (earlier a xs) = map core (earlier b ys)"
proof -
  from assms(1) have "length xs = length ys" by (metis length_map)
  then show ?thesis using assms
  proof (induction xs ys rule: list_induct2)
    case (Cons x xs y ys)
    then have "core x = core y" by simp
    with Cons core_eqD[of x y] show ?case by (simp add: earlier_def)
  qed (simp add: earlier_def)
qed

lemma earlier_total:
  "distinct (map se_id es) \<Longrightarrow> x \<in> set es \<Longrightarrow> y \<in> set es \<Longrightarrow> se_id x \<noteq> se_id y \<Longrightarrow> x \<in> set (earlier y es) \<or> y \<in> set (earlier x es)"
proof (induction es)
  case (Cons z es)
  then have "w \<in> set es \<Longrightarrow> se_id w \<noteq> se_id z" for w by (auto simp: image_iff)
  with Cons show ?case by (cases "se_id z = se_id x"; cases "se_id z = se_id y") (auto simp: earlier_def)
qed simp

lemma core_row:
  assumes "map core xs = map core ys" and "x \<in> set xs"
  shows "\<exists>y \<in> set ys. core y = core x"
  using assms by (metis (mono_tags, lifting) image_iff image_set)

lemma release_attempts: "set (delivery_attempts (releaseFencesForRemovalsTx now d)) \<subseteq> set (delivery_attempts d)"
  by (auto simp: releaseFencesForRemovalsTx_def Let_def sql_simps)

lemma release_ids: "map se_id (sync_events (releaseFencesForRemovalsTx now d)) = map se_id (sync_events d)"
  by (simp add: releaseFencesForRemovalsTx_def Let_def map_update_same)

lemma release_row:
  assumes "r \<in> set (sync_events (releaseFencesForRemovalsTx now d))"
  shows "r \<in> set (sync_events d) \<or> (\<exists>a \<in> set (delivery_attempts d). \<exists>x \<in> set (sync_events d). da_event_id a = se_id x \<and> se_id r = se_id x \<and>
     se_system_id r = se_system_id x \<and> se_user_id r = se_user_id x)"
proof -
  let ?due = "\<lambda>e. \<exists>a \<in> set (delivery_attempts d). da_recover_after a \<le> now \<and> da_event_id a = se_id e"
  let ?f = "\<lambda>e. e\<lparr>se_status := EvPending, se_next_attempt_at := None, se_lease_until := None, se_claim_token := '''', se_updated_at := now\<rparr>"
  from assms obtain x where x: "x \<in> set (sync_events d)" "r = (if ?due x \<and> Removal x then ?f x else x)"
    by (auto simp: releaseFencesForRemovalsTx_def Let_def sql_simps)
  show ?thesis
  proof (cases "?due x \<and> Removal x")
    case True
    with x show ?thesis by (intro disjI2) (auto intro!: bexI[of _ x])
  next
    case False
    with x show ?thesis by simp
  qed
qed

definition attempts_match :: "db \<Rightarrow> bool" where
  "attempts_match d \<longleftrightarrow> (\<forall>a \<in> set (delivery_attempts d). \<forall>e \<in> set (sync_events d). se_id e = da_event_id a \<longrightarrow>
     se_system_id e = da_system_id a \<and> se_user_id e = da_user_id a)"

lemma distinct_picked:
  assumes "distinct (map k xs)"
  shows "distinct (map k (take n (sort_key f (filter P xs))))"
proof -
  have "set (take n (sort_key f (filter P xs))) \<subseteq> set xs" using set_take_subset[of n "sort_key f (filter P xs)"] by auto
  with assms show ?thesis unfolding distinct_map by (auto intro: inj_on_subset)
qed

lemma claim_stages:
  assumes "ClaimDueSyncEvents limit lease now d = Inr (evs, d')" and "distinct (map se_id (sync_events d))"
  obtains d1 where "d1 = releaseFencesForRemovalsTx now d" "map core (sync_events d') = map core (sync_events d1)"
    "delivery_attempts d' = delivery_attempts d1" "distinct (map se_id evs)"
    "\<forall>e \<in> set evs. \<exists>x \<in> set (sync_events d1). core e = core x \<and> claimable_event now d1 x"
    "\<forall>e \<in> set evs. \<exists>r \<in> set (sync_events d'). se_id r = se_id e \<and> se_claim_token r = se_claim_token e \<and> se_lease_until r = Some (now + lease)"
proof -
  define d1 where "d1 = releaseFencesForRemovalsTx now d"
  let ?es = "take limit (sort_key se_created_at (filter (claimable_event now d1) (sync_events d1)))"
  show thesis
  proof (cases "?es = []")
    case True
    with assms(1) that[OF d1_def] show thesis by (simp add: ClaimDueSyncEvents_def Let_def d1_def)
  next
    case False
    with assms(1) obtain p d2 where p: "prepare_all ?es now d1 = Inr (p, d2)" and l: "lease_all p (now + lease) now d2 = (evs, d')"
      by (auto simp: ClaimDueSyncEvents_def Let_def d1_def result_iffs)
    note pr = prepare_all_InrD[OF p]
    have "distinct (map se_id (sync_events d1))" using assms(2) by (simp add: d1_def release_ids)
    then have dist: "distinct (map se_id ?es)" by (rule distinct_picked)
    have hold: "map core p = map core ?es" "map core (sync_events d2) = map core (sync_events d1)" using pr map_core_hold by blast+
    then have "distinct (map se_id p)" using dist map_eq_ids by metis
    note le = lease_all_rows[OF l this]
    have "\<exists>x \<in> set (sync_events d1). core e = core x \<and> claimable_event now d1 x" if "e \<in> set evs" for e
    proof -
      from le that obtain y where "y \<in> set p" "core e = core y" by blast
      with core_row[OF hold(1)] obtain x where x: "x \<in> set ?es" "core e = core x" by metis
      from in_set_takeD[OF x(1)] have "x \<in> set (sync_events d1) \<and> claimable_event now d1 x" by simp
      with x(2) show ?thesis by blast
    qed
    with le hold pr that[OF d1_def] show thesis by metis
  qed
qed

text \<open>What a claim leaves behind, row by row.\<close>

definition leased_first :: "db \<Rightarrow> time \<Rightarrow> sync_event \<Rightarrow> bool" where
  "leased_first d until e \<longleftrightarrow> (\<exists>r \<in> set (sync_events d). se_id r = se_id e \<and> se_status r = EvPending \<and> se_claim_token r = se_claim_token e \<and>
     se_lease_until r = Some until \<and> (se_system_id r, se_user_id r) = (se_system_id e, se_user_id e) \<and>
     (\<forall>x \<in> set (earlier r (sync_events d)). (se_system_id x, se_user_id x) = (se_system_id e, se_user_id e) \<longrightarrow> se_status x \<noteq> EvPending))"

lemma claimed_rows:
  assumes "ClaimDueSyncEvents limit lease now d = Inr (evs, d')" and "distinct (map se_id (sync_events d))" and "e \<in> set evs"
  shows "\<forall>a \<in> set (delivery_attempts d'). (da_system_id a, da_user_id a) \<noteq> (se_system_id e, se_user_id e)" "leased_first d' (now + lease) e"
    "\<exists>z \<in> set (sync_events d). se_id z = se_id e \<and> se_system_id z = se_system_id e \<and> se_user_id z = se_user_id e"
proof -
  obtain d1 where d1: "d1 = releaseFencesForRemovalsTx now d" and co: "map core (sync_events d') = map core (sync_events d1)"
      and at: "delivery_attempts d' = delivery_attempts d1"
      and src: "\<forall>e \<in> set evs. \<exists>x \<in> set (sync_events d1). core e = core x \<and> claimable_event now d1 x"
      and row: "\<forall>e \<in> set evs. \<exists>r \<in> set (sync_events d'). se_id r = se_id e \<and> se_claim_token r = se_claim_token e \<and> se_lease_until r = Some (now + lease)"
    by (rule claim_stages[OF assms(1,2)])
  have keys1: "distinct (map se_id (sync_events d1))" using assms(2) by (simp add: d1 release_ids)
  from src assms(3) obtain x where x: "x \<in> set (sync_events d1)" "core e = core x" "claimable_event now d1 x" by blast
  from x show "\<forall>a \<in> set (delivery_attempts d'). (da_system_id a, da_user_id a) \<noteq> (se_system_id e, se_user_id e)"
    by (auto simp: at claimable_event_def dest!: core_eqD)
  from release_row[OF x(1)[unfolded d1]] core_eqD[OF x(2)]
  show "\<exists>z \<in> set (sync_events d). se_id z = se_id e \<and> se_system_id z = se_system_id e \<and> se_user_id z = se_user_id e" by auto
  from row assms(3) obtain r where r: "r \<in> set (sync_events d')" "se_id r = se_id e" "se_claim_token r = se_claim_token e" "se_lease_until r = Some (now + lease)" by blast
  from core_row[OF co r(1)] obtain y where y: "y \<in> set (sync_events d1)" "core y = core r" by blast
  then have yx: "y = x" using key_unique[OF keys1 y(1) x(1)] core_eqD[OF y(2)] core_eqD[OF x(2)] r(2) by simp
  then have st: "se_status r = EvPending" "se_id r = se_id x" "(se_system_id r, se_user_id r) = (se_system_id e, se_user_id e)"
    using y(2) x(2,3) core_eqD[of y r] core_eqD[of e x] by (auto simp: claimable_event_def)
  have "se_status z \<noteq> EvPending" if z: "z \<in> set (earlier r (sync_events d'))" "(se_system_id z, se_user_id z) = (se_system_id e, se_user_id e)" for z
  proof -
    from core_row[OF earlier_core[OF co st(2)] z(1)] obtain w where w: "w \<in> set (earlier x (sync_events d1))" "core w = core z" by blast
    with x(3) z(2) core_eqD[of w z] core_eqD[of e x] x(2) show ?thesis by (auto simp: claimable_event_def)
  qed
  with r st show "leased_first d' (now + lease) e" unfolding leased_first_def by blast
qed

lemma leased_first_unique:
  assumes "leased_first d until e" and "leased_first d until f" and "distinct (map se_id (sync_events d))"
    and "(se_system_id e, se_user_id e) = (se_system_id f, se_user_id f)"
  shows "se_id e = se_id f"
proof (rule ccontr)
  assume ne: "se_id e \<noteq> se_id f"
  from assms(1) obtain r where r: "r \<in> set (sync_events d)" "se_id r = se_id e" "se_status r = EvPending" "(se_system_id r, se_user_id r) = (se_system_id e, se_user_id e)"
      "\<forall>x \<in> set (earlier r (sync_events d)). (se_system_id x, se_user_id x) = (se_system_id e, se_user_id e) \<longrightarrow> se_status x \<noteq> EvPending"
    unfolding leased_first_def by blast
  from assms(2) obtain s where s: "s \<in> set (sync_events d)" "se_id s = se_id f" "se_status s = EvPending" "(se_system_id s, se_user_id s) = (se_system_id f, se_user_id f)"
      "\<forall>x \<in> set (earlier s (sync_events d)). (se_system_id x, se_user_id x) = (se_system_id f, se_user_id f) \<longrightarrow> se_status x \<noteq> EvPending"
    unfolding leased_first_def by blast
  from earlier_total[OF assms(3) r(1) s(1)] ne r s assms(4) show False by metis
qed

lemma leased_not_claimed:
  assumes "leased_first d until e" and "distinct (map se_id (sync_events d))" and "now < until"
    and "\<forall>a \<in> set (delivery_attempts d). da_event_id a \<noteq> se_id e" and "ClaimDueSyncEvents limit lease now d = Inr (evs, d')"
  shows "se_id e \<notin> set (map se_id evs)"
proof
  assume "se_id e \<in> set (map se_id evs)"
  then obtain f where f: "f \<in> set evs" "se_id f = se_id e" by auto
  from claim_stages[OF assms(5,2)] f(1) obtain x where x: "x \<in> set (sync_events (releaseFencesForRemovalsTx now d))" "core f = core x"
      "claimable_event now (releaseFencesForRemovalsTx now d) x" by metis
  from assms(1) obtain r where r: "r \<in> set (sync_events d)" "se_id r = se_id e" "se_lease_until r = Some until" unfolding leased_first_def by blast
  have rx: "se_id r = se_id x" using r(2) f(2) core_eqD[OF x(2)] by simp
  from release_row[OF x(1)] show False
  proof
    assume "x \<in> set (sync_events d)"
    then have "x = r" using key_unique[OF assms(2) _ r(1)] rx by simp
    with x(3) r(3) assms(3) show False by (simp add: claimable_event_def due_def)
  next
    assume "\<exists>a \<in> set (delivery_attempts d). \<exists>y \<in> set (sync_events d). da_event_id a = se_id y \<and> se_id x = se_id y \<and>
      se_system_id x = se_system_id y \<and> se_user_id x = se_user_id y"
    with rx r(2) assms(4) show False by auto
  qed
qed


section \<open>An outbox in the sample directory\<close>

definition sample_event :: "string \<Rightarrow> string \<Rightarrow> sync_event" where
  "sample_event eid uid = \<lparr>se_id = eid, se_user_id = uid, se_system_id = ''y1'', se_event_type = ''user.updated'',
     se_payload = scimInactivePayload uid, se_attempts = 0, se_status = EvPending, se_last_error = None, se_next_attempt_at = None,
     se_created_at = 0, se_updated_at = 0, se_claim_token = '''', se_revision = 1, se_delivery_revision = 0, se_lease_until = None\<rparr>"

text \<open>Two events of one account and one of another.\<close>

definition outbox_db :: db where
  "outbox_db = connector_db\<lparr>sync_events := [sample_event ''e1'' ''u0'', sample_event ''e2'' ''u0'', sample_event ''e3'' ''u1'']\<rparr>"


end
