(* ===== verification/Ky_Roles.thy ===== *)
theory Ky_Roles
  imports Ky_Tokens Ky_Provisioning
begin

text \<open>
  App roles (\<^verbatim>\<open>internal/store/app_roles.go\<close>): the role names of an app, their mapping from accounts and groups, the
  claim settings, and the follow-up every change runs. An empty reference of an app record and a missing one read the same.
\<close>

section \<open>Names\<close>

text \<open>\<open>strings.TrimSpace\<close>: the white space characters of Unicode, as the bytes of their UTF-8 text.\<close>

definition space_runes :: "string list" where
  "space_runes = [[CHR 0x09], [CHR 0x0A], [CHR 0x0B], [CHR 0x0C], [CHR 0x0D], [CHR 0x20], [CHR 0xC2, CHR 0x85], [CHR 0xC2, CHR 0xA0],
     [CHR 0xE1, CHR 0x9A, CHR 0x80], [CHR 0xE2, CHR 0x80, CHR 0xA8], [CHR 0xE2, CHR 0x80, CHR 0xA9], [CHR 0xE2, CHR 0x80, CHR 0xAF],
     [CHR 0xE2, CHR 0x81, CHR 0x9F], [CHR 0xE3, CHR 0x80, CHR 0x80]] @
     map (\<lambda>c. [CHR 0xE2, CHR 0x80, c]) [CHR 0x80, CHR 0x81, CHR 0x82, CHR 0x83, CHR 0x84, CHR 0x85, CHR 0x86, CHR 0x87, CHR 0x88, CHR 0x89, CHR 0x8A]"

fun trim_front :: "string list \<Rightarrow> string \<Rightarrow> string" where
  "trim_front ps [] = []"
| "trim_front ps (c # cs) = (case List.find (\<lambda>p. take (length p) (c # cs) = p) ps of
     None \<Rightarrow> c # cs | Some p \<Rightarrow> trim_front ps (drop (length p - 1) cs))"

definition TrimSpace :: "string \<Rightarrow> string" where
  "TrimSpace s = rev (trim_front (map rev space_runes) (rev (trim_front space_runes s)))"

definition alnum :: "char \<Rightarrow> bool" where
  "alnum c \<longleftrightarrow> (let n = (of_char c :: nat) in 48 \<le> n \<and> n \<le> 57 \<or> 65 \<le> n \<and> n \<le> 90 \<or> 97 \<le> n \<and> n \<le> 122)"

definition roleName :: "string \<Rightarrow> bool" where
  "roleName s = (case s of [] \<Rightarrow> False | c # cs \<Rightarrow> alnum c \<and> length cs \<le> 63 \<and> list_all (\<lambda>x. alnum x \<or> x \<in> {CHR ''_'', CHR ''.'', CHR '':'', CHR ''-''}) cs)"

section \<open>The follow-up to a role change\<close>

definition ref :: "string option \<Rightarrow> string" where
  "ref r = (case r of None \<Rightarrow> '''' | Some v \<Rightarrow> v)"

text \<open>The account's live tokens and its codes for the app's client end.\<close>

definition end_client_grants :: "string \<Rightarrow> string \<Rightarrow> time \<Rightarrow> db \<Rightarrow> db" where
  "end_client_grants clientID uid now d = (if clientID = '''' then d else
     d\<lparr>issued_tokens := sql_update (\<lambda>t. it_client_id t = clientID \<and> it_user_id t = uid \<and> it_revoked_at t = None)
          (\<lambda>t. t\<lparr>it_revoked_at := Some now\<rparr>) (issued_tokens d),
       authorization_codes := sql_delete (\<lambda>c. ac_client_id c = clientID \<and> ac_user_id c = uid) (authorization_codes d)\<rparr>)"

definition role_profile_desired :: "app_row \<Rightarrow> string \<Rightarrow> time \<Rightarrow> db \<Rightarrow> bool" where
  "role_profile_desired app uid now d \<longleftrightarrow>
     (\<exists>st \<in> set (sync_states d). state_at (ref (app_system_id app)) uid st \<and> ss_kind st = UserResource \<and> ss_active st \<and> system_enabled (ss_system_id st) d) \<and>
     (app_id app, uid) \<in> set (effective_app_access now d)"

text \<open>The loop over the affected accounts: one that is gone ends it.\<close>

fun role_change_users :: "app_row \<Rightarrow> string list \<Rightarrow> time \<Rightarrow> db \<Rightarrow> err + db" where
  "role_change_users app [] now d = Inr d"
| "role_change_users app (uid # us) now d =
     (let d1 = end_client_grants (ref (app_client_id app)) uid now d; sys = ref (app_system_id app)
      in if sys = '''' \<or> \<not> role_profile_desired app uid now d1 then role_change_users app us now d1
         else case user_by_id uid now d1 of
                None \<Rightarrow> Inr d1
              | Some u \<Rightarrow>
                 andthen (scimUserPayloadTx u True sys now d1) (\<lambda>body.
                 andthen (queueDesiredStateTx (desired_user sys uid True body) now d1) (role_change_users app us now)))"

definition roleChangeTx :: "app_row \<Rightarrow> string list \<Rightarrow> time \<Rightarrow> db \<Rightarrow> err + db" where
  "roleChangeTx app us now d = role_change_users app us now
     (d\<lparr>app_registry := sql_update (\<lambda>a. app_id a = app_id app)
         (\<lambda>a. a\<lparr>app_role_revision := app_role_revision a + 1, app_revision := app_revision a + 1\<rparr>) (app_registry d)\<rparr>)"

definition GetAppRecord :: "string \<Rightarrow> db \<Rightarrow> err + app_row" where
  "GetAppRecord i d = (case sql_first (\<lambda>a. app_id a = i) (app_registry d) of None \<Rightarrow> Inl ErrAppRecordMissing | Some a \<Rightarrow> Inr a)"

definition lockAppForRoles :: "string \<Rightarrow> db \<Rightarrow> err + app_row" where
  "lockAppForRoles appID d = GetAppRecord appID d"

definition bump_app :: "string \<Rightarrow> db \<Rightarrow> db" where
  "bump_app i d = d\<lparr>app_registry := sql_update (\<lambda>a. app_id a = i) (\<lambda>a. a\<lparr>app_revision := app_revision a + 1\<rparr>) (app_registry d)\<rparr>"

definition appRoleShapeChangeTx :: "app_row \<Rightarrow> nat \<Rightarrow> time \<Rightarrow> db \<Rightarrow> err + db" where
  "appRoleShapeChangeTx app boundary now d =
     (if sql_count (\<lambda>r. ar_app_id r = app_id app) (app_roles d) \<noteq> boundary then Inr (bump_app (app_id app) d)
      else roleChangeTx app (remdups (map snd (filter (\<lambda>e. fst e = app_id app) (effective_app_access now d)))) now d)"

section \<open>Operations\<close>

definition CreateAppRole :: "string \<Rightarrow> string \<Rightarrow> string \<Rightarrow> audit_event option \<Rightarrow> time \<Rightarrow> db \<Rightarrow> app_role tx" where
  "CreateAppRole appID name0 description0 audit now d =
     (let name = TrimSpace name0; description = TrimSpace description0
      in andthen (ensure (roleName name \<and> length description \<le> 512) ErrAppRoleInvalid) (\<lambda>_.
         let (rid, d1) = fresh_id d;
             role = \<lparr>ar_id = rid, ar_app_id = appID, ar_name = name, ar_description = description, ar_created_at = now, ar_administrator = False\<rparr>
         in andthen (lockAppForRoles appID d1) (\<lambda>app.
            andthen (ensure (\<not> (\<exists>r \<in> set (app_roles d1). ar_id r = rid \<or> ar_app_id r = appID \<and> nocase (ar_name r) = nocase name)) ErrAppRoleExists) (\<lambda>_.
            andthen (appRoleShapeChangeTx app 1 now (d1\<lparr>app_roles := sql_insert role (app_roles d1)\<rparr>)) (\<lambda>d2.
            andthen (recordAuditTx (appRegistryAudit audit (JObj [(''app'', JStr (app_id app)), (''roleId'', JStr rid), (''name'', JStr name)])) now d2) (\<lambda>d3.
            Inr (role, d3)))))))"

definition roleHoldersTx :: "string \<Rightarrow> time \<Rightarrow> db \<Rightarrow> string list" where
  "roleHoldersTx roleID now d = remdups (map ru_user_id (filter (\<lambda>a. ru_role_id a = roleID) (role_users d)) @
     map gm_user_id (concat (map (\<lambda>a. filter (\<lambda>m. gm_group_id m = rg_group_id a) (live_group_memberships now d))
       (filter (\<lambda>a. rg_role_id a = roleID) (role_groups d)))))"

text \<open>Deleting a role takes its mappings with it.\<close>

definition delete_roles :: "(app_role \<Rightarrow> bool) \<Rightarrow> db \<Rightarrow> db" where
  "delete_roles p d =
     (let gone = (\<lambda>i. \<exists>r \<in> set (app_roles d). p r \<and> ar_id r = i)
      in d\<lparr>app_roles := sql_delete p (app_roles d), role_users := sql_delete (\<lambda>a. gone (ru_role_id a)) (role_users d),
           role_groups := sql_delete (\<lambda>a. gone (rg_role_id a)) (role_groups d)\<rparr>)"

definition DeleteAppRole :: "string \<Rightarrow> string \<Rightarrow> audit_event option \<Rightarrow> time \<Rightarrow> db \<Rightarrow> err + db" where
  "DeleteAppRole appID roleID audit now d =
     andthen (lockAppForRoles appID d) (\<lambda>app.
     let holders = roleHoldersTx roleID now d; mine = (\<lambda>r. ar_id r = roleID \<and> ar_app_id r = appID)
     in case sql_first mine (app_roles d) of
          None \<Rightarrow> Inl ErrAppRecordMissing
        | Some role \<Rightarrow>
           andthen (roleChangeTx app holders now (delete_roles mine d)) (\<lambda>d1.
           andthen (appRoleShapeChangeTx app 0 now d1) (\<lambda>d2.
           recordAuditTx (appRegistryAudit audit (JObj [(''app'', JStr (app_id app)), (''roleId'', JStr roleID), (''name'', JStr (ar_name role)),
             (''affectedUsers'', JNum (int (length holders)))])) now d2)))"

text \<open>Which principals a mapping names; the HTTP layer passes the word, anything else is a conflict.\<close>

datatype principal_kind = Users | Groups

definition principal_kind_of :: "string \<Rightarrow> principal_kind option" where
  "principal_kind_of kind = (if kind = ''users'' then Some Users else if kind = ''groups'' then Some Groups else None)"

definition principal_name :: "principal_kind \<Rightarrow> string \<Rightarrow> db \<Rightarrow> string option" where
  "principal_name k i d = (case k of
     Users \<Rightarrow> map_option usr_username (sql_first (\<lambda>u. usr_id u = i) (users d))
   | Groups \<Rightarrow> map_option dg_name (sql_first (\<lambda>g. dg_id g = i) (directory_groups d)))"

text \<open>The mapping row written or removed, and whether a row changed.\<close>

definition write_role_mapping :: "principal_kind \<Rightarrow> string \<Rightarrow> string \<Rightarrow> bool \<Rightarrow> db \<Rightarrow> bool \<times> db" where
  "write_role_mapping k roleID whom assigned d = (case k of
     Users \<Rightarrow>
      (let key = (\<lambda>a. ru_role_id a = roleID \<and> ru_user_id a = whom); present = (\<exists>a \<in> set (role_users d). key a)
       in (present \<noteq> assigned,
           if assigned then if present then d else d\<lparr>role_users := sql_insert \<lparr>ru_role_id = roleID, ru_user_id = whom\<rparr> (role_users d)\<rparr>
           else d\<lparr>role_users := sql_delete key (role_users d)\<rparr>))
   | Groups \<Rightarrow>
      (let key = (\<lambda>a. rg_role_id a = roleID \<and> rg_group_id a = whom); present = (\<exists>a \<in> set (role_groups d). key a)
       in (present \<noteq> assigned,
           if assigned then if present then d else d\<lparr>role_groups := sql_insert \<lparr>rg_role_id = roleID, rg_group_id = whom\<rparr> (role_groups d)\<rparr>
           else d\<lparr>role_groups := sql_delete key (role_groups d)\<rparr>)))"

definition SetAppRoleAssignment :: "string \<Rightarrow> string \<Rightarrow> string \<Rightarrow> string \<Rightarrow> bool \<Rightarrow> audit_event option \<Rightarrow> time \<Rightarrow> db \<Rightarrow> err + db" where
  "SetAppRoleAssignment appID roleID kind whom assigned audit now d =
     (case principal_kind_of kind of
        None \<Rightarrow> Inl ErrAppLinkConflict
      | Some k \<Rightarrow>
         andthen (lockAppForRoles appID d) (\<lambda>app.
         case sql_first (\<lambda>r. ar_id r = roleID \<and> ar_app_id r = appID) (app_roles d) of
           None \<Rightarrow> Inl ErrAppRecordMissing
         | Some role \<Rightarrow>
            (case principal_name k whom d of
               None \<Rightarrow> Inl ErrAppRecordMissing
             | Some pname \<Rightarrow>
                (let (changed, d1) = write_role_mapping k roleID whom assigned d;
                     affected = (case k of Users \<Rightarrow> [whom]
                       | Groups \<Rightarrow> map gm_user_id (filter (\<lambda>m. gm_group_id m = whom) (live_group_memberships now d1)))
                 in andthen (if changed then roleChangeTx app affected now d1 else Inr d1) (\<lambda>d2.
                    recordAuditTx (appRegistryAudit audit (JObj [(''app'', JStr (app_id app)), (''roleId'', JStr roleID), (''role'', JStr (ar_name role)),
                      (''kind'', JStr kind), (''principalId'', JStr whom), (''principalName'', JStr pname), (''assigned'', JBool assigned)])) now d2)))))"

definition SetAppClaimSettings :: "string \<Rightarrow> bool \<Rightarrow> bool \<Rightarrow> int \<Rightarrow> audit_event option \<Rightarrow> time \<Rightarrow> db \<Rightarrow> err + db" where
  "SetAppClaimSettings appID legacyRole groupsClaim revision audit now d =
     andthen (lockAppRecord appID revision d) (\<lambda>app.
     if app_legacy_role_claim app = legacyRole \<and> app_groups_claim app = groupsClaim
     then recordAuditTx (appRegistryAudit audit (JObj [(''app'', JStr (app_id app)), (''unchanged'', JBool True)])) now d
     else
       let d1 = d\<lparr>app_registry := sql_update (\<lambda>a. app_id a = appID) (\<lambda>a. a\<lparr>app_legacy_role_claim := legacyRole, app_groups_claim := groupsClaim,
                  app_role_revision := app_role_revision a + 1, app_revision := app_revision a + 1\<rparr>) (app_registry d)\<rparr>;
           c = ref (app_client_id app);
           d2 = (if c = '''' then d1 else d1\<lparr>authorization_codes := sql_delete (\<lambda>x. ac_client_id x = c) (authorization_codes d1),
                  issued_tokens := sql_update (\<lambda>t. it_client_id t = c \<and> it_revoked_at t = None) (\<lambda>t. t\<lparr>it_revoked_at := Some now\<rparr>) (issued_tokens d1)\<rparr>)
       in recordAuditTx (appRegistryAudit audit (JObj [(''app'', JStr (app_id app)), (''legacyRoleClaim'', JBool legacyRole),
            (''groupsClaim'', JBool groupsClaim)])) now d2)"

record role_listing =
  rl_role :: app_role
  rl_users :: "(string \<times> string) list"
  rl_groups :: "(string \<times> string) list"

text \<open>The accounts and groups mapped to a role, by name.\<close>

definition principalsTx :: "principal_kind \<Rightarrow> string \<Rightarrow> db \<Rightarrow> (string \<times> string) list" where
  "principalsTx k roleID d = sort_key (\<lambda>p. nocase (snd p)) (case k of
     Users \<Rightarrow> concat (map (\<lambda>a. map (\<lambda>u. (usr_id u, usr_username u)) (filter (\<lambda>u. usr_id u = ru_user_id a) (users d)))
       (filter (\<lambda>a. ru_role_id a = roleID) (role_users d)))
   | Groups \<Rightarrow> concat (map (\<lambda>a. map (\<lambda>g. (dg_id g, dg_name g)) (filter (\<lambda>g. dg_id g = rg_group_id a) (directory_groups d)))
       (filter (\<lambda>a. rg_role_id a = roleID) (role_groups d))))"

definition ListAppRoles :: "string \<Rightarrow> db \<Rightarrow> err + role_listing list" where
  "ListAppRoles appID d =
     andthen (ensure (\<exists>a \<in> set (app_registry d). app_id a = appID) ErrAppRecordMissing) (\<lambda>_.
     Inr (map (\<lambda>r. \<lparr>rl_role = r, rl_users = principalsTx Users (ar_id r) d, rl_groups = principalsTx Groups (ar_id r) d\<rparr>)
       (sort_key (\<lambda>r. nocase (ar_name r)) (filter (\<lambda>r. ar_app_id r = appID) (app_roles d)))))"

section \<open>What a role change leaves of the directory\<close>

text \<open>The tables the claims of a token are read from.\<close>

definition claim_tables :: "db \<Rightarrow> _" where
  "claim_tables d = (app_roles d, role_users d, role_groups d, directory_groups d, group_memberships d, group_assignments d)"

definition grants_over :: "string \<Rightarrow> string \<Rightarrow> db \<Rightarrow> bool" where
  "grants_over c uid d \<longleftrightarrow> (\<forall>t \<in> set (issued_tokens d). it_client_id t = c \<and> it_user_id t = uid \<longrightarrow> it_revoked_at t \<noteq> None) \<and>
     (\<forall>k \<in> set (authorization_codes d). \<not> (ac_client_id k = c \<and> ac_user_id k = uid))"

lemma end_client_grants_over: "c \<noteq> '''' \<Longrightarrow> grants_over c uid (end_client_grants c uid now d)"
  by (auto simp: grants_over_def end_client_grants_def sql_simps)

lemma end_client_grants_keeps: "grants_over c uid d \<Longrightarrow> grants_over c uid (end_client_grants c' uid' now d)"
  by (auto simp: grants_over_def end_client_grants_def sql_simps)

lemma end_client_grants_tables [simp]: "claim_tables (end_client_grants c uid now d) = claim_tables d"
  "app_registry (end_client_grants c uid now d) = app_registry d" "users (end_client_grants c uid now d) = users d"
  by (simp_all add: claim_tables_def end_client_grants_def)

lemma sync_frame_grants: "sync_frame d d' \<Longrightarrow> grants_over c uid d' = grants_over c uid d" "sync_frame d d' \<Longrightarrow> claim_tables d' = claim_tables d"
  unfolding sync_frame_def by (auto simp: grants_over_def claim_tables_def)

lemma desired_role_user:
  assumes "role_profile_desired app uid now d"
  shows "\<exists>u. user_by_id uid now d = Some u"
proof -
  from assms have "(app_id app, uid) \<in> set (effective_app_access now d)" by (simp add: role_profile_desired_def)
  then have "uid \<in> usr_id ` set (users d)" by (auto simp: effective_app_access_iff)
  then show ?thesis by (auto simp: user_by_id_def find_None_iff2 image_iff simp flip: not_None_eq)
qed

lemma role_change_users_InrD:
  assumes "role_change_users app us now d = Inr d'"
  shows "claim_tables d' = claim_tables d \<and> app_registry d' = app_registry d \<and> (\<forall>c uid. grants_over c uid d \<longrightarrow> grants_over c uid d') \<and>
    (ref (app_client_id app) \<noteq> '''' \<longrightarrow> (\<forall>uid \<in> set us. grants_over (ref (app_client_id app)) uid d'))"
  using assms
proof (induction us arbitrary: d)
  case (Cons uid us)
  let ?c = "ref (app_client_id app)" and ?sys = "ref (app_system_id app)"
  let ?d1 = "end_client_grants ?c uid now d"
  obtain d2 where d2: "role_change_users app us now d2 = Inr d'" "sync_frame ?d1 d2"
  proof (cases "?sys = '''' \<or> \<not> role_profile_desired app uid now ?d1")
    case True
    with Cons.prems that[of ?d1] show thesis by (auto simp: Let_def)
  next
    case False
    then obtain u where u: "user_by_id uid now ?d1 = Some u" using desired_role_user by blast
    from Cons.prems False u obtain body d2 where "queueDesiredStateTx (desired_user ?sys uid True body) now ?d1 = Inr d2" "role_change_users app us now d2 = Inr d'"
      by (auto simp: Let_def result_iffs)
    with that queueDesiredStateTx_InrD(1) show thesis by blast
  qed
  note f = sync_frame_grants[OF d2(2)] sync_frame_tables(2)[OF d2(2)]
  have "grants_over ?c uid d2" if "?c \<noteq> ''''" using end_client_grants_over[OF that] by (simp add: f)
  with Cons.IH[OF d2(1)] f end_client_grants_keeps show ?case by auto
qed simp

lemma roleChangeTx_InrD:
  assumes "roleChangeTx app us now d = Inr d'"
  shows "claim_tables d' = claim_tables d"
    "app_registry d' = sql_update (\<lambda>a. app_id a = app_id app) (\<lambda>a. a\<lparr>app_role_revision := app_role_revision a + 1, app_revision := app_revision a + 1\<rparr>) (app_registry d)"
    "grants_over c uid d \<Longrightarrow> grants_over c uid d'"
    "ref (app_client_id app) = c \<Longrightarrow> c \<noteq> '''' \<Longrightarrow> uid \<in> set us \<Longrightarrow> grants_over c uid d'"
proof -
  note r = role_change_users_InrD[OF assms[unfolded roleChangeTx_def]]
  from r show "claim_tables d' = claim_tables d" by (simp add: claim_tables_def)
  from r show "app_registry d' = sql_update (\<lambda>a. app_id a = app_id app) (\<lambda>a. a\<lparr>app_role_revision := app_role_revision a + 1, app_revision := app_revision a + 1\<rparr>) (app_registry d)"
    by simp
  have "grants_over c uid (d\<lparr>app_registry := v\<rparr>) = grants_over c uid d" for v by (simp add: grants_over_def)
  with r show "grants_over c uid d \<Longrightarrow> grants_over c uid d'" by blast
  from r show "ref (app_client_id app) = c \<Longrightarrow> c \<noteq> '''' \<Longrightarrow> uid \<in> set us \<Longrightarrow> grants_over c uid d'" by simp
qed

section \<open>Which claims a change can reach\<close>

text \<open>What a claim reads of a registry row.\<close>

definition claim_view :: "app_row \<Rightarrow> _" where
  "claim_view a = (app_id a, app_client_id a, app_legacy_role_claim a, app_groups_claim a)"

definition same_claims :: "db \<Rightarrow> db \<Rightarrow> bool" where
  "same_claims d d' \<longleftrightarrow> claim_tables d' = claim_tables d \<and> map claim_view (app_registry d') = map claim_view (app_registry d)"

lemma same_claims_trans: "same_claims a b \<Longrightarrow> same_claims b c \<Longrightarrow> same_claims a c"
  by (simp add: same_claims_def)

lemma find_view:
  assumes "map v xs = map v ys" and "\<And>x y. v x = v y \<Longrightarrow> p x = p y"
  shows "map_option v (List.find p xs) = map_option v (List.find p ys)"
  using assms(1)
proof (induction xs arbitrary: ys)
  case (Cons x xs)
  then obtain y zs where y: "ys = y # zs" "v x = v y" "map v xs = map v zs" by (cases ys) auto
  with Cons.IH[OF y(3)] assms(2)[OF y(2)] show ?case by simp
qed simp

lemma find_view_cases:
  assumes "map v xs = map v ys" and "\<And>x y. v x = v y \<Longrightarrow> p x = p y"
  obtains (none) "List.find p xs = None" "List.find p ys = None"
    | (some) x y where "List.find p xs = Some x" "List.find p ys = Some y" "v x = v y"
proof -
  from find_view[of v xs ys p, OF assms(1)] assms(2) have e: "map_option v (List.find p xs) = map_option v (List.find p ys)" by blast
  show thesis
  proof (cases "List.find p xs")
    case None
    with e none show thesis by simp
  next
    case (Some x)
    with e obtain y where "List.find p ys = Some y" "v x = v y" by (cases "List.find p ys") auto
    with Some some show thesis by blast
  qed
qed

lemma appClaimsTx_same: "same_claims d d' \<Longrightarrow> appClaimsTx u i now d' = appClaimsTx u i now d"
proof -
  assume s: "same_claims d d'"
  then have v: "map claim_view (app_registry d') = map claim_view (app_registry d)" by (simp add: same_claims_def)
  from s have t: "app_roles d' = app_roles d" "directory_groups d' = directory_groups d" by (simp_all add: same_claims_def claim_tables_def)
  from s have h: "holds_role u now d' = holds_role u now d" "group_claimed u i now d' = group_claimed u i now d"
    by (simp_all add: same_claims_def claim_tables_def fun_eq_iff holds_role_def group_claimed_def live_group_memberships_def)
  show ?thesis
    by (rule find_view_cases[where p = "\<lambda>a. app_id a = i", OF v]) (auto simp: claim_view_def appClaimsTx_def h t)
qed

lemma UserAppClaims_same: "same_claims d d' \<Longrightarrow> UserAppClaims u c now d' = UserAppClaims u c now d"
proof -
  assume s: "same_claims d d'"
  then have v: "map claim_view (app_registry d') = map claim_view (app_registry d)" by (simp add: same_claims_def)
  show ?thesis
    by (rule find_view_cases[where p = "\<lambda>a. app_client_id a = Some c", OF v])
       (auto simp: claim_view_def UserAppClaims_def appClaimsTx_same[OF s])
qed

lemma same_claims_update:
  assumes "claim_tables d' = claim_tables d" and "app_registry d' = sql_update p f (app_registry d)" and "\<And>a. claim_view (f a) = claim_view a"
  shows "same_claims d d'"
  using assms by (simp add: same_claims_def map_sql_update)

lemma roleChangeTx_claims:
  assumes "roleChangeTx app us now d = Inr d'"
  shows "same_claims d d'"
  using roleChangeTx_InrD(1,2)[OF assms] by (rule same_claims_update) (simp add: claim_view_def)

lemma same_claims_audit: "recordAuditTx audit now d = Inr d' \<Longrightarrow> same_claims d d'"
  by (auto dest!: recordAuditTx_InrD simp: same_claims_def claim_tables_def)

lemma grants_over_audit: "recordAuditTx audit now d = Inr d' \<Longrightarrow> grants_over c uid d' = grants_over c uid d"
  by (auto dest!: recordAuditTx_InrD simp: grants_over_def)

lemma appRoleShapeChangeTx_claims:
  assumes "appRoleShapeChangeTx app n now d = Inr d'"
  shows "same_claims d d'" "grants_over c uid d \<Longrightarrow> grants_over c uid d'"
proof -
  have "same_claims d (bump_app i d)" "grants_over c uid (bump_app i d) = grants_over c uid d" for i
    by (simp_all add: same_claims_def bump_app_def claim_tables_def grants_over_def map_sql_update claim_view_def)
  then show "same_claims d d'" "grants_over c uid d \<Longrightarrow> grants_over c uid d'"
    using assms roleChangeTx_claims roleChangeTx_InrD(3) by (auto simp: appRoleShapeChangeTx_def split: if_splits)
qed

text \<open>Roles have identifiers of their own and a mapping names one that exists.\<close>

definition roles_wf :: "db \<Rightarrow> bool" where
  "roles_wf d \<longleftrightarrow> distinct (map ar_id (app_roles d)) \<and>
     (\<forall>a \<in> set (role_users d). ru_role_id a \<in> ar_id ` set (app_roles d)) \<and> (\<forall>a \<in> set (role_groups d). rg_role_id a \<in> ar_id ` set (app_roles d))"

lemma appClaimsTx_cong:
  assumes "app_registry d' = app_registry d" and "directory_groups d' = directory_groups d"
    and "map ar_name (filter (\<lambda>r. ar_app_id r = i \<and> holds_role u now d' r) (app_roles d')) =
      map ar_name (filter (\<lambda>r. ar_app_id r = i \<and> holds_role u now d r) (app_roles d))"
    and "\<And>g. group_claimed u i now d' g = group_claimed u i now d g"
  shows "appClaimsTx u i now d' = appClaimsTx u i now d"
proof -
  from assms(4) have "group_claimed u i now d' = group_claimed u i now d" by (rule ext)
  then show ?thesis unfolding appClaimsTx_def assms(1,2,3) by (simp only:)
qed

definition mapping_affects :: "principal_kind \<Rightarrow> string \<Rightarrow> string \<Rightarrow> time \<Rightarrow> db \<Rightarrow> bool" where
  "mapping_affects k whom uid now d = (case k of Users \<Rightarrow> uid = whom
     | Groups \<Rightarrow> \<exists>m \<in> set (live_group_memberships now d). gm_group_id m = whom \<and> gm_user_id m = uid)"

lemma write_role_mapping_rows:
  assumes "write_role_mapping k rid whom b d = (ch, d1)"
  shows "app_registry d1 = app_registry d" "directory_groups d1 = directory_groups d" "app_roles d1 = app_roles d"
    "group_memberships d1 = group_memberships d" "group_assignments d1 = group_assignments d" "issued_tokens d1 = issued_tokens d"
    "authorization_codes d1 = authorization_codes d" "users d1 = users d"
    "\<not> ch \<Longrightarrow> d1 = d"
    "k = Users \<Longrightarrow> role_groups d1 = role_groups d" "k = Groups \<Longrightarrow> role_users d1 = role_users d"
    "ru_role_id x \<noteq> rid \<or> ru_user_id x \<noteq> whom \<Longrightarrow> x \<in> set (role_users d1) \<longleftrightarrow> x \<in> set (role_users d)"
    "rg_role_id y \<noteq> rid \<or> rg_group_id y \<noteq> whom \<Longrightarrow> y \<in> set (role_groups d1) \<longleftrightarrow> y \<in> set (role_groups d)"
proof -
  have u: "d\<lparr>role_users := role_users d\<rparr> = d" "d\<lparr>role_groups := role_groups d\<rparr> = d" by simp_all
  show "app_registry d1 = app_registry d" "directory_groups d1 = directory_groups d" "app_roles d1 = app_roles d"
    "group_memberships d1 = group_memberships d" "group_assignments d1 = group_assignments d" "issued_tokens d1 = issued_tokens d"
    "authorization_codes d1 = authorization_codes d" "users d1 = users d"
    "k = Users \<Longrightarrow> role_groups d1 = role_groups d" "k = Groups \<Longrightarrow> role_users d1 = role_users d"
    "ru_role_id x \<noteq> rid \<or> ru_user_id x \<noteq> whom \<Longrightarrow> x \<in> set (role_users d1) \<longleftrightarrow> x \<in> set (role_users d)"
    "rg_role_id y \<noteq> rid \<or> rg_group_id y \<noteq> whom \<Longrightarrow> y \<in> set (role_groups d1) \<longleftrightarrow> y \<in> set (role_groups d)"
    using assms by (auto simp: write_role_mapping_def Let_def sql_simps split: principal_kind.splits if_splits)
  show "\<not> ch \<Longrightarrow> d1 = d"
  proof (cases k)
    case Users
    assume "\<not> ch"
    with assms Users have "b \<longleftrightarrow> (\<exists>a \<in> set (role_users d). ru_role_id a = rid \<and> ru_user_id a = whom)" by (auto simp: write_role_mapping_def Let_def)
    with assms Users show "d1 = d" by (auto simp: write_role_mapping_def Let_def sql_delete_noop)
  next
    case Groups
    assume "\<not> ch"
    with assms Groups have "b \<longleftrightarrow> (\<exists>a \<in> set (role_groups d). rg_role_id a = rid \<and> rg_group_id a = whom)" by (auto simp: write_role_mapping_def Let_def)
    with assms Groups show "d1 = d" by (auto simp: write_role_mapping_def Let_def sql_delete_noop)
  qed
qed

lemma live_memberships_cong: "group_memberships d' = group_memberships d \<Longrightarrow> live_group_memberships now d' = live_group_memberships now d"
  by (simp add: live_group_memberships_def)

text \<open>A mapping reaches the claims of its own app only, and of the accounts it names only.\<close>

lemma mapping_claims:
  assumes w: "write_role_mapping k rid whom b d = (ch, d1)" and r: "role \<in> set (app_roles d)" "ar_id role = rid" and wf: "distinct (map ar_id (app_roles d))"
    and off: "\<not> ch \<or> i \<noteq> ar_app_id role \<or> \<not> mapping_affects k whom uid now d"
  shows "appClaimsTx uid i now d1 = appClaimsTx uid i now d"
proof (cases ch)
  case True
  note rows = write_role_mapping_rows(1-5)[OF w] and live = live_memberships_cong[OF write_role_mapping_rows(4)[OF w]]
  have other: "ar_id x \<noteq> rid" if "x \<in> set (app_roles d)" "ar_app_id x \<noteq> ar_app_id role" for x
    using that r key_unique[OF wf that(1) r(1)] by auto
  have ru: "(\<exists>a \<in> set (role_users d1). ru_role_id a = ar_id x \<and> ru_user_id a = uid) = (\<exists>a \<in> set (role_users d). ru_role_id a = ar_id x \<and> ru_user_id a = uid)"
    if "x \<in> set (app_roles d)" "ar_app_id x = i" for x
  proof (cases k)
    case Users
    with off True that other have "ar_id x \<noteq> rid \<or> uid \<noteq> whom" by (auto simp: mapping_affects_def)
    then have "a \<in> set (role_users d1) \<longleftrightarrow> a \<in> set (role_users d)" if "ru_role_id a = ar_id x \<and> ru_user_id a = uid" for a
      using write_role_mapping_rows(12)[OF w] that by auto
    then show ?thesis by blast
  qed (simp add: write_role_mapping_rows(11)[OF w])
  have rg: "a \<in> set (role_groups d1) \<longleftrightarrow> a \<in> set (role_groups d)"
    if x: "x \<in> set (app_roles d)" "ar_app_id x = i" "rg_role_id a = ar_id x" and m: "m \<in> set (live_group_memberships now d)" "gm_group_id m = rg_group_id a" "gm_user_id m = uid" for a x m
  proof (cases k)
    case Groups
    with off True x m other have "ar_id x \<noteq> rid \<or> rg_group_id a \<noteq> whom" by (auto simp: mapping_affects_def)
    then show ?thesis using write_role_mapping_rows(13)[OF w] x(3) by auto
  qed (simp add: write_role_mapping_rows(10)[OF w])
  have "holds_role uid now d1 x = holds_role uid now d x" if "x \<in> set (app_roles d)" "ar_app_id x = i" for x
    using ru[OF that] rg[OF that] unfolding holds_role_def live by blast
  then have "filter (\<lambda>x. ar_app_id x = i \<and> holds_role uid now d1 x) (app_roles d) = filter (\<lambda>x. ar_app_id x = i \<and> holds_role uid now d x) (app_roles d)"
    by (intro filter_cong) auto
  moreover have "group_claimed uid i now d1 g = group_claimed uid i now d g" for g
  proof -
    have "(\<exists>a \<in> set (role_groups d1). \<exists>r \<in> set (app_roles d). ar_id r = rg_role_id a \<and> ar_app_id r = i \<and> rg_group_id a = dg_id g) =
        (\<exists>a \<in> set (role_groups d). \<exists>r \<in> set (app_roles d). ar_id r = rg_role_id a \<and> ar_app_id r = i \<and> rg_group_id a = dg_id g)"
      if "m \<in> set (live_group_memberships now d)" "gm_group_id m = dg_id g" "gm_user_id m = uid" for m
      using rg[OF _ _ _ that(1) _ that(3)] that(2) by auto
    then show ?thesis unfolding group_claimed_def live rows(3,5) by blast
  qed
  ultimately show ?thesis by (intro appClaimsTx_cong) (simp_all add: rows)
qed (use write_role_mapping_rows(9)[OF w] in simp)

lemma lockAppForRoles_InrD:
  assumes "lockAppForRoles i d = Inr app"
  shows "app \<in> set (app_registry d)" "app_id app = i"
  using assms by (auto simp: lockAppForRoles_def GetAppRecord_def split: option.splits dest: find_SomeD)

text \<open>Claims that differ are those of an app some client is linked to.\<close>

lemma claims_differ:
  assumes "UserAppClaims u c now d' \<noteq> UserAppClaims u c now d" and "app_registry d' = app_registry d"
  obtains a where "a \<in> set (app_registry d)" "app_client_id a = Some c" "appClaimsTx u (app_id a) now d' \<noteq> appClaimsTx u (app_id a) now d"
proof (cases "sql_first (\<lambda>a. app_client_id a = Some c) (app_registry d)")
  case None
  with assms show thesis by (simp add: UserAppClaims_def)
next
  case (Some a)
  with assms that[of a] find_SomeD[OF Some] show thesis by (simp add: UserAppClaims_def)
qed

lemma SetAppRoleAssignment_InrE:
  assumes "SetAppRoleAssignment appID rid kind whom b audit now d = Inr d'"
  obtains k app role ch d1 d2 au where "principal_kind_of kind = Some k" "lockAppForRoles appID d = Inr app" "role \<in> set (app_roles d)" "ar_id role = rid"
    "ar_app_id role = appID" "write_role_mapping k rid whom b d = (ch, d1)" "recordAuditTx au now d2 = Inr d'"
    "(if ch then roleChangeTx app (case k of Users \<Rightarrow> [whom]
        | Groups \<Rightarrow> map gm_user_id (filter (\<lambda>m. gm_group_id m = whom) (live_group_memberships now d1))) now d1 else Inr d1) = Inr d2"
proof -
  from assms obtain k where k: "principal_kind_of kind = Some k" by (cases "principal_kind_of kind") (simp_all add: SetAppRoleAssignment_def)
  from assms k obtain app where app: "lockAppForRoles appID d = Inr app"
    by (cases "lockAppForRoles appID d") (simp_all add: SetAppRoleAssignment_def)
  from assms k app obtain role where role: "sql_first (\<lambda>r. ar_id r = rid \<and> ar_app_id r = appID) (app_roles d) = Some role"
    by (cases "sql_first (\<lambda>r. ar_id r = rid \<and> ar_app_id r = appID) (app_roles d)") (simp_all add: SetAppRoleAssignment_def)
  from assms k app role obtain pn where pn: "principal_name k whom d = Some pn" by (cases "principal_name k whom d") (simp_all add: SetAppRoleAssignment_def)
  obtain ch d1 where w: "write_role_mapping k rid whom b d = (ch, d1)" by (cases "write_role_mapping k rid whom b d") blast
  from assms k app role pn w that[OF k app _ _ _ w] find_SomeD[OF role] show thesis
    by (auto simp: SetAppRoleAssignment_def Let_def andthen_Inr_iff)
qed

lemma assignment_ends_stale:
  assumes "SetAppRoleAssignment appID rid kind whom b audit now d = Inr d'" and wf: "roles_wf d" "distinct (map app_id (app_registry d))"
    and "UserAppClaims u c now d' \<noteq> UserAppClaims u c now d" and "c \<noteq> ''''"
  shows "grants_over c u d'"
proof -
  from assms(1) obtain k app role ch d1 d2 au where k: "principal_kind_of kind = Some k" and app: "lockAppForRoles appID d = Inr app"
      and role: "role \<in> set (app_roles d)" "ar_id role = rid" "ar_app_id role = appID" and w: "write_role_mapping k rid whom b d = (ch, d1)"
      and au: "recordAuditTx au now d2 = Inr d'"
      and ch: "(if ch then roleChangeTx app (case k of Users \<Rightarrow> [whom]
        | Groups \<Rightarrow> map gm_user_id (filter (\<lambda>m. gm_group_id m = whom) (live_group_memberships now d1))) now d1 else Inr d1) = Inr d2"
    by (rule SetAppRoleAssignment_InrE)
  have "same_claims d1 d2" using ch roleChangeTx_claims by (auto simp: same_claims_def split: if_splits)
  then have "same_claims d1 d'" using same_claims_audit[OF au] by (rule same_claims_trans)
  then have "UserAppClaims u c now d1 \<noteq> UserAppClaims u c now d" using assms(4) by (simp add: UserAppClaims_same)
  then obtain a where a: "a \<in> set (app_registry d)" "app_client_id a = Some c" "appClaimsTx u (app_id a) now d1 \<noteq> appClaimsTx u (app_id a) now d"
    by (rule claims_differ) (rule write_role_mapping_rows(1)[OF w])
  have keys: "distinct (map ar_id (app_roles d))" using wf(1) by (simp add: roles_wf_def)
  have hit: "ch" "app_id a = appID" "mapping_affects k whom u now d" using mapping_claims[OF w role(1,2) keys] a(3) role(3) by blast+
  have "a = app" using key_unique[OF wf(2) a(1)] lockAppForRoles_InrD[OF app] hit(2) by simp
  then have "ref (app_client_id app) = c" using a(2) by (simp add: ref_def)
  moreover have "u \<in> set (case k of Users \<Rightarrow> [whom]
      | Groups \<Rightarrow> map gm_user_id (filter (\<lambda>m. gm_group_id m = whom) (live_group_memberships now d1)))"
    using hit(3) live_memberships_cong[OF write_role_mapping_rows(4)[OF w]] by (cases k) (auto simp: mapping_affects_def)
  ultimately have "grants_over c u d2" using roleChangeTx_InrD(4)[of app _ now d1 d2 c u] ch hit(1) assms(5) by auto
  with grants_over_audit[OF au] show ?thesis by simp
qed

lemma delete_roles_claims:
  assumes "role \<in> set (app_roles d)" and "ar_id role = rid" "ar_app_id role = appID" and keys: "distinct (map ar_id (app_roles d))"
    and off: "i \<noteq> appID \<or> u \<notin> set (roleHoldersTx rid now d)"
  shows "appClaimsTx u i now (delete_roles (\<lambda>r. ar_id r = rid \<and> ar_app_id r = appID) d) = appClaimsTx u i now d"
proof -
  let ?mine = "\<lambda>r. ar_id r = rid \<and> ar_app_id r = appID"
  let ?d = "delete_roles ?mine d"
  have gone: "(\<exists>r \<in> set (app_roles d). ?mine r \<and> ar_id r = j) \<longleftrightarrow> j = rid" for j using assms(1-3) by auto
  have rows: "app_roles ?d = filter (\<lambda>r. \<not> ?mine r) (app_roles d)" "role_users ?d = filter (\<lambda>a. ru_role_id a \<noteq> rid) (role_users d)"
    "role_groups ?d = filter (\<lambda>a. rg_role_id a \<noteq> rid) (role_groups d)" "live_group_memberships now ?d = live_group_memberships now d"
    "app_registry ?d = app_registry d" "directory_groups ?d = directory_groups d" "group_assignments ?d = group_assignments d"
    unfolding delete_roles_def Let_def gone by (simp_all add: sql_delete_def live_group_memberships_def)
  have only: "?mine r" if "r \<in> set (app_roles d)" "ar_id r = rid" for r
    using key_unique[OF keys that(1) assms(1)] that(2) assms(2,3) by simp
  have other: "holds_role u now ?d r = holds_role u now d r" if "ar_id r \<noteq> rid" for r
    using that by (auto simp: holds_role_def rows)
  have "i \<noteq> appID \<or> \<not> holds_role u now d r" if "ar_id r = rid" for r
    using off that by (auto simp: holds_role_def roleHoldersTx_def image_iff)
  then have "(\<not> ?mine r \<and> ar_app_id r = i \<and> holds_role u now ?d r) = (ar_app_id r = i \<and> holds_role u now d r)" if "r \<in> set (app_roles d)" for r
    using other[of r] only[OF that] by blast
  then have "filter (\<lambda>r. \<not> ?mine r \<and> ar_app_id r = i \<and> holds_role u now ?d r) (app_roles d) = filter (\<lambda>r. ar_app_id r = i \<and> holds_role u now d r) (app_roles d)"
    by (intro filter_cong) auto
  then have names: "filter (\<lambda>r. ar_app_id r = i \<and> holds_role u now ?d r) (app_roles ?d) = filter (\<lambda>r. ar_app_id r = i \<and> holds_role u now d r) (app_roles d)"
    by (simp only: rows(1) filter_filter)
  have "group_claimed u i now ?d g = group_claimed u i now d g" for g
  proof -
    have "rg_role_id a \<noteq> rid" if "a \<in> set (role_groups d)" "r \<in> set (app_roles d)" "ar_id r = rg_role_id a" "ar_app_id r = i" "rg_group_id a = dg_id g"
        "m \<in> set (live_group_memberships now d)" "gm_group_id m = dg_id g" "gm_user_id m = u" for a r m
      using that only[OF that(2)] off by (auto simp: roleHoldersTx_def image_iff) metis
    then show ?thesis unfolding group_claimed_def rows by (auto; blast)
  qed
  with names show ?thesis by (intro appClaimsTx_cong) (simp_all add: rows(5,6))
qed

lemma deletion_ends_stale:
  assumes "DeleteAppRole appID rid audit now d = Inr d'" and wf: "roles_wf d" "distinct (map app_id (app_registry d))"
    and "UserAppClaims u c now d' \<noteq> UserAppClaims u c now d" and "c \<noteq> ''''"
  shows "grants_over c u d'"
proof -
  let ?mine = "\<lambda>r. ar_id r = rid \<and> ar_app_id r = appID"
  let ?d = "delete_roles ?mine d"
  from assms(1) obtain app where app: "lockAppForRoles appID d = Inr app" by (cases "lockAppForRoles appID d") (simp_all add: DeleteAppRole_def)
  from assms(1) app obtain role where role: "sql_first ?mine (app_roles d) = Some role"
    by (cases "sql_first ?mine (app_roles d)") (simp_all add: DeleteAppRole_def Let_def)
  from assms(1) app role obtain d1 d2 au where st: "roleChangeTx app (roleHoldersTx rid now d) now ?d = Inr d1" "appRoleShapeChangeTx app 0 now d1 = Inr d2"
      "recordAuditTx au now d2 = Inr d'" by (auto simp: DeleteAppRole_def Let_def andthen_Inr_iff)
  have "same_claims ?d d'" using roleChangeTx_claims[OF st(1)] appRoleShapeChangeTx_claims(1)[OF st(2)] same_claims_audit[OF st(3)] same_claims_trans by blast
  then have "UserAppClaims u c now ?d \<noteq> UserAppClaims u c now d" using assms(4) by (simp add: UserAppClaims_same)
  then obtain a where a: "a \<in> set (app_registry d)" "app_client_id a = Some c" "appClaimsTx u (app_id a) now ?d \<noteq> appClaimsTx u (app_id a) now d"
    by (rule claims_differ) (simp add: delete_roles_def Let_def)
  have keys: "distinct (map ar_id (app_roles d))" using wf(1) by (simp add: roles_wf_def)
  have hit: "app_id a = appID" "u \<in> set (roleHoldersTx rid now d)" using delete_roles_claims[OF _ _ _ keys] find_SomeD[OF role] a(3) by blast+
  have "a = app" using key_unique[OF wf(2) a(1)] lockAppForRoles_InrD[OF app] hit(1) by simp
  then have "ref (app_client_id app) = c" using a(2) by (simp add: ref_def)
  from roleChangeTx_InrD(4)[OF st(1) this assms(5) hit(2)] have "grants_over c u d1" .
  with appRoleShapeChangeTx_claims(2)[OF st(2)] grants_over_audit[OF st(3)] show ?thesis by simp
qed

lemma find_update_stable: "(\<And>x. p (f x) = p x) \<Longrightarrow> List.find p (sql_update q f t) = map_option (\<lambda>x. if q x then f x else x) (List.find p t)"
  by (induction t) (auto simp: sql_simps)

lemma settings_end_stale:
  assumes "SetAppClaimSettings appID lr gc rv audit now d = Inr d'" and wf: "distinct (map app_id (app_registry d))"
    and "UserAppClaims u c now d' \<noteq> UserAppClaims u c now d" and "c \<noteq> ''''"
  shows "grants_over c u d'"
proof -
  from assms(1) obtain app where app: "sql_first (\<lambda>a. app_id a = appID) (app_registry d) = Some app" and lock: "lockAppRecord appID rv d = Inr app"
    by (auto simp: SetAppClaimSettings_def lockAppRecord_def andthen_Inr_iff split: option.splits if_splits)
  let ?f = "\<lambda>a. a\<lparr>app_legacy_role_claim := lr, app_groups_claim := gc, app_role_revision := app_role_revision a + 1, app_revision := app_revision a + 1\<rparr>"
  let ?d1 = "d\<lparr>app_registry := sql_update (\<lambda>a. app_id a = appID) ?f (app_registry d)\<rparr>"
  let ?c = "ref (app_client_id app)"
  let ?d2 = "if ?c = '''' then ?d1 else ?d1\<lparr>authorization_codes := sql_delete (\<lambda>x. ac_client_id x = ?c) (authorization_codes ?d1),
      issued_tokens := sql_update (\<lambda>t. it_client_id t = ?c \<and> it_revoked_at t = None) (\<lambda>t. t\<lparr>it_revoked_at := Some now\<rparr>) (issued_tokens ?d1)\<rparr>"
  show ?thesis
  proof (cases "app_legacy_role_claim app = lr \<and> app_groups_claim app = gc")
    case True
    with assms(1) lock have "\<exists>au. recordAuditTx au now d = Inr d'" by (auto simp: SetAppClaimSettings_def)
    with assms(3) UserAppClaims_same same_claims_audit show ?thesis by metis
  next
    case False
    with assms(1) lock obtain au where au: "recordAuditTx au now ?d2 = Inr d'" by (auto simp: SetAppClaimSettings_def Let_def)
    have "same_claims ?d1 ?d2" by (simp add: same_claims_def claim_tables_def)
    then have "same_claims ?d1 d'" using same_claims_audit[OF au] by (rule same_claims_trans)
    then have ne: "UserAppClaims u c now ?d1 \<noteq> UserAppClaims u c now d" using assms(3) by (simp add: UserAppClaims_same)
    have "app_client_id app = Some c"
    proof (cases "sql_first (\<lambda>a. app_client_id a = Some c) (app_registry d)")
      case None
      with ne show ?thesis by (simp add: UserAppClaims_def find_update_stable)
    next
      case (Some a)
      have "app_id a = appID"
      proof (rule ccontr)
        assume off: "app_id a \<noteq> appID"
        have "appClaimsTx u (app_id a) now ?d1 = appClaimsTx u (app_id a) now d"
          using off by (auto simp: appClaimsTx_def find_update_stable holds_role_def[abs_def] group_claimed_def[abs_def] live_group_memberships_def split: option.split dest: find_SomeD)
        with ne Some off show False by (simp add: UserAppClaims_def find_update_stable)
      qed
      with find_SomeD[OF Some] find_SomeD[OF app] key_unique[OF wf] show ?thesis by metis
    qed
    then have "grants_over c u ?d2" using assms(4) by (auto simp: ref_def grants_over_def sql_simps)
    with grants_over_audit[OF au] show ?thesis by simp
  qed
qed

lemma new_role_claims:
  assumes "roles_wf d" and "\<forall>r \<in> set (app_roles d). ar_id r \<noteq> ar_id role"
  shows "appClaimsTx u i now (d\<lparr>rand_pos := n, app_roles := sql_insert role (app_roles d)\<rparr>) = appClaimsTx u i now d"
proof -
  let ?d = "d\<lparr>rand_pos := n, app_roles := sql_insert role (app_roles d)\<rparr>"
  have fresh: "ar_id role \<notin> ar_id ` set (app_roles d)" using assms(2) by auto
  then have none: "\<not> holds_role u now d role" using assms(1) unfolding holds_role_def roles_wf_def by metis
  have h: "holds_role u now ?d = holds_role u now d" by (rule ext) (simp add: holds_role_def live_group_memberships_def)
  have "group_claimed u i now ?d g = group_claimed u i now d g" for g
  proof -
    have "\<forall>a \<in> set (role_groups d). ar_id role \<noteq> rg_role_id a" using fresh assms(1) unfolding roles_wf_def by metis
    then show ?thesis by (simp add: group_claimed_def live_group_memberships_def sql_insert_def)
  qed
  moreover have "filter (\<lambda>r. ar_app_id r = i \<and> holds_role u now ?d r) (app_roles ?d) = filter (\<lambda>r. ar_app_id r = i \<and> holds_role u now d r) (app_roles d)"
    unfolding h using none by (simp add: sql_insert_def)
  ultimately show ?thesis by (intro appClaimsTx_cong) simp_all
qed

lemma creation_keeps_claims:
  assumes "CreateAppRole appID name descr audit now d = Inr (role, d')" and "roles_wf d"
  shows "UserAppClaims u c now d' = UserAppClaims u c now d"
proof -
  let ?n = "Suc (rand_pos d)"
  from assms(1) obtain app d2 au where st: "\<forall>r \<in> set (app_roles d). ar_id r \<noteq> ar_id role"
      "appRoleShapeChangeTx app 1 now (d\<lparr>rand_pos := ?n, app_roles := sql_insert role (app_roles d)\<rparr>) = Inr d2" "recordAuditTx au now d2 = Inr d'"
    by (auto simp: CreateAppRole_def fresh_id_def Let_def andthen_Inr_iff split: prod.splits)
  let ?d = "d\<lparr>rand_pos := ?n, app_roles := sql_insert role (app_roles d)\<rparr>"
  have "same_claims ?d d'" using appRoleShapeChangeTx_claims(1)[OF st(2)] same_claims_audit[OF st(3)] same_claims_trans by blast
  then have "UserAppClaims u c now d' = UserAppClaims u c now ?d" by (rule UserAppClaims_same)
  moreover have "UserAppClaims u c now ?d = UserAppClaims u c now d"
    by (rule ccontr, elim claims_differ) (simp_all add: new_role_claims[OF assms(2) st(1)])
  ultimately show ?thesis by simp
qed

section \<open>No token outlives the roles it was issued with\<close>

text \<open>The edits of an app's roles, mappings and claim settings.\<close>

inductive role_edit :: "time \<Rightarrow> db \<Rightarrow> db \<Rightarrow> bool" for now where
  create: "CreateAppRole appID name descr audit now d = Inr (role, d') \<Longrightarrow> role_edit now d d'"
| delete: "DeleteAppRole appID rid audit now d = Inr d' \<Longrightarrow> role_edit now d d'"
| assign: "SetAppRoleAssignment appID rid kind whom assigned audit now d = Inr d' \<Longrightarrow> role_edit now d d'"
| settings: "SetAppClaimSettings appID legacy grp rv audit now d = Inr d' \<Longrightarrow> role_edit now d d'"

text \<open>
  C24. A token never says more than its app's current mappings: whenever an edit of an app's roles, mappings or claim
  settings changes what a token for a client would say about an account, that account is left with no live token and no
  code for that client.
\<close>

theorem role_edit_ends_stale_grants:
  assumes "role_edit now d d'" and "roles_wf d" and "distinct (map app_id (app_registry d))" and "c \<noteq> ''''"
    and "UserAppClaims u c now d' \<noteq> UserAppClaims u c now d"
  shows "(\<forall>t \<in> set (issued_tokens d'). it_client_id t = c \<and> it_user_id t = u \<longrightarrow> it_revoked_at t \<noteq> None) \<and>
    (\<forall>k \<in> set (authorization_codes d'). \<not> (ac_client_id k = c \<and> ac_user_id k = u))"
proof -
  from assms(1) have "grants_over c u d'"
  proof cases
    case (create appID name descr audit role)
    from creation_keeps_claims[OF this assms(2)] assms(5) show ?thesis by simp
  next
    case (delete appID rid audit)
    from deletion_ends_stale[OF this assms(2,3,5,4)] show ?thesis .
  next
    case (assign appID rid kind whom assigned audit)
    from assignment_ends_stale[OF this assms(2,3,5,4)] show ?thesis .
  next
    case (settings appID legacy grp rv audit)
    from settings_end_stale[OF this assms(3,5,4)] show ?thesis .
  qed
  then show ?thesis by (simp add: grants_over_def)
qed

text \<open>A role of the sample app, given to an account that holds a live token.\<close>

definition roles_db :: db where
  "roles_db = sample_db\<lparr>app_roles := [\<lparr>ar_id = ''r1'', ar_app_id = ''a1'', ar_name = ''editor'', ar_description = '''', ar_created_at = 0, ar_administrator = False\<rparr>],
     issued_tokens := [\<lparr>it_jti = ''j1'', it_user_id = ''u1'', it_client_id = ''c1'', it_expires_at = 2 * sample_now, it_revoked_at = None,
       it_created_at = 0, it_session_id = Some ''s1'', it_family_jti = None\<rparr>]\<rparr>"

theorem role_edit_ends_stale_grants_witness:
  "\<exists>d'. SetAppRoleAssignment ''a1'' ''r1'' ''users'' ''u1'' True None sample_now roles_db = Inr d' \<and>
     map it_revoked_at (issued_tokens roles_db) = [None] \<and> (\<forall>t \<in> set (issued_tokens d'). it_user_id t = ''u1'' \<and> it_client_id t = ''c1'' \<longrightarrow> it_revoked_at t \<noteq> None)"
proof -
  let ?r = "SetAppRoleAssignment ''a1'' ''r1'' ''users'' ''u1'' True None sample_now roles_db"
  have "\<not> isl ?r" "UserAppClaims ''u1'' ''c1'' sample_now (projr ?r) \<noteq> UserAppClaims ''u1'' ''c1'' sample_now roles_db" by code_simp+
  then obtain d' where r: "?r = Inr d'" "UserAppClaims ''u1'' ''c1'' sample_now d' \<noteq> UserAppClaims ''u1'' ''c1'' sample_now roles_db"
    by (auto dest!: succeeds)
  have w: "roles_wf roles_db" "distinct (map app_id (app_registry roles_db))" "map it_revoked_at (issued_tokens roles_db) = [None]" by code_simp+
  from role_edit_ends_stale_grants[OF role_edit.assign[OF r(1)] w(1,2) _ r(2)] r(1) w(3) show ?thesis by auto
qed

end
