(* ===== verification/Ky_Groups.thy ===== *)
theory Ky_Groups
  imports Ky_Roles
begin

text \<open>
  Directory groups (\<^verbatim>\<open>internal/store/groups.go\<close>): creation, renaming, deletion and membership, with the enrolment policy
  checks, the role follow-up and the sweep of lost access each of them runs.
\<close>

section \<open>Groups\<close>

definition CreateGroup :: "directory_group \<Rightarrow> audit_event option \<Rightarrow> time \<Rightarrow> db \<Rightarrow> err + db" where
  "CreateGroup g audit now d =
     andthen (ensure (\<not> (\<exists>x \<in> set (directory_groups d). dg_id x = dg_id g)) ErrUnique) (\<lambda>_.
     andthen (ensure (\<not> (\<exists>x \<in> set (directory_groups d). nocase (dg_name x) = nocase (dg_name g))) ErrGroupNameExists) (\<lambda>_.
     andthen (new_group_trigger (dg_id g) (d\<lparr>directory_groups := sql_insert (g\<lparr>dg_source_connector_id := None, dg_external_id := None,
         dg_created_at := now, dg_updated_at := now\<rparr>) (directory_groups d)\<rparr>)) (\<lambda>d1.
     recordAuditTx audit now d1)))"

text \<open>The name column compares without case, in the ownership check too.\<close>

definition source_owned_rename :: "string \<Rightarrow> string \<Rightarrow> db \<Rightarrow> bool" where
  "source_owned_rename i name d = (case sql_first (\<lambda>x. dg_id x = i) (directory_groups d) of
     None \<Rightarrow> False | Some x \<Rightarrow> dg_source_connector_id x \<noteq> None \<and> nocase (dg_name x) \<noteq> nocase name)"

definition UpdateGroup :: "(string \<Rightarrow> string) \<Rightarrow> directory_group \<Rightarrow> audit_event option \<Rightarrow> time \<Rightarrow> db \<Rightarrow> err + db" where
  "UpdateGroup sha g audit now d =
     (let mine = (\<lambda>x. dg_id x = dg_id g)
      in andthen (ensure (\<not> source_owned_rename (dg_id g) (dg_name g) d) ErrGroupSourceOwned) (\<lambda>_.
         andthen (ensure (sql_count mine (directory_groups d) = 0 \<or>
           \<not> (\<exists>x \<in> set (directory_groups d). dg_id x \<noteq> dg_id g \<and> nocase (dg_name x) = nocase (dg_name g))) ErrGroupNameExists) (\<lambda>_.
         andthen (ensure (sql_count mine (directory_groups d) \<noteq> 0) ErrGroupTargetMissing) (\<lambda>_.
         andthen (reconcileProvisioningTx sha now (d\<lparr>directory_groups := sql_update mine (\<lambda>x. x\<lparr>dg_name := dg_name g,
             dg_description := dg_description g, dg_updated_at := now\<rparr>) (directory_groups d)\<rparr>)) (\<lambda>d1.
         recordAuditTx audit now d1)))))"

section \<open>Role follow-up\<close>

fun load_apps :: "string list \<Rightarrow> db \<Rightarrow> err + app_row list" where
  "load_apps [] d = Inr []"
| "load_apps (i # is) d = andthen (GetAppRecord i d) (\<lambda>a. andthen (load_apps is d) (\<lambda>as. Inr (a # as)))"

definition mappedRoleApps :: "string \<Rightarrow> db \<Rightarrow> err + app_row list" where
  "mappedRoleApps groupID d = load_apps (remdups (map ar_app_id (concat (map (\<lambda>a. filter (\<lambda>r. ar_id r = rg_role_id a) (app_roles d))
     (filter (\<lambda>a. rg_group_id a = groupID) (role_groups d)))))) d"

definition roleChangeForAppsTx :: "app_row list \<Rightarrow> string list \<Rightarrow> time \<Rightarrow> db \<Rightarrow> err + db" where
  "roleChangeForAppsTx apps us now d = (if us = [] then Inr d else each (\<lambda>app. roleChangeTx app us now) apps d)"

definition groupRoleChangeTx :: "string \<Rightarrow> string list \<Rightarrow> time \<Rightarrow> db \<Rightarrow> err + db" where
  "groupRoleChangeTx groupID us now d = andthen (mappedRoleApps groupID d) (\<lambda>apps. roleChangeForAppsTx apps us now d)"

definition reconcileAccessTx :: "(string \<Rightarrow> string) \<Rightarrow> time \<Rightarrow> db \<Rightarrow> err + db" where
  "reconcileAccessTx sha now d = andthen (revokeLostAppAccessTx now d) (reconcileProvisioningTx sha now)"

section \<open>Deletion\<close>

text \<open>What the foreign keys remove with a group.\<close>

definition delete_group :: "string \<Rightarrow> db \<Rightarrow> db" where
  "delete_group i d =
     (let gone = (\<lambda>s. \<exists>p \<in> set (enrollment_policies d). ep_group_id p = Some i \<and> ep_scope p = s)
      in d\<lparr>directory_groups := sql_delete (\<lambda>g. dg_id g = i) (directory_groups d),
           group_memberships := sql_delete (\<lambda>m. gm_group_id m = i) (group_memberships d),
           enrollment_policies := sql_delete (\<lambda>p. ep_group_id p = Some i) (enrollment_policies d),
           enrollment_deadlines := sql_delete (\<lambda>x. gone (ed_scope x)) (enrollment_deadlines d),
           group_assignments := sql_delete (\<lambda>a. ga_group_id a = i) (group_assignments d),
           role_groups := sql_delete (\<lambda>a. rg_group_id a = i) (role_groups d)\<rparr>)"

definition required_member :: "string \<Rightarrow> db \<Rightarrow> string \<Rightarrow> bool" where
  "required_member i d uid \<longleftrightarrow> (\<exists>m \<in> set (group_memberships d). gm_group_id m = i \<and> gm_user_id m = uid) \<and>
     (\<exists>p \<in> set (enrollment_policies d). ep_group_id p = Some i \<and> ep_required p)"

definition deleteGroupTx :: "(string \<Rightarrow> string) \<Rightarrow> string \<Rightarrow> string \<Rightarrow> time \<Rightarrow> db \<Rightarrow> string tx" where
  "deleteGroupTx sha i sessionID now d =
     (let hit = required_member i d;
          d1 = d\<lparr>authorization_codes := sql_delete (\<lambda>c. hit (ac_user_id c)) (authorization_codes d),
                 interactions := sql_delete (\<lambda>x. hit (ai_user_id x)) (interactions d),
                 issued_tokens := sql_update (\<lambda>t. it_revoked_at t = None \<and> hit (it_user_id t)) (\<lambda>t. t\<lparr>it_revoked_at := Some now\<rparr>) (issued_tokens d)\<rparr>
      in case sql_first (\<lambda>p. ep_group_id p = Some i) (enrollment_policies d1) of
           None \<Rightarrow> Inl ErrGroupTargetMissing
         | Some p \<Rightarrow>
            andthen (ensure (ep_required p \<longrightarrow> epv_can_activate (previewEnrollmentTx sessionID '''' now d1)) ErrEmergencyAdministrator) (\<lambda>_.
            andthen (mappedRoleApps i d1) (\<lambda>apps.
            let members = map gm_user_id (filter (\<lambda>m. gm_group_id m = i) (group_memberships d1))
            in case sql_first (\<lambda>g. dg_id g = i) (directory_groups d1) of
                 None \<Rightarrow> Inl ErrGroupTargetMissing
               | Some g \<Rightarrow>
                  andthen (roleChangeForAppsTx apps members now (delete_group i d1)) (\<lambda>d2.
                  andthen (revokeLostAppAccessTx now d2) (\<lambda>d3.
                  andthen (reconcileProvisioningTx sha now d3) (\<lambda>d4. Inr (dg_name g, d4)))))))"

definition DeleteGroupForSession :: "(string \<Rightarrow> string) \<Rightarrow> string \<Rightarrow> string \<Rightarrow> audit_event option \<Rightarrow> time \<Rightarrow> db \<Rightarrow> err + db" where
  "DeleteGroupForSession sha i sessionID audit now d =
     andthen (deleteGroupTx sha i sessionID now d) (\<lambda>(name, d1).
     recordAuditTx (map_option (\<lambda>e. e\<lparr>au_details := JObj [(''name'', JStr name)]\<rparr>) audit) now d1)"

definition DeleteGroup :: "(string \<Rightarrow> string) \<Rightarrow> string \<Rightarrow> audit_event option \<Rightarrow> time \<Rightarrow> db \<Rightarrow> err + db" where
  "DeleteGroup sha i audit now d = DeleteGroupForSession sha i '''' audit now d"

section \<open>Membership\<close>

text \<open>The membership row written or removed, and whether a row changed; only a new row fires the trigger.\<close>

definition write_membership :: "string \<Rightarrow> string \<Rightarrow> bool \<Rightarrow> int option \<Rightarrow> time \<Rightarrow> db \<Rightarrow> bool tx" where
  "write_membership groupID userID member until now d =
     (let key = (\<lambda>m. gm_group_id m = groupID \<and> gm_user_id m = userID)
      in if \<not> member then Inr (\<exists>m \<in> set (group_memberships d). key m, d\<lparr>group_memberships := sql_delete key (group_memberships d)\<rparr>)
         else case sql_first key (group_memberships d) of
                Some m \<Rightarrow> Inr (gm_expires_at m \<noteq> until,
                  d\<lparr>group_memberships := sql_update key (\<lambda>x. x\<lparr>gm_expires_at := until\<rparr>) (group_memberships d)\<rparr>)
              | None \<Rightarrow>
                 andthen (ensure ((\<exists>g \<in> set (directory_groups d). dg_id g = groupID) \<and> (\<exists>u \<in> set (users d). usr_id u = userID)) ErrGroupTargetMissing) (\<lambda>_.
                 Inr (True, new_member_trigger groupID userID now
                   (d\<lparr>group_memberships := sql_insert \<lparr>gm_group_id = groupID, gm_user_id = userID, gm_expires_at = until\<rparr> (group_memberships d)\<rparr>))))"

definition required_change_checks :: "string \<Rightarrow> string \<Rightarrow> time \<Rightarrow> db \<Rightarrow> err + db" where
  "required_change_checks userID sessionID now d =
     (case sql_first (\<lambda>r. er_user_id r = userID) (enrollment_requirements d) of
        None \<Rightarrow> Inl ErrNoRows
      | Some r \<Rightarrow>
         andthen (ensure (er_allowed_mask r \<noteq> 0) ErrEnrollmentPolicy) (\<lambda>_.
         andthen (ensure (epv_can_activate (previewEnrollmentTx sessionID '''' now d)) ErrEmergencyAdministrator) (\<lambda>_.
         Inr (invalidateUserEnrollmentTx userID now d))))"

definition applyGroupMembershipTx :: "string \<Rightarrow> string \<Rightarrow> bool \<Rightarrow> time option \<Rightarrow> string \<Rightarrow> time \<Rightarrow> db \<Rightarrow> (string \<times> string) tx" where
  "applyGroupMembershipTx groupID userID member expiresAt sessionID now d =
     andthen (write_membership groupID userID member (map_option unixepoch expiresAt) now d) (\<lambda>(changed, d1).
     case (sql_first (\<lambda>g. dg_id g = groupID) (directory_groups d1), sql_first (\<lambda>u. usr_id u = userID) (users d1)) of
       (Some g, Some u) \<Rightarrow>
         (case sql_first (\<lambda>p. ep_group_id p = Some groupID) (enrollment_policies d1) of
            None \<Rightarrow> Inl ErrNoRows
          | Some p \<Rightarrow>
             andthen (if ep_required p \<and> changed then required_change_checks userID sessionID now d1 else Inr d1) (\<lambda>d2.
             andthen (if changed then groupRoleChangeTx groupID [userID] now d2 else Inr d2) (\<lambda>d3.
             Inr ((dg_name g, usr_username u), d3))))
     | _ \<Rightarrow> Inl ErrGroupTargetMissing)"

definition setGroupMembershipTx :: "(string \<Rightarrow> string) \<Rightarrow> string \<Rightarrow> string \<Rightarrow> bool \<Rightarrow> time option \<Rightarrow> string \<Rightarrow> time \<Rightarrow> db \<Rightarrow> (string \<times> string) tx" where
  "setGroupMembershipTx sha groupID userID member expiresAt sessionID now d =
     andthen (applyGroupMembershipTx groupID userID member expiresAt sessionID now d) (\<lambda>(names, d1).
     andthen (reconcileAccessTx sha now d1) (\<lambda>d2. Inr (names, d2)))"

definition setGroupMembership :: "(string \<Rightarrow> string) \<Rightarrow> string \<Rightarrow> string \<Rightarrow> bool \<Rightarrow> time option \<Rightarrow> string \<Rightarrow> audit_event option \<Rightarrow> time \<Rightarrow> db \<Rightarrow> err + db" where
  "setGroupMembership sha groupID userID member expiresAt sessionID audit now d =
     andthen (setGroupMembershipTx sha groupID userID member expiresAt sessionID now d) (\<lambda>((groupName, username), d1).
     recordAuditTx (map_option (\<lambda>e. e\<lparr>au_details := JObj [(''userId'', JStr userID), (''username'', JStr username), (''groupName'', JStr groupName)]\<rparr>) audit) now d1)"

definition SetGroupMembershipForSession :: "(string \<Rightarrow> string) \<Rightarrow> string \<Rightarrow> string \<Rightarrow> bool \<Rightarrow> string \<Rightarrow> audit_event option \<Rightarrow> time \<Rightarrow> db \<Rightarrow> err + db" where
  "SetGroupMembershipForSession sha groupID userID member sessionID audit now d = setGroupMembership sha groupID userID member None sessionID audit now d"

definition SetGroupMembership :: "(string \<Rightarrow> string) \<Rightarrow> string \<Rightarrow> string \<Rightarrow> bool \<Rightarrow> audit_event option \<Rightarrow> time \<Rightarrow> db \<Rightarrow> err + db" where
  "SetGroupMembership sha groupID userID member audit now d = SetGroupMembershipForSession sha groupID userID member '''' audit now d"

definition checkExpiry :: "time option \<Rightarrow> time \<Rightarrow> err + unit" where
  "checkExpiry expiresAt now = (case expiresAt of None \<Rightarrow> Inr () | Some t \<Rightarrow> ensure (now < t) ErrExpiryInPast)"

definition SetGroupMembershipUntil :: "(string \<Rightarrow> string) \<Rightarrow> string \<Rightarrow> string \<Rightarrow> time option \<Rightarrow> string \<Rightarrow> audit_event option \<Rightarrow> time \<Rightarrow> db \<Rightarrow> err + db" where
  "SetGroupMembershipUntil sha groupID userID expiresAt sessionID audit now d =
     andthen (checkExpiry expiresAt now) (\<lambda>_. setGroupMembership sha groupID userID True expiresAt sessionID audit now d)"

section \<open>Listings\<close>

text \<open>\<open>instr(lower(s),lower(q))>0\<close>.\<close>

definition matches :: "string \<Rightarrow> string \<Rightarrow> bool" where
  "matches q s \<longleftrightarrow> list_ex (\<lambda>i. take (length q) (drop i (nocase s)) = nocase q) [0 ..< Suc (length s)]"

definition page :: "nat \<Rightarrow> nat \<Rightarrow> 'a list \<Rightarrow> 'a list" where
  "page limit offset xs = take limit (drop offset xs)"

record group_listing =
  gl_group :: directory_group
  gl_member_count :: nat
  gl_member :: bool

definition ListGroups :: "string \<Rightarrow> string \<Rightarrow> nat \<Rightarrow> nat \<Rightarrow> db \<Rightarrow> err + (group_listing list \<times> nat)" where
  "ListGroups q userID limit offset d =
     andthen (ensure (userID = '''' \<or> (\<exists>u \<in> set (users d). usr_id u = userID)) ErrGroupTargetMissing) (\<lambda>_.
     let found = filter (\<lambda>g. matches q (dg_name g)) (directory_groups d)
     in Inr (map (\<lambda>g. \<lparr>gl_group = g, gl_member_count = sql_count (\<lambda>m. gm_group_id m = dg_id g) (group_memberships d),
          gl_member = (\<exists>m \<in> set (group_memberships d). gm_group_id m = dg_id g \<and> gm_user_id m = userID)\<rparr>)
          (page limit offset (order_pairs (\<lambda>g. nocase (dg_name g)) dg_id found)), length found))"

record group_user =
  gu_user :: user
  gu_member :: bool
  gu_expires_at :: "time option"

definition ListGroupUsers :: "string \<Rightarrow> string \<Rightarrow> bool \<Rightarrow> nat \<Rightarrow> nat \<Rightarrow> db \<Rightarrow> err + (group_user list \<times> nat)" where
  "ListGroupUsers groupID q includeNonMembers limit offset d =
     andthen (ensure (\<exists>g \<in> set (directory_groups d). dg_id g = groupID) ErrGroupTargetMissing) (\<lambda>_.
     let row = (\<lambda>u. sql_first (\<lambda>m. gm_user_id m = usr_id u \<and> gm_group_id m = groupID) (group_memberships d));
         found = filter (\<lambda>u. (includeNonMembers \<or> row u \<noteq> None) \<and>
           (matches q (usr_username u) \<or> matches q (usr_display_name u) \<or> matches q (usr_email u))) (users d)
     in Inr (map (\<lambda>u. \<lparr>gu_user = u, gu_member = (row u \<noteq> None),
          gu_expires_at = (case row u of None \<Rightarrow> None | Some m \<Rightarrow> map_option from_unix (gm_expires_at m))\<rparr>)
          (page limit offset (order_pairs (\<lambda>u. nocase (usr_username u)) usr_id found)), length found))"

section \<open>What the sweep of lost access leaves\<close>

lemma revokeLostAppAccessTx_frame:
  assumes "revokeLostAppAccessTx now d = Inr d'"
  shows "\<exists>cs ld n. d' = d\<lparr>issued_tokens := sql_update (\<lambda>t. it_revoked_at t = None \<and> \<not> reaches_client now d (it_user_id t) (it_client_id t))
      (\<lambda>t. t\<lparr>it_revoked_at := Some now\<rparr>) (issued_tokens d),
    authorization_codes := sql_delete (\<lambda>c. \<not> reaches_client now d (ac_user_id c) (ac_client_id c)) (authorization_codes d),
    client_sessions := cs, logout_deliveries := ld, rand_pos := n\<rparr>"
proof -
  let ?d1 = "d\<lparr>issued_tokens := sql_update (\<lambda>t. it_revoked_at t = None \<and> \<not> reaches_client now d (it_user_id t) (it_client_id t))
      (\<lambda>t. t\<lparr>it_revoked_at := Some now\<rparr>) (issued_tokens d)\<rparr>"
  have r: "reaches_client now ?d1 = reaches_client now d" by (rule reaches_client_cong) simp_all
  show ?thesis
    by (rule exI[of _ "client_sessions d'"], rule exI[of _ "logout_deliveries d'"], rule exI[of _ "rand_pos d'"])
       (use assms in \<open>unfold revokeLostAppAccessTx_def Let_def r andthen_Inr_iff, auto dest!: enqueueLogoutTx_frame\<close>)
qed

text \<open>The live grants left are for clients their accounts reach.\<close>

definition grants_reached :: "time \<Rightarrow> db \<Rightarrow> bool" where
  "grants_reached now d \<longleftrightarrow> (\<forall>t \<in> set (issued_tokens d). it_revoked_at t = None \<longrightarrow> reaches_client now d (it_user_id t) (it_client_id t)) \<and>
     (\<forall>c \<in> set (authorization_codes d). reaches_client now d (ac_user_id c) (ac_client_id c))"

lemma sweep_reached:
  assumes "revokeLostAppAccessTx now d = Inr d'"
  shows "grants_reached now d'" "grants_over c uid d \<Longrightarrow> grants_over c uid d'" "claim_tables d' = claim_tables d" "app_registry d' = app_registry d"
    "sync_states d' = sync_states d" "paired_systems d' = paired_systems d" "users d' = users d" "group_assignments d' = group_assignments d"
    "oauth_clients d' = oauth_clients d" "user_assignments d' = user_assignments d"
proof -
  from revokeLostAppAccessTx_frame[OF assms] obtain cs ld n where d': "d' = d\<lparr>issued_tokens := sql_update (\<lambda>t. it_revoked_at t = None \<and>
      \<not> reaches_client now d (it_user_id t) (it_client_id t)) (\<lambda>t. t\<lparr>it_revoked_at := Some now\<rparr>) (issued_tokens d),
    authorization_codes := sql_delete (\<lambda>c. \<not> reaches_client now d (ac_user_id c) (ac_client_id c)) (authorization_codes d),
    client_sessions := cs, logout_deliveries := ld, rand_pos := n\<rparr>" by blast
  have "reaches_client now d' = reaches_client now d" by (rule reaches_client_cong) (simp_all add: d')
  then show "grants_reached now d'" by (auto simp: grants_reached_def d' sql_simps)
  show "grants_over c uid d \<Longrightarrow> grants_over c uid d'" by (auto simp: grants_over_def d' sql_simps)
  show "claim_tables d' = claim_tables d" "app_registry d' = app_registry d" "sync_states d' = sync_states d" "paired_systems d' = paired_systems d"
    "users d' = users d" "group_assignments d' = group_assignments d" "oauth_clients d' = oauth_clients d" "user_assignments d' = user_assignments d"
    by (simp_all add: d' claim_tables_def)
qed

lemma sync_frame_reached: "sync_frame d d' \<Longrightarrow> grants_reached now d' = grants_reached now d"
proof -
  assume f: "sync_frame d d'"
  have "reaches_client now d' = reaches_client now d" by (simp add: fun_eq_iff reaches_client_def sync_frame_tables[OF f])
  moreover from f have "issued_tokens d' = issued_tokens d" "authorization_codes d' = authorization_codes d" by (auto simp: sync_frame_def)
  ultimately show ?thesis by (simp add: grants_reached_def)
qed

lemma audit_reached: "recordAuditTx audit now d = Inr d' \<Longrightarrow> grants_reached t d' = grants_reached t d"
proof -
  assume "recordAuditTx audit now d = Inr d'"
  then obtain es where d': "d' = d\<lparr>audit_events := es\<rparr>" by (blast dest: recordAuditTx_InrD)
  have "reaches_client t d' = reaches_client t d" by (rule reaches_client_cong) (simp_all add: d')
  then show ?thesis by (simp add: grants_reached_def d')
qed

lemma same_claims_frame: "sync_frame d d' \<Longrightarrow> same_claims d d'"
  using sync_frame_grants(2) sync_frame_tables(2) by (simp add: same_claims_def)

lemma reconcileAccessTx_InrD:
  assumes "reconcileAccessTx sha now d = Inr d'"
  shows "grants_reached now d'" "same_claims d d'" "grants_over c uid d \<Longrightarrow> grants_over c uid d'"
proof -
  from assms obtain d1 where s: "revokeLostAppAccessTx now d = Inr d1" and r: "reconcileProvisioningTx sha now d1 = Inr d'"
    by (auto simp: reconcileAccessTx_def andthen_Inr_iff)
  note f = reconcileProvisioningTx_frame[OF r]
  show "grants_reached now d'" using sweep_reached(1)[OF s] sync_frame_reached[OF f] by simp
  show "same_claims d d'" using sweep_reached(3,4)[OF s] same_claims_frame[OF f] by (simp add: same_claims_def)
  show "grants_over c uid d \<Longrightarrow> grants_over c uid d'" using sweep_reached(2)[OF s] sync_frame_grants(1)[OF f] by simp
qed

section \<open>Roles through groups\<close>

lemma load_apps_InrD:
  assumes "load_apps is d = Inr as"
  shows "\<forall>i \<in> set is. \<exists>a \<in> set as. app_id a = i \<and> a \<in> set (app_registry d)"
  using assms
proof (induction "is" arbitrary: as)
  case (Cons i "is")
  from Cons.prems obtain a bs where "GetAppRecord i d = Inr a" "load_apps is d = Inr bs" "as = a # bs" by (auto simp: andthen_Inr_iff)
  with Cons.IH[of bs] show ?case by (auto simp: GetAppRecord_def split: option.splits dest: find_SomeD)
qed simp

lemma mappedRoleApps_InrD:
  assumes "mappedRoleApps g d = Inr apps" and "a \<in> set (role_groups d)" "rg_group_id a = g" "r \<in> set (app_roles d)" "ar_id r = rg_role_id a"
  shows "\<exists>app \<in> set apps. app_id app = ar_app_id r \<and> app \<in> set (app_registry d)"
  using load_apps_InrD[OF assms(1)[unfolded mappedRoleApps_def]] assms(2-5) by auto

lemma each_roleChangeTx:
  assumes "each (\<lambda>app. roleChangeTx app us now) apps d = Inr d'"
  shows "same_claims d d' \<and> (\<forall>c uid. grants_over c uid d \<longrightarrow> grants_over c uid d') \<and>
    (\<forall>app \<in> set apps. \<forall>uid \<in> set us. ref (app_client_id app) \<noteq> '''' \<longrightarrow> grants_over (ref (app_client_id app)) uid d')"
  using assms
proof (induction apps arbitrary: d)
  case (Cons app apps)
  from Cons.prems obtain d1 where r: "roleChangeTx app us now d = Inr d1" "each (\<lambda>app. roleChangeTx app us now) apps d1 = Inr d'" by (auto simp: andthen_Inr_iff)
  note IH = Cons.IH[OF r(2)]
  have "same_claims d d'" using roleChangeTx_claims[OF r(1)] IH same_claims_trans by blast
  moreover have "grants_over c uid d'" if "grants_over c uid d" for c uid using roleChangeTx_InrD(3)[OF r(1) that] IH by blast
  moreover have "grants_over (ref (app_client_id app)) uid d'" if "uid \<in> set us" "ref (app_client_id app) \<noteq> ''''" for uid
    using roleChangeTx_InrD(4)[OF r(1) refl that(2,1)] IH by blast
  ultimately show ?case using IH by auto
qed (simp add: same_claims_def)

lemma roleChangeForAppsTx_InrD:
  assumes "roleChangeForAppsTx apps us now d = Inr d'"
  shows "same_claims d d'" "grants_over c uid d \<Longrightarrow> grants_over c uid d'"
    "app \<in> set apps \<Longrightarrow> uid \<in> set us \<Longrightarrow> ref (app_client_id app) = c \<Longrightarrow> c \<noteq> '''' \<Longrightarrow> grants_over c uid d'"
proof -
  have "same_claims d d' \<and> (grants_over c uid d \<longrightarrow> grants_over c uid d') \<and>
      (app \<in> set apps \<longrightarrow> uid \<in> set us \<longrightarrow> ref (app_client_id app) = c \<longrightarrow> c \<noteq> '''' \<longrightarrow> grants_over c uid d')"
  proof (cases "us = []")
    case True
    with assms show ?thesis by (simp add: roleChangeForAppsTx_def same_claims_def)
  next
    case False
    with assms have "each (\<lambda>app. roleChangeTx app us now) apps d = Inr d'" by (simp add: roleChangeForAppsTx_def)
    from each_roleChangeTx[OF this] show ?thesis by blast
  qed
  then show "same_claims d d'" "grants_over c uid d \<Longrightarrow> grants_over c uid d'"
    "app \<in> set apps \<Longrightarrow> uid \<in> set us \<Longrightarrow> ref (app_client_id app) = c \<Longrightarrow> c \<noteq> '''' \<Longrightarrow> grants_over c uid d'" by blast+
qed

abbreviation role_claims :: "string \<Rightarrow> string \<Rightarrow> time \<Rightarrow> db \<Rightarrow> err + string list" where
  "role_claims u c now d \<equiv> map_sum id cl_roles (UserAppClaims u c now d)"

lemma role_claims_differ:
  assumes "role_claims u c now d' \<noteq> role_claims u c now d" and "app_registry d' = app_registry d" and "app_roles d' = app_roles d"
  obtains a r where "a \<in> set (app_registry d)" "app_client_id a = Some c" "r \<in> set (app_roles d)" "ar_app_id r = app_id a"
    "holds_role u now d' r \<noteq> holds_role u now d r"
proof -
  from assms(1) have "UserAppClaims u c now d' \<noteq> UserAppClaims u c now d" by auto
  then obtain a where a: "sql_first (\<lambda>a. app_client_id a = Some c) (app_registry d) = Some a"
    using assms(2) by (auto simp: UserAppClaims_def split: option.splits)
  have "\<exists>r \<in> set (app_roles d). ar_app_id r = app_id a \<and> holds_role u now d' r \<noteq> holds_role u now d r"
  proof (rule ccontr)
    assume "\<not> ?thesis"
    then have "filter (\<lambda>r. ar_app_id r = app_id a \<and> holds_role u now d' r) (app_roles d) = filter (\<lambda>r. ar_app_id r = app_id a \<and> holds_role u now d r) (app_roles d)"
      by (intro filter_cong) auto
    then have "map_sum id cl_roles (appClaimsTx u (app_id a) now d') = map_sum id cl_roles (appClaimsTx u (app_id a) now d)"
      using assms(2,3) by (auto simp: appClaimsTx_def split: option.split)
    with assms(1,2) a show False by (simp add: UserAppClaims_def)
  qed
  with that find_SomeD[OF a] show thesis by blast
qed

abbreviation member_key :: "membership \<Rightarrow> string \<times> string" where
  "member_key m \<equiv> (gm_group_id m, gm_user_id m)"

lemma write_membership_frame:
  assumes "write_membership g uid member until now d = Inr (ch, d1)"
  shows "\<exists>ms ds. d1 = d\<lparr>group_memberships := ms, enrollment_deadlines := ds\<rparr>"
  by (rule exI[of _ "group_memberships d1"], rule exI[of _ "enrollment_deadlines d1"])
     (use assms in \<open>auto simp: write_membership_def Let_def new_member_trigger_def andthen_Inr_iff split: if_splits option.splits\<close>)

lemma write_membership_other:
  assumes "write_membership g uid member until now d = Inr (ch, d1)" and "member_key m \<noteq> (g, uid)"
  shows "m \<in> set (group_memberships d1) \<longleftrightarrow> m \<in> set (group_memberships d)"
proof -
  let ?key = "\<lambda>m. gm_group_id m = g \<and> gm_user_id m = uid"
  have "m \<in> set (sql_update ?key (\<lambda>x. x\<lparr>gm_expires_at := until\<rparr>) t) \<longleftrightarrow> m \<in> set t" for t
    using assms(2) by (auto simp: sql_simps intro!: image_eqI[of m _ m])
  note u = this
  consider (drop) "group_memberships d1 = sql_delete ?key (group_memberships d)" | (redate) "group_memberships d1 = sql_update ?key (\<lambda>x. x\<lparr>gm_expires_at := until\<rparr>) (group_memberships d)"
    | (add) "group_memberships d1 = sql_insert \<lparr>gm_group_id = g, gm_user_id = uid, gm_expires_at = until\<rparr> (group_memberships d)"
    using assms(1) by (auto simp: write_membership_def Let_def new_member_trigger_def andthen_Inr_iff split: if_splits option.splits)
  then show ?thesis
  proof cases
    case drop
    with assms(2) show ?thesis unfolding drop set_sql_delete by auto
  next
    case redate
    show ?thesis unfolding redate by (rule u)
  next
    case add
    with assms(2) show ?thesis unfolding add set_sql_insert by auto
  qed
qed

lemma write_membership_same:
  assumes "write_membership g uid member until now d = Inr (False, d1)" and "distinct (map member_key (group_memberships d))"
  shows "group_memberships d1 = group_memberships d"
proof (cases member)
  case False
  with assms(1) have "\<forall>m \<in> set (group_memberships d). \<not> (gm_group_id m = g \<and> gm_user_id m = uid)"
    "d1 = d\<lparr>group_memberships := sql_delete (\<lambda>m. gm_group_id m = g \<and> gm_user_id m = uid) (group_memberships d)\<rparr>"
    by (auto simp: write_membership_def Let_def)
  then show ?thesis by (simp add: sql_delete_noop)
next
  case True
  let ?key = "\<lambda>m. gm_group_id m = g \<and> gm_user_id m = uid"
  from assms(1) True obtain m where m: "sql_first ?key (group_memberships d) = Some m" "gm_expires_at m = until"
      and d1: "d1 = d\<lparr>group_memberships := sql_update ?key (\<lambda>x. x\<lparr>gm_expires_at := until\<rparr>) (group_memberships d)\<rparr>"
    by (auto simp: write_membership_def Let_def andthen_Inr_iff split: option.splits)
  have "x\<lparr>gm_expires_at := until\<rparr> = x" if "x \<in> set (group_memberships d)" "?key x" for x
    using key_unique[OF assms(2) that(1), of m] find_SomeD[OF m(1)] that(2) m(2) by auto
  then have "map (\<lambda>x. if ?key x then x\<lparr>gm_expires_at := until\<rparr> else x) (group_memberships d) = group_memberships d" by (intro map_idI) auto
  then show ?thesis by (simp add: d1 sql_update_def)
qed

text \<open>A change of membership reaches only the account it names, in the apps that map the group to a role.\<close>

lemma membership_roles:
  assumes w: "write_membership g uid member until now d = Inr (ch, d1)" and keys: "distinct (map member_key (group_memberships d))"
    and ne: "holds_role u now d1 r \<noteq> holds_role u now d r"
  shows "ch \<and> u = uid \<and> (\<exists>a \<in> set (role_groups d). rg_role_id a = ar_id r \<and> rg_group_id a = g)"
proof -
  from write_membership_frame[OF w] have rows: "role_groups d1 = role_groups d" "role_users d1 = role_users d" by auto
  from ne have g: "(\<exists>a \<in> set (role_groups d). \<exists>m \<in> set (live_group_memberships now d1). gm_group_id m = rg_group_id a \<and> rg_role_id a = ar_id r \<and> gm_user_id m = u) \<noteq>
      (\<exists>a \<in> set (role_groups d). \<exists>m \<in> set (live_group_memberships now d). gm_group_id m = rg_group_id a \<and> rg_role_id a = ar_id r \<and> gm_user_id m = u)"
    unfolding holds_role_def rows by blast
  then have ch: "ch" using write_membership_same[of g uid member until now d d1] w keys by (cases ch) (auto simp: live_group_memberships_def)
  have "m \<in> set (live_group_memberships now d1) \<longleftrightarrow> m \<in> set (live_group_memberships now d)" if "member_key m \<noteq> (g, uid)" for m
    using write_membership_other[OF w that] by (simp add: live_group_memberships_def)
  with g have "\<exists>a \<in> set (role_groups d). \<exists>m. member_key m = (g, uid) \<and> gm_group_id m = rg_group_id a \<and> rg_role_id a = ar_id r \<and> gm_user_id m = u" by metis
  with ch show ?thesis by auto
qed

lemma applyGroupMembershipTx_InrE:
  assumes "applyGroupMembershipTx g uid member until sid now d = Inr (names, d')"
  obtains ch d1 d2 where "write_membership g uid member (map_option unixepoch until) now d = Inr (ch, d1)"
    "d2 = d1 \<or> d2 = invalidateUserEnrollmentTx uid now d1" "(if ch then groupRoleChangeTx g [uid] now d2 else Inr d2) = Inr d'"
proof -
  from assms obtain ch d1 where w: "write_membership g uid member (map_option unixepoch until) now d = Inr (ch, d1)"
    by (cases "write_membership g uid member (map_option unixepoch until) now d") (auto simp: applyGroupMembershipTx_def)
  from assms w obtain p where p: "sql_first (\<lambda>p. ep_group_id p = Some g) (enrollment_policies d1) = Some p"
    by (auto simp: applyGroupMembershipTx_def split: option.splits)
  from assms w p obtain d2 where d2: "(if ep_required p \<and> ch then required_change_checks uid sid now d1 else Inr d1) = Inr d2"
      and r: "(if ch then groupRoleChangeTx g [uid] now d2 else Inr d2) = Inr d'"
    by (auto simp: applyGroupMembershipTx_def andthen_Inr_iff split: option.splits)
  from d2 have "d2 = d1 \<or> d2 = invalidateUserEnrollmentTx uid now d1"
    by (auto simp: required_change_checks_def andthen_Inr_iff split: if_splits option.splits)
  with that[OF w _ r] show thesis by blast
qed

lemma groupRoleChangeTx_InrE:
  assumes "groupRoleChangeTx g us now d = Inr d'"
  obtains apps where "mappedRoleApps g d = Inr apps" "roleChangeForAppsTx apps us now d = Inr d'"
  using assms by (auto simp: groupRoleChangeTx_def andthen_Inr_iff)

text \<open>
  Joining, leaving or re-dating a membership never leaves a token with roles the account no longer has: whenever it
  changes the roles a token for a client would carry for an account, that account is the one named and keeps no live
  token and no code for that client; and every live grant left in the directory is for a client its account reaches.
\<close>

theorem membership_ends_stale_roles:
  assumes "setGroupMembership sha g uid member until sid audit now d = Inr d'" and keys: "distinct (map member_key (group_memberships d))"
    "distinct (map app_id (app_registry d))" and c: "c \<noteq> ''''"
  shows "grants_reached now d' \<and> (role_claims u c now d' \<noteq> role_claims u c now d \<longrightarrow> u = uid \<and> grants_over c u d')"
proof -
  from assms(1) obtain names d3 d4 au where a: "applyGroupMembershipTx g uid member until sid now d = Inr (names, d3)"
      and r: "reconcileAccessTx sha now d3 = Inr d4" and au: "recordAuditTx au now d4 = Inr d'"
    by (auto simp: setGroupMembership_def setGroupMembershipTx_def andthen_Inr_iff)
  from a obtain ch d1 d2 where w: "write_membership g uid member (map_option unixepoch until) now d = Inr (ch, d1)"
      and d2: "d2 = d1 \<or> d2 = invalidateUserEnrollmentTx uid now d1" and rc: "(if ch then groupRoleChangeTx g [uid] now d2 else Inr d2) = Inr d3"
    by (rule applyGroupMembershipTx_InrE)
  from write_membership_frame[OF w] have rows: "app_registry d1 = app_registry d" "app_roles d1 = app_roles d" "role_groups d1 = role_groups d" by auto
  from d2 have c12: "same_claims d1 d2" "app_registry d2 = app_registry d1" "role_groups d2 = role_groups d1" "app_roles d2 = app_roles d1"
    by (auto simp: same_claims_def claim_tables_def invalidateUserEnrollmentTx_def)
  have "same_claims d2 d3" using rc roleChangeForAppsTx_InrD(1) by (auto simp: same_claims_def split: if_splits elim!: groupRoleChangeTx_InrE)
  then have same: "same_claims d1 d'" using c12(1) reconcileAccessTx_InrD(2)[OF r] same_claims_audit[OF au] same_claims_trans by blast
  have "u = uid \<and> grants_over c u d'" if "role_claims u c now d' \<noteq> role_claims u c now d"
  proof -
    from that have "role_claims u c now d1 \<noteq> role_claims u c now d" by (simp add: UserAppClaims_same[OF same])
    then obtain a r where a: "a \<in> set (app_registry d)" "app_client_id a = Some c" "r \<in> set (app_roles d)" "ar_app_id r = app_id a"
      "holds_role u now d1 r \<noteq> holds_role u now d r" using rows(1,2) by (rule role_claims_differ)
    from membership_roles[OF w keys(1) a(5)] obtain x where x: "ch" "u = uid" "x \<in> set (role_groups d)" "rg_role_id x = ar_id r" "rg_group_id x = g" by blast
    from rc x(1) obtain apps where apps: "mappedRoleApps g d2 = Inr apps" "roleChangeForAppsTx apps [uid] now d2 = Inr d3" by (auto elim!: groupRoleChangeTx_InrE)
    from mappedRoleApps_InrD[OF apps(1), of x r] x a(3,4) rows c12 obtain app where app: "app \<in> set apps" "app_id app = app_id a" "app \<in> set (app_registry d)" by auto
    have "app = a" using key_unique[OF keys(2) app(3) a(1) app(2)] .
    then have "ref (app_client_id app) = c" using a(2) by (simp add: ref_def)
    from roleChangeForAppsTx_InrD(3)[OF apps(2) app(1) _ this c, of u] x(2) have "grants_over c u d3" by simp
    with x(2) reconcileAccessTx_InrD(3)[OF r] grants_over_audit[OF au] show ?thesis by simp
  qed
  then show ?thesis using reconcileAccessTx_InrD(1)[OF r] audit_reached[OF au] by simp
qed

text \<open>The sample account leaves the group that made it an editor.\<close>

definition group_role_db :: db where
  "group_role_db = roles_db\<lparr>directory_groups := [\<lparr>dg_id = ''g1'', dg_name = ''Staff'', dg_description = '''', dg_source_connector_id = None, dg_external_id = None,
       dg_created_at = 0, dg_updated_at = 0\<rparr>],
     group_memberships := [\<lparr>gm_group_id = ''g1'', gm_user_id = ''u1'', gm_expires_at = None\<rparr>],
     enrollment_policies := sql_insert \<lparr>ep_scope = ''group:g1'', ep_group_id = Some ''g1'', ep_required = False, ep_allowed_mask = 7,
       ep_grace_seconds = 0, ep_revision = 1\<rparr> (enrollment_policies roles_db),
     role_groups := [\<lparr>rg_role_id = ''r1'', rg_group_id = ''g1''\<rparr>]\<rparr>"

theorem membership_ends_stale_roles_witness:
  "\<exists>d'. setGroupMembership id ''g1'' ''u1'' False None '''' None sample_now group_role_db = Inr d' \<and>
     map it_revoked_at (issued_tokens group_role_db) = [None] \<and> grants_over ''c1'' ''u1'' d'"
proof -
  let ?r = "setGroupMembership id ''g1'' ''u1'' False None '''' None sample_now group_role_db"
  have "\<not> isl ?r" "role_claims ''u1'' ''c1'' sample_now (projr ?r) \<noteq> role_claims ''u1'' ''c1'' sample_now group_role_db" by code_simp+
  then obtain d' where r: "?r = Inr d'" "role_claims ''u1'' ''c1'' sample_now d' \<noteq> role_claims ''u1'' ''c1'' sample_now group_role_db"
    by (auto dest!: succeeds)
  have w: "distinct (map member_key (group_memberships group_role_db))" "distinct (map app_id (app_registry group_role_db))"
    "map it_revoked_at (issued_tokens group_role_db) = [None]" by code_simp+
  have c: "''c1'' \<noteq> ''''" by simp
  from membership_ends_stale_roles[OF r(1) w(1,2) c, THEN conjunct2, rule_format, OF r(2)] have "grants_over ''c1'' ''u1'' d'" by (rule conjunct2)
  with r(1) w(3) show ?thesis by (intro exI conjI)
qed

end
