(* ===== verification/Ky_Registry.thy ===== *)
theory Ky_Registry
  imports Ky_Groups
begin

text \<open>
  The app registry (\<^verbatim>\<open>internal/store/app_registry.go\<close>, the access edits of \<^verbatim>\<open>app_access.go\<close>, and the OAuth clients
  and paired systems of \<^verbatim>\<open>store.go\<close>): the triggers that give every connection a registry row, linking and unlinking
  of connections, the access policy and the grants of an app. \<open>render\<close> is the JSON of an app record, which also shows
  the name of its launcher entry; the launcher's own columns are no part of a client row.
\<close>

section \<open>Rows of the registry\<close>

definition default_policy :: auth_policy where
  "default_policy = \<lparr>ap_mode = ''reuse'', ap_primary_max_age = 0, ap_factor = ''password'', ap_factor_max_age = 0, ap_refresh_idle = 0, ap_refresh_lifetime = 0\<rparr>"

text \<open>The column defaults of a new row.\<close>

definition new_app :: "string \<Rightarrow> app_row" where
  "new_app i = \<lparr>app_id = i, app_revision = 1, app_client_id = None, app_launcher_id = None, app_system_id = None, app_access_mode = AssignedOnly,
     app_enabled = True, app_authentication = default_policy, app_auth_revision = 1, app_role_revision = 0, app_legacy_role_claim = False,
     app_groups_claim = False, app_requestable = False\<rparr>"

datatype connection = Client | Launcher | System

definition connection_of :: "connection \<Rightarrow> app_row \<Rightarrow> string option" where
  "connection_of k a = (case k of Client \<Rightarrow> app_client_id a | Launcher \<Rightarrow> app_launcher_id a | System \<Rightarrow> app_system_id a)"

definition set_connection :: "connection \<Rightarrow> string option \<Rightarrow> app_row \<Rightarrow> app_row" where
  "set_connection k v a = (case k of Client \<Rightarrow> a\<lparr>app_client_id := v\<rparr> | Launcher \<Rightarrow> a\<lparr>app_launcher_id := v\<rparr> | System \<Rightarrow> a\<lparr>app_system_id := v\<rparr>)"

definition insert_app :: "app_row \<Rightarrow> db \<Rightarrow> err + db" where
  "insert_app a d =
     (let taken = (\<lambda>f. f a \<noteq> None \<and> (\<exists>x \<in> set (app_registry d). f x = f a))
      in andthen (ensure (\<not> ((\<exists>x \<in> set (app_registry d). app_id x = app_id a) \<or> taken app_client_id \<or> taken app_launcher_id \<or> taken app_system_id)) ErrUnique) (\<lambda>_.
         Inr (d\<lparr>app_registry := sql_insert a (app_registry d)\<rparr>)))"

text \<open>\<open>registry_insert_*\<close>: a new connection gets a row of its own.\<close>

definition registry_insert :: "connection \<Rightarrow> string \<Rightarrow> db \<Rightarrow> err + db" where
  "registry_insert k i d = (let (rid, d1) = fresh_id d in insert_app (set_connection k (Some i) (new_app rid)) d1)"

text \<open>Deleting registry rows takes their grants, roles, requests and delegations with them.\<close>

definition delete_apps :: "(app_row \<Rightarrow> bool) \<Rightarrow> db \<Rightarrow> db" where
  "delete_apps p d =
     (let gone = (\<lambda>i. \<exists>a \<in> set (app_registry d). p a \<and> app_id a = i); d1 = delete_roles (\<lambda>r. gone (ar_app_id r)) d
      in d1\<lparr>app_registry := sql_delete p (app_registry d1),
            user_assignments := sql_delete (\<lambda>x. gone (ua_app_id x)) (user_assignments d1),
            group_assignments := sql_delete (\<lambda>x. gone (ga_app_id x)) (group_assignments d1),
            access_requests := sql_delete (\<lambda>x. gone (rq_app_id x)) (access_requests d1),
            admin_delegations := sql_delete (\<lambda>x. case de_app_id x of None \<Rightarrow> False | Some i \<Rightarrow> gone i) (admin_delegations d1)\<rparr>)"

text \<open>
  \<open>registry_delete_*\<close>, the foreign key that clears the reference, and \<open>registry_cleanup_*\<close>: a row left with
  no connection goes.
\<close>

definition registry_delete :: "connection \<Rightarrow> string \<Rightarrow> db \<Rightarrow> db" where
  "registry_delete k i d = delete_apps (\<lambda>a. app_client_id a = None \<and> app_launcher_id a = None \<and> app_system_id a = None)
     (d\<lparr>app_registry := sql_update (\<lambda>a. connection_of k a = Some i) (\<lambda>a. set_connection k None (a\<lparr>app_revision := app_revision a + 1\<rparr>)) (app_registry d)\<rparr>)"

section \<open>OAuth clients\<close>

definition CreateOAuthClient :: "oauth_client \<Rightarrow> audit_event option \<Rightarrow> time \<Rightarrow> db \<Rightarrow> err + db" where
  "CreateOAuthClient c audit now d =
     andthen (ensure (\<not> (\<exists>x \<in> set (oauth_clients d). oc_id x = oc_id c)) ErrUnique) (\<lambda>_.
     andthen (registry_insert Client (oc_id c) (d\<lparr>oauth_clients := sql_insert (c\<lparr>oc_created_at := now\<rparr>) (oauth_clients d)\<rparr>)) (\<lambda>d1.
     recordAuditTx audit now d1))"

definition GetOAuthClientByID :: "string \<Rightarrow> db \<Rightarrow> oauth_client option" where
  "GetOAuthClientByID i d = sql_first (\<lambda>c. oc_id c = i) (oauth_clients d)"

definition ListOAuthClients :: "db \<Rightarrow> oauth_client list" where
  "ListOAuthClients d = sort_key oc_client_name (oauth_clients d)"

definition UpdateOAuthClientWithAudit :: "(string \<Rightarrow> string) \<Rightarrow> oauth_client \<Rightarrow> bool \<Rightarrow> audit_event option \<Rightarrow> time \<Rightarrow> db \<Rightarrow> err + db" where
  "UpdateOAuthClientWithAudit sha c revokeTokens audit now d =
     (let d1 = d\<lparr>oauth_clients := sql_update (\<lambda>x. oc_id x = oc_id c) (\<lambda>x. c\<lparr>oc_created_at := oc_created_at x\<rparr>) (oauth_clients d)\<rparr>;
          d2 = (if revokeTokens \<or> \<not> oc_enabled c then revokeClientTokensTx (oc_id c) now d1 else d1)
      in andthen (reconcileProvisioningTx sha now d2) (\<lambda>d3. recordAuditTx audit now d3))"

definition UpdateOAuthClient :: "(string \<Rightarrow> string) \<Rightarrow> oauth_client \<Rightarrow> time \<Rightarrow> db \<Rightarrow> err + db" where
  "UpdateOAuthClient sha c now d = UpdateOAuthClientWithAudit sha c False None now d"

text \<open>The row goes, and with it its codes, its queued logouts and its registry reference.\<close>

definition delete_client :: "string \<Rightarrow> db \<Rightarrow> db" where
  "delete_client i d =
     (let d1 = registry_delete Client i d
      in d1\<lparr>oauth_clients := sql_delete (\<lambda>c. oc_id c = i) (oauth_clients d1),
            authorization_codes := sql_delete (\<lambda>c. ac_client_id c = i) (authorization_codes d1),
            logout_deliveries := sql_delete (\<lambda>x. ld_client_id x = i) (logout_deliveries d1)\<rparr>)"

definition DeleteOAuthClient :: "(string \<Rightarrow> string) \<Rightarrow> string \<Rightarrow> audit_event option \<Rightarrow> time \<Rightarrow> db \<Rightarrow> bool tx" where
  "DeleteOAuthClient sha i audit now d =
     (if sql_count (\<lambda>c. oc_id c = i) (oauth_clients d) = 0 then Inr (False, d)
      else andthen (reconcileProvisioningTx sha now (revokeClientTokensTx i now (delete_client i d))) (\<lambda>d1.
           andthen (recordAuditTx audit now d1) (\<lambda>d2. Inr (True, d2))))"

section \<open>Paired systems\<close>

definition CreatePairedSystem :: "paired_system \<Rightarrow> audit_event option \<Rightarrow> time \<Rightarrow> db \<Rightarrow> err + db" where
  "CreatePairedSystem ps audit now d =
     andthen (ensure (\<not> (\<exists>x \<in> set (paired_systems d). ps_id x = ps_id ps)) ErrUnique) (\<lambda>_.
     andthen (registry_insert System (ps_id ps) (d\<lparr>paired_systems := sql_insert (ps\<lparr>ps_created_at := now, ps_last_synced_at := None,
         ps_groups_enabled := False, ps_reconcile_hours := 0, ps_provisioning_hold := False\<rparr>) (paired_systems d)\<rparr>)) (\<lambda>d1.
     recordAuditTx audit now d1))"

definition GetPairedSystemByID :: "string \<Rightarrow> db \<Rightarrow> paired_system option" where
  "GetPairedSystemByID i d = sql_first (\<lambda>s. ps_id s = i) (paired_systems d)"

definition ListAllPairedSystems :: "db \<Rightarrow> paired_system list" where
  "ListAllPairedSystems d = sort_key ps_created_at (paired_systems d)"

definition delete_system :: "string \<Rightarrow> db \<Rightarrow> db" where
  "delete_system i d =
     (let d1 = registry_delete System i d
      in d1\<lparr>paired_systems := sql_delete (\<lambda>s. ps_id s = i) (paired_systems d1),
            sync_states := sql_delete (\<lambda>st. ss_system_id st = i) (sync_states d1),
            scim_links := sql_delete (\<lambda>l. lk_system_id l = i) (scim_links d1),
            delivery_attempts := sql_delete (\<lambda>a. da_system_id a = i) (delivery_attempts d1),
            reconcile_jobs := sql_delete (\<lambda>j. rj_system_id j = i) (reconcile_jobs d1)\<rparr>)"

definition DeletePairedSystem :: "string \<Rightarrow> audit_event option \<Rightarrow> time \<Rightarrow> db \<Rightarrow> bool tx" where
  "DeletePairedSystem i audit now d =
     (if sql_count (\<lambda>s. ps_id s = i) (paired_systems d) = 0 then Inr (False, d)
      else let d1 = delete_system i d
           in andthen (recordAuditTx audit now (d1\<lparr>sync_events := sql_delete (\<lambda>e. se_system_id e = i) (sync_events d1)\<rparr>)) (\<lambda>d2. Inr (True, d2)))"

section \<open>Linking\<close>

definition ensureAppLinkPoliciesTx :: "app_row \<Rightarrow> app_row \<Rightarrow> db \<Rightarrow> err + unit" where
  "ensureAppLinkPoliciesTx target source d =
     (let either = (\<lambda>i. i = app_id target \<or> i = app_id source)
      in andthen (ensure (app_access_mode target = app_access_mode source \<and> app_enabled target = app_enabled source \<and>
           app_authentication target = app_authentication source) ErrAppLinkConflict) (\<lambda>_.
         andthen (ensure (sql_count (\<lambda>x. either (ua_app_id x)) (user_assignments d) + sql_count (\<lambda>x. either (ga_app_id x)) (group_assignments d) = 0) ErrAppLinkConflict) (\<lambda>_.
         andthen (ensure (sql_count (\<lambda>r. either (ar_app_id r)) (app_roles d) = 0) ErrAppLinkConflict) (\<lambda>_.
         ensure (app_legacy_role_claim target = app_legacy_role_claim source \<and> app_groups_claim target = app_groups_claim source) ErrAppLinkConflict))))"

definition pick :: "string option \<Rightarrow> string option \<Rightarrow> string option" where
  "pick a b = (if ref a \<noteq> '''' then a else if ref b \<noteq> '''' then b else None)"

definition LinkAppRecords :: "(string \<Rightarrow> string) \<Rightarrow> (app_row \<Rightarrow> json) \<Rightarrow> string \<Rightarrow> string \<Rightarrow> int \<Rightarrow> int \<Rightarrow> audit_event option \<Rightarrow> time \<Rightarrow> db \<Rightarrow> err + db" where
  "LinkAppRecords sha render targetID sourceID targetRevision sourceRevision audit now d =
     andthen (ensure (targetID \<noteq> sourceID) ErrAppLinkConflict) (\<lambda>_.
     andthen (lockAppRecord targetID targetRevision d) (\<lambda>target.
     andthen (lockAppRecord sourceID sourceRevision d) (\<lambda>source.
     andthen (ensureAppLinkPoliciesTx target source d) (\<lambda>_.
     andthen (ensure (\<not> list_ex (\<lambda>k. ref (connection_of k target) \<noteq> '''' \<and> ref (connection_of k source) \<noteq> '''') [Client, Launcher, System]) ErrAppLinkConflict) (\<lambda>_.
     let d1 = delete_apps (\<lambda>a. app_id a = sourceID) d;
         d2 = d1\<lparr>app_registry := sql_update (\<lambda>a. app_id a = targetID) (\<lambda>a. a\<lparr>app_client_id := pick (app_client_id target) (app_client_id source),
                app_launcher_id := pick (app_launcher_id target) (app_launcher_id source),
                app_system_id := pick (app_system_id target) (app_system_id source), app_revision := app_revision a + 1\<rparr>) (app_registry d1)\<rparr>
     in andthen (reconcileProvisioningTx sha now d2) (\<lambda>d3.
        recordAuditTx (appRegistryAudit audit (JObj [(''target'', render target), (''source'', render source)])) now d3))))))"

definition connection_named :: "string \<Rightarrow> connection option" where
  "connection_named kind = (if kind = ''client'' then Some Client else if kind = ''launcher'' then Some Launcher else if kind = ''system'' then Some System else None)"

text \<open>The settings and grants the new record takes over; a time-limited grant keeps its end date.\<close>

definition copy_grants :: "app_row \<Rightarrow> string \<Rightarrow> db \<Rightarrow> db" where
  "copy_grants a newID d =
     d\<lparr>app_registry := sql_update (\<lambda>x. app_id x = newID) (\<lambda>x. x\<lparr>app_access_mode := app_access_mode a, app_enabled := app_enabled a,
           app_authentication := app_authentication a, app_auth_revision := app_auth_revision a, app_legacy_role_claim := app_legacy_role_claim a,
           app_groups_claim := app_groups_claim a\<rparr>) (app_registry d),
       user_assignments := user_assignments d @ map (\<lambda>x. x\<lparr>ua_app_id := newID\<rparr>) (filter (\<lambda>x. ua_app_id x = app_id a) (user_assignments d)),
       group_assignments := group_assignments d @ map (\<lambda>x. x\<lparr>ga_app_id := newID\<rparr>) (filter (\<lambda>x. ga_app_id x = app_id a) (group_assignments d))\<rparr>"

definition UnlinkAppRecord :: "(string \<Rightarrow> string) \<Rightarrow> (app_row \<Rightarrow> json) \<Rightarrow> string \<Rightarrow> string \<Rightarrow> int \<Rightarrow> audit_event option \<Rightarrow> time \<Rightarrow> db \<Rightarrow> string tx" where
  "UnlinkAppRecord sha render i kind revision audit now d =
     (case connection_named kind of
        None \<Rightarrow> Inl ErrAppLinkConflict
      | Some k \<Rightarrow>
         andthen (lockAppRecord i revision d) (\<lambda>a.
         let count = length (filter (\<lambda>k. ref (connection_of k a) \<noteq> '''') [Client, Launcher, System])
         in andthen (ensure (\<not> (count < 2 \<or> ref (connection_of k a) = '''')) ErrAppLinkConflict) (\<lambda>_.
            let (newID, d1) = fresh_id d;
                d2 = d1\<lparr>app_registry := sql_update (\<lambda>x. app_id x = i) (\<lambda>x. set_connection k None (x\<lparr>app_revision := app_revision x + 1\<rparr>)) (app_registry d1)\<rparr>
            in andthen (insert_app (set_connection k (connection_of k a) (new_app newID)) d2) (\<lambda>d3.
               andthen (ensure (sql_count (\<lambda>r. ar_app_id r = i) (app_roles d3) = 0) ErrAppLinkConflict) (\<lambda>_.
               andthen (reconcileProvisioningTx sha now (copy_grants a newID d3)) (\<lambda>d4.
               andthen (recordAuditTx (appRegistryAudit audit (JObj [(''previous'', render a), (''connection'', JStr kind), (''newAppId'', JStr newID)])) now d4) (\<lambda>d5.
               Inr (newID, d5))))))))"

section \<open>Access policy and grants\<close>

definition mode_named :: "string \<Rightarrow> access_mode option" where
  "mode_named s = (if s = ''assigned_only'' then Some AssignedOnly else if s = ''all_active_users'' then Some AllActiveUsers else None)"

definition SetAppPolicy :: "(string \<Rightarrow> string) \<Rightarrow> (app_row \<Rightarrow> json) \<Rightarrow> string \<Rightarrow> string \<Rightarrow> bool \<Rightarrow> int \<Rightarrow> audit_event option \<Rightarrow> time \<Rightarrow> db \<Rightarrow> err + db" where
  "SetAppPolicy sha render i mode enabled revision audit now d =
     (case mode_named mode of
        None \<Rightarrow> Inl ErrAppLinkConflict
      | Some m \<Rightarrow>
         andthen (lockAppRecord i revision d) (\<lambda>before.
         andthen (revokeLostAppAccessTx now (d\<lparr>app_registry := sql_update (\<lambda>a. app_id a = i) (\<lambda>a. a\<lparr>app_access_mode := m, app_enabled := enabled,
             app_revision := app_revision a + 1\<rparr>) (app_registry d)\<rparr>)) (\<lambda>d1.
         andthen (reconcileProvisioningTx sha now d1) (\<lambda>d2.
         recordAuditTx (appRegistryAudit audit (JObj [(''before'', render before), (''accessMode'', JStr mode), (''enabled'', JBool enabled)])) now d2))))"

text \<open>The grant row, written or removed.\<close>

definition write_grant :: "principal_kind \<Rightarrow> string \<Rightarrow> string \<Rightarrow> bool \<Rightarrow> int option \<Rightarrow> db \<Rightarrow> db" where
  "write_grant k i whom assigned until d = (case k of
     Users \<Rightarrow>
      (let key = (\<lambda>x. ua_app_id x = i \<and> ua_user_id x = whom)
       in d\<lparr>user_assignments := (if \<not> assigned then sql_delete key (user_assignments d)
             else if \<exists>x \<in> set (user_assignments d). key x then sql_update key (\<lambda>x. x\<lparr>ua_expires_at := until\<rparr>) (user_assignments d)
             else sql_insert \<lparr>ua_app_id = i, ua_user_id = whom, ua_expires_at = until\<rparr> (user_assignments d))\<rparr>)
   | Groups \<Rightarrow>
      (let key = (\<lambda>x. ga_app_id x = i \<and> ga_group_id x = whom)
       in d\<lparr>group_assignments := (if \<not> assigned then sql_delete key (group_assignments d)
             else if \<exists>x \<in> set (group_assignments d). key x then group_assignments d
             else sql_insert \<lparr>ga_app_id = i, ga_group_id = whom\<rparr> (group_assignments d))\<rparr>))"

definition applyAppAssignmentTx :: "(string \<Rightarrow> string) \<Rightarrow> string \<Rightarrow> string \<Rightarrow> string \<Rightarrow> bool \<Rightarrow> time option \<Rightarrow> time \<Rightarrow> db \<Rightarrow> string tx" where
  "applyAppAssignmentTx sha i kind whom assigned expiresAt now d =
     (case principal_kind_of kind of
        None \<Rightarrow> Inl ErrAppLinkConflict
      | Some k \<Rightarrow>
         andthen (ensure (sql_count (\<lambda>a. app_id a = i) (app_registry d) = 1) ErrAppRecordMissing) (\<lambda>_.
         let d1 = bump_app i d
         in case principal_name k whom d1 of
              None \<Rightarrow> Inl ErrAppRecordMissing
            | Some name \<Rightarrow>
               andthen (revokeLostAppAccessTx now (write_grant k i whom assigned (map_option unixepoch expiresAt) d1)) (\<lambda>d2.
               andthen (reconcileProvisioningTx sha now d2) (\<lambda>d3. Inr (name, d3)))))"

definition setAppAssignment :: "(string \<Rightarrow> string) \<Rightarrow> (app_row \<Rightarrow> json) \<Rightarrow> string \<Rightarrow> string \<Rightarrow> string \<Rightarrow> bool \<Rightarrow> time option \<Rightarrow> audit_event option \<Rightarrow> time \<Rightarrow> db \<Rightarrow> err + db" where
  "setAppAssignment sha render i kind whom assigned expiresAt audit now d =
     andthen (applyAppAssignmentTx sha i kind whom assigned expiresAt now d) (\<lambda>(name, d1).
     andthen (GetAppRecord i d1) (\<lambda>app.
     recordAuditTx (appRegistryAudit audit (JObj [(''app'', render app), (''kind'', JStr kind), (''principalId'', JStr whom),
       (''principalName'', JStr name), (''assigned'', JBool assigned)])) now d1))"

definition SetAppAssignment :: "(string \<Rightarrow> string) \<Rightarrow> (app_row \<Rightarrow> json) \<Rightarrow> string \<Rightarrow> string \<Rightarrow> string \<Rightarrow> bool \<Rightarrow> audit_event option \<Rightarrow> time \<Rightarrow> db \<Rightarrow> err + db" where
  "SetAppAssignment sha render i kind whom assigned audit now d = setAppAssignment sha render i kind whom assigned None audit now d"

definition SetAppAssignmentUntil :: "(string \<Rightarrow> string) \<Rightarrow> (app_row \<Rightarrow> json) \<Rightarrow> string \<Rightarrow> string \<Rightarrow> string \<Rightarrow> time option \<Rightarrow> audit_event option \<Rightarrow> time \<Rightarrow> db \<Rightarrow> err + db" where
  "SetAppAssignmentUntil sha render i kind whom expiresAt audit now d =
     andthen (ensure (kind = ''users'' \<or> expiresAt = None) ErrAppLinkConflict) (\<lambda>_.
     andthen (checkExpiry expiresAt now) (\<lambda>_.
     setAppAssignment sha render i kind whom True expiresAt audit now d))"

section \<open>Who has access\<close>

record access_user =
  au_user :: user
  au_direct :: bool
  au_group_assigned :: bool
  au_effective :: bool
  au_preview :: bool
  au_reason :: string
  au_direct_expires_at :: "time option"

record access_users =
  aus_users :: "access_user list"
  aus_total :: nat
  aus_losing :: nat
  aus_gaining :: nat
  aus_app :: app_row

definition ListAppAccessUsers :: "string \<Rightarrow> string \<Rightarrow> string \<Rightarrow> bool option \<Rightarrow> nat \<Rightarrow> nat \<Rightarrow> time \<Rightarrow> db \<Rightarrow> err + access_users" where
  "ListAppAccessUsers i q previewMode previewEnabled limit offset now d =
     andthen (GetAppRecord i d) (\<lambda>app.
     let enabled = (case previewEnabled of None \<Rightarrow> app_enabled app | Some b \<Rightarrow> b)
     in case (if previewMode = '''' then Some (app_access_mode app) else mode_named previewMode) of
          None \<Rightarrow> Inl ErrAppLinkConflict
        | Some mode \<Rightarrow>
           (let facts = filter (\<lambda>f. af_app_id f = i) (app_access_facts now d);
                current = (\<lambda>f. appAllowedSQL (af_access_mode f) (af_enabled f) f);
                proposed = appAllowedSQL mode enabled;
                found = concat (map (\<lambda>u. map (\<lambda>f. (u, f)) (filter (\<lambda>f. af_user_id f = usr_id u) facts))
                  (filter (\<lambda>u. matches q (usr_username u) \<or> matches q (usr_display_name u)) (users d)))
            in Inr \<lparr>aus_users = map (\<lambda>(u, f). \<lparr>au_user = u, au_direct = af_direct f, au_group_assigned = af_group_assigned f, au_effective = current f,
                    au_preview = proposed f, au_reason = accessReasonSQL f,
                    au_direct_expires_at = (case sql_first (\<lambda>x. ua_app_id x = i \<and> ua_user_id x = usr_id u) (user_assignments d) of
                      None \<Rightarrow> None | Some x \<Rightarrow> map_option from_unix (ua_expires_at x))\<rparr>)
                  (page limit offset (order_pairs (\<lambda>p. nocase (usr_username (fst p))) (\<lambda>p. usr_id (fst p)) found)),
                aus_total = length found, aus_losing = sql_count (\<lambda>f. current f \<and> \<not> proposed f) facts,
                aus_gaining = sql_count (\<lambda>f. \<not> current f \<and> proposed f) facts, aus_app = app\<rparr>))"

definition ListAppAccessGroups :: "string \<Rightarrow> string \<Rightarrow> nat \<Rightarrow> nat \<Rightarrow> db \<Rightarrow> err + ((string \<times> string \<times> bool) list \<times> nat)" where
  "ListAppAccessGroups i q limit offset d =
     andthen (ensure (\<exists>a \<in> set (app_registry d). app_id a = i) ErrAppRecordMissing) (\<lambda>_.
     let found = filter (\<lambda>g. matches q (dg_name g)) (directory_groups d)
     in Inr (map (\<lambda>g. (dg_id g, dg_name g, \<exists>x \<in> set (group_assignments d). ga_app_id x = i \<and> ga_group_id x = dg_id g))
          (page limit offset (order_pairs (\<lambda>g. nocase (dg_name g)) dg_id found)), length found))"

section \<open>An edit of access settles what hangs on it\<close>

text \<open>The recorded states are keyed, and keep accounts and groups apart.\<close>

definition states_wf :: "db \<Rightarrow> bool" where
  "states_wf d \<longleftrightarrow> keyed_states d \<and> ids_apart d"

lemma states_wf_cong:
  assumes "sync_states d' = sync_states d" "users d' = users d" "directory_groups d' = directory_groups d"
  shows "states_wf d' = states_wf d"
  using assms by (simp add: states_wf_def keyed_states_def ids_apart_def)

lemma queue_user_wf:
  assumes q: "queueDesiredStateTx s now d = Inr d'" and wf: "states_wf d" and u: "ds_resource_id s \<in> usr_id ` set (users d)" and k: "ds_kind s = UserResource"
  shows "states_wf d'"
proof -
  let ?ok = "\<lambda>st. if ss_kind st = GroupResource then ss_resource_id st \<notin> usr_id ` set (users d) else ss_resource_id st \<notin> dg_id ` set (directory_groups d)"
  note f = queueDesiredStateTx_InrD[OF q]
  from f(1) have tabs: "users d' = users d" "directory_groups d' = directory_groups d" by (auto simp: sync_frame_def)
  have k': "keyed_states d'" using f(4) wf by (simp add: states_wf_def)
  from wf have old: "?ok st" if "st \<in> set (sync_states d)" for st using that unfolding states_wf_def ids_apart_def by blast
  from wf u have nog: "ds_resource_id s \<notin> dg_id ` set (directory_groups d)" unfolding states_wf_def ids_apart_def by blast
  have "?ok st" if st: "st \<in> set (sync_states d')" for st
  proof (cases "(ss_system_id st, ss_resource_id st) = (ds_system_id s, ds_resource_id s)")
    case False
    from state_of_row[OF k' st] have "state_of d' (ss_system_id st) (ss_resource_id st) = Some st" by simp
    with f(2)[of "ss_system_id st" "ss_resource_id st"] False have "state_of d (ss_system_id st) (ss_resource_id st) = Some st" by simp
    with state_of_SomeD old show ?thesis by blast
  next
    case True
    with state_of_row[OF k' st] have "state_of d' (ds_system_id s) (ds_resource_id s) = Some st" by simp
    with f(3) k have row: "queued_row s (state_of d (ds_system_id s) (ds_resource_id s)) st" by auto
    show ?thesis
    proof (cases "state_of d (ds_system_id s) (ds_resource_id s)")
      case None
      with row True nog k show ?thesis by (simp add: queued_row_def)
    next
      case (Some x)
      with row have "ss_kind st = ss_kind x" by (simp add: queued_row_def)
      moreover from state_of_SomeD[OF Some] have "x \<in> set (sync_states d)" "ss_resource_id x = ss_resource_id st" using True by simp_all
      moreover from old[OF this(1)] have "?ok x" .
      ultimately show ?thesis by (simp split: if_splits)
    qed
  qed
  with wf k' show ?thesis by (simp add: states_wf_def ids_apart_def tabs)
qed

lemma role_change_users_wf:
  assumes "role_change_users app us now d = Inr d'" and "states_wf d"
  shows "states_wf d'"
  using assms
proof (induction us arbitrary: d)
  case (Cons uid us)
  let ?d1 = "end_client_grants (ref (app_client_id app)) uid now d" and ?sys = "ref (app_system_id app)"
  have w1: "states_wf ?d1" using Cons.prems(2) states_wf_cong[of ?d1 d] by (simp add: end_client_grants_def)
  show ?case
  proof (cases "?sys = '''' \<or> \<not> role_profile_desired app uid now ?d1")
    case True
    with Cons.prems(1) Cons.IH[OF _ w1] show ?thesis by (auto simp: Let_def)
  next
    case False
    then obtain u where u: "user_by_id uid now ?d1 = Some u" using desired_role_user by blast
    from False have "uid \<in> usr_id ` set (users ?d1)" by (auto simp: role_profile_desired_def effective_app_access_iff)
    from Cons.prems(1) False u obtain body d2 where q: "queueDesiredStateTx (desired_user ?sys uid True body) now ?d1 = Inr d2" "role_change_users app us now d2 = Inr d'"
      by (auto simp: Let_def result_iffs)
    show ?thesis using Cons.IH[OF q(2) queue_user_wf[OF q(1) w1]] \<open>uid \<in> _\<close> by simp
  qed
qed simp

lemma roleChangeTx_wf: "roleChangeTx app us now d = Inr d' \<Longrightarrow> states_wf d \<Longrightarrow> states_wf d'"
  unfolding roleChangeTx_def by (erule role_change_users_wf) (simp add: states_wf_cong[of "d\<lparr>app_registry := _\<rparr>" d])

lemma roleChangeForAppsTx_wf:
  assumes "roleChangeForAppsTx apps us now d = Inr d'" "states_wf d"
  shows "states_wf d'"
proof (cases "us = []")
  case False
  with assms(1) have "each (\<lambda>app. roleChangeTx app us now) apps d = Inr d'" by (simp add: roleChangeForAppsTx_def)
  then show ?thesis using assms(2)
    by (induction apps arbitrary: d) (auto simp: andthen_Inr_iff dest: roleChangeTx_wf)
qed (use assms in \<open>simp add: roleChangeForAppsTx_def\<close>)

lemma write_membership_wf: "write_membership g uid m e now d = Inr (ch, d') \<Longrightarrow> states_wf d' = states_wf d"
  by (rule states_wf_cong)
     (auto simp: write_membership_def Let_def andthen_Inr_iff new_member_trigger_def split: if_splits option.splits)

lemma reconcileAccessTx_settles:
  assumes r: "reconcileAccessTx sha now d = Inr d1" and au: "recordAuditTx au now d1 = Inr d'" and wf: "states_wf d"
  shows "grants_reached now d' \<and> (\<forall>sys uid. system_enabled sys d' \<longrightarrow> held sys uid d' = system_access sys uid now d')"
proof -
  from r obtain d0 where s: "revokeLostAppAccessTx now d = Inr d0" and p: "reconcileProvisioningTx sha now d0 = Inr d1"
    by (auto simp: reconcileAccessTx_def andthen_Inr_iff)
  have "directory_groups d0 = directory_groups d" using revokeLostAppAccessTx_frame[OF s] by auto
  then have wf0: "keyed_states d0" "ids_apart d0" using wf states_wf_cong[of d0 d] sweep_reached(5,7)[OF s] by (simp_all add: states_wf_def)
  from au obtain es where d': "d' = d1\<lparr>audit_events := es\<rparr>" by (blast dest: recordAuditTx_InrD)
  have eff: "effective_app_access now d' = effective_app_access now d1" by (rule effective_app_access_cong) (simp_all add: d')
  have "system_enabled sys d' = system_enabled sys d1" "held sys uid d' = held sys uid d1" "system_access sys uid now d' = system_access sys uid now d1" for sys uid
    by (simp_all add: d' system_enabled_def held_def state_of_def system_access_def eff[unfolded d'])
  then show ?thesis using reconcile_in_step[OF p wf0] reconcileAccessTx_InrD(1)[OF r] audit_reached[OF au] by simp
qed

lemma revokeLost_reconcile: "andthen (revokeLostAppAccessTx now d) (\<lambda>d1. andthen (reconcileProvisioningTx sha now d1) k) = andthen (reconcileAccessTx sha now d) k"
  by (cases "revokeLostAppAccessTx now d") (simp_all add: reconcileAccessTx_def)

lemma SetAppPolicy_InrE:
  assumes "SetAppPolicy sha render i mode enabled revision audit now d = Inr d'"
  obtains m before au d1 where "mode_named mode = Some m" "lockAppRecord i revision d = Inr before"
    "reconcileAccessTx sha now (d\<lparr>app_registry := sql_update (\<lambda>a. app_id a = i) (\<lambda>a. a\<lparr>app_access_mode := m, app_enabled := enabled,
       app_revision := app_revision a + 1\<rparr>) (app_registry d)\<rparr>) = Inr d1" "recordAuditTx au now d1 = Inr d'"
  using assms unfolding SetAppPolicy_def revokeLost_reconcile by (auto simp: andthen_Inr_iff split: option.splits)

lemma setAppAssignment_InrE:
  assumes "setAppAssignment sha render i kind whom assigned expiresAt audit now d = Inr d'"
  obtains k au d1 where "principal_kind_of kind = Some k"
    "reconcileAccessTx sha now (write_grant k i whom assigned (map_option unixepoch expiresAt) (bump_app i d)) = Inr d1" "recordAuditTx au now d1 = Inr d'"
  using assms unfolding setAppAssignment_def applyAppAssignmentTx_def Let_def revokeLost_reconcile
  by (auto simp: andthen_Inr_iff split: option.splits)

lemma DeleteGroupForSession_InrE:
  assumes "DeleteGroupForSession sha i sid audit now d = Inr d'" and "states_wf d"
  obtains d2 au d1 where "states_wf d2" "reconcileAccessTx sha now d2 = Inr d1" "recordAuditTx au now d1 = Inr d'"
proof -
  from assms(1) obtain apps us dx d2 d1 au where x: "roleChangeForAppsTx apps us now (delete_group i dx) = Inr d2"
      and dx: "sync_states dx = sync_states d" "users dx = users d" "directory_groups dx = directory_groups d"
      and r: "reconcileAccessTx sha now d2 = Inr d1" "recordAuditTx au now d1 = Inr d'"
    unfolding DeleteGroupForSession_def deleteGroupTx_def Let_def revokeLost_reconcile
    by (auto simp: andthen_Inr_iff split: option.splits)
  have "states_wf (delete_group i dx)"
    using assms(2) dx distinct_sql_delete[of dg_id "directory_groups d"]
    by (auto simp: states_wf_def keyed_states_def ids_apart_def delete_group_def Let_def sql_delete_def)
  from that[OF roleChangeForAppsTx_wf[OF x this] r] show thesis .
qed

lemma setGroupMembership_InrE:
  assumes "setGroupMembership sha g uid member until sid audit now d = Inr d'" and "states_wf d"
  obtains d2 au d1 where "states_wf d2" "reconcileAccessTx sha now d2 = Inr d1" "recordAuditTx au now d1 = Inr d'"
proof -
  from assms(1) obtain names d2 d1 au where a: "applyGroupMembershipTx g uid member until sid now d = Inr (names, d2)"
      and r: "reconcileAccessTx sha now d2 = Inr d1" "recordAuditTx au now d1 = Inr d'"
    by (auto simp: setGroupMembership_def setGroupMembershipTx_def andthen_Inr_iff)
  from a obtain ch e1 e2 where w: "write_membership g uid member (map_option unixepoch until) now d = Inr (ch, e1)"
      and e2: "e2 = e1 \<or> e2 = invalidateUserEnrollmentTx uid now e1" and rc: "(if ch then groupRoleChangeTx g [uid] now e2 else Inr e2) = Inr d2"
    by (rule applyGroupMembershipTx_InrE)
  have "states_wf e2" using e2 write_membership_wf[OF w] assms(2) states_wf_cong[of e2 e1] by (auto simp: invalidateUserEnrollmentTx_def)
  then have "states_wf d2" using rc roleChangeForAppsTx_wf by (auto split: if_splits elim!: groupRoleChangeTx_InrE)
  from that[OF this r] show thesis .
qed

text \<open>The edits that decide who reaches an app.\<close>

inductive access_edit :: "time \<Rightarrow> db \<Rightarrow> db \<Rightarrow> bool" for now where
  policy: "SetAppPolicy sha render i mode enabled revision audit now d = Inr d' \<Longrightarrow> access_edit now d d'"
| assignment: "setAppAssignment sha render i kind whom assigned expiresAt audit now d = Inr d' \<Longrightarrow> access_edit now d d'"
| membership: "setGroupMembership sha g uid member until sid audit now d = Inr d' \<Longrightarrow> access_edit now d d'"
| group_deletion: "DeleteGroupForSession sha g sid audit now d = Inr d' \<Longrightarrow> access_edit now d d'"



section \<open>The preview of a policy\<close>

lemma app_facts:
  assumes "distinct (map app_id (app_registry d))" "a \<in> set (app_registry d)"
  shows "filter (\<lambda>f. af_app_id f = app_id a) (app_access_facts now d) = map (access_facts_row now d a) (users d)"
proof -
  have "filter (\<lambda>f. af_app_id f = app_id a) (concat (map (\<lambda>a. map (access_facts_row now d a) us) as)) =
      (if a \<in> set as then map (access_facts_row now d a) us else [])"
    if "distinct (map app_id as)" "\<And>b. b \<in> set as \<Longrightarrow> app_id b = app_id a \<Longrightarrow> b = a" for as us
    using that by (induction as) (auto simp: filter_map comp_def filter_empty_conv)
  from this[OF assms(1), of "users d"] assms key_unique[OF assms(1)] show ?thesis by (simp add: app_access_facts_def)
qed

text \<open>A row decides for itself, one identifier having one row.\<close>

lemma effective_row:
  assumes "distinct (map app_id (app_registry d))" "distinct (map usr_id (users d))" "a \<in> set (app_registry d)" "u \<in> set (users d)"
  shows "(app_id a, usr_id u) \<in> set (effective_app_access now d) \<longleftrightarrow> appAllowedSQL (app_access_mode a) (app_enabled a) (access_facts_row now d a u)"
  using key_unique[OF assms(1) _ assms(3)] key_unique[OF assms(2) _ assms(4)] assms(3,4) unfolding effective_app_access_iff by metis

lemma reconcileAccessTx_tables:
  assumes r: "reconcileAccessTx sha now d = Inr d1" and au: "recordAuditTx au now d1 = Inr d'"
  shows "effective_app_access t d' = effective_app_access t d"
proof -
  from r obtain d0 where s: "revokeLostAppAccessTx now d = Inr d0" and p: "reconcileProvisioningTx sha now d0 = Inr d1"
    by (auto simp: reconcileAccessTx_def andthen_Inr_iff)
  from revokeLostAppAccessTx_frame[OF s] have "effective_app_access t d0 = effective_app_access t d" by (auto intro!: effective_app_access_cong)
  moreover have "effective_app_access t d1 = effective_app_access t d0" using sync_frame_tables(7)[OF reconcileProvisioningTx_frame[OF p]] .
  moreover have "effective_app_access t d' = effective_app_access t d1" using recordAuditTx_InrD[OF au] by (auto intro!: effective_app_access_cong)
  ultimately show ?thesis by simp
qed

lemma policy_verdict:
  assumes "SetAppPolicy sha render i mode enabled revision audit now d = Inr d'" and keys: "distinct (map app_id (app_registry d))" "distinct (map usr_id (users d))"
    and a: "a \<in> set (app_registry d)" "app_id a = i" and u: "u \<in> set (users d)" and m: "mode_named mode = Some m"
  shows "(i, usr_id u) \<in> set (effective_app_access now d') \<longleftrightarrow> appAllowedSQL m enabled (access_facts_row now d a u)"
proof -
  let ?upd = "\<lambda>a. a\<lparr>app_access_mode := m, app_enabled := enabled, app_revision := app_revision a + 1\<rparr>"
  let ?d2 = "d\<lparr>app_registry := sql_update (\<lambda>a. app_id a = i) ?upd (app_registry d)\<rparr>"
  from assms(1) m obtain au d1 where "reconcileAccessTx sha now ?d2 = Inr d1" "recordAuditTx au now d1 = Inr d'" by (auto elim!: SetAppPolicy_InrE)
  then have eff: "effective_app_access now d' = effective_app_access now ?d2" by (rule reconcileAccessTx_tables)
  have k2: "distinct (map app_id (app_registry ?d2))" "distinct (map usr_id (users ?d2))" using keys by (simp_all add: map_sql_update)
  have "?upd a \<in> set (app_registry ?d2)" "u \<in> set (users ?d2)" using a u by (auto simp: sql_simps)
  from effective_row[OF k2 this, of now] a(2) show ?thesis unfolding eff by (simp add: appAllowedSQL_def access_facts_row_def live_group_memberships_def cong: option.case_cong)
qed

text \<open>
  The preview of a policy tells the truth: the accounts it counts as losing and as gaining access are exactly those
  that lose and gain it when the previewed policy is then set, and each account on the page is shown with the verdict it
  has now and the verdict it gets.
\<close>

theorem policy_preview_exact:
  assumes p: "SetAppPolicy sha render i mode enabled revision audit now d = Inr d'"
    and l: "ListAppAccessUsers i q mode (Some enabled) limit offset now d = Inr r"
    and keys: "distinct (map app_id (app_registry d))" "distinct (map usr_id (users d))"
  shows "aus_losing r = length (filter (\<lambda>u. (i, usr_id u) \<in> set (effective_app_access now d) \<and> (i, usr_id u) \<notin> set (effective_app_access now d')) (users d)) \<and>
    aus_gaining r = length (filter (\<lambda>u. (i, usr_id u) \<notin> set (effective_app_access now d) \<and> (i, usr_id u) \<in> set (effective_app_access now d')) (users d)) \<and>
    (\<forall>x \<in> set (aus_users r). au_effective x = ((i, usr_id (au_user x)) \<in> set (effective_app_access now d)) \<and>
      au_preview x = ((i, usr_id (au_user x)) \<in> set (effective_app_access now d')))"
proof -
  from p obtain m where m: "mode_named mode = Some m" by (rule SetAppPolicy_InrE)
  then have ne: "mode \<noteq> ''''" by (auto simp: mode_named_def)
  from l obtain a where "GetAppRecord i d = Inr a" by (auto simp: ListAppAccessUsers_def andthen_Inr_iff)
  then have get: "GetAppRecord i d = Inr a" and a: "a \<in> set (app_registry d)" "app_id a = i" by (auto simp: GetAppRecord_def split: option.splits dest: find_SomeD)
  have facts: "filter (\<lambda>f. af_app_id f = i) (app_access_facts now d) = map (access_facts_row now d a) (users d)" using app_facts[OF keys(1) a(1)] a(2) by simp
  have before: "appAllowedSQL (app_access_mode a) (app_enabled a) (access_facts_row now d a u) \<longleftrightarrow> (i, usr_id u) \<in> set (effective_app_access now d)"
    if "u \<in> set (users d)" for u using effective_row[OF keys a(1) that] a(2) by simp
  note after = policy_verdict[OF p keys a _ m, symmetric]
  let ?cur = "\<lambda>f. appAllowedSQL (af_access_mode f) (af_enabled f) f" and ?new = "appAllowedSQL m enabled"
  note parts = l[unfolded ListAppAccessUsers_def get andthen_simps Let_def m facts, simplified ne, simplified]
  have "aus_losing r = sql_count (\<lambda>f. ?cur f \<and> \<not> ?new f) (map (access_facts_row now d a) (users d))" using parts by (auto simp: m)
  then have 1: "aus_losing r = length (filter (\<lambda>u. (i, usr_id u) \<in> set (effective_app_access now d) \<and> (i, usr_id u) \<notin> set (effective_app_access now d')) (users d))"
    by (auto simp: sql_count_def filter_map comp_def before after intro!: arg_cong[where f = length] filter_cong)
  have "aus_gaining r = sql_count (\<lambda>f. \<not> ?cur f \<and> ?new f) (map (access_facts_row now d a) (users d))" using parts by (auto simp: m)
  then have 2: "aus_gaining r = length (filter (\<lambda>u. (i, usr_id u) \<notin> set (effective_app_access now d) \<and> (i, usr_id u) \<in> set (effective_app_access now d')) (users d))"
    by (auto simp: sql_count_def filter_map comp_def before after intro!: arg_cong[where f = length] filter_cong)
  have 3: "\<forall>x \<in> set (aus_users r). au_effective x = ((i, usr_id (au_user x)) \<in> set (effective_app_access now d)) \<and>
      au_preview x = ((i, usr_id (au_user x)) \<in> set (effective_app_access now d'))"
  proof
    fix x assume "x \<in> set (aus_users r)"
    with parts obtain u v where uv: "u \<in> set (users d)" "v \<in> set (users d)" "usr_id v = usr_id u"
        "au_user x = u" "au_effective x = ?cur (access_facts_row now d a v)" "au_preview x = ?new (access_facts_row now d a v)"
      by (auto simp: page_def m dest!: in_set_takeD in_set_dropD)
    with key_unique[OF keys(2) uv(2,1,3)] before after show "au_effective x = ((i, usr_id (au_user x)) \<in> set (effective_app_access now d)) \<and>
      au_preview x = ((i, usr_id (au_user x)) \<in> set (effective_app_access now d'))" by simp
  qed
  from 1 2 3 show ?thesis by (intro conjI)
qed

theorem policy_preview_exact_witness:
  "\<exists>r d'. ListAppAccessUsers ''a1'' '''' ''assigned_only'' (Some False) 50 0 sample_now connector_db = Inr r \<and> aus_losing r = 1 \<and>
     SetAppPolicy id (\<lambda>_. JNull) ''a1'' ''assigned_only'' False 1 None sample_now connector_db = Inr d' \<and>
     length (filter (\<lambda>u. (''a1'', usr_id u) \<in> set (effective_app_access sample_now connector_db) \<and> (''a1'', usr_id u) \<notin> set (effective_app_access sample_now d')) (users connector_db)) = 1"
proof -
  let ?p = "SetAppPolicy id (\<lambda>_. JNull) ''a1'' ''assigned_only'' False 1 None sample_now connector_db"
  let ?l = "ListAppAccessUsers ''a1'' '''' ''assigned_only'' (Some False) 50 0 sample_now connector_db"
  have "\<not> isl ?p" "\<not> isl ?l" "aus_losing (projr ?l) = 1" by code_simp+
  then obtain d' r where r: "?p = Inr d'" "?l = Inr r" "aus_losing r = 1" by (auto dest!: succeeds)
  have w: "distinct (map app_id (app_registry connector_db))" "distinct (map usr_id (users connector_db))" by code_simp+
  from policy_preview_exact[OF r(1,2) w] r show ?thesis by (intro exI[of _ r] exI[of _ d']) simp
qed

section \<open>Unlinking\<close>

text \<open>Grants belong to a registered app.\<close>

definition grants_refer :: "db \<Rightarrow> bool" where
  "grants_refer d \<longleftrightarrow> ua_app_id ` set (user_assignments d) \<subseteq> app_id ` set (app_registry d) \<and> ga_app_id ` set (group_assignments d) \<subseteq> app_id ` set (app_registry d)"

lemma reaches_client_row:
  assumes "distinct (map app_id (app_registry d))"
  shows "reaches_client now d uid c \<longleftrightarrow> (\<exists>a \<in> set (app_registry d). app_client_id a = Some c \<and>
    (\<exists>u \<in> set (users d). usr_id u = uid \<and> appAllowedSQL (app_access_mode a) (app_enabled a) (access_facts_row now d a u)))"
proof
  assume "reaches_client now d uid c"
  then obtain a where a: "a \<in> set (app_registry d)" "app_client_id a = Some c" "(app_id a, uid) \<in> set (effective_app_access now d)"
    by (auto simp: reaches_client_def)
  from a(3) obtain b u where b: "b \<in> set (app_registry d)" "app_id b = app_id a" "u \<in> set (users d)" "usr_id u = uid"
    "appAllowedSQL (app_access_mode b) (app_enabled b) (access_facts_row now d b u)" by (auto simp: effective_app_access_iff)
  with key_unique[OF assms b(1) a(1) b(2)] a(1,2) show "\<exists>a \<in> set (app_registry d). app_client_id a = Some c \<and>
    (\<exists>u \<in> set (users d). usr_id u = uid \<and> appAllowedSQL (app_access_mode a) (app_enabled a) (access_facts_row now d a u))" by blast
next
  assume "\<exists>a \<in> set (app_registry d). app_client_id a = Some c \<and>
    (\<exists>u \<in> set (users d). usr_id u = uid \<and> appAllowedSQL (app_access_mode a) (app_enabled a) (access_facts_row now d a u))"
  then obtain a u where "a \<in> set (app_registry d)" "app_client_id a = Some c" "u \<in> set (users d)" "usr_id u = uid"
    "appAllowedSQL (app_access_mode a) (app_enabled a) (access_facts_row now d a u)" by blast
  then show "reaches_client now d uid c" unfolding reaches_client_def by (intro bexI[of _ "(app_id a, uid)"] bexI[of _ a]) (auto simp: effective_app_access_iff)
qed

lemma set_connection_simps [simp]:
  "app_id (set_connection k v a) = app_id a" "app_access_mode (set_connection k v a) = app_access_mode a" "app_enabled (set_connection k v a) = app_enabled a"
  "app_client_id (set_connection k v a) = (if k = Client then v else app_client_id a)"
  by (cases k; simp add: set_connection_def)+

lemma set_sql_update_parts: "set (sql_update p f l) = f ` {x \<in> set l. p x} \<union> {x \<in> set l. \<not> p x}"
  by (induction l) auto

text \<open>The registry rows of a split record: the old one without the connection, the new one with it and with the old settings.\<close>

definition split_old :: "connection \<Rightarrow> app_row \<Rightarrow> app_row" where
  "split_old k a = set_connection k None (a\<lparr>app_revision := app_revision a + 1\<rparr>)"

definition split_new :: "connection \<Rightarrow> string \<Rightarrow> app_row \<Rightarrow> app_row" where
  "split_new k newID a = (set_connection k (connection_of k a) (new_app newID))\<lparr>app_access_mode := app_access_mode a, app_enabled := app_enabled a,
     app_authentication := app_authentication a, app_auth_revision := app_auth_revision a, app_legacy_role_claim := app_legacy_role_claim a,
     app_groups_claim := app_groups_claim a\<rparr>"

lemma UnlinkAppRecord_InrE:
  assumes "UnlinkAppRecord sha render i kind revision audit now d = Inr (newID, d')"
  obtains k a d3 d4 au where "connection_named kind = Some k" "a \<in> set (app_registry d)" "app_id a = i" "newID \<notin> app_id ` set (app_registry d)"
    "app_registry d3 = sql_update (\<lambda>x. app_id x = i) (split_old k) (app_registry d) @ [split_new k newID a]"
    "d3 = d\<lparr>rand_pos := rand_pos d3, app_registry := app_registry d3,
       user_assignments := user_assignments d @ map (\<lambda>x. x\<lparr>ua_app_id := newID\<rparr>) (filter (\<lambda>x. ua_app_id x = i) (user_assignments d)),
       group_assignments := group_assignments d @ map (\<lambda>x. x\<lparr>ga_app_id := newID\<rparr>) (filter (\<lambda>x. ga_app_id x = i) (group_assignments d))\<rparr>"
    "reconcileProvisioningTx sha now d3 = Inr d4" "recordAuditTx au now d4 = Inr d'"
proof -
  from assms obtain k where k: "connection_named kind = Some k" by (auto simp: UnlinkAppRecord_def split: option.splits)
  from assms k obtain a where l: "lockAppRecord i revision d = Inr a" by (auto simp: UnlinkAppRecord_def andthen_Inr_iff)
  then have a: "a \<in> set (app_registry d)" "app_id a = i" by (auto simp: lockAppRecord_def split: option.splits if_splits dest: find_SomeD)
  define reg where "reg = sql_update (\<lambda>x. app_id x = i) (split_old k) (app_registry d)"
  define dm where "dm = d\<lparr>rand_pos := Suc (rand_pos d), app_registry := reg\<rparr>"
  from assms k l obtain dn d4 au where n: "newID = rand_src d (rand_pos d)"
      and ins: "insert_app (set_connection k (connection_of k a) (new_app newID)) dm = Inr dn"
      and r: "reconcileProvisioningTx sha now (copy_grants a newID dn) = Inr d4" "recordAuditTx au now d4 = Inr d'"
    by (auto simp: UnlinkAppRecord_def andthen_Inr_iff fresh_id_def Let_def dm_def reg_def split_old_def[abs_def])
  from ins have dn: "dn = dm\<lparr>app_registry := sql_insert (set_connection k (connection_of k a) (new_app newID)) reg\<rparr>"
    and new: "newID \<notin> app_id ` set reg" by (auto simp: insert_app_def Let_def andthen_Inr_iff dm_def new_app_def)
  have "map app_id reg = map app_id (app_registry d)" unfolding reg_def by (rule map_sql_update) (simp add: split_old_def)
  then have ids: "app_id ` set reg = app_id ` set (app_registry d)" by (metis set_map)
  let ?d3 = "copy_grants a newID dn"
  have "app_registry ?d3 = reg @ [split_new k newID a]"
    using new by (auto simp: copy_grants_def dn sql_update_def sql_insert_def split_new_def new_app_def intro!: map_idI)
  moreover have "?d3 = d\<lparr>rand_pos := rand_pos ?d3, app_registry := app_registry ?d3,
       user_assignments := user_assignments d @ map (\<lambda>x. x\<lparr>ua_app_id := newID\<rparr>) (filter (\<lambda>x. ua_app_id x = i) (user_assignments d)),
       group_assignments := group_assignments d @ map (\<lambda>x. x\<lparr>ga_app_id := newID\<rparr>) (filter (\<lambda>x. ga_app_id x = i) (group_assignments d))\<rparr>"
    by (simp add: copy_grants_def dn dm_def a(2))
  ultimately show thesis using that[OF k a _ _ _ r] new ids by (simp add: reg_def)
qed

lemma split_facts:
  assumes d3: "d3 = d\<lparr>rand_pos := p, app_registry := g,
       user_assignments := user_assignments d @ map (\<lambda>x. x\<lparr>ua_app_id := newID\<rparr>) (filter (\<lambda>x. ua_app_id x = i) (user_assignments d)),
       group_assignments := group_assignments d @ map (\<lambda>x. x\<lparr>ga_app_id := newID\<rparr>) (filter (\<lambda>x. ga_app_id x = i) (group_assignments d))\<rparr>"
    and fr: "grants_refer d" "newID \<notin> app_id ` set (app_registry d)"
  shows "af_active (access_facts_row now d3 b u) = af_active (access_facts_row now d b u)"
    "af_client_enabled (access_facts_row now d3 b u) = af_client_enabled (access_facts_row now d b u)"
    "app_id b \<in> app_id ` set (app_registry d) \<Longrightarrow> af_direct (access_facts_row now d3 b u) = af_direct (access_facts_row now d b u)"
    "app_id b \<in> app_id ` set (app_registry d) \<Longrightarrow> af_group_assigned (access_facts_row now d3 b u) = af_group_assigned (access_facts_row now d b u)"
    "app_id b = newID \<Longrightarrow> app_id a = i \<Longrightarrow> af_direct (access_facts_row now d3 b u) = af_direct (access_facts_row now d a u)"
    "app_id b = newID \<Longrightarrow> app_id a = i \<Longrightarrow> af_group_assigned (access_facts_row now d3 b u) = af_group_assigned (access_facts_row now d a u)"
proof -
  have m: "live_group_memberships now d3 = live_group_memberships now d" by (simp add: d3 live_group_memberships_def)
  have tabs: "user_assignments d3 = user_assignments d @ map (\<lambda>x. x\<lparr>ua_app_id := newID\<rparr>) (filter (\<lambda>x. ua_app_id x = i) (user_assignments d))"
    "group_assignments d3 = group_assignments d @ map (\<lambda>x. x\<lparr>ga_app_id := newID\<rparr>) (filter (\<lambda>x. ga_app_id x = i) (group_assignments d))"
    by (simp_all add: d3)
  from fr have new: "x \<in> set (user_assignments d) \<Longrightarrow> ua_app_id x \<noteq> newID" "y \<in> set (group_assignments d) \<Longrightarrow> ga_app_id y \<noteq> newID" for x y
    by (auto simp: grants_refer_def)
  show "af_active (access_facts_row now d3 b u) = af_active (access_facts_row now d b u)" by (simp add: access_facts_row_def)
  show "af_client_enabled (access_facts_row now d3 b u) = af_client_enabled (access_facts_row now d b u)" by (simp add: access_facts_row_def d3 cong: option.case_cong)
  { assume "app_id b \<in> app_id ` set (app_registry d)"
    with fr(2) have "app_id b \<noteq> newID" by blast
    then show "af_direct (access_facts_row now d3 b u) = af_direct (access_facts_row now d b u)"
      "af_group_assigned (access_facts_row now d3 b u) = af_group_assigned (access_facts_row now d b u)" by (auto simp: access_facts_row_def m tabs) }
  { assume "app_id b = newID" "app_id a = i"
    then show "af_direct (access_facts_row now d3 b u) = af_direct (access_facts_row now d a u)"
      "af_group_assigned (access_facts_row now d3 b u) = af_group_assigned (access_facts_row now d a u)" by (auto simp: access_facts_row_def m tabs bex_Un dest: new) }
qed

text \<open>
  Taking a connection off an app's record gives it a record of its own without changing who signs in where: after
  the split every account reaches exactly the clients it reached before, through the old record or through the copy of
  its policy and its grants.
\<close>

theorem unlink_keeps_client_access:
  assumes "UnlinkAppRecord sha render i kind revision audit now d = Inr (newID, d')" and keys: "distinct (map app_id (app_registry d))" and fr: "grants_refer d"
  shows "reaches_client t d' = reaches_client t d"
proof (intro ext)
  fix uid c
  from assms(1) obtain k a d3 d4 au where a: "a \<in> set (app_registry d)" "app_id a = i" and new: "newID \<notin> app_id ` set (app_registry d)"
    and reg: "app_registry d3 = sql_update (\<lambda>x. app_id x = i) (split_old k) (app_registry d) @ [split_new k newID a]"
    and d3: "d3 = d\<lparr>rand_pos := rand_pos d3, app_registry := app_registry d3,
       user_assignments := user_assignments d @ map (\<lambda>x. x\<lparr>ua_app_id := newID\<rparr>) (filter (\<lambda>x. ua_app_id x = i) (user_assignments d)),
       group_assignments := group_assignments d @ map (\<lambda>x. x\<lparr>ga_app_id := newID\<rparr>) (filter (\<lambda>x. ga_app_id x = i) (group_assignments d))\<rparr>"
    and r: "reconcileProvisioningTx sha now d3 = Inr d4" "recordAuditTx au now d4 = Inr d'"
    by (rule UnlinkAppRecord_InrE)
  let ?ok = "\<lambda>d a u. appAllowedSQL (app_access_mode a) (app_enabled a) (access_facts_row t d a u)"
  have same: "reaches_client t d' = reaches_client t d4" using recordAuditTx_InrD[OF r(2)] by (auto intro!: reaches_client_cong)
  have same': "reaches_client t d4 = reaches_client t d3" by (simp add: fun_eq_iff reaches_client_def sync_frame_tables[OF reconcileProvisioningTx_frame[OF r(1)]])
  have ids: "map app_id (sql_update (\<lambda>x. app_id x = i) (split_old k) (app_registry d)) = map app_id (app_registry d)"
    by (rule map_sql_update) (simp add: split_old_def)
  have k3: "distinct (map app_id (app_registry d3))" using keys new by (simp add: reg ids split_new_def new_app_def)
  note f = split_facts[OF d3 fr new, where now = t]
  have us: "users d3 = users d" by (subst d3) simp
  have rest: "?ok d3 b u = ?ok d b u" if "b \<in> set (app_registry d)" for b u using f(1-4)[of b u] that by (simp add: appAllowedSQL_def)
  have "app_id (split_old k a) \<in> app_id ` set (app_registry d)" using a by (auto simp: split_old_def)
  note f' = f(3,4)[OF this]
  have old: "?ok d3 (split_old k a) u = ?ok d a u" if "k \<noteq> Client" for u
    using f(1,2)[of "split_old k a" u] f'[of u] a that by (simp add: appAllowedSQL_def split_old_def access_facts_row_def)
  have moved: "?ok d3 (split_new k newID a) u = ?ok d a u" if "k = Client" for u
    using f(1,2)[of "split_new k newID a" u] f(5,6)[of "split_new k newID a" a u] a that
    by (simp add: appAllowedSQL_def split_new_def new_app_def access_facts_row_def connection_of_def)
  have cl: "app_client_id (split_old k a) = (if k = Client then None else app_client_id a)"
    "app_client_id (split_new k newID a) = (if k = Client then app_client_id a else None)"
    by (simp_all add: split_old_def split_new_def new_app_def connection_of_def)
  have "b = a" if "b \<in> set (app_registry d)" "app_id b = i" for b using key_unique[OF keys that(1) a(1)] that(2) a(2) by simp
  then have "{x \<in> set (app_registry d). app_id x = i} = {a}" "{x \<in> set (app_registry d). app_id x \<noteq> i} = set (app_registry d) - {a}" using a by blast+
  then have rows: "set (app_registry d3) = insert (split_new k newID a) (insert (split_old k a) (set (app_registry d) - {a}))" by (simp add: reg set_sql_update_parts)
  let ?via = "\<lambda>d' b. app_client_id b = Some c \<and> (\<exists>u \<in> set (users d). usr_id u = uid \<and> ?ok d' b u)"
  have "(\<exists>b \<in> set (app_registry d) - {a}. ?via d3 b) = (\<exists>b \<in> set (app_registry d) - {a}. ?via d b)"
    by (rule bex_cong[OF refl]) (simp add: rest)
  moreover have "?via d3 (split_new k newID a) \<or> ?via d3 (split_old k a) \<longleftrightarrow> ?via d a"
  proof (cases "k = Client")
    case True
    from moved[OF True] show ?thesis unfolding cl using True by simp
  next
    case False
    from old[OF False] show ?thesis unfolding cl using False by simp
  qed
  ultimately have "(\<exists>b \<in> set (app_registry d3). ?via d3 b) \<longleftrightarrow> (\<exists>b \<in> insert a (set (app_registry d) - {a}). ?via d b)"
    unfolding rows bex_simps(5) by argo
  then show "reaches_client t d' uid c = reaches_client t d uid c"
    using a(1) by (simp add: same same' reaches_client_row[OF k3] reaches_client_row[OF keys] us insert_absorb)
qed

theorem unlink_keeps_client_access_witness:
  "\<exists>newID d'. UnlinkAppRecord id (\<lambda>_. JNull) ''a1'' ''client'' 1 None sample_now connector_db = Inr (newID, d') \<and>
     reaches_client sample_now connector_db ''u1'' ''c1'' \<and> reaches_client sample_now d' ''u1'' ''c1'' \<and>
     map app_client_id (app_registry d') = [None, Some ''c1'']"
proof -
  let ?r = "UnlinkAppRecord id (\<lambda>_. JNull) ''a1'' ''client'' 1 None sample_now connector_db"
  have "\<not> isl ?r" "map app_client_id (app_registry (snd (projr ?r))) = [None, Some ''c1'']" by code_simp+
  then obtain n d' where r: "?r = Inr (n, d')" "map app_client_id (app_registry d') = [None, Some ''c1'']" by (cases ?r) auto
  have w: "distinct (map app_id (app_registry connector_db))" "grants_refer connector_db" "reaches_client sample_now connector_db ''u1'' ''c1''" by code_simp+
  from unlink_keeps_client_access[OF r(1) w(1,2), of sample_now] w(3) r show ?thesis by (intro exI[of _ n] exI[of _ d']) simp
qed

end
