(* ===== verification/Ky_Requests.thy ===== *)
theory Ky_Requests
  imports Ky_Registry
begin

text \<open>
  Access requests (\<^verbatim>\<open>internal/store/access_requests.go\<close>): which apps are open to them, how one is filed, withdrawn,
  decided and expired. An approval writes an ordinary direct assignment through the path of a manual grant.
  \<open>launchers\<close> is the id and name of every launcher entry, read for the name an app is shown with.
\<close>

section \<open>Operations\<close>

definition maxPendingRequests :: nat where "maxPendingRequests = 5"

definition MaxRequestDuration :: duration where "MaxRequestDuration = 90 * 24 * hour"

definition requestTTL :: duration where "requestTTL = 14 * 24 * hour"

definition maxReasonLength :: nat where "maxReasonLength = 500"

record request_view =
  rv_request :: access_request
  rv_app_name :: string
  rv_username :: string

record requestable_app =
  ra_app_id :: string
  ra_name :: string
  ra_pending :: bool

text \<open>The name an app is shown with: that of its launcher entry, its client or its connector, the first that is not empty.\<close>

definition appDisplayName :: "(string \<times> string) list \<Rightarrow> db \<Rightarrow> app_row \<Rightarrow> string" where
  "appDisplayName launchers d a =
     (let l = (case app_launcher_id a of None \<Rightarrow> '''' | Some i \<Rightarrow> ref (map_of launchers i));
          c = (case app_client_id a of None \<Rightarrow> '''' | Some i \<Rightarrow> ref (map_option oc_client_name (GetOAuthClientByID i d)));
          s = (case app_system_id a of None \<Rightarrow> '''' | Some i \<Rightarrow> ref (map_option ps_name (GetPairedSystemByID i d)))
      in if l \<noteq> '''' then l else if c \<noteq> '''' then c else if s \<noteq> '''' then s else app_id a)"

definition SetAppRequestable :: "string \<Rightarrow> bool \<Rightarrow> int \<Rightarrow> audit_event option \<Rightarrow> time \<Rightarrow> db \<Rightarrow> err + db" where
  "SetAppRequestable i requestable revision audit now d =
     andthen (lockAppRecord i revision d) (\<lambda>before.
     recordAuditTx (appRegistryAudit audit (JObj [(''app'', JStr (app_id before)), (''requestable'', JBool requestable)])) now
       (d\<lparr>app_registry := sql_update (\<lambda>a. app_id a = i) (\<lambda>a. a\<lparr>app_requestable := requestable, app_revision := app_revision a + 1\<rparr>) (app_registry d)\<rparr>))"

definition open_to_requests :: "app_row \<Rightarrow> bool" where
  "open_to_requests a \<longleftrightarrow> app_requestable a \<and> app_enabled a \<and> app_access_mode a = AssignedOnly"

definition pending_for :: "string \<Rightarrow> string \<Rightarrow> access_request \<Rightarrow> bool" where
  "pending_for appID userID r \<longleftrightarrow> rq_app_id r = appID \<and> rq_user_id r = userID \<and> rq_status r = RqPending"

definition RequestableApps :: "(string \<times> string) list \<Rightarrow> string \<Rightarrow> time \<Rightarrow> db \<Rightarrow> requestable_app list" where
  "RequestableApps launchers userID now d =
     order_pairs (nocase \<circ> ra_name) ra_app_id
       (map (\<lambda>a. \<lparr>ra_app_id = app_id a, ra_name = appDisplayName launchers d a, ra_pending = (\<exists>r \<in> set (access_requests d). pending_for (app_id a) userID r)\<rparr>)
         (filter (\<lambda>a. open_to_requests a \<and> (app_id a, userID) \<notin> set (effective_app_access now d)) (app_registry d)))"

definition CreateAccessRequest :: "(string \<times> string) list \<Rightarrow> string \<Rightarrow> string \<Rightarrow> string \<Rightarrow> duration \<Rightarrow> audit_event option \<Rightarrow> time \<Rightarrow> db \<Rightarrow> request_view tx" where
  "CreateAccessRequest launchers userID appID reason0 duration audit now d =
     (let reason = TrimSpace reason0
      in andthen (ensure (\<not> (reason = '''' \<or> length reason > maxReasonLength \<or> duration < 0 \<or> duration > MaxRequestDuration)) ErrAppLinkConflict) (\<lambda>_.
         let (i, d1) = fresh_id d;
             req = \<lparr>rq_id = i, rq_app_id = appID, rq_user_id = userID, rq_reason = reason, rq_duration_seconds = duration div second, rq_status = RqPending,
               rq_created_at = now, rq_expires_at = unixepoch (now + requestTTL), rq_decided_at = None, rq_decided_by = '''', rq_decision_note = ''''\<rparr>
         in case sql_first (\<lambda>a. app_id a = appID) (app_registry d1) of
              None \<Rightarrow> Inl ErrAppNotRequestable
            | Some a \<Rightarrow>
               andthen (ensure (open_to_requests a) ErrAppNotRequestable) (\<lambda>_.
               andthen (ensure ((appID, userID) \<notin> set (effective_app_access now d1)) ErrAlreadyHasAccess) (\<lambda>_.
               andthen (ensure (sql_count (\<lambda>r. rq_user_id r = userID \<and> rq_status r = RqPending) (access_requests d1) < maxPendingRequests) ErrTooManyRequests) (\<lambda>_.
               andthen (ensure (\<not> (\<exists>r \<in> set (access_requests d1). rq_id r = i \<or> pending_for appID userID r)) ErrDuplicateRequest) (\<lambda>_.
               andthen (ensure (\<exists>u \<in> set (users d1). usr_id u = userID) ErrForeignKey) (\<lambda>_.
               andthen (recordAuditTx (appRegistryAudit audit (JObj [(''requestId'', JStr i), (''app'', JStr appID), (''durationSeconds'', JNum (duration div second))])) now
                 (d1\<lparr>access_requests := sql_insert req (access_requests d1)\<rparr>)) (\<lambda>d2.
               Inr (\<lparr>rv_request = req, rv_app_name = appDisplayName launchers d1 a, rv_username = ''''\<rparr>, d2)))))))))"

definition CancelAccessRequest :: "string \<Rightarrow> string \<Rightarrow> audit_event option \<Rightarrow> time \<Rightarrow> db \<Rightarrow> err + db" where
  "CancelAccessRequest i userID audit now d =
     (let mine = (\<lambda>r. rq_id r = i \<and> rq_user_id r = userID \<and> rq_status r = RqPending)
      in andthen (ensure (sql_count mine (access_requests d) = 1) ErrRequestNotPending) (\<lambda>_.
         recordAuditTx (appRegistryAudit audit (JObj [(''requestId'', JStr i)])) now
           (d\<lparr>access_requests := sql_update mine (\<lambda>r. r\<lparr>rq_status := RqCancelled, rq_decided_at := Some now\<rparr>) (access_requests d)\<rparr>)))"

section \<open>Decisions\<close>

definition active_admin :: "time \<Rightarrow> user \<Rightarrow> bool" where
  "active_admin now u \<longleftrightarrow> usr_role u = RoleAdmin \<and> usr_status u = Active \<and> live_until (usr_ends_at u) now"

text \<open>The authority over an app's requests: a global administrator who can act, or an owner of the app who can.\<close>

definition may_decide :: "string \<Rightarrow> string \<Rightarrow> time \<Rightarrow> db \<Rightarrow> bool" where
  "may_decide actorID appID now d \<longleftrightarrow>
     (\<exists>u \<in> set (users d). usr_id u = actorID \<and> active_admin now u) \<or>
     (\<exists>x \<in> set (admin_delegations d). \<exists>u \<in> set (users d). usr_id u = de_user_id x \<and> de_user_id x = actorID \<and> de_kind x = AppOwner \<and>
        de_app_id x = Some appID \<and> usr_status u = Active \<and> live_until (usr_ends_at u) now)"

definition request_view_of :: "(string \<times> string) list \<Rightarrow> db \<Rightarrow> access_request \<Rightarrow> request_view option" where
  "request_view_of launchers d r =
     (case (sql_first (\<lambda>u. usr_id u = rq_user_id r) (users d), sql_first (\<lambda>a. app_id a = rq_app_id r) (app_registry d)) of
        (Some u, Some a) \<Rightarrow> Some \<lparr>rv_request = r, rv_app_name = appDisplayName launchers d a, rv_username = usr_username u\<rparr>
      | _ \<Rightarrow> None)"

definition ListAccessRequests :: "(string \<times> string) list \<Rightarrow> string \<Rightarrow> string \<Rightarrow> request_status option \<Rightarrow> nat \<Rightarrow> nat \<Rightarrow> time \<Rightarrow> db \<Rightarrow> request_view list \<times> nat" where
  "ListAccessRequests launchers userID actorID status limit offset now d =
     (let chosen = (\<lambda>r. (userID \<noteq> '''' \<longrightarrow> rq_user_id r = userID) \<and>
            (actorID \<noteq> '''' \<longrightarrow> (\<exists>u \<in> set (users d). usr_id u = actorID \<and> active_admin now u) \<or>
               (\<exists>x \<in> set (admin_delegations d). de_user_id x = actorID \<and> de_kind x = AppOwner \<and> de_app_id x = Some (rq_app_id r))) \<and>
            (case status of None \<Rightarrow> True | Some s \<Rightarrow> rq_status r = s \<and> (s = RqPending \<longrightarrow> rq_expires_at r > unixepoch now)));
          found = filter chosen (access_requests d)
      in (page limit offset (List.map_filter (request_view_of launchers d) (sort_key (\<lambda>r. - rq_created_at r) (sort_key rq_id found))), length found))"

text \<open>The end date an approval asks for.\<close>

definition requested_until :: "time \<Rightarrow> access_request \<Rightarrow> int option" where
  "requested_until now r = (if rq_duration_seconds r > 0 then Some (unixepoch (now + wrap64 (rq_duration_seconds r * second))) else None)"

text \<open>The direct grant already there lives at least as long.\<close>

definition keeps_grant :: "int option \<Rightarrow> user_assignment option \<Rightarrow> bool" where
  "keeps_grant until current = (case current of None \<Rightarrow> False | Some x \<Rightarrow>
     (case ua_expires_at x of None \<Rightarrow> True | Some v \<Rightarrow> (case until of None \<Rightarrow> False | Some w \<Rightarrow> v \<ge> w)))"

definition approve_request :: "(string \<Rightarrow> string) \<Rightarrow> access_request \<Rightarrow> time \<Rightarrow> db \<Rightarrow> err + db" where
  "approve_request sha r now d =
     (case sql_first (\<lambda>a. app_id a = rq_app_id r) (app_registry d) of
        None \<Rightarrow> Inl ErrNoRows
      | Some a \<Rightarrow>
         andthen (ensure (open_to_requests a) ErrAppNotRequestable) (\<lambda>_.
         let until = requested_until now r
         in if keeps_grant until (sql_first (\<lambda>x. ua_app_id x = rq_app_id r \<and> ua_user_id x = rq_user_id r) (user_assignments d)) then Inr d
            else andthen (applyAppAssignmentTx sha (rq_app_id r) ''users'' (rq_user_id r) True (map_option from_unix until) now d) (\<lambda>(_, d1). Inr d1)))"

definition status_name :: "request_status \<Rightarrow> string" where
  "status_name s = (case s of RqPending \<Rightarrow> ''pending'' | RqApproved \<Rightarrow> ''approved'' | RqDenied \<Rightarrow> ''denied'' | RqCancelled \<Rightarrow> ''cancelled'' | RqExpired \<Rightarrow> ''expired'')"

text \<open>An overdue request is refused; the status the code writes for it goes with the rollback.\<close>

definition DecideAccessRequest :: "(string \<Rightarrow> string) \<Rightarrow> (string \<times> string) list \<Rightarrow> string \<Rightarrow> string \<Rightarrow> bool \<Rightarrow> string \<Rightarrow> audit_event option \<Rightarrow> time \<Rightarrow> db \<Rightarrow> request_view tx" where
  "DecideAccessRequest sha launchers i actorID approve note0 audit now d =
     (let note = TrimSpace note0
      in andthen (ensure (length note \<le> maxReasonLength) ErrAppLinkConflict) (\<lambda>_.
         case sql_first (\<lambda>r. rq_id r = i \<and> rq_status r = RqPending) (access_requests d) of
           None \<Rightarrow> Inl ErrRequestNotPending
         | Some r \<Rightarrow>
            (case request_view_of launchers d r of
               None \<Rightarrow> Inl ErrNoRows
             | Some v \<Rightarrow>
                andthen (ensure (from_unix (rq_expires_at r) > now) ErrRequestNotPending) (\<lambda>_.
                andthen (ensure (rq_user_id r \<noteq> actorID) ErrSelfApproval) (\<lambda>_.
                andthen (ensure (may_decide actorID (rq_app_id r) now d) ErrCannotDecide) (\<lambda>_.
                andthen (if approve then approve_request sha r now d else Inr d) (\<lambda>d1.
                let status = (if approve then RqApproved else RqDenied);
                    decide = (\<lambda>x. x\<lparr>rq_status := status, rq_decided_at := Some now, rq_decided_by := actorID, rq_decision_note := note\<rparr>)
                in andthen (recordAuditTx (appRegistryAudit audit (JObj [(''requestId'', JStr i), (''app'', JStr (rq_app_id r)), (''userId'', JStr (rq_user_id r)),
                     (''status'', JStr (status_name status)), (''durationSeconds'', JNum (rq_duration_seconds r))])) now
                     (d1\<lparr>access_requests := sql_update (\<lambda>x. rq_id x = i) decide (access_requests d1)\<rparr>)) (\<lambda>d2.
                   Inr (v\<lparr>rv_request := decide r\<rparr>, d2)))))))))"

definition expireAccessRequestsTx :: "time \<Rightarrow> db \<Rightarrow> db" where
  "expireAccessRequestsTx now d = d\<lparr>access_requests := sql_update (\<lambda>r. rq_status r = RqPending \<and> rq_expires_at r \<le> unixepoch now)
     (\<lambda>r. r\<lparr>rq_status := RqExpired, rq_decided_at := Some now\<rparr>) (access_requests d)\<rparr>"

section \<open>What a decision does\<close>

text \<open>An end date that lasts at least as long as another.\<close>

definition covers :: "int option \<Rightarrow> int option \<Rightarrow> bool" where
  "covers e f = (case e of None \<Rightarrow> True | Some v \<Rightarrow> (case f of None \<Rightarrow> False | Some w \<Rightarrow> w \<le> v))"

lemma covers_refl [simp]: "covers e e"
  by (simp add: covers_def split: option.split)

abbreviation grant_key :: "user_assignment \<Rightarrow> string \<times> string" where
  "grant_key x \<equiv> (ua_app_id x, ua_user_id x)"

lemma unixepoch_from_unix [simp]: "unixepoch (from_unix v) = v"
  by (simp add: unixepoch_def from_unix_def)

lemma applyAppAssignmentTx_InrE:
  assumes "applyAppAssignmentTx sha i kind whom assigned expiresAt now d = Inr (name, d')"
  obtains k where "principal_kind_of kind = Some k"
    "user_assignments d' = user_assignments (write_grant k i whom assigned (map_option unixepoch expiresAt) d)" "access_requests d' = access_requests d"
proof -
  from assms obtain k where k: "principal_kind_of kind = Some k" by (auto simp: applyAppAssignmentTx_def split: option.splits)
  let ?w = "write_grant k i whom assigned (map_option unixepoch expiresAt) (bump_app i d)"
  from assms k obtain d2 where s: "revokeLostAppAccessTx now ?w = Inr d2" and p: "reconcileProvisioningTx sha now d2 = Inr d'"
    by (auto simp: applyAppAssignmentTx_def Let_def andthen_Inr_iff split: option.splits)
  from reconcileProvisioningTx_frame[OF p] revokeLostAppAccessTx_frame[OF s]
  have "user_assignments d' = user_assignments ?w" "access_requests d' = access_requests ?w" by (auto simp: sync_frame_def)
  moreover have "user_assignments (bump_app i d) = user_assignments d" "access_requests (bump_app i d) = access_requests d" by (simp_all add: bump_app_def)
  ultimately show thesis using that[OF k] by (cases k) (simp_all add: write_grant_def Let_def cong: if_cong)
qed

lemma approve_request_InrE:
  assumes a: "approve_request sha r now d = Inr d'" and keys: "distinct (map grant_key (user_assignments d))"
  shows "\<exists>a \<in> set (app_registry d). app_id a = rq_app_id r \<and> open_to_requests a"
    and "access_requests d' = access_requests d"
    and "\<exists>x \<in> set (user_assignments d'). grant_key x = (rq_app_id r, rq_user_id r) \<and> covers (ua_expires_at x) (requested_until now r) \<and>
      (\<forall>y \<in> set (user_assignments d). grant_key y = grant_key x \<longrightarrow> covers (ua_expires_at x) (ua_expires_at y))"
    and "grant_key x \<noteq> (rq_app_id r, rq_user_id r) \<Longrightarrow> x \<in> set (user_assignments d') \<longleftrightarrow> x \<in> set (user_assignments d)"
proof -
  let ?k = "(rq_app_id r, rq_user_id r)" and ?until = "requested_until now r"
  let ?cur = "sql_first (\<lambda>x. ua_app_id x = rq_app_id r \<and> ua_user_id x = rq_user_id r) (user_assignments d)"
  from a obtain app where "sql_first (\<lambda>a. app_id a = rq_app_id r) (app_registry d) = Some app" "open_to_requests app"
    by (auto simp: approve_request_def andthen_Inr_iff split: option.splits)
  then show "\<exists>a \<in> set (app_registry d). app_id a = rq_app_id r \<and> open_to_requests a" by (blast dest: find_SomeD)
  have row: "?cur = Some y" if "y \<in> set (user_assignments d)" "grant_key y = ?k" for y
    using find_key_eq[OF keys that(1)] that(2) by (auto simp: prod_eq_iff)
  have "access_requests d' = access_requests d \<and> (\<exists>x \<in> set (user_assignments d'). grant_key x = ?k \<and> covers (ua_expires_at x) ?until \<and>
      (\<forall>y \<in> set (user_assignments d). grant_key y = ?k \<longrightarrow> covers (ua_expires_at x) (ua_expires_at y))) \<and>
      (\<forall>x. grant_key x \<noteq> ?k \<longrightarrow> x \<in> set (user_assignments d') \<longleftrightarrow> x \<in> set (user_assignments d))"
  proof (cases "keeps_grant ?until ?cur")
    case True
    then obtain x where x: "?cur = Some x" "covers (ua_expires_at x) ?until" by (auto simp: keeps_grant_def covers_def split: option.splits)
    from True a have "d' = d" by (auto simp: approve_request_def andthen_Inr_iff split: option.splits)
    moreover from find_SomeD[OF x(1)] have "x \<in> set (user_assignments d)" "grant_key x = ?k" by auto
    moreover have "covers (ua_expires_at x) (ua_expires_at y)" if "y \<in> set (user_assignments d)" "grant_key y = ?k" for y
      using row[OF that] x(1) by simp
    ultimately show ?thesis using x(2) by blast
  next
    case False
    with a obtain n where n: "applyAppAssignmentTx sha (rq_app_id r) ''users'' (rq_user_id r) True (map_option from_unix ?until) now d = Inr (n, d')"
      by (auto simp: approve_request_def andthen_Inr_iff split: option.splits)
    have "map_option unixepoch (map_option from_unix ?until) = ?until" by (cases ?until) simp_all
    with n have ua: "user_assignments d' = user_assignments (write_grant Users (rq_app_id r) (rq_user_id r) True ?until d)" and rq: "access_requests d' = access_requests d"
      by (auto elim!: applyAppAssignmentTx_InrE simp: principal_kind_of_def)
    have "covers ?until (ua_expires_at y)" if "y \<in> set (user_assignments d)" "grant_key y = ?k" for y
      using False row[OF that] by (auto simp: keeps_grant_def covers_def split: option.splits)
    then show ?thesis using rq by (auto simp: ua write_grant_def Let_def sql_simps split: if_splits)
  qed
  then show "access_requests d' = access_requests d" "\<exists>x \<in> set (user_assignments d'). grant_key x = ?k \<and> covers (ua_expires_at x) ?until \<and>
      (\<forall>y \<in> set (user_assignments d). grant_key y = grant_key x \<longrightarrow> covers (ua_expires_at x) (ua_expires_at y))"
    "grant_key x \<noteq> ?k \<Longrightarrow> x \<in> set (user_assignments d') \<longleftrightarrow> x \<in> set (user_assignments d)" by auto
qed


lemma update_sets: "x \<in> set (sql_update p f l) \<Longrightarrow> p x \<Longrightarrow> (\<And>y. Q (f y)) \<Longrightarrow> Q x"
  by (induction l) (auto split: if_splits)

lemma DecideAccessRequest_InrE:
  assumes "DecideAccessRequest sha launchers i actor approve note audit now d = Inr (v, d')"
  obtains r d1 au where "r \<in> set (access_requests d)" "rq_id r = i" "rq_status r = RqPending" "now < from_unix (rq_expires_at r)" "rq_user_id r \<noteq> actor"
    "may_decide actor (rq_app_id r) now d" "(if approve then approve_request sha r now d else Inr d) = Inr d1"
    "recordAuditTx au now (d1\<lparr>access_requests := sql_update (\<lambda>x. rq_id x = i) (\<lambda>x. x\<lparr>rq_status := if approve then RqApproved else RqDenied,
       rq_decided_at := Some now, rq_decided_by := actor, rq_decision_note := TrimSpace note\<rparr>) (access_requests d1)\<rparr>) = Inr d'"
proof -
  from assms obtain r where r: "sql_first (\<lambda>r. rq_id r = i \<and> rq_status r = RqPending) (access_requests d) = Some r"
    by (auto simp: DecideAccessRequest_def Let_def andthen_Inr_iff split: option.splits)
  from assms r obtain w where w: "request_view_of launchers d r = Some w"
    by (auto simp: DecideAccessRequest_def Let_def andthen_Inr_iff split: option.splits)
  from assms r w obtain d1 au where "now < from_unix (rq_expires_at r)" "rq_user_id r \<noteq> actor" "may_decide actor (rq_app_id r) now d"
    "(if approve then approve_request sha r now d else Inr d) = Inr d1"
    "recordAuditTx au now (d1\<lparr>access_requests := sql_update (\<lambda>x. rq_id x = i) (\<lambda>x. x\<lparr>rq_status := if approve then RqApproved else RqDenied,
       rq_decided_at := Some now, rq_decided_by := actor, rq_decision_note := TrimSpace note\<rparr>) (access_requests d1)\<rparr>) = Inr d'"
    by (auto simp: DecideAccessRequest_def Let_def andthen_Inr_iff)
  with that find_SomeD[OF r] show thesis by blast
qed

text \<open>
  C29. A request is decided by someone else, with authority, in time, and once: the decision means the request was pending
  and not overdue, the decider is not the requester and is a global administrator or an owner of that app who can still
  act; the request is settled, so a further decision of it is refused. An approval means the app is open to requests, and
  leaves the requester a direct grant that lasts at least as long as was asked and at least as long as any direct grant
  there was; a refusal writes no grant; and nobody else's direct grant is touched.
\<close>

theorem request_decision_means:
  assumes "DecideAccessRequest sha launchers i actor approve note audit now d = Inr (v, d')" and keys: "distinct (map grant_key (user_assignments d))"
  shows "\<exists>r \<in> set (access_requests d). rq_id r = i \<and> rq_status r = RqPending \<and> now < from_unix (rq_expires_at r) \<and>
    rq_user_id r \<noteq> actor \<and> may_decide actor (rq_app_id r) now d \<and>
    (\<forall>sha' ls' actor' ap' n' au' t. \<not> (\<exists>y. DecideAccessRequest sha' ls' i actor' ap' n' au' t d' = Inr y)) \<and>
    (if approve then (\<exists>a \<in> set (app_registry d). app_id a = rq_app_id r \<and> open_to_requests a) \<and>
       (\<exists>x \<in> set (user_assignments d'). grant_key x = (rq_app_id r, rq_user_id r) \<and> covers (ua_expires_at x) (requested_until now r) \<and>
         (\<forall>y \<in> set (user_assignments d). grant_key y = grant_key x \<longrightarrow> covers (ua_expires_at x) (ua_expires_at y)))
     else user_assignments d' = user_assignments d) \<and>
    (\<forall>x. grant_key x \<noteq> (rq_app_id r, rq_user_id r) \<longrightarrow> x \<in> set (user_assignments d') \<longleftrightarrow> x \<in> set (user_assignments d))"
proof -
  from assms(1) obtain r d1 au where r: "r \<in> set (access_requests d)" "rq_id r = i" "rq_status r = RqPending" "now < from_unix (rq_expires_at r)"
      "rq_user_id r \<noteq> actor" "may_decide actor (rq_app_id r) now d" and ap: "(if approve then approve_request sha r now d else Inr d) = Inr d1"
      and au: "recordAuditTx au now (d1\<lparr>access_requests := sql_update (\<lambda>x. rq_id x = i) (\<lambda>x. x\<lparr>rq_status := if approve then RqApproved else RqDenied,
       rq_decided_at := Some now, rq_decided_by := actor, rq_decision_note := TrimSpace note\<rparr>) (access_requests d1)\<rparr>) = Inr d'"
    by (rule DecideAccessRequest_InrE)
  let ?done = "sql_update (\<lambda>x. rq_id x = i) (\<lambda>x. x\<lparr>rq_status := if approve then RqApproved else RqDenied,
       rq_decided_at := Some now, rq_decided_by := actor, rq_decision_note := TrimSpace note\<rparr>) (access_requests d1)"
  from recordAuditTx_InrD[OF au] obtain es where "d' = d1\<lparr>access_requests := ?done, audit_events := es\<rparr>" by blast
  then have ua: "user_assignments d' = user_assignments d1" and rq: "access_requests d' = ?done" by simp_all
  have once: "\<not> (\<exists>y. DecideAccessRequest sha' ls' i actor' ap' n' au' t d' = Inr y)" for sha' ls' actor' ap' n' au' t
  proof
    assume "\<exists>y. DecideAccessRequest sha' ls' i actor' ap' n' au' t d' = Inr y"
    then obtain v2 d2 where "DecideAccessRequest sha' ls' i actor' ap' n' au' t d' = Inr (v2, d2)" by auto
    then obtain x where x: "x \<in> set (access_requests d')" "rq_id x = i" "rq_status x = RqPending" by (rule DecideAccessRequest_InrE)
    from x(1,2)[unfolded rq] have "rq_status x \<noteq> RqPending" by (rule update_sets) simp
    with x(3) show False by simp
  qed
  show ?thesis
  proof (cases approve)
    case True
    with ap have "approve_request sha r now d = Inr d1" by simp
    note a = approve_request_InrE[OF this keys]
    from a(1,3,4) True once r show ?thesis by (intro bexI[OF _ r(1)] conjI allI impI) (simp_all add: ua)
  next
    case False
    with ap have "d1 = d" by simp
    with False once r show ?thesis by (intro bexI[OF _ r(1)] conjI allI impI) (simp_all add: ua)
  qed
qed


text \<open>The administrator of the sample approves a month for an account that may not decide for itself.\<close>

definition sample_request :: access_request where
  "sample_request = \<lparr>rq_id = ''q1'', rq_app_id = ''a1'', rq_user_id = ''u1'', rq_reason = ''audit'', rq_duration_seconds = 2592000, rq_status = RqPending,
     rq_created_at = 0, rq_expires_at = 1209600, rq_decided_at = None, rq_decided_by = '''', rq_decision_note = ''''\<rparr>"

definition request_db :: db where
  "request_db = sample_db\<lparr>app_registry := [sample_app\<lparr>app_requestable := True, app_access_mode := AssignedOnly\<rparr>], user_assignments := [], access_requests := [sample_request]\<rparr>"

theorem request_decision_means_witness:
  "\<exists>v d'. DecideAccessRequest id [] ''q1'' ''u0'' True ''ok'' None sample_now request_db = Inr (v, d') \<and>
     may_decide ''u0'' ''a1'' sample_now request_db \<and> (\<exists>x \<in> set (user_assignments d'). covers (ua_expires_at x) (requested_until sample_now sample_request))"
proof -
  let ?r = "DecideAccessRequest id [] ''q1'' ''u0'' True ''ok'' None sample_now request_db"
  have "\<not> isl ?r" by code_simp
  then obtain v d' where r: "?r = Inr (v, d')" by (auto dest!: succeeds)
  have w: "distinct (map grant_key (user_assignments request_db))" by code_simp
  have q: "set (access_requests request_db) = {sample_request}" by (simp add: request_db_def)
  from request_decision_means[OF r w] show ?thesis
    unfolding q using r by (auto simp: sample_request_def)
qed

section \<open>Open requests stay few\<close>

lemma count_update_le: "(\<And>x. x \<in> set t \<Longrightarrow> q x \<Longrightarrow> P (f x) \<Longrightarrow> P x) \<Longrightarrow> sql_count P (sql_update q f t) \<le> sql_count P t"
  by (induction t) (auto simp: le_SucI)

lemma count_delete_le: "sql_count P (sql_delete q t) \<le> sql_count P t"
  by (induction t) auto

lemma count_insert: "sql_count P (sql_insert x t) = sql_count P t + (if P x then 1 else 0)"
  by (simp add: sql_insert_def sql_count_def)

text \<open>
  The life of the requests table: requests are filed, withdrawn, decided and expired, an app is opened or closed, and rows
  go with their account or their app.
\<close>

inductive request_step :: "db \<Rightarrow> db \<Rightarrow> bool" where
  filed: "CreateAccessRequest launchers userID appID reason duration audit now d = Inr (v, d') \<Longrightarrow> request_step d d'"
| withdraw: "CancelAccessRequest i userID audit now d = Inr d' \<Longrightarrow> request_step d d'"
| decide: "DecideAccessRequest sha launchers i actor approve note audit now d = Inr (v, d') \<Longrightarrow> request_step d d'"
| expire: "request_step d (expireAccessRequestsTx now d)"
| open_close: "SetAppRequestable i requestable revision audit now d = Inr d' \<Longrightarrow> request_step d d'"
| cascade: "access_requests d' = sql_delete p (access_requests d) \<Longrightarrow> request_step d d'"

definition requests_bounded :: "db \<Rightarrow> bool" where
  "requests_bounded d \<longleftrightarrow> (\<forall>u. sql_count (\<lambda>r. rq_user_id r = u \<and> rq_status r = RqPending) (access_requests d) \<le> maxPendingRequests) \<and>
     (\<forall>a u. sql_count (pending_for a u) (access_requests d) \<le> 1) \<and> distinct (map rq_id (access_requests d))"

text \<open>A step that settles or drops requests keeps the bounds.\<close>

definition fewer_pending :: "access_request list \<Rightarrow> access_request list \<Rightarrow> bool" where
  "fewer_pending t t' \<longleftrightarrow> (\<forall>P. sql_count (\<lambda>r. P (rq_app_id r) (rq_user_id r) \<and> rq_status r = RqPending) t' \<le>
     sql_count (\<lambda>r. P (rq_app_id r) (rq_user_id r) \<and> rq_status r = RqPending) t) \<and> (distinct (map rq_id t) \<longrightarrow> distinct (map rq_id t'))"

lemma fewer_pending_bounded:
  assumes "fewer_pending (access_requests d) (access_requests d')" "requests_bounded d"
  shows "requests_bounded d'"
proof -
  note le = assms(1)[unfolded fewer_pending_def, THEN conjunct1, rule_format]
  have "sql_count (\<lambda>r. rq_user_id r = u \<and> rq_status r = RqPending) (access_requests d') \<le> maxPendingRequests" for u
    using le[of "\<lambda>_ x. x = u"] assms(2) unfolding requests_bounded_def by (meson order_trans)
  moreover have "sql_count (pending_for a u) (access_requests d') \<le> 1" for a u
    using le[of "\<lambda>x y. x = a \<and> y = u"] assms(2) unfolding requests_bounded_def pending_for_def conj_assoc by (meson order_trans)
  ultimately show ?thesis using assms unfolding requests_bounded_def fewer_pending_def by blast
qed

lemma settle_fewer:
  assumes "\<And>r. rq_id (f r) = rq_id r" "\<And>r. q r \<Longrightarrow> rq_status (f r) \<noteq> RqPending"
  shows "fewer_pending t (sql_update q f t)"
  unfolding fewer_pending_def using assms by (auto intro!: count_update_le simp: map_sql_update)

lemma file_bounded:
  assumes c: "CreateAccessRequest launchers userID appID reason duration audit now d = Inr (v, d')" and b: "requests_bounded d"
  shows "requests_bounded d'"
proof -
  have few: "sql_count (\<lambda>r. rq_user_id r = userID \<and> rq_status r = RqPending) (access_requests d) < maxPendingRequests"
      and none: "\<not> (\<exists>r \<in> set (access_requests d). rq_id r = rq_id (rv_request v) \<or> pending_for appID userID r)"
      and req: "rq_app_id (rv_request v) = appID" "rq_user_id (rv_request v) = userID" and ins: "access_requests d' = sql_insert (rv_request v) (access_requests d)"
    using c by (auto simp: CreateAccessRequest_def Let_def fresh_id_def andthen_Inr_iff split: option.splits dest!: recordAuditTx_InrD)
  have "sql_count (pending_for appID userID) (access_requests d) = 0" using none by (simp add: sql_count_def filter_empty_conv)
  with few none req b show ?thesis
    unfolding requests_bounded_def ins count_insert by (auto simp: pending_for_def sql_insert_def Suc_le_eq)
qed

lemma request_step_bounded:
  assumes "request_step d d'" "requests_bounded d"
  shows "requests_bounded d'"
  using assms(1)
proof cases
  case filed
  with assms(2) show ?thesis by (rule file_bounded[rotated])
next
  case (withdraw i userID audit now)
  then have "fewer_pending (access_requests d) (access_requests d')"
    by (auto simp: CancelAccessRequest_def Let_def andthen_Inr_iff intro!: settle_fewer dest!: recordAuditTx_InrD)
  with assms(2) show ?thesis by (rule fewer_pending_bounded[rotated])
next
  case (decide sha launchers i actor approve nt audit now v)
  then obtain r d1 au where ap: "(if approve then approve_request sha r now d else Inr d) = Inr d1"
    and au: "recordAuditTx au now (d1\<lparr>access_requests := sql_update (\<lambda>x. rq_id x = i) (\<lambda>x. x\<lparr>rq_status := if approve then RqApproved else RqDenied,
       rq_decided_at := Some now, rq_decided_by := actor, rq_decision_note := TrimSpace nt\<rparr>) (access_requests d1)\<rparr>) = Inr d'"
    by (rule DecideAccessRequest_InrE)
  have "access_requests d1 = access_requests d" using ap
    by (auto simp: approve_request_def andthen_Inr_iff Let_def elim!: applyAppAssignmentTx_InrE split: if_splits option.splits)
  with recordAuditTx_InrD[OF au] have "fewer_pending (access_requests d) (access_requests d')" by (auto intro!: settle_fewer)
  with assms(2) show ?thesis by (rule fewer_pending_bounded[rotated])
next
  case (expire now)
  have "fewer_pending (access_requests d) (access_requests d')" unfolding expire by (auto simp: expireAccessRequestsTx_def intro!: settle_fewer)
  with assms(2) show ?thesis by (rule fewer_pending_bounded[rotated])
next
  case open_close
  then have "access_requests d' = access_requests d" by (auto simp: SetAppRequestable_def andthen_Inr_iff dest!: recordAuditTx_InrD)
  with assms(2) show ?thesis by (simp add: requests_bounded_def)
next
  case (cascade p)
  then have "fewer_pending (access_requests d) (access_requests d')" by (simp add: fewer_pending_def count_delete_le distinct_sql_delete)
  with assms(2) show ?thesis by (rule fewer_pending_bounded[rotated])
qed

text \<open>
  Requests cannot pile up: in every state the requests table can reach, whatever is filed, withdrawn, decided and
  expired in between, an account has at most five open requests and at most one open request per app.
\<close>

theorem open_requests_bounded:
  assumes "request_step\<^sup>*\<^sup>* d d'" and "access_requests d = []"
  shows "sql_count (\<lambda>r. rq_user_id r = u \<and> rq_status r = RqPending) (access_requests d') \<le> 5 \<and> sql_count (pending_for a u) (access_requests d') \<le> 1"
proof -
  have "requests_bounded d" using assms(2) by (simp add: requests_bounded_def)
  with assms(1) have "requests_bounded d'" by (induction rule: rtranclp_induct) (auto intro: request_step_bounded)
  then show ?thesis by (simp add: requests_bounded_def maxPendingRequests_def)
qed

theorem open_requests_bounded_witness:
  "\<exists>v d'. CreateAccessRequest [] ''u1'' ''a1'' ''audit'' 0 None sample_now (request_db\<lparr>access_requests := []\<rparr>) = Inr (v, d') \<and>
     sql_count (pending_for ''a1'' ''u1'') (access_requests d') = 1"
proof -
  let ?d = "request_db\<lparr>access_requests := []\<rparr>"
  let ?r = "CreateAccessRequest [] ''u1'' ''a1'' ''audit'' 0 None sample_now ?d"
  have e: "\<not> isl ?r" "sql_count (pending_for ''a1'' ''u1'') (access_requests (snd (projr ?r))) \<ge> 1" by code_simp+
  then obtain v d' where r: "?r = Inr (v, d')" by (auto dest!: succeeds)
  with e(2) have "1 \<le> sql_count (pending_for ''a1'' ''u1'') (access_requests d')" by simp
  moreover have "sql_count (pending_for ''a1'' ''u1'') (access_requests d') \<le> 1"
    using open_requests_bounded[OF r_into_rtranclp[of request_step, OF request_step.filed[OF r]]] by simp
  ultimately show ?thesis using r by (intro exI[of _ v] exI[of _ d']) simp
qed

end
