(* ===== verification/Ky_Accounts.thy ===== *)
theory Ky_Accounts
  imports Ky_Requests
begin

text \<open>
  Accounts: creation, the one update transaction, deletion and the last-administrator rule (\<^verbatim>\<open>internal/store/store.go\<close>,
  \<^verbatim>\<open>expiry.go\<close>), offboarding (\<^verbatim>\<open>offboarding.go\<close>), disabling from the command line (\<^verbatim>\<open>disable_user.go\<close>), activation and
  reset links and the change of a password (\<^verbatim>\<open>onboarding.go\<close>), delegated administration (\<^verbatim>\<open>delegations.go\<close>), and the
  removal of an account's factors. \<open>sha\<close> is SHA-256, \<open>EqualFold\<close> the case-insensitive comparison of \<^verbatim>\<open>strings\<close>, \<open>edit\<close>
  the closure a caller of \<open>EditUser\<close> passes.
\<close>

section \<open>Creation and reading\<close>

text \<open>The identifier, the username and the address of an account are unique, the last two without case.\<close>

definition user_clash :: "user \<Rightarrow> user \<Rightarrow> bool" where
  "user_clash u x \<longleftrightarrow> usr_id x = usr_id u \<or> nocase (usr_username x) = nocase (usr_username u) \<or> nocase (usr_email x) = nocase (usr_email u)"

definition insert_user :: "user \<Rightarrow> time \<Rightarrow> db \<Rightarrow> err + db" where
  "insert_user u now d =
     andthen (ensure (\<not> (\<exists>x \<in> set (users d). user_clash u x)) ErrUnique) (\<lambda>_.
     Inr (user_deadlines_trigger (usr_id u) now (d\<lparr>users := sql_insert (u\<lparr>usr_email_verified_at := None, usr_source_connector_id := None, usr_external_id := None,
       usr_source_active := True, usr_locally_disabled := False, usr_ends_at := None, usr_created_at := now, usr_updated_at := now\<rparr>) (users d)\<rparr>)))"

definition CreateUser :: "user \<Rightarrow> time \<Rightarrow> db \<Rightarrow> err + db" where
  "CreateUser u now d = insert_user u now d"

definition CreateUserWithSyncEvents :: "(string \<Rightarrow> string) \<Rightarrow> user \<Rightarrow> audit_event option \<Rightarrow> time \<Rightarrow> db \<Rightarrow> err + db" where
  "CreateUserWithSyncEvents sha u audit now d =
     andthen (case insert_user u now d of Inl e \<Rightarrow> Inl ErrUserConflict | Inr d1 \<Rightarrow> Inr d1) (\<lambda>d1.
     andthen (reconcileProvisioningTx sha now d1) (\<lambda>d2. recordAuditTx audit now d2))"

definition GetUserByID :: "string \<Rightarrow> time \<Rightarrow> db \<Rightarrow> user option" where
  "GetUserByID i now d = user_by_id i now d"

definition GetUserByUsername :: "string \<Rightarrow> time \<Rightarrow> db \<Rightarrow> user option" where
  "GetUserByUsername name now d = map_option (scanUser now) (sql_first (\<lambda>u. nocase (usr_username u) = nocase name) (users d))"

definition GetUserByEmail :: "string \<Rightarrow> time \<Rightarrow> db \<Rightarrow> user option" where
  "GetUserByEmail email now d = map_option (scanUser now) (sql_first (\<lambda>u. nocase (usr_email u) = nocase email) (users d))"

definition ListUsers :: "time \<Rightarrow> db \<Rightarrow> user list" where
  "ListUsers now d = map (scanUser now) (sort_key (nocase \<circ> usr_username) (users d))"

definition CountAdmins :: "time \<Rightarrow> db \<Rightarrow> nat" where
  "CountAdmins now d = sql_count (active_admin now) (users d)"

section \<open>The last administrator\<close>

definition permanent_admin :: "user \<Rightarrow> bool" where
  "permanent_admin u \<longleftrightarrow> usr_role u = RoleAdmin \<and> usr_status u = Active \<and> usr_ends_at u = None"

definition requirePermanentAdminTx :: "(user \<Rightarrow> bool) \<Rightarrow> db \<Rightarrow> err + unit" where
  "requirePermanentAdminTx p d = ensure (\<exists>u \<in> set (users d). permanent_admin u \<and> p u) ErrLastActiveAdmin"

section \<open>Offboarding\<close>

definition new_state :: "string \<Rightarrow> string \<Rightarrow> bool \<Rightarrow> bool \<Rightarrow> sync_state" where
  "new_state sys uid active provisioned = \<lparr>ss_system_id = sys, ss_resource_id = uid, ss_kind = UserResource, ss_active = active,
     ss_provisioned = provisioned, ss_revision = 0, ss_members = '''', ss_delivery_revision = 0, ss_offboarded_at = None, ss_observed = '''', ss_observed_at = None\<rparr>"

text \<open>A connector that holds the account through a tracked grant or through a remote mapping.\<close>

definition holds_account :: "string \<Rightarrow> string \<Rightarrow> db \<Rightarrow> bool" where
  "holds_account sys uid d \<longleftrightarrow> (\<exists>st \<in> set (sync_states d). state_at sys uid st \<and> ss_kind st = UserResource) \<or> linked_user sys uid d"

text \<open>The row a remote mapping proves, when none was tracked.\<close>

definition track_state :: "string \<Rightarrow> string \<Rightarrow> db \<Rightarrow> db" where
  "track_state sys uid d =
     (let d1 = (if \<exists>st \<in> set (sync_states d). state_at sys uid st then d else d\<lparr>sync_states := sql_insert (new_state sys uid True True) (sync_states d)\<rparr>)
      in d1\<lparr>sync_states := sql_update (\<lambda>st. state_at sys uid st \<and> \<not> ss_provisioned st \<and> linked_user sys uid d1) (\<lambda>st. st\<lparr>ss_provisioned := True\<rparr>) (sync_states d1)\<rparr>)"

definition offboardUserTx :: "user \<Rightarrow> bool \<Rightarrow> time \<Rightarrow> db \<Rightarrow> err + db" where
  "offboardUserTx u deleted now d =
     andthen (revokeUserAccessTx (usr_id u) now d) (\<lambda>d1.
     let systems = sort (map ps_id (filter (\<lambda>s. ps_status s \<noteq> SysDisabled \<and> holds_account (ps_id s) (usr_id u) d1) (paired_systems d1)))
     in each (\<lambda>sys e.
          andthen (scimUserPayloadTx u False sys now e) (\<lambda>body.
          queueDesiredStateTx ((desired_user sys (usr_id u) False body)\<lparr>ds_deleted := deleted\<rparr>) now (track_state sys (usr_id u) e))) systems d1)"

section \<open>The update\<close>

text \<open>An upstream-owned account is active only while the upstream says so, no local override holds and it has a password.\<close>

definition ApplySourceState :: "user \<Rightarrow> user" where
  "ApplySourceState u =
     (if usr_source_connector_id u = None then u
      else if usr_source_active u \<and> \<not> usr_locally_disabled u \<and> \<not> usr_pending u then u\<lparr>usr_status := Active\<rparr> else u\<lparr>usr_status := Disabled\<rparr>)"

text \<open>What the closure of an update leaves: the edited copy with its end date, whether access must be revoked, the audit row.\<close>

record user_edit =
  ue_user :: user
  ue_ends_at :: "time option"
  ue_revoke :: bool
  ue_audit :: "audit_event option"

text \<open>The columns an update writes; \<open>role\<close> is one of them, so its triggers run.\<close>

definition write_user :: "user \<Rightarrow> time option \<Rightarrow> time \<Rightarrow> db \<Rightarrow> err + db" where
  "write_user u ends now d =
     andthen (ensure (\<not> (\<exists>x \<in> set (users d). usr_id x \<noteq> usr_id u \<and> user_clash u x)) ErrUnique) (\<lambda>_.
     role_update_trigger (usr_id u) now (d\<lparr>users := sql_update (\<lambda>x. usr_id x = usr_id u) (\<lambda>x. x\<lparr>usr_username := usr_username u,
       usr_display_name := usr_display_name u, usr_email := usr_email u, usr_password_hash := usr_password_hash u, usr_role := usr_role u, usr_status := usr_status u,
       usr_pending := usr_pending u, usr_password_change_required := usr_password_change_required u, usr_source_active := usr_source_active u,
       usr_locally_disabled := usr_locally_disabled u, usr_ends_at := map_option unixepoch ends, usr_updated_at := now\<rparr>) (users d)\<rparr>))"

text \<open>Links issued to an ordinary account end when it becomes an administrator, and links mailed to an old address with the address.\<close>

definition retire_links :: "(string \<Rightarrow> string \<Rightarrow> bool) \<Rightarrow> user \<Rightarrow> user \<Rightarrow> time \<Rightarrow> db \<Rightarrow> db" where
  "retire_links EqualFold current u now d =
     (let mine = (\<lambda>t. at_user_id t = usr_id u);
          d1 = (if usr_role current \<noteq> RoleAdmin \<and> usr_role u = RoleAdmin then expireAccountTokensTx now mine d else d)
      in if EqualFold (usr_email current) (usr_email u) then d1
         else expireAccountTokensTx now mine (d1\<lparr>users := sql_update (\<lambda>x. usr_id x = usr_id u) (\<lambda>x. x\<lparr>usr_email_verified_at := None\<rparr>) (users d1)\<rparr>))"

definition scheduling_end :: "user \<Rightarrow> time option \<Rightarrow> bool" where
  "scheduling_end current ends = (case ends of None \<Rightarrow> False | Some t \<Rightarrow> (case usr_ends_at current of None \<Rightarrow> True | Some v \<Rightarrow> t \<noteq> from_unix v))"

definition updateUser :: "(string \<Rightarrow> string) \<Rightarrow> (string \<Rightarrow> string \<Rightarrow> bool) \<Rightarrow> string \<Rightarrow> (db \<Rightarrow> user \<Rightarrow> err + user_edit) \<Rightarrow> time \<Rightarrow> db \<Rightarrow> user tx" where
  "updateUser sha EqualFold i edit now d =
     (case user_by_id i now d of
        None \<Rightarrow> Inl ErrNoRows
      | Some current \<Rightarrow>
         andthen (edit d current) (\<lambda>e.
         let u = ApplySourceState ((ue_user e)\<lparr>usr_id := usr_id current\<rparr>); scheduling = scheduling_end current (ue_ends_at e)
         in andthen (if scheduling then checkExpiry (ue_ends_at e) now else Inr ()) (\<lambda>_.
            andthen (if usr_role current = RoleAdmin \<and> usr_status current = Active \<and> (usr_role u \<noteq> RoleAdmin \<or> usr_status u \<noteq> Active \<or> scheduling)
                     then requirePermanentAdminTx (\<lambda>x. usr_id x \<noteq> usr_id u) d else Inr ()) (\<lambda>_.
            andthen (write_user u (ue_ends_at e) now d) (\<lambda>d1.
            let d2 = retire_links EqualFold current u now d1
            in case user_by_id (usr_id u) now d2 of
                 None \<Rightarrow> Inl ErrNoRows
               | Some stored \<Rightarrow>
                  andthen (if usr_status current = Active \<and> usr_status stored = Disabled then offboardUserTx stored False now d2
                           else if ue_revoke e then revokeUserAccessTx (usr_id u) now d2 else Inr d2) (\<lambda>d3.
                  andthen (queueUserUpdateTx stored now d3) (\<lambda>d4.
                  andthen (reconcileProvisioningTx sha now d4) (\<lambda>d5.
                  andthen (recordAuditTx (ue_audit e) now d5) (\<lambda>d6. Inr (stored, d6))))))))))"

definition EditUser :: "(string \<Rightarrow> string) \<Rightarrow> (string \<Rightarrow> string \<Rightarrow> bool) \<Rightarrow> string \<Rightarrow> (user \<Rightarrow> err + user_edit) \<Rightarrow> time \<Rightarrow> db \<Rightarrow> user tx" where
  "EditUser sha EqualFold i edit now d = updateUser sha EqualFold i (\<lambda>_. edit) now d"

definition DeleteUserWithSyncEvents :: "(string \<Rightarrow> string) \<Rightarrow> string \<Rightarrow> audit_event option \<Rightarrow> time \<Rightarrow> db \<Rightarrow> err + db" where
  "DeleteUserWithSyncEvents sha userID audit now d =
     (case user_by_id userID now d of
        None \<Rightarrow> Inl ErrNoRows
      | Some u \<Rightarrow>
         andthen (if usr_role u = RoleAdmin \<and> usr_status u = Active then requirePermanentAdminTx (\<lambda>x. usr_id x \<noteq> userID) d else Inr ()) (\<lambda>_.
         andthen (offboardUserTx u True now d) (\<lambda>d1.
         let strangers = sort (map ps_id (filter (\<lambda>s. ps_status s \<noteq> SysDisabled \<and>
               \<not> (\<exists>st \<in> set (sync_states d1). state_at (ps_id s) userID st \<and> ss_kind st = UserResource)) (paired_systems d1)))
         in andthen (each (\<lambda>sys e.
              andthen (ensure (\<not> (\<exists>st \<in> set (sync_states e). state_at sys userID st)) ErrUnique) (\<lambda>_.
              insertResourceEventTx sys userID ''user.deleted'' (scimInactivePayload userID) 0 now
                (e\<lparr>sync_states := sql_insert (new_state sys userID False False) (sync_states e)\<rparr>))) strangers d1) (\<lambda>d2.
            andthen (reconcileProvisioningTx sha now (delete_user userID d2)) (\<lambda>d3. recordAuditTx audit now d3)))))"

section \<open>Disabling by name\<close>

definition disable_details :: "user \<Rightarrow> string \<Rightarrow> json" where
  "disable_details u guard = JObj [(''username'', JStr (usr_username u)), (''role'', JStr (role_name (usr_role u))), (''status'', JStr ''disabled''),
     (''accessRevoked'', JBool True), (''roleChanged'', JBool False), (''guard'', JStr guard), (''via'', JStr ''cli'')]"

definition disable_edit :: "(string \<Rightarrow> string \<Rightarrow> bool) \<Rightarrow> string \<Rightarrow> string \<Rightarrow> audit_event option \<Rightarrow> time \<Rightarrow> db \<Rightarrow> user \<Rightarrow> err + user_edit" where
  "disable_edit EqualFold username guard audit now d u =
     andthen (ensure (EqualFold (usr_username u) username) ErrNotFound) (\<lambda>_.
     let retired = usr_status u = Disabled \<and> (usr_source_connector_id u = None \<or> usr_locally_disabled u) \<and>
           \<not> (\<exists>t \<in> set (account_tokens d). at_user_id t = usr_id u \<and> at_used_at t = None \<and> at_expires_at t > now)
     in andthen (ensure (\<not> retired) ErrAlreadyDisabled) (\<lambda>_.
        andthen (case requirePermanentAdminTx (\<lambda>x. nocase (usr_username x) = nocase guard \<and> usr_id x \<noteq> usr_id u) d of
                   Inl _ \<Rightarrow> Inl ErrGuardAdministrator | Inr x \<Rightarrow> Inr x) (\<lambda>_.
        Inr \<lparr>ue_user = (let v = u\<lparr>usr_status := Disabled\<rparr> in if usr_source_connector_id u \<noteq> None then v\<lparr>usr_locally_disabled := True\<rparr> else v),
          ue_ends_at = map_option from_unix (usr_ends_at u), ue_revoke = True,
          ue_audit = map_option (\<lambda>e. e\<lparr>au_target_id := usr_id u, au_details := disable_details u guard\<rparr>) audit\<rparr>)))"

definition DisableUserByName :: "(string \<Rightarrow> string) \<Rightarrow> (string \<Rightarrow> string \<Rightarrow> bool) \<Rightarrow> string \<Rightarrow> string \<Rightarrow> audit_event option \<Rightarrow> time \<Rightarrow> db \<Rightarrow> bool tx" where
  "DisableUserByName sha EqualFold username guard audit now d =
     andthen (ensure (\<not> EqualFold username guard) ErrGuardAdministrator) (\<lambda>_.
     case GetUserByUsername username now d of
       None \<Rightarrow> Inl ErrNotFound
     | Some u \<Rightarrow>
        (case updateUser sha EqualFold (usr_id u) (disable_edit EqualFold username guard audit now) now d of
           Inl e \<Rightarrow> if e = ErrAlreadyDisabled then Inr (False, d) else Inl e
         | Inr (_, d1) \<Rightarrow> Inr (True, d1)))"

section \<open>Links and passwords\<close>

definition source_permits :: "user \<Rightarrow> bool" where
  "source_permits u \<longleftrightarrow> usr_source_connector_id u = None \<or> usr_source_active u \<and> \<not> usr_locally_disabled u"

definition link_eligible :: "link_kind \<Rightarrow> user \<Rightarrow> bool" where
  "link_eligible kind u = (case kind of Activation \<Rightarrow> usr_pending u \<and> source_permits u | Reset \<Rightarrow> usr_status u = Active \<and> \<not> usr_pending u)"

definition IssueAccountToken :: "(string \<Rightarrow> string) \<Rightarrow> string \<Rightarrow> link_kind \<Rightarrow> link_delivery \<Rightarrow> duration \<Rightarrow> audit_event option \<Rightarrow> time \<Rightarrow> db \<Rightarrow> string tx" where
  "IssueAccountToken sha userID kind delivery ttl audit now d =
     (let (raw, d1) = fresh_id d
      in auditedTx audit now (\<lambda>d1.
           andthen (ensure (\<exists>u \<in> set (users d1). usr_id u = userID \<and> link_eligible kind u) ErrNotFound) (\<lambda>_.
           let d2 = expireAccountTokensTx now (\<lambda>t. at_user_id t = userID \<and> at_kind t = kind) d1; (i, d3) = fresh_id d2
           in andthen (ensure (\<not> (\<exists>t \<in> set (account_tokens d3). at_id t = i \<or> at_token_hash t = sha raw)) ErrUnique) (\<lambda>_.
              Inr (raw, d3\<lparr>account_tokens := sql_insert \<lparr>at_id = i, at_user_id = userID, at_kind = kind, at_token_hash = sha raw, at_delivery = delivery,
                at_expires_at = now + ttl, at_used_at = None, at_created_at = now\<rparr> (account_tokens d3)\<rparr>)))) d1)"

text \<open>The account a link may still act on, and what redeeming the link makes of it.\<close>

definition redeemable_account :: "link_kind \<Rightarrow> user \<Rightarrow> bool" where
  "redeemable_account kind u = (case kind of Activation \<Rightarrow> usr_pending u | Reset \<Rightarrow> usr_status u = Active \<and> \<not> usr_pending u)"

definition redeemed_account :: "link_kind \<Rightarrow> link_delivery \<Rightarrow> string \<Rightarrow> time \<Rightarrow> user \<Rightarrow> user" where
  "redeemed_account kind delivery passwordHash now u = u\<lparr>usr_password_hash := passwordHash, usr_pending := False, usr_password_change_required := False,
     usr_status := (if kind = Activation then if source_permits u then Active else Disabled else usr_status u),
     usr_email_verified_at := (case usr_email_verified_at u of Some t \<Rightarrow> Some t | None \<Rightarrow> if delivery = Email then Some now else None), usr_updated_at := now\<rparr>"

definition RedeemAccountToken :: "(string \<Rightarrow> string) \<Rightarrow> string \<Rightarrow> link_kind \<Rightarrow> string \<Rightarrow> audit_event option \<Rightarrow> time \<Rightarrow> db \<Rightarrow> user tx" where
  "RedeemAccountToken sha raw kind passwordHash audit now d =
     (case sql_first (\<lambda>t. at_token_hash t = sha raw \<and> at_kind t = kind \<and> at_used_at t = None \<and> at_expires_at t > now) (account_tokens d) of
        None \<Rightarrow> Inl ErrNotFound
      | Some t \<Rightarrow>
         (let userID = at_user_id t;
              d1 = d\<lparr>account_tokens := sql_update (\<lambda>x. at_id x = at_id t \<and> at_used_at x = None) (\<lambda>x. x\<lparr>at_used_at := Some now\<rparr>) (account_tokens d)\<rparr>;
              hit = (\<lambda>u. usr_id u = userID \<and> redeemable_account kind u)
          in andthen (ensure (sql_count hit (users d1) = 1) ErrNotFound) (\<lambda>_.
             andthen (revokeUserAccessTx userID now (d1\<lparr>users := sql_update hit (redeemed_account kind (at_delivery t) passwordHash now) (users d1)\<rparr>)) (\<lambda>d2.
             andthen (reconcileProvisioningTx sha now (d2\<lparr>login_failures := sql_delete (\<lambda>f. lf_user_id f = userID) (login_failures d2)\<rparr>)) (\<lambda>d3.
             case user_by_id userID now d3 of
               None \<Rightarrow> Inl ErrNoRows
             | Some u \<Rightarrow>
                andthen (recordAuditTx (map_option (\<lambda>e. e\<lparr>au_actor_id := usr_id u, au_actor_username := usr_username u, au_target_id := usr_id u\<rparr>) audit) now d3) (\<lambda>d4.
                Inr (u, d4)))))))"

definition ChangePassword :: "string \<Rightarrow> string \<Rightarrow> string \<Rightarrow> audit_event option \<Rightarrow> time \<Rightarrow> db \<Rightarrow> unit tx" where
  "ChangePassword userID keepSessionID passwordHash audit now = auditedTx audit now (\<lambda>d.
     let hit = (\<lambda>u. usr_id u = userID \<and> usr_status u = Active \<and> \<not> usr_pending u \<and>
           (\<exists>s \<in> set (sessions d). ses_id s = keepSessionID \<and> ses_user_id s = userID \<and> ses_expires_at s > now))
     in andthen (ensure (sql_count hit (users d) = 1) ErrNotFound) (\<lambda>_.
        andthen (revokeSessionsTx now (\<lambda>s. ses_user_id s = userID \<and> ses_id s \<noteq> keepSessionID)
          (d\<lparr>users := sql_update hit (\<lambda>u. u\<lparr>usr_password_hash := passwordHash, usr_password_change_required := False, usr_updated_at := now\<rparr>) (users d)\<rparr>)) (\<lambda>(n, d1).
        Inr ((), expireAccountTokensTx now (\<lambda>t. at_user_id t = userID) (spendMFATokensTx now userID
          (revokeSessionGrantsTx (\<lambda>_ u. u = userID) now (expirePairingTokensTx now userID d1)))))))"

definition DeleteExpiredAccountTokens :: "time \<Rightarrow> db \<Rightarrow> db" where
  "DeleteExpiredAccountTokens now d = d\<lparr>account_tokens := sql_delete (\<lambda>t. at_expires_at t < now \<or> at_used_at t \<noteq> None) (account_tokens d)\<rparr>"

section \<open>Factors\<close>

definition ResetUserMFA :: "string \<Rightarrow> audit_event option \<Rightarrow> time \<Rightarrow> db \<Rightarrow> err + db" where
  "ResetUserMFA userID audit now d =
     andthen (revokeUserAccessTx userID now (d\<lparr>enrollment_deadlines := sql_update (\<lambda>x. ed_user_id x = userID) (\<lambda>x. x\<lparr>ed_due_at := 0\<rparr>) (enrollment_deadlines d),
       mfa_methods := sql_delete (\<lambda>m. mm_user_id m = userID) (mfa_methods d),
       recovery_codes := sql_delete (\<lambda>c. rc_user_id c = userID) (recovery_codes d),
       webauthn_credentials := sql_delete (\<lambda>c. wc_user_id c = userID) (webauthn_credentials d),
       native_devices := sql_update (\<lambda>x. nd_user_id x = userID) (\<lambda>x. x\<lparr>nd_is_mfa_approver := False, nd_can_sign_on := False\<rparr>) (native_devices d)\<rparr>)) (\<lambda>d1.
     andthen (case user_by_id userID now d1 of None \<Rightarrow> Inr d1 | Some u \<Rightarrow> queueUserNotificationTx u ''user.mfa_reset'' now d1) (\<lambda>d2.
     recordAuditTx audit now d2))"

section \<open>Delegations\<close>

record delegations =
  dl_helpdesk :: bool
  dl_auditor :: bool
  dl_app_owner :: "string list"

definition Delegations :: "string \<Rightarrow> db \<Rightarrow> delegations" where
  "Delegations userID d =
     (let mine = filter (\<lambda>x. de_user_id x = userID) (admin_delegations d)
      in \<lparr>dl_helpdesk = (\<exists>x \<in> set mine. de_kind x = Helpdesk), dl_auditor = (\<exists>x \<in> set mine. de_kind x = Auditor),
          dl_app_owner = sort (map (\<lambda>x. ref (de_app_id x)) (filter (\<lambda>x. de_kind x = AppOwner) mine))\<rparr>)"

definition insert_delegation :: "string \<Rightarrow> delegation_kind \<times> string option \<Rightarrow> time \<Rightarrow> db \<Rightarrow> err + db" where
  "insert_delegation userID ka now d = (case ka of (k, a) \<Rightarrow>
     andthen (case a of None \<Rightarrow> Inr () | Some i \<Rightarrow> ensure (\<exists>x \<in> set (app_registry d). app_id x = i) ErrAppRecordMissing) (\<lambda>_.
     new_delegation_trigger userID now (d\<lparr>admin_delegations := sql_insert \<lparr>de_user_id = userID, de_kind = k, de_app_id = a, de_created_at = now\<rparr> (admin_delegations d)\<rparr>)))"

text \<open>The loop over the two flags runs in no fixed order; the rows it writes have none either.\<close>

definition SetDelegations :: "string \<Rightarrow> delegations \<Rightarrow> audit_event option \<Rightarrow> time \<Rightarrow> db \<Rightarrow> err + db" where
  "SetDelegations userID dl audit now d =
     (let apps = sort (dl_app_owner dl);
          rows = (if dl_helpdesk dl then [(Helpdesk, None)] else []) @ (if dl_auditor dl then [(Auditor, None)] else []) @ map (\<lambda>i. (AppOwner, Some i)) (remdups_adj apps)
      in andthen (ensure (\<exists>u \<in> set (users d). usr_id u = userID) ErrUserMissing) (\<lambda>_.
         andthen (each (\<lambda>ka. insert_delegation userID ka now) rows (d\<lparr>admin_delegations := sql_delete (\<lambda>x. de_user_id x = userID) (admin_delegations d)\<rparr>)) (\<lambda>d1.
         let d2 = invalidateUserEnrollmentTx userID now d1;
             d3 = (if dl_helpdesk dl \<or> dl_auditor dl \<or> apps \<noteq> [] then expireAccountTokensTx now (\<lambda>t. at_user_id t = userID) d2 else d2)
         in recordAuditTx (appRegistryAudit audit (JObj [(''user'', JStr userID), (''helpdesk'', JBool (dl_helpdesk dl)), (''auditor'', JBool (dl_auditor dl)),
              (''appOwner'', JArr (map JStr apps))])) now d3)))"

section \<open>What the stages of an update leave alone\<close>

lemma track_state_frame: "sync_frame d (track_state sys uid d)"
  by (rule sync_frameI[where sts = "sync_states (track_state sys uid d)" and evs = "sync_events d" and p = "rand_pos d"]) (simp add: track_state_def Let_def)

lemma queue_inactive_frame: "queueDesiredStateTx s now (track_state sys uid d) = Inr d' \<Longrightarrow> sync_frame d d'"
  using sync_frame_trans[OF track_state_frame queueDesiredStateTx_InrD(1)] .

lemma offboardUserTx_InrE:
  assumes "offboardUserTx u deleted now d = Inr d'"
  obtains d1 where "revokeUserAccessTx (usr_id u) now d = Inr d1" "sync_frame d1 d'"
proof -
  from assms obtain d1 where r: "revokeUserAccessTx (usr_id u) now d = Inr d1" by (auto simp: offboardUserTx_def andthen_Inr_iff)
  have "sync_frame d1 d'"
    by (rule each_sync_frame[OF assms[unfolded offboardUserTx_def Let_def r andthen_simps]]) (auto simp: andthen_Inr_iff dest: queue_inactive_frame)
  with that r show thesis by blast
qed

lemma queueUserUpdateTx_frame: "queueUserUpdateTx u now d = Inr d' \<Longrightarrow> sync_frame d d'"
  unfolding queueUserUpdateTx_def Let_def by (erule each_sync_frame) (auto simp: andthen_Inr_iff dest: queueDesiredStateTx_InrD(1))

text \<open>Revoking an account's access touches no row that decides who has access.\<close>

lemma revokeUserAccessTx_tables:
  assumes "revokeUserAccessTx uid now d = Inr d'"
  shows "users d' = users d" "paired_systems d' = paired_systems d" "sync_states d' = sync_states d" "directory_groups d' = directory_groups d"
    "effective_app_access t d' = effective_app_access t d" "app_registry d' = app_registry d"
    "group_memberships d' = group_memberships d" "user_assignments d' = user_assignments d" "access_requests d' = access_requests d"
proof -
  from assms obtain n d1 where r: "revokeSessionsTx now (\<lambda>s. ses_user_id s = uid) d = Inr (n, d1)"
      and d': "d' = expireAccountTokensTx now (\<lambda>t. at_user_id t = uid) (spendMFATokensTx now uid
      (revokeSessionGrantsTx (\<lambda>_ u. u = uid) now (expirePairingTokensTx now uid d1)))" by (rule revokeUserAccessTx_InrE)
  from r obtain d2 where e: "enqueueLogoutTx now (\<lambda>c. \<exists>s \<in> set (sessions d). ses_user_id s = uid \<and> ses_id s = cs_session_id c) d = Inr d2"
      and d1: "d1 = delete_sessions (\<lambda>s. ses_user_id s = uid) (revokeSessionGrantsTx (\<lambda>sid _. \<exists>s \<in> set (sessions d2). ses_user_id s = uid \<and> sid = Some (ses_id s)) now d2)"
    by (auto simp: revokeSessionsTx_def Let_def andthen_Inr_iff)
  from enqueueLogoutTx_frame[OF e] obtain ld n where d2: "d2 = d\<lparr>logout_deliveries := ld, rand_pos := n\<rparr>" by blast
  show "users d' = users d" "paired_systems d' = paired_systems d" "sync_states d' = sync_states d" "directory_groups d' = directory_groups d" "app_registry d' = app_registry d"
    "group_memberships d' = group_memberships d" "user_assignments d' = user_assignments d" "access_requests d' = access_requests d"
    by (simp_all add: d' d1 d2 revoke_access_defs delete_sessions_def Let_def)
  show "effective_app_access t d' = effective_app_access t d"
    by (rule effective_app_access_cong) (simp_all add: d' d1 d2 revoke_access_defs delete_sessions_def Let_def)
qed

lemma access_over_frame: "sync_frame d d' \<Longrightarrow> access_over uid now d' = access_over uid now d"
  by (auto simp: sync_frame_def access_over_def)

lemma access_over_audit: "recordAuditTx au now d = Inr d' \<Longrightarrow> access_over uid t d' = access_over uid t d"
  by (auto simp: access_over_def dest!: recordAuditTx_InrD)


section \<open>Offboarding reaches everything\<close>

lemma each_wf:
  assumes "each f xs d = Inr d'" "states_wf d" "uid \<in> usr_id ` set (users d)"
    and step: "\<And>x e e'. f x e = Inr e' \<Longrightarrow> states_wf e \<Longrightarrow> uid \<in> usr_id ` set (users e) \<Longrightarrow> states_wf e' \<and> users e' = users e"
  shows "states_wf d'" "users d' = users d"
proof -
  have "states_wf d' \<and> users d' = users d"
    by (rule each_keeps[OF assms(1), where P = "\<lambda>e. states_wf e \<and> users e = users d"]) (use assms(2,3) step in auto)
  then show "states_wf d'" "users d' = users d" by blast+
qed

text \<open>What the directory and the kinds and resources of the recorded states decide.\<close>

lemma ids_apart_rows: "ids_apart d \<longleftrightarrow> distinct (map dg_id (directory_groups d)) \<and> usr_id ` set (users d) \<inter> dg_id ` set (directory_groups d) = {} \<and>
   (\<forall>(k, r) \<in> set (map (\<lambda>st. (ss_kind st, ss_resource_id st)) (sync_states d)). if k = GroupResource then r \<notin> usr_id ` set (users d) else r \<notin> dg_id ` set (directory_groups d))"
  by (simp add: ids_apart_def)

lemma states_wf_rows:
  assumes "map (\<lambda>st. (ss_system_id st, ss_resource_id st)) (sync_states d') = map (\<lambda>st. (ss_system_id st, ss_resource_id st)) (sync_states d)"
    "map (\<lambda>st. (ss_kind st, ss_resource_id st)) (sync_states d') = map (\<lambda>st. (ss_kind st, ss_resource_id st)) (sync_states d)"
    "users d' = users d" "directory_groups d' = directory_groups d"
  shows "states_wf d' = states_wf d"
  unfolding states_wf_def keyed_states_def ids_apart_rows assms ..

lemma track_state_wf:
  assumes "states_wf d" "uid \<in> usr_id ` set (users d)"
  shows "states_wf (track_state sys uid d)"
proof -
  let ?d1 = "if \<exists>st \<in> set (sync_states d). state_at sys uid st then d else d\<lparr>sync_states := sql_insert (new_state sys uid True True) (sync_states d)\<rparr>"
  have "keyed_states ?d1" using assms(1)
    by (auto simp: states_wf_def keyed_states_def new_state_def sql_insert_def)
  moreover have "ids_apart ?d1" using assms unfolding states_wf_def ids_apart_def
    by (auto simp: new_state_def sql_insert_def)
  ultimately have "states_wf ?d1" by (simp add: states_wf_def)
  moreover have "states_wf (track_state sys uid d) = states_wf ?d1"
    unfolding track_state_def Let_def by (rule states_wf_rows) (simp_all add: map_sql_update)
  ultimately show ?thesis by simp
qed

lemma offboardUserTx_wf:
  assumes o: "offboardUserTx u deleted now d = Inr d'" and wf: "states_wf d" and u: "usr_id u \<in> usr_id ` set (users d)"
  shows "states_wf d'" "users d' = users d"
proof -
  from o obtain d1 where r: "revokeUserAccessTx (usr_id u) now d = Inr d1" by (rule offboardUserTx_InrE)
  note tabs = revokeUserAccessTx_tables[OF r]
  have wf1: "states_wf d1" using wf states_wf_cong[of d1 d] tabs by simp
  note loop = each_wf[OF o[unfolded offboardUserTx_def Let_def r andthen_simps] wf1, where uid = "usr_id u"]
  have step: "states_wf e' \<and> users e' = users e"
    if f: "andthen (scimUserPayloadTx u False sys now e) (\<lambda>body. queueDesiredStateTx ((desired_user sys (usr_id u) False body)\<lparr>ds_deleted := deleted\<rparr>) now (track_state sys (usr_id u) e)) = Inr e'"
      and w: "states_wf e" "usr_id u \<in> usr_id ` set (users e)" for sys e e'
  proof -
    from f obtain body where q: "queueDesiredStateTx ((desired_user sys (usr_id u) False body)\<lparr>ds_deleted := deleted\<rparr>) now (track_state sys (usr_id u) e) = Inr e'"
      by (auto simp: andthen_Inr_iff)
    have us: "users (track_state sys (usr_id u) e) = users e" by (simp add: track_state_def Let_def)
    have "states_wf e'" using queue_user_wf[OF q track_state_wf[OF w]] w(2) us by simp
    with sync_frame_tables(1)[OF queue_inactive_frame[OF q]] show ?thesis by simp
  qed
  show "states_wf d'" "users d' = users d" using loop step u tabs(1) by auto
qed

lemma queueUserUpdateTx_wf:
  assumes q: "queueUserUpdateTx u now d = Inr d'" and wf: "states_wf d" and u: "usr_id u \<in> usr_id ` set (users d)"
  shows "states_wf d'"
  using q unfolding queueUserUpdateTx_def Let_def
proof (rule each_wf(1)[OF _ wf u])
  fix sys e e'
  assume f: "andthen (scimUserPayloadTx u True sys now e) (\<lambda>body. queueDesiredStateTx (desired_user sys (usr_id u) True body) now e) = Inr e'"
    and w: "states_wf e" "usr_id u \<in> usr_id ` set (users e)"
  from f obtain body where s: "queueDesiredStateTx (desired_user sys (usr_id u) True body) now e = Inr e'" by (auto simp: andthen_Inr_iff)
  with queue_user_wf[OF s w(1)] w(2) sync_frame_tables(1)[OF queueDesiredStateTx_InrD(1)[OF s]] show "states_wf e' \<and> users e' = users e" by simp
qed


lemma states_wf_ids:
  assumes "sync_states d' = sync_states d" "directory_groups d' = directory_groups d" "usr_id ` set (users d') \<subseteq> usr_id ` set (users d)" "states_wf d"
  shows "states_wf d'"
proof -
  from assms(4) have old: "\<And>st. st \<in> set (sync_states d) \<Longrightarrow> if ss_kind st = GroupResource then ss_resource_id st \<notin> usr_id ` set (users d)
      else ss_resource_id st \<notin> dg_id ` set (directory_groups d)" unfolding states_wf_def ids_apart_def by blast
  have "if ss_kind st = GroupResource then ss_resource_id st \<notin> usr_id ` set (users d') else ss_resource_id st \<notin> dg_id ` set (directory_groups d)"
    if "st \<in> set (sync_states d)" for st using old[OF that] assms(3) by (simp split: if_splits) blast
  with assms show ?thesis unfolding states_wf_def ids_apart_def keyed_states_def by (simp only: assms(1,2)) blast
qed

lemma user_by_id_row:
  assumes "user_by_id i now d = Some s"
  obtains r where "r \<in> set (users d)" "usr_id r = i" "s = scanUser now r" "usr_id s = i"
  using assms by (auto simp: user_by_id_def scanUser_def split: option.splits if_splits dest!: find_SomeD)

lemma disabled_no_access:
  assumes "user_by_id i now d = Some s" "usr_status s = Disabled" "distinct (map usr_id (users d))"
  shows "\<not> system_access sys i now d"
proof
  assume "system_access sys i now d"
  then obtain a u where u: "u \<in> set (users d)" "usr_id u = i" "appAllowedSQL (app_access_mode a) (app_enabled a) (access_facts_row now d a u)"
    by (auto simp: system_access_def effective_app_access_iff)
  from assms(1) obtain r where r: "r \<in> set (users d)" "usr_id r = i" "s = scanUser now r" by (rule user_by_id_row)
  have "u = r" using key_unique[OF assms(3) u(1) r(1)] u(2) r(2) by simp
  with u(3) r(3) assms(2) show False by (auto simp: appAllowedSQL_def access_facts_row_def scanUser_def split: option.splits if_splits)
qed

lemma updateUser_InrE:
  assumes "updateUser sha EqualFold i edit now d = Inr (stored, d')"
  obtains current e u d1 d2 d3 d4 d5 where "user_by_id i now d = Some current" "edit d current = Inr e" "u = ApplySourceState ((ue_user e)\<lparr>usr_id := usr_id current\<rparr>)"
    "usr_role current = RoleAdmin \<and> usr_status current = Active \<and> (usr_role u \<noteq> RoleAdmin \<or> usr_status u \<noteq> Active \<or> scheduling_end current (ue_ends_at e)) \<longrightarrow>
      (\<exists>x \<in> set (users d). permanent_admin x \<and> usr_id x \<noteq> usr_id u)"
    "write_user u (ue_ends_at e) now d = Inr d1" "d2 = retire_links EqualFold current u now d1" "user_by_id (usr_id u) now d2 = Some stored"
    "(if usr_status current = Active \<and> usr_status stored = Disabled then offboardUserTx stored False now d2
      else if ue_revoke e then revokeUserAccessTx (usr_id u) now d2 else Inr d2) = Inr d3"
    "queueUserUpdateTx stored now d3 = Inr d4" "reconcileProvisioningTx sha now d4 = Inr d5" "recordAuditTx (ue_audit e) now d5 = Inr d'"
proof -
  from assms obtain current where c: "user_by_id i now d = Some current" by (auto simp: updateUser_def split: option.splits)
  from assms c obtain e where e: "edit d current = Inr e" by (auto simp: updateUser_def andthen_Inr_iff)
  let ?u = "ApplySourceState ((ue_user e)\<lparr>usr_id := usr_id current\<rparr>)"
  from assms c e obtain d1 where w: "write_user ?u (ue_ends_at e) now d = Inr d1" by (auto simp: updateUser_def andthen_Inr_iff Let_def)
  let ?d2 = "retire_links EqualFold current ?u now d1"
  from assms c e w have adm: "usr_role current = RoleAdmin \<and> usr_status current = Active \<and> (usr_role ?u \<noteq> RoleAdmin \<or> usr_status ?u \<noteq> Active \<or> scheduling_end current (ue_ends_at e)) \<longrightarrow>
      (\<exists>x \<in> set (users d). permanent_admin x \<and> usr_id x \<noteq> usr_id ?u)"
    by (auto simp: updateUser_def andthen_Inr_iff Let_def requirePermanentAdminTx_def)
  from assms c e w have s: "user_by_id (usr_id ?u) now ?d2 = Some stored" by (auto simp: updateUser_def andthen_Inr_iff Let_def split: option.splits)
  from assms c e w s obtain d3 d4 d5 where "(if usr_status current = Active \<and> usr_status stored = Disabled then offboardUserTx stored False now ?d2
      else if ue_revoke e then revokeUserAccessTx (usr_id ?u) now ?d2 else Inr ?d2) = Inr d3"
    "queueUserUpdateTx stored now d3 = Inr d4" "reconcileProvisioningTx sha now d4 = Inr d5" "recordAuditTx (ue_audit e) now d5 = Inr d'"
    unfolding updateUser_def by (auto simp: andthen_Inr_iff Let_def)
  from that[OF c e refl adm w refl s this] show thesis .
qed

lemma ApplySourceState_id [simp]: "usr_id (ApplySourceState u) = usr_id u"
  by (simp add: ApplySourceState_def)

lemma user_by_id_id: "user_by_id i now d = Some s \<Longrightarrow> usr_id s = i"
  by (erule user_by_id_row)

lemma write_user_InrD:
  assumes "write_user u ends now d = Inr d'"
  shows "users d' = sql_update (\<lambda>x. usr_id x = usr_id u) (\<lambda>x. x\<lparr>usr_username := usr_username u,
       usr_display_name := usr_display_name u, usr_email := usr_email u, usr_password_hash := usr_password_hash u, usr_role := usr_role u, usr_status := usr_status u,
       usr_pending := usr_pending u, usr_password_change_required := usr_password_change_required u, usr_source_active := usr_source_active u,
       usr_locally_disabled := usr_locally_disabled u, usr_ends_at := map_option unixepoch ends, usr_updated_at := now\<rparr>) (users d)"
    "sync_states d' = sync_states d" "directory_groups d' = directory_groups d" "sessions d' = sessions d" "issued_tokens d' = issued_tokens d"
    "map usr_id (users d') = map usr_id (users d)"
proof -
  show u: "users d' = sql_update (\<lambda>x. usr_id x = usr_id u) (\<lambda>x. x\<lparr>usr_username := usr_username u,
       usr_display_name := usr_display_name u, usr_email := usr_email u, usr_password_hash := usr_password_hash u, usr_role := usr_role u, usr_status := usr_status u,
       usr_pending := usr_pending u, usr_password_change_required := usr_password_change_required u, usr_source_active := usr_source_active u,
       usr_locally_disabled := usr_locally_disabled u, usr_ends_at := map_option unixepoch ends, usr_updated_at := now\<rparr>) (users d)"
    and "sync_states d' = sync_states d" "directory_groups d' = directory_groups d" "sessions d' = sessions d" "issued_tokens d' = issued_tokens d"
    using assms by (auto simp: write_user_def andthen_Inr_iff role_update_trigger_def user_deadlines_trigger_def split: if_splits)
  show "map usr_id (users d') = map usr_id (users d)" unfolding u by (rule map_sql_update) simp
qed

lemma retire_links_frame:
  "sync_states (retire_links EF c u now d) = sync_states d" "directory_groups (retire_links EF c u now d) = directory_groups d"
  "sessions (retire_links EF c u now d) = sessions d" "issued_tokens (retire_links EF c u now d) = issued_tokens d"
  "map usr_id (users (retire_links EF c u now d)) = map usr_id (users d)"
  "map (\<lambda>x. (usr_id x, usr_role x, usr_status x, usr_ends_at x)) (users (retire_links EF c u now d)) = map (\<lambda>x. (usr_id x, usr_role x, usr_status x, usr_ends_at x)) (users d)"
  by (auto simp: retire_links_def Let_def expireAccountTokensTx_def map_sql_update)


lemma in_step_after_audit:
  assumes p: "reconcileProvisioningTx sha now d = Inr d1" and au: "recordAuditTx au now d1 = Inr d'" and wf: "states_wf d" and e: "system_enabled sys d'"
  shows "held sys uid d' = system_access sys uid now d'"
proof -
  from recordAuditTx_InrD[OF au] obtain es where d': "d' = d1\<lparr>audit_events := es\<rparr>" by blast
  have "effective_app_access now d' = effective_app_access now d1" by (rule effective_app_access_cong) (simp_all add: d')
  then have "held sys uid d' = held sys uid d1" "system_access sys uid now d' = system_access sys uid now d1" "system_enabled sys d' = system_enabled sys d1"
    by (simp_all add: held_def state_of_def system_access_def system_enabled_def d')
  with reconcile_in_step[OF p, of sys uid] wf e show ?thesis by (simp add: states_wf_def)
qed

lemma disabled_ends:
  assumes up: "updateUser sha EqualFold uid edit now d = Inr (stored, d')" and c: "user_by_id uid now d = Some current" "usr_status current = Active" "usr_status stored = Disabled"
    and wf: "states_wf d" and keys: "distinct (map usr_id (users d))"
  shows "access_over uid now d' \<and> (\<forall>sys. system_enabled sys d' \<longrightarrow> \<not> held sys uid d')"
proof -
  from up obtain cur e u d1 d2 d3 d4 d5 where cur: "user_by_id uid now d = Some cur" and ed: "edit d cur = Inr e" and u: "u = ApplySourceState ((ue_user e)\<lparr>usr_id := usr_id cur\<rparr>)"
    and adm: "usr_role cur = RoleAdmin \<and> usr_status cur = Active \<and> (usr_role u \<noteq> RoleAdmin \<or> usr_status u \<noteq> Active \<or> scheduling_end cur (ue_ends_at e)) \<longrightarrow>
      (\<exists>x \<in> set (users d). permanent_admin x \<and> usr_id x \<noteq> usr_id u)"
    and w: "write_user u (ue_ends_at e) now d = Inr d1" and d2: "d2 = retire_links EqualFold cur u now d1" and st: "user_by_id (usr_id u) now d2 = Some stored"
    and off: "(if usr_status cur = Active \<and> usr_status stored = Disabled then offboardUserTx stored False now d2
      else if ue_revoke e then revokeUserAccessTx (usr_id u) now d2 else Inr d2) = Inr d3"
    and q: "queueUserUpdateTx stored now d3 = Inr d4" and p: "reconcileProvisioningTx sha now d4 = Inr d5" and au: "recordAuditTx (ue_audit e) now d5 = Inr d'"
    by (rule updateUser_InrE)
  have i: "usr_id u = uid" "usr_id stored = uid" using u user_by_id_id[OF cur] user_by_id_id[OF st] by simp_all
  from off c cur have o: "offboardUserTx stored False now d2 = Inr d3" by simp
  note w' = write_user_InrD[OF w] and r' = retire_links_frame[where EF = EqualFold and c = cur and u = u and now = now and d = d1, folded d2]
  have ids: "map usr_id (users d2) = map usr_id (users d)" using w'(6) r'(5) by simp
  then have idset: "usr_id ` set (users d2) = usr_id ` set (users d)" by (metis set_map)
  have wf2: "states_wf d2" using w'(2,3) r'(1,2) idset wf by (intro states_wf_ids[of d2 d]) simp_all
  have in2: "usr_id stored \<in> usr_id ` set (users d2)" using st by (auto simp: i elim!: user_by_id_row)
  note o' = offboardUserTx_wf[OF o wf2 in2]
  have wf4: "states_wf d4" using queueUserUpdateTx_wf[OF q o'(1)] in2 o'(2) by simp
  from o obtain dr where rv: "revokeUserAccessTx uid now d2 = Inr dr" "sync_frame dr d3" unfolding i(2)[symmetric] by (rule offboardUserTx_InrE)
  have fr: "sync_frame d3 d5" using queueUserUpdateTx_frame[OF q] reconcileProvisioningTx_frame[OF p] by (rule sync_frame_trans)
  have over: "access_over uid now d'"
    using revokeUserAccessTx_over[OF rv(1)] access_over_frame[OF rv(2)] access_over_frame[OF fr] access_over_audit[OF au] by simp
  from recordAuditTx_InrD[OF au] have "users d' = users d5" by auto
  then have us: "users d' = users d2" using o'(2) sync_frame_tables(1)[OF fr] by simp
  have "user_by_id uid now d' = Some stored" using st us i by (simp add: user_by_id_def)
  from disabled_no_access[OF this c(3)] have "\<not> system_access sys uid now d'" for sys using keys us ids by simp
  with over in_step_after_audit[OF p au wf4] show ?thesis by blast
qed

lemma strangers_wf:
  assumes "each (\<lambda>sys e. andthen (ensure (\<not> (\<exists>st \<in> set (sync_states e). state_at sys uid st)) ErrUnique) (\<lambda>_.
      insertResourceEventTx sys uid ty body rv now (e\<lparr>sync_states := sql_insert (new_state sys uid False False) (sync_states e)\<rparr>))) xs d = Inr d'"
    and "states_wf d" "uid \<in> usr_id ` set (users d)"
  shows "states_wf d'" "sync_frame d d'"
proof -
  have step: "states_wf e' \<and> users e' = users e \<and> sync_frame e e'"
    if f: "andthen (ensure (\<not> (\<exists>st \<in> set (sync_states e). state_at sys uid st)) ErrUnique) (\<lambda>_.
      insertResourceEventTx sys uid ty body rv now (e\<lparr>sync_states := sql_insert (new_state sys uid False False) (sync_states e)\<rparr>)) = Inr e'"
      and w: "states_wf e" "uid \<in> usr_id ` set (users e)" for sys e e'
  proof -
    let ?e1 = "e\<lparr>sync_states := sql_insert (new_state sys uid False False) (sync_states e)\<rparr>"
    from f have no: "\<not> (\<exists>st \<in> set (sync_states e). state_at sys uid st)" and ins: "insertResourceEventTx sys uid ty body rv now ?e1 = Inr e'"
      by (auto simp: andthen_Inr_iff)
    from insertResourceEventTx_InrD[OF ins] obtain evs p where e': "e' = ?e1\<lparr>sync_events := evs, rand_pos := p\<rparr>" by blast
    have "keyed_states ?e1" using w(1) no by (auto simp: states_wf_def keyed_states_def new_state_def sql_insert_def)
    moreover have "ids_apart ?e1" using w unfolding states_wf_def ids_apart_def by (auto simp: new_state_def sql_insert_def)
    moreover have "states_wf e' = states_wf ?e1" by (rule states_wf_cong) (simp_all add: e')
    moreover have "sync_frame e e'"
      by (rule sync_frameI[where sts = "sync_states ?e1" and evs = evs and p = p]) (simp add: e')
    ultimately show ?thesis by (simp add: states_wf_def e')
  qed
  have "states_wf d' \<and> users d' = users d \<and> sync_frame d d'"
    by (rule each_keeps[OF assms(1), where P = "\<lambda>e. states_wf e \<and> users e = users d \<and> sync_frame d e"])
       (use assms(2,3) step sync_frame_trans in \<open>auto | blast\<close>)
  then show "states_wf d'" "sync_frame d d'" by blast+
qed


lemma delete_user_over:
  assumes "access_over uid now d"
  shows "access_over uid now (delete_user uid d)"
  using assms unfolding access_over_def delete_user_def delete_issued_tokens_def delete_sessions_def Let_def by (simp add: set_sql_delete)

lemma deleted_ends:
  assumes del: "DeleteUserWithSyncEvents sha uid audit now d = Inr d'" and wf: "states_wf d"
  shows "access_over uid now d' \<and> (\<forall>sys. system_enabled sys d' \<longrightarrow> \<not> held sys uid d')"
proof -
  from del obtain u where u: "user_by_id uid now d = Some u" by (auto simp: DeleteUserWithSyncEvents_def split: option.splits)
  then have i: "usr_id u = uid" by (rule user_by_id_id)
  from del u obtain d1 where o: "offboardUserTx u True now d = Inr d1" by (auto simp: DeleteUserWithSyncEvents_def andthen_Inr_iff)
  from del u o obtain xs d2 d3 where s: "each (\<lambda>sys e. andthen (ensure (\<not> (\<exists>st \<in> set (sync_states e). state_at sys uid st)) ErrUnique) (\<lambda>_.
      insertResourceEventTx sys uid ''user.deleted'' (scimInactivePayload uid) 0 now (e\<lparr>sync_states := sql_insert (new_state sys uid False False) (sync_states e)\<rparr>))) xs d1 = Inr d2"
      and p: "reconcileProvisioningTx sha now (delete_user uid d2) = Inr d3" and au: "recordAuditTx audit now d3 = Inr d'"
    unfolding DeleteUserWithSyncEvents_def Let_def by (auto simp: andthen_Inr_iff)
  have in1: "usr_id u \<in> usr_id ` set (users d)" using u by (auto simp: i elim!: user_by_id_row)
  note o' = offboardUserTx_wf[OF o wf in1]
  note s' = strangers_wf[OF s o'(1)]
  have wf2: "states_wf d2" "sync_frame d1 d2" using s' in1 o'(2) i by simp_all
  have "sync_states (delete_user uid d2) = sync_states d2" "directory_groups (delete_user uid d2) = directory_groups d2"
    "users (delete_user uid d2) = sql_delete (\<lambda>u. usr_id u = uid) (users d2)"
    by (simp_all add: delete_user_def delete_issued_tokens_def delete_sessions_def Let_def)
  then have wf3: "states_wf (delete_user uid d2)" and gone: "uid \<notin> usr_id ` set (users (delete_user uid d2))"
    using wf2(1) by (auto intro!: states_wf_ids[of "delete_user uid d2" d2] simp: set_sql_delete)
  from o obtain dr where rv: "revokeUserAccessTx uid now d = Inr dr" "sync_frame dr d1" unfolding i[symmetric] by (rule offboardUserTx_InrE)
  have "access_over uid now (delete_user uid d2)"
    using revokeUserAccessTx_over[OF rv(1)] access_over_frame[OF rv(2)] access_over_frame[OF wf2(2)] by (intro delete_user_over) simp
  then have over: "access_over uid now d'" using access_over_frame[OF reconcileProvisioningTx_frame[OF p]] access_over_audit[OF au] by simp
  from recordAuditTx_InrD[OF au] have "users d' = users d3" by auto
  then have "uid \<notin> usr_id ` set (users d')" using gone sync_frame_tables(1)[OF reconcileProvisioningTx_frame[OF p]] by simp
  then have "\<not> system_access sys uid now d'" for sys using system_access_user by blast
  with over in_step_after_audit[OF p au wf3] show ?thesis by blast
qed

text \<open>The ways a login stops: an update that turns an active account off, whoever makes it, and deletion.\<close>

inductive login_stops :: "time \<Rightarrow> string \<Rightarrow> db \<Rightarrow> db \<Rightarrow> bool" for now where
  disabled: "updateUser sha EqualFold uid edit now d = Inr (stored, d') \<Longrightarrow> user_by_id uid now d = Some current \<Longrightarrow> usr_status current = Active \<Longrightarrow>
    usr_status stored = Disabled \<Longrightarrow> login_stops now uid d d'"
| deleted: "DeleteUserWithSyncEvents sha uid audit now d = Inr d' \<Longrightarrow> login_stops now uid d d'"


text \<open>The sample account is disabled by name, under the guard of the administrator, while its connector holds it.\<close>

definition ann_connector_db :: db where
  "ann_connector_db = connector_db\<lparr>sync_states := [sample_state ''u1'']\<rparr>"

definition sample_disable :: "user tx" where
  "sample_disable = updateUser id (\<lambda>a b. nocase a = nocase b) ''u1'' (disable_edit (\<lambda>a b. nocase a = nocase b) ''ANN'' ''root'' None sample_now) sample_now ann_connector_db"



section \<open>The last permanent administrator\<close>

definition has_permanent_admin :: "db \<Rightarrow> bool" where
  "has_permanent_admin d \<longleftrightarrow> (\<exists>u \<in> set (users d). permanent_admin u)"

abbreviation standing :: "user \<Rightarrow> string \<times> role \<times> user_status \<times> int option" where
  "standing u \<equiv> (usr_id u, usr_role u, usr_status u, usr_ends_at u)"

lemma has_permanent_admin_standing: "has_permanent_admin d \<longleftrightarrow> (\<exists>(i, r, s, e) \<in> set (map standing (users d)). r = RoleAdmin \<and> s = Active \<and> e = None)"
  by (auto simp: has_permanent_admin_def permanent_admin_def)

lemma permanent_cong: "map standing (users d') = map standing (users d) \<Longrightarrow> has_permanent_admin d' = has_permanent_admin d"
  unfolding has_permanent_admin_standing by presburger

lemma permanent_reads:
  assumes "user_by_id i now d = Some c" "x \<in> set (users d)" "usr_id x = i" "permanent_admin x" "distinct (map usr_id (users d))"
  shows "c = x"
proof -
  from assms(1) obtain r where r: "r \<in> set (users d)" "usr_id r = i" "c = scanUser now r" by (rule user_by_id_row)
  have "r = x" using key_unique[OF assms(5) r(1) assms(2)] r(2) assms(3) by simp
  with r(3) assms(4) show ?thesis by (simp add: permanent_admin_def scanUser_def)
qed

lemma updateUser_users:
  assumes "updateUser sha EqualFold i edit now d = Inr (stored, d')"
  obtains current e u d1 where "user_by_id i now d = Some current" "edit d current = Inr e" "u = ApplySourceState ((ue_user e)\<lparr>usr_id := usr_id current\<rparr>)"
    "usr_role current = RoleAdmin \<and> usr_status current = Active \<and> (usr_role u \<noteq> RoleAdmin \<or> usr_status u \<noteq> Active \<or> scheduling_end current (ue_ends_at e)) \<longrightarrow>
      (\<exists>x \<in> set (users d). permanent_admin x \<and> usr_id x \<noteq> usr_id u)"
    "write_user u (ue_ends_at e) now d = Inr d1" "users d' = users (retire_links EqualFold current u now d1)"
    "usr_status current \<noteq> Active \<and> \<not> ue_revoke e \<longrightarrow> sessions d' = sessions d \<and> issued_tokens d' = issued_tokens d"
proof -
  from assms obtain cur e u d1 d2 d3 d4 d5 where c: "user_by_id i now d = Some cur" and ed: "edit d cur = Inr e" and u: "u = ApplySourceState ((ue_user e)\<lparr>usr_id := usr_id cur\<rparr>)"
    and adm: "usr_role cur = RoleAdmin \<and> usr_status cur = Active \<and> (usr_role u \<noteq> RoleAdmin \<or> usr_status u \<noteq> Active \<or> scheduling_end cur (ue_ends_at e)) \<longrightarrow>
      (\<exists>x \<in> set (users d). permanent_admin x \<and> usr_id x \<noteq> usr_id u)"
    and w: "write_user u (ue_ends_at e) now d = Inr d1" and d2: "d2 = retire_links EqualFold cur u now d1" and st: "user_by_id (usr_id u) now d2 = Some stored"
    and off: "(if usr_status cur = Active \<and> usr_status stored = Disabled then offboardUserTx stored False now d2
      else if ue_revoke e then revokeUserAccessTx (usr_id u) now d2 else Inr d2) = Inr d3"
    and q: "queueUserUpdateTx stored now d3 = Inr d4" and p: "reconcileProvisioningTx sha now d4 = Inr d5" and au: "recordAuditTx (ue_audit e) now d5 = Inr d'"
    by (rule updateUser_InrE)
  have fr: "sync_frame d3 d5" using queueUserUpdateTx_frame[OF q] reconcileProvisioningTx_frame[OF p] by (rule sync_frame_trans)
  from recordAuditTx_InrD[OF au] fr have tail: "users d' = users d3" "sessions d' = sessions d3" "issued_tokens d' = issued_tokens d3" by (auto simp: sync_frame_def)
  have "users d3 = users d2" using off revokeUserAccessTx_tables(1) sync_frame_tables(1) by (auto split: if_splits elim!: offboardUserTx_InrE)
  then have us: "users d' = users (retire_links EqualFold cur u now d1)" using tail(1) by (simp only: d2)
  have quiet: "usr_status cur \<noteq> Active \<and> \<not> ue_revoke e \<longrightarrow> sessions d' = sessions d \<and> issued_tokens d' = issued_tokens d"
  proof
    assume "usr_status cur \<noteq> Active \<and> \<not> ue_revoke e"
    with off have "d3 = d2" by simp
    then show "sessions d' = sessions d \<and> issued_tokens d' = issued_tokens d" using write_user_InrD(4,5)[OF w] by (simp only: tail d2 retire_links_frame(3,4))
  qed
  show thesis using that[OF c ed u adm w us quiet] .
qed

lemma updateUser_keeps_admin:
  assumes up: "updateUser sha EqualFold i edit now d = Inr (stored, d')" and keys: "distinct (map usr_id (users d))" and h: "has_permanent_admin d"
  shows "has_permanent_admin d'"
proof -
  from up obtain c e u d1 where c: "user_by_id i now d = Some c" and ed: "edit d c = Inr e" and u: "u = ApplySourceState ((ue_user e)\<lparr>usr_id := usr_id c\<rparr>)"
    and adm: "usr_role c = RoleAdmin \<and> usr_status c = Active \<and> (usr_role u \<noteq> RoleAdmin \<or> usr_status u \<noteq> Active \<or> scheduling_end c (ue_ends_at e)) \<longrightarrow>
      (\<exists>x \<in> set (users d). permanent_admin x \<and> usr_id x \<noteq> usr_id u)"
    and w: "write_user u (ue_ends_at e) now d = Inr d1" and us: "users d' = users (retire_links EqualFold c u now d1)" by (rule updateUser_users)
  have ui: "usr_id u = i" using u user_by_id_id[OF c] by simp
  have "has_permanent_admin d1"
  proof (cases "\<exists>x \<in> set (users d). permanent_admin x \<and> usr_id x \<noteq> i")
    case True
    then show ?thesis using write_user_InrD(1)[OF w] by (auto simp: has_permanent_admin_def set_sql_update_parts ui)
  next
    case False
    with h obtain x where x: "x \<in> set (users d)" "permanent_admin x" "usr_id x = i" by (auto simp: has_permanent_admin_def)
    then have cx: "c = x" using permanent_reads[OF c _ _ _ keys] by blast
    with x(2) have "usr_role c = RoleAdmin" "usr_status c = Active" "usr_ends_at c = None" by (simp_all add: permanent_admin_def)
    with adm False ui have "usr_role u = RoleAdmin" "usr_status u = Active" "ue_ends_at e = None"
      by (auto simp: scheduling_end_def split: option.splits)
    with x show ?thesis using write_user_InrD(1)[OF w] by (auto simp: has_permanent_admin_def set_sql_update_parts bex_Un ui permanent_admin_def)
  qed
  with us permanent_cong[of d' d1] retire_links_frame(6) show ?thesis by simp
qed

lemma DeleteUserWithSyncEvents_users:
  assumes del: "DeleteUserWithSyncEvents sha uid audit now d = Inr d'"
  shows "users d' = sql_delete (\<lambda>u. usr_id u = uid) (users d)"
proof -
  from del obtain u where u: "user_by_id uid now d = Some u" by (auto simp: DeleteUserWithSyncEvents_def split: option.splits)
  from del u obtain d1 where o: "offboardUserTx u True now d = Inr d1" by (auto simp: DeleteUserWithSyncEvents_def andthen_Inr_iff)
  from del u o obtain xs d2 d3 where s: "each (\<lambda>sys e. andthen (ensure (\<not> (\<exists>st \<in> set (sync_states e). state_at sys uid st)) ErrUnique) (\<lambda>_.
      insertResourceEventTx sys uid ''user.deleted'' (scimInactivePayload uid) 0 now (e\<lparr>sync_states := sql_insert (new_state sys uid False False) (sync_states e)\<rparr>))) xs d1 = Inr d2"
      and p: "reconcileProvisioningTx sha now (delete_user uid d2) = Inr d3" and au: "recordAuditTx audit now d3 = Inr d'"
    unfolding DeleteUserWithSyncEvents_def Let_def by (auto simp: andthen_Inr_iff)
  have "users d2 = users d1"
    by (rule each_keeps[OF s, where P = "\<lambda>e. users e = users d1"]) (auto simp: andthen_Inr_iff dest!: insertResourceEventTx_InrD)
  moreover from o have "users d1 = users d" using revokeUserAccessTx_tables(1) sync_frame_tables(1) by (elim offboardUserTx_InrE) simp
  moreover from recordAuditTx_InrD[OF au] have "users d' = users d3" by auto
  moreover have "users d3 = users (delete_user uid d2)" using sync_frame_tables(1)[OF reconcileProvisioningTx_frame[OF p]] .
  ultimately show ?thesis by (simp add: delete_user_def delete_issued_tokens_def delete_sessions_def Let_def)
qed

lemma DeleteUserWithSyncEvents_keeps_admin:
  assumes del: "DeleteUserWithSyncEvents sha uid audit now d = Inr d'" and keys: "distinct (map usr_id (users d))" and h: "has_permanent_admin d"
  shows "has_permanent_admin d'"
proof -
  from del obtain u where u: "user_by_id uid now d = Some u" by (auto simp: DeleteUserWithSyncEvents_def split: option.splits)
  from del u have "(if usr_role u = RoleAdmin \<and> usr_status u = Active then requirePermanentAdminTx (\<lambda>x. usr_id x \<noteq> uid) d else Inr ()) = Inr ()"
    by (auto simp: DeleteUserWithSyncEvents_def andthen_Inr_iff)
  then have adm: "usr_role u = RoleAdmin \<and> usr_status u = Active \<longrightarrow> (\<exists>x \<in> set (users d). permanent_admin x \<and> usr_id x \<noteq> uid)"
    by (auto simp: requirePermanentAdminTx_def split: if_splits)
  have "\<exists>x \<in> set (users d). permanent_admin x \<and> usr_id x \<noteq> uid"
  proof (rule ccontr)
    assume no: "\<not> ?thesis"
    with h obtain x where x: "x \<in> set (users d)" "permanent_admin x" "usr_id x = uid" by (auto simp: has_permanent_admin_def)
    then have "u = x" using permanent_reads[OF u _ _ _ keys] by blast
    with x adm no show False by (simp add: permanent_admin_def)
  qed
  then show ?thesis by (auto simp: has_permanent_admin_def DeleteUserWithSyncEvents_users[OF del] set_sql_delete)
qed

section \<open>An account past its end date\<close>

text \<open>
  C18. An ended account that is edited before the follow-up has run is switched off without being offboarded: the edit reads
  the account as disabled, writes that status into the row and, since nothing changed, revokes nothing. Its sessions and
  its tokens stay exactly as they were, and the follow-up, which looks for active rows, no longer finds it.
\<close>

theorem ended_edit_skips_offboarding:
  assumes up: "updateUser sha EqualFold i (\<lambda>_ u. Inr \<lparr>ue_user = u\<lparr>usr_display_name := name\<rparr>, ue_ends_at = map_option from_unix (usr_ends_at u),
      ue_revoke = False, ue_audit = audit\<rparr>) now d = Inr (stored, d')"
    and r: "r \<in> set (users d)" "usr_id r = i" "usr_status r = Active" "usr_source_connector_id r = None" "usr_ends_at r = Some v" "from_unix v \<le> now"
    and keys: "distinct (map usr_id (users d))"
  shows "sessions d' = sessions d \<and> issued_tokens d' = issued_tokens d \<and> (\<forall>x \<in> set (users d'). usr_id x = i \<longrightarrow> usr_status x = Disabled)"
proof -
  let ?edit = "(\<lambda>_ u. Inr \<lparr>ue_user = u\<lparr>usr_display_name := name\<rparr>, ue_ends_at = map_option from_unix (usr_ends_at u), ue_revoke = False, ue_audit = audit\<rparr>) :: db \<Rightarrow> user \<Rightarrow> err + user_edit"
  from up obtain c e u d1 where c: "user_by_id i now d = Some c" and e: "?edit d c = Inr e" and u: "u = ApplySourceState ((ue_user e)\<lparr>usr_id := usr_id c\<rparr>)"
    and adm: "usr_role c = RoleAdmin \<and> usr_status c = Active \<and> (usr_role u \<noteq> RoleAdmin \<or> usr_status u \<noteq> Active \<or> scheduling_end c (ue_ends_at e)) \<longrightarrow>
      (\<exists>x \<in> set (users d). permanent_admin x \<and> usr_id x \<noteq> usr_id u)"
    and w: "write_user u (ue_ends_at e) now d = Inr d1" and us: "users d' = users (retire_links EqualFold c u now d1)"
    and quiet: "usr_status c \<noteq> Active \<and> \<not> ue_revoke e \<longrightarrow> sessions d' = sessions d \<and> issued_tokens d' = issued_tokens d" by (rule updateUser_users)
  from c obtain x where x: "x \<in> set (users d)" "usr_id x = i" "c = scanUser now x" by (rule user_by_id_row)
  have "x = r" using key_unique[OF keys x(1) r(1)] x(2) r(2) by simp
  then have cs: "usr_status c = Disabled" "usr_source_connector_id c = None" "usr_id c = i" using x(3) r by (simp_all add: scanUser_def)
  then have off: "usr_status u = Disabled" "usr_id u = i" using u e by (auto simp: ApplySourceState_def)
  have "\<forall>y \<in> set (users d1). usr_id y = i \<longrightarrow> usr_status y = Disabled" using write_user_InrD(1)[OF w] off by (auto simp: set_sql_update_parts)
  then have "\<forall>(j, q, s, t) \<in> set (map standing (users d1)). j = i \<longrightarrow> s = Disabled" by auto
  then have "\<forall>(j, q, s, t) \<in> set (map standing (users d')). j = i \<longrightarrow> s = Disabled" unfolding us retire_links_frame(6) .
  then have "\<forall>y \<in> set (users d'). usr_id y = i \<longrightarrow> usr_status y = Disabled" by auto
  moreover have "\<not> ue_revoke e" using e by auto
  ultimately show ?thesis using quiet cs(1) by simp
qed

definition ended_db :: db where
  "ended_db = sample_db\<lparr>users := [sample_root, sample_ann\<lparr>usr_ends_at := Some 900\<rparr>]\<rparr>"

definition ended_rename :: "user tx" where
  "ended_rename = updateUser id (\<lambda>a b. nocase a = nocase b) ''u1'' (\<lambda>_ u. Inr \<lparr>ue_user = u\<lparr>usr_display_name := ''Anne''\<rparr>,
     ue_ends_at = map_option from_unix (usr_ends_at u), ue_revoke = False, ue_audit = None\<rparr>) sample_now ended_db"

theorem ended_edit_skips_offboarding_witness:
  "\<exists>stored d'. ended_rename = Inr (stored, d') \<and> sessions d' = sessions ended_db \<and> length (sessions ended_db) = 3 \<and>
     (\<forall>x \<in> set (users d'). usr_id x = ''u1'' \<longrightarrow> usr_status x = Disabled)"
proof -
  have "\<not> isl ended_rename" by code_simp
  then obtain stored d' where r: "ended_rename = Inr (stored, d')" by (metis succeeds surj_pair)
  let ?u = "sample_ann\<lparr>usr_ends_at := Some 900\<rparr>"
  have w: "?u \<in> set (users ended_db)" "usr_id ?u = ''u1''" "usr_status ?u = Active" "usr_source_connector_id ?u = None" "usr_ends_at ?u = Some 900" "from_unix 900 \<le> sample_now"
    by (simp_all add: ended_db_def sample_ann_def from_unix_def sample_now_def)
  have k: "distinct (map usr_id (users ended_db))" "length (sessions ended_db) = 3" by code_simp+
  from ended_edit_skips_offboarding[OF r[unfolded ended_rename_def] w k(1)] r k(2) show ?thesis by blast
qed


section \<open>Redeeming a link\<close>

lemma RedeemAccountToken_InrE:
  assumes "RedeemAccountToken sha raw kind pw audit now d = Inr (u, d')"
  obtains t d1 d2 d3 au where "t \<in> set (account_tokens d)" "at_token_hash t = sha raw" "at_kind t = kind" "at_used_at t = None" "now < at_expires_at t"
    "usr_id u = at_user_id t" "sql_count (\<lambda>x. usr_id x = at_user_id t \<and> redeemable_account kind x) (users d) = 1"
    "users d1 = sql_update (\<lambda>x. usr_id x = at_user_id t \<and> redeemable_account kind x) (redeemed_account kind (at_delivery t) pw now) (users d)"
    "revokeUserAccessTx (at_user_id t) now d1 = Inr d2"
    "reconcileProvisioningTx sha now (d2\<lparr>login_failures := sql_delete (\<lambda>f. lf_user_id f = at_user_id t) (login_failures d2)\<rparr>) = Inr d3"
    "recordAuditTx au now d3 = Inr d'"
proof -
  from assms obtain t where t: "sql_first (\<lambda>t. at_token_hash t = sha raw \<and> at_kind t = kind \<and> at_used_at t = None \<and> at_expires_at t > now) (account_tokens d) = Some t"
    by (auto simp: RedeemAccountToken_def split: option.splits)
  let ?d0 = "d\<lparr>account_tokens := sql_update (\<lambda>x. at_id x = at_id t \<and> at_used_at x = None) (\<lambda>x. x\<lparr>at_used_at := Some now\<rparr>) (account_tokens d)\<rparr>"
  let ?hit = "\<lambda>x. usr_id x = at_user_id t \<and> redeemable_account kind x"
  let ?d1 = "?d0\<lparr>users := sql_update ?hit (redeemed_account kind (at_delivery t) pw now) (users ?d0)\<rparr>"
  from assms t obtain d2 d3 where c: "sql_count ?hit (users d) = 1" and r: "revokeUserAccessTx (at_user_id t) now ?d1 = Inr d2"
      and p: "reconcileProvisioningTx sha now (d2\<lparr>login_failures := sql_delete (\<lambda>f. lf_user_id f = at_user_id t) (login_failures d2)\<rparr>) = Inr d3"
    by (auto simp: RedeemAccountToken_def Let_def andthen_Inr_iff)
  from assms t r p obtain au where u: "user_by_id (at_user_id t) now d3 = Some u" and au: "recordAuditTx au now d3 = Inr d'"
    by (auto simp: RedeemAccountToken_def Let_def andthen_Inr_iff split: option.splits)
  from find_SomeD[OF t] have "t \<in> set (account_tokens d)" "at_token_hash t = sha raw" "at_kind t = kind" "at_used_at t = None" "now < at_expires_at t" by auto
  from that[OF this user_by_id_id[OF u] c _ r p au] show thesis by simp
qed

text \<open>
  C17. An account link does what it was issued for, once: a redemption means a live, unused link of that kind whose account
  is still in the state the link was meant for, sets that account's password and clears its failed attempts, and ends
  everything the account had, so that at no later instant does this link or any other link of the account redeem.
\<close>

theorem link_redemption_means:
  assumes "RedeemAccountToken sha raw kind pw audit now d = Inr (u, d')"
  shows "\<exists>t \<in> set (account_tokens d). at_token_hash t = sha raw \<and> at_kind t = kind \<and> at_used_at t = None \<and> now < at_expires_at t \<and> usr_id u = at_user_id t \<and>
    (\<exists>r \<in> set (users d). usr_id r = at_user_id t \<and> redeemable_account kind r \<and> redeemed_account kind (at_delivery t) pw now r \<in> set (users d')) \<and>
    access_over (at_user_id t) now d' \<and> (\<forall>f \<in> set (login_failures d'). lf_user_id f \<noteq> at_user_id t) \<and>
    (\<forall>raw' kind' pw' audit' t' u' d''. now \<le> t' \<and> RedeemAccountToken sha raw' kind' pw' audit' t' d' = Inr (u', d'') \<longrightarrow> usr_id u' \<noteq> at_user_id t)"
proof -
  from assms obtain t d1 d2 d3 au where t: "t \<in> set (account_tokens d)" "at_token_hash t = sha raw" "at_kind t = kind" "at_used_at t = None" "now < at_expires_at t"
      and u: "usr_id u = at_user_id t" and c: "sql_count (\<lambda>x. usr_id x = at_user_id t \<and> redeemable_account kind x) (users d) = 1"
      and us: "users d1 = sql_update (\<lambda>x. usr_id x = at_user_id t \<and> redeemable_account kind x) (redeemed_account kind (at_delivery t) pw now) (users d)"
      and r: "revokeUserAccessTx (at_user_id t) now d1 = Inr d2"
      and p: "reconcileProvisioningTx sha now (d2\<lparr>login_failures := sql_delete (\<lambda>f. lf_user_id f = at_user_id t) (login_failures d2)\<rparr>) = Inr d3"
      and au: "recordAuditTx au now d3 = Inr d'" by (rule RedeemAccountToken_InrE)
  let ?d2 = "d2\<lparr>login_failures := sql_delete (\<lambda>f. lf_user_id f = at_user_id t) (login_failures d2)\<rparr>"
  note fr = reconcileProvisioningTx_frame[OF p]
  from recordAuditTx_InrD[OF au] fr have tail: "users d' = users d2" "login_failures d' = login_failures ?d2" by (auto simp: sync_frame_def)
  have "access_over (at_user_id t) now ?d2" using revokeUserAccessTx_over[OF r] by (simp add: access_over_def)
  then have over: "access_over (at_user_id t) now d'" using access_over_frame[OF fr] access_over_audit[OF au] by simp
  from c obtain x where x: "x \<in> set (users d)" "usr_id x = at_user_id t" "redeemable_account kind x"
    by (metis (mono_tags, lifting) One_nat_def filter_False list.size(3) nat.simps(3) sql_count_def)
  then have "redeemed_account kind (at_delivery t) pw now x \<in> set (users d')"
    using revokeUserAccessTx_tables(1)[OF r] by (auto simp: tail us set_sql_update_parts)
  moreover have "\<forall>f \<in> set (login_failures d'). lf_user_id f \<noteq> at_user_id t" by (simp add: tail set_sql_delete)
  moreover have "usr_id u' \<noteq> at_user_id t" if later: "now \<le> t'" "RedeemAccountToken sha raw' kind' pw' audit' t' d' = Inr (u', d'')" for raw' kind' pw' audit' t' u' d''
  proof -
    from later(2) obtain t2 where t2: "t2 \<in> set (account_tokens d')" "at_used_at t2 = None" "t' < at_expires_at t2" "usr_id u' = at_user_id t2"
      by (rule RedeemAccountToken_InrE)
    with over later(1) show ?thesis by (force simp: access_over_def)
  qed
  ultimately show ?thesis using t u x over by (intro bexI[OF _ t(1)]) blast
qed

definition sample_link :: account_token where
  "sample_link = \<lparr>at_id = ''k1'', at_user_id = ''u1'', at_kind = Reset, at_token_hash = ''secret'', at_delivery = Email, at_expires_at = 2000 * second,
     at_used_at = None, at_created_at = 0\<rparr>"

theorem link_redemption_means_witness:
  "\<exists>u d'. RedeemAccountToken id ''secret'' Reset ''h2'' None sample_now (sample_db\<lparr>account_tokens := [sample_link]\<rparr>) = Inr (u, d') \<and>
     usr_id u = ''u1'' \<and> access_over ''u1'' sample_now d'"
proof -
  let ?d = "sample_db\<lparr>account_tokens := [sample_link]\<rparr>"
  let ?r = "RedeemAccountToken id ''secret'' Reset ''h2'' None sample_now ?d"
  have "\<not> isl ?r" by code_simp
  then obtain u d' where r: "?r = Inr (u, d')" by (metis succeeds surj_pair)
  have "set (account_tokens ?d) = {sample_link}" "at_user_id sample_link = ''u1''" by (simp_all add: sample_link_def)
  with link_redemption_means[OF r] r show ?thesis by auto
qed

end
