(* ===== verification/Ky_Expiry.thy ===== *)
theory Ky_Expiry
  imports Ky_Accounts
begin

text \<open>
  The follow-up of expiring access (\<^verbatim>\<open>internal/store/expiry.go\<close>) and the completion view of an offboarding
  (\<^verbatim>\<open>offboarding.go\<close>). Each due item is a transaction of its own: one that fails is audited, collected and left for
  the next pass. \<open>errtext\<close> is the text of an error.
\<close>

section \<open>The follow-up\<close>

record expiry_run =
  xr_accounts :: nat
  xr_memberships :: nat
  xr_assignments :: nat

definition expiryAudit :: "time \<Rightarrow> string \<Rightarrow> string \<Rightarrow> string \<Rightarrow> outcome \<Rightarrow> json \<Rightarrow> db \<Rightarrow> err + db" where
  "expiryAudit now action targetID targetType outcome details d =
     (let (i, d1) = fresh_id d
      in recordAuditTx (Some \<lparr>au_id = i, au_actor_id = '''', au_actor_username = ''expiry'', au_action = action, au_target_id = targetID, au_target_type = targetType,
           au_ip_address = '''', au_user_agent = '''', au_outcome = outcome, au_details = details, au_created_at = Some now\<rparr>) now d1)"

definition due_at :: "time \<Rightarrow> int option \<Rightarrow> bool" where
  "due_at now e = (case e of None \<Rightarrow> False | Some v \<Rightarrow> v \<le> unixepoch now)"

definition due_account :: "time \<Rightarrow> user \<Rightarrow> bool" where
  "due_account now u \<longleftrightarrow> due_at now (usr_ends_at u) \<and> usr_status u = Active"

text \<open>An account past its end date is disabled and offboarded; the last administrator is kept, its end date cleared.\<close>

definition end_account :: "time \<Rightarrow> string \<Rightarrow> db \<Rightarrow> bool tx" where
  "end_account now i d =
     (case sql_first (\<lambda>u. usr_id u = i \<and> due_account now u) (users d) of
        None \<Rightarrow> Inr (False, d)
      | Some row \<Rightarrow>
         (let u = scanUser now row; mine = (\<lambda>x. usr_id x = usr_id u)
          in if usr_role u = RoleAdmin \<and> sql_count (\<lambda>x. active_admin now x \<and> usr_id x \<noteq> usr_id u) (users d) = 0 then
               andthen (expiryAudit now ''account.end_refused'' (usr_id u) ''user'' Denied (JObj [(''username'', JStr (usr_username u)), (''reason'', JStr ''last_active_admin'')])
                 (d\<lparr>users := sql_update mine (\<lambda>x. x\<lparr>usr_ends_at := None, usr_updated_at := now\<rparr>) (users d)\<rparr>)) (\<lambda>d1. Inr (False, d1))
             else
               let v = u\<lparr>usr_status := Disabled, usr_locally_disabled := True\<rparr>
               in andthen (offboardUserTx v False now
                    (d\<lparr>users := sql_update mine (\<lambda>x. x\<lparr>usr_status := Disabled, usr_locally_disabled := True, usr_updated_at := now\<rparr>) (users d)\<rparr>)) (\<lambda>d1.
                  andthen (queueUserUpdateTx v now d1) (\<lambda>d2.
                  andthen (expiryAudit now ''account.ended'' (usr_id u) ''user'' Success (JObj [(''username'', JStr (usr_username u))]) d2) (\<lambda>d3.
                  Inr (True, d3))))))"

text \<open>A membership that ended leaves the group the way a removal does.\<close>

definition expire_membership :: "time \<Rightarrow> string \<times> string \<Rightarrow> db \<Rightarrow> bool tx" where
  "expire_membership now m d = (case m of (g, i) \<Rightarrow>
     (let mine = (\<lambda>x. gm_group_id x = g \<and> gm_user_id x = i \<and> due_at now (gm_expires_at x))
      in if sql_count mine (group_memberships d) = 0 then Inr (False, d)
         else andthen (groupRoleChangeTx g [i] now (d\<lparr>group_memberships := sql_delete mine (group_memberships d)\<rparr>)) (\<lambda>d1.
              let required = (case sql_first (\<lambda>p. ep_group_id p = Some g) (enrollment_policies d1) of None \<Rightarrow> False | Some p \<Rightarrow> ep_required p)
              in andthen (expiryAudit now ''group.membership_expired'' g ''group'' Success (JObj [(''userId'', JStr i)])
                   (if required then invalidateUserEnrollmentTx i now d1 else d1)) (\<lambda>d2. Inr (True, d2)))))"

definition expire_assignment :: "time \<Rightarrow> string \<times> string \<Rightarrow> db \<Rightarrow> bool tx" where
  "expire_assignment now x d = (case x of (a, i) \<Rightarrow>
     (let mine = (\<lambda>x. ua_app_id x = a \<and> ua_user_id x = i \<and> due_at now (ua_expires_at x))
      in if sql_count mine (user_assignments d) = 0 then Inr (False, d)
         else andthen (expiryAudit now ''app.assignment_expired'' a ''application'' Success (JObj [(''userId'', JStr i)])
                (bump_app a (d\<lparr>user_assignments := sql_delete mine (user_assignments d)\<rparr>))) (\<lambda>d1. Inr (True, d1))))"

text \<open>One pass over the items of a kind: how many took effect, the errors of those that failed, the database after.\<close>

fun run_items :: "('x \<Rightarrow> db \<Rightarrow> bool tx) \<Rightarrow> ('x \<Rightarrow> err \<Rightarrow> db \<Rightarrow> db) \<Rightarrow> 'x list \<Rightarrow> db \<Rightarrow> nat \<times> err list \<times> db" where
  "run_items step failed [] d = (0, [], d)"
| "run_items step failed (x # xs) d =
     (case step x d of
        Inl e \<Rightarrow> (let (n, es, d') = run_items step failed xs (failed x e d) in (n, e # es, d'))
      | Inr (done, d1) \<Rightarrow> (let (n, es, d') = run_items step failed xs d1 in (if done then Suc n else n, es, d')))"

text \<open>The failure of an item, audited on its own; an audit row that cannot be written is dropped.\<close>

definition expiry_failed :: "(err \<Rightarrow> string) \<Rightarrow> time \<Rightarrow> string \<Rightarrow> string \<Rightarrow> string \<Rightarrow> err \<Rightarrow> db \<Rightarrow> db" where
  "expiry_failed errtext now action targetID targetType e d =
     (case expiryAudit now action targetID targetType Failure (JObj [(''error'', JStr (errtext e))]) d of Inl _ \<Rightarrow> d | Inr d1 \<Rightarrow> d1)"

definition expiry_follow_up :: "(string \<Rightarrow> string) \<Rightarrow> time \<Rightarrow> db \<Rightarrow> err + db" where
  "expiry_follow_up sha now d = reconcileAccessTx sha now (expireAccessRequestsTx now d)"

definition RunDueExpiries :: "(string \<Rightarrow> string) \<Rightarrow> (err \<Rightarrow> string) \<Rightarrow> time \<Rightarrow> db \<Rightarrow> expiry_run \<times> err list \<times> db" where
  "RunDueExpiries sha errtext now d =
     (let (n1, e1, d1) = run_items (end_account now) (\<lambda>i. expiry_failed errtext now ''account.end_failed'' i ''user'')
            (map usr_id (filter (due_account now) (users d))) d;
          (n2, e2, d2) = run_items (expire_membership now) (\<lambda>m. expiry_failed errtext now ''group.membership_expiry_failed'' (fst m) ''group'')
            (map (\<lambda>m. (gm_group_id m, gm_user_id m)) (filter (\<lambda>m. due_at now (gm_expires_at m)) (group_memberships d1))) d1;
          (n3, e3, d3) = run_items (expire_assignment now) (\<lambda>x. expiry_failed errtext now ''app.assignment_expiry_failed'' (fst x) ''application'')
            (map (\<lambda>x. (ua_app_id x, ua_user_id x)) (filter (\<lambda>x. due_at now (ua_expires_at x)) (user_assignments d2))) d2;
          (e4, d4) = (case expiry_follow_up sha now d3 of
             Inl e \<Rightarrow> ([e], expiry_failed errtext now ''access.expiry_reconcile_failed'' '''' ''directory'' e d3) | Inr d4 \<Rightarrow> ([], d4))
      in (\<lparr>xr_accounts = n1, xr_memberships = n2, xr_assignments = n3\<rparr>, e1 @ e2 @ e3 @ e4, d4))"

section \<open>The completion view\<close>

record provisioning_event =
  pe_type :: string
  pe_status :: event_status
  pe_error :: string
  pe_attempts :: int
  pe_next_attempt :: "time option"
  pe_updated_at :: time

record offboarding_target =
  ot_system :: paired_system
  ot_revision :: int
  ot_recorded :: bool
  ot_acknowledged :: bool
  ot_observed :: string
  ot_observed_at :: "time option"
  ot_verified :: bool
  ot_contradicted :: bool
  ot_blocked :: bool
  ot_last_event :: "provisioning_event option"

record offboarding =
  ob_user_id :: string
  ob_active :: bool
  ob_deleted :: bool
  ob_targets :: "offboarding_target list"
  ob_logouts :: "logout_delivery list"
  ob_acknowledged :: bool
  ob_verified :: bool

definition last_event :: "string \<Rightarrow> string \<Rightarrow> db \<Rightarrow> provisioning_event option" where
  "last_event sys uid d = map_option (\<lambda>e. \<lparr>pe_type = se_event_type e, pe_status = se_status e, pe_error = ref (se_last_error e), pe_attempts = se_attempts e,
       pe_next_attempt = se_next_attempt_at e, pe_updated_at = se_updated_at e\<rparr>)
     (sql_first (\<lambda>e. se_system_id e = sys \<and> se_user_id e = uid) (rev (sync_events d)))"

definition target_of :: "sync_state \<Rightarrow> paired_system \<Rightarrow> db \<Rightarrow> offboarding_target" where
  "target_of st s d =
     (let recorded = \<not> ss_active st; ev = last_event (ps_id s) (ss_resource_id st) d;
          (acknowledged, baseline) = (case ss_offboarded_at st of Some t \<Rightarrow> (True, Some t)
            | None \<Rightarrow> (case ev of None \<Rightarrow> (False, None) | Some e \<Rightarrow> (pe_status e = EvDelivered, Some (pe_updated_at e))));
          listed_after = (case (ss_observed_at st, baseline) of (Some a, Some b) \<Rightarrow> b \<le> a | _ \<Rightarrow> False);
          contradicted = (recorded \<and> listed_after \<and> ss_observed st = ''present_active'')
      in \<lparr>ot_system = s, ot_revision = ss_revision st, ot_recorded = recorded, ot_acknowledged = (recorded \<and> acknowledged \<and> \<not> contradicted),
          ot_observed = ss_observed st, ot_observed_at = ss_observed_at st,
          ot_verified = (recorded \<and> listed_after \<and> (ss_observed st = ''present_inactive'' \<or> ss_observed st = ''absent'')),
          ot_contradicted = contradicted, ot_blocked = (\<exists>a \<in> set (delivery_attempts d). da_system_id a = ps_id s \<and> da_user_id a = ss_resource_id st), ot_last_event = ev\<rparr>)"

definition ListLogoutDeliveries :: "string \<Rightarrow> int \<Rightarrow> db \<Rightarrow> logout_delivery list" where
  "ListLogoutDeliveries userID limit d = take (nat (if limit \<le> 0 \<or> limit > 200 then 50 else limit))
     (sort_key (\<lambda>x. - ld_created_at x) (sort_key ld_id (filter (\<lambda>x. ld_user_id x = userID) (logout_deliveries d))))"

definition UserOffboarding :: "string \<Rightarrow> time \<Rightarrow> db \<Rightarrow> err + offboarding" where
  "UserOffboarding userID now d =
     (let exists = (\<exists>u \<in> set (users d). usr_id u = userID);
          active = (\<exists>u \<in> set (users d). usr_id u = userID \<and> usr_status u = Active \<and> live_until (usr_ends_at u) now);
          targets = map (\<lambda>(st, s). target_of st s d) (order_pairs (\<lambda>(st, s). nocase (ps_name s)) (\<lambda>(st, s). ps_id s)
            (concat (map (\<lambda>st. map (\<lambda>s. (st, s)) (filter (\<lambda>s. ps_id s = ss_system_id st) (paired_systems d)))
              (filter (\<lambda>st. ss_resource_id st = userID \<and> ss_kind st = UserResource) (sync_states d)))));
          logouts = ListLogoutDeliveries userID 50 d;
          outstanding = (\<exists>x \<in> set (logout_deliveries d). ld_user_id x = userID \<and> ld_status x \<noteq> Delivered);
          acknowledged = (\<not> active \<and> (\<forall>t \<in> set targets. ot_acknowledged t) \<and> \<not> outstanding);
          verified = (\<not> active \<and> (\<forall>t \<in> set targets. ot_verified t) \<and> acknowledged)
      in if \<not> exists \<and> targets = [] \<and> logouts = [] then Inl ErrNoRows
         else Inr \<lparr>ob_user_id = userID, ob_active = active, ob_deleted = (\<not> exists), ob_targets = targets, ob_logouts = logouts,
                ob_acknowledged = acknowledged, ob_verified = verified\<rparr>)"

section \<open>One pass\<close>

lemma run_items_keeps:
  assumes "run_items step failed xs d = (n, es, d')" and "P d"
    and "\<And>x e b e'. step x e = Inr (b, e') \<Longrightarrow> P e \<Longrightarrow> P e'" and "\<And>x er e. P e \<Longrightarrow> P (failed x er e)"
  shows "P d'"
  using assms(1,2)
proof (induction xs arbitrary: d n es)
  case (Cons x xs)
  obtain n1 e1 where r: "run_items step failed xs (case step x d of Inl e \<Rightarrow> failed x e d | Inr (b, d1) \<Rightarrow> d1) = (n1, e1, d')"
    using Cons.prems(1) by (auto split: sum.splits prod.splits)
  have "P (case step x d of Inl e \<Rightarrow> failed x e d | Inr (b, d1) \<Rightarrow> d1)" using assms(3,4) Cons.prems(2) by (auto split: sum.split)
  with Cons.IH[OF r] show ?case by blast
qed simp

text \<open>A pass without failures clears everything that was due when it began.\<close>

lemma run_items_clears:
  assumes "run_items step failed xs d = (n, [], d')" and "\<And>x e b e'. step x e = Inr (b, e') \<Longrightarrow> D e' \<subseteq> D e - {x}"
  shows "D d' \<subseteq> D d - set xs"
  using assms(1)
proof (induction xs arbitrary: d n)
  case (Cons x xs)
  from Cons.prems obtain b d1 where s: "step x d = Inr (b, d1)" by (cases "step x d") (auto split: prod.splits)
  with Cons.prems obtain m where "run_items step failed xs d1 = (m, [], d')" by (auto split: prod.splits)
  from Cons.IH[OF this] assms(2)[OF s] show ?case by auto
qed simp

lemma expiryAudit_InrD: "expiryAudit now action i ty out details d = Inr d' \<Longrightarrow> \<exists>p es. d' = d\<lparr>rand_pos := p, audit_events := es\<rparr>"
  by (auto simp: expiryAudit_def fresh_id_def dest!: recordAuditTx_InrD)

lemma expiry_failed_frame: "\<exists>p es. expiry_failed errtext now action i ty e d = d\<lparr>rand_pos := p, audit_events := es\<rparr>"
proof (cases "expiryAudit now action i ty Failure (JObj [(''error'', JStr (errtext e))]) d")
  case Inl
  then show ?thesis by (intro exI[of _ "rand_pos d"] exI[of _ "audit_events d"]) (simp add: expiry_failed_def)
next
  case Inr
  with expiryAudit_InrD[OF Inr] show ?thesis by (simp add: expiry_failed_def)
qed

text \<open>The tables the follow-up empties of what is due.\<close>

definition row_tables :: "db \<Rightarrow> user list \<times> membership list \<times> user_assignment list \<times> access_request list" where
  "row_tables d = (users d, group_memberships d, user_assignments d, access_requests d)"

lemma sync_frame_rows: "sync_frame d d' \<Longrightarrow> row_tables d' = row_tables d"
  by (auto simp: sync_frame_def row_tables_def)

lemma expiryAudit_rows: "expiryAudit now action i ty out details d = Inr d' \<Longrightarrow> row_tables d' = row_tables d"
  by (auto simp: row_tables_def dest!: expiryAudit_InrD)

lemma expiry_failed_rows [simp]: "row_tables (expiry_failed errtext now action i ty e d) = row_tables d"
  using expiry_failed_frame[of errtext now action i ty e d] by (auto simp: row_tables_def)

lemma role_change_users_rows:
  assumes "role_change_users app us now d = Inr d'"
  shows "row_tables d' = row_tables d"
  using assms
proof (induction us arbitrary: d)
  case (Cons uid us)
  let ?d1 = "end_client_grants (ref (app_client_id app)) uid now d" and ?sys = "ref (app_system_id app)"
  have e: "row_tables ?d1 = row_tables d" by (simp add: row_tables_def end_client_grants_def)
  show ?case
  proof (cases "?sys = '''' \<or> \<not> role_profile_desired app uid now ?d1")
    case True
    with Cons.prems Cons.IH[of ?d1] e show ?thesis by (auto simp: Let_def)
  next
    case False
    then obtain u where u: "user_by_id uid now ?d1 = Some u" using desired_role_user by blast
    from Cons.prems False u obtain body d2 where q: "queueDesiredStateTx (desired_user ?sys uid True body) now ?d1 = Inr d2" "role_change_users app us now d2 = Inr d'"
      by (auto simp: Let_def result_iffs)
    show ?thesis using Cons.IH[OF q(2)] sync_frame_rows[OF queueDesiredStateTx_InrD(1)[OF q(1)]] e by simp
  qed
qed simp

lemma groupRoleChangeTx_rows:
  assumes "groupRoleChangeTx g us now d = Inr d'"
  shows "row_tables d' = row_tables d"
proof -
  from assms obtain apps where r: "roleChangeForAppsTx apps us now d = Inr d'" by (rule groupRoleChangeTx_InrE)
  show ?thesis
  proof (cases "us = []")
    case False
    with r have "each (\<lambda>app. roleChangeTx app us now) apps d = Inr d'" by (simp add: roleChangeForAppsTx_def)
    then show ?thesis
      by (rule each_keeps[where P = "\<lambda>e. row_tables e = row_tables d"]) (auto simp: roleChangeTx_def row_tables_def dest!: role_change_users_rows)
  qed (use r in \<open>simp add: roleChangeForAppsTx_def\<close>)
qed


section \<open>What each step does to the rows\<close>

lemma end_account_InrD:
  assumes "end_account now i d = Inr (b, d')"
  shows "\<exists>f. users d' = sql_update (\<lambda>x. usr_id x = i \<and> (\<exists>r \<in> set (users d). usr_id r = i \<and> due_account now r)) f (users d) \<and>
      (\<forall>x. usr_id (f x) = usr_id x \<and> \<not> due_account now (f x))"
    and "group_memberships d' = group_memberships d" "user_assignments d' = user_assignments d" "access_requests d' = access_requests d"
proof -
  have "(\<exists>f. users d' = sql_update (\<lambda>x. usr_id x = i \<and> (\<exists>r \<in> set (users d). usr_id r = i \<and> due_account now r)) f (users d) \<and>
      (\<forall>x. usr_id (f x) = usr_id x \<and> \<not> due_account now (f x))) \<and>
    group_memberships d' = group_memberships d \<and> user_assignments d' = user_assignments d \<and> access_requests d' = access_requests d"
  proof (cases "sql_first (\<lambda>u. usr_id u = i \<and> due_account now u) (users d)")
    case None
    then have "\<not> (\<exists>r \<in> set (users d). usr_id r = i \<and> due_account now r)" by (auto simp: find_None_iff)
    with None assms show ?thesis
      by (auto simp: end_account_def sql_update_noop due_account_def due_at_def intro!: exI[of _ "\<lambda>x. x\<lparr>usr_ends_at := None\<rparr>"])
  next
    case (Some row)
    from find_SomeD[OF Some] have row: "row \<in> set (users d)" "usr_id row = i" "due_account now row" by auto
    have sid: "usr_id (scanUser now row) = i" using row(2) by (simp add: scanUser_def split: option.split)
    have p: "(\<lambda>x. usr_id x = i \<and> (\<exists>r \<in> set (users d). usr_id r = i \<and> due_account now r)) = (\<lambda>x. usr_id x = i)" using row by auto
    let ?keep = "\<lambda>x. x\<lparr>usr_ends_at := None, usr_updated_at := now\<rparr>" and ?off = "\<lambda>x. x\<lparr>usr_status := Disabled, usr_locally_disabled := True, usr_updated_at := now\<rparr>"
    let ?v = "(scanUser now row)\<lparr>usr_status := Disabled, usr_locally_disabled := True\<rparr>"
    from assms Some consider
        (kept) ac ty det where "expiryAudit now ac i ty Denied det (d\<lparr>users := sql_update (\<lambda>x. usr_id x = i) ?keep (users d)\<rparr>) = Inr d'"
      | (ended) d1 d2 ac ty det where "offboardUserTx ?v False now (d\<lparr>users := sql_update (\<lambda>x. usr_id x = i) ?off (users d)\<rparr>) = Inr d1"
          "queueUserUpdateTx ?v now d1 = Inr d2" "expiryAudit now ac i ty Success det d2 = Inr d'"
      by (auto simp: end_account_def Let_def sid andthen_Inr_iff split: if_splits)
    then show ?thesis
    proof cases
      case kept
      from expiryAudit_rows[OF kept] show ?thesis unfolding p
        by (auto simp: row_tables_def due_account_def due_at_def intro!: exI[of _ ?keep])
    next
      case ended
      from ended(1) obtain dr where "revokeUserAccessTx (usr_id ?v) now (d\<lparr>users := sql_update (\<lambda>x. usr_id x = i) ?off (users d)\<rparr>) = Inr dr" "sync_frame dr d1"
        by (rule offboardUserTx_InrE)
      with revokeUserAccessTx_tables(1,7-9)[OF this(1)] sync_frame_rows[OF this(2)] sync_frame_rows[OF queueUserUpdateTx_frame[OF ended(2)]] expiryAudit_rows[OF ended(3)]
      show ?thesis unfolding p by (auto simp: row_tables_def due_account_def intro!: exI[of _ ?off])
    qed
  qed
  then show "\<exists>f. users d' = sql_update (\<lambda>x. usr_id x = i \<and> (\<exists>r \<in> set (users d). usr_id r = i \<and> due_account now r)) f (users d) \<and>
      (\<forall>x. usr_id (f x) = usr_id x \<and> \<not> due_account now (f x))"
    "group_memberships d' = group_memberships d" "user_assignments d' = user_assignments d" "access_requests d' = access_requests d" by blast+
qed

definition due_ids :: "time \<Rightarrow> db \<Rightarrow> string set" where
  "due_ids now d = usr_id ` {u \<in> set (users d). due_account now u}"

definition due_members :: "time \<Rightarrow> db \<Rightarrow> (string \<times> string) set" where
  "due_members now d = member_key ` {m \<in> set (group_memberships d). due_at now (gm_expires_at m)}"

definition due_grants :: "time \<Rightarrow> db \<Rightarrow> (string \<times> string) set" where
  "due_grants now d = grant_key ` {x \<in> set (user_assignments d). due_at now (ua_expires_at x)}"

lemma end_account_clears:
  assumes "end_account now i d = Inr (b, d')"
  shows "due_ids now d' \<subseteq> due_ids now d - {i}"
proof -
  from end_account_InrD(1)[OF assms] obtain f where f: "users d' = sql_update (\<lambda>x. usr_id x = i \<and> (\<exists>r \<in> set (users d). usr_id r = i \<and> due_account now r)) f (users d)"
    "\<And>x. usr_id (f x) = usr_id x" "\<And>x. \<not> due_account now (f x)" by blast
  show ?thesis unfolding due_ids_def f(1) set_sql_update_parts using f(2,3) by auto
qed

lemma expire_membership_InrD:
  assumes "expire_membership now m d = Inr (b, d')"
  shows "due_members now d' \<subseteq> due_members now d - {m}" "users d' = users d" "user_assignments d' = user_assignments d" "access_requests d' = access_requests d"
proof -
  obtain g i where m: "m = (g, i)" by fastforce
  let ?mine = "\<lambda>x. gm_group_id x = g \<and> gm_user_id x = i \<and> due_at now (gm_expires_at x)"
  have "users d' = users d \<and> user_assignments d' = user_assignments d \<and> access_requests d' = access_requests d \<and> group_memberships d' = sql_delete ?mine (group_memberships d)"
  proof (cases "sql_count ?mine (group_memberships d) = 0")
    case True
    then have "sql_delete ?mine (group_memberships d) = group_memberships d" by (intro sql_delete_noop) (auto simp: sql_count_def filter_empty_conv)
    with True assms show ?thesis by (simp add: expire_membership_def m)
  next
    case False
    with assms obtain d1 c e out where r: "groupRoleChangeTx g [i] now (d\<lparr>group_memberships := sql_delete ?mine (group_memberships d)\<rparr>) = Inr d1"
        and a: "expiryAudit now c g e Success out (if (case sql_first (\<lambda>p. ep_group_id p = Some g) (enrollment_policies d1) of None \<Rightarrow> False | Some p \<Rightarrow> ep_required p)
          then invalidateUserEnrollmentTx i now d1 else d1) = Inr d'"
      by (auto simp: expire_membership_def m Let_def andthen_Inr_iff)
    have "row_tables (invalidateUserEnrollmentTx i now d1) = row_tables d1" by (simp add: row_tables_def invalidateUserEnrollmentTx_def)
    with expiryAudit_rows[OF a] have "row_tables d' = row_tables d1" by (simp split: if_splits)
    with groupRoleChangeTx_rows[OF r] show ?thesis by (simp add: row_tables_def)
  qed
  then show "due_members now d' \<subseteq> due_members now d - {m}" "users d' = users d" "user_assignments d' = user_assignments d" "access_requests d' = access_requests d"
    by (auto simp: due_members_def m set_sql_delete)
qed

lemma expire_assignment_InrD:
  assumes "expire_assignment now x d = Inr (b, d')"
  shows "due_grants now d' \<subseteq> due_grants now d - {x}" "users d' = users d" "group_memberships d' = group_memberships d" "access_requests d' = access_requests d"
proof -
  obtain a i where x: "x = (a, i)" by fastforce
  let ?mine = "\<lambda>x. ua_app_id x = a \<and> ua_user_id x = i \<and> due_at now (ua_expires_at x)"
  have "users d' = users d \<and> group_memberships d' = group_memberships d \<and> access_requests d' = access_requests d \<and> user_assignments d' = sql_delete ?mine (user_assignments d)"
  proof (cases "sql_count ?mine (user_assignments d) = 0")
    case True
    then have "sql_delete ?mine (user_assignments d) = user_assignments d" by (intro sql_delete_noop) (auto simp: sql_count_def filter_empty_conv)
    with True assms show ?thesis by (simp add: expire_assignment_def x)
  next
    case False
    with assms show ?thesis by (auto simp: expire_assignment_def x Let_def andthen_Inr_iff row_tables_def bump_app_def dest!: expiryAudit_rows)
  qed
  then show "due_grants now d' \<subseteq> due_grants now d - {x}" "users d' = users d" "group_memberships d' = group_memberships d" "access_requests d' = access_requests d"
    by (auto simp: due_grants_def x set_sql_delete)
qed


section \<open>A whole run\<close>

lemma reconcileAccessTx_rows:
  assumes "reconcileAccessTx sha now d = Inr d'"
  shows "row_tables d' = row_tables d"
proof -
  from assms obtain d0 where s: "revokeLostAppAccessTx now d = Inr d0" and p: "reconcileProvisioningTx sha now d0 = Inr d'"
    by (auto simp: reconcileAccessTx_def andthen_Inr_iff)
  from revokeLostAppAccessTx_frame[OF s] have "row_tables d0 = row_tables d" by (auto simp: row_tables_def)
  with sync_frame_rows[OF reconcileProvisioningTx_frame[OF p]] show ?thesis by simp
qed

lemma RunDueExpiries_stages:
  assumes "RunDueExpiries sha errtext now d = (run, es, d')"
  obtains n1 e1 d1 n2 e2 d2 n3 e3 d3 e4 where
    "run_items (end_account now) (\<lambda>i. expiry_failed errtext now ''account.end_failed'' i ''user'') (map usr_id (filter (due_account now) (users d))) d = (n1, e1, d1)"
    "run_items (expire_membership now) (\<lambda>m. expiry_failed errtext now ''group.membership_expiry_failed'' (fst m) ''group'')
      (map member_key (filter (\<lambda>m. due_at now (gm_expires_at m)) (group_memberships d1))) d1 = (n2, e2, d2)"
    "run_items (expire_assignment now) (\<lambda>x. expiry_failed errtext now ''app.assignment_expiry_failed'' (fst x) ''application'')
      (map grant_key (filter (\<lambda>x. due_at now (ua_expires_at x)) (user_assignments d2))) d2 = (n3, e3, d3)"
    "es = e1 @ e2 @ e3 @ e4"
    "e4 = [] \<and> expiry_follow_up sha now d3 = Inr d' \<or> (\<exists>e. e4 = [e] \<and> d' = expiry_failed errtext now ''access.expiry_reconcile_failed'' '''' ''directory'' e d3)"
  using assms by (auto simp: RunDueExpiries_def Let_def split: prod.splits sum.splits)

text \<open>
  C16. The follow-up of expiry leaves nothing behind: after a run without failures no account is active past its end date,
  no membership and no direct grant is past its own, no overdue request is open, and every live token and code in the
  database is for a client its account still reaches.
\<close>

theorem expiry_run_complete:
  assumes "RunDueExpiries sha errtext now d = (run, [], d')"
  shows "(\<forall>u \<in> set (users d'). \<not> due_account now u) \<and> (\<forall>m \<in> set (group_memberships d'). \<not> due_at now (gm_expires_at m)) \<and>
    (\<forall>x \<in> set (user_assignments d'). \<not> due_at now (ua_expires_at x)) \<and>
    (\<forall>r \<in> set (access_requests d'). rq_status r = RqPending \<longrightarrow> unixepoch now < rq_expires_at r) \<and> grants_reached now d'"
proof -
  from assms obtain n1 d1 n2 d2 n3 d3 where
      a: "run_items (end_account now) (\<lambda>i. expiry_failed errtext now ''account.end_failed'' i ''user'') (map usr_id (filter (due_account now) (users d))) d = (n1, [], d1)"
    and m: "run_items (expire_membership now) (\<lambda>m. expiry_failed errtext now ''group.membership_expiry_failed'' (fst m) ''group'')
      (map member_key (filter (\<lambda>m. due_at now (gm_expires_at m)) (group_memberships d1))) d1 = (n2, [], d2)"
    and g: "run_items (expire_assignment now) (\<lambda>x. expiry_failed errtext now ''app.assignment_expiry_failed'' (fst x) ''application'')
      (map grant_key (filter (\<lambda>x. due_at now (ua_expires_at x)) (user_assignments d2))) d2 = (n3, [], d3)"
    and f: "expiry_follow_up sha now d3 = Inr d'" by (elim RunDueExpiries_stages) auto
  have "due_ids now d1 = {}" using run_items_clears[OF a end_account_clears] by (force simp: due_ids_def)
  moreover have "users d2 = users d1"
    by (rule run_items_keeps[OF m, where P = "\<lambda>e. users e = users d1"]) (use expiry_failed_rows in \<open>auto simp: row_tables_def dest: expire_membership_InrD\<close>)
  moreover have "users d3 = users d2" "group_memberships d3 = group_memberships d2"
    by (rule run_items_keeps[OF g, where P = "\<lambda>e. users e = users d2"], (use expiry_failed_rows in \<open>auto simp: row_tables_def dest: expire_assignment_InrD\<close>)[3])
       (rule run_items_keeps[OF g, where P = "\<lambda>e. group_memberships e = group_memberships d2"], use expiry_failed_rows in \<open>auto simp: row_tables_def dest: expire_assignment_InrD\<close>)
  moreover have "due_members now d2 = {}" using run_items_clears[OF m expire_membership_InrD(1)] by (force simp: due_members_def)
  moreover have "due_grants now d3 = {}" using run_items_clears[OF g expire_assignment_InrD(1)] by (force simp: due_grants_def)
  moreover have "row_tables d' = row_tables (expireAccessRequestsTx now d3)" using f reconcileAccessTx_rows by (simp add: expiry_follow_up_def)
  moreover have "grants_reached now d'" using f reconcileAccessTx_InrD(1) by (simp add: expiry_follow_up_def)
  ultimately show ?thesis
    by (auto simp: row_tables_def expireAccessRequestsTx_def due_ids_def due_members_def due_grants_def set_sql_update_parts)
qed


text \<open>The sample account past its end date, with a grant that has run out too.\<close>

definition expired_db :: db where
  "expired_db = ended_db\<lparr>user_assignments := [\<lparr>ua_app_id = ''a1'', ua_user_id = ''u1'', ua_expires_at = Some 950\<rparr>]\<rparr>"

theorem expiry_run_complete_witness:
  "\<exists>run d'. RunDueExpiries id (\<lambda>_. '''') sample_now expired_db = (run, [], d') \<and> xr_accounts run = 1 \<and> xr_assignments run = 1 \<and>
     (\<exists>u \<in> set (users expired_db). due_account sample_now u) \<and> (\<forall>u \<in> set (users d'). \<not> due_account sample_now u) \<and> grants_reached sample_now d'"
proof -
  let ?r = "RunDueExpiries id (\<lambda>_. '''') sample_now expired_db"
  have e: "fst (snd ?r) = []" "xr_accounts (fst ?r) = 1" "xr_assignments (fst ?r) = 1" "\<exists>u \<in> set (users expired_db). due_account sample_now u" by code_simp+
  obtain run d' where r: "?r = (run, [], d')" using e(1) by (metis prod.collapse)
  from expiry_run_complete[OF r] e r show ?thesis by (intro exI[of _ run] exI[of _ d']) simp
qed

section \<open>The permanent administrator stays\<close>

definition admin_kept :: "db \<Rightarrow> bool" where
  "admin_kept d \<longleftrightarrow> distinct (map usr_id (users d)) \<and> has_permanent_admin d"

lemma admin_kept_standing: "map standing (users d') = map standing (users d) \<Longrightarrow> admin_kept d' = admin_kept d"
proof -
  assume s: "map standing (users d') = map standing (users d)"
  then have "map fst (map standing (users d')) = map fst (map standing (users d))" by simp
  then have "map usr_id (users d') = map usr_id (users d)" by (simp add: comp_def)
  with permanent_cong[OF s] show ?thesis by (simp add: admin_kept_def)
qed

lemma admin_kept_rows: "row_tables d' = row_tables d \<Longrightarrow> admin_kept d' = admin_kept d"
  by (rule admin_kept_standing) (simp add: row_tables_def)

lemma admin_kept_users: "users d' = users d \<Longrightarrow> admin_kept d' = admin_kept d"
  by (rule admin_kept_standing) simp

lemma end_account_admin:
  assumes "end_account now i d = Inr (b, d')" "admin_kept d"
  shows "admin_kept d'"
proof -
  let ?p = "\<lambda>x. usr_id x = i \<and> (\<exists>r \<in> set (users d). usr_id r = i \<and> due_account now r)"
  from end_account_InrD(1)[OF assms(1)] obtain f where f: "users d' = sql_update ?p f (users d)" "\<And>x. usr_id (f x) = usr_id x" by blast
  from assms(2) obtain x where x: "x \<in> set (users d)" "permanent_admin x" and k: "distinct (map usr_id (users d))" by (auto simp: admin_kept_def has_permanent_admin_def)
  have "\<not> ?p x"
  proof
    assume "?p x"
    then obtain r where r: "r \<in> set (users d)" "usr_id r = usr_id x" "due_account now r" by auto
    have "r = x" using key_unique[OF k r(1) x(1) r(2)] .
    with r(3) x(2) show False by (simp add: due_account_def due_at_def permanent_admin_def)
  qed
  then have "x \<in> set (users d')" using x(1) by (simp add: f(1) set_sql_update_parts)
  moreover have "map usr_id (users d') = map usr_id (users d)" using f by (simp add: map_sql_update)
  ultimately show ?thesis using x(2) k by (auto simp: admin_kept_def has_permanent_admin_def)
qed

lemma RunDueExpiries_admin:
  assumes "RunDueExpiries sha errtext now d = (run, es, d')" "admin_kept d"
  shows "admin_kept d'"
proof -
  from assms(1) obtain n1 e1 d1 n2 e2 d2 n3 e3 d3 e4 where
      a: "run_items (end_account now) (\<lambda>i. expiry_failed errtext now ''account.end_failed'' i ''user'') (map usr_id (filter (due_account now) (users d))) d = (n1, e1, d1)"
    and m: "run_items (expire_membership now) (\<lambda>m. expiry_failed errtext now ''group.membership_expiry_failed'' (fst m) ''group'')
      (map member_key (filter (\<lambda>m. due_at now (gm_expires_at m)) (group_memberships d1))) d1 = (n2, e2, d2)"
    and g: "run_items (expire_assignment now) (\<lambda>x. expiry_failed errtext now ''app.assignment_expiry_failed'' (fst x) ''application'')
      (map grant_key (filter (\<lambda>x. due_at now (ua_expires_at x)) (user_assignments d2))) d2 = (n3, e3, d3)"
    and e: "es = e1 @ e2 @ e3 @ e4"
    and f: "e4 = [] \<and> expiry_follow_up sha now d3 = Inr d' \<or> (\<exists>e. e4 = [e] \<and> d' = expiry_failed errtext now ''access.expiry_reconcile_failed'' '''' ''directory'' e d3)"
    by (rule RunDueExpiries_stages)
  have failed: "admin_kept (expiry_failed errtext now ac i ty er e) = admin_kept e" for ac i ty er e by (rule admin_kept_rows) simp
  have "admin_kept d1" using assms(2) by (rule run_items_keeps[OF a, where P = admin_kept]) (auto simp: failed intro: end_account_admin)
  then have "admin_kept d2" by (rule run_items_keeps[OF m, where P = admin_kept]) (auto simp: failed dest: admin_kept_users[OF expire_membership_InrD(2)])
  then have "admin_kept d3" by (rule run_items_keeps[OF g, where P = admin_kept]) (auto simp: failed dest: admin_kept_users[OF expire_assignment_InrD(2)])
  moreover have "admin_kept (expireAccessRequestsTx now d3) = admin_kept d3" by (rule admin_kept_standing) (simp add: expireAccessRequestsTx_def)
  ultimately have k: "admin_kept d3" "admin_kept (expireAccessRequestsTx now d3)" by blast+
  from f show ?thesis
  proof (elim disjE conjE exE)
    assume "expiry_follow_up sha now d3 = Inr d'"
    then have "reconcileAccessTx sha now (expireAccessRequestsTx now d3) = Inr d'" by (simp only: expiry_follow_up_def)
    from admin_kept_rows[OF reconcileAccessTx_rows[OF this]] k(2) show ?thesis by blast
  next
    fix er
    assume d': "d' = expiry_failed errtext now ''access.expiry_reconcile_failed'' '''' ''directory'' er d3"
    show ?thesis unfolding d' failed by (rule k(1))
  qed
qed

text \<open>
  The operations on accounts. An invitation is disabled until it is activated, so a link that is redeemed never turns off an
  account that could act.
\<close>

inductive account_step :: "db \<Rightarrow> db \<Rightarrow> bool" where
  created: "CreateUserWithSyncEvents sha u audit now d = Inr d' \<Longrightarrow> account_step d d'"
| updated: "updateUser sha EqualFold i edit now d = Inr (stored, d') \<Longrightarrow> account_step d d'"
| disabled: "DisableUserByName sha EqualFold name guard audit now d = Inr (b, d') \<Longrightarrow> account_step d d'"
| deleted: "DeleteUserWithSyncEvents sha i audit now d = Inr d' \<Longrightarrow> account_step d d'"
| expired: "RunDueExpiries sha errtext now d = (run, es, d') \<Longrightarrow> account_step d d'"
| password_changed: "ChangePassword i keep pw audit now d = Inr (x, d') \<Longrightarrow> account_step d d'"
| link_redeemed: "RedeemAccountToken sha raw kind pw audit now d = Inr (u, d') \<Longrightarrow> (\<forall>x \<in> set (users d). usr_pending x \<longrightarrow> usr_status x = Disabled) \<Longrightarrow> account_step d d'"

lemma created_admin:
  assumes "CreateUserWithSyncEvents sha u audit now d = Inr d'" "admin_kept d"
  shows "admin_kept d'"
proof -
  from assms(1) obtain d1 d2 where i: "insert_user u now d = Inr d1" and p: "reconcileProvisioningTx sha now d1 = Inr d2" and au: "recordAuditTx audit now d2 = Inr d'"
    by (auto simp: CreateUserWithSyncEvents_def andthen_Inr_iff split: sum.splits)
  from recordAuditTx_InrD[OF au] have "users d' = users d2" by auto
  then have us: "users d' = users d1" using sync_frame_tables(1)[OF reconcileProvisioningTx_frame[OF p]] by simp
  let ?v = "u\<lparr>usr_email_verified_at := None, usr_source_connector_id := None, usr_external_id := None, usr_source_active := True, usr_locally_disabled := False,
      usr_ends_at := None, usr_created_at := now, usr_updated_at := now\<rparr>"
  from i have "users d1 = sql_insert ?v (users d)" "usr_id u \<notin> usr_id ` set (users d)"
    by (auto simp: insert_user_def andthen_Inr_iff user_deadlines_trigger_def user_clash_def)
  with assms(2) us show ?thesis by (auto simp: admin_kept_def has_permanent_admin_def sql_insert_def)
qed

lemma updated_admin:
  assumes "updateUser sha EqualFold i edit now d = Inr (stored, d')" "admin_kept d"
  shows "admin_kept d'"
proof -
  from assms(1) obtain c e u d1 where "user_by_id i now d = Some c" "edit d c = Inr e" "u = ApplySourceState ((ue_user e)\<lparr>usr_id := usr_id c\<rparr>)"
    and "usr_role c = RoleAdmin \<and> usr_status c = Active \<and> (usr_role u \<noteq> RoleAdmin \<or> usr_status u \<noteq> Active \<or> scheduling_end c (ue_ends_at e)) \<longrightarrow>
      (\<exists>x \<in> set (users d). permanent_admin x \<and> usr_id x \<noteq> usr_id u)"
    and w: "write_user u (ue_ends_at e) now d = Inr d1" and us: "users d' = users (retire_links EqualFold c u now d1)" by (rule updateUser_users)
  have "map usr_id (users d') = map usr_id (users d)" unfolding us retire_links_frame(5) using write_user_InrD(6)[OF w] .
  with updateUser_keeps_admin[OF assms(1)] assms(2) show ?thesis by (simp add: admin_kept_def)
qed

lemma deleted_admin:
  assumes "DeleteUserWithSyncEvents sha i audit now d = Inr d'" "admin_kept d"
  shows "admin_kept d'"
  using DeleteUserWithSyncEvents_users[OF assms(1)] DeleteUserWithSyncEvents_keeps_admin[OF assms(1)] assms(2) by (simp add: admin_kept_def distinct_sql_delete)

lemma password_admin:
  assumes "ChangePassword i keep pw audit now d = Inr (x, d')" "admin_kept d"
  shows "admin_kept d'"
proof -
  let ?f = "\<lambda>u. u\<lparr>usr_password_hash := pw, usr_password_change_required := False, usr_updated_at := now\<rparr>"
  from assms(1) obtain p n d0 es where r: "revokeSessionsTx now (\<lambda>s. ses_user_id s = i \<and> ses_id s \<noteq> keep) (d\<lparr>users := sql_update p ?f (users d)\<rparr>) = Inr (n, d0)"
      and d': "d' = (expireAccountTokensTx now (\<lambda>t. at_user_id t = i) (spendMFATokensTx now i (revokeSessionGrantsTx (\<lambda>_ u. u = i) now (expirePairingTokensTx now i d0))))\<lparr>audit_events := es\<rparr>"
    unfolding ChangePassword_def by (elim auditedTx_InrD) (auto simp: Let_def andthen_Inr_iff)
  have "users d' = sql_update p ?f (users d)" using revokeSessionsTx_frame[OF r] by (simp add: d' revoke_access_defs)
  then have "map standing (users d') = map standing (users d)" by (simp add: map_sql_update)
  from admin_kept_standing[OF this] assms(2) show ?thesis by blast
qed

lemma redeemed_admin:
  assumes "RedeemAccountToken sha raw kind pw audit now d = Inr (u, d')" "\<forall>x \<in> set (users d). usr_pending x \<longrightarrow> usr_status x = Disabled" "admin_kept d"
  shows "admin_kept d'"
proof -
  from assms(1) obtain t d1 d2 d3 au where "t \<in> set (account_tokens d)" "at_token_hash t = sha raw" "at_kind t = kind" "at_used_at t = None" "now < at_expires_at t"
      "usr_id u = at_user_id t" "sql_count (\<lambda>x. usr_id x = at_user_id t \<and> redeemable_account kind x) (users d) = 1"
      and us: "users d1 = sql_update (\<lambda>x. usr_id x = at_user_id t \<and> redeemable_account kind x) (redeemed_account kind (at_delivery t) pw now) (users d)"
      and r: "revokeUserAccessTx (at_user_id t) now d1 = Inr d2"
      and p: "reconcileProvisioningTx sha now (d2\<lparr>login_failures := sql_delete (\<lambda>f. lf_user_id f = at_user_id t) (login_failures d2)\<rparr>) = Inr d3"
      and au: "recordAuditTx au now d3 = Inr d'" by (rule RedeemAccountToken_InrE)
  from recordAuditTx_InrD[OF au] have "users d' = users d3" by auto
  then have tail: "users d' = users d1" using sync_frame_tables(1)[OF reconcileProvisioningTx_frame[OF p]] revokeUserAccessTx_tables(1)[OF r] by simp
  from assms(3) obtain x where x: "x \<in> set (users d)" "permanent_admin x" by (auto simp: admin_kept_def has_permanent_admin_def)
  let ?f = "redeemed_account kind (at_delivery t) pw now"
  have "permanent_admin (?f x)" if "redeemable_account kind x" using that x assms(2) by (cases kind) (auto simp: redeemed_account_def redeemable_account_def permanent_admin_def)
  then have "has_permanent_admin d'" using x by (auto simp: has_permanent_admin_def tail us set_sql_update_parts bex_Un)
  moreover have "map usr_id (users d') = map usr_id (users d)" unfolding tail us by (rule map_sql_update) (simp add: redeemed_account_def)
  ultimately show ?thesis using assms(3) by (simp add: admin_kept_def)
qed

lemma account_step_admin:
  assumes "account_step d d'" "admin_kept d"
  shows "admin_kept d'"
  using assms(1)
proof cases
  case created
  then show ?thesis using assms(2) by (rule created_admin)
next
  case updated
  then show ?thesis using assms(2) by (rule updated_admin)
next
  case disabled
  then show ?thesis using assms(2) updated_admin by (fastforce simp: DisableUserByName_def andthen_Inr_iff split: option.splits sum.splits if_splits)
next
  case deleted
  then show ?thesis using assms(2) by (rule deleted_admin)
next
  case expired
  then show ?thesis using assms(2) by (rule RunDueExpiries_admin)
next
  case password_changed
  then show ?thesis using assms(2) by (rule password_admin)
next
  case link_redeemed
  then show ?thesis using assms(2) by (rule redeemed_admin)
qed

text \<open>
  C15. The directory is never left without an administrator: from a directory with an active administrator who has no end
  date, whatever accounts are created, edited, demoted, end-dated, disabled, deleted and expired, there is one afterwards.
\<close>

theorem permanent_admin_never_lost:
  assumes "account_step\<^sup>*\<^sup>* d d'" and "distinct (map usr_id (users d))" and "\<exists>u \<in> set (users d). permanent_admin u"
  shows "\<exists>u \<in> set (users d'). permanent_admin u"
proof -
  have "admin_kept d" using assms(2,3) by (simp add: admin_kept_def has_permanent_admin_def)
  with assms(1) have "admin_kept d'" by (induction rule: rtranclp_induct) (auto intro: account_step_admin)
  then show ?thesis by (simp add: admin_kept_def has_permanent_admin_def)
qed

theorem permanent_admin_never_lost_witness:
  "\<exists>run es d'. RunDueExpiries id (\<lambda>_. '''') sample_now expired_db = (run, es, d') \<and> (\<exists>u \<in> set (users d'). permanent_admin u)"
proof -
  obtain run es d' where r: "RunDueExpiries id (\<lambda>_. '''') sample_now expired_db = (run, es, d')" by (metis prod.collapse)
  have w: "distinct (map usr_id (users expired_db))" "\<exists>u \<in> set (users expired_db). permanent_admin u" by code_simp+
  from permanent_admin_never_lost[OF r_into_rtranclp[of account_step, OF account_step.expired[OF r]] w] r show ?thesis by blast
qed

end
