(* ===== verification/Ky_Inbound.thy ===== *)
theory Ky_Inbound
  imports Ky_Expiry
begin

text \<open>
  Inbound SCIM (\<^verbatim>\<open>internal/store/scim_inbound.go\<close>, \<^verbatim>\<open>scim_inbound_groups.go\<close>): the connectors of
  upstream directories and their Bearer tokens, the accounts and groups an upstream owns, and the removal of a connector.
  \<open>sha\<close> is the hash of the crypto package, \<open>EqualFold\<close> the case folding comparison of the standard library, \<open>edit\<close>
  the closure a handler passes in, and \<open>order\<close> the order in which Go visits the keys of a map.
\<close>

section \<open>Connectors and their tokens\<close>

definition connector_status_of :: "string \<Rightarrow> connector_status option" where
  "connector_status_of s = (if s = ''active'' then Some ConnectorActive else if s = ''disabled'' then Some ConnectorDisabled else None)"

definition scope_of :: "string \<Rightarrow> scim_scope option" where
  "scope_of s = (if s = ''read'' then Some ScopeRead else if s = ''write'' then Some ScopeWrite else None)"

definition CreateSCIMConnector :: "string \<Rightarrow> audit_event option \<Rightarrow> time \<Rightarrow> db \<Rightarrow> scim_connector tx" where
  "CreateSCIMConnector name audit now d =
     (let (i, d0) = fresh_id d; c = \<lparr>sco_id = i, sco_name = TrimSpace name, sco_status = ConnectorActive, sco_created_at = now, sco_updated_at = now\<rparr>
      in andthen (ensure (sco_name c \<noteq> '''') ErrInvalidInput) (\<lambda>_.
         auditedTx audit now (\<lambda>e.
           andthen (ensure (\<not> (\<exists>x \<in> set (scim_connectors e). sco_id x = i)) ErrUnique) (\<lambda>_.
           Inr (c, e\<lparr>scim_connectors := sql_insert c (scim_connectors e)\<rparr>))) d0))"

definition UpdateSCIMConnector :: "string \<Rightarrow> string \<Rightarrow> string \<Rightarrow> audit_event option \<Rightarrow> time \<Rightarrow> db \<Rightarrow> unit tx" where
  "UpdateSCIMConnector i name0 status audit now d =
     (case connector_status_of status of
        None \<Rightarrow> Inl ErrInvalidInput
      | Some st \<Rightarrow>
         (let name = TrimSpace name0; mine = (\<lambda>c. sco_id c = i)
          in andthen (ensure (name \<noteq> '''') ErrInvalidInput) (\<lambda>_.
             auditedTx audit now (\<lambda>e.
               andthen (ensure (sql_count mine (scim_connectors e) = 1) ErrNotFound) (\<lambda>_.
               Inr ((), e\<lparr>scim_connectors := sql_update mine (\<lambda>c. c\<lparr>sco_name := name, sco_status := st, sco_updated_at := now\<rparr>) (scim_connectors e)\<rparr>))) d)))"

definition GetSCIMConnector :: "string \<Rightarrow> db \<Rightarrow> scim_connector option" where
  "GetSCIMConnector i d = sql_first (\<lambda>c. sco_id c = i) (scim_connectors d)"

definition ListSCIMConnectors :: "db \<Rightarrow> scim_connector list" where
  "ListSCIMConnectors d = order_pairs (\<lambda>c. nocase (sco_name c)) sco_id (scim_connectors d)"

definition ListSCIMConnectorTokens :: "string \<Rightarrow> db \<Rightarrow> scim_connector_token list" where
  "ListSCIMConnectorTokens connectorID d = sort_key (\<lambda>t. - sct_created_at t) (sort_key sct_id (filter (\<lambda>t. sct_connector_id t = connectorID) (scim_connector_tokens d)))"

definition CountSCIMConnectorUsers :: "string \<Rightarrow> db \<Rightarrow> nat" where
  "CountSCIMConnectorUsers connectorID d = sql_count (\<lambda>u. usr_source_connector_id u = Some connectorID) (users d)"

definition CountSCIMConnectorGroups :: "string \<Rightarrow> db \<Rightarrow> nat" where
  "CountSCIMConnectorGroups connectorID d = sql_count (\<lambda>g. dg_source_connector_id g = Some connectorID) (directory_groups d)"

definition scim_prefix :: string where
  "scim_prefix = ''scim_''"

definition IssueSCIMToken :: "(string \<Rightarrow> string) \<Rightarrow> string \<Rightarrow> string \<Rightarrow> audit_event option \<Rightarrow> time \<Rightarrow> db \<Rightarrow> (string \<times> scim_connector_token) tx" where
  "IssueSCIMToken sha connectorID scope audit now d =
     (case scope_of scope of
        None \<Rightarrow> Inl ErrInvalidInput
      | Some sc \<Rightarrow>
         (let (raw, d0) = fresh_id d; (i, d1) = fresh_id d0;
              t = \<lparr>sct_id = i, sct_connector_id = connectorID, sct_token_hash = sha raw, sct_scope = sc, sct_created_at = now, sct_last_used_at = None, sct_revoked_at = None\<rparr>
          in auditedTx audit now (\<lambda>e.
               andthen (ensure (\<exists>c \<in> set (scim_connectors e). sco_id c = connectorID) ErrNotFound) (\<lambda>_.
               andthen (ensure (\<not> (\<exists>x \<in> set (scim_connector_tokens e). sct_id x = i \<or> sct_token_hash x = sha raw)) ErrUnique) (\<lambda>_.
               Inr ((scim_prefix @ raw, t), e\<lparr>scim_connector_tokens := sql_insert t (scim_connector_tokens e)\<rparr>)))) d1))"

definition RevokeSCIMToken :: "string \<Rightarrow> string \<Rightarrow> audit_event option \<Rightarrow> time \<Rightarrow> db \<Rightarrow> unit tx" where
  "RevokeSCIMToken connectorID tokenID audit now d =
     (let mine = (\<lambda>t. sct_id t = tokenID \<and> sct_connector_id t = connectorID \<and> sct_revoked_at t = None)
      in auditedTx audit now (\<lambda>e.
           andthen (ensure (sql_count mine (scim_connector_tokens e) = 1) ErrNotFound) (\<lambda>_.
           Inr ((), e\<lparr>scim_connector_tokens := sql_update mine (\<lambda>t. t\<lparr>sct_revoked_at := Some now\<rparr>) (scim_connector_tokens e)\<rparr>))) d)"

text \<open>\<open>strings.TrimPrefix\<close>.\<close>

definition TrimPrefix :: "string \<Rightarrow> string \<Rightarrow> string" where
  "TrimPrefix s p = (if take (length p) s = p then drop (length p) s else s)"

text \<open>The rows a presented hash joins: an unrevoked token and its active connector.\<close>

definition scim_matches :: "string \<Rightarrow> db \<Rightarrow> (scim_connector_token \<times> scim_connector) list" where
  "scim_matches hash d = concat (map (\<lambda>t. map (\<lambda>c. (t, c)) (filter (\<lambda>c. sco_id c = sct_connector_id t \<and> sco_status c = ConnectorActive) (scim_connectors d)))
     (filter (\<lambda>t. sct_token_hash t = hash \<and> sct_revoked_at t = None) (scim_connector_tokens d)))"

definition AuthenticateSCIMToken :: "(string \<Rightarrow> string) \<Rightarrow> string \<Rightarrow> time \<Rightarrow> db \<Rightarrow> (scim_connector \<times> scim_scope) tx" where
  "AuthenticateSCIMToken sha raw0 now d =
     (let raw = TrimPrefix raw0 scim_prefix
      in if raw = '''' then Inl ErrNotFound
         else case scim_matches (sha raw) d of
                [] \<Rightarrow> Inl ErrNotFound
              | (t, c) # _ \<Rightarrow>
                  Inr ((c, sct_scope t),
                    if (case sct_last_used_at t of None \<Rightarrow> True | Some used \<Rightarrow> minute < now - used)
                    then d\<lparr>scim_connector_tokens := sql_update (\<lambda>x. sct_id x = sct_id t) (\<lambda>x. x\<lparr>sct_last_used_at := Some now\<rparr>) (scim_connector_tokens d)\<rparr>
                    else d))"

section \<open>Accounts an upstream owns\<close>

definition rejectCrossIdentityTx :: "string \<Rightarrow> string \<Rightarrow> string \<Rightarrow> db \<Rightarrow> err + unit" where
  "rejectCrossIdentityTx excludeID username email d =
     ensure (\<not> (\<exists>x \<in> set (users d). usr_id x \<noteq> excludeID \<and> (nocase (usr_username x) = nocase username \<or> nocase (usr_email x) = nocase username \<or>
       nocase (usr_username x) = nocase email \<or> nocase (usr_email x) = nocase email))) ErrUserConflict"

definition source_taken :: "user \<Rightarrow> db \<Rightarrow> bool" where
  "source_taken u d \<longleftrightarrow> (\<exists>x \<in> set (users d). usr_source_connector_id x \<noteq> None \<and> usr_source_connector_id x = usr_source_connector_id u \<and>
     usr_external_id x \<noteq> None \<and> usr_external_id x = usr_external_id u)"

text \<open>The account as the upstream may create it: pending, unprivileged, without a password or an override.\<close>

definition upstream_account :: "string \<Rightarrow> time \<Rightarrow> user \<Rightarrow> user" where
  "upstream_account i now u = ApplySourceState (u\<lparr>usr_id := i, usr_role := RoleUser, usr_pending := True, usr_password_hash := '''', usr_locally_disabled := False,
     usr_password_change_required := False, usr_email_verified_at := None, usr_ends_at := None, usr_created_at := now, usr_updated_at := now\<rparr>)"

definition CreateUpstreamUser :: "user \<Rightarrow> audit_event option \<Rightarrow> time \<Rightarrow> db \<Rightarrow> user tx" where
  "CreateUpstreamUser u0 audit now d =
     (if ref (usr_source_connector_id u0) = '''' \<or> ref (usr_external_id u0) = '''' then Inl ErrInvalidInput
      else let (i, d0) = fresh_id d; u = upstream_account i now u0
           in auditedTx audit now (\<lambda>e.
                andthen (rejectCrossIdentityTx (usr_id u) (usr_username u) (usr_email u) e) (\<lambda>_.
                andthen (ensure (\<not> (\<exists>x \<in> set (users e). user_clash u x) \<and> \<not> source_taken u e) ErrUserConflict) (\<lambda>_.
                Inr (u, user_deadlines_trigger i now (e\<lparr>users := sql_insert u (users e)\<rparr>))))) d0)"

definition GetUpstreamUser :: "string \<Rightarrow> string \<Rightarrow> time \<Rightarrow> db \<Rightarrow> user option" where
  "GetUpstreamUser connectorID userID now d =
     map_option (scanUser now) (sql_first (\<lambda>u. usr_id u = userID \<and> usr_source_connector_id u = Some connectorID) (users d))"

definition user_attribute :: "string \<Rightarrow> string \<Rightarrow> (user \<Rightarrow> bool) option" where
  "user_attribute attribute v =
     (if attribute = '''' then Some (\<lambda>_. True)
      else if attribute = ''userName'' then Some (\<lambda>u. nocase (usr_username u) = nocase v)
      else if attribute = ''externalId'' then Some (\<lambda>u. usr_external_id u = Some v)
      else if attribute = ''emails.value'' \<or> attribute = ''emails'' then Some (\<lambda>u. nocase (usr_email u) = nocase v)
      else if attribute = ''id'' then Some (\<lambda>u. usr_id u = v)
      else None)"

text \<open>A page starts at the first row at the earliest and holds at most 200.\<close>

definition scim_page :: "int \<Rightarrow> int \<Rightarrow> 'a list \<Rightarrow> 'a list" where
  "scim_page startIndex count xs =
     (let start = (if startIndex < 1 then 1 else startIndex); n = (if count < 0 then 0 else if count > 200 then 200 else count)
      in page (nat n) (nat (start - 1)) xs)"

definition ListUpstreamUsers :: "string \<Rightarrow> string \<Rightarrow> string \<Rightarrow> int \<Rightarrow> int \<Rightarrow> time \<Rightarrow> db \<Rightarrow> err + (user list \<times> nat)" where
  "ListUpstreamUsers connectorID attribute v startIndex count now d =
     (case user_attribute attribute v of
        None \<Rightarrow> Inl ErrInvalidInput
      | Some p \<Rightarrow>
         (let found = filter (\<lambda>u. usr_source_connector_id u = Some connectorID \<and> p u) (users d)
          in Inr (map (scanUser now) (scim_page startIndex count (sort_key usr_created_at (sort_key usr_id found))), length found)))"

definition privileged :: "user \<Rightarrow> string \<Rightarrow> db \<Rightarrow> bool" where
  "privileged current i d \<longleftrightarrow> usr_role current = RoleAdmin \<or> (\<exists>x \<in> set (admin_delegations d). de_user_id x = i)"

definition upstream_edit :: "(string \<Rightarrow> string \<Rightarrow> bool) \<Rightarrow> string \<Rightarrow> (user \<Rightarrow> err + user) \<Rightarrow> audit_event option \<Rightarrow> db \<Rightarrow> user \<Rightarrow> err + user_edit" where
  "upstream_edit EqualFold connectorID edit audit d current =
     andthen (ensure (ref (usr_source_connector_id current) \<noteq> '''' \<and> ref (usr_source_connector_id current) = connectorID) ErrNotFound) (\<lambda>_.
     andthen (edit current) (\<lambda>u.
     andthen (ensure (ref (usr_external_id u) = ref (usr_external_id current)) ErrInvalidInput) (\<lambda>_.
     andthen (ensure ((EqualFold (usr_username current) (usr_username u) \<and> EqualFold (usr_email current) (usr_email u)) \<or> \<not> privileged current (usr_id u) d) ErrPrivilegedIdentity) (\<lambda>_.
     andthen (rejectCrossIdentityTx (usr_id u) (usr_username u) (usr_email u) d) (\<lambda>_.
     Inr \<lparr>ue_user = u\<lparr>usr_source_connector_id := usr_source_connector_id current, usr_role := usr_role current, usr_locally_disabled := usr_locally_disabled current,
            usr_password_hash := usr_password_hash current, usr_pending := usr_pending current\<rparr>,
          ue_ends_at = map_option from_unix (usr_ends_at current), ue_revoke = False, ue_audit = audit\<rparr>)))))"

definition UpdateUpstreamUser :: "(string \<Rightarrow> string) \<Rightarrow> (string \<Rightarrow> string \<Rightarrow> bool) \<Rightarrow> string \<Rightarrow> string \<Rightarrow> audit_event option \<Rightarrow> (user \<Rightarrow> err + user) \<Rightarrow> time \<Rightarrow> db \<Rightarrow> user tx" where
  "UpdateUpstreamUser sha EqualFold connectorID i audit edit now d =
     (case updateUser sha EqualFold i (upstream_edit EqualFold connectorID edit audit) now d of
        Inl e \<Rightarrow> Inl (if e = ErrNoRows then ErrNotFound else if e = ErrUnique then ErrUserConflict else e)
      | Inr r \<Rightarrow> Inr r)"

section \<open>Removing a connector\<close>

text \<open>An account becomes local, as it is or disabled; a pending one that had been shut out loses its link.\<close>

definition release_account :: "bool \<Rightarrow> time \<Rightarrow> user \<Rightarrow> db \<Rightarrow> err + db" where
  "release_account disableUsers now u d =
     andthen (if disableUsers \<and> usr_status u = Active then offboardUserTx u False now d else Inr d) (\<lambda>d1.
     let d2 = d1\<lparr>users := sql_update (\<lambda>x. usr_id x = usr_id u) (\<lambda>x. x\<lparr>usr_source_connector_id := None, usr_external_id := None, usr_source_active := True,
           usr_locally_disabled := False, usr_status := (if disableUsers then Disabled else usr_status u), usr_updated_at := now\<rparr>) (users d1)\<rparr>
     in Inr (if usr_pending u \<and> (disableUsers \<or> \<not> usr_source_active u \<or> usr_locally_disabled u) then expireAccountTokensTx now (\<lambda>t. at_user_id t = usr_id u) d2 else d2))"

definition release_groups :: "string \<Rightarrow> time \<Rightarrow> db \<Rightarrow> db" where
  "release_groups i now d = d\<lparr>directory_groups := sql_update (\<lambda>g. dg_source_connector_id g = Some i)
     (\<lambda>g. g\<lparr>dg_source_connector_id := None, dg_external_id := None, dg_updated_at := now\<rparr>) (directory_groups d)\<rparr>"

text \<open>What the foreign key removes with a connector.\<close>

definition delete_connector :: "string \<Rightarrow> db \<Rightarrow> db" where
  "delete_connector i d = d\<lparr>scim_connectors := sql_delete (\<lambda>c. sco_id c = i) (scim_connectors d),
     scim_connector_tokens := sql_delete (\<lambda>t. sct_connector_id t = i) (scim_connector_tokens d)\<rparr>"

definition owned_users :: "string \<Rightarrow> time \<Rightarrow> db \<Rightarrow> user list" where
  "owned_users i now d = map (scanUser now) (filter (\<lambda>u. usr_source_connector_id u = Some i) (users d))"

definition deleteSCIMConnectorTx :: "(string \<Rightarrow> string) \<Rightarrow> string \<Rightarrow> bool \<Rightarrow> time \<Rightarrow> db \<Rightarrow> nat tx" where
  "deleteSCIMConnectorTx sha i disableUsers now d0 =
      (let owned = owned_users i now d0
       in andthen (if disableUsers \<and> (\<exists>x \<in> set (users d0). usr_source_connector_id x = Some i \<and> active_admin now x)
                   then requirePermanentAdminTx (\<lambda>x. usr_source_connector_id x \<noteq> Some i) d0 else Inr ()) (\<lambda>_.
          andthen (each (release_account disableUsers now) owned d0) (\<lambda>d1.
          let d2 = release_groups i now d1
          in andthen (ensure (sql_count (\<lambda>c. sco_id c = i) (scim_connectors d2) = 1) ErrNotFound) (\<lambda>_.
             andthen (reconcileProvisioningTx sha now (delete_connector i d2)) (\<lambda>d3. Inr (length owned, d3))))))"

definition DeleteSCIMConnector :: "(string \<Rightarrow> string) \<Rightarrow> string \<Rightarrow> bool \<Rightarrow> audit_event option \<Rightarrow> time \<Rightarrow> db \<Rightarrow> nat tx" where
  "DeleteSCIMConnector sha i disableUsers audit now d = auditedTx audit now (deleteSCIMConnectorTx sha i disableUsers now) d"

section \<open>Groups an upstream owns\<close>

record upstream_group =
  ug_group :: directory_group
  ug_member_count :: nat
  ug_members :: "string list"

fun unique_from :: "string list \<Rightarrow> string list \<Rightarrow> string list" where
  "unique_from seen [] = []"
| "unique_from seen (v0 # vs) =
     (let v = TrimSpace v0 in if v = '''' \<or> v \<in> set seen then unique_from seen vs else v # unique_from (v # seen) vs)"

definition uniqueStrings :: "string list \<Rightarrow> string list" where
  "uniqueStrings vs = unique_from [] vs"

definition owned_by :: "string \<Rightarrow> db \<Rightarrow> string \<Rightarrow> bool" where
  "owned_by connectorID d i \<longleftrightarrow> (\<exists>u \<in> set (users d). usr_id u = i \<and> usr_source_connector_id u = Some connectorID)"

definition membersOwnedTx :: "string \<Rightarrow> string list \<Rightarrow> db \<Rightarrow> err + unit" where
  "membersOwnedTx connectorID members d = ensure (\<forall>i \<in> set members. owned_by connectorID d i) ErrGroupMemberForeign"

definition externalGroupFreeTx :: "string \<Rightarrow> string \<Rightarrow> string \<Rightarrow> db \<Rightarrow> err + unit" where
  "externalGroupFreeTx connectorID external excludeID d =
     ensure (external = '''' \<or> \<not> (\<exists>g \<in> set (directory_groups d). dg_source_connector_id g = Some connectorID \<and> dg_external_id g = Some external \<and> dg_id g \<noteq> excludeID))
       ErrGroupExternalExists"

definition groupMembersTx :: "string \<Rightarrow> db \<Rightarrow> string list" where
  "groupMembersTx groupID d = sort (map gm_user_id (filter (\<lambda>m. gm_group_id m = groupID) (group_memberships d)))"

definition nullIfEmpty :: "string \<Rightarrow> string option" where
  "nullIfEmpty s = (if s = '''' then None else Some s)"

definition set_members :: "string \<Rightarrow> bool \<Rightarrow> string list \<Rightarrow> time \<Rightarrow> db \<Rightarrow> err + db" where
  "set_members groupID member ids now d =
     each (\<lambda>uid e. andthen (applyGroupMembershipTx groupID uid member None '''' now e) (\<lambda>(_, e'). Inr e')) ids d"

definition CreateUpstreamGroup :: "(string \<Rightarrow> string) \<Rightarrow> directory_group \<Rightarrow> string list \<Rightarrow> audit_event option \<Rightarrow> time \<Rightarrow> db \<Rightarrow> directory_group tx" where
  "CreateUpstreamGroup sha g0 members0 audit now d =
     (if ref (dg_source_connector_id g0) = '''' then Inl ErrInvalidInput
      else let members = uniqueStrings members0; (i, d0) = fresh_id d; connectorID = ref (dg_source_connector_id g0); external = ref (dg_external_id g0);
               g = g0\<lparr>dg_id := i, dg_external_id := nullIfEmpty external, dg_created_at := now, dg_updated_at := now\<rparr>
           in auditedTx (map_option (\<lambda>e. e\<lparr>au_target_id := i\<rparr>) audit) now (\<lambda>e.
                andthen (externalGroupFreeTx connectorID external i e) (\<lambda>_.
                andthen (membersOwnedTx connectorID members e) (\<lambda>_.
                andthen (ensure (\<not> (\<exists>x \<in> set (directory_groups e). dg_id x = i)) ErrUnique) (\<lambda>_.
                andthen (ensure (\<not> (\<exists>x \<in> set (directory_groups e). nocase (dg_name x) = nocase (dg_name g))) ErrGroupNameExists) (\<lambda>_.
                andthen (new_group_trigger i (e\<lparr>directory_groups := sql_insert g (directory_groups e)\<rparr>)) (\<lambda>e1.
                andthen (set_members i True members now e1) (\<lambda>e2.
                andthen (if members \<noteq> [] then reconcileAccessTx sha now e2 else Inr e2) (\<lambda>e3. Inr (g, e3))))))))) d0)"

definition upstream_view :: "directory_group \<Rightarrow> db \<Rightarrow> upstream_group" where
  "upstream_view g d = \<lparr>ug_group = g, ug_member_count = sql_count (\<lambda>m. gm_group_id m = dg_id g) (group_memberships d), ug_members = groupMembersTx (dg_id g) d\<rparr>"

definition GetUpstreamGroup :: "string \<Rightarrow> string \<Rightarrow> db \<Rightarrow> upstream_group option" where
  "GetUpstreamGroup connectorID i d =
     map_option (\<lambda>g. upstream_view g d) (sql_first (\<lambda>g. dg_id g = i \<and> dg_source_connector_id g = Some connectorID) (directory_groups d))"

definition group_attribute :: "string \<Rightarrow> string \<Rightarrow> (directory_group \<Rightarrow> bool) option" where
  "group_attribute attribute v =
     (if attribute = '''' then Some (\<lambda>_. True)
      else if attribute = ''displayName'' then Some (\<lambda>g. nocase (dg_name g) = nocase v)
      else if attribute = ''externalId'' then Some (\<lambda>g. dg_external_id g = Some v)
      else if attribute = ''id'' then Some (\<lambda>g. dg_id g = v)
      else None)"

definition ListUpstreamGroups :: "string \<Rightarrow> string \<Rightarrow> string \<Rightarrow> int \<Rightarrow> int \<Rightarrow> db \<Rightarrow> err + (upstream_group list \<times> nat)" where
  "ListUpstreamGroups connectorID attribute v startIndex count d =
     (case group_attribute attribute v of
        None \<Rightarrow> Inl ErrInvalidInput
      | Some p \<Rightarrow>
         (let found = filter (\<lambda>g. dg_source_connector_id g = Some connectorID \<and> p g) (directory_groups d)
          in Inr (map (\<lambda>g. upstream_view g d) (scim_page startIndex count (sort_key dg_created_at (sort_key dg_id found))), length found)))"

definition group_requires_factor :: "string \<Rightarrow> db \<Rightarrow> bool" where
  "group_requires_factor i d = (case sql_first (\<lambda>p. ep_group_id p = Some i) (enrollment_policies d) of None \<Rightarrow> False | Some p \<Rightarrow> ep_required p)"

definition replaceUpstreamGroupTx :: "(string \<Rightarrow> string) \<Rightarrow> (string list \<Rightarrow> string list) \<Rightarrow> string \<Rightarrow> string \<Rightarrow> (upstream_group \<Rightarrow> err + upstream_group) \<Rightarrow> time \<Rightarrow> db \<Rightarrow> unit tx" where
  "replaceUpstreamGroupTx sha order connectorID i edit now d0 =
      (case GetUpstreamGroup connectorID i d0 of
         None \<Rightarrow> Inl ErrGroupTargetMissing
       | Some view \<Rightarrow>
          (let current = ug_group view; have = ug_members view
           in andthen (edit view) (\<lambda>next.
              let g = (ug_group next)\<lparr>dg_id := dg_id current\<rparr>; members = uniqueStrings (ug_members next);
                  external = (if ref (dg_external_id g) = '''' then ref (dg_external_id current) else ref (dg_external_id g));
                  added = filter (\<lambda>uid. uid \<notin> set have) members; dropped = filter (\<lambda>uid. uid \<notin> set members) have
              in andthen (ensure (dg_name g = dg_name current \<or> \<not> group_requires_factor (dg_id g) d0) ErrEmergencyAdministrator) (\<lambda>_.
                 andthen (ensure (ref (dg_external_id g) = '''' \<or> ref (dg_external_id current) = '''' \<or> ref (dg_external_id g) = ref (dg_external_id current)) ErrInvalidInput) (\<lambda>_.
                 andthen (externalGroupFreeTx connectorID external (dg_id g) d0) (\<lambda>_.
                 andthen (membersOwnedTx connectorID added d0) (\<lambda>_.
                 andthen (ensure (\<not> (\<exists>x \<in> set (directory_groups d0). dg_id x \<noteq> dg_id g \<and> nocase (dg_name x) = nocase (dg_name g))) ErrGroupNameExists) (\<lambda>_.
                 andthen (set_members (dg_id g) False dropped now (d0\<lparr>directory_groups := sql_update (\<lambda>x. dg_id x = dg_id g)
                   (\<lambda>x. x\<lparr>dg_name := dg_name g, dg_external_id := nullIfEmpty external, dg_updated_at := now\<rparr>) (directory_groups d0)\<rparr>)) (\<lambda>d1.
                 andthen (set_members (dg_id g) True (order added) now d1) (\<lambda>d2.
                 andthen (if dropped \<noteq> [] \<or> added \<noteq> [] then reconcileAccessTx sha now d2 else Inr d2) (\<lambda>d3. Inr ((), d3))))))))))))"

definition ReplaceUpstreamGroup :: "(string \<Rightarrow> string) \<Rightarrow> (string list \<Rightarrow> string list) \<Rightarrow> string \<Rightarrow> string \<Rightarrow> audit_event option \<Rightarrow> (upstream_group \<Rightarrow> err + upstream_group) \<Rightarrow> time \<Rightarrow> db \<Rightarrow> unit tx" where
  "ReplaceUpstreamGroup sha order connectorID i audit edit now d = auditedTx audit now (replaceUpstreamGroupTx sha order connectorID i edit now) d"

definition DeleteUpstreamGroup :: "(string \<Rightarrow> string) \<Rightarrow> string \<Rightarrow> string \<Rightarrow> time option \<Rightarrow> audit_event option \<Rightarrow> time \<Rightarrow> db \<Rightarrow> err + db" where
  "DeleteUpstreamGroup sha connectorID i expect audit now d =
     (case sql_first (\<lambda>g. dg_id g = i \<and> dg_source_connector_id g = Some connectorID) (directory_groups d) of
        None \<Rightarrow> Inl ErrGroupTargetMissing
      | Some g \<Rightarrow>
         andthen (ensure (expect = None \<or> expect = Some (dg_updated_at g)) ErrGroupVersionStale) (\<lambda>_.
         andthen (deleteGroupTx sha i '''' now d) (\<lambda>(name, d1).
         recordAuditTx (map_option (\<lambda>e. e\<lparr>au_details := JObj [(''name'', JStr name)]\<rparr>) audit) now d1)))"

section \<open>What an upstream may write\<close>

lemma scanUser_keeps [simp]:
  "usr_id (scanUser now u) = usr_id u" "usr_role (scanUser now u) = usr_role u" "usr_pending (scanUser now u) = usr_pending u"
  "usr_source_connector_id (scanUser now u) = usr_source_connector_id u" "usr_external_id (scanUser now u) = usr_external_id u"
  "usr_locally_disabled (scanUser now u) = usr_locally_disabled u" "usr_password_hash (scanUser now u) = usr_password_hash u"
  "usr_ends_at (scanUser now u) = usr_ends_at u" "usr_username (scanUser now u) = usr_username u" "usr_email (scanUser now u) = usr_email u"
  "usr_source_active (scanUser now u) = usr_source_active u"
  by (simp_all add: scanUser_def split: option.splits)

lemma unix_round_trip [simp]: "map_option unixepoch (map_option from_unix e) = e"
  by (cases e) simp_all

lemma ref_eq_Some: "ref r = s \<Longrightarrow> s \<noteq> '''' \<Longrightarrow> r = Some s"
  by (cases r) (simp_all add: ref_def)

text \<open>What is not the upstream's to change.\<close>

definition local_part :: "user \<Rightarrow> string \<times> string option \<times> string option \<times> role \<times> bool \<times> string \<times> bool \<times> int option" where
  "local_part u = (usr_id u, usr_source_connector_id u, usr_external_id u, usr_role u, usr_pending u, usr_password_hash u, usr_locally_disabled u, usr_ends_at u)"

definition source_status :: "user \<Rightarrow> bool" where
  "source_status u \<longleftrightarrow> (usr_status u = Active) = (usr_source_active u \<and> \<not> usr_locally_disabled u \<and> \<not> usr_pending u)"

lemma upstream_edit_InrD:
  assumes "upstream_edit EqualFold conn edit audit d current = Inr e"
  obtains u where "edit current = Inr u" "usr_source_connector_id current = Some conn" "conn \<noteq> ''''"
    "EqualFold (usr_username current) (usr_username u) \<and> EqualFold (usr_email current) (usr_email u) \<or> \<not> privileged current (usr_id u) d"
    "rejectCrossIdentityTx (usr_id u) (usr_username u) (usr_email u) d = Inr ()"
    "e = \<lparr>ue_user = u\<lparr>usr_source_connector_id := usr_source_connector_id current, usr_role := usr_role current, usr_locally_disabled := usr_locally_disabled current,
            usr_password_hash := usr_password_hash current, usr_pending := usr_pending current\<rparr>,
          ue_ends_at = map_option from_unix (usr_ends_at current), ue_revoke = False, ue_audit = audit\<rparr>"
proof -
  from assms obtain u where "ref (usr_source_connector_id current) = conn" "conn \<noteq> ''''" and u: "edit current = Inr u"
    "EqualFold (usr_username current) (usr_username u) \<and> EqualFold (usr_email current) (usr_email u) \<or> \<not> privileged current (usr_id u) d"
    "rejectCrossIdentityTx (usr_id u) (usr_username u) (usr_email u) d = Inr ()"
    "e = \<lparr>ue_user = u\<lparr>usr_source_connector_id := usr_source_connector_id current, usr_role := usr_role current, usr_locally_disabled := usr_locally_disabled current,
            usr_password_hash := usr_password_hash current, usr_pending := usr_pending current\<rparr>,
          ue_ends_at = map_option from_unix (usr_ends_at current), ue_revoke = False, ue_audit = audit\<rparr>"
    by (auto simp: upstream_edit_def andthen_Inr_iff)
  with that ref_eq_Some show thesis by blast
qed

lemma sql_update_other:
  assumes "\<not> p x" "\<And>r. p r \<Longrightarrow> p (f r)"
  shows "x \<in> set (sql_update p f t) \<longleftrightarrow> x \<in> set t"
  using assms by (auto simp: sql_simps intro!: image_eqI[of x _ x])

lemma retire_links_users:
  obtains f where "users (retire_links EF c u now d) = sql_update (\<lambda>x. usr_id x = usr_id u) f (users d)"
    "\<And>x. f x = x \<or> f x = x\<lparr>usr_email_verified_at := None\<rparr>"
proof (cases "EF (usr_email c) (usr_email u)")
  case True
  then have "users (retire_links EF c u now d) = sql_update (\<lambda>x. usr_id x = usr_id u) (\<lambda>x. x) (users d)"
    by (simp add: retire_links_def Let_def expireAccountTokensTx_def sql_update_def)
  with that[of "\<lambda>x. x"] show thesis by simp
next
  case False
  then have "users (retire_links EF c u now d) = sql_update (\<lambda>x. usr_id x = usr_id u) (\<lambda>x. x\<lparr>usr_email_verified_at := None\<rparr>) (users d)"
    by (simp add: retire_links_def Let_def expireAccountTokensTx_def)
  with that show thesis by blast
qed

text \<open>
  C25. An upstream directory writes only what is its own. A write that succeeds hits an account its own connector owns; the
  account keeps its owner, external id, role, password, pending state, end date and the local administrator's override, and
  its status is again the one derived from them; a privileged account keeps its username and address up to case; the names
  it ends with belong to no other account, as username or as address; and no other account changes.
\<close>

theorem upstream_write_means:
  assumes up: "UpdateUpstreamUser sha EqualFold conn i audit edit now d = Inr (stored, d')" and keys: "distinct (map usr_id (users d))"
    and id: "\<And>u v. edit u = Inr v \<Longrightarrow> usr_id v = usr_id u"
  shows "\<exists>row \<in> set (users d). \<exists>row' \<in> set (users d'). usr_id row = i \<and> usr_source_connector_id row = Some conn \<and> local_part row' = local_part row \<and> source_status row' \<and>
    (privileged row i d \<longrightarrow> EqualFold (usr_username row) (usr_username row') \<and> EqualFold (usr_email row) (usr_email row')) \<and>
    rejectCrossIdentityTx i (usr_username row') (usr_email row') d = Inr () \<and> (\<forall>x. usr_id x \<noteq> i \<longrightarrow> (x \<in> set (users d') \<longleftrightarrow> x \<in> set (users d)))"
proof -
  from up have "updateUser sha EqualFold i (upstream_edit EqualFold conn edit audit) now d = Inr (stored, d')" by (simp add: UpdateUpstreamUser_def split: sum.splits)
  then obtain c e u d1 where c: "user_by_id i now d = Some c" and ed: "upstream_edit EqualFold conn edit audit d c = Inr e"
    and u: "u = ApplySourceState ((ue_user e)\<lparr>usr_id := usr_id c\<rparr>)"
    and "usr_role c = RoleAdmin \<and> usr_status c = Active \<and> (usr_role u \<noteq> RoleAdmin \<or> usr_status u \<noteq> Active \<or> scheduling_end c (ue_ends_at e)) \<longrightarrow>
      (\<exists>x \<in> set (users d). permanent_admin x \<and> usr_id x \<noteq> usr_id u)"
    and w: "write_user u (ue_ends_at e) now d = Inr d1" and us: "users d' = users (retire_links EqualFold c u now d1)" by (rule updateUser_users)
  from c obtain row where row: "row \<in> set (users d)" "usr_id row = i" "c = scanUser now row" "usr_id c = i" by (rule user_by_id_row)
  from ed obtain v where v: "edit c = Inr v" and own: "usr_source_connector_id c = Some conn" and "conn \<noteq> ''''"
    and pr: "EqualFold (usr_username c) (usr_username v) \<and> EqualFold (usr_email c) (usr_email v) \<or> \<not> privileged c (usr_id v) d"
    and cross: "rejectCrossIdentityTx (usr_id v) (usr_username v) (usr_email v) d = Inr ()"
    and e: "e = \<lparr>ue_user = v\<lparr>usr_source_connector_id := usr_source_connector_id c, usr_role := usr_role c, usr_locally_disabled := usr_locally_disabled c,
            usr_password_hash := usr_password_hash c, usr_pending := usr_pending c\<rparr>,
          ue_ends_at = map_option from_unix (usr_ends_at c), ue_revoke = False, ue_audit = audit\<rparr>" by (rule upstream_edit_InrD)
  have vi: "usr_id v = i" using id[OF v] row(4) by simp
  let ?p = "\<lambda>x. usr_id x = i"
  have ui: "usr_id u = i" using u row(4) by simp
  obtain f where f: "users d' = sql_update ?p f (users d1)" "\<And>x. f x = x \<or> f x = x\<lparr>usr_email_verified_at := None\<rparr>"
    using retire_links_users[of EqualFold c u now d1] us ui by metis
  let ?g = "\<lambda>x. x\<lparr>usr_username := usr_username u, usr_display_name := usr_display_name u, usr_email := usr_email u, usr_password_hash := usr_password_hash u,
      usr_role := usr_role u, usr_status := usr_status u, usr_pending := usr_pending u, usr_password_change_required := usr_password_change_required u,
      usr_source_active := usr_source_active u, usr_locally_disabled := usr_locally_disabled u, usr_ends_at := map_option unixepoch (ue_ends_at e), usr_updated_at := now\<rparr>"
  have g: "users d1 = sql_update ?p ?g (users d)" using write_user_InrD(1)[OF w] ui by simp
  have "?g row \<in> set (users d1)" unfolding g set_sql_update_parts using row(1,2) by blast
  then have in': "f (?g row) \<in> set (users d')" unfolding f(1) set_sql_update_parts using row(2) by auto
  have up: "usr_username u = usr_username v" "usr_email u = usr_email v" "usr_role u = usr_role row" "usr_pending u = usr_pending row"
    "usr_password_hash u = usr_password_hash row" "usr_locally_disabled u = usr_locally_disabled row" "ue_ends_at e = map_option from_unix (usr_ends_at row)"
    and st: "(usr_status u = Active) = (usr_source_active u \<and> \<not> usr_locally_disabled u \<and> \<not> usr_pending u)"
    using own by (auto simp: u e ApplySourceState_def row(3))
  have "local_part (f (?g row)) = local_part row" using f(2)[of "?g row"] up by (auto simp: local_part_def)
  moreover have "source_status (f (?g row))" using f(2)[of "?g row"] st by (auto simp: source_status_def)
  moreover have "usr_username (f (?g row)) = usr_username v" "usr_email (f (?g row)) = usr_email v" using f(2)[of "?g row"] up by auto
  moreover have "privileged c i d = privileged row i d" by (simp add: privileged_def row(3))
  moreover have "x \<in> set (users d') \<longleftrightarrow> x \<in> set (users d)" if "usr_id x \<noteq> i" for x
  proof -
    have "x \<in> set (users d') \<longleftrightarrow> x \<in> set (users d1)" unfolding f(1) by (rule sql_update_other) (use that f(2) in \<open>simp, metis user.select_convs(1) user.surjective user.update_convs(10)\<close>)
    also have "\<dots> \<longleftrightarrow> x \<in> set (users d)" unfolding g by (rule sql_update_other) (use that in simp_all)
    finally show ?thesis .
  qed
  ultimately show ?thesis using row(1,2) in' own pr cross vi row(3) by (intro bexI[of _ row] bexI[of _ "f (?g row)"]) auto
qed

section \<open>A connector that is gone\<close>

text \<open>Ending one account's access never brings back another's.\<close>

lemma revocations_keep_over:
  assumes "access_over uid now d"
  shows "access_over uid now (revokeSessionGrantsTx sel now d)" "access_over uid now (delete_sessions p d)" "access_over uid now (expirePairingTokensTx now v d)"
    "access_over uid now (spendMFATokensTx now v d)" "access_over uid now (expireAccountTokensTx now q d)"
  using assms by (simp_all add: access_over_def revoke_access_defs delete_sessions_def Let_def sql_simps)

lemma revokeUserAccessTx_keeps_over:
  assumes "revokeUserAccessTx v now d = Inr d'" "access_over uid now d"
  shows "access_over uid now d'"
proof -
  from assms(1) obtain n d1 where r: "revokeSessionsTx now (\<lambda>s. ses_user_id s = v) d = Inr (n, d1)"
      and d': "d' = expireAccountTokensTx now (\<lambda>t. at_user_id t = v) (spendMFATokensTx now v
      (revokeSessionGrantsTx (\<lambda>_ u. u = v) now (expirePairingTokensTx now v d1)))" by (rule revokeUserAccessTx_InrE)
  from r obtain d2 where e: "enqueueLogoutTx now (\<lambda>c. \<exists>s \<in> set (sessions d). ses_user_id s = v \<and> ses_id s = cs_session_id c) d = Inr d2"
      and d1: "d1 = delete_sessions (\<lambda>s. ses_user_id s = v) (revokeSessionGrantsTx (\<lambda>sid _. \<exists>s \<in> set (sessions d2). ses_user_id s = v \<and> sid = Some (ses_id s)) now d2)"
    by (auto simp: revokeSessionsTx_def Let_def andthen_Inr_iff)
  from enqueueLogoutTx_frame[OF e] assms(2) have "access_over uid now d2" by (auto simp: access_over_def)
  then show ?thesis unfolding d' d1 by (intro revocations_keep_over)
qed

definition released :: "bool \<Rightarrow> user \<Rightarrow> user \<Rightarrow> user \<Rightarrow> bool" where
  "released disable u x y \<longleftrightarrow> usr_source_connector_id y = None \<and> usr_external_id y = None \<and> usr_status y = (if disable then Disabled else usr_status u) \<and>
     usr_role y = usr_role x \<and> usr_ends_at y = usr_ends_at x \<and> usr_password_hash y = usr_password_hash x \<and> usr_username y = usr_username x \<and> usr_email y = usr_email x"

lemma release_account_InrD:
  assumes "release_account disable now u d = Inr d'"
  shows "\<exists>f. users d' = sql_update (\<lambda>x. usr_id x = usr_id u) f (users d) \<and> (\<forall>x. usr_id (f x) = usr_id x \<and> released disable u x (f x))"
    "scim_connectors d' = scim_connectors d" "scim_connector_tokens d' = scim_connector_tokens d"
    "disable \<Longrightarrow> usr_status u = Active \<Longrightarrow> access_over (usr_id u) now d'" "access_over uid now d \<Longrightarrow> access_over uid now d'"
proof -
  let ?f = "\<lambda>x. x\<lparr>usr_source_connector_id := None, usr_external_id := None, usr_source_active := True,
           usr_locally_disabled := False, usr_status := (if disable then Disabled else usr_status u), usr_updated_at := now\<rparr>"
  from assms obtain d1 where o: "(if disable \<and> usr_status u = Active then offboardUserTx u False now d else Inr d) = Inr d1"
    and d': "d' = (let d2 = d1\<lparr>users := sql_update (\<lambda>x. usr_id x = usr_id u) ?f (users d1)\<rparr>
      in if usr_pending u \<and> (disable \<or> \<not> usr_source_active u \<or> usr_locally_disabled u) then expireAccountTokensTx now (\<lambda>t. at_user_id t = usr_id u) d2 else d2)"
    by (auto simp: release_account_def Let_def andthen_Inr_iff)
  have tabs: "users d' = sql_update (\<lambda>x. usr_id x = usr_id u) ?f (users d1)" "scim_connectors d' = scim_connectors d1" "scim_connector_tokens d' = scim_connector_tokens d1"
    unfolding d' by (simp_all add: Let_def expireAccountTokensTx_def)
  have over: "access_over i now d'" if "access_over i now d1" for i
  proof -
    from that have "access_over i now (d1\<lparr>users := sql_update (\<lambda>x. usr_id x = usr_id u) ?f (users d1)\<rparr>)" by (simp add: access_over_def)
    then show ?thesis unfolding d' by (simp add: Let_def revocations_keep_over(5))
  qed
  have "users d1 = users d \<and> scim_connectors d1 = scim_connectors d \<and> scim_connector_tokens d1 = scim_connector_tokens d \<and>
    (disable \<longrightarrow> usr_status u = Active \<longrightarrow> access_over (usr_id u) now d1) \<and> (\<forall>i. access_over i now d \<longrightarrow> access_over i now d1)"
  proof (cases "disable \<and> usr_status u = Active")
    case True
    with o obtain dr where r: "revokeUserAccessTx (usr_id u) now d = Inr dr" and f: "sync_frame dr d1" by (auto elim: offboardUserTx_InrE)
    from r have "scim_connectors dr = scim_connectors d \<and> scim_connector_tokens dr = scim_connector_tokens d"
      by (auto elim!: revokeUserAccessTx_InrE simp: revokeSessionsTx_def Let_def andthen_Inr_iff revoke_access_defs delete_sessions_def dest!: enqueueLogoutTx_frame)
    moreover from f have "scim_connectors d1 = scim_connectors dr" "scim_connector_tokens d1 = scim_connector_tokens dr" by (auto simp: sync_frame_def)
    ultimately show ?thesis using revokeUserAccessTx_tables(1)[OF r] sync_frame_tables(1)[OF f] revokeUserAccessTx_over[OF r] revokeUserAccessTx_keeps_over[OF r] access_over_frame[OF f] by simp
  next
    case False
    with o have "d1 = d" by simp
    with False show ?thesis by blast
  qed
  note k = this
  show "\<exists>f. users d' = sql_update (\<lambda>x. usr_id x = usr_id u) f (users d) \<and> (\<forall>x. usr_id (f x) = usr_id x \<and> released disable u x (f x))"
    by (rule exI[of _ ?f]) (use k tabs(1) in \<open>simp add: released_def\<close>)
  show "scim_connectors d' = scim_connectors d" "scim_connector_tokens d' = scim_connector_tokens d" using k tabs by simp_all
  show "disable \<Longrightarrow> usr_status u = Active \<Longrightarrow> access_over (usr_id u) now d'" "access_over uid now d \<Longrightarrow> access_over uid now d'" using k over by blast+
qed

text \<open>The loop over the accounts the connector owned.\<close>

definition release_effect :: "bool \<Rightarrow> time \<Rightarrow> user list \<Rightarrow> db \<Rightarrow> db \<Rightarrow> bool" where
  "release_effect disable now us d d' \<longleftrightarrow> map usr_id (users d') = map usr_id (users d) \<and> scim_connectors d' = scim_connectors d \<and> scim_connector_tokens d' = scim_connector_tokens d \<and>
     (\<forall>x. usr_id x \<notin> usr_id ` set us \<longrightarrow> (x \<in> set (users d') \<longleftrightarrow> x \<in> set (users d))) \<and>
     (\<forall>u \<in> set us. \<forall>x \<in> set (users d). usr_id x = usr_id u \<longrightarrow> (\<exists>y \<in> set (users d'). usr_id y = usr_id u \<and> released disable u x y)) \<and>
     (\<forall>u \<in> set us. disable \<longrightarrow> usr_status u = Active \<longrightarrow> access_over (usr_id u) now d') \<and> (\<forall>i. access_over i now d \<longrightarrow> access_over i now d')"

lemma release_loop:
  assumes "each (release_account disable now) us d = Inr d'" "distinct (map usr_id us)"
  shows "release_effect disable now us d d'"
  using assms
proof (induction us arbitrary: d)
  case Nil
  then show ?case by (simp add: release_effect_def)
next
  case (Cons u us)
  from Cons.prems(1) obtain d1 where r: "release_account disable now u d = Inr d1" and rest: "each (release_account disable now) us d1 = Inr d'" by (auto simp: andthen_Inr_iff)
  note IH = Cons.IH[OF rest] and R = release_account_InrD[OF r]
  from R(1) obtain f where f: "users d1 = sql_update (\<lambda>x. usr_id x = usr_id u) f (users d)" "\<And>x. usr_id (f x) = usr_id x" "\<And>x. released disable u x (f x)" by blast
  from Cons.prems(2) have nu: "usr_id u \<notin> usr_id ` set us" and ih: "release_effect disable now us d1 d'" using IH by auto
  have same: "x \<in> set (users d1) \<longleftrightarrow> x \<in> set (users d)" if "usr_id x \<noteq> usr_id u" for x unfolding f(1) by (rule sql_update_other) (use that f(2) in auto)
  have here: "\<exists>y \<in> set (users d'). usr_id y = usr_id u \<and> released disable u x y" if "x \<in> set (users d)" "usr_id x = usr_id u" for x
  proof -
    have "f x \<in> set (users d1)" unfolding f(1) set_sql_update_parts using that by blast
    moreover have "usr_id (f x) \<notin> usr_id ` set us" using nu f(2) that(2) by simp
    ultimately have "f x \<in> set (users d')" using ih by (auto simp: release_effect_def)
    with f(2,3) that(2) show ?thesis by metis
  qed
  have later: "\<exists>y \<in> set (users d'). usr_id y = usr_id v \<and> released disable v x y" if "v \<in> set us" "x \<in> set (users d)" "usr_id x = usr_id v" for v x
  proof -
    have "usr_id x \<noteq> usr_id u" using nu that by force
    with same that(2) have "x \<in> set (users d1)" by blast
    with ih that(1,3) show ?thesis unfolding release_effect_def by blast
  qed
  have ids: "map usr_id (users d1) = map usr_id (users d)" unfolding f(1) by (rule map_sql_update) (simp add: f(2))
  show ?case unfolding release_effect_def using ih ids R(2-5) same here later by (simp add: release_effect_def)
qed


lemma AuthenticateSCIMToken_InrD:
  assumes "AuthenticateSCIMToken sha raw now d = Inr ((c, scope), d')"
  shows "\<exists>t \<in> set (scim_connector_tokens d). sct_token_hash t = sha (TrimPrefix raw scim_prefix) \<and> sct_revoked_at t = None \<and> sct_scope t = scope \<and>
    sct_connector_id t = sco_id c \<and> c \<in> set (scim_connectors d) \<and> sco_status c = ConnectorActive"
proof -
  from assms obtain t ms where m: "scim_matches (sha (TrimPrefix raw scim_prefix)) d = (t, c) # ms" "scope = sct_scope t"
    by (auto simp: AuthenticateSCIMToken_def Let_def split: if_splits list.splits)
  then have "(t, c) \<in> set (scim_matches (sha (TrimPrefix raw scim_prefix)) d)" by simp
  with m(2) show ?thesis by (auto simp: scim_matches_def)
qed

lemma DeleteSCIMConnector_InrE:
  assumes "DeleteSCIMConnector sha i disable audit now d = Inr (n, d')"
  obtains d1 where "n = length (owned_users i now d)"
    "disable \<Longrightarrow> (\<exists>x \<in> set (users d). usr_source_connector_id x = Some i \<and> active_admin now x) \<Longrightarrow> \<exists>x \<in> set (users d). permanent_admin x \<and> usr_source_connector_id x \<noteq> Some i"
    "each (release_account disable now) (owned_users i now d) d = Inr d1" "users d' = users d1"
    "directory_groups d' = sql_update (\<lambda>g. dg_source_connector_id g = Some i) (\<lambda>g. g\<lparr>dg_source_connector_id := None, dg_external_id := None, dg_updated_at := now\<rparr>) (directory_groups d1)"
    "scim_connectors d' = sql_delete (\<lambda>c. sco_id c = i) (scim_connectors d1)" "\<And>uid. access_over uid now d1 \<Longrightarrow> access_over uid now d'"
proof -
  from assms obtain e es where f: "deleteSCIMConnectorTx sha i disable now d = Inr (n, e)" and d': "d' = e\<lparr>audit_events := es\<rparr>"
    unfolding DeleteSCIMConnector_def by (rule auditedTx_InrD)
  from f obtain d1 where g0: "(if disable \<and> (\<exists>x \<in> set (users d). usr_source_connector_id x = Some i \<and> active_admin now x)
                   then requirePermanentAdminTx (\<lambda>x. usr_source_connector_id x \<noteq> Some i) d else Inr ()) = Inr ()"
    and l: "each (release_account disable now) (owned_users i now d) d = Inr d1" and p: "reconcileProvisioningTx sha now (delete_connector i (release_groups i now d1)) = Inr e"
    and n: "n = length (owned_users i now d)"
    by (auto simp: deleteSCIMConnectorTx_def Let_def andthen_Inr_iff)
  from g0 have g: "disable \<Longrightarrow> (\<exists>x \<in> set (users d). usr_source_connector_id x = Some i \<and> active_admin now x) \<Longrightarrow> \<exists>x \<in> set (users d). permanent_admin x \<and> usr_source_connector_id x \<noteq> Some i"
    by (simp add: requirePermanentAdminTx_def)
  note fr = reconcileProvisioningTx_frame[OF p]
  from fr have tabs: "users e = users d1" "scim_connectors e = sql_delete (\<lambda>c. sco_id c = i) (scim_connectors d1)"
    "directory_groups e = sql_update (\<lambda>g. dg_source_connector_id g = Some i) (\<lambda>g. g\<lparr>dg_source_connector_id := None, dg_external_id := None, dg_updated_at := now\<rparr>) (directory_groups d1)"
    by (auto simp: sync_frame_def delete_connector_def release_groups_def)
  have "access_over uid now d'" if "access_over uid now d1" for uid
  proof -
    from that have "access_over uid now (delete_connector i (release_groups i now d1))" by (simp add: access_over_def delete_connector_def release_groups_def)
    then show ?thesis using access_over_frame[OF fr] by (simp add: access_over_def d')
  qed
  with that[OF n g l] tabs show thesis by (simp add: d')
qed

lemma owned_users_iff: "u \<in> set (owned_users i now d) \<longleftrightarrow> (\<exists>x \<in> set (users d). usr_source_connector_id x = Some i \<and> u = scanUser now x)"
  by (auto simp: owned_users_def)

lemma owned_users_ids: "distinct (map usr_id (users d)) \<Longrightarrow> distinct (map usr_id (owned_users i now d))"
  by (simp add: owned_users_def comp_def distinct_map_filter)

lemma permanent_scan: "permanent_admin x \<Longrightarrow> usr_status (scanUser now x) = Active"
  by (simp add: permanent_admin_def scanUser_def)

text \<open>
  C26. Removing a connector cuts the upstream off: afterwards it owns no account and no group and no Bearer value
  authenticates as it. No account disappears and no other account changes. With deactivation every account it owned is
  disabled and one that was active holds no session, token, code or link any more. An administrator who can act and
  has no end date is left if there was one.
\<close>

theorem connector_removal_means:
  assumes del: "DeleteSCIMConnector sha i disable audit now d = Inr (n, d')" and keys: "distinct (map usr_id (users d))"
  shows "n = CountSCIMConnectorUsers i d \<and> CountSCIMConnectorUsers i d' = 0 \<and> CountSCIMConnectorGroups i d' = 0 \<and>
    (\<forall>raw t c scope e. AuthenticateSCIMToken sha raw t d' = Inr ((c, scope), e) \<longrightarrow> sco_id c \<noteq> i) \<and>
    map usr_id (users d') = map usr_id (users d) \<and> (\<forall>x \<in> set (users d). usr_source_connector_id x \<noteq> Some i \<longrightarrow> x \<in> set (users d')) \<and>
    (disable \<longrightarrow> (\<forall>x \<in> set (users d). usr_source_connector_id x = Some i \<longrightarrow> (\<exists>y \<in> set (users d'). usr_id y = usr_id x \<and> usr_status y = Disabled) \<and>
      (usr_status (scanUser now x) = Active \<longrightarrow> access_over (usr_id x) now d'))) \<and>
    ((\<exists>x \<in> set (users d). permanent_admin x) \<longrightarrow> (\<exists>x \<in> set (users d'). permanent_admin x))"
proof -
  let ?us = "owned_users i now d"
  from del obtain d1 where n: "n = length ?us"
    and adm: "disable \<Longrightarrow> (\<exists>x \<in> set (users d). usr_source_connector_id x = Some i \<and> active_admin now x) \<Longrightarrow> \<exists>x \<in> set (users d). permanent_admin x \<and> usr_source_connector_id x \<noteq> Some i"
    and l: "each (release_account disable now) ?us d = Inr d1" and us: "users d' = users d1"
    and gs: "directory_groups d' = sql_update (\<lambda>g. dg_source_connector_id g = Some i) (\<lambda>g. g\<lparr>dg_source_connector_id := None, dg_external_id := None, dg_updated_at := now\<rparr>) (directory_groups d1)"
    and cs: "scim_connectors d' = sql_delete (\<lambda>c. sco_id c = i) (scim_connectors d1)" and over: "\<And>uid. access_over uid now d1 \<Longrightarrow> access_over uid now d'"
    by (rule DeleteSCIMConnector_InrE) blast
  note eff = release_loop[OF l owned_users_ids[OF keys], unfolded release_effect_def]
  have ids: "map usr_id (users d') = map usr_id (users d)" using eff us by simp
  then have keys': "distinct (map usr_id (users d'))" using keys by simp
  have owner: "usr_id x \<notin> usr_id ` set ?us" if "x \<in> set (users d)" "usr_source_connector_id x \<noteq> Some i" for x
  proof
    assume "usr_id x \<in> usr_id ` set ?us"
    then obtain y where "y \<in> set (users d)" "usr_source_connector_id y = Some i" "usr_id y = usr_id x" by (auto simp: owned_users_iff)
    with key_unique[OF keys, of y x] that show False by auto
  qed
  have out: "x \<in> set (users d')" if "x \<in> set (users d)" "usr_source_connector_id x \<noteq> Some i" for x using eff us owner[OF that] that(1) by metis
  have freed: "\<exists>y \<in> set (users d'). usr_id y = usr_id x \<and> released disable (scanUser now x) x y" if "x \<in> set (users d)" "usr_source_connector_id x = Some i" for x
  proof -
    have "scanUser now x \<in> set ?us" using that by (auto simp: owned_users_iff)
    with eff us that(1) show ?thesis by (metis scanUser_keeps(1))
  qed
  have none: "usr_source_connector_id y \<noteq> Some i" if y: "y \<in> set (users d')" for y
  proof
    assume s: "usr_source_connector_id y = Some i"
    from y ids obtain x where x: "x \<in> set (users d)" "usr_id x = usr_id y" by (metis image_iff list.set_map)
    show False
    proof (cases "usr_source_connector_id x = Some i")
      case True
      from freed[OF x(1) True] obtain z where z: "z \<in> set (users d')" "usr_id z = usr_id x" "usr_source_connector_id z = None" by (auto simp: released_def)
      with key_unique[OF keys' y z(1)] x(2) s show False by simp
    next
      case False
      from key_unique[OF keys' y out[OF x(1) False]] x(2) s False show False by simp
    qed
  qed
  have perm: "\<exists>x \<in> set (users d'). permanent_admin x" if p: "\<exists>x \<in> set (users d). permanent_admin x"
  proof -
    from p obtain x where x: "x \<in> set (users d)" "permanent_admin x" by blast
    have "active_admin now x" using x(2) by (simp add: active_admin_def permanent_admin_def)
    then consider "usr_source_connector_id x \<noteq> Some i" | "\<not> disable" "usr_source_connector_id x = Some i" | y where "y \<in> set (users d)" "permanent_admin y" "usr_source_connector_id y \<noteq> Some i"
      using adm x(1) by blast
    then show ?thesis
    proof cases
      case 1
      with out x show ?thesis by blast
    next
      case 2
      from freed[OF x(1) 2(2)] obtain y where "y \<in> set (users d')" "released disable (scanUser now x) x y" by blast
      with 2(1) x(2) permanent_scan[OF x(2)] show ?thesis by (auto simp: released_def permanent_admin_def)
    next
      case 3
      with out show ?thesis by blast
    qed
  qed
  have dis: "(\<exists>y \<in> set (users d'). usr_id y = usr_id x \<and> usr_status y = Disabled) \<and> (usr_status (scanUser now x) = Active \<longrightarrow> access_over (usr_id x) now d')"
    if disable "x \<in> set (users d)" "usr_source_connector_id x = Some i" for x
  proof -
    have "scanUser now x \<in> set ?us" using that(2,3) by (auto simp: owned_users_iff)
    then have "usr_status (scanUser now x) = Active \<longrightarrow> access_over (usr_id x) now d1" using eff that(1) by (metis scanUser_keeps(1))
    with over freed[OF that(2,3)] that(1) show ?thesis by (auto simp: released_def)
  qed
  have g0: "CountSCIMConnectorGroups i d' = 0" by (auto simp: CountSCIMConnectorGroups_def sql_count_0_iff gs set_sql_update)
  have auth: "sco_id c \<noteq> i" if "AuthenticateSCIMToken sha raw t d' = Inr ((c, scope), e)" for raw t c scope e
    using AuthenticateSCIMToken_InrD[OF that] by (auto simp: cs set_sql_delete)
  have cnt: "n = CountSCIMConnectorUsers i d" by (simp add: n owned_users_def CountSCIMConnectorUsers_def sql_count_def)
  have u0: "CountSCIMConnectorUsers i d' = 0" using none by (simp add: CountSCIMConnectorUsers_def sql_count_0_iff)
  show ?thesis using cnt u0 g0 auth ids out dis perm by blast
qed

section \<open>The members an upstream sets\<close>

definition member_keys :: "db \<Rightarrow> (string \<times> string) set" where
  "member_keys d = member_key ` set (group_memberships d)"

lemma write_membership_keys:
  assumes "write_membership g uid member until now d = Inr (ch, d1)"
  shows "member_keys d1 = (if member then insert (g, uid) (member_keys d) else member_keys d - {(g, uid)})"
proof -
  let ?key = "\<lambda>m. gm_group_id m = g \<and> gm_user_id m = uid"
  have upd: "member_key ` set (sql_update ?key (\<lambda>x. x\<lparr>gm_expires_at := until\<rparr>) t) = member_key ` set t" for t
    by (simp add: map_sql_update flip: set_map)
  consider (drop) "\<not> member" "group_memberships d1 = sql_delete ?key (group_memberships d)"
    | (redate) m where member "sql_first ?key (group_memberships d) = Some m" "group_memberships d1 = sql_update ?key (\<lambda>x. x\<lparr>gm_expires_at := until\<rparr>) (group_memberships d)"
    | (add) member "group_memberships d1 = sql_insert \<lparr>gm_group_id = g, gm_user_id = uid, gm_expires_at = until\<rparr> (group_memberships d)"
    using assms by (auto simp: write_membership_def Let_def new_member_trigger_def andthen_Inr_iff split: if_splits option.splits)
  then show ?thesis
  proof cases
    case drop
    then show ?thesis by (auto simp: member_keys_def set_sql_delete)
  next
    case redate
    from find_SomeD[OF redate(2)] have "(g, uid) \<in> member_keys d" by (force simp: member_keys_def)
    with redate upd show ?thesis by (simp add: member_keys_def insert_absorb)
  next
    case add
    then show ?thesis by (simp add: member_keys_def set_sql_insert)
  qed
qed

lemma applyGroupMembershipTx_rows:
  assumes "applyGroupMembershipTx g uid member until sid now d = Inr (names, d')"
  shows "member_keys d' = (if member then insert (g, uid) (member_keys d) else member_keys d - {(g, uid)})" "users d' = users d" "directory_groups d' = directory_groups d"
proof -
  from assms obtain ch d1 d2 where w: "write_membership g uid member (map_option unixepoch until) now d = Inr (ch, d1)"
      and d2: "d2 = d1 \<or> d2 = invalidateUserEnrollmentTx uid now d1" and rc: "(if ch then groupRoleChangeTx g [uid] now d2 else Inr d2) = Inr d'"
    by (rule applyGroupMembershipTx_InrE)
  from write_membership_frame[OF w] have w1: "users d1 = users d" "directory_groups d1 = directory_groups d" by auto
  have "row_tables d' = row_tables d2" using rc groupRoleChangeTx_rows by (auto split: if_splits)
  moreover have "same_claims d2 d'" using rc roleChangeForAppsTx_InrD(1) by (auto simp: same_claims_def split: if_splits elim!: groupRoleChangeTx_InrE)
  moreover have "users d2 = users d1" "group_memberships d2 = group_memberships d1" "directory_groups d2 = directory_groups d1" using d2 by (auto simp: invalidateUserEnrollmentTx_def)
  ultimately have "users d' = users d1" "group_memberships d' = group_memberships d1" "directory_groups d' = directory_groups d1" by (simp_all add: row_tables_def same_claims_def claim_tables_def)
  with w1 write_membership_keys[OF w] show "member_keys d' = (if member then insert (g, uid) (member_keys d) else member_keys d - {(g, uid)})" "users d' = users d" "directory_groups d' = directory_groups d"
    by (simp_all add: member_keys_def)
qed

lemma set_members_rows:
  assumes "set_members g member ids now d = Inr d'"
  shows "member_keys d' = (if member then member_keys d \<union> Pair g ` set ids else member_keys d - Pair g ` set ids)" "users d' = users d" "directory_groups d' = directory_groups d"
proof -
  have "member_keys d' = (if member then member_keys d \<union> Pair g ` set ids else member_keys d - Pair g ` set ids) \<and> users d' = users d \<and> directory_groups d' = directory_groups d"
    using assms unfolding set_members_def
  proof (induction ids arbitrary: d)
    case (Cons i ids)
    from Cons.prems obtain x e where a: "applyGroupMembershipTx g i member None '''' now d = Inr (x, e)"
      and r: "each (\<lambda>uid e. andthen (applyGroupMembershipTx g uid member None '''' now e) (\<lambda>(_, e'). Inr e')) ids e = Inr d'" by (auto simp: andthen_Inr_iff)
    from Cons.IH[OF r] applyGroupMembershipTx_rows[OF a] show ?case by auto
  qed simp
  then show "member_keys d' = (if member then member_keys d \<union> Pair g ` set ids else member_keys d - Pair g ` set ids)" "users d' = users d" "directory_groups d' = directory_groups d"
    by blast+
qed

lemma set_groupMembersTx: "set (groupMembersTx g d) = {uid. (g, uid) \<in> member_keys d}"
  by (auto simp: groupMembersTx_def member_keys_def)

lemma reconcileAccessTx_keys: "reconcileAccessTx sha now d = Inr d' \<Longrightarrow> member_keys d' = member_keys d \<and> users d' = users d \<and> directory_groups d' = directory_groups d"
  using reconcileAccessTx_rows[of sha now d d'] reconcileAccessTx_InrD(2)[of sha now d d'] by (simp add: row_tables_def same_claims_def claim_tables_def member_keys_def)

text \<open>
  An upstream's write to a group takes effect exactly, and only there: it hits a group its own connector owns; the
  group's members are afterwards the ones asked for, without blanks and repetitions; every account it added is the
  connector's own; an external id, once set, stays; and the members of every other group and all accounts are as before.
\<close>

theorem upstream_group_write_means:
  assumes up: "ReplaceUpstreamGroup sha order conn i audit edit now d = Inr ((), d')" and ord: "\<And>xs. set (order xs) = set xs"
  shows "\<exists>view wish. GetUpstreamGroup conn i d = Some view \<and> edit view = Inr wish \<and> dg_source_connector_id (ug_group view) = Some conn \<and>
    set (groupMembersTx i d') = set (uniqueStrings (ug_members wish)) \<and> (\<forall>uid \<in> set (groupMembersTx i d'). uid \<in> set (groupMembersTx i d) \<or> owned_by conn d uid) \<and>
    (\<forall>g \<noteq> i. set (groupMembersTx g d') = set (groupMembersTx g d)) \<and> users d' = users d \<and>
    (\<forall>g \<in> set (directory_groups d'). dg_id g = i \<longrightarrow> dg_name g = dg_name (ug_group wish) \<and>
      (ref (dg_external_id (ug_group view)) \<noteq> '''' \<longrightarrow> dg_external_id g = dg_external_id (ug_group view)))"
proof -
  from up obtain e es where f: "replaceUpstreamGroupTx sha order conn i edit now d = Inr ((), e)" and d': "d' = e\<lparr>audit_events := es\<rparr>"
    unfolding ReplaceUpstreamGroup_def by (rule auditedTx_InrD)
  from f obtain view where v: "GetUpstreamGroup conn i d = Some view" by (auto simp: replaceUpstreamGroupTx_def split: option.splits)
  from f v obtain wish where ed: "edit view = Inr wish" by (auto simp: replaceUpstreamGroupTx_def Let_def andthen_Inr_iff)
  from v obtain g where g: "g \<in> set (directory_groups d)" "dg_id g = i" "dg_source_connector_id g = Some conn" "view = upstream_view g d"
    by (auto simp: GetUpstreamGroup_def dest: find_SomeD)
  let ?m = "uniqueStrings (ug_members wish)" and ?have = "groupMembersTx i d"
  let ?added = "filter (\<lambda>uid. uid \<notin> set ?have) ?m" and ?dropped = "filter (\<lambda>uid. uid \<notin> set ?m) ?have"
  let ?w = "ug_group wish"
  let ?ext = "if ref (dg_external_id ?w) = '''' then ref (dg_external_id g) else ref (dg_external_id ?w)"
  let ?d0 = "d\<lparr>directory_groups := sql_update (\<lambda>x. dg_id x = i) (\<lambda>x. x\<lparr>dg_name := dg_name ?w, dg_external_id := nullIfEmpty ?ext, dg_updated_at := now\<rparr>) (directory_groups d)\<rparr>"
  have vw: "ug_group view = g" "ug_members view = ?have" using g(2,4) by (simp_all add: upstream_view_def)
  from f[unfolded replaceUpstreamGroupTx_def v ed Let_def vw option.case andthen_simps] g(2) obtain d1 d2 where
      ext: "ref (dg_external_id ?w) = '''' \<or> ref (dg_external_id g) = '''' \<or> ref (dg_external_id ?w) = ref (dg_external_id g)"
    and own: "membersOwnedTx conn ?added d = Inr ()" and rm: "set_members i False ?dropped now ?d0 = Inr d1" and ad: "set_members i True (order ?added) now d1 = Inr d2"
    and rec: "(if ?dropped \<noteq> [] \<or> ?added \<noteq> [] then reconcileAccessTx sha now d2 else Inr d2) = Inr e"
    by (auto simp: andthen_Inr_iff cong: if_cong)
  note R = set_members_rows[OF rm] and A = set_members_rows[OF ad]
  have keep: "member_keys d' = member_keys d2" "users d' = users d2" "directory_groups d' = directory_groups d2"
    using rec reconcileAccessTx_keys by (auto simp: d' member_keys_def split: if_splits)
  have k0: "member_keys ?d0 = member_keys d" by (simp add: member_keys_def)
  have keys: "member_keys d' = member_keys d - Pair i ` set ?dropped \<union> Pair i ` set ?added" using keep(1) A(1) R(1) ord k0 by simp
  have m: "set (groupMembersTx i d') = set ?m" unfolding set_groupMembersTx keys by (auto simp: set_groupMembersTx)
  have "uid \<in> set ?have \<or> owned_by conn d uid" if "uid \<in> set (groupMembersTx i d')" for uid
    using that own unfolding m by (auto simp: membersOwnedTx_def)
  moreover have "set (groupMembersTx j d') = set (groupMembersTx j d)" if "j \<noteq> i" for j using that by (auto simp: set_groupMembersTx keys)
  moreover have "users d' = users d" using keep(2) A(2) R(2) by simp
  moreover have "dg_name x = dg_name ?w \<and> (ref (dg_external_id g) \<noteq> '''' \<longrightarrow> dg_external_id x = dg_external_id g)" if "x \<in> set (directory_groups d')" "dg_id x = i" for x
  proof -
    from that(1) have "x \<in> set (directory_groups ?d0)" using keep(3) A(3) R(3) by simp
    then obtain y where "x = (if dg_id y = i then y\<lparr>dg_name := dg_name ?w, dg_external_id := nullIfEmpty ?ext, dg_updated_at := now\<rparr> else y)" by (auto simp: set_sql_update)
    with that(2) have x: "dg_name x = dg_name ?w" "dg_external_id x = nullIfEmpty ?ext" by (auto split: if_splits)
    have "nullIfEmpty ?ext = dg_external_id g" if "ref (dg_external_id g) \<noteq> ''''" using ext that ref_eq_Some[OF refl that] by (auto simp: nullIfEmpty_def)
    with x show ?thesis by simp
  qed
  ultimately show ?thesis using v ed g(3) vw(1) m by (intro exI[of _ view] exI[of _ wish]) simp
qed

section \<open>Bearer tokens\<close>

lemma TrimPrefix_append [simp]: "TrimPrefix (p @ s) p = s"
  by (simp add: TrimPrefix_def)

lemma scim_matches_iff: "(t, c) \<in> set (scim_matches h d) \<longleftrightarrow> t \<in> set (scim_connector_tokens d) \<and> sct_token_hash t = h \<and> sct_revoked_at t = None \<and>
    c \<in> set (scim_connectors d) \<and> sco_id c = sct_connector_id t \<and> sco_status c = ConnectorActive"
  by (auto simp: scim_matches_def)

lemma AuthenticateSCIMToken_refused:
  assumes "\<And>t c. (t, c) \<notin> set (scim_matches (sha (TrimPrefix raw scim_prefix)) d)"
  shows "AuthenticateSCIMToken sha raw now d = Inl ErrNotFound"
proof -
  have "scim_matches (sha (TrimPrefix raw scim_prefix)) d = []" using assms by (metis list.set_intros(1) neq_Nil_conv surj_pair)
  then show ?thesis by (simp add: AuthenticateSCIMToken_def Let_def)
qed

text \<open>
  C27. A Bearer value works from the moment it is issued until it is revoked: presented to a database in which its
  connector is active it names that connector with the scope it was issued for, and once revoked it is refused, at
  whatever time it is presented.
\<close>

theorem scim_token_round_trip:
  assumes iss: "IssueSCIMToken sha conn scope audit now d = Inr ((raw, t), d')" and r: "rand_src d (rand_pos d) \<noteq> ''''"
    and c: "GetSCIMConnector conn d = Some c" "sco_status c = ConnectorActive" and keys: "distinct (map sco_id (scim_connectors d))"
  shows "scope_of scope = Some (sct_scope t) \<and> (\<exists>e. AuthenticateSCIMToken sha raw later d' = Inr ((c, sct_scope t), e)) \<and>
    (\<forall>audit' t2 d''. RevokeSCIMToken conn (sct_id t) audit' t2 d' = Inr ((), d'') \<longrightarrow> AuthenticateSCIMToken sha raw later d'' = Inl ErrNotFound)"
proof -
  let ?x = "rand_src d (rand_pos d)"
  from iss obtain sc where sc: "scope_of scope = Some sc" by (auto simp: IssueSCIMToken_def split: option.splits)
  from iss sc have raw: "raw = scim_prefix @ ?x" and t: "sct_connector_id t = conn" "sct_token_hash t = sha ?x" "sct_scope t = sc" "sct_revoked_at t = None"
    and fresh: "\<forall>x \<in> set (scim_connector_tokens d). sct_token_hash x \<noteq> sha ?x"
    and toks: "scim_connector_tokens d' = scim_connector_tokens d @ [t]" "scim_connectors d' = scim_connectors d"
    by (auto simp: IssueSCIMToken_def fresh_id_def Let_def andthen_Inr_iff sql_insert_def elim!: auditedTx_InrD)
  from c(1) have c': "c \<in> set (scim_connectors d)" "sco_id c = conn" by (auto simp: GetSCIMConnector_def dest: find_SomeD)
  have only: "(y, k) \<in> set (scim_matches (sha ?x) d') \<longleftrightarrow> y = t \<and> k = c" for y k
    using fresh toks t c' c(2) key_unique[OF keys c'(1), of k] by (auto simp: scim_matches_iff)
  then obtain ms where ms: "scim_matches (sha ?x) d' = (t, c) # ms" by (metis list.set_cases list.set_intros(1) surj_pair)
  have works: "\<exists>e. AuthenticateSCIMToken sha raw later d' = Inr ((c, sct_scope t), e)" using r ms by (simp add: AuthenticateSCIMToken_def raw Let_def)
  have "AuthenticateSCIMToken sha raw later d'' = Inl ErrNotFound" if rev: "RevokeSCIMToken conn (sct_id t) audit' t2 d' = Inr ((), d'')" for audit' t2 d''
  proof (rule AuthenticateSCIMToken_refused)
    let ?mine = "\<lambda>x. sct_id x = sct_id t \<and> sct_connector_id x = conn \<and> sct_revoked_at x = None"
    from rev have up: "scim_connector_tokens d'' = sql_update ?mine (\<lambda>x. x\<lparr>sct_revoked_at := Some t2\<rparr>) (scim_connector_tokens d')"
      unfolding RevokeSCIMToken_def Let_def by (elim auditedTx_InrD) (auto simp: andthen_Inr_iff)
    fix y k
    show "(y, k) \<notin> set (scim_matches (sha (TrimPrefix raw scim_prefix)) d'')"
    proof
      assume "(y, k) \<in> set (scim_matches (sha (TrimPrefix raw scim_prefix)) d'')"
      then have y: "y \<in> set (scim_connector_tokens d'')" "sct_token_hash y = sha ?x" "sct_revoked_at y = None" by (simp_all add: scim_matches_iff raw)
      then obtain z where z: "z \<in> set (scim_connector_tokens d')" "y = (if ?mine z then z\<lparr>sct_revoked_at := Some t2\<rparr> else z)" by (auto simp: up set_sql_update)
      with y have "z \<in> set (scim_connector_tokens d')" "sct_token_hash z = sha ?x" "\<not> ?mine z" by (auto split: if_splits)
      with fresh toks t show False by auto
    qed
  qed
  with works sc t(3) show ?thesis by simp
qed

section \<open>Accounts an upstream creates\<close>

text \<open>
  An account an upstream creates can do nothing yet and shadows nobody: it is pending and disabled, an ordinary user
  without a password, owned by the connector; no other account uses its username or address as either; and every other
  account is as before. The audit row that commits with it names whatever target the caller gave, not the new account.
\<close>

theorem upstream_creation_means:
  assumes "CreateUpstreamUser u0 audit now d = Inr (u, d')"
  shows "users d' = users d @ [u] \<and> usr_pending u \<and> usr_status u = Disabled \<and> usr_role u = RoleUser \<and> usr_password_hash u = '''' \<and>
    usr_source_connector_id u = usr_source_connector_id u0 \<and> usr_external_id u = usr_external_id u0 \<and> usr_id u \<notin> usr_id ` set (users d) \<and>
    rejectCrossIdentityTx (usr_id u) (usr_username u) (usr_email u) d = Inr () \<and>
    (\<forall>a. audit = Some a \<longrightarrow> (\<exists>x \<in> set (audit_events d'). au_id x = au_id a \<and> au_target_id x = au_target_id a))"
proof -
  let ?i = "rand_src d (rand_pos d)" and ?d0 = "d\<lparr>rand_pos := Suc (rand_pos d)\<rparr>"
  let ?u = "upstream_account ?i now u0"
  let ?fn = "\<lambda>e. andthen (rejectCrossIdentityTx (usr_id ?u) (usr_username ?u) (usr_email ?u) e) (\<lambda>_.
      andthen (ensure (\<not> (\<exists>x \<in> set (users e). user_clash ?u x) \<and> \<not> source_taken ?u e) ErrUserConflict) (\<lambda>_.
      Inr (?u, user_deadlines_trigger ?i now (e\<lparr>users := sql_insert ?u (users e)\<rparr>))))"
  from assms have own: "usr_source_connector_id u0 \<noteq> None" and tx: "auditedTx audit now ?fn ?d0 = Inr (u, d')"
    by (auto simp: CreateUpstreamUser_def fresh_id_def Let_def ref_def split: if_splits option.splits)
  from tx obtain e where f: "?fn ?d0 = Inr (u, e)" and au: "recordAuditTx audit now e = Inr d'" by (auto simp: auditedTx_def andthen_Inr_iff)
  from f have u: "u = ?u" and x: "rejectCrossIdentityTx (usr_id ?u) (usr_username ?u) (usr_email ?u) ?d0 = Inr ()" "usr_id ?u \<notin> usr_id ` set (users d)" "users e = users d @ [?u]"
    by (auto simp: andthen_Inr_iff user_clash_def user_deadlines_trigger_def sql_insert_def)
  from recordAuditTx_InrD[OF au] x(3) have us: "users d' = users d @ [?u]" by auto
  have row: "\<exists>x \<in> set (audit_events d'). au_id x = au_id a \<and> au_target_id x = au_target_id a" if "audit = Some a" for a
    using au that by (auto simp: recordAuditTx_def Let_def sql_insert_def split: if_splits)
  have "usr_pending ?u" "usr_status ?u = Disabled" "usr_role ?u = RoleUser" "usr_password_hash ?u = ''''"
    "usr_source_connector_id ?u = usr_source_connector_id u0" "usr_external_id ?u = usr_external_id u0"
    using own by (auto simp: upstream_account_def ApplySourceState_def)
  moreover have "rejectCrossIdentityTx (usr_id ?u) (usr_username ?u) (usr_email ?u) d = Inr ()" using x(1) by (simp add: rejectCrossIdentityTx_def)
  ultimately show ?thesis using us x(2) row u by simp
qed


section \<open>A directory with an upstream\<close>

text \<open>The sample account is an upstream's, and so is a group that holds it; a second account of the upstream is not in the group.\<close>

definition upstream_user :: "string \<Rightarrow> user \<Rightarrow> user" where
  "upstream_user ext u = u\<lparr>usr_source_connector_id := Some ''k1'', usr_external_id := Some ext\<rparr>"

definition upstream_db :: db where
  "upstream_db = group_role_db\<lparr>users := [sample_root, upstream_user ''x1'' sample_ann,
       upstream_user ''x2'' (sample_ann\<lparr>usr_id := ''u2'', usr_username := ''bob'', usr_email := ''bob@example''\<rparr>)],
     scim_connectors := [\<lparr>sco_id = ''k1'', sco_name = ''HR'', sco_status = ConnectorActive, sco_created_at = 0, sco_updated_at = 0\<rparr>],
     directory_groups := map (\<lambda>g. g\<lparr>dg_source_connector_id := Some ''k1'', dg_external_id := Some ''e1''\<rparr>) (directory_groups group_role_db)\<rparr>"

lemma succeeds_pair: "\<not> isl r \<Longrightarrow> \<exists>x y. r = Inr (x, y)"
  by (cases r) auto

theorem upstream_write_means_witness:
  "\<exists>stored d'. UpdateUpstreamUser id (\<lambda>a b. nocase a = nocase b) ''k1'' ''u1'' None (\<lambda>u. Inr (u\<lparr>usr_display_name := ''Ann B'', usr_source_active := False\<rparr>)) sample_now upstream_db = Inr (stored, d') \<and>
     (\<exists>row' \<in> set (users d'). usr_source_connector_id row' = Some ''k1'' \<and> source_status row')"
proof -
  let ?edit = "\<lambda>u. Inr (u\<lparr>usr_display_name := ''Ann B'', usr_source_active := False\<rparr>) :: err + user"
  let ?r = "UpdateUpstreamUser id (\<lambda>a b. nocase a = nocase b) ''k1'' ''u1'' None ?edit sample_now upstream_db"
  have e: "\<not> isl ?r" and k: "distinct (map usr_id (users upstream_db))" by code_simp+
  from succeeds_pair[OF e] obtain stored d' where r: "?r = Inr (stored, d')" by blast
  have i: "\<And>u v. ?edit u = Inr v \<Longrightarrow> usr_id v = usr_id u" by auto
  from upstream_write_means[OF r k i] obtain row row' where "row' \<in> set (users d')" "usr_source_connector_id row = Some ''k1''" "local_part row' = local_part row" "source_status row'" by blast
  then show ?thesis using r by (auto simp: local_part_def)
qed

theorem connector_removal_means_witness:
  "\<exists>d'. DeleteSCIMConnector id ''k1'' True None sample_now upstream_db = Inr (2, d') \<and> CountSCIMConnectorUsers ''k1'' d' = 0 \<and> access_over ''u1'' sample_now d' \<and>
     (\<exists>x \<in> set (users d'). permanent_admin x)"
proof -
  let ?r = "DeleteSCIMConnector id ''k1'' True None sample_now upstream_db"
  have e: "\<not> isl ?r" "fst (projr ?r) = 2" "distinct (map usr_id (users upstream_db))" "\<exists>x \<in> set (users upstream_db). permanent_admin x" by code_simp+
  from e(1) obtain n d' where r0: "?r = Inr (n, d')" by (metis succeeds surj_pair)
  from e(2)[unfolded r0] have n: "n = 2" by simp
  have "upstream_user ''x1'' sample_ann \<in> set (users upstream_db)" by (simp add: upstream_db_def)
  moreover have "usr_source_connector_id (upstream_user ''x1'' sample_ann) = Some ''k1''" "usr_id (upstream_user ''x1'' sample_ann) = ''u1''"
    "usr_status (scanUser sample_now (upstream_user ''x1'' sample_ann)) = Active" by code_simp+
  ultimately show ?thesis using connector_removal_means[OF r0 e(3)] e(4) r0 n by (metis (no_types, lifting))
qed

theorem upstream_group_write_means_witness:
  "\<exists>d'. ReplaceUpstreamGroup id id ''k1'' ''g1'' None (\<lambda>v. Inr (v\<lparr>ug_members := [''u2'', '' u2 '', '''']\<rparr>)) sample_now upstream_db = Inr ((), d') \<and>
     set (groupMembersTx ''g1'' upstream_db) = {''u1''} \<and> set (groupMembersTx ''g1'' d') = {''u2''}"
proof -
  let ?edit = "\<lambda>v. Inr (v\<lparr>ug_members := [''u2'', '' u2 '', '''']\<rparr>) :: err + upstream_group"
  let ?r = "ReplaceUpstreamGroup id id ''k1'' ''g1'' None ?edit sample_now upstream_db"
  have e: "\<not> isl ?r" "set (groupMembersTx ''g1'' upstream_db) = {''u1''}" "uniqueStrings [''u2'', '' u2 '', ''''] = [''u2'']" by code_simp+
  from succeeds_pair[OF e(1)] obtain d' where r: "?r = Inr ((), d')" by auto
  have o: "\<And>xs. set (id xs) = set xs" by simp
  from upstream_group_write_means[OF r o] obtain view wish where w: "?edit view = Inr wish" and m: "set (groupMembersTx ''g1'' d') = set (uniqueStrings (ug_members wish))" by (elim exE conjE) (erule (1) that)
  from w have "ug_members wish = [''u2'', '' u2 '', '''']" by (auto dest!: sym[of "_\<lparr>ug_members := _\<rparr>"])
  then have "set (groupMembersTx ''g1'' d') = {''u2''}" unfolding m by (simp only: e(3)) simp
  with r e(2) show ?thesis by (intro exI conjI)
qed

theorem scim_token_round_trip_witness:
  "\<exists>raw t d' c e. IssueSCIMToken id ''k1'' ''write'' None sample_now upstream_db = Inr ((raw, t), d') \<and>
     AuthenticateSCIMToken id raw (sample_now + hour) d' = Inr ((c, ScopeWrite), e) \<and> sco_id c = ''k1''"
proof -
  let ?r = "IssueSCIMToken id ''k1'' ''write'' None sample_now upstream_db"
  have e: "\<not> isl ?r" "GetSCIMConnector ''k1'' upstream_db \<noteq> None" "rand_src upstream_db (rand_pos upstream_db) \<noteq> ''''"
    "\<forall>c \<in> set (scim_connectors upstream_db). sco_status c = ConnectorActive" "distinct (map sco_id (scim_connectors upstream_db))" by code_simp+
  from e(1) obtain raw t d' where r: "?r = Inr ((raw, t), d')" by (metis succeeds surj_pair)
  from e(2) obtain c where c: "GetSCIMConnector ''k1'' upstream_db = Some c" by blast
  then have c': "sco_status c = ConnectorActive" "sco_id c = ''k1''" using e(4) by (auto simp: GetSCIMConnector_def dest: find_SomeD)
  from scim_token_round_trip[OF r e(3) c c'(1) e(5), of "sample_now + hour"] obtain x where "AuthenticateSCIMToken id raw (sample_now + hour) d' = Inr ((c, sct_scope t), x)"
    and "scope_of ''write'' = Some (sct_scope t)" by blast
  with r c'(2) show ?thesis by (auto simp: scope_of_def)
qed

theorem upstream_creation_means_witness:
  "\<exists>u d'. CreateUpstreamUser (upstream_user ''x3'' (sample_ann\<lparr>usr_username := ''cy'', usr_email := ''cy@example''\<rparr>)) None sample_now upstream_db = Inr (u, d') \<and>
     users d' = users upstream_db @ [u] \<and> usr_status u = Disabled"
proof -
  let ?r = "CreateUpstreamUser (upstream_user ''x3'' (sample_ann\<lparr>usr_username := ''cy'', usr_email := ''cy@example''\<rparr>)) None sample_now upstream_db"
  have "\<not> isl ?r" by code_simp
  then obtain u d' where r: "?r = Inr (u, d')" by (metis succeeds surj_pair)
  from upstream_creation_means[OF r] r show ?thesis by blast
qed

end
