(* ===== verification/Ky_Text.thy ===== *)
theory Ky_Text
  imports Ky_Prelude
begin

text \<open>
  Go strings as runes. A string is its bytes; \<open>for range\<close>, \<open>[]rune(s)\<close> and
  \<^verbatim>\<open>unicode/utf8\<close> read it as UTF-8, one rune per well-formed sequence and one replacement character
  (U+FFFD) per byte that belongs to none.
\<close>

section \<open>UTF-8\<close>

definition byte_in :: "nat \<Rightarrow> nat \<Rightarrow> char \<Rightarrow> bool" where
  "byte_in lo hi c \<longleftrightarrow> lo \<le> of_char c \<and> of_char c \<le> hi"

text \<open>The well-formed sequences by their first byte: how many bytes follow and the range of the first of them.\<close>

definition sequence_shape :: "char \<Rightarrow> (nat \<times> nat \<times> nat) option" where
  "sequence_shape c =
     (if byte_in 0x00 0x7F c then Some (0, 0, 0)
      else if byte_in 0xC2 0xDF c then Some (1, 0x80, 0xBF)
      else if byte_in 0xE0 0xE0 c then Some (2, 0xA0, 0xBF)
      else if byte_in 0xED 0xED c then Some (2, 0x80, 0x9F)
      else if byte_in 0xE1 0xEF c then Some (2, 0x80, 0xBF)
      else if byte_in 0xF0 0xF0 c then Some (3, 0x90, 0xBF)
      else if byte_in 0xF1 0xF3 c then Some (3, 0x80, 0xBF)
      else if byte_in 0xF4 0xF4 c then Some (3, 0x80, 0x8F)
      else None)"

definition continues :: "nat \<Rightarrow> nat \<Rightarrow> nat \<Rightarrow> string \<Rightarrow> bool" where
  "continues n lo hi s \<longleftrightarrow> length (take n s) = n \<and> (case take n s of [] \<Rightarrow> True | b # bs \<Rightarrow> byte_in lo hi b \<and> list_all (byte_in 0x80 0xBF) bs)"

definition rune_error :: string where
  "rune_error = [CHR 0xEF, CHR 0xBF, CHR 0xBD]"

text \<open>The first rune, re-encoded, and the bytes after it.\<close>

fun next_rune :: "string \<Rightarrow> (string \<times> string) option" where
  "next_rune [] = None"
| "next_rune (c # cs) =
     (case sequence_shape c of
        Some (n, lo, hi) \<Rightarrow> if continues n lo hi cs then Some (c # take n cs, drop n cs) else Some (rune_error, cs)
      | None \<Rightarrow> Some (rune_error, cs))"

lemma next_rune_shorter: "next_rune s = Some (r, rest) \<Longrightarrow> length rest < length s"
  by (cases s) (auto split: option.splits if_splits prod.splits)

function runes :: "string \<Rightarrow> string list" where
  "runes s = (case next_rune s of None \<Rightarrow> [] | Some (r, rest) \<Rightarrow> r # runes rest)"
  by auto
termination by (relation "measure length") (auto dest: next_rune_shorter)

declare runes.simps [simp del]

definition RuneCountInString :: "string \<Rightarrow> nat" where
  "RuneCountInString s = length (runes s)"

text \<open>\<open>string([]rune(s)[:n])\<close>.\<close>

definition take_runes :: "nat \<Rightarrow> string \<Rightarrow> string" where
  "take_runes n s = concat (take n (runes s))"

text \<open>\<open>unicode.IsControl\<close> of a rune: C0, DEL and C1.\<close>

definition is_control :: "string \<Rightarrow> bool" where
  "is_control r = (case r of [c] \<Rightarrow> byte_in 0x00 0x1F c \<or> byte_in 0x7F 0x7F c | [c1, c2] \<Rightarrow> c1 = CHR 0xC2 \<and> byte_in 0x80 0x9F c2 | _ \<Rightarrow> False)"

section \<open>Truncation\<close>

text \<open>A rune as written is read back as one rune, whatever follows it.\<close>

definition rune_ok :: "string \<Rightarrow> bool" where
  "rune_ok r \<longleftrightarrow> (\<forall>s. next_rune (r @ s) = Some (r, s))"

lemma rune_error_ok: "rune_ok rune_error"
  by (simp add: rune_ok_def rune_error_def sequence_shape_def byte_in_def continues_def)

lemma next_rune_ok: "next_rune s = Some (r, rest) \<Longrightarrow> rune_ok r"
proof (cases s)
  case (Cons c cs)
  assume n: "next_rune s = Some (r, rest)"
  show ?thesis
  proof (cases "\<exists>k lo hi. sequence_shape c = Some (k, lo, hi) \<and> continues k lo hi cs")
    case True
    then obtain k lo hi where k: "sequence_shape c = Some (k, lo, hi)" "continues k lo hi cs" by blast
    with n Cons have r: "r = c # take k cs" by simp
    from k(2) have "length (take k cs) = k" by (simp add: continues_def)
    then have "take k (take k cs @ t) = take k cs" "drop k (take k cs @ t) = t" for t by (simp_all add: min_def split: if_splits)
    with k show ?thesis by (simp add: rune_ok_def r continues_def)
  next
    case False
    with n Cons have "r = rune_error" by (auto split: option.splits if_splits)
    then show ?thesis by (simp add: rune_error_ok)
  qed
qed simp

lemma runes_ok: "r \<in> set (runes s) \<Longrightarrow> rune_ok r"
proof (induction s rule: runes.induct)
  case (1 s)
  show ?case
  proof (cases "next_rune s")
    case None
    then show ?thesis using 1(2) runes.simps[of s] by simp
  next
    case (Some p)
    then obtain q rest where p: "next_rune s = Some (q, rest)" by (cases p) auto
    then have "runes s = q # runes rest" using runes.simps[of s] by simp
    with 1 p next_rune_ok[OF p] show ?thesis by auto
  qed
qed

lemma runes_concat: "(\<And>r. r \<in> set rs \<Longrightarrow> rune_ok r) \<Longrightarrow> runes (concat rs) = rs"
proof (induction rs)
  case Nil
  then show ?case by (simp add: runes.simps)
next
  case (Cons r rs)
  from Cons.prems[of r] have "next_rune (r @ concat rs) = Some (r, concat rs)" by (simp add: rune_ok_def)
  then show ?case using runes.simps[of "r @ concat rs"] Cons by simp
qed

text \<open>Truncating keeps the leading runes and at most as many as asked for.\<close>

lemma runes_take_runes: "runes (take_runes n s) = take n (runes s)"
  unfolding take_runes_def by (rule runes_concat) (meson in_set_takeD runes_ok)

lemma take_runes_count: "RuneCountInString (take_runes n s) \<le> n"
  by (simp add: RuneCountInString_def runes_take_runes)

end
