(* ===== verification/Ky_Reconcile.thy ===== *)
theory Ky_Reconcile
  imports Ky_Inbound Ky_Text
begin

text \<open>
  Reconciliation with what a connector really holds (\<^verbatim>\<open>internal/store/reconcile.go\<close>): the job queue, the
  comparison of a remote listing with the desired state and its repair, and the provisioning view. \<open>order\<close> is the order in
  which Go visits the keys of the map of desired accounts.
\<close>

section \<open>Jobs\<close>

definition reconcileAttempts :: nat where
  "reconcileAttempts = 3"

definition open_job :: "reconcile_job \<Rightarrow> bool" where
  "open_job j \<longleftrightarrow> rj_status j = JobQueued \<or> rj_status j = JobRunning"

definition kind_of_job :: "string \<Rightarrow> job_kind option" where
  "kind_of_job s = (if s = ''preview'' then Some Preview else if s = ''repair'' then Some Repair else None)"

text \<open>The jobs of a connector, newest first.\<close>

definition recent_jobs :: "string \<Rightarrow> nat \<Rightarrow> db \<Rightarrow> reconcile_job list" where
  "recent_jobs systemID limit d = take limit (sort_key (\<lambda>j. - rj_created_at j) (rev (filter (\<lambda>j. rj_system_id j = systemID) (reconcile_jobs d))))"

definition CreateReconcileJob :: "string \<Rightarrow> string \<Rightarrow> string \<Rightarrow> audit_event option \<Rightarrow> time \<Rightarrow> db \<Rightarrow> reconcile_job tx" where
  "CreateReconcileJob systemID kind requestedBy audit now d =
     (case kind_of_job kind of
        None \<Rightarrow> Inl ErrInvalidInput
      | Some k \<Rightarrow>
         andthen (ensure (system_enabled systemID d) ErrNoRows) (\<lambda>_.
         andthen (ensure (\<not> (\<exists>j \<in> set (reconcile_jobs d). rj_system_id j = systemID \<and> open_job j)) ErrReconcileBusy) (\<lambda>_.
         let (i, d0) = fresh_id d;
             job = \<lparr>rj_id = i, rj_system_id = systemID, rj_kind = k, rj_status = JobQueued, rj_requested_by = requestedBy, rj_claim_token = '''', rj_attempts = 0,
               rj_created_at = now, rj_lease_until = None, rj_started_at = None, rj_finished_at = None, rj_result = None, rj_error = ''''\<rparr>
         in andthen (ensure (\<not> (\<exists>j \<in> set (reconcile_jobs d0). rj_id j = i)) ErrUnique) (\<lambda>_.
            let d1 = d0\<lparr>reconcile_jobs := sql_insert job (reconcile_jobs d0)\<rparr>;
                kept = map rj_id (recent_jobs systemID 20 d1);
                d2 = d1\<lparr>reconcile_jobs := sql_delete (\<lambda>j. rj_system_id j = systemID \<and> \<not> open_job j \<and> rj_id j \<notin> set kept) (reconcile_jobs d1)\<rparr>
            in andthen (recordAuditTx audit now d2) (\<lambda>d3. Inr (job, d3))))))"

definition schedule_due :: "time \<Rightarrow> db \<Rightarrow> paired_system \<Rightarrow> bool" where
  "schedule_due now d s \<longleftrightarrow> ps_reconcile_hours s > 0 \<and> ps_system_type s = ''scim'' \<and> ps_status s \<noteq> SysDisabled \<and>
     \<not> (\<exists>j \<in> set (reconcile_jobs d). rj_system_id j = ps_id s \<and> open_job j) \<and>
     (case recent_jobs (ps_id s) 1 d of [] \<Rightarrow> True | j # _ \<Rightarrow> rj_created_at j + wrap64 (ps_reconcile_hours s * hour) \<le> now)"

definition ScheduleReconcileJobs :: "time \<Rightarrow> db \<Rightarrow> err + db" where
  "ScheduleReconcileJobs now d =
     each (\<lambda>sys e.
       let (i, e0) = fresh_id e
       in case CreateReconcileJob sys ''repair'' ''schedule'' (Some \<lparr>au_id = i, au_actor_id = '''', au_actor_username = ''schedule'', au_action = ''admin.reconcile_requested'',
              au_target_id = sys, au_target_type = ''system'', au_ip_address = '''', au_user_agent = '''', au_outcome = Success,
              au_details = JObj [(''kind'', JStr ''repair''), (''requestedBy'', JStr ''schedule'')], au_created_at = None\<rparr>) now e0 of
            Inr (_, e1) \<Rightarrow> Inr e1
          | Inl er \<Rightarrow> if er = ErrReconcileBusy then Inr e0 else Inl er)
       (map ps_id (filter (schedule_due now d) (paired_systems d))) d"

definition lease_over :: "time \<Rightarrow> reconcile_job \<Rightarrow> bool" where
  "lease_over now j = (case rj_lease_until j of None \<Rightarrow> False | Some t \<Rightarrow> t \<le> now)"

definition claimable_job :: "time \<Rightarrow> reconcile_job \<Rightarrow> bool" where
  "claimable_job now j \<longleftrightarrow> (rj_status j = JobQueued \<or> rj_status j = JobRunning \<and> lease_over now j) \<and> rj_attempts j < reconcileAttempts"

definition claimed_job :: "string \<Rightarrow> duration \<Rightarrow> time \<Rightarrow> reconcile_job \<Rightarrow> reconcile_job" where
  "claimed_job token lease now j = j\<lparr>rj_status := JobRunning, rj_claim_token := token, rj_lease_until := Some (now + lease),
     rj_started_at := (case rj_started_at j of None \<Rightarrow> Some now | Some t \<Rightarrow> Some t), rj_attempts := rj_attempts j + 1\<rparr>"

text \<open>A job interrupted as often as it may be attempted is failed.\<close>

definition fail_interrupted_jobs :: "time \<Rightarrow> db \<Rightarrow> db" where
  "fail_interrupted_jobs now d = d\<lparr>reconcile_jobs := sql_update (\<lambda>j. rj_status j = JobRunning \<and> lease_over now j \<and> reconcileAttempts \<le> rj_attempts j)
     (\<lambda>j. j\<lparr>rj_status := JobFailed, rj_error := ''interrupted repeatedly'', rj_finished_at := Some now, rj_lease_until := None, rj_claim_token := ''''\<rparr>) (reconcile_jobs d)\<rparr>"

definition ClaimReconcileJob :: "duration \<Rightarrow> time \<Rightarrow> db \<Rightarrow> reconcile_job option \<times> db" where
  "ClaimReconcileJob lease now d =
     (let (token, d1) = fresh_id (fail_interrupted_jobs now d)
      in case sort_key rj_created_at (filter (claimable_job now) (reconcile_jobs d1)) of
           [] \<Rightarrow> (None, d1)
         | j # _ \<Rightarrow> (Some (claimed_job token lease now j),
             d1\<lparr>reconcile_jobs := sql_update (\<lambda>x. rj_id x = rj_id j) (claimed_job token lease now) (reconcile_jobs d1)\<rparr>))"

definition releaseProvisioningHoldTx :: "string \<Rightarrow> db \<Rightarrow> db" where
  "releaseProvisioningHoldTx systemID d = d\<lparr>paired_systems := sql_update (\<lambda>s. ps_id s = systemID \<and> ps_provisioning_hold s) (\<lambda>s. s\<lparr>ps_provisioning_hold := False\<rparr>) (paired_systems d)\<rparr>"

definition report_counts :: "drift_report \<Rightarrow> (string \<times> json) list" where
  "report_counts r = [(''listedUsers'', JNum (int (rp_listed_users r))), (''unrelated'', JNum (int (rp_unrelated r))), (''missing'', JNum (int (rp_missing_count r))),
     (''stale'', JNum (int (rp_stale_count r))), (''orphaned'', JNum (int (rp_orphaned_count r))), (''groupsRequeued'', JNum (int (rp_groups_requeued r))),
     (''groupsOrphaned'', JNum (int (rp_groups_orphaned r))), (''mappingConflicts'', JNum (int (rp_mapping_conflicts r))), (''repaired'', JBool (rp_repaired r))]"

definition finish_details :: "reconcile_job \<Rightarrow> drift_report option \<Rightarrow> string option \<Rightarrow> (string \<times> json) list" where
  "finish_details job report runErr =
     [(''jobId'', JStr (rj_id job)), (''requestedBy'', JStr (rj_requested_by job)), (''status'', JStr (if runErr = None then ''done'' else ''failed''))] @
     (if runErr \<noteq> None then [(''reason'', JStr ''job failed'')]
      else case report of
             None \<Rightarrow> [(''reason'', JStr ''verification unsupported'')]
           | Some r \<Rightarrow> if \<not> rp_supported r then [(''reason'', JStr ''verification unsupported'')]
                       else if \<not> rp_complete r then [(''reason'', JStr ''listing incomplete'')] else []) @
     (case report of None \<Rightarrow> [] | Some r \<Rightarrow> report_counts r)"

text \<open>Only a repair that listed the far side completely and wrote through lifts a provisioning hold.\<close>

definition evidence_of_repair :: "reconcile_job \<Rightarrow> drift_report option \<Rightarrow> string option \<Rightarrow> bool" where
  "evidence_of_repair job report runErr \<longleftrightarrow> rj_kind job = Repair \<and> runErr = None \<and> (case report of None \<Rightarrow> False | Some r \<Rightarrow> rp_repaired r \<and> rp_listing_error r = '''')"

definition FinishReconcileJob :: "reconcile_job \<Rightarrow> drift_report option \<Rightarrow> string option \<Rightarrow> time \<Rightarrow> db \<Rightarrow> err + db" where
  "FinishReconcileJob job report runErr now d =
     (let mine = (\<lambda>j. rj_id j = rj_id job \<and> rj_claim_token j = rj_claim_token job);
          d1 = d\<lparr>reconcile_jobs := sql_update mine (\<lambda>j. j\<lparr>rj_status := (if runErr = None then JobDone else JobFailed), rj_result := report,
                 rj_error := ref runErr, rj_finished_at := Some now, rj_lease_until := None, rj_claim_token := ''''\<rparr>) (reconcile_jobs d)\<rparr>
      in andthen (ensure (sql_count mine (reconcile_jobs d) = 1) ErrAttemptChanged) (\<lambda>_.
         let d2 = (if evidence_of_repair job report runErr then releaseProvisioningHoldTx (rj_system_id job) d1 else d1)
         in if rj_kind job = Repair then
              let (i, d3) = fresh_id d2
              in recordAuditTx (Some \<lparr>au_id = i, au_actor_id = '''', au_actor_username = rj_requested_by job, au_action = ''admin.reconcile_completed'',
                   au_target_id = rj_system_id job, au_target_type = ''system'', au_ip_address = '''', au_user_agent = '''',
                   au_outcome = (if runErr = None then Success else Failure), au_details = JObj (finish_details job report runErr), au_created_at = None\<rparr>) now d3
            else Inr d2))"

definition ListReconcileJobs :: "string \<Rightarrow> nat \<Rightarrow> db \<Rightarrow> reconcile_job list" where
  "ListReconcileJobs systemID limit d = recent_jobs systemID limit d"

section \<open>What a listing reports\<close>

record remote_account =
  ra_id :: string
  ra_external_id :: string
  ra_user_name :: string
  ra_display_name :: string
  ra_email :: string
  ra_active :: bool

record remote_group =
  rgp_id :: string
  rgp_external_id :: string
  rgp_display_name :: string

record remote_listing =
  rl_supported :: bool
  rl_complete :: bool
  rl_users :: "remote_account list"
  rl_groups :: "remote_group list"
  rl_groups_listed :: bool

definition RemoteTextLimit :: nat where
  "RemoteTextLimit = 128"

definition boundRemoteText :: "string \<Rightarrow> string" where
  "boundRemoteText s = (if RuneCountInString s \<le> RemoteTextLimit then s else take_runes RemoteTextLimit s)"

text \<open>Target text is bounded whatever the target sends.\<close>

lemma boundRemoteText_bounded: "RuneCountInString (boundRemoteText s) \<le> RemoteTextLimit"
  by (simp add: boundRemoteText_def take_runes_count)

definition bounded_account :: "remote_account \<Rightarrow> remote_account" where
  "bounded_account a = a\<lparr>ra_user_name := boundRemoteText (ra_user_name a), ra_display_name := boundRemoteText (ra_display_name a), ra_email := boundRemoteText (ra_email a)\<rparr>"

definition bounded_group :: "remote_group \<Rightarrow> remote_group" where
  "bounded_group g = g\<lparr>rgp_display_name := boundRemoteText (rgp_display_name g)\<rparr>"

definition driftSample :: nat where
  "driftSample = 100"

definition appendDrift :: "drift_entry \<Rightarrow> drift_entry list \<Rightarrow> drift_entry list" where
  "appendDrift e es = (if length es < driftSample then es @ [e] else es)"

section \<open>Comparing and repairing\<close>

text \<open>What one comparison works with: the connector, its listing, whether it repairs, the accounts and groups it should hold.\<close>

record drift_env =
  en_system :: string
  en_listing :: remote_listing
  en_repair :: bool
  en_desired :: "user list"
  en_groups :: "desired_group_row list"
  en_now :: time

definition desired_entry :: "drift_env \<Rightarrow> string \<Rightarrow> user option" where
  "desired_entry en i = sql_first (\<lambda>u. usr_id u = i) (en_desired en)"

definition wanted_group :: "drift_env \<Rightarrow> string \<Rightarrow> bool" where
  "wanted_group en i \<longleftrightarrow> (\<exists>g \<in> set (en_groups en). dgr_group_id g = i)"

definition known_resource :: "string \<Rightarrow> resource_kind \<Rightarrow> string \<Rightarrow> db \<Rightarrow> bool" where
  "known_resource sys kind i d \<longleftrightarrow> (\<exists>st \<in> set (sync_states d). state_at sys i st \<and> ss_kind st = kind) \<or>
     (\<exists>l \<in> set (scim_links d). link_at sys i l \<and> lk_kind l = kind)"

definition managed :: "drift_env \<Rightarrow> resource_kind \<Rightarrow> string \<Rightarrow> db \<Rightarrow> bool" where
  "managed en kind i d \<longleftrightarrow> (if kind = UserResource then desired_entry en i \<noteq> None else wanted_group en i) \<or> known_resource (en_system en) kind i d"

definition dead :: "drift_env \<Rightarrow> resource_kind \<Rightarrow> string \<Rightarrow> bool" where
  "dead en kind remoteID \<longleftrightarrow> remoteID \<noteq> '''' \<and> rl_complete (en_listing en) \<and>
     (case kind of UserResource \<Rightarrow> \<not> (\<exists>r \<in> set (rl_users (en_listing en)). ra_id r = remoteID)
      | GroupResource \<Rightarrow> rl_groups_listed (en_listing en) \<and> \<not> (\<exists>r \<in> set (rl_groups (en_listing en)). rgp_id r = remoteID))"

definition stored_link :: "drift_env \<Rightarrow> resource_kind \<Rightarrow> string \<Rightarrow> db \<Rightarrow> string" where
  "stored_link en kind localID d = ref (SCIMLink (en_system en) kind localID d)"

definition dropDead :: "drift_env \<Rightarrow> resource_kind \<Rightarrow> string \<Rightarrow> db \<Rightarrow> db" where
  "dropDead en kind localID d = (if dead en kind (stored_link en kind localID d) then DeleteSCIMLink (en_system en) kind localID d else d)"

definition link_resource :: "drift_env \<Rightarrow> resource_kind \<Rightarrow> string \<Rightarrow> string \<Rightarrow> db \<Rightarrow> bool tx" where
  "link_resource en kind localID remoteID d =
     (let sys = en_system en; stored = stored_link en kind localID d
      in andthen (ensure (remoteID \<noteq> '''' \<and> remoteID \<noteq> ''.'' \<and> remoteID \<noteq> ''..'') ErrInvalidInput) (\<lambda>_.
         if stored \<noteq> '''' \<and> stored \<noteq> remoteID \<and> \<not> dead en kind stored then Inr (False, d)
         else if remote_taken sys localID kind remoteID d then Inr (False, d)
         else case sql_first (link_at sys localID) (scim_links d) of
                None \<Rightarrow> andthen (link_checks sys localID d) (\<lambda>_.
                  Inr (True, d\<lparr>scim_links := sql_insert \<lparr>lk_system_id = sys, lk_local_id = localID, lk_kind = kind, lk_remote_id = remoteID\<rparr> (scim_links d)\<rparr>))
              | Some l \<Rightarrow>
                  if lk_kind l = kind \<and> (lk_remote_id l = '''' \<or> lk_remote_id l = stored)
                  then Inr (True, d\<lparr>scim_links := sql_update (link_at sys localID) (\<lambda>l. l\<lparr>lk_remote_id := remoteID\<rparr>) (scim_links d)\<rparr>)
                  else Inr (stored = remoteID, d)))"

definition observe :: "drift_env \<Rightarrow> resource_kind \<Rightarrow> string \<Rightarrow> string \<Rightarrow> db \<Rightarrow> db" where
  "observe en kind i st d = d\<lparr>sync_states := sql_update (\<lambda>x. state_at (en_system en) i x \<and> ss_kind x = kind)
     (\<lambda>x. x\<lparr>ss_observed := st, ss_observed_at := Some (en_now en)\<rparr>) (sync_states d)\<rparr>"

definition hold_resource :: "drift_env \<Rightarrow> resource_kind \<Rightarrow> string \<Rightarrow> db \<Rightarrow> db" where
  "hold_resource en kind i d =
     (let sys = en_system en
      in if \<exists>st \<in> set (sync_states d). state_at sys i st
         then d\<lparr>sync_states := sql_update (state_at sys i) (\<lambda>st. st\<lparr>ss_provisioned := True\<rparr>) (sync_states d)\<rparr>
         else d\<lparr>sync_states := sql_insert ((new_state sys i True True)\<lparr>ss_kind := kind\<rparr>) (sync_states d)\<rparr>)"

text \<open>Queueing an account again as it should be.\<close>

definition requeue_user :: "drift_env \<Rightarrow> user \<Rightarrow> db \<Rightarrow> err + db" where
  "requeue_user en u d =
     andthen (scimUserPayloadTx u True (en_system en) (en_now en) d) (\<lambda>body.
     queueDesiredStateTx ((desired_user (en_system en) (usr_id u) True body)\<lparr>ds_force := True\<rparr>) (en_now en) d)"

definition remove_orphan :: "drift_env \<Rightarrow> string \<Rightarrow> user option \<Rightarrow> db \<Rightarrow> err + db" where
  "remove_orphan en i lu d =
     (let d1 = hold_resource en UserResource i d
      in andthen (case lu of None \<Rightarrow> Inr (scimInactivePayload i) | Some u \<Rightarrow> scimUserPayloadTx u False (en_system en) (en_now en) d1) (\<lambda>body.
         queueDesiredStateTx (desired_user (en_system en) i False body) (en_now en) d1))"

definition account_differs :: "remote_account \<Rightarrow> user \<Rightarrow> bool" where
  "account_differs r u \<longleftrightarrow> \<not> ra_active r \<or> ra_user_name r \<noteq> boundRemoteText (usr_username u) \<or> ra_display_name r \<noteq> boundRemoteText (usr_display_name u) \<or>
     ra_email r \<noteq> boundRemoteText (usr_email u)"

text \<open>One listed account that is managed and whose mapping stands.\<close>

definition compare_account :: "drift_env \<Rightarrow> remote_account \<Rightarrow> drift_report \<Rightarrow> db \<Rightarrow> drift_report tx" where
  "compare_account en r rep d =
     (let i = ra_external_id r
      in case desired_entry en i of
           Some u \<Rightarrow>
             if account_differs r u then
               andthen (if en_repair en then requeue_user en u d else Inr d) (\<lambda>d1.
               Inr (rep\<lparr>rp_stale := appendDrift \<lparr>dr_id = usr_id u, dr_username = usr_username u, dr_reason = ''attributes differ''\<rparr> (rp_stale rep),
                 rp_stale_count := rp_stale_count rep + 1\<rparr>, d1))
             else Inr (rep, d)
         | None \<Rightarrow>
             if ra_active r \<and> rl_complete (en_listing en) then
               let lu = user_by_id i (en_now en) d;
                   name = (case lu of None \<Rightarrow> boundRemoteText (ra_user_name r) | Some u \<Rightarrow> usr_username u)
               in andthen (if en_repair en then remove_orphan en i lu d else Inr d) (\<lambda>d1.
                  Inr (rep\<lparr>rp_orphaned := appendDrift \<lparr>dr_id = i, dr_username = name, dr_reason = ''active without access''\<rparr> (rp_orphaned rep),
                    rp_orphaned_count := rp_orphaned_count rep + 1\<rparr>, d1))
             else Inr (rep, d))"

definition compare_listed :: "drift_env \<Rightarrow> remote_account \<Rightarrow> string list \<times> drift_report \<times> db \<Rightarrow> err + (string list \<times> drift_report \<times> db)" where
  "compare_listed en r st = (case st of (seen, rep, d) \<Rightarrow>
     (let i = ra_external_id r
      in if i = '''' \<or> \<not> managed en UserResource i d then Inr (seen, rep\<lparr>rp_unrelated := rp_unrelated rep + 1\<rparr>, d)
         else andthen (if en_repair en then link_resource en UserResource i (ra_id r) d else Inr (True, d)) (\<lambda>(linked, d1).
              andthen (if linked then compare_account en r rep d1 else Inr (rep\<lparr>rp_mapping_conflicts := rp_mapping_conflicts rep + 1\<rparr>, d1)) (\<lambda>(rep2, d2).
              Inr (i # seen, rep2, observe en UserResource i (if ra_active r then ''present_active'' else ''present_inactive'') d2)))))"

definition report_missing :: "drift_env \<Rightarrow> user \<Rightarrow> drift_report \<times> db \<Rightarrow> err + (drift_report \<times> db)" where
  "report_missing en u st = (case st of (rep, d) \<Rightarrow>
     andthen (if en_repair en then
         requeue_user en u (let d1 = dropDead en UserResource (usr_id u) d
           in d1\<lparr>sync_states := sql_update (\<lambda>x. state_at (en_system en) (usr_id u) x \<and> ss_kind x = UserResource) (\<lambda>x. x\<lparr>ss_provisioned := False\<rparr>) (sync_states d1)\<rparr>)
       else Inr d) (\<lambda>d2.
     Inr (rep\<lparr>rp_missing := appendDrift \<lparr>dr_id = usr_id u, dr_username = usr_username u, dr_reason = ''absent at target''\<rparr> (rp_missing rep),
       rp_missing_count := rp_missing_count rep + 1\<rparr>, d2)))"

definition mark_absent :: "drift_env \<Rightarrow> db \<Rightarrow> db" where
  "mark_absent en d = d\<lparr>sync_states := sql_update (\<lambda>x. ss_system_id x = en_system en \<and> ss_kind x = UserResource \<and>
       (case ss_observed_at x of None \<Rightarrow> True | Some t \<Rightarrow> t < en_now en)) (\<lambda>x. x\<lparr>ss_observed := ''absent'', ss_observed_at := Some (en_now en)\<rparr>) (sync_states d)\<rparr>"

definition requeue_group :: "(string \<Rightarrow> string) \<Rightarrow> drift_env \<Rightarrow> desired_group_row \<Rightarrow> drift_report \<times> db \<Rightarrow> err + (drift_report \<times> db)" where
  "requeue_group sha en g st = (case st of (rep, d) \<Rightarrow>
     andthen (if en_repair en then
         let d1 = dropDead en GroupResource (dgr_group_id g) d
         in queueDesiredStateTx (desired_group (en_system en) (dgr_group_id g) True (groupMembersHashTx sha g (en_now en) d1) True) (en_now en) d1
       else Inr d) (\<lambda>d2. Inr (rep\<lparr>rp_groups_requeued := rp_groups_requeued rep + 1\<rparr>, d2)))"

definition orphan_group :: "drift_env \<Rightarrow> remote_group \<Rightarrow> drift_report \<times> db \<Rightarrow> err + (drift_report \<times> db)" where
  "orphan_group en r st = (case st of (rep, d) \<Rightarrow>
     (let i = rgp_external_id r
      in if i = '''' \<or> wanted_group en i \<or> \<not> managed en GroupResource i d then Inr (rep, d)
         else let rep1 = rep\<lparr>rp_groups_orphaned := rp_groups_orphaned rep + 1\<rparr>
              in if \<not> en_repair en then Inr (rep1, d)
                 else andthen (link_resource en GroupResource i (rgp_id r) d) (\<lambda>(linked, d1).
                      if \<not> linked then Inr (rep1\<lparr>rp_mapping_conflicts := rp_mapping_conflicts rep1 + 1\<rparr>, d1)
                      else andthen (queueDesiredStateTx (desired_group (en_system en) i False '''' False) (en_now en) (hold_resource en GroupResource i d1)) (\<lambda>d2.
                           Inr (rep1, d2)))))"

definition empty_report :: "remote_listing \<Rightarrow> drift_report" where
  "empty_report l = \<lparr>rp_supported = rl_supported l, rp_complete = (rl_supported l \<and> rl_complete l), rp_repaired = False, rp_listed_users = 0, rp_unrelated = 0,
     rp_missing_count = 0, rp_stale_count = 0, rp_orphaned_count = 0, rp_missing = [], rp_stale = [], rp_orphaned = [], rp_groups_requeued = 0,
     rp_groups_orphaned = 0, rp_mapping_conflicts = 0, rp_listing_error = ''''\<rparr>"

definition desired_users :: "string \<Rightarrow> time \<Rightarrow> db \<Rightarrow> user list" where
  "desired_users systemID now d = map (scanUser now) (filter (\<lambda>u. system_access systemID (usr_id u) now d) (users d))"

definition drift_env_of :: "string \<Rightarrow> remote_listing \<Rightarrow> bool \<Rightarrow> time \<Rightarrow> db \<Rightarrow> drift_env" where
  "drift_env_of systemID listing repair now d = \<lparr>en_system = systemID, en_listing = listing, en_repair = repair, en_desired = desired_users systemID now d,
     en_groups = (if rl_groups_listed listing then desiredGroupsTx systemID d else []), en_now = now\<rparr>"

definition ReconcileDrift :: "(string \<Rightarrow> string) \<Rightarrow> (user list \<Rightarrow> user list) \<Rightarrow> string \<Rightarrow> remote_listing \<Rightarrow> bool \<Rightarrow> time \<Rightarrow> db \<Rightarrow> drift_report tx" where
  "ReconcileDrift sha order systemID listing repair now d =
     andthen (ensure (\<exists>s \<in> set (paired_systems d). ps_id s = systemID) ErrNoRows) (\<lambda>_.
     if \<not> rl_supported listing then
       Inr (empty_report listing, d\<lparr>sync_states := sql_update (\<lambda>x. ss_system_id x = systemID)
         (\<lambda>x. x\<lparr>ss_observed := ''unsupported'', ss_observed_at := Some now\<rparr>) (sync_states d)\<rparr>)
     else
       let en = drift_env_of systemID listing repair now d
       in andthen (each (compare_listed en) (rl_users listing) ([], (empty_report listing)\<lparr>rp_listed_users := length (rl_users listing)\<rparr>, d)) (\<lambda>(seen, rep, d1).
          andthen (if rl_complete listing
                   then andthen (each (report_missing en) (filter (\<lambda>u. usr_id u \<notin> set seen) (order (en_desired en))) (rep, d1)) (\<lambda>(rep2, d2). Inr (rep2, mark_absent en d2))
                   else Inr (rep, d1)) (\<lambda>(rep3, d3).
          andthen (if rl_groups_listed listing \<and> rl_complete listing
                   then andthen (each (requeue_group sha en) (en_groups en) (rep3, d3)) (each (orphan_group en) (rl_groups listing))
                   else Inr (rep3, d3)) (\<lambda>(rep4, d4).
          Inr (rep4\<lparr>rp_repaired := (repair \<and> rl_complete listing)\<rparr>, d4)))))"

section \<open>The provisioning view\<close>

record provisioning_row =
  pr_user :: user
  pr_desired :: bool
  pr_recorded :: bool
  pr_acknowledged :: bool
  pr_observed :: string
  pr_observed_at :: "time option"
  pr_revision :: int
  pr_blocked :: bool
  pr_last_event :: "provisioning_event option"

definition provisioning_row_of :: "string \<Rightarrow> time \<Rightarrow> db \<Rightarrow> user \<Rightarrow> provisioning_row" where
  "provisioning_row_of sys now d u =
     (let st = sql_first (\<lambda>st. state_at sys (usr_id u) st \<and> ss_kind st = UserResource) (sync_states d)
      in \<lparr>pr_user = u, pr_desired = system_access sys (usr_id u) now d,
          pr_recorded = (case st of None \<Rightarrow> False | Some s \<Rightarrow> ss_active s), pr_acknowledged = (case st of None \<Rightarrow> False | Some s \<Rightarrow> ss_provisioned s),
          pr_observed = (case st of None \<Rightarrow> '''' | Some s \<Rightarrow> ss_observed s), pr_observed_at = (case st of None \<Rightarrow> None | Some s \<Rightarrow> ss_observed_at s),
          pr_revision = (case st of None \<Rightarrow> 0 | Some s \<Rightarrow> ss_revision s),
          pr_blocked = (\<exists>a \<in> set (delivery_attempts d). da_system_id a = sys \<and> da_user_id a = usr_id u), pr_last_event = last_event sys (usr_id u) d\<rparr>)"

definition ListProvisioningState :: "string \<Rightarrow> string \<Rightarrow> nat \<Rightarrow> nat \<Rightarrow> time \<Rightarrow> db \<Rightarrow> err + (provisioning_row list \<times> nat)" where
  "ListProvisioningState systemID q limit offset now d =
     andthen (ensure (\<exists>s \<in> set (paired_systems d). ps_id s = systemID) ErrNoRows) (\<lambda>_.
     let found = filter (\<lambda>u. ((\<exists>st \<in> set (sync_states d). state_at systemID (usr_id u) st \<and> ss_kind st = UserResource) \<or> system_access systemID (usr_id u) now d) \<and>
           (matches q (usr_username u) \<or> matches q (usr_display_name u))) (users d)
     in Inr (map (provisioning_row_of systemID now d) (page limit offset (order_pairs (\<lambda>u. nocase (usr_username u)) usr_id found)), length found))"

definition RetryProvisioning :: "string \<Rightarrow> string \<Rightarrow> audit_event option \<Rightarrow> time \<Rightarrow> db \<Rightarrow> err + db" where
  "RetryProvisioning systemID userID audit now d =
     (let u = user_by_id userID now d; desired = system_access systemID userID now d;
          held = (\<exists>st \<in> set (sync_states d). state_at systemID userID st \<and> ss_kind st = UserResource)
      in andthen (ensure (system_enabled systemID d \<and> (desired \<or> held)) ErrNoRows) (\<lambda>_.
         andthen (case u of None \<Rightarrow> Inr (scimInactivePayload userID) | Some x \<Rightarrow> scimUserPayloadTx x desired systemID now d) (\<lambda>body.
         andthen (queueDesiredStateTx ((desired_user systemID userID desired body)\<lparr>ds_force := desired\<rparr>) now d) (\<lambda>d1.
         recordAuditTx audit now d1))))"

section \<open>What a comparison may touch\<close>

lemma filter_update_other: "(\<And>r. r \<in> set t \<Longrightarrow> p r \<Longrightarrow> \<not> q r \<and> \<not> q (f r)) \<Longrightarrow> filter q (sql_update p f t) = filter q t"
  by (induction t) (auto simp: sql_update_def)

lemma filter_delete_other: "(\<And>r. r \<in> set t \<Longrightarrow> p r \<Longrightarrow> \<not> q r) \<Longrightarrow> filter q (sql_delete p t) = filter q t"
  by (induction t) (auto simp: sql_delete_def)

lemma filter_insert_other: "\<not> q r \<Longrightarrow> filter q (sql_insert r t) = filter q t"
  by (simp add: sql_insert_def)

lemmas filter_others = filter_update_other filter_delete_other filter_insert_other

text \<open>Everything recorded about one resource at one connector: its state, its outbox events, its remote mapping.\<close>

definition at_key :: "string \<times> string \<Rightarrow> db \<Rightarrow> sync_state list \<times> sync_event list \<times> scim_link list" where
  "at_key k d = (filter (\<lambda>st. (ss_system_id st, ss_resource_id st) = k) (sync_states d), filter (\<lambda>e. (se_system_id e, se_user_id e) = k) (sync_events d),
     filter (\<lambda>l. (lk_system_id l, lk_local_id l) = k) (scim_links d))"

definition drift_frame :: "db \<Rightarrow> db \<Rightarrow> bool" where
  "drift_frame d d' \<longleftrightarrow> (\<exists>sts evs ls p. d' = d\<lparr>sync_states := sts, sync_events := evs, scim_links := ls, rand_pos := p\<rparr>)"

definition untouched :: "(string \<times> string) set \<Rightarrow> db \<Rightarrow> db \<Rightarrow> bool" where
  "untouched K d d' \<longleftrightarrow> drift_frame d d' \<and> (\<forall>k. k \<notin> K \<longrightarrow> at_key k d' = at_key k d)"

lemma drift_frameI: "d' = d\<lparr>sync_states := sync_states d', sync_events := sync_events d', scim_links := scim_links d', rand_pos := rand_pos d'\<rparr> \<Longrightarrow> drift_frame d d'"
  unfolding drift_frame_def by blast

lemma untouched_refl [simp, intro]: "untouched K d d"
  by (auto simp: untouched_def intro: drift_frameI)

lemma untouched_trans: "untouched K a b \<Longrightarrow> untouched K b c \<Longrightarrow> untouched K a c"
  unfolding untouched_def drift_frame_def by (elim conjE exE, intro conjI exI) auto

lemma untouched_frame: "sync_frame d d' \<Longrightarrow> drift_frame d d'"
  unfolding sync_frame_def by (elim exE, intro drift_frameI) simp

lemma supersede_key:
  assumes "supersede s d = (resets, d2)" "k \<noteq> (ds_system_id s, ds_resource_id s)"
  shows "at_key k d2 = at_key k d" "\<forall>r \<in> set resets. (se_system_id r, se_user_id r) = (ds_system_id s, ds_resource_id s)"
proof -
  from assms(1) obtain p q where d2: "d2 = d\<lparr>sync_events := sql_delete q (sql_delete p (sync_events d))\<rparr>"
    and pq: "\<And>e. p e \<or> q e \<Longrightarrow> (se_system_id e, se_user_id e) = (ds_system_id s, ds_resource_id s)"
    by (auto simp: supersede_def Let_def unsent_def)
  have "filter (\<lambda>e. (se_system_id e, se_user_id e) = k) (sql_delete q (sql_delete p (sync_events d))) = filter (\<lambda>e. (se_system_id e, se_user_id e) = k) (sql_delete p (sync_events d))"
    by (rule filter_delete_other) (use pq assms(2) in auto)
  also have "\<dots> = filter (\<lambda>e. (se_system_id e, se_user_id e) = k) (sync_events d)" by (rule filter_delete_other) (use pq assms(2) in auto)
  finally show "at_key k d2 = at_key k d" by (simp add: at_key_def d2)
  from assms(1) show "\<forall>r \<in> set resets. (se_system_id r, se_user_id r) = (ds_system_id s, ds_resource_id s)"
    by (auto simp: supersede_def Let_def unsent_def)
qed

lemma upsert_state_key:
  assumes "upsert_state s d = Inr (rv, d')" "k \<noteq> (ds_system_id s, ds_resource_id s)"
  shows "at_key k d' = at_key k d"
  using assms by (auto simp: upsert_state_def Let_def at_key_def andthen_Inr_iff split: option.splits intro!: filter_others)

lemma insert_event_key:
  assumes "insert_event e d = Inr d'" "k \<noteq> (se_system_id e, se_user_id e)"
  shows "at_key k d' = at_key k d"
  using assms by (auto simp: at_key_def dest!: insert_event_InrD intro!: filter_insert_other)

lemma insertResourceEventTx_key:
  assumes "insertResourceEventTx sys res ty body rv now d = Inr d'" "k \<noteq> (sys, res)"
  shows "at_key k d' = at_key k d"
  using insert_event_key[OF assms(1)[unfolded insertResourceEventTx_def fresh_id_def Let_def prod.case]] assms(2) by (simp add: at_key_def)

lemma queueDesiredStateTx_key:
  assumes q: "queueDesiredStateTx s now d = Inr d'" and k: "k \<noteq> (ds_system_id s, ds_resource_id s)"
  shows "at_key k d' = at_key k d"
proof -
  obtain resets d2 where sup: "supersede s d = (resets, d2)" by fastforce
  note sk = supersede_key[OF sup k]
  from q sup consider
      (forget) "d' = d2\<lparr>sync_states := sql_delete (state_at (ds_system_id s) (ds_resource_id s)) (sync_states d2)\<rparr>"
    | (store) rv d3 ty d4 where "upsert_state s d2 = Inr (rv, d3)" "insertResourceEventTx (ds_system_id s) (ds_resource_id s) ty (ds_payload s) rv now d3 = Inr d4"
        "each (\<lambda>r. insert_event (requeue_reset (ds_payload s) rv now r)) resets d4 = Inr d'"
    by (auto simp: queueDesiredStateTx_def Let_def result_iffs split: if_splits)
  then show ?thesis
  proof cases
    case forget
    then have "at_key k d' = at_key k d2" using k by (auto simp: at_key_def intro!: filter_delete_other)
    with sk(1) show ?thesis by simp
  next
    case store
    have "at_key k d' = at_key k d4"
      by (rule each_keeps[OF store(3), where P = "\<lambda>e. at_key k e = at_key k d4"]) (use sk(2) k in \<open>auto dest!: insert_event_key[where k = k] simp: requeue_reset_def\<close>)
    also have "\<dots> = at_key k d3" by (rule insertResourceEventTx_key[OF store(2) k])
    also have "\<dots> = at_key k d2" by (rule upsert_state_key[OF store(1) k])
    finally show ?thesis using sk(1) by simp
  qed
qed

lemma queue_untouched: "queueDesiredStateTx s now d = Inr d' \<Longrightarrow> (ds_system_id s, ds_resource_id s) \<in> K \<Longrightarrow> untouched K d d'"
proof -
  assume q: "queueDesiredStateTx s now d = Inr d'" and k: "(ds_system_id s, ds_resource_id s) \<in> K"
  have "at_key k d' = at_key k d" if "k \<notin> K" for k using queueDesiredStateTx_key[OF q, of k] k that by auto
  with untouched_frame[OF queueDesiredStateTx_InrD(1)[OF q]] show ?thesis by (simp add: untouched_def)
qed

lemma update_states_untouched:
  assumes "\<And>st. st \<in> set (sync_states d) \<Longrightarrow> p st \<Longrightarrow> (ss_system_id st, ss_resource_id st) \<in> K" "\<And>st. ss_system_id (f st) = ss_system_id st \<and> ss_resource_id (f st) = ss_resource_id st"
  shows "untouched K d (d\<lparr>sync_states := sql_update p f (sync_states d)\<rparr>)"
  using assms by (auto simp: untouched_def at_key_def intro!: filter_update_other drift_frameI)

lemma link_untouched:
  assumes "link_resource en kind i r d = Inr (b, d')" "(en_system en, i) \<in> K"
  shows "untouched K d d'"
  using assms by (auto simp: link_resource_def Let_def andthen_Inr_iff untouched_def at_key_def split: if_splits option.splits intro!: filter_others drift_frameI)

lemma step_untouched:
  assumes "(en_system en, i) \<in> K"
  shows "untouched K d (observe en kind i st d)" "untouched K d (hold_resource en kind i d)" "untouched K d (dropDead en kind i d)"
proof -
  show "untouched K d (observe en kind i st d)" unfolding observe_def by (rule update_states_untouched) (use assms in auto)
  show "untouched K d (hold_resource en kind i d)" using assms
    by (auto simp: hold_resource_def Let_def untouched_def at_key_def new_state_def intro!: filter_others drift_frameI)
  show "untouched K d (dropDead en kind i d)" using assms
    by (auto simp: dropDead_def DeleteSCIMLink_def untouched_def at_key_def intro!: filter_others drift_frameI)
qed

lemma requeue_untouched: "requeue_user en u d = Inr d' \<Longrightarrow> (en_system en, usr_id u) \<in> K \<Longrightarrow> untouched K d d'"
  unfolding requeue_user_def by (auto simp: andthen_Inr_iff intro!: queue_untouched)

lemma remove_orphan_untouched: "remove_orphan en i lu d = Inr d' \<Longrightarrow> (en_system en, i) \<in> K \<Longrightarrow> untouched K d d'"
  unfolding remove_orphan_def by (auto simp: Let_def andthen_Inr_iff intro!: untouched_trans[OF step_untouched(2) queue_untouched])


text \<open>The resources the connector already has a relationship with; a comparison never leaves them.\<close>

definition drift_scope :: "drift_env \<Rightarrow> db \<Rightarrow> string set" where
  "drift_scope en d = {i. managed en UserResource i d \<or> managed en GroupResource i d}"

abbreviation scope_keys :: "drift_env \<Rightarrow> db \<Rightarrow> (string \<times> string) set" where
  "scope_keys en d \<equiv> {en_system en} \<times> drift_scope en d"

lemma managedI: "known_resource (en_system en) kind i d \<Longrightarrow> i \<in> drift_scope en d"
  by (cases kind) (auto simp: drift_scope_def managed_def)

lemma scope_stable:
  assumes u: "untouched (scope_keys en d) d d1" and m: "managed en kind i d1"
  shows "i \<in> drift_scope en d"
proof (rule ccontr)
  assume n: "i \<notin> drift_scope en d"
  then have k: "at_key (en_system en, i) d1 = at_key (en_system en, i) d" using u by (simp add: untouched_def)
  from n have "\<not> managed en kind i d" by (cases kind) (auto simp: drift_scope_def)
  with m have kr: "known_resource (en_system en) kind i d1" by (auto simp: managed_def)
  from k have s: "filter (\<lambda>st. (ss_system_id st, ss_resource_id st) = (en_system en, i)) (sync_states d1) = filter (\<lambda>st. (ss_system_id st, ss_resource_id st) = (en_system en, i)) (sync_states d)"
    and l: "filter (\<lambda>l. (lk_system_id l, lk_local_id l) = (en_system en, i)) (scim_links d1) = filter (\<lambda>l. (lk_system_id l, lk_local_id l) = (en_system en, i)) (scim_links d)"
    by (simp_all add: at_key_def)
  have "st \<in> set (sync_states d)" if "st \<in> set (sync_states d1)" "state_at (en_system en) i st" for st using that arg_cong[OF s, of set] by auto
  moreover have "x \<in> set (scim_links d)" if "x \<in> set (scim_links d1)" "link_at (en_system en) i x" for x using that arg_cong[OF l, of set] by auto
  ultimately have "known_resource (en_system en) kind i d" using kr unfolding known_resource_def by blast
  with managedI n show False by blast
qed

lemma known_in_scope: "untouched (scope_keys en d) d d1 \<Longrightarrow> known_resource (en_system en) kind i d1 \<Longrightarrow> i \<in> drift_scope en d"
  by (rule scope_stable[where kind = kind]) (auto simp: managed_def)

lemma desired_in_scope: "u \<in> set (en_desired en) \<Longrightarrow> usr_id u \<in> drift_scope en d"
  by (auto simp: drift_scope_def managed_def desired_entry_def find_None_iff2)

lemma group_in_scope: "g \<in> set (en_groups en) \<Longrightarrow> dgr_group_id g \<in> drift_scope en d"
  by (auto simp: drift_scope_def managed_def wanted_group_def)

lemma compare_account_untouched:
  assumes "compare_account en r rep d = Inr (rep', d')" "(en_system en, ra_external_id r) \<in> K"
  shows "untouched K d d'"
proof -
  have "u = usr_id x" if "desired_entry en u = Some x" for u x using that by (auto simp: desired_entry_def dest: find_SomeD)
  with assms show ?thesis
    by (auto simp: compare_account_def Let_def andthen_Inr_iff split: option.splits if_splits dest!: requeue_untouched[where K = K] remove_orphan_untouched[where K = K])
qed

lemma compare_listed_untouched:
  assumes "compare_listed en r (seen, rep, d1) = Inr (seen', rep', d2)" and u: "untouched (scope_keys en d) d d1"
  shows "untouched (scope_keys en d) d d2"
proof (cases "ra_external_id r = '''' \<or> \<not> managed en UserResource (ra_external_id r) d1")
  case True
  with assms show ?thesis by (auto simp: compare_listed_def Let_def)
next
  case False
  let ?i = "ra_external_id r"
  have k: "(en_system en, ?i) \<in> scope_keys en d" using scope_stable[OF u] False by auto
  from assms(1) False obtain linked e rep2 f where l: "(if en_repair en then link_resource en UserResource ?i (ra_id r) d1 else Inr (True, d1)) = Inr (linked, e)"
    and c: "(if linked then compare_account en r rep e else Inr (rep\<lparr>rp_mapping_conflicts := rp_mapping_conflicts rep + 1\<rparr>, e)) = Inr (rep2, f)"
    and d2: "d2 = observe en UserResource ?i (if ra_active r then ''present_active'' else ''present_inactive'') f"
    by (auto simp: compare_listed_def Let_def andthen_Inr_iff)
  have "untouched (scope_keys en d) d1 e" using l k by (auto split: if_splits intro: link_untouched)
  moreover have "untouched (scope_keys en d) e f" using c k by (auto split: if_splits intro: compare_account_untouched)
  ultimately have "untouched (scope_keys en d) d f" using untouched_trans[OF untouched_trans[OF u]] by simp
  with step_untouched(1)[OF k] show ?thesis unfolding d2 by (rule untouched_trans[rotated])
qed

lemma report_missing_untouched:
  assumes "report_missing en u (rep, d1) = Inr (rep', d2)" "u \<in> set (en_desired en)" and un: "untouched (scope_keys en d) d d1"
  shows "untouched (scope_keys en d) d d2"
proof -
  have k: "(en_system en, usr_id u) \<in> scope_keys en d" using desired_in_scope[OF assms(2)] by simp
  let ?e = "dropDead en UserResource (usr_id u) d1"
  let ?f = "?e\<lparr>sync_states := sql_update (\<lambda>x. state_at (en_system en) (usr_id u) x \<and> ss_kind x = UserResource) (\<lambda>x. x\<lparr>ss_provisioned := False\<rparr>) (sync_states ?e)\<rparr>"
  have "untouched (scope_keys en d) ?e ?f" by (rule update_states_untouched) (use k in auto)
  then have f: "untouched (scope_keys en d) d1 ?f" using step_untouched(3)[OF k] untouched_trans by blast
  from assms(1) have "(if en_repair en then requeue_user en u ?f else Inr d1) = Inr d2" by (auto simp: report_missing_def Let_def andthen_Inr_iff)
  then have "untouched (scope_keys en d) d1 d2" using untouched_trans[OF f requeue_untouched[OF _ k]] by (auto split: if_splits)
  with un show ?thesis by (rule untouched_trans)
qed

lemma mark_absent_untouched:
  assumes un: "untouched (scope_keys en d) d d1"
  shows "untouched (scope_keys en d) d (mark_absent en d1)"
proof -
  have "untouched (scope_keys en d) d1 (mark_absent en d1)"
    unfolding mark_absent_def by (rule update_states_untouched) (use known_in_scope[OF un, of UserResource] in \<open>auto simp: known_resource_def\<close>)
  with un show ?thesis by (rule untouched_trans)
qed

lemma requeue_group_untouched:
  assumes "requeue_group sha en g (rep, d1) = Inr (rep', d2)" "g \<in> set (en_groups en)" and un: "untouched (scope_keys en d) d d1"
  shows "untouched (scope_keys en d) d d2"
proof -
  have k: "(en_system en, dgr_group_id g) \<in> scope_keys en d" using group_in_scope[OF assms(2)] by simp
  from assms(1) have "d2 = d1 \<or> (\<exists>h. queueDesiredStateTx (desired_group (en_system en) (dgr_group_id g) True h True) (en_now en) (dropDead en GroupResource (dgr_group_id g) d1) = Inr d2)"
    by (auto simp: requeue_group_def Let_def andthen_Inr_iff split: if_splits)
  then have "untouched (scope_keys en d) d1 d2" using untouched_trans[OF step_untouched(3)[OF k] queue_untouched] k by auto
  with un show ?thesis by (rule untouched_trans)
qed

lemma orphan_group_untouched:
  assumes "orphan_group en r (rep, d1) = Inr (rep', d2)" and un: "untouched (scope_keys en d) d d1"
  shows "untouched (scope_keys en d) d d2"
proof (cases "managed en GroupResource (rgp_external_id r) d1")
  case True
  have k: "(en_system en, rgp_external_id r) \<in> scope_keys en d" using scope_stable[OF un True] by simp
  from assms(1) consider "d2 = d1" | linked e where "link_resource en GroupResource (rgp_external_id r) (rgp_id r) d1 = Inr (linked, e)"
      "d2 = e \<or> queueDesiredStateTx (desired_group (en_system en) (rgp_external_id r) False '''' False) (en_now en) (hold_resource en GroupResource (rgp_external_id r) e) = Inr d2"
    by (auto simp: orphan_group_def Let_def andthen_Inr_iff split: if_splits)
  then have "untouched (scope_keys en d) d1 d2"
  proof cases
    case 2
    have "untouched (scope_keys en d) e d2" using 2(2) untouched_trans[OF step_untouched(2)[OF k] queue_untouched] k by auto
    with link_untouched[OF 2(1) k] show ?thesis by (rule untouched_trans)
  qed simp
  with un show ?thesis by (rule untouched_trans)
next
  case False
  with assms show ?thesis by (auto simp: orphan_group_def Let_def split: if_splits)
qed


text \<open>A comparison step by step: whatever each step keeps, the whole keeps.\<close>

lemma drift_keeps:
  assumes r: "ReconcileDrift sha order sys l repair now d = Inr (rep, d')" and sup: "rl_supported l" and ord: "\<And>xs. set (order xs) = set xs"
    and en: "en = drift_env_of sys l repair now d" and P0: "P d"
    and listed: "\<And>x seen rep e seen' rep' e'. compare_listed en x (seen, rep, e) = Inr (seen', rep', e') \<Longrightarrow> P e \<Longrightarrow> P e'"
    and missing: "\<And>u rep e rep' e'. rl_complete l \<Longrightarrow> u \<in> set (en_desired en) \<Longrightarrow> report_missing en u (rep, e) = Inr (rep', e') \<Longrightarrow> P e \<Longrightarrow> P e'"
    and absent: "\<And>e. rl_complete l \<Longrightarrow> P e \<Longrightarrow> P (mark_absent en e)"
    and requeued: "\<And>g rep e rep' e'. rl_complete l \<Longrightarrow> g \<in> set (en_groups en) \<Longrightarrow> requeue_group sha en g (rep, e) = Inr (rep', e') \<Longrightarrow> P e \<Longrightarrow> P e'"
    and orphaned: "\<And>x rep e rep' e'. rl_complete l \<Longrightarrow> orphan_group en x (rep, e) = Inr (rep', e') \<Longrightarrow> P e \<Longrightarrow> P e'"
  shows "P d'"
proof -
  from r sup obtain seen rep1 d1 rep3 d3 rep4 where
      a: "each (compare_listed en) (rl_users l) ([], (empty_report l)\<lparr>rp_listed_users := length (rl_users l)\<rparr>, d) = Inr (seen, rep1, d1)"
    and b: "(if rl_complete l then andthen (each (report_missing en) (filter (\<lambda>u. usr_id u \<notin> set seen) (order (en_desired en))) (rep1, d1)) (\<lambda>(rep2, d2). Inr (rep2, mark_absent en d2))
      else Inr (rep1, d1)) = Inr (rep3, d3)"
    and c: "(if rl_groups_listed l \<and> rl_complete l then andthen (each (requeue_group sha en) (en_groups en) (rep3, d3)) (each (orphan_group en) (rl_groups l)) else Inr (rep3, d3)) = Inr (rep4, d')"
    unfolding ReconcileDrift_def Let_def en by (auto simp: andthen_Inr_iff)
  have "(\<lambda>(s, rp, e). P e) (seen, rep1, d1)"
    by (rule each_keeps[OF a, where P = "\<lambda>(s, rp, e). P e"]) (use P0 listed in \<open>simp, fastforce\<close>)
  then have P1: "P d1" by simp
  have P3: "P d3"
  proof (cases "rl_complete l")
    case True
    with b obtain rep2 d2 where m: "each (report_missing en) (filter (\<lambda>u. usr_id u \<notin> set seen) (order (en_desired en))) (rep1, d1) = Inr (rep2, d2)" and d3: "d3 = mark_absent en d2"
      by (auto simp: andthen_Inr_iff)
    have "(\<lambda>(rp, e). P e) (rep2, d2)"
      by (rule each_keeps[OF m, where P = "\<lambda>(rp, e). P e"]) (use P1 missing[OF True] ord in \<open>simp, fastforce\<close>)
    then show ?thesis unfolding d3 using absent[OF True] by simp
  next
    case False
    with b P1 show ?thesis by simp
  qed
  show ?thesis
  proof (cases "rl_groups_listed l \<and> rl_complete l")
    case True
    with c obtain rep5 d5 where g: "each (requeue_group sha en) (en_groups en) (rep3, d3) = Inr (rep5, d5)" and o: "each (orphan_group en) (rl_groups l) (rep5, d5) = Inr (rep4, d')"
      by (auto simp: andthen_Inr_iff)
    have "(\<lambda>(rp, e). P e) (rep5, d5)" by (rule each_keeps[OF g, where P = "\<lambda>(rp, e). P e"]) (use P3 requeued True in \<open>simp, fastforce\<close>)
    then have "P d5" by simp
    then have "(\<lambda>(rp, e). P e) (rep4, d')" by (intro each_keeps[OF o, where P = "\<lambda>(rp, e). P e"]) (use orphaned True in \<open>simp, fastforce\<close>)
    then show ?thesis by simp
  next
    case False
    with c P3 show ?thesis by simp
  qed
qed

lemma drift_unsupported:
  assumes "ReconcileDrift sha order sys l repair now d = Inr (rep, d')" "\<not> rl_supported l"
  shows "rep = empty_report l" "d' = d\<lparr>sync_states := sql_update (\<lambda>x. ss_system_id x = sys) (\<lambda>x. x\<lparr>ss_observed := ''unsupported'', ss_observed_at := Some now\<rparr>) (sync_states d)\<rparr>"
  using assms by (auto simp: ReconcileDrift_def andthen_Inr_iff)

text \<open>
  C37. A listing cannot pull strangers in. Whatever a remote directory lists, a comparison and its repair write only to
  that connector's records of resources it already had a relationship with (effective access, an assigned group, a
  recorded state or a mapping): every other resource's state, outbox and mapping is as before, at this connector and at
  every other, and so is the rest of the database.
\<close>

theorem drift_stays_in_scope:
  assumes r: "ReconcileDrift sha order sys l repair now d = Inr (rep, d')" and ord: "\<And>xs. set (order xs) = set xs"
    and k: "fst k \<noteq> sys \<or> snd k \<notin> drift_scope (drift_env_of sys l repair now d) d"
  shows "at_key k d' = at_key k d \<and> drift_frame d d'"
proof -
  let ?en = "drift_env_of sys l repair now d"
  have sys: "en_system ?en = sys" by (simp add: drift_env_of_def)
  have "untouched (scope_keys ?en d) d d'"
  proof (cases "rl_supported l")
    case True
    show ?thesis
      by (rule drift_keeps[OF r True ord refl, where P = "untouched (scope_keys ?en d) d"])
         (auto dest: compare_listed_untouched report_missing_untouched requeue_group_untouched orphan_group_untouched intro: mark_absent_untouched)
  next
    case False
    show ?thesis unfolding drift_unsupported(2)[OF r False]
    proof (rule update_states_untouched)
      fix st assume "st \<in> set (sync_states d)" "ss_system_id st = sys"
      then show "(ss_system_id st, ss_resource_id st) \<in> scope_keys ?en d" using managedI[of ?en "ss_kind st" "ss_resource_id st" d] sys by (auto simp: known_resource_def)
    qed simp
  qed
  moreover have "k \<notin> scope_keys ?en d" using k sys by (cases k) auto
  ultimately show ?thesis unfolding untouched_def by blast
qed


text \<open>A state apart from what a listing said of it.\<close>

definition unobserved :: "sync_state \<Rightarrow> sync_state" where
  "unobserved st = st\<lparr>ss_observed := '''', ss_observed_at := None\<rparr>"

definition only_observed :: "db \<Rightarrow> db \<Rightarrow> bool" where
  "only_observed d d' \<longleftrightarrow> d' = d\<lparr>sync_states := sync_states d'\<rparr> \<and> map unobserved (sync_states d') = map unobserved (sync_states d)"

lemma only_observed_refl: "only_observed d d"
  by (simp add: only_observed_def)

lemma observations_only:
  "only_observed d d1 \<Longrightarrow> only_observed d (d1\<lparr>sync_states := sql_update p (\<lambda>x. x\<lparr>ss_observed := s, ss_observed_at := t\<rparr>) (sync_states d1)\<rparr>)"
proof -
  assume o: "only_observed d d1"
  then have "d1\<lparr>sync_states := v\<rparr> = d\<lparr>sync_states := v\<rparr>" for v unfolding only_observed_def by (metis db.surjective db.update_convs(33))
  with o show ?thesis by (simp add: only_observed_def map_sql_update unobserved_def)
qed

text \<open>
  A preview only looks: without repair a comparison leaves every table as it was but for what it noted to have seen
  of the connector's resources, and it says in its report that it repaired nothing.
\<close>

theorem preview_only_observes:
  assumes r: "ReconcileDrift sha order sys l False now d = Inr (rep, d')" and ord: "\<And>xs. set (order xs) = set xs"
  shows "only_observed d d' \<and> \<not> rp_repaired rep"
proof -
  let ?en = "drift_env_of sys l False now d"
  have nr: "\<not> en_repair ?en" by (simp add: drift_env_of_def)
  have "\<not> rp_repaired rep" using r by (auto simp: ReconcileDrift_def Let_def andthen_Inr_iff empty_report_def split: if_splits)
  moreover have "only_observed d d'"
  proof (cases "rl_supported l")
    case True
    have listed: "only_observed d e'" if "compare_listed ?en x (seen, rep, e) = Inr (seen', rep', e')" "only_observed d e" for x seen rep e seen' rep' e'
    proof -
      from that(1) nr have "e' = e \<or> (\<exists>s. e' = observe ?en UserResource (ra_external_id x) s e)"
        by (auto simp: compare_listed_def compare_account_def Let_def andthen_Inr_iff split: if_splits option.splits)
      with that(2) observations_only show ?thesis by (auto simp: observe_def)
    qed
    show ?thesis
      by (rule drift_keeps[OF r True ord refl, where P = "only_observed d"])
         (use nr in \<open>auto simp: only_observed_refl mark_absent_def report_missing_def requeue_group_def orphan_group_def Let_def andthen_Inr_iff
           intro: listed observations_only split: if_splits\<close>)
  next
    case False
    show ?thesis unfolding drift_unsupported(2)[OF r False] by (rule observations_only[OF only_observed_refl])
  qed
  ultimately show ?thesis by blast
qed

definition active_kept :: "db \<Rightarrow> db \<Rightarrow> bool" where
  "active_kept d d' \<longleftrightarrow> (\<forall>s i st. state_of d s i = Some st \<longrightarrow> ss_active st \<longrightarrow> (\<exists>st'. state_of d' s i = Some st' \<and> ss_active st'))"

definition links_kept :: "db \<Rightarrow> db \<Rightarrow> bool" where
  "links_kept d d' \<longleftrightarrow> (\<forall>l \<in> set (scim_links d). lk_remote_id l \<noteq> '''' \<longrightarrow> l \<in> set (scim_links d'))"


definition keyed_links :: "db \<Rightarrow> bool" where
  "keyed_links d \<longleftrightarrow> distinct (map (\<lambda>l. (lk_system_id l, lk_local_id l)) (scim_links d))"

lemma active_kept_trans: "active_kept a b \<Longrightarrow> active_kept b c \<Longrightarrow> active_kept a c"
  unfolding active_kept_def by meson

lemma active_kept_states: "sync_states d' = sync_states d \<Longrightarrow> active_kept d d'"
  by (simp add: active_kept_def state_of_def)

lemma find_update_map: "(\<And>r. q (f r) = q r) \<Longrightarrow> List.find q (sql_update p f t) = map_option (\<lambda>x. if p x then f x else x) (List.find q t)"
  by (induction t) auto

lemma observe_active: "active_kept d (observe en kind i s d)"
proof -
  have "state_of (observe en kind i s d) a b = map_option (\<lambda>x. if state_at (en_system en) i x \<and> ss_kind x = kind then x\<lparr>ss_observed := s, ss_observed_at := Some (en_now en)\<rparr> else x) (state_of d a b)" for a b
    unfolding state_of_def observe_def by (simp add: find_update_map)
  then show ?thesis by (auto simp: active_kept_def)
qed

lemma requeue_active: "requeue_user en u d = Inr d' \<Longrightarrow> active_kept d d'"
proof -
  assume "requeue_user en u d = Inr d'"
  then obtain body where q: "queueDesiredStateTx ((desired_user (en_system en) (usr_id u) True body)\<lparr>ds_force := True\<rparr>) (en_now en) d = Inr d'"
    by (auto simp: requeue_user_def andthen_Inr_iff)
  show ?thesis unfolding active_kept_def
  proof (intro allI impI)
    fix s i st
    assume st: "state_of d s i = Some st" "ss_active st"
    show "\<exists>st'. state_of d' s i = Some st' \<and> ss_active st'"
    proof (cases "(s, i) = (en_system en, usr_id u)")
      case True
      with queueDesiredStateTx_InrD(3)[OF q] show ?thesis by (auto simp: queued_row_def)
    next
      case False
      with queueDesiredStateTx_InrD(2)[OF q, of s i] st show ?thesis by auto
    qed
  qed
qed

lemma requeue_links:
  assumes "requeue_user en u d = Inr d'"
  shows "scim_links d' = scim_links d"
proof -
  from assms obtain ds where "queueDesiredStateTx ds (en_now en) d = Inr d'" by (auto simp: requeue_user_def andthen_Inr_iff)
  from queueDesiredStateTx_InrD(1)[OF this] show ?thesis by (auto simp: sync_frame_def)
qed

lemma link_partial:
  assumes "link_resource en kind i r d = Inr (b, d')" "\<not> rl_complete (en_listing en)" "keyed_links d"
  shows "links_kept d d' \<and> keyed_links d' \<and> sync_states d' = sync_states d"
proof -
  let ?k = "\<lambda>l. (lk_system_id l, lk_local_id l)"
  have nd: "\<not> dead en kind x" for x using assms(2) by (simp add: dead_def)
  define s where "s = stored_link en kind i d"
  note lr = assms(1)[unfolded link_resource_def Let_def, folded s_def]
  consider (same) "d' = d"
    | (new) "sql_first (link_at (en_system en) i) (scim_links d) = None" "d' = d\<lparr>scim_links := sql_insert \<lparr>lk_system_id = en_system en, lk_local_id = i, lk_kind = kind, lk_remote_id = r\<rparr> (scim_links d)\<rparr>"
    | (old) l where "sql_first (link_at (en_system en) i) (scim_links d) = Some l" "lk_kind l = kind" "lk_remote_id l = '''' \<or> lk_remote_id l = s"
        "s = '''' \<or> s = r" "d' = d\<lparr>scim_links := sql_update (link_at (en_system en) i) (\<lambda>l. l\<lparr>lk_remote_id := r\<rparr>) (scim_links d)\<rparr>"
  proof (cases "(s \<noteq> '''' \<and> s \<noteq> r) \<or> remote_taken (en_system en) i kind r d")
    case True
    with lr nd have "d' = d" by (auto simp: andthen_Inr_iff split: if_splits)
    then show ?thesis by (rule that(1))
  next
    case False
    then have go: "(s \<noteq> '''' \<and> s \<noteq> r \<and> \<not> dead en kind s) = False" "remote_taken (en_system en) i kind r d = False" and sr: "s = '''' \<or> s = r" by auto
    note lr' = lr[unfolded go if_False]
    show ?thesis
    proof (cases "sql_first (link_at (en_system en) i) (scim_links d)")
      case None
      with lr' have "d' = d\<lparr>scim_links := sql_insert \<lparr>lk_system_id = en_system en, lk_local_id = i, lk_kind = kind, lk_remote_id = r\<rparr> (scim_links d)\<rparr>"
        by (simp add: andthen_Inr_iff)
      with None show ?thesis by (rule that(2))
    next
      case (Some l)
      show ?thesis
      proof (cases "lk_kind l = kind \<and> (lk_remote_id l = '''' \<or> lk_remote_id l = s)")
        case True
        with lr' Some have "d' = d\<lparr>scim_links := sql_update (link_at (en_system en) i) (\<lambda>l. l\<lparr>lk_remote_id := r\<rparr>) (scim_links d)\<rparr>"
          by (simp add: andthen_Inr_iff)
        then show ?thesis by (rule that(3)[OF Some conjunct1[OF True] conjunct2[OF True] sr])
      next
        case no: False
        with lr' Some have "d' = d" by (simp add: andthen_Inr_iff)
        then show ?thesis by (rule that(1))
      qed
    qed
  qed
  then show ?thesis
  proof cases
    case same
    with assms(3) show ?thesis by (simp add: links_kept_def)
  next
    case new
    with assms(3) show ?thesis by (auto simp: links_kept_def keyed_links_def sql_insert_def find_None_iff2)
  next
    case old
    from find_SomeD[OF old(1)] have l: "l \<in> set (scim_links d)" "link_at (en_system en) i l" by auto
    have uniq: "x = l" if "x \<in> set (scim_links d)" "link_at (en_system en) i x" for x using key_unique[of ?k "scim_links d" x l] assms(3) that l by (simp add: keyed_links_def)
    have "x \<in> set (scim_links d')" if x: "x \<in> set (scim_links d)" "lk_remote_id x \<noteq> ''''" for x
    proof (cases "link_at (en_system en) i x")
      case True
      with uniq x have "x = l" by blast
      with x(2) old(3,4) have "lk_remote_id x = r" by auto
      then have "x = x\<lparr>lk_remote_id := r\<rparr>" by simp
      with x(1) True show ?thesis unfolding old(5) by (auto simp: set_sql_update_parts)
    next
      case False
      with x(1) show ?thesis unfolding old(5) by (simp add: set_sql_update_parts)
    qed
    moreover have "keyed_links d'" using assms(3) by (simp add: keyed_links_def old(5) map_sql_update)
    ultimately show ?thesis by (simp add: links_kept_def old(5))
  qed
qed

text \<open>
  C38. A partial listing takes nothing away: unless the far side was listed completely, a repair drops no mapping, every
  resource recorded as wanted at a connector is still so afterwards, and the report does not claim a repair.
\<close>

theorem partial_listing_removes_nothing:
  assumes r: "ReconcileDrift sha order sys l repair now d = Inr (rep, d')" and ord: "\<And>xs. set (order xs) = set xs" and part: "\<not> rl_complete l" and keys: "keyed_links d"
  shows "active_kept d d' \<and> links_kept d d' \<and> \<not> rp_repaired rep"
proof -
  let ?en = "drift_env_of sys l repair now d"
  let ?P = "\<lambda>e. active_kept d e \<and> links_kept d e \<and> keyed_links e"
  have inc: "\<not> rl_complete (en_listing ?en)" using part by (simp add: drift_env_of_def)
  have nr: "\<not> rp_repaired rep" using r part by (auto simp: ReconcileDrift_def Let_def andthen_Inr_iff empty_report_def split: if_splits)
  have P0: "?P d" using keys by (simp add: active_kept_states links_kept_def)
  have links: "links_kept a c" if "links_kept a b" "links_kept b c" for a b c using that by (auto simp: links_kept_def)
  have listed: "?P e'" if c: "compare_listed ?en x (seen, rp, e) = Inr (seen', rp', e')" and P: "?P e" for x seen rp e seen' rp' e'
  proof (cases "ra_external_id x = '''' \<or> \<not> managed ?en UserResource (ra_external_id x) e")
    case True
    with c P show ?thesis by (auto simp: compare_listed_def Let_def)
  next
    case False
    let ?i = "ra_external_id x"
    from c False obtain linked f rp2 g where lk: "(if en_repair ?en then link_resource ?en UserResource ?i (ra_id x) e else Inr (True, e)) = Inr (linked, f)"
      and ca: "(if linked then compare_account ?en x rp f else Inr (rp\<lparr>rp_mapping_conflicts := rp_mapping_conflicts rp + 1\<rparr>, f)) = Inr (rp2, g)"
      and e': "e' = observe ?en UserResource ?i (if ra_active x then ''present_active'' else ''present_inactive'') g"
      by (auto simp: compare_listed_def Let_def andthen_Inr_iff)
    have f: "links_kept e f" "keyed_links f" "sync_states f = sync_states e" using lk link_partial[OF _ inc] P by (auto simp: links_kept_def split: if_splits)
    from ca inc have "g = f \<or> (\<exists>u. requeue_user ?en u f = Inr g)" by (auto simp: compare_account_def Let_def andthen_Inr_iff split: if_splits option.splits)
    then have g: "active_kept f g \<and> scim_links g = scim_links f"
    proof (elim disjE exE)
      assume "g = f"
      then show ?thesis by (simp add: active_kept_states)
    next
      fix u
      assume u: "requeue_user ?en u f = Inr g"
      show ?thesis using requeue_active[OF u] requeue_links[OF u] by (rule conjI)
    qed
    have "active_kept d f" using active_kept_trans[OF _ active_kept_states[OF f(3)]] P by simp
    then have "active_kept d g" using g active_kept_trans[of d f g] by simp
    then have "active_kept d e'" unfolding e' by (rule active_kept_trans[OF _ observe_active])
    moreover have "scim_links e' = scim_links f" using g by (simp add: e' observe_def)
    ultimately show ?thesis using P f(1,2) links[of d e f] by (simp add: links_kept_def keyed_links_def)
  qed
  have "active_kept d d' \<and> links_kept d d'"
  proof (cases "rl_supported l")
    case True
    have "?P d'" by (rule drift_keeps[OF r True ord refl, where P = ?P]) (use P0 listed part in \<open>blast+\<close>)
    then show ?thesis by blast
  next
    case False
    have "state_of d' a b = map_option (\<lambda>x. if ss_system_id x = sys then x\<lparr>ss_observed := ''unsupported'', ss_observed_at := Some now\<rparr> else x) (state_of d a b)" for a b
      unfolding drift_unsupported(2)[OF r False] state_of_def by (simp add: find_update_map)
    then show ?thesis by (auto simp: active_kept_def links_kept_def drift_unsupported(2)[OF r False])
  qed
  with nr show ?thesis by blast
qed

section \<open>Witnesses\<close>

definition sample_listing :: remote_listing where
  "sample_listing = \<lparr>rl_supported = True, rl_complete = True,
     rl_users = [\<lparr>ra_id = ''r9'', ra_external_id = ''zz'', ra_user_name = ''stranger'', ra_display_name = ''S'', ra_email = '''', ra_active = True\<rparr>,
       \<lparr>ra_id = ''r1'', ra_external_id = ''u1'', ra_user_name = ''old'', ra_display_name = ''Ann'', ra_email = '''', ra_active = True\<rparr>],
     rl_groups = [], rl_groups_listed = False\<rparr>"

theorem drift_stays_in_scope_witness:
  "\<exists>rep d'. ReconcileDrift id id ''y1'' sample_listing True sample_now connector_db = Inr (rep, d') \<and> at_key (''y1'', ''zz'') d' = at_key (''y1'', ''zz'') connector_db \<and>
     drift_frame connector_db d' \<and> rp_unrelated rep = 1 \<and> rp_stale_count rep = 1"
proof -
  let ?r = "ReconcileDrift id id ''y1'' sample_listing True sample_now connector_db"
  have "\<not> isl ?r" by code_simp
  then obtain rep d' where r: "?r = Inr (rep, d')" using succeeds_pair by blast
  have "rp_unrelated (fst (projr ?r)) = 1" "rp_stale_count (fst (projr ?r)) = 1" by code_simp+
  moreover have "''zz'' \<notin> drift_scope (drift_env_of ''y1'' sample_listing True sample_now connector_db) connector_db" unfolding drift_scope_def mem_Collect_eq by code_simp
  ultimately show ?thesis using drift_stays_in_scope[OF r, of "(''y1'', ''zz'')"] r by simp
qed

theorem preview_only_observes_witness:
  "\<exists>rep d'. ReconcileDrift id id ''y1'' sample_listing False sample_now connector_db = Inr (rep, d') \<and> only_observed connector_db d' \<and> \<not> rp_repaired rep \<and> rp_stale_count rep = 1"
proof -
  let ?r = "ReconcileDrift id id ''y1'' sample_listing False sample_now connector_db"
  have "\<not> isl ?r" by code_simp
  then obtain rep d' where r: "?r = Inr (rep, d')" using succeeds_pair by blast
  have "rp_stale_count (fst (projr ?r)) = 1" by code_simp
  with preview_only_observes[OF r] r show ?thesis by simp
qed

theorem partial_listing_removes_nothing_witness:
  "\<exists>rep d'. ReconcileDrift id id ''y1'' (sample_listing\<lparr>rl_complete := False\<rparr>) True sample_now connector_db = Inr (rep, d') \<and> active_kept connector_db d' \<and> links_kept connector_db d' \<and> \<not> rp_repaired rep"
proof -
  let ?r = "ReconcileDrift id id ''y1'' (sample_listing\<lparr>rl_complete := False\<rparr>) True sample_now connector_db"
  have "\<not> isl ?r" by code_simp
  then obtain rep d' where r: "?r = Inr (rep, d')" using succeeds_pair by blast
  have "keyed_links connector_db" by code_simp
  with partial_listing_removes_nothing[OF r] r show ?thesis by (simp add: sample_listing_def)
qed

end
