(* ===== verification/Ky_Jobs.thy ===== *)
theory Ky_Jobs
  imports Ky_Reconcile
begin

text \<open>
  The queue of reconciliation jobs as a whole: what every operation on it keeps, and that it drains even when every
  worker dies while it holds a job.
\<close>

section \<open>What the queue keeps\<close>

text \<open>One job's bookkeeping: a waiting job was never attempted, a running one was and holds a lease.\<close>

definition job_sound :: "reconcile_job \<Rightarrow> bool" where
  "job_sound j \<longleftrightarrow> rj_attempts j \<le> reconcileAttempts \<and> (rj_status j = JobQueued \<longrightarrow> rj_attempts j = 0) \<and>
     (rj_status j = JobRunning \<longrightarrow> rj_attempts j > 0 \<and> rj_lease_until j \<noteq> None)"

definition open_systems :: "reconcile_job list \<Rightarrow> string list" where
  "open_systems js = map rj_system_id (filter open_job js)"

definition job_queue_sound :: "db \<Rightarrow> bool" where
  "job_queue_sound d \<longleftrightarrow> distinct (map rj_id (reconcile_jobs d)) \<and> distinct (open_systems (reconcile_jobs d)) \<and> (\<forall>j \<in> set (reconcile_jobs d). job_sound j)"

lemma open_systems_update:
  assumes "\<And>j. j \<in> set js \<Longrightarrow> p j \<Longrightarrow> rj_system_id (f j) = rj_system_id j \<and> (open_job (f j) \<longrightarrow> open_job j)" "distinct (open_systems js)"
  shows "distinct (open_systems (sql_update p f js)) \<and> set (open_systems (sql_update p f js)) \<subseteq> set (open_systems js)"
  using assms
proof (induction js)
  case (Cons a js)
  have step: "open_systems (b # t) = (if open_job b then rj_system_id b # open_systems t else open_systems t)" for b t by (simp add: open_systems_def)
  have "distinct (open_systems (sql_update p f js)) \<and> set (open_systems (sql_update p f js)) \<subseteq> set (open_systems js)"
    by (rule Cons.IH) (use Cons.prems step in \<open>auto split: if_splits\<close>)
  with Cons.prems(1)[of a] Cons.prems(2) show ?case by (auto simp: step)
qed (simp add: open_systems_def)

lemma sound_update:
  assumes "job_queue_sound d" and u: "\<And>j. j \<in> set (reconcile_jobs d) \<Longrightarrow> p j \<Longrightarrow> rj_id (f j) = rj_id j \<and> rj_system_id (f j) = rj_system_id j \<and> (open_job (f j) \<longrightarrow> open_job j) \<and> job_sound (f j)"
    and d': "reconcile_jobs d' = sql_update p f (reconcile_jobs d)"
  shows "job_queue_sound d'"
proof -
  have "distinct (open_systems (reconcile_jobs d'))" unfolding d'
    by (rule conjunct1[OF open_systems_update]) (use u assms(1) in \<open>auto simp: job_queue_sound_def\<close>)
  moreover have "map rj_id (reconcile_jobs d') = map rj_id (reconcile_jobs d)" unfolding d' by (rule map_sql_update) (use u in auto)
  ultimately show ?thesis using assms(1) u by (auto simp: job_queue_sound_def d' sql_simps)
qed

lemma open_systems_delete: "(\<And>j. j \<in> set js \<Longrightarrow> p j \<Longrightarrow> \<not> open_job j) \<Longrightarrow> open_systems (sql_delete p js) = open_systems js"
  by (simp add: open_systems_def filter_delete_other)

lemma CreateReconcileJob_InrE:
  assumes "CreateReconcileJob sys kind rb audit now d = Inr (job, d')"
  obtains p where "system_enabled sys d" "sys \<notin> set (open_systems (reconcile_jobs d))" "rj_id job \<notin> rj_id ` set (reconcile_jobs d)"
    "rj_system_id job = sys" "rj_status job = JobQueued" "rj_attempts job = 0" "rj_created_at job = now"
    "reconcile_jobs d' = sql_delete p (sql_insert job (reconcile_jobs d))" "\<And>j. p j \<Longrightarrow> \<not> open_job j"
proof -
  define i d0 where "i = fst (fresh_id d)" and "d0 = snd (fresh_id d)"
  define new where "new k = \<lparr>rj_id = i, rj_system_id = sys, rj_kind = k, rj_status = JobQueued, rj_requested_by = rb, rj_claim_token = '''', rj_attempts = 0,
    rj_created_at = now, rj_lease_until = None, rj_started_at = None, rj_finished_at = None, rj_result = None, rj_error = ''''\<rparr>" for k
  define old where "old k j \<longleftrightarrow> rj_system_id j = sys \<and> \<not> open_job j \<and> rj_id j \<notin> set (map rj_id (recent_jobs sys 20 (d0\<lparr>reconcile_jobs := sql_insert (new k) (reconcile_jobs d0)\<rparr>)))" for k j
  have d0: "reconcile_jobs d0 = reconcile_jobs d" "fresh_id d = (i, d0)" by (simp_all add: i_def d0_def fresh_id_def)
  from assms obtain k where k: "kind_of_job kind = Some k" by (cases "kind_of_job kind") (auto simp: CreateReconcileJob_def)
  note c = assms[unfolded CreateReconcileJob_def d0(2) Let_def k option.case prod.case, folded new_def]
  from c have g: "system_enabled sys d" "\<not> (\<exists>j \<in> set (reconcile_jobs d). rj_system_id j = sys \<and> open_job j)" "\<not> (\<exists>j \<in> set (reconcile_jobs d0). rj_id j = i)" "job = new k"
    by (auto simp: andthen_Inr_iff)
  from c have "recordAuditTx audit now (d0\<lparr>reconcile_jobs := sql_delete (old k) (sql_insert (new k) (reconcile_jobs d0))\<rparr>) = Inr d'"
    using g(4) by (simp add: andthen_Inr_iff old_def[abs_def])
  then have d': "reconcile_jobs d' = sql_delete (old k) (sql_insert job (reconcile_jobs d))" using g(4) d0(1) by (auto dest!: recordAuditTx_InrD)
  show ?thesis by (rule that[of "old k"]) (use g d' d0(1) in \<open>auto simp: new_def open_systems_def old_def\<close>)
qed

lemma create_sound:
  assumes "CreateReconcileJob sys kind by audit now d = Inr (job, d')" "job_queue_sound d"
  shows "job_queue_sound d'"
  using assms(1)
proof (rule CreateReconcileJob_InrE)
  fix p
  assume new: "sys \<notin> set (open_systems (reconcile_jobs d))" "rj_id job \<notin> rj_id ` set (reconcile_jobs d)" "rj_system_id job = sys"
      "rj_status job = JobQueued" "rj_attempts job = 0"
    and d': "reconcile_jobs d' = sql_delete p (sql_insert job (reconcile_jobs d))" and p: "\<And>j. p j \<Longrightarrow> \<not> open_job j"
  have "open_systems (reconcile_jobs d') = open_systems (reconcile_jobs d) @ [sys]"
    using open_systems_delete[of "sql_insert job (reconcile_jobs d)" p] p new(3,4) by (simp add: d' open_systems_def sql_insert_def open_job_def)
  moreover have "distinct (map rj_id (reconcile_jobs d'))"
    unfolding d' sql_delete_def using new(2) assms(2) by (intro distinct_map_filter) (auto simp: sql_insert_def job_queue_sound_def)
  moreover have "job_sound job" using new by (simp add: job_sound_def reconcileAttempts_def)
  ultimately show ?thesis using assms(2) new(1) by (auto simp: job_queue_sound_def d' sql_delete_def sql_insert_def)
qed

lemma fail_sound:
  assumes "job_queue_sound d"
  shows "job_queue_sound (fail_interrupted_jobs now d)"
proof (rule sound_update[OF assms])
  show "reconcile_jobs (fail_interrupted_jobs now d) = sql_update (\<lambda>j. rj_status j = JobRunning \<and> lease_over now j \<and> reconcileAttempts \<le> rj_attempts j)
     (\<lambda>j. j\<lparr>rj_status := JobFailed, rj_error := ''interrupted repeatedly'', rj_finished_at := Some now, rj_lease_until := None, rj_claim_token := ''''\<rparr>) (reconcile_jobs d)"
    by (simp add: fail_interrupted_jobs_def)
qed (use assms in \<open>auto simp: open_job_def job_sound_def job_queue_sound_def\<close>)

lemma schedule_sound:
  assumes "ScheduleReconcileJobs now d = Inr d'" "job_queue_sound d"
  shows "job_queue_sound d'"
proof (rule each_keeps[OF assms(1)[unfolded ScheduleReconcileJobs_def], where P = job_queue_sound])
  fix sys e e'
  assume step: "(let (i, e0) = fresh_id e in case CreateReconcileJob sys ''repair'' ''schedule'' (Some \<lparr>au_id = i, au_actor_id = '''', au_actor_username = ''schedule'', au_action = ''admin.reconcile_requested'',
        au_target_id = sys, au_target_type = ''system'', au_ip_address = '''', au_user_agent = '''', au_outcome = Success,
        au_details = JObj [(''kind'', JStr ''repair''), (''requestedBy'', JStr ''schedule'')], au_created_at = None\<rparr>) now e0 of
      Inr (_, e1) \<Rightarrow> Inr e1 | Inl er \<Rightarrow> if er = ErrReconcileBusy then Inr e0 else Inl er) = Inr e'" and e: "job_queue_sound e"
  define e0 where "e0 = snd (fresh_id e)"
  have e0: "job_queue_sound e0" using e by (simp add: e0_def fresh_id_def job_queue_sound_def)
  from step have "e' = e0 \<or> (\<exists>a j. CreateReconcileJob sys ''repair'' ''schedule'' a now e0 = Inr (j, e'))"
    unfolding e0_def by (cases "fresh_id e") (auto split: sum.splits if_splits)
  with e0 create_sound show "job_queue_sound e'" by blast
qed (rule assms(2))

text \<open>A claim takes the oldest claimable job, if there is one, and touches no other.\<close>

lemma ClaimReconcileJob_cases:
  assumes "ClaimReconcileJob lease now d = (got, d')"
  obtains (none) "got = None" "\<not> (\<exists>j \<in> set (reconcile_jobs (fail_interrupted_jobs now d)). claimable_job now j)" "reconcile_jobs d' = reconcile_jobs (fail_interrupted_jobs now d)"
    | (one) token j where "got = Some (claimed_job token lease now j)" "j \<in> set (reconcile_jobs (fail_interrupted_jobs now d))" "claimable_job now j"
        "\<forall>x \<in> set (reconcile_jobs (fail_interrupted_jobs now d)). claimable_job now x \<longrightarrow> rj_created_at j \<le> rj_created_at x"
        "reconcile_jobs d' = sql_update (\<lambda>x. rj_id x = rj_id j) (claimed_job token lease now) (reconcile_jobs (fail_interrupted_jobs now d))"
proof -
  define f where "f = fail_interrupted_jobs now d"
  define xs where "xs = sort_key rj_created_at (filter (claimable_job now) (reconcile_jobs f))"
  have set: "set xs = {j \<in> set (reconcile_jobs f). claimable_job now j}" by (simp add: xs_def)
  have srt: "sorted (map rj_created_at xs)" by (simp add: xs_def)
  have c: "(case xs of [] \<Rightarrow> (None, snd (fresh_id f)) | j # _ \<Rightarrow> (Some (claimed_job (fst (fresh_id f)) lease now j),
     (snd (fresh_id f))\<lparr>reconcile_jobs := sql_update (\<lambda>x. rj_id x = rj_id j) (claimed_job (fst (fresh_id f)) lease now) (reconcile_jobs f)\<rparr>)) = (got, d')"
    using assms unfolding ClaimReconcileJob_def f_def[symmetric] xs_def by (simp add: fresh_id_def Let_def cong: list.case_cong)
  show ?thesis
  proof (cases xs)
    case Nil
    with c set show ?thesis by (intro that(1)) (auto simp: f_def[symmetric] fresh_id_def)
  next
    case (Cons j ys)
    with srt set have "\<forall>x \<in> set (reconcile_jobs f). claimable_job now x \<longrightarrow> rj_created_at j \<le> rj_created_at x" by auto
    moreover have "j \<in> set (reconcile_jobs f)" "claimable_job now j" using Cons set by auto
    ultimately show ?thesis using c Cons by (intro that(2)[of "fst (fresh_id f)" j]) (auto simp: f_def[symmetric])
  qed
qed

lemma same_job: "job_queue_sound d \<Longrightarrow> j \<in> set (reconcile_jobs d) \<Longrightarrow> x \<in> set (reconcile_jobs d) \<Longrightarrow> rj_id x = rj_id j \<Longrightarrow> x = j"
  using key_unique[of rj_id "reconcile_jobs d"] by (auto simp: job_queue_sound_def)

lemma claim_sound:
  assumes "ClaimReconcileJob lease now d = (got, d')" "job_queue_sound d"
  shows "job_queue_sound d'"
  using assms(1)
proof (cases rule: ClaimReconcileJob_cases)
  case none
  with fail_sound[OF assms(2), of now] show ?thesis by (simp add: job_queue_sound_def)
next
  case (one token j)
  show ?thesis
  proof (rule sound_update[OF fail_sound[OF assms(2)] _ one(5)])
    fix x
    assume x: "x \<in> set (reconcile_jobs (fail_interrupted_jobs now d))" "rj_id x = rj_id j"
    have "x = j" by (rule same_job[OF fail_sound[OF assms(2)] one(2) x])
    with one(3) show "rj_id (claimed_job token lease now x) = rj_id x \<and> rj_system_id (claimed_job token lease now x) = rj_system_id x \<and>
        (open_job (claimed_job token lease now x) \<longrightarrow> open_job x) \<and> job_sound (claimed_job token lease now x)"
      by (auto simp: claimed_job_def open_job_def job_sound_def claimable_job_def)
  qed
qed

lemma finish_rows:
  assumes "FinishReconcileJob job report runErr now d = Inr d'"
  shows "reconcile_jobs d' = sql_update (\<lambda>j. rj_id j = rj_id job \<and> rj_claim_token j = rj_claim_token job)
    (\<lambda>j. j\<lparr>rj_status := (if runErr = None then JobDone else JobFailed), rj_result := report, rj_error := ref runErr, rj_finished_at := Some now, rj_lease_until := None, rj_claim_token := ''''\<rparr>) (reconcile_jobs d)"
  using assms unfolding FinishReconcileJob_def Let_def
  by (auto simp: andthen_Inr_iff fresh_id_def releaseProvisioningHoldTx_def split: if_splits dest!: recordAuditTx_InrD)

lemma finish_sound:
  assumes "FinishReconcileJob job report runErr now d = Inr d'" "job_queue_sound d"
  shows "job_queue_sound d'"
  by (rule sound_update[OF assms(2) _ finish_rows[OF assms(1)]]) (use assms(2) in \<open>auto simp: job_queue_sound_def job_sound_def open_job_def split: if_splits\<close>)

inductive job_step :: "db \<Rightarrow> db \<Rightarrow> bool" where
  created: "CreateReconcileJob sys kind rb audit now d = Inr (job, d') \<Longrightarrow> job_step d d'"
| scheduled: "ScheduleReconcileJobs now d = Inr d' \<Longrightarrow> job_step d d'"
| claimed: "ClaimReconcileJob lease now d = (got, d') \<Longrightarrow> job_step d d'"
| finished: "FinishReconcileJob job report runErr now d = Inr d' \<Longrightarrow> job_step d d'"

lemma job_step_sound: "job_step d d' \<Longrightarrow> job_queue_sound d \<Longrightarrow> job_queue_sound d'"
  by (induction rule: job_step.induct) (auto intro: create_sound schedule_sound claim_sound finish_sound)

section \<open>Draining\<close>

text \<open>The turns a job may still take: one for each attempt it has left and one to be failed.\<close>

definition job_turns :: "reconcile_job \<Rightarrow> nat" where
  "job_turns j = (if open_job j then Suc reconcileAttempts - rj_attempts j else 0)"

definition job_work :: "db \<Rightarrow> nat" where
  "job_work d = sum_list (map job_turns (reconcile_jobs d))"

definition leases_over :: "time \<Rightarrow> db \<Rightarrow> bool" where
  "leases_over t d \<longleftrightarrow> (\<forall>j \<in> set (reconcile_jobs d). rj_status j = JobRunning \<longrightarrow> lease_over t j)"

definition queue_idle :: "db \<Rightarrow> bool" where
  "queue_idle d \<longleftrightarrow> \<not> (\<exists>j \<in> set (reconcile_jobs d). open_job j)"

text \<open>Workers that claim at the given times and die before they finish anything.\<close>

fun dying_workers :: "duration \<Rightarrow> time list \<Rightarrow> db \<Rightarrow> db" where
  "dying_workers lease [] d = d"
| "dying_workers lease (t # ts) d = dying_workers lease ts (snd (ClaimReconcileJob lease t d))"

lemma job_work_update:
  assumes "\<And>j. j \<in> set (reconcile_jobs d) \<Longrightarrow> p j \<Longrightarrow> job_turns (f j) \<le> job_turns j" "reconcile_jobs d' = sql_update p f (reconcile_jobs d)"
  shows "job_work d' \<le> job_work d"
  using sum_list_update_le[of "reconcile_jobs d" job_turns p f job_turns "\<lambda>_. True"] assms by (simp add: job_work_def)

lemma job_work_less:
  assumes "\<And>j. j \<in> set (reconcile_jobs d) \<Longrightarrow> p j \<Longrightarrow> job_turns (f j) < job_turns j" "reconcile_jobs d' = sql_update p f (reconcile_jobs d)"
    "j \<in> set (reconcile_jobs d)" "p j"
  shows "job_work d' < job_work d"
  using sum_list_update_less[of "reconcile_jobs d" job_turns p f job_turns "\<lambda>_. True" j] assms by (force simp: job_work_def less_imp_le)

lemma fail_work: "job_work (fail_interrupted_jobs now d) \<le> job_work d"
  by (rule job_work_update[where p = "\<lambda>j. rj_status j = JobRunning \<and> lease_over now j \<and> reconcileAttempts \<le> rj_attempts j"])
     (auto simp: fail_interrupted_jobs_def job_turns_def open_job_def)

lemma fail_leases:
  assumes "leases_over t d" "j \<in> set (reconcile_jobs (fail_interrupted_jobs t d))" "open_job j" "job_queue_sound d"
  shows "claimable_job t j"
  using assms by (auto simp: leases_over_def fail_interrupted_jobs_def sql_simps open_job_def claimable_job_def job_queue_sound_def job_sound_def reconcileAttempts_def split: if_splits)

lemma claim_progress:
  assumes sound: "job_queue_sound d" and over: "leases_over t d" and c: "ClaimReconcileJob lease t d = (got, d')"
  shows "queue_idle d' \<or> job_work d' < job_work d"
  using c
proof (cases rule: ClaimReconcileJob_cases)
  case none
  with fail_leases[OF over _ _ sound] show ?thesis by (auto simp: queue_idle_def)
next
  case (one token j)
  let ?f = "fail_interrupted_jobs t d"
  have "job_work d' < job_work ?f"
  proof (rule job_work_less[OF _ one(5) one(2)])
    fix x
    assume x: "x \<in> set (reconcile_jobs ?f)" "rj_id x = rj_id j"
    have "x = j" by (rule same_job[OF fail_sound[OF sound] one(2) x])
    with one(3) show "job_turns (claimed_job token lease t x) < job_turns x" by (auto simp: job_turns_def claimed_job_def claimable_job_def open_job_def)
  qed simp
  with fail_work[of t d] show ?thesis by simp
qed

lemma claim_leases:
  assumes over: "leases_over t d" and c: "ClaimReconcileJob lease t d = (got, d')" and t: "0 \<le> lease" "t + lease \<le> t'"
  shows "leases_over t' d'"
proof -
  have f: "leases_over t' (fail_interrupted_jobs t d)" using over t by (fastforce simp: leases_over_def fail_interrupted_jobs_def sql_simps lease_over_def split: option.splits)
  show ?thesis using c
  proof (cases rule: ClaimReconcileJob_cases)
    case none
    with f show ?thesis by (simp add: leases_over_def)
  next
    case (one token j)
    from f t show ?thesis by (auto simp: leases_over_def one(5) sql_simps claimed_job_def lease_over_def)
  qed
qed

lemma idle_claim:
  assumes "queue_idle d" "ClaimReconcileJob lease t d = (got, d')"
  shows "queue_idle d'"
proof -
  have f: "queue_idle (fail_interrupted_jobs t d)" using assms(1) by (auto simp: queue_idle_def fail_interrupted_jobs_def sql_simps open_job_def)
  show ?thesis using assms(2)
  proof (cases rule: ClaimReconcileJob_cases)
    case none
    with f show ?thesis by (simp add: queue_idle_def)
  next
    case (one token j)
    with f show ?thesis by (auto simp: queue_idle_def claimable_job_def open_job_def)
  qed
qed

lemma sound_idle: "job_queue_sound d \<Longrightarrow> job_work d = 0 \<Longrightarrow> queue_idle d"
  by (fastforce simp: queue_idle_def job_work_def job_queue_sound_def job_sound_def job_turns_def sum_list_eq_0_iff)

text \<open>
  The reconciliation queue takes no harm: whatever jobs are requested, scheduled, claimed and finished, in whatever order, a
  connector has at most one open job, no job is attempted more than three times, a waiting job was never attempted and a
  running one always holds a lease, which is what lets another worker take over from one that died.
\<close>

theorem job_queue_invariant:
  assumes "job_step\<^sup>*\<^sup>* d d'" "job_queue_sound d"
  shows "job_queue_sound d'"
  using assms by (induction rule: rtranclp_induct) (auto intro: job_step_sound)

text \<open>
  C39. The reconciliation queue drains. Suppose workers claim at a series of times, each after the lease of the one before,
  and every one of them dies before it reports: once there were as many claims as jobs have turns left (at most four for
  each open job), no job is open any more. A job that keeps killing its worker is failed, not retried for ever.
\<close>

theorem job_queue_drains:
  assumes "job_queue_sound d" "ts \<noteq> [] \<Longrightarrow> leases_over (hd ts) d" "0 \<le> lease" "successively (\<lambda>a b. a + lease \<le> b) ts" "job_work d \<le> length ts"
  shows "queue_idle (dying_workers lease ts d)"
proof -
  have "queue_idle d \<or> job_work d \<le> length ts" using assms(5) by simp
  with assms(1,2,4) show ?thesis
  proof (induction ts arbitrary: d)
    case Nil
    with sound_idle show ?case by auto
  next
    case (Cons t ts)
    obtain got d' where c: "ClaimReconcileJob lease t d = (got, d')" by (cases "ClaimReconcileJob lease t d") auto
    have over: "leases_over t d" using Cons.prems(2) by simp
    have "queue_idle d' \<or> job_work d' \<le> length ts"
      using Cons.prems(4) claim_progress[OF Cons.prems(1) over c] idle_claim[OF _ c] by auto
    moreover have "leases_over (hd ts) d'" if "ts \<noteq> []"
      by (rule claim_leases[OF over c assms(3)]) (use Cons.prems(3) that in \<open>cases ts; auto\<close>)
    ultimately have "queue_idle (dying_workers lease ts d')"
      by (intro Cons.IH claim_sound[OF c Cons.prems(1)]) (use Cons.prems(3) in \<open>auto simp: successively_Cons\<close>)
    with c show ?case by simp
  qed
qed

section \<open>Witnesses\<close>

definition queued_db :: db where
  "queued_db = (snd (projr (CreateReconcileJob ''y1'' ''repair'' ''root'' None sample_now connector_db)))"

theorem job_queue_invariant_witness:
  "\<exists>d'. job_step\<^sup>*\<^sup>* connector_db d' \<and> job_queue_sound d' \<and> (\<exists>j \<in> set (reconcile_jobs d'). rj_status j = JobRunning \<and> rj_attempts j = 1)"
proof -
  have "\<not> isl (CreateReconcileJob ''y1'' ''repair'' ''root'' None sample_now connector_db)" by code_simp
  then obtain j where "CreateReconcileJob ''y1'' ''repair'' ''root'' None sample_now connector_db = Inr (j, queued_db)" unfolding queued_db_def using succeeds_pair by fastforce
  then have "job_step connector_db queued_db" by (rule job_step.created)
  moreover have "job_step queued_db (snd (ClaimReconcileJob minute sample_now queued_db))" by (rule job_step.claimed) (rule prod.collapse[symmetric])
  ultimately have s: "job_step\<^sup>*\<^sup>* connector_db (snd (ClaimReconcileJob minute sample_now queued_db))" by simp
  have "job_queue_sound connector_db" by code_simp
  moreover have "\<exists>j \<in> set (reconcile_jobs (snd (ClaimReconcileJob minute sample_now queued_db))). rj_status j = JobRunning \<and> rj_attempts j = 1" by code_simp
  ultimately show ?thesis using job_queue_invariant[OF s] s by blast
qed

theorem job_queue_drains_witness:
  "job_work queued_db = 4 \<and> queue_idle (dying_workers minute [sample_now, sample_now + minute, sample_now + 2 * minute, sample_now + 3 * minute] queued_db)"
proof -
  let ?ts = "[sample_now, sample_now + minute, sample_now + 2 * minute, sample_now + 3 * minute]"
  have "job_queue_sound queued_db" "leases_over sample_now queued_db" "job_work queued_db = 4" "0 \<le> minute" by code_simp+
  moreover have "successively (\<lambda>a b. a + minute \<le> b) ?ts" by code_simp
  ultimately show ?thesis using job_queue_drains[of queued_db ?ts minute] by simp
qed

end
