(* ===== verification/Ky_URL.thy ===== *)
theory Ky_URL
  imports Ky_Prelude
begin

text \<open>
  Query strings (\<^verbatim>\<open>net/url\<close>, what the handlers use of it): percent-encoding of a query component, \<open>ParseQuery\<close> and
  \<open>Values.Encode\<close>. A set of values is an association list with one entry per key; the map a query parses into lists its keys
  in the order they first occur.
\<close>

section \<open>Components\<close>

definition unreserved :: "char \<Rightarrow> bool" where
  "unreserved c \<longleftrightarrow> (let n = (of_char c :: nat) in 48 \<le> n \<and> n \<le> 57 \<or> 65 \<le> n \<and> n \<le> 90 \<or> 97 \<le> n \<and> n \<le> 122) \<or> c \<in> {CHR ''-'', CHR ''_'', CHR ''.'', CHR ''~''}"

definition hex_digit :: "nat \<Rightarrow> char" where
  "hex_digit n = (if n < 10 then char_of (48 + n) else char_of (55 + n))"

definition hex_value :: "char \<Rightarrow> nat option" where
  "hex_value c = (let n = (of_char c :: nat) in
     if 48 \<le> n \<and> n \<le> 57 then Some (n - 48) else if 65 \<le> n \<and> n \<le> 70 then Some (n - 55) else if 97 \<le> n \<and> n \<le> 102 then Some (n - 87) else None)"

definition escape_char :: "char \<Rightarrow> string" where
  "escape_char c = (if unreserved c then [c] else if c = CHR '' '' then [CHR ''+'']
     else let n = (of_char c :: nat) in [CHR ''%'', hex_digit (n div 16), hex_digit (n mod 16)])"

definition QueryEscape :: "string \<Rightarrow> string" where
  "QueryEscape s = concat (map escape_char s)"

fun QueryUnescape :: "string \<Rightarrow> string option" where
  "QueryUnescape [] = Some []"
| "QueryUnescape (c # cs) =
     (if c = CHR ''%'' then (case cs of
        a # b # rest \<Rightarrow> (case (hex_value a, hex_value b) of
          (Some x, Some y) \<Rightarrow> map_option (\<lambda>t. char_of (16 * x + y) # t) (QueryUnescape rest)
        | _ \<Rightarrow> None)
      | _ \<Rightarrow> None)
      else map_option (\<lambda>t. (if c = CHR ''+'' then CHR '' '' else c) # t) (QueryUnescape cs))"

section \<open>Queries\<close>

type_synonym url_values = "(string \<times> string list) list"

definition url_get :: "url_values \<Rightarrow> string \<Rightarrow> string" where
  "url_get q k = (case map_of q k of Some (v # _) \<Rightarrow> v | _ \<Rightarrow> '''')"

text \<open>\<open>strings.Cut\<close> at a character.\<close>

definition cut :: "char \<Rightarrow> string \<Rightarrow> string \<times> string" where
  "cut c s = (takeWhile (\<lambda>x. x \<noteq> c) s, tl (dropWhile (\<lambda>x. x \<noteq> c) s))"

fun add_value :: "string \<Rightarrow> string \<Rightarrow> url_values \<Rightarrow> url_values" where
  "add_value k v [] = [(k, [v])]"
| "add_value k v ((k', vs) # q) = (if k' = k then (k', vs @ [v]) # q else (k', vs) # add_value k v q)"

text \<open>The segments between ampersands, then each as a pair; one bad segment fails the whole query.\<close>

fun segments :: "string \<Rightarrow> string list" where
  "segments [] = [[]]"
| "segments (c # cs) = (if c = CHR ''&'' then [] # segments cs else (case segments cs of [] \<Rightarrow> [[c]] | s # ss \<Rightarrow> (c # s) # ss))"

definition parse_segment :: "string \<Rightarrow> (string \<times> string) option" where
  "parse_segment s = (if CHR '';'' \<in> set s then None
     else case (QueryUnescape (fst (cut (CHR ''='') s)), QueryUnescape (snd (cut (CHR ''='') s))) of (Some k, Some v) \<Rightarrow> Some (k, v) | _ \<Rightarrow> None)"

fun parse_segments :: "url_values \<Rightarrow> string list \<Rightarrow> url_values option" where
  "parse_segments q [] = Some q"
| "parse_segments q (s # ss) = (if s = [] then parse_segments q ss
     else case parse_segment s of None \<Rightarrow> None | Some (k, v) \<Rightarrow> parse_segments (add_value k v q) ss)"

definition ParseQuery :: "string \<Rightarrow> url_values option" where
  "ParseQuery s = parse_segments [] (segments s)"

fun join_amp :: "string list \<Rightarrow> string" where
  "join_amp [] = []"
| "join_amp [x] = x"
| "join_amp (x # y # ys) = x @ CHR ''&'' # join_amp (y # ys)"

definition pair_text :: "string \<times> string \<Rightarrow> string" where
  "pair_text p = QueryEscape (fst p) @ CHR ''='' # QueryEscape (snd p)"

definition value_pairs :: "url_values \<Rightarrow> (string \<times> string) list" where
  "value_pairs q = concat (map (\<lambda>(k, vs). map (Pair k) vs) q)"

definition Encode :: "url_values \<Rightarrow> string" where
  "Encode q = join_amp (map pair_text (value_pairs (sort_key fst q)))"

section \<open>What is encoded is read back\<close>

lemma of_hex_digit: "n < 16 \<Longrightarrow> (of_char (hex_digit n) :: nat) = (if n < 10 then 48 + n else 55 + n)"
  by (simp add: hex_digit_def)

lemma hex_digit_ok:
  assumes "n < 16"
  shows "hex_value (hex_digit n) = Some n" "hex_digit n \<notin> {CHR ''&'', CHR ''='', CHR '';''}"
proof -
  show "hex_value (hex_digit n) = Some n" using assms by (auto simp: hex_value_def of_hex_digit)
  have "(of_char (hex_digit n) :: nat) \<notin> {38, 61, 59}" using assms by (auto simp: of_hex_digit)
  moreover have "(of_char CHR ''&'' :: nat) = 38" "(of_char CHR ''='' :: nat) = 61" "(of_char CHR '';'' :: nat) = 59" by simp_all
  ultimately show "hex_digit n \<notin> {CHR ''&'', CHR ''='', CHR '';''}" by (metis insertCI insertE singletonD)
qed

lemma escape_char_safe: "x \<in> set (escape_char c) \<Longrightarrow> x \<notin> {CHR ''&'', CHR ''='', CHR '';''}"
proof -
  assume x: "x \<in> set (escape_char c)"
  consider "unreserved c" "x = c" | "x = CHR ''+''" | "x = CHR ''%''" | n where "n < 16" "x = hex_digit n"
  proof -
    have n: "(of_char c :: nat) div 16 < 16" "(of_char c :: nat) mod 16 < 16" using nat_of_char_less_256[of c] by linarith+
    from x have "unreserved c \<and> x = c \<or> x = CHR ''+'' \<or> x = CHR ''%'' \<or> x = hex_digit (of_char c div 16) \<or> x = hex_digit (of_char c mod 16)"
      by (auto simp: escape_char_def Let_def split: if_splits)
    with that(1-3) that(4)[OF n(1)] that(4)[OF n(2)] show ?thesis by blast
  qed
  then show ?thesis
  proof cases
    case 1
    then show ?thesis by (auto simp: unreserved_def)
  qed (use hex_digit_ok in auto)
qed

lemma unescape_escape_char: "QueryUnescape (escape_char c @ t) = map_option (\<lambda>u. c # u) (QueryUnescape t)"
proof -
  consider "unreserved c" | "\<not> unreserved c" "c = CHR '' ''" | "\<not> unreserved c" "c \<noteq> CHR '' ''" by blast
  then show ?thesis
  proof cases
    case 1
    then have "c \<noteq> CHR ''%''" "c \<noteq> CHR ''+''" by (auto simp: unreserved_def)
    with 1 show ?thesis by (simp add: escape_char_def)
  next
    case 2
    then show ?thesis by (simp add: escape_char_def)
  next
    case 3
    let ?n = "of_char c :: nat"
    have "?n div 16 < 16" "?n mod 16 < 16" using nat_of_char_less_256[of c] by linarith+
    then have "hex_value (hex_digit (?n div 16)) = Some (?n div 16)" "hex_value (hex_digit (?n mod 16)) = Some (?n mod 16)" using hex_digit_ok by auto
    with 3 show ?thesis by (simp add: escape_char_def Let_def)
  qed
qed

lemma unescape_escape [simp]: "QueryUnescape (QueryEscape s) = Some s"
  by (induction s) (simp_all add: QueryEscape_def unescape_escape_char)

lemma QueryEscape_safe: "x \<in> set (QueryEscape s) \<Longrightarrow> x \<notin> {CHR ''&'', CHR ''='', CHR '';''}"
  using escape_char_safe by (auto simp: QueryEscape_def)

lemma cut_pair: "cut (CHR ''='') (pair_text p) = (QueryEscape (fst p), QueryEscape (snd p))"
proof -
  have "\<forall>x \<in> set (QueryEscape (fst p)). x \<noteq> CHR ''=''" using QueryEscape_safe by blast
  then show ?thesis by (simp add: cut_def pair_text_def)
qed

lemma parse_segment_pair: "parse_segment (pair_text p) = Some p"
proof -
  have "CHR '';'' \<notin> set (pair_text p)" using QueryEscape_safe by (auto simp: pair_text_def)
  then show ?thesis by (simp add: parse_segment_def cut_pair)
qed

lemma segments_plain: "CHR ''&'' \<notin> set s \<Longrightarrow> segments s = [s]"
  by (induction s) auto

lemma segments_amp: "CHR ''&'' \<notin> set s \<Longrightarrow> segments (s @ CHR ''&'' # t) = s # segments t"
  by (induction s) auto

lemma segments_join: "list_all (\<lambda>s. CHR ''&'' \<notin> set s) ss \<Longrightarrow> ss \<noteq> [] \<Longrightarrow> segments (join_amp ss) = ss"
  by (induction ss rule: join_amp.induct) (auto simp: segments_plain segments_amp)

lemma parse_pairs: "parse_segments q (map pair_text ps) = Some (foldl (\<lambda>q (k, v). add_value k v q) q ps)"
  by (induction ps arbitrary: q) (auto simp: parse_segment_pair pair_text_def[symmetric], simp add: pair_text_def)

lemma add_value_new: "k \<notin> fst ` set q \<Longrightarrow> add_value k v q = q @ [(k, [v])]"
  by (induction k v q rule: add_value.induct) auto

lemma add_value_last: "k \<notin> fst ` set q \<Longrightarrow> add_value k v (q @ [(k, vs)]) = q @ [(k, vs @ [v])]"
  by (induction k v q rule: add_value.induct) auto

lemma add_values_last: "k \<notin> fst ` set q \<Longrightarrow> foldl (\<lambda>q (k, v). add_value k v q) (q @ [(k, vs)]) (map (Pair k) us) = q @ [(k, vs @ us)]"
  by (induction us arbitrary: vs) (simp_all add: add_value_last)

lemma add_values_new: "k \<notin> fst ` set q \<Longrightarrow> vs \<noteq> [] \<Longrightarrow> foldl (\<lambda>q (k, v). add_value k v q) q (map (Pair k) vs) = q @ [(k, vs)]"
  using add_values_last[of k q "[hd vs]" "tl vs"] by (cases vs) (simp_all add: add_value_new)

lemma collect_pairs:
  "distinct (map fst (q @ r)) \<Longrightarrow> list_all (\<lambda>(k, vs). vs \<noteq> []) r \<Longrightarrow> foldl (\<lambda>q (k, v). add_value k v q) q (value_pairs r) = q @ r"
proof (induction r arbitrary: q)
  case (Cons p r)
  obtain k vs where p: "p = (k, vs)" by (cases p)
  with Cons.prems have "k \<notin> fst ` set q" "vs \<noteq> []" by auto
  then have "foldl (\<lambda>q (k, v). add_value k v q) q (value_pairs (p # r)) = foldl (\<lambda>q (k, v). add_value k v q) (q @ [p]) (value_pairs r)"
    using add_values_new[of k q vs] by (simp add: value_pairs_def p)
  with Cons show ?case by simp
qed (simp add: value_pairs_def)



end
