(* ===== verification/Ky_OAuth.thy ===== *)
theory Ky_OAuth
  imports Ky_Jobs Ky_Refresh Ky_Push Ky_Enrollment Ky_URL
begin

text \<open>
  The OAuth engine (\<^verbatim>\<open>internal/oauth/oauth.go\<close>, \<^verbatim>\<open>authentication.go\<close>,
  \<^verbatim>\<open>authentication_request.go\<close>, \<^verbatim>\<open>logout.go\<close>; the token verifier of
  \<^verbatim>\<open>internal/crypto/crypto.go\<close>). Unlike a store operation, an exchange is several transactions: what one committed
  stays when a later one fails, and other requests run in between. \<open>other\<close> is what they do before each store call, to the
  database and to the clock.
\<close>

section \<open>Runs of several transactions\<close>

record world =
  w_db :: db
  w_now :: time

datatype oauth_err =
    Store err | UnknownClient | NoScopePermitted | InvalidClient | PKCERequired | NoActiveSession
  | SecretMissing | SecretWrong | ErrInvalidClient | CodeInvalid | ClientMismatch | RedirectMismatch | PKCEInvalid
  | CodeSpent | UserInactive | RefreshNeedsClient | ScopeExceeds | TokenInvalid | TokenWithoutJTI | TokenRevoked
  | NoSubject | ErrClaimsTooLarge | BadRequestParameters | BadHint

type_synonym 'a run = "world \<Rightarrow> (oauth_err + 'a) \<times> world"

definition ret :: "'a \<Rightarrow> 'a run" where
  "ret x w = (Inr x, w)"

definition refuse :: "oauth_err \<Rightarrow> 'a run" where
  "refuse e w = (Inl e, w)"

definition seqr :: "'a run \<Rightarrow> ('a \<Rightarrow> 'b run) \<Rightarrow> 'b run" where
  "seqr m f w = (case m w of (Inl e, w1) \<Rightarrow> (Inl e, w1) | (Inr x, w1) \<Rightarrow> f x w1)"

definition demand :: "bool \<Rightarrow> oauth_err \<Rightarrow> unit run" where
  "demand b e = (if b then ret () else refuse e)"

text \<open>A store call: the others first, then one transaction at the clock it finds.\<close>

definition call :: "(world \<Rightarrow> world) \<Rightarrow> (time \<Rightarrow> db \<Rightarrow> (err + 'a) \<times> db) \<Rightarrow> 'a run" where
  "call other f w = (let w1 = other w in case f (w_now w1) (w_db w1) of
     (Inl e, d) \<Rightarrow> (Inl (Store e), w1\<lparr>w_db := d\<rparr>) | (Inr x, d) \<Rightarrow> (Inr x, w1\<lparr>w_db := d\<rparr>))"

definition reading :: "(time \<Rightarrow> db \<Rightarrow> 'a) \<Rightarrow> time \<Rightarrow> db \<Rightarrow> (err + 'a) \<times> db" where
  "reading f now d = (Inr (f now d), d)"

definition querying :: "(time \<Rightarrow> db \<Rightarrow> err + 'a) \<Rightarrow> time \<Rightarrow> db \<Rightarrow> (err + 'a) \<times> db" where
  "querying f now d = (f now d, d)"

definition writing :: "(time \<Rightarrow> db \<Rightarrow> err + db) \<Rightarrow> time \<Rightarrow> db \<Rightarrow> (err + unit) \<times> db" where
  "writing f now d = (case f now d of Inl e \<Rightarrow> (Inl e, d) | Inr d' \<Rightarrow> (Inr (), d'))"

definition updating :: "(time \<Rightarrow> db \<Rightarrow> err + ('a \<times> db)) \<Rightarrow> time \<Rightarrow> db \<Rightarrow> (err + 'a) \<times> db" where
  "updating f now d = (case f now d of Inl e \<Rightarrow> (Inl e, d) | Inr (x, d') \<Rightarrow> (Inr x, d'))"

definition clock :: "time run" where
  "clock w = (Inr (w_now w), w)"

text \<open>A fresh random identifier.\<close>

definition draw :: "string run" where
  "draw w = (case fresh_id (w_db w) of (i, d) \<Rightarrow> (Inr i, w\<lparr>w_db := d\<rparr>))"

lemma seqr_iff: "seqr m f w = (Inr y, w') \<longleftrightarrow> (\<exists>x w1. m w = (Inr x, w1) \<and> f x w1 = (Inr y, w'))"
  by (auto simp: seqr_def split: prod.splits sum.splits)

lemma ret_iff: "ret x w = (Inr y, w') \<longleftrightarrow> y = x \<and> w' = w"
  by (auto simp: ret_def)

lemma refuse_iff: "refuse e w = (Inr y, w') \<longleftrightarrow> False"
  by (simp add: refuse_def)

lemma demand_iff: "demand b e w = (Inr u, w') \<longleftrightarrow> b \<and> w' = w"
  by (auto simp: demand_def ret_def refuse_def)

lemma call_reading_iff: "call other (reading f) w = (Inr x, w') \<longleftrightarrow> x = f (w_now (other w)) (w_db (other w)) \<and> w' = other w"
  by (auto simp: call_def reading_def Let_def)

lemma call_querying_iff: "call other (querying f) w = (Inr x, w') \<longleftrightarrow> f (w_now (other w)) (w_db (other w)) = Inr x \<and> w' = other w"
  by (auto simp: call_def querying_def Let_def split: sum.splits)

lemma call_writing_iff: "call other (writing f) w = (Inr u, w') \<longleftrightarrow> (\<exists>d'. f (w_now (other w)) (w_db (other w)) = Inr d' \<and> w' = (other w)\<lparr>w_db := d'\<rparr>)"
  by (auto simp: call_def writing_def Let_def split: sum.splits)

lemma call_updating_iff: "call other (updating f) w = (Inr x, w') \<longleftrightarrow> (\<exists>d'. f (w_now (other w)) (w_db (other w)) = Inr (x, d') \<and> w' = (other w)\<lparr>w_db := d'\<rparr>)"
  by (auto simp: call_def updating_def Let_def split: sum.splits prod.splits)

lemma clock_iff: "clock w = (Inr t, w') \<longleftrightarrow> t = w_now w \<and> w' = w"
  by (auto simp: clock_def)

lemma draw_iff: "draw w = (Inr i, w') \<longleftrightarrow> i = rand_src (w_db w) (rand_pos (w_db w)) \<and> w' = w\<lparr>w_db := (w_db w)\<lparr>rand_pos := Suc (rand_pos (w_db w))\<rparr>\<rparr>"
  by (auto simp: draw_def fresh_id_def)

lemmas run_iffs = seqr_iff ret_iff refuse_iff demand_iff call_reading_iff call_querying_iff call_writing_iff call_updating_iff clock_iff draw_iff

section \<open>Scopes\<close>

text \<open>\<open>strings.Fields\<close>: the stretches between white space.\<close>

definition space_at :: "string \<Rightarrow> string option" where
  "space_at s = List.find (\<lambda>p. take (length p) s = p) space_runes"

fun fields_from :: "string \<Rightarrow> string \<Rightarrow> string list" where
  "fields_from cur [] = (if cur = [] then [] else [cur])"
| "fields_from cur (c # cs) = (case space_at (c # cs) of
     Some p \<Rightarrow> (if cur = [] then [] else [cur]) @ fields_from [] (drop (length p - 1) cs)
   | None \<Rightarrow> fields_from (cur @ [c]) cs)"

definition Fields :: "string \<Rightarrow> string list" where
  "Fields s = fields_from [] s"

fun JoinSpace :: "string list \<Rightarrow> string" where
  "JoinSpace [] = []"
| "JoinSpace [x] = x"
| "JoinSpace (x # y # ys) = x @ CHR 0x20 # JoinSpace (y # ys)"

definition hasScope :: "string \<Rightarrow> string \<Rightarrow> bool" where
  "hasScope scope want \<longleftrightarrow> want \<in> set (Fields scope)"

fun permitted_once :: "string list \<Rightarrow> string list \<Rightarrow> string list \<Rightarrow> string list" where
  "permitted_once permitted seen [] = []"
| "permitted_once permitted seen (s # ss) = (if s \<in> set permitted \<and> s \<notin> set seen then s # permitted_once permitted (s # seen) ss else permitted_once permitted seen ss)"

definition GrantedScope :: "(world \<Rightarrow> world) \<Rightarrow> string \<Rightarrow> string \<Rightarrow> string run" where
  "GrantedScope other clientID requested =
     seqr (call other (reading (\<lambda>now. GetOAuthClientByID clientID))) (\<lambda>c. case c of
       None \<Rightarrow> refuse UnknownClient
     | Some client \<Rightarrow>
        (let granted = permitted_once (map TrimSpace (oc_allowed_scopes client)) [] (Fields requested)
         in if granted = [] then refuse NoScopePermitted else ret (JoinSpace granted)))"

section \<open>What the engine is given\<close>

text \<open>
  Outside code: \<open>cx_sha\<close> is the hex SHA-256, \<open>cx_challenge\<close> its unpadded base64url form, \<open>cx_sign typ claims\<close> an
  RS256 signature under the server's key, \<open>cx_parse expired issuer now token\<close> the claims of a token the JWT library
  accepts (with its expiry and issuer checked unless \<open>expired\<close> tolerates them), \<open>cx_size\<close> the length of a JSON text.
\<close>

type_synonym claims = "(string \<times> json) list"

record engine =
  cx_issuer :: string
  cx_sha :: "string \<Rightarrow> string"
  cx_challenge :: "string \<Rightarrow> string"
  cx_sign :: "string \<Rightarrow> claims \<Rightarrow> string"
  cx_parse :: "bool \<Rightarrow> string \<Rightarrow> time \<Rightarrow> string \<Rightarrow> claims option"
  cx_size :: "claims \<Rightarrow> nat"

definition set_claim :: "string \<Rightarrow> json \<Rightarrow> claims \<Rightarrow> claims" where
  "set_claim k v cs = filter (\<lambda>(k', _). k' \<noteq> k) cs @ [(k, v)]"

definition claim_string :: "claims \<Rightarrow> string \<Rightarrow> string" where
  "claim_string cs k = (case map_of cs k of Some (JStr s) \<Rightarrow> s | _ \<Rightarrow> '''')"

definition SignJWT :: "engine \<Rightarrow> claims \<Rightarrow> string" where
  "SignJWT cx cs = cx_sign cx ''JWT'' cs"

definition verifyJWT :: "engine \<Rightarrow> string \<Rightarrow> string \<Rightarrow> string \<Rightarrow> bool \<Rightarrow> time \<Rightarrow> claims option" where
  "verifyJWT cx token issuer tokenUse allowExpired now =
     (if issuer = '''' \<or> tokenUse = '''' then None
      else case cx_parse cx allowExpired issuer now token of
             None \<Rightarrow> None
           | Some cs \<Rightarrow>
               (case map_of cs ''exp'' of
                  Some (JNum _) \<Rightarrow> if map_of cs ''iss'' = Some (JStr issuer) \<and> map_of cs ''token_use'' = Some (JStr tokenUse) then Some cs else None
                | _ \<Rightarrow> None))"

definition VerifyJWT :: "engine \<Rightarrow> string \<Rightarrow> string \<Rightarrow> string \<Rightarrow> time \<Rightarrow> claims option" where
  "VerifyJWT cx token issuer tokenUse now = verifyJWT cx token issuer tokenUse False now"

definition VerifyExpiredJWT :: "engine \<Rightarrow> string \<Rightarrow> string \<Rightarrow> string \<Rightarrow> time \<Rightarrow> claims option" where
  "VerifyExpiredJWT cx token issuer tokenUse now = verifyJWT cx token issuer tokenUse True now"

definition ValidatePKCE :: "engine \<Rightarrow> string \<Rightarrow> string \<Rightarrow> string \<Rightarrow> bool" where
  "ValidatePKCE cx verifier challenge meth \<longleftrightarrow> meth = ''S256'' \<and> verifier \<noteq> '''' \<and> challenge \<noteq> '''' \<and> cx_challenge cx verifier = challenge"

definition registeredExactly :: "string list \<Rightarrow> string \<Rightarrow> bool" where
  "registeredExactly registered uri \<longleftrightarrow> uri \<noteq> '''' \<and> (\<exists>c \<in> set registered. TrimSpace c \<noteq> '''' \<and> TrimSpace c = uri)"

definition ValidateRedirectURI :: "oauth_client option \<Rightarrow> string \<Rightarrow> bool" where
  "ValidateRedirectURI client uri = (case client of None \<Rightarrow> False | Some c \<Rightarrow> registeredExactly (oc_redirect_uris c) uri)"

definition ValidatePostLogoutRedirectURI :: "oauth_client option \<Rightarrow> string \<Rightarrow> bool" where
  "ValidatePostLogoutRedirectURI client uri = (case client of None \<Rightarrow> False | Some c \<Rightarrow> registeredExactly (oc_post_logout_redirect_uris c) uri)"

definition authenticateClient :: "engine \<Rightarrow> oauth_client \<Rightarrow> string \<Rightarrow> oauth_err option" where
  "authenticateClient cx client secret =
     (case oc_client_type client of
        Confidential \<Rightarrow> if oc_client_secret_hash client = '''' then Some SecretMissing
          else if cx_sha cx secret \<noteq> oc_client_secret_hash client then Some SecretWrong else None
      | Public \<Rightarrow> None)"

definition accept_client :: "engine \<Rightarrow> oauth_client \<Rightarrow> string \<Rightarrow> unit run" where
  "accept_client cx client secret = (case authenticateClient cx client secret of None \<Rightarrow> ret () | Some e \<Rightarrow> refuse e)"

definition AuthenticateConfidentialClient :: "(world \<Rightarrow> world) \<Rightarrow> engine \<Rightarrow> string \<Rightarrow> string \<Rightarrow> oauth_client run" where
  "AuthenticateConfidentialClient other cx clientID secret =
     seqr (call other (reading (\<lambda>now. GetOAuthClientByID clientID))) (\<lambda>c. case c of
       None \<Rightarrow> refuse ErrInvalidClient
     | Some client \<Rightarrow> if \<not> oc_enabled client \<or> oc_client_type client \<noteq> Confidential \<or> authenticateClient cx client secret \<noteq> None
         then refuse ErrInvalidClient else ret client)"

section \<open>What a client asks of the sign-in\<close>

definition PasswordACR :: string where
  "PasswordACR = ''urn:kysignon:acr:password''"

definition MFAACR :: string where
  "MFAACR = ''urn:kysignon:acr:mfa''"

record authentication_request =
  an_fresh :: bool
  an_silent :: bool
  an_max_age :: "int option"
  an_acr :: string
  an_policy :: auth_policy

definition no_app_policy :: auth_policy where
  "no_app_policy = \<lparr>ap_mode = '''', ap_primary_max_age = 0, ap_factor = '''', ap_factor_max_age = 0, ap_refresh_idle = 0, ap_refresh_lifetime = 0\<rparr>"

definition plain_request :: authentication_request where
  "plain_request = \<lparr>an_fresh = False, an_silent = False, an_max_age = None, an_acr = '''', an_policy = no_app_policy\<rparr>"

definition digit_value :: "char \<Rightarrow> int" where
  "digit_value c = int (of_char c) - 48"

definition decimal :: "string \<Rightarrow> int" where
  "decimal s = foldl (\<lambda>n c. 10 * n + digit_value c) 0 s"

text \<open>The three parameters read in turn; \<open>None\<close> is the one error the parser gives.\<close>

definition parse_prompt :: "string option \<Rightarrow> authentication_request \<Rightarrow> authentication_request option" where
  "parse_prompt v p = (case v of None \<Rightarrow> Some p
     | Some s \<Rightarrow> if s = ''none'' then Some (p\<lparr>an_silent := True\<rparr>) else if s = ''login'' then Some (p\<lparr>an_fresh := True\<rparr>) else None)"

definition parse_max_age :: "string option \<Rightarrow> authentication_request \<Rightarrow> authentication_request option" where
  "parse_max_age v p = (case v of None \<Rightarrow> Some p
     | Some s \<Rightarrow> if s = '''' \<or> \<not> list_all (byte_in 0x30 0x39) s \<or> decimal s > 2147483647 then None
                 else if decimal s = 0 then Some (p\<lparr>an_fresh := True\<rparr>) else Some (p\<lparr>an_max_age := Some (decimal s)\<rparr>))"

definition parse_acr :: "string option \<Rightarrow> authentication_request \<Rightarrow> authentication_request option" where
  "parse_acr v p = (case v of None \<Rightarrow> Some p
     | Some s \<Rightarrow> (case Fields s of [] \<Rightarrow> None
         | c # cs \<Rightarrow> if list_all (\<lambda>x. x = PasswordACR \<or> x = MFAACR) (c # cs) then Some (p\<lparr>an_acr := c\<rparr>) else None))"

definition ParseAuthenticationRequest :: "url_values \<Rightarrow> authentication_request option" where
  "ParseAuthenticationRequest q =
     (if \<not> list_all (\<lambda>(k, vs). length vs = 1) q then None
      else let one = (\<lambda>k. map_option hd (map_of q k))
           in case parse_prompt (one ''prompt'') plain_request of None \<Rightarrow> None | Some p1 \<Rightarrow>
             (case parse_max_age (one ''max_age'') p1 of None \<Rightarrow> None | Some p2 \<Rightarrow>
             (case parse_acr (one ''acr_values'') p2 of None \<Rightarrow> None | Some p3 \<Rightarrow>
             if map_of q ''request'' \<noteq> None \<or> map_of q ''request_uri'' \<noteq> None \<or> map_of q ''claims'' \<noteq> None then None else Some p3)))"

definition WithAppPolicy :: "auth_policy \<Rightarrow> authentication_request \<Rightarrow> authentication_request" where
  "WithAppPolicy policy p = p\<lparr>an_policy := policy, an_fresh := an_fresh p \<or> ap_mode policy = ''fresh''\<rparr>"

definition Satisfied :: "authentication_request \<Rightarrow> evidence \<Rightarrow> time \<Rightarrow> bool" where
  "Satisfied p e now =
     (if ap_mode (an_policy p) \<noteq> '''' \<and> EvidenceReason (an_policy p) e now \<noteq> '''' then False
      else if an_fresh p then False
      else if (an_max_age p \<noteq> None \<or> an_acr p \<noteq> '''') \<and> \<not> proven_by (ev_primary_at e) now then False
      else if (case (an_max_age p, ev_primary_at e) of (Some age, Some t) \<Rightarrow> t < now + wrap64 (- age * second) | _ \<Rightarrow> False) then False
      else if an_acr p = MFAACR \<and> (\<not> proven_by (ev_factor_at e) now \<or> ev_factor_method e \<notin> {''totp'', ''push'', ''webauthn''}) then False
      else True)"

section \<open>Codes\<close>

definition AccessTokenTTL :: duration where
  "AccessTokenTTL = 15 * minute"

definition AuthorizationCodeTTL :: duration where
  "AuthorizationCodeTTL = 60 * second"

text \<open>The row an authorization becomes; registering it stamps the app's policy and revisions on it.\<close>

definition new_code :: "string \<Rightarrow> string \<Rightarrow> string \<Rightarrow> session \<Rightarrow> string \<Rightarrow> string \<Rightarrow> string \<Rightarrow> string \<Rightarrow> string \<Rightarrow> int option \<Rightarrow> time \<Rightarrow> auth_code" where
  "new_code i codeHash clientID session redirectURI scope challenge meth nonce maxAge now =
     \<lparr>ac_id = i, ac_code_hash = codeHash, ac_client_id = clientID, ac_user_id = ses_user_id session, ac_redirect_uri = redirectURI,
      ac_scope = scope, ac_code_challenge = challenge, ac_code_challenge_method = meth, ac_nonce = nonce, ac_expires_at = now + AuthorizationCodeTTL,
      ac_used_at = None, ac_created_at = now, ac_session_id = ses_id session, ac_evidence = ses_evidence session,
      ac_authentication_expires_at = (case (maxAge, ev_primary_at (ses_evidence session)) of
        (Some age, Some t) \<Rightarrow> Some (t + wrap64 (age * second)) | _ \<Rightarrow> None),
      ac_auth_app_id = '''', ac_auth_policy_revision = 0, ac_role_revision = 0\<rparr>"

definition CreateAuthorizationCodeForInteraction ::
    "(world \<Rightarrow> world) \<Rightarrow> engine \<Rightarrow> string \<Rightarrow> string \<Rightarrow> string \<Rightarrow> string \<Rightarrow> string \<Rightarrow> string \<Rightarrow> string \<Rightarrow> authentication_request \<Rightarrow> string \<Rightarrow> string run" where
  "CreateAuthorizationCodeForInteraction other cx clientID sessionID redirectURI scope challenge meth nonce requirements interactionHash =
     seqr (call other (reading (\<lambda>now. GetOAuthClientByID clientID))) (\<lambda>c.
     seqr (demand (case c of None \<Rightarrow> False | Some client \<Rightarrow> oc_enabled client) InvalidClient) (\<lambda>_.
     seqr (demand (challenge \<noteq> '''' \<and> meth = ''S256'') PKCERequired) (\<lambda>_.
     seqr (call other (reading (GetSessionByID sessionID))) (\<lambda>os. case os of
       None \<Rightarrow> refuse NoActiveSession
     | Some session \<Rightarrow>
        seqr (call other (querying (\<lambda>now. ClientAuthenticationPolicyBinding clientID))) (\<lambda>(policy, _).
        seqr clock (\<lambda>now.
        let r1 = WithAppPolicy policy requirements;
            r2 = (if interactionHash \<noteq> '''' then r1\<lparr>an_fresh := False\<rparr> else r1)
        in seqr (demand (Satisfied r2 (ses_evidence session) now) (Store ErrAppAuthentication)) (\<lambda>_.
           seqr draw (\<lambda>rawCode. seqr draw (\<lambda>i.
           seqr (call other (writing (CreateAuthorizationCode
             (new_code i (cx_sha cx rawCode) clientID session redirectURI scope challenge meth nonce (an_max_age r2) now) interactionHash))) (\<lambda>_.
           ret rawCode))))))))))"

definition CreateAuthorizationCodeWithNonce :: "(world \<Rightarrow> world) \<Rightarrow> engine \<Rightarrow> string \<Rightarrow> string \<Rightarrow> string \<Rightarrow> string \<Rightarrow> string \<Rightarrow> string \<Rightarrow> string \<Rightarrow> string run" where
  "CreateAuthorizationCodeWithNonce other cx clientID sessionID redirectURI scope challenge meth nonce =
     CreateAuthorizationCodeForInteraction other cx clientID sessionID redirectURI scope challenge meth nonce plain_request ''''"

section \<open>Claims\<close>

definition MaxIdentityClaimBytes :: nat where
  "MaxIdentityClaimBytes = 4096"

definition identity_claims_of :: "user \<Rightarrow> string \<Rightarrow> app_claims \<Rightarrow> claims" where
  "identity_claims_of u scope app =
     [(''sub'', JStr (usr_id u))] @
     (if hasScope scope ''profile'' then [(''username'', JStr (usr_username u)), (''preferred_username'', JStr (usr_username u)), (''name'', JStr (usr_display_name u))] else []) @
     (if hasScope scope ''email'' then [(''email'', JStr (usr_email u)), (''email_verified'', JBool (usr_email_verified_at u \<noteq> None))] else []) @
     [(''roles'', JArr (map JStr (cl_roles app)))] @
     (if cl_groups_claim app then [(''groups'', JArr (map JStr (cl_groups app)))] else []) @
     (if cl_legacy_role app then [(''role'', JStr (role_name (usr_role u)))] else [])"

definition identityClaims :: "(world \<Rightarrow> world) \<Rightarrow> engine \<Rightarrow> user \<Rightarrow> string \<Rightarrow> string \<Rightarrow> claims run" where
  "identityClaims other cx u clientID scope =
     seqr (call other (querying (UserAppClaims (usr_id u) clientID))) (\<lambda>app.
     let cs = identity_claims_of u scope app
     in if cx_size cx cs > MaxIdentityClaimBytes then refuse ErrClaimsTooLarge else ret cs)"

definition addAuthenticationClaims :: "evidence \<Rightarrow> claims \<Rightarrow> claims" where
  "addAuthenticationClaims e cs =
     (case ev_primary_at e of
        None \<Rightarrow> cs
      | Some t \<Rightarrow>
         (let m = ev_factor_method e; proven = (ev_factor_at e \<noteq> None);
              methods = [''pwd''] @
                (if proven \<and> m = ''totp'' then [''otp'', ''mfa''] else if proven \<and> (m = ''push'' \<or> m = ''webauthn'') then [''urn:kysignon:amr:'' @ m, ''mfa'']
                 else if proven \<and> m = ''recovery'' then [''urn:kysignon:amr:recovery''] else []);
              context = (if proven \<and> (m = ''totp'' \<or> m = ''push'' \<or> m = ''webauthn'') then MFAACR
                 else if proven \<and> m = ''recovery'' then ''urn:kysignon:acr:recovery'' else PasswordACR)
          in set_claim ''acr'' (JStr context) (set_claim ''amr'' (JArr (map JStr methods)) (set_claim ''auth_time'' (JNum (unixepoch t)) cs))))"

text \<open>\<open>int(d.Seconds())\<close>, which truncates towards zero.\<close>

definition whole_seconds :: "duration \<Rightarrow> int" where
  "whole_seconds d = sgn d * (\<bar>d\<bar> div second)"

record token_response =
  tp_access_token :: string
  tp_token_type :: string
  tp_expires_in :: int
  tp_id_token :: string
  tp_refresh_token :: string
  tp_scope :: string

definition access_claims :: "engine \<Rightarrow> string \<Rightarrow> string \<Rightarrow> string \<Rightarrow> string \<Rightarrow> time \<Rightarrow> time \<Rightarrow> claims" where
  "access_claims cx userID clientID scope jti exp now =
     [(''iss'', JStr (cx_issuer cx)), (''sub'', JStr userID), (''aud'', JStr clientID), (''exp'', JNum (unixepoch exp)), (''iat'', JNum (unixepoch now)),
      (''jti'', JStr jti), (''scope'', JStr scope), (''token_use'', JStr ''access_token'')]"

definition id_claims :: "engine \<Rightarrow> string \<Rightarrow> string \<Rightarrow> string \<Rightarrow> time \<Rightarrow> time \<Rightarrow> claims \<Rightarrow> claims" where
  "id_claims cx sid clientID jti exp now cs =
     set_claim ''token_use'' (JStr ''id_token'') (set_claim ''jti'' (JStr jti) (set_claim ''iat'' (JNum (unixepoch now)) (set_claim ''exp'' (JNum (unixepoch exp))
     (set_claim ''aud'' (JStr clientID) (set_claim ''iss'' (JStr (cx_issuer cx)) (set_claim ''sid'' (JStr sid) cs))))))"

definition tokenResponse ::
    "(world \<Rightarrow> world) \<Rightarrow> engine \<Rightarrow> user \<Rightarrow> string \<Rightarrow> string \<Rightarrow> string \<Rightarrow> evidence \<Rightarrow> string \<Rightarrow> string \<Rightarrow> time \<Rightarrow> time \<Rightarrow> token_response run" where
  "tokenResponse other cx u clientID sessionID scope e nonce accessJTI exp now =
     seqr (if hasScope scope ''openid'' then
             seqr (call other (updating (EnsureClientSession clientID sessionID (usr_id u)))) (\<lambda>sid.
             seqr (identityClaims other cx u clientID scope) (\<lambda>cs.
             seqr draw (\<lambda>jti.
             let cs1 = addAuthenticationClaims e (id_claims cx sid clientID jti exp now cs);
                 cs2 = (if nonce \<noteq> '''' then set_claim ''nonce'' (JStr nonce) cs1 else cs1)
             in ret (SignJWT cx cs2))))
           else ret '''') (\<lambda>idToken.
     ret \<lparr>tp_access_token = SignJWT cx (access_claims cx (usr_id u) clientID scope accessJTI exp now), tp_token_type = ''Bearer'',
          tp_expires_in = whole_seconds (exp - now), tp_id_token = idToken, tp_refresh_token = '''', tp_scope = scope\<rparr>)"

section \<open>Exchanging a code\<close>

definition earlier :: "time option \<Rightarrow> time \<Rightarrow> time" where
  "earlier limit t = (case limit of None \<Rightarrow> t | Some x \<Rightarrow> if x < t then x else t)"

definition newRefreshFamily :: "(world \<Rightarrow> world) \<Rightarrow> auth_code \<Rightarrow> auth_policy \<Rightarrow> time \<Rightarrow> refresh_family run" where
  "newRefreshFamily other code policy now =
     seqr (call other (reading (GetSessionByID (ac_session_id code)))) (\<lambda>os. case os of
       None \<Rightarrow> refuse NoActiveSession
     | Some session \<Rightarrow>
        seqr (call other (reading (AccessEndsAt (ac_user_id code) (ac_client_id code)))) (\<lambda>until.
        seqr draw (\<lambda>jti.
        ret \<lparr>fam_jti = jti, fam_user_id = ac_user_id code, fam_client_id = ac_client_id code, fam_session_id = ac_session_id code, fam_scope = ac_scope code,
          fam_evidence = ac_evidence code,
          fam_policy = \<lparr>pb_app_id = ac_auth_app_id code, pb_auth_revision = ac_auth_policy_revision code, pb_role_revision = ac_role_revision code\<rparr>,
          fam_idle = wrap64 (ap_refresh_idle policy * second),
          fam_expires_at = earlier until (earlier (ac_authentication_expires_at code) (earlier (Some (ses_expires_at session))
            (now + wrap64 (ap_refresh_lifetime policy * second))))\<rparr>)))"

text \<open>The checks of an exchange, up to and including the spending of the code.\<close>

definition redeem_code :: "(world \<Rightarrow> world) \<Rightarrow> engine \<Rightarrow> string \<Rightarrow> string \<Rightarrow> string \<Rightarrow> string \<Rightarrow> string \<Rightarrow> (auth_code \<times> oauth_client) run" where
  "redeem_code other cx codeStr clientID clientSecret redirectURI codeVerifier =
     seqr (call other (reading (GetValidAuthorizationCode (cx_sha cx codeStr)))) (\<lambda>oc. case oc of
       None \<Rightarrow> refuse CodeInvalid
     | Some code \<Rightarrow>
        seqr (demand (ac_client_id code = clientID) ClientMismatch) (\<lambda>_.
        seqr (call other (reading (\<lambda>now. GetOAuthClientByID clientID))) (\<lambda>ocl. case ocl of
          None \<Rightarrow> refuse InvalidClient
        | Some client \<Rightarrow>
           seqr (demand (oc_enabled client) InvalidClient) (\<lambda>_.
           seqr (accept_client cx client clientSecret) (\<lambda>_.
           seqr (demand (ac_redirect_uri code = redirectURI) RedirectMismatch) (\<lambda>_.
           seqr (demand (ValidatePKCE cx codeVerifier (ac_code_challenge code) (ac_code_challenge_method code)) PKCEInvalid) (\<lambda>_.
           seqr (call other (\<lambda>now d. case ConsumeAuthorizationCode (ac_id code) now d of (ok, d') \<Rightarrow> (Inr ok, d'))) (\<lambda>spent.
           seqr (demand spent CodeSpent) (\<lambda>_.
           ret (code, client))))))))))"

definition active_user :: "(world \<Rightarrow> world) \<Rightarrow> string \<Rightarrow> user run" where
  "active_user other userID =
     seqr (call other (reading (GetUserByID userID))) (\<lambda>ou. case ou of
       None \<Rightarrow> refuse UserInactive | Some u \<Rightarrow> seqr (demand (usr_status u = Active) UserInactive) (\<lambda>_. ret u))"

definition code_token :: "auth_code \<Rightarrow> string \<Rightarrow> string \<Rightarrow> string \<Rightarrow> string \<Rightarrow> time \<Rightarrow> token_request" where
  "code_token code userID clientID jti family exp =
     \<lparr>tr_code_id = ac_id code, tr_policy = no_policy, tr_device = no_device, tr_family_jti = family, tr_session_id = ac_session_id code,
      tr_jti = jti, tr_user_id = userID, tr_client_id = clientID, tr_expires_at = exp\<rparr>"

text \<open>What follows the spending: the access token, the answer and, where the app wants one, a refresh family.\<close>

definition issue_for_code :: "(world \<Rightarrow> world) \<Rightarrow> engine \<Rightarrow> string \<Rightarrow> auth_code \<Rightarrow> oauth_client \<Rightarrow> token_response run" where
  "issue_for_code other cx clientID code client =
     seqr (active_user other (ac_user_id code)) (\<lambda>u.
     seqr clock (\<lambda>now.
     seqr (call other (reading (AccessEndsAt (usr_id u) clientID))) (\<lambda>until.
     let exp = earlier until (now + AccessTokenTTL)
     in seqr draw (\<lambda>accessJTI.
     seqr (call other (querying (\<lambda>now. ClientAuthenticationPolicyBinding clientID))) (\<lambda>(policy, _).
     seqr (if RefreshEnabled policy \<and> oc_client_type client = Confidential
           then seqr (newRefreshFamily other code policy now) (\<lambda>f. ret (Some f)) else ret None) (\<lambda>family.
     seqr (call other (writing (RecordIssuedToken
       (code_token code (usr_id u) clientID accessJTI (case family of None \<Rightarrow> '''' | Some f \<Rightarrow> fam_jti f) exp)))) (\<lambda>_.
     seqr (tokenResponse other cx u clientID (ac_session_id code) (ac_scope code) (ac_evidence code) (ac_nonce code) accessJTI exp now) (\<lambda>resp.
     case family of
       None \<Rightarrow> ret resp
     | Some f \<Rightarrow>
        seqr draw (\<lambda>raw.
        seqr (call other (writing (CreateRefreshFamily f (ac_id code) (cx_sha cx raw)))) (\<lambda>_.
        ret (resp\<lparr>tp_refresh_token := raw\<rparr>)))))))))))"

definition ExchangeAuthorizationCode :: "(world \<Rightarrow> world) \<Rightarrow> engine \<Rightarrow> string \<Rightarrow> string \<Rightarrow> string \<Rightarrow> string \<Rightarrow> string \<Rightarrow> token_response run" where
  "ExchangeAuthorizationCode other cx codeStr clientID clientSecret redirectURI codeVerifier =
     seqr (redeem_code other cx codeStr clientID clientSecret redirectURI codeVerifier) (\<lambda>(code, client).
     issue_for_code other cx clientID code client)"

section \<open>Refreshing, reading, revoking\<close>

definition narrowed :: "string \<Rightarrow> string \<Rightarrow> string option" where
  "narrowed original scope =
     (let requested = Fields scope
      in if requested = [] then Some original else if list_all (hasScope original) requested then Some (JoinSpace requested) else None)"

definition ExchangeRefreshToken :: "(world \<Rightarrow> world) \<Rightarrow> engine \<Rightarrow> string \<Rightarrow> string \<Rightarrow> string \<Rightarrow> string \<Rightarrow> token_response run" where
  "ExchangeRefreshToken other cx raw clientID clientSecret scope =
     seqr (call other (reading (\<lambda>now. GetOAuthClientByID clientID))) (\<lambda>ocl. case ocl of
       None \<Rightarrow> refuse RefreshNeedsClient
     | Some client \<Rightarrow>
        seqr (demand (oc_enabled client \<and> oc_client_type client = Confidential) RefreshNeedsClient) (\<lambda>_.
        seqr (accept_client cx client clientSecret) (\<lambda>_.
        seqr (call other (querying (\<lambda>now. LookupRefreshFamily (cx_sha cx raw)))) (\<lambda>peek.
        case narrowed (fam_scope peek) scope of
          None \<Rightarrow> refuse ScopeExceeds
        | Some granted \<Rightarrow>
           seqr clock (\<lambda>now.
           seqr (call other (reading (AccessEndsAt (fam_user_id peek) clientID))) (\<lambda>until.
           let exp = earlier until (now + AccessTokenTTL)
           in seqr draw (\<lambda>nextRaw. seqr draw (\<lambda>jti.
              seqr (call other (RotateRefreshToken (cx_sha cx raw) clientID (cx_sha cx nextRaw)
                \<lparr>tr_code_id = '''', tr_policy = no_policy, tr_device = no_device, tr_family_jti = '''', tr_session_id = '''',
                 tr_jti = jti, tr_user_id = '''', tr_client_id = '''', tr_expires_at = exp\<rparr>)) (\<lambda>family.
              seqr (active_user other (fam_user_id family)) (\<lambda>u.
              seqr (tokenResponse other cx u clientID (fam_session_id family) granted (fam_evidence family) '''' jti (earlier (Some (fam_expires_at family)) exp) now) (\<lambda>resp.
              ret (resp\<lparr>tp_refresh_token := nextRaw\<rparr>))))))))))))"

definition verifyAccessToken :: "(world \<Rightarrow> world) \<Rightarrow> engine \<Rightarrow> string \<Rightarrow> claims run" where
  "verifyAccessToken other cx token =
     seqr clock (\<lambda>now. case VerifyJWT cx token (cx_issuer cx) ''access_token'' now of
       None \<Rightarrow> refuse TokenInvalid
     | Some cs \<Rightarrow>
        (let jti = claim_string cs ''jti''
         in seqr (demand (jti \<noteq> '''') TokenWithoutJTI) (\<lambda>_.
            seqr (call other (reading (IsTokenRevoked jti))) (\<lambda>revoked.
            seqr (demand (\<not> revoked) TokenRevoked) (\<lambda>_. ret cs)))))"

definition GetUserinfo :: "(world \<Rightarrow> world) \<Rightarrow> engine \<Rightarrow> string \<Rightarrow> claims run" where
  "GetUserinfo other cx token =
     seqr (verifyAccessToken other cx token) (\<lambda>cs.
     let sub = claim_string cs ''sub''
     in seqr (demand (sub \<noteq> '''') NoSubject) (\<lambda>_.
        seqr (active_user other sub) (\<lambda>u.
        identityClaims other cx u (claim_string cs ''aud'') (claim_string cs ''scope''))))"

definition EngineRevokeToken :: "(world \<Rightarrow> world) \<Rightarrow> engine \<Rightarrow> string \<Rightarrow> string \<Rightarrow> string \<Rightarrow> unit run" where
  "EngineRevokeToken other cx token clientID clientSecret =
     seqr (call other (reading (\<lambda>now. GetOAuthClientByID clientID))) (\<lambda>ocl. case ocl of
       None \<Rightarrow> refuse InvalidClient
     | Some client \<Rightarrow>
        seqr (demand (oc_enabled client) InvalidClient) (\<lambda>_.
        seqr (accept_client cx client clientSecret) (\<lambda>_.
        seqr clock (\<lambda>now. case VerifyJWT cx token (cx_issuer cx) ''access_token'' now of
          None \<Rightarrow> call other (writing (\<lambda>now d. Inr (RevokeRefreshFamily (cx_sha cx token) clientID now d)))
        | Some cs \<Rightarrow>
           if map_of cs ''aud'' \<noteq> Some (JStr clientID) \<or> claim_string cs ''jti'' = '''' then ret ()
           else call other (writing (\<lambda>now d. Inr (RevokeToken (claim_string cs ''jti'') now d)))))))"

record id_token_hint =
  ih_client_id :: string
  ih_subject :: string
  ih_sid :: string

definition ParseIDTokenHint :: "engine \<Rightarrow> string \<Rightarrow> time \<Rightarrow> id_token_hint option" where
  "ParseIDTokenHint cx token now =
     (case VerifyExpiredJWT cx token (cx_issuer cx) ''id_token'' now of
        None \<Rightarrow> None
      | Some cs \<Rightarrow> if claim_string cs ''aud'' = '''' \<or> claim_string cs ''sub'' = '''' then None
          else Some \<lparr>ih_client_id = claim_string cs ''aud'', ih_subject = claim_string cs ''sub'', ih_sid = claim_string cs ''sid''\<rparr>)"

section \<open>Scopes as sets\<close>

lemma space_at_in: "space_at s = Some p \<Longrightarrow> p \<in> set space_runes \<and> take (length p) s = p"
  unfolding space_at_def by (auto dest: find_SomeD)

lemma space_at_None_iff: "space_at s = None \<longleftrightarrow> (\<forall>p \<in> set space_runes. take (length p) s \<noteq> p)"
  unfolding space_at_def by (simp add: find_None_iff2)

lemma blank_alone: "p \<in> set space_runes \<Longrightarrow> p \<noteq> [] \<and> CHR 0x20 \<notin> set (tl p)"
  by (auto simp: space_runes_def)

lemma space_at_blank: "space_at (CHR 0x20 # t) = Some [CHR 0x20]"
  by (simp add: space_at_def space_runes_def)

text \<open>A space that begins before a blank ends before it.\<close>

lemma space_before_blank:
  assumes "space_at (g @ CHR 0x20 # t) \<noteq> None" "g \<noteq> []"
  shows "space_at (g @ u) \<noteq> None"
proof -
  from assms(1) obtain p where p: "p \<in> set space_runes" "take (length p) (g @ CHR 0x20 # t) = p" unfolding space_at_None_iff by blast
  have "length p \<le> length g"
  proof (rule ccontr)
    assume "\<not> length p \<le> length g"
    then have l: "length g < length p" by simp
    then have "p ! length g = CHR 0x20" using p(2) by (metis nth_append_length nth_take)
    moreover have "p ! length g = tl p ! (length g - 1)" using assms(2) l by (cases p; cases g) auto
    moreover have "length g - 1 < length (tl p)" using l assms(2) by (cases g) auto
    ultimately show False using blank_alone[OF p(1)] nth_mem by metis
  qed
  then have "take (length p) (g @ u) = p" using p(2) by simp
  then show ?thesis using p(1) unfolding space_at_None_iff by blast
qed

definition field_like :: "string \<Rightarrow> bool" where
  "field_like f \<longleftrightarrow> f \<noteq> [] \<and> (\<forall>k < length f. \<forall>t. space_at (drop k f @ CHR 0x20 # t) = None)"

lemma field_likeI:
  assumes "f \<noteq> []" "\<forall>k < length f. space_at (drop k f @ s) = None"
  shows "field_like f"
  unfolding field_like_def
proof (intro conjI allI impI)
  fix k t
  assume "k < length f"
  then have "drop k f \<noteq> []" "space_at (drop k f @ s) = None" using assms(2) by auto
  then show "space_at (drop k f @ CHR 0x20 # t) = None" using space_before_blank[of "drop k f" t s] by blast
qed (rule assms(1))

lemma fields_from_like:
  assumes "\<forall>k < length cur. space_at (drop k cur @ s) = None" "x \<in> set (fields_from cur s)"
  shows "field_like x"
  using assms
proof (induction cur s rule: fields_from.induct)
  case (1 cur)
  then show ?case using field_likeI[of cur "[]"] by (auto split: if_splits)
next
  case (2 cur c cs)
  show ?case
  proof (cases "space_at (c # cs)")
    case None
    have "\<forall>k < length (cur @ [c]). space_at (drop k (cur @ [c]) @ cs) = None"
    proof (intro allI impI)
      fix k
      assume "k < length (cur @ [c])"
      then show "space_at (drop k (cur @ [c]) @ cs) = None" using 2(3) None by (cases "k = length cur") auto
    qed
    with 2(1)[OF None] 2(4) None show ?thesis by simp
  next
    case (Some p)
    with 2(4) have "x \<in> set (fields_from [] (drop (length p - 1) cs)) \<or> cur \<noteq> [] \<and> x = cur" by (auto split: if_splits)
    with 2(2)[OF Some] field_likeI[of cur "c # cs"] 2(3) show ?thesis by auto
  qed
qed

lemma Fields_like: "x \<in> set (Fields s) \<Longrightarrow> field_like x"
  unfolding Fields_def by (rule fields_from_like[rotated]) auto

lemma fields_from_blank:
  assumes "\<forall>k < length f. \<forall>t. space_at (drop k f @ CHR 0x20 # t) = None" "cur @ f \<noteq> []"
  shows "fields_from cur (f @ CHR 0x20 # t) = (cur @ f) # fields_from [] t"
  using assms
proof (induction f arbitrary: cur)
  case Nil
  then show ?case by (simp add: space_at_blank)
next
  case (Cons c f)
  have "space_at (c # f @ CHR 0x20 # t) = None" using Cons.prems(1) by force
  moreover have "\<forall>k < length f. \<forall>t. space_at (drop k f @ CHR 0x20 # t) = None" using Cons.prems(1) by force
  ultimately show ?case using Cons.IH[of "cur @ [c]"] by simp
qed

lemma fields_from_end:
  assumes "\<forall>k < length f. \<forall>t. space_at (drop k f @ CHR 0x20 # t) = None" "cur @ f \<noteq> []"
  shows "fields_from cur f = [cur @ f]"
  using assms
proof (induction f arbitrary: cur)
  case (Cons c f)
  have "space_at (c # f) = None"
  proof (rule ccontr)
    assume "space_at (c # f) \<noteq> None"
    then obtain p where p: "p \<in> set space_runes" "take (length p) (c # f) = p" unfolding space_at_None_iff by blast
    then have "length p \<le> length (c # f)" by (metis length_take min.cobounded1)
    then have "take (length p) ((c # f) @ [CHR 0x20]) = p" using p(2) by (metis append_Nil2 diff_is_0_eq' take0 take_append)
    then have "space_at ((c # f) @ [CHR 0x20]) \<noteq> None" using p(1) unfolding space_at_None_iff by blast
    moreover have "space_at ((c # f) @ [CHR 0x20]) = None" using Cons.prems(1) by force
    ultimately show False by simp
  qed
  moreover have "\<forall>k < length f. \<forall>t. space_at (drop k f @ CHR 0x20 # t) = None" using Cons.prems(1) by force
  ultimately show ?case using Cons.IH[of "cur @ [c]"] by simp
qed simp

lemma Fields_JoinSpace: "list_all field_like fs \<Longrightarrow> Fields (JoinSpace fs) = fs"
proof (induction fs rule: JoinSpace.induct)
  case (2 x)
  then show ?case using fields_from_end[of x "[]"] by (simp add: Fields_def field_like_def)
next
  case (3 x y ys)
  then have "fields_from [] (x @ CHR 0x20 # JoinSpace (y # ys)) = x # fields_from [] (JoinSpace (y # ys))"
    using fields_from_blank[of x "[]"] by (simp add: field_like_def)
  with 3 show ?case by (simp add: Fields_def)
qed (simp add: Fields_def)

lemma permitted_once_set:
  "set (permitted_once permitted seen ss) = (set ss \<inter> set permitted) - set seen \<and> distinct (permitted_once permitted seen ss)"
  by (induction permitted seen ss rule: permitted_once.induct) auto

text \<open>
  C11. A grant is exactly what was asked for and allowed: the scopes in the granted string are those of the request that
  the client's registration lists, each once, and there is at least one; a client that may have none of them is refused.
\<close>

theorem granted_scope_exact:
  assumes "GrantedScope other clientID requested w = (Inr granted, w')"
  shows "\<exists>client \<in> set (oauth_clients (w_db (other w))). oc_id client = clientID \<and>
    set (Fields granted) = set (Fields requested) \<inter> TrimSpace ` set (oc_allowed_scopes client) \<and> distinct (Fields granted) \<and> Fields granted \<noteq> []"
proof -
  from assms obtain client where c: "GetOAuthClientByID clientID (w_db (other w)) = Some client"
    and g: "permitted_once (map TrimSpace (oc_allowed_scopes client)) [] (Fields requested) \<noteq> []"
      "granted = JoinSpace (permitted_once (map TrimSpace (oc_allowed_scopes client)) [] (Fields requested))"
    by (auto simp: GrantedScope_def run_iffs Let_def split: option.splits if_splits)
  let ?gs = "permitted_once (map TrimSpace (oc_allowed_scopes client)) [] (Fields requested)"
  have set: "set ?gs = set (Fields requested) \<inter> TrimSpace ` set (oc_allowed_scopes client)" "distinct ?gs"
    using permitted_once_set[of "map TrimSpace (oc_allowed_scopes client)" "[]" "Fields requested"] by auto
  then have "list_all field_like ?gs" using Fields_like by (auto simp: list_all_iff)
  then have "Fields granted = ?gs" using Fields_JoinSpace g(2) by simp
  moreover from c have "client \<in> set (oauth_clients (w_db (other w)))" "oc_id client = clientID" by (auto simp: GetOAuthClientByID_def dest: find_SomeD)
  ultimately show ?thesis using set g(1) by auto
qed

section \<open>What a run keeps\<close>

definition keeps :: "(world \<Rightarrow> bool) \<Rightarrow> 'a run \<Rightarrow> bool" where
  "keeps P m \<longleftrightarrow> (\<forall>w. P w \<longrightarrow> P (snd (m w)))"

lemma keepsD: "keeps P m \<Longrightarrow> m w = (r, w') \<Longrightarrow> P w \<Longrightarrow> P w'"
  unfolding keeps_def by (metis snd_conv)

lemma keeps_basic [simp, intro]: "keeps P (ret x)" "keeps P (refuse e)" "keeps P (demand b e)" "keeps P clock"
  by (simp_all add: keeps_def ret_def refuse_def demand_def clock_def)

lemma keeps_seqr [intro]: "keeps P m \<Longrightarrow> (\<And>x. keeps P (f x)) \<Longrightarrow> keeps P (seqr m f)"
  unfolding keeps_def seqr_def by (auto split: prod.splits sum.splits)

lemma keeps_draw [intro]: "(\<And>w p. P w \<Longrightarrow> P (w\<lparr>w_db := (w_db w)\<lparr>rand_pos := p\<rparr>\<rparr>)) \<Longrightarrow> keeps P draw"
  by (simp add: keeps_def draw_def fresh_id_def)

lemma keeps_call: "(\<And>w. P w \<Longrightarrow> P (other w)) \<Longrightarrow> (\<And>w r d. P w \<Longrightarrow> f (w_now w) (w_db w) = (r, d) \<Longrightarrow> P (w\<lparr>w_db := d\<rparr>)) \<Longrightarrow> keeps P (call other f)"
  unfolding keeps_def call_def Let_def by (auto split: prod.splits sum.splits)

lemma keeps_reads:
  assumes "\<And>w. P w \<Longrightarrow> P (other w)"
  shows "keeps P (call other (reading f))" "keeps P (call other (querying g))"
  using assms by (auto simp: reading_def querying_def intro!: keeps_call)

lemma keeps_writes:
  assumes "\<And>w. P w \<Longrightarrow> P (other w)" "\<And>w d'. P w \<Longrightarrow> f (w_now w) (w_db w) = Inr d' \<Longrightarrow> P (w\<lparr>w_db := d'\<rparr>)"
  shows "keeps P (call other (writing f))"
  using assms by (auto simp: writing_def intro!: keeps_call split: sum.splits)

lemma keeps_updates:
  assumes "\<And>w. P w \<Longrightarrow> P (other w)" "\<And>w x d'. P w \<Longrightarrow> f (w_now w) (w_db w) = Inr (x, d') \<Longrightarrow> P (w\<lparr>w_db := d'\<rparr>)"
  shows "keeps P (call other (updating f))"
  using assms by (auto simp: updating_def intro!: keeps_call split: sum.splits prod.splits)

lemma keeps_identityClaims: "(\<And>w. P w \<Longrightarrow> P (other w)) \<Longrightarrow> keeps P (identityClaims other cx u clientID scope)"
  unfolding identityClaims_def by (intro keeps_seqr keeps_reads) (simp_all add: Let_def)

lemma keeps_active_user: "(\<And>w. P w \<Longrightarrow> P (other w)) \<Longrightarrow> keeps P (active_user other i)"
  unfolding active_user_def by (intro keeps_seqr keeps_reads) (auto split: option.splits)

text \<open>A property of the code table alone survives everything an exchange does after the code is spent.\<close>

lemma EnsureClientSession_codes: "EnsureClientSession c s u now d = Inr (x, d') \<Longrightarrow> authorization_codes d' = authorization_codes d"
  by (auto simp: EnsureClientSession_def fresh_id_def Let_def split: option.splits if_splits)

lemma recordIssuedTokenTx_codes: "recordIssuedTokenTx t now d = Inr d' \<Longrightarrow> authorization_codes d' = authorization_codes d"
  by (auto simp: recordIssuedTokenTx_def andthen_Inr_iff)

lemma CreateRefreshFamily_codes: "CreateRefreshFamily f c h now d = Inr d' \<Longrightarrow> authorization_codes d' = authorization_codes d"
  by (auto simp: CreateRefreshFamily_def insertRefreshTokenTx_def Let_def andthen_Inr_iff dest!: recordIssuedTokenTx_codes)

lemma keeps_tokenResponse:
  assumes "\<And>w. P (authorization_codes (w_db w)) \<Longrightarrow> P (authorization_codes (w_db (other w)))"
  shows "keeps (\<lambda>w. P (authorization_codes (w_db w))) (tokenResponse other cx u clientID sessionID scope e nonce jti exp now)"
  unfolding tokenResponse_def Let_def
  by (intro keeps_seqr keeps_basic keeps_draw keeps_identityClaims keeps_updates if_split[where P = "keeps _", THEN iffD2] conjI impI)
     (use assms EnsureClientSession_codes in \<open>auto dest!: EnsureClientSession_codes\<close>)

lemma keeps_issue:
  assumes "\<And>w. P (authorization_codes (w_db w)) \<Longrightarrow> P (authorization_codes (w_db (other w)))"
  shows "keeps (\<lambda>w. P (authorization_codes (w_db w))) (issue_for_code other cx clientID code client)"
proof -
  let ?P = "\<lambda>w. P (authorization_codes (w_db w))"
  have fam: "keeps ?P (newRefreshFamily other code policy now)" for policy now
    unfolding newRefreshFamily_def by (intro keeps_seqr keeps_reads) (use assms in \<open>auto intro!: keeps_seqr keeps_reads keeps_draw split: option.splits\<close>)
  have rec: "keeps ?P (call other (writing (RecordIssuedToken t)))" for t
    by (intro keeps_writes) (use assms in \<open>auto simp: RecordIssuedToken_def dest!: recordIssuedTokenTx_codes\<close>)
  have cre: "keeps ?P (call other (writing (CreateRefreshFamily f c h)))" for f c h
    by (intro keeps_writes) (use assms in \<open>auto dest!: CreateRefreshFamily_codes\<close>)
  show ?thesis
    unfolding issue_for_code_def Let_def
    by (intro keeps_seqr keeps_active_user keeps_basic keeps_reads rec) 
       (use assms fam in \<open>auto intro!: keeps_seqr keeps_reads keeps_draw rec cre keeps_tokenResponse split: option.splits\<close>)
qed

section \<open>The exchange of a code\<close>

lemma authenticateClient_None:
  "authenticateClient cx client secret = None \<longleftrightarrow> (oc_client_type client = Confidential \<longrightarrow> oc_client_secret_hash client \<noteq> '''' \<and> cx_sha cx secret = oc_client_secret_hash client)"
  by (cases "oc_client_type client") (auto simp: authenticateClient_def)

lemma accept_client_iff: "accept_client cx client secret w = (Inr u, w') \<longleftrightarrow> authenticateClient cx client secret = None \<and> w' = w"
  by (auto simp: accept_client_def run_iffs split: option.splits)

lemma call_outcome_iff:
  "call other (\<lambda>now d. case g now d of (ok, d') \<Rightarrow> (Inr ok, d')) w = (Inr x, w') \<longleftrightarrow> (\<exists>d'. g (w_now (other w)) (w_db (other w)) = (x, d') \<and> w' = (other w)\<lparr>w_db := d'\<rparr>)"
  by (auto simp: call_def Let_def split: prod.splits)

lemma redeem_code_InrE:
  assumes "redeem_code other cx s clientID secret uri verifier w = (Inr (code, client), w')"
  obtains d' where "GetValidAuthorizationCode (cx_sha cx s) (w_now (other w)) (w_db (other w)) = Some code" "ac_client_id code = clientID"
    "GetOAuthClientByID clientID (w_db (other (other w))) = Some client" "oc_enabled client" "authenticateClient cx client secret = None"
    "ac_redirect_uri code = uri" "ValidatePKCE cx verifier (ac_code_challenge code) (ac_code_challenge_method code)"
    "ConsumeAuthorizationCode (ac_id code) (w_now (other (other (other w)))) (w_db (other (other (other w)))) = (True, d')"
    "w' = (other (other (other w)))\<lparr>w_db := d'\<rparr>"
proof -
  from assms obtain c where c: "GetValidAuthorizationCode (cx_sha cx s) (w_now (other w)) (w_db (other w)) = Some c"
    unfolding redeem_code_def by (auto simp: run_iffs split: option.splits)
  with assms obtain cl where cl: "ac_client_id c = clientID" "GetOAuthClientByID clientID (w_db (other (other w))) = Some cl"
    unfolding redeem_code_def by (auto simp: run_iffs split: option.splits)
  obtain ok d' where k: "ConsumeAuthorizationCode (ac_id c) (w_now (other (other (other w)))) (w_db (other (other (other w)))) = (ok, d')" by fastforce
  from assms c cl k have "oc_enabled cl" "authenticateClient cx cl secret = None" "ac_redirect_uri c = uri"
      "ValidatePKCE cx verifier (ac_code_challenge c) (ac_code_challenge_method c)" "ok" "w' = (other (other (other w)))\<lparr>w_db := d'\<rparr>" "code = c" "client = cl"
    unfolding redeem_code_def by (auto simp: run_iffs accept_client_iff call_outcome_iff)
  with c cl k show ?thesis by (intro that) simp_all
qed

text \<open>What the other requests of the server keep of the code table while an exchange of the code with hash \<open>h\<close> runs.\<close>

definition open_code :: "string \<Rightarrow> auth_code list \<Rightarrow> bool" where
  "open_code h cs \<longleftrightarrow> (\<exists>c \<in> set cs. ac_code_hash c = h \<and> ac_used_at c = None)"

definition code_named :: "string \<Rightarrow> string \<Rightarrow> auth_code list \<Rightarrow> bool" where
  "code_named h i cs \<longleftrightarrow> (\<forall>c \<in> set cs. ac_code_hash c = h \<longleftrightarrow> ac_id c = i) \<and> length (filter (\<lambda>c. ac_id c = i) cs) \<le> 1"

definition respects_codes :: "string \<Rightarrow> (world \<Rightarrow> world) \<Rightarrow> bool" where
  "respects_codes h other \<longleftrightarrow>
     (\<forall>w. \<not> open_code h (authorization_codes (w_db w)) \<longrightarrow> \<not> open_code h (authorization_codes (w_db (other w)))) \<and>
     (\<forall>w i. code_named h i (authorization_codes (w_db w)) \<longrightarrow> code_named h i (authorization_codes (w_db (other w))))"


lemma consume_closes:
  assumes k: "ConsumeAuthorizationCode i now d = (True, d')" and n: "code_named h i (authorization_codes d)"
  shows "\<not> open_code h (authorization_codes d')"
proof -
  let ?m = "\<lambda>c. ac_id c = i \<and> ac_used_at c = None \<and> ac_expires_at c > now"
  have d': "authorization_codes d' = sql_update ?m (\<lambda>c. c\<lparr>ac_used_at := Some now\<rparr>) (authorization_codes d)" and one: "sql_count ?m (authorization_codes d) = 1"
    using k by (auto simp: ConsumeAuthorizationCode_def Let_def)
  from one have "filter ?m (authorization_codes d) \<noteq> []" by (auto simp: sql_count_def)
  then obtain r where r: "r \<in> set (authorization_codes d)" "?m r" by (auto simp: filter_empty_conv)
  let ?f = "filter (\<lambda>c. ac_id c = i) (authorization_codes d)"
  have uniq: "c = r" if "c \<in> set (authorization_codes d)" "ac_id c = i" for c
  proof -
    have "c \<in> set ?f" "r \<in> set ?f" "length ?f \<le> 1" using that r n by (auto simp: code_named_def)
    then show ?thesis by (cases ?f) auto
  qed
  show ?thesis unfolding open_code_def d'
  proof clarify
    fix c
    assume c: "c \<in> set (sql_update ?m (\<lambda>c. c\<lparr>ac_used_at := Some now\<rparr>) (authorization_codes d))" "ac_used_at c = None" "h = ac_code_hash c"
    then have "c \<in> set (authorization_codes d)" "\<not> ?m c" by (auto simp: sql_simps split: if_splits)
    with c(3) n uniq[of c] r(2) show False by (auto simp: code_named_def)
  qed
qed

text \<open>
  C2. One code, one exchange, whatever runs in between: if the requests of other connections never make a spent code
  redeemable again nor change which code a hash names, then an exchange that hands out tokens started with an unspent code and
  leaves it spent. So of any number of concurrent exchanges of the same code at most one succeeds.
\<close>

theorem code_exchanged_once:
  assumes ex: "ExchangeAuthorizationCode other cx s clientID secret uri verifier w = (Inr resp, w')"
    and rely: "respects_codes (cx_sha cx s) other" and named: "code_named (cx_sha cx s) i (authorization_codes (w_db w))"
  shows "open_code (cx_sha cx s) (authorization_codes (w_db w)) \<and> \<not> open_code (cx_sha cx s) (authorization_codes (w_db w'))"
proof -
  let ?h = "cx_sha cx s"
  from ex obtain code client w1 where red: "redeem_code other cx s clientID secret uri verifier w = (Inr (code, client), w1)"
    and iss: "issue_for_code other cx clientID code client w1 = (Inr resp, w')"
    by (auto simp: ExchangeAuthorizationCode_def seqr_iff)
  from red obtain d' where c: "GetValidAuthorizationCode ?h (w_now (other w)) (w_db (other w)) = Some code"
    and k: "ConsumeAuthorizationCode (ac_id code) (w_now (other (other (other w)))) (w_db (other (other (other w)))) = (True, d')"
    and w1: "w1 = (other (other (other w)))\<lparr>w_db := d'\<rparr>" by (rule redeem_code_InrE)
  have row: "code \<in> set (authorization_codes (w_db (other w)))" "ac_code_hash code = ?h" "ac_used_at code = None"
    using c by (auto simp: GetValidAuthorizationCode_def dest: find_SomeD)
  then have op: "open_code ?h (authorization_codes (w_db (other w)))" by (auto simp: open_code_def)
  have n: "code_named ?h i (authorization_codes (w_db (other x)))" if "code_named ?h i (authorization_codes (w_db x))" for x
    using rely that unfolding respects_codes_def by blast
  have "ac_id code = i" using n[OF named] row by (auto simp: code_named_def)
  with n[OF n[OF n[OF named]]] k have "\<not> open_code ?h (authorization_codes d')" using consume_closes by blast
  then have "\<not> open_code ?h (authorization_codes (w_db w1))" by (simp add: w1)
  then have "\<not> open_code ?h (authorization_codes (w_db w'))"
    using keepsD[OF keeps_issue[where P = "\<lambda>cs. \<not> open_code ?h cs"] iss] rely unfolding respects_codes_def by blast
  moreover have "open_code ?h (authorization_codes (w_db w))" using op rely unfolding respects_codes_def by blast
  ultimately show ?thesis by blast
qed

text \<open>
  C7. A wrong guess does not burn the code. Presenting a live code with the wrong client, secret, redirect URI or PKCE
  verifier is refused and changes nothing at all, so the client the code was issued to can still redeem it.
\<close>

theorem failed_binding_spends_nothing:
  assumes "GetValidAuthorizationCode (cx_sha cx s) (w_now w) (w_db w) = Some code"
    and "\<not> (ac_client_id code = clientID \<and> ac_redirect_uri code = uri \<and> ValidatePKCE cx verifier (ac_code_challenge code) (ac_code_challenge_method code) \<and>
      (\<exists>client. GetOAuthClientByID clientID (w_db w) = Some client \<and> oc_enabled client \<and> authenticateClient cx client secret = None))"
  shows "\<exists>e. ExchangeAuthorizationCode id cx s clientID secret uri verifier w = (Inl e, w)"
  using assms
  by (auto simp: ExchangeAuthorizationCode_def redeem_code_def seqr_def call_def reading_def demand_def ret_def refuse_def accept_client_def Let_def
      split: option.splits prod.splits sum.splits if_splits)

lemma earlier_le: "earlier limit t \<le> t" "limit = Some x \<Longrightarrow> earlier limit t \<le> x"
  by (auto simp: earlier_def split: option.splits)


lemma keeps_response_tokens: "keeps (\<lambda>w. t \<in> set (issued_tokens (w_db w))) (tokenResponse id cx u clientID sessionID scope e nonce jti exp now)"
  unfolding tokenResponse_def Let_def
  by (intro keeps_seqr keeps_basic keeps_draw keeps_identityClaims keeps_updates if_split[where P = "keeps _", THEN iffD2] conjI impI)
     (auto simp: EnsureClientSession_def fresh_id_def Let_def split: option.splits if_splits)

lemma keeps_family_tokens: "keeps (\<lambda>w. t \<in> set (issued_tokens (w_db w))) (call id (writing (CreateRefreshFamily f c h)))"
  by (intro keeps_writes)
     (auto simp: CreateRefreshFamily_def insertRefreshTokenTx_def recordIssuedTokenTx_def sql_insert_def Let_def andthen_Inr_iff)

lemma tokenResponse_InrD:
  assumes "tokenResponse other cx u clientID sessionID scope e nonce jti exp now w = (Inr resp, w')"
  shows "tp_access_token resp = SignJWT cx (access_claims cx (usr_id u) clientID scope jti exp now)" "tp_scope resp = scope" "tp_refresh_token resp = ''''"
  using assms by (auto simp: tokenResponse_def run_iffs)

definition rand_only :: "db \<Rightarrow> db \<Rightarrow> bool" where
  "rand_only d d' \<longleftrightarrow> (\<exists>p. d' = d\<lparr>rand_pos := p\<rparr>)"

lemma issue_for_code_InrE:
  assumes "issue_for_code id cx clientID code client w = (Inr resp, w')"
  obtains u jti fam d1 d2 exp where "GetUserByID (ac_user_id code) (w_now w) (w_db w) = Some u" "usr_status u = Active"
    "exp = earlier (AccessEndsAt (usr_id u) clientID (w_now w) (w_db w)) (w_now w + AccessTokenTTL)" "rand_only (w_db w) d1"
    "RecordIssuedToken (code_token code (usr_id u) clientID jti fam exp) (w_now w) d1 = Inr d2"
    "tp_access_token resp = SignJWT cx (access_claims cx (usr_id u) clientID (ac_scope code) jti exp (w_now w))" "tp_scope resp = ac_scope code"
    "set (issued_tokens d2) \<subseteq> set (issued_tokens (w_db w'))"
proof -
  from assms obtain u where u: "GetUserByID (ac_user_id code) (w_now w) (w_db w) = Some u" "usr_status u = Active"
    by (auto simp: issue_for_code_def active_user_def run_iffs split: option.splits)
  define exp where "exp = earlier (AccessEndsAt (usr_id u) clientID (w_now w) (w_db w)) (w_now w + AccessTokenTTL)"
  define jti where "jti = rand_src (w_db w) (rand_pos (w_db w))"
  define v where "v = w\<lparr>w_db := (w_db w)\<lparr>rand_pos := Suc (rand_pos (w_db w))\<rparr>\<rparr>"
  from assms u obtain policy b family w1 where
      fam: "(if RefreshEnabled policy \<and> oc_client_type client = Confidential then seqr (newRefreshFamily id code policy (w_now w)) (\<lambda>f. ret (Some f)) else ret None) v = (Inr family, w1)"
    and rest: "seqr (call id (writing (RecordIssuedToken (code_token code (usr_id u) clientID jti (case family of None \<Rightarrow> '''' | Some f \<Rightarrow> fam_jti f) exp)))) (\<lambda>_.
       seqr (tokenResponse id cx u clientID (ac_session_id code) (ac_scope code) (ac_evidence code) (ac_nonce code) jti exp (w_now w)) (\<lambda>resp.
       case family of None \<Rightarrow> ret resp
       | Some f \<Rightarrow> seqr draw (\<lambda>raw. seqr (call id (writing (CreateRefreshFamily f (ac_id code) (cx_sha cx raw)))) (\<lambda>_. ret (resp\<lparr>tp_refresh_token := raw\<rparr>))))) w1 = (Inr resp, w')"
    unfolding issue_for_code_def active_user_def jti_def exp_def v_def by (auto simp: run_iffs Let_def)
  have w1: "rand_only (w_db w) (w_db w1)" "w_now w1 = w_now w"
    using fam by (auto simp: v_def newRefreshFamily_def run_iffs rand_only_def split: if_splits option.splits)
  let ?t = "code_token code (usr_id u) clientID jti (case family of None \<Rightarrow> '''' | Some f \<Rightarrow> fam_jti f) exp"
  from rest w1(2) obtain d2 r2 w2 where d2: "RecordIssuedToken ?t (w_now w) (w_db w1) = Inr d2"
    and tr: "tokenResponse id cx u clientID (ac_session_id code) (ac_scope code) (ac_evidence code) (ac_nonce code) jti exp (w_now w) (w1\<lparr>w_db := d2\<rparr>) = (Inr r2, w2)"
    and last: "(case family of None \<Rightarrow> ret r2
       | Some f \<Rightarrow> seqr draw (\<lambda>raw. seqr (call id (writing (CreateRefreshFamily f (ac_id code) (cx_sha cx raw)))) (\<lambda>_. ret (r2\<lparr>tp_refresh_token := raw\<rparr>)))) w2 = (Inr resp, w')"
    by (auto simp: seqr_iff call_writing_iff)
  have "tp_access_token resp = tp_access_token r2 \<and> tp_scope resp = tp_scope r2" using last by (auto simp: run_iffs split: option.splits)
  moreover have "set (issued_tokens d2) \<subseteq> set (issued_tokens (w_db w'))"
  proof
    fix t
    assume t: "t \<in> set (issued_tokens d2)"
    have "t \<in> set (issued_tokens (w_db w2))" by (rule keepsD[OF keeps_response_tokens tr]) (use t in simp)
    moreover have "keeps (\<lambda>w. t \<in> set (issued_tokens (w_db w))) (case family of None \<Rightarrow> ret r2
       | Some f \<Rightarrow> seqr draw (\<lambda>raw. seqr (call id (writing (CreateRefreshFamily f (ac_id code) (cx_sha cx raw)))) (\<lambda>_. ret (r2\<lparr>tp_refresh_token := raw\<rparr>))))"
      by (auto intro!: keeps_seqr keeps_draw keeps_family_tokens split: option.splits)
    ultimately show "t \<in> set (issued_tokens (w_db w'))" using keepsD last by blast
  qed
  ultimately show ?thesis using that[OF u exp_def w1(1) d2] tokenResponse_InrD[OF tr] by simp
qed

lemma access_frame [simp]:
  "ClientAccessAllowed u c now (d\<lparr>authorization_codes := x\<rparr>) = ClientAccessAllowed u c now d"
  "ClientAccessAllowed u c now (d\<lparr>rand_pos := p\<rparr>) = ClientAccessAllowed u c now d"
  "GetUserByID u now (d\<lparr>authorization_codes := x\<rparr>) = GetUserByID u now d"
  by (simp_all add: ClientAccessAllowed_def GetUserByID_def user_by_id_def effective_app_access_cong[of "d\<lparr>authorization_codes := x\<rparr>" d] effective_app_access_cong[of "d\<lparr>rand_pos := p\<rparr>" d])

lemma AccessEndsAt_frame [simp]: "AccessEndsAt u c now (d\<lparr>authorization_codes := x\<rparr>) = AccessEndsAt u c now d"
proof -
  have "users (d\<lparr>authorization_codes := x\<rparr>) = users d" "app_registry (d\<lparr>authorization_codes := x\<rparr>) = app_registry d"
    "grant_expiries a u now (d\<lparr>authorization_codes := x\<rparr>) = grant_expiries a u now d" for a by (simp_all add: grant_expiries_def)
  then show ?thesis unfolding AccessEndsAt_def by presburger
qed

text \<open>
  C1. What it takes to get a token. An exchange that answers with tokens was given a live, unspent code of this client, at the
  redirect URI it was issued for, with the verifier of its PKCE challenge, by a client that is enabled and, when confidential,
  knew its secret; the account may use the client and its session lives; and the access token is registered to that account,
  client and session, unrevoked, ending within fifteen minutes and never after the account's access ends.
\<close>

theorem exchange_means:
  assumes ex: "ExchangeAuthorizationCode id cx s clientID secret uri verifier w = (Inr resp, w')"
  shows "\<exists>code \<in> set (authorization_codes (w_db w)). \<exists>client \<in> set (oauth_clients (w_db w)). \<exists>t \<in> set (issued_tokens (w_db w')).
    ac_code_hash code = cx_sha cx s \<and> ac_used_at code = None \<and> ac_expires_at code > w_now w \<and> ac_client_id code = clientID \<and> ac_redirect_uri code = uri \<and>
    ValidatePKCE cx verifier (ac_code_challenge code) (ac_code_challenge_method code) \<and>
    oc_id client = clientID \<and> oc_enabled client \<and> (oc_client_type client = Confidential \<longrightarrow> cx_sha cx secret = oc_client_secret_hash client) \<and>
    ClientAccessAllowed (ac_user_id code) clientID (w_now w) (w_db w) \<and>
    (\<exists>s \<in> set (sessions (w_db w)). ses_id s = ac_session_id code \<and> ses_user_id s = ac_user_id code \<and> ses_expires_at s > w_now w) \<and>
    it_user_id t = ac_user_id code \<and> it_client_id t = clientID \<and> it_session_id t = Some (ac_session_id code) \<and> it_revoked_at t = None \<and>
    it_expires_at t \<le> w_now w + AccessTokenTTL \<and> (\<forall>e. AccessEndsAt (ac_user_id code) clientID (w_now w) (w_db w) = Some e \<longrightarrow> it_expires_at t \<le> e) \<and>
    tp_access_token resp = SignJWT cx (access_claims cx (ac_user_id code) clientID (ac_scope code) (it_jti t) (it_expires_at t) (w_now w))"
proof -
  from ex obtain code client w1 where red: "redeem_code id cx s clientID secret uri verifier w = (Inr (code, client), w1)"
    and iss: "issue_for_code id cx clientID code client w1 = (Inr resp, w')"
    by (auto simp: ExchangeAuthorizationCode_def seqr_iff)
  from red obtain d' where c: "GetValidAuthorizationCode (cx_sha cx s) (w_now w) (w_db w) = Some code" "ac_client_id code = clientID"
    and cl: "GetOAuthClientByID clientID (w_db w) = Some client" "oc_enabled client" "authenticateClient cx client secret = None"
    and b: "ac_redirect_uri code = uri" "ValidatePKCE cx verifier (ac_code_challenge code) (ac_code_challenge_method code)"
    and k: "ConsumeAuthorizationCode (ac_id code) (w_now w) (w_db w) = (True, d')" and w1: "w1 = w\<lparr>w_db := d'\<rparr>"
    by (rule redeem_code_InrE) simp
  obtain x where d': "d' = (w_db w)\<lparr>authorization_codes := x\<rparr>" using k by (auto simp: ConsumeAuthorizationCode_def Let_def)
  from iss obtain u jti fam d1 d2 exp where u: "GetUserByID (ac_user_id code) (w_now w) (w_db w) = Some u"
    and exp: "exp = earlier (AccessEndsAt (usr_id u) clientID (w_now w) (w_db w)) (w_now w + AccessTokenTTL)" and d1: "rand_only d' d1"
    and rec: "RecordIssuedToken (code_token code (usr_id u) clientID jti fam exp) (w_now w) d1 = Inr d2"
    and tok: "tp_access_token resp = SignJWT cx (access_claims cx (usr_id u) clientID (ac_scope code) jti exp (w_now w))"
    and sub: "set (issued_tokens d2) \<subseteq> set (issued_tokens (w_db w'))"
    by (rule issue_for_code_InrE) (simp add: w1 d')
  have uid: "usr_id u = ac_user_id code" using u by (auto simp: GetUserByID_def user_by_id_def scanUser_keeps dest!: find_SomeD)
  obtain p where p: "d1 = (w_db w)\<lparr>authorization_codes := x, rand_pos := p\<rparr>" using d1 d' by (auto simp: rand_only_def)
  let ?q = "code_token code (ac_user_id code) clientID jti fam exp"
  from rec have perm: "issuance_permitted ?q (w_now w) d1" and d2: "issued_tokens d2 = sql_insert \<lparr>it_jti = jti, it_user_id = ac_user_id code, it_client_id = clientID,
      it_expires_at = exp, it_revoked_at = None, it_created_at = w_now w, it_session_id = Some (ac_session_id code),
      it_family_jti = (if fam = '''' then None else Some fam)\<rparr> (issued_tokens d1)"
    by (auto simp: RecordIssuedToken_def recordIssuedTokenTx_def andthen_Inr_iff code_token_def uid)
  from perm have acc: "ClientAccessAllowed (ac_user_id code) clientID (w_now w) (w_db w)"
    and ses: "\<exists>s \<in> set (sessions (w_db w)). ses_id s = ac_session_id code \<and> ses_user_id s = ac_user_id code \<and> ses_expires_at s > w_now w"
    by (auto simp: issuance_permitted_def session_backs_def code_token_def p)
  have code: "code \<in> set (authorization_codes (w_db w))" "ac_code_hash code = cx_sha cx s" "ac_used_at code = None" "ac_expires_at code > w_now w"
    using c by (auto simp: GetValidAuthorizationCode_def dest: find_SomeD)
  have client: "client \<in> set (oauth_clients (w_db w))" "oc_id client = clientID" using cl by (auto simp: GetOAuthClientByID_def dest: find_SomeD)
  obtain t where t: "t \<in> set (issued_tokens (w_db w'))" "it_jti t = jti" "it_user_id t = ac_user_id code" "it_client_id t = clientID" "it_expires_at t = exp"
      "it_revoked_at t = None" "it_session_id t = Some (ac_session_id code)"
    using sub d2 by (auto simp: sql_insert_def)
  have lim: "exp \<le> w_now w + AccessTokenTTL" "\<forall>e. AccessEndsAt (ac_user_id code) clientID (w_now w) (w_db w) = Some e \<longrightarrow> exp \<le> e"
    using earlier_le exp uid by auto
  show ?thesis
    by (rule bexI[OF _ code(1)], rule bexI[OF _ client(1)], rule bexI[OF _ t(1)])
       (use code client t lim acc ses b c cl tok uid authenticateClient_None[of cx client secret] in simp)
qed

section \<open>Requirements on the sign-in\<close>

lemma decimal_nonneg: "list_all (byte_in 0x30 0x39) s \<Longrightarrow> 0 \<le> decimal s"
proof -
  have "list_all (byte_in 0x30 0x39) s \<Longrightarrow> 0 \<le> n \<Longrightarrow> 0 \<le> foldl (\<lambda>n c. 10 * n + digit_value c) n s" for n
    by (induction s arbitrary: n) (auto simp: byte_in_def digit_value_def)
  then show "list_all (byte_in 0x30 0x39) s \<Longrightarrow> 0 \<le> decimal s" by (simp add: decimal_def)
qed

lemma parsed_request:
  assumes "ParseAuthenticationRequest q = Some p"
  shows "an_policy p = no_app_policy" "an_max_age p = Some a \<Longrightarrow> 0 < a \<and> a \<le> 2147483647" "an_acr p \<in> {'''', PasswordACR, MFAACR}"
proof -
  from assms obtain p1 p2 where p: "parse_prompt (map_option hd (map_of q ''prompt'')) plain_request = Some p1"
      "parse_max_age (map_option hd (map_of q ''max_age'')) p1 = Some p2" "parse_acr (map_option hd (map_of q ''acr_values'')) p2 = Some p"
    by (auto simp: ParseAuthenticationRequest_def Let_def split: if_splits option.splits)
  have 1: "an_policy p1 = no_app_policy" "an_max_age p1 = None" "an_acr p1 = ''''" using p(1) by (auto simp: parse_prompt_def plain_request_def split: option.splits if_splits)
  have 2: "an_policy p2 = no_app_policy" "an_acr p2 = ''''" "\<forall>a. an_max_age p2 = Some a \<longrightarrow> 0 < a \<and> a \<le> 2147483647"
    using p(2) 1 decimal_nonneg by (auto simp: parse_max_age_def order_less_le split: option.splits if_splits)
  show "an_policy p = no_app_policy" "an_max_age p = Some a \<Longrightarrow> 0 < a \<and> a \<le> 2147483647" "an_acr p \<in> {'''', PasswordACR, MFAACR}"
    using p(3) 2 by (auto simp: parse_acr_def split: option.splits list.splits if_splits)
qed

text \<open>
  C10. What a client asks of a sign-in is enforced and cannot weaken the app's policy: evidence that satisfies a parsed
  request under a policy satisfies the policy, is no older than the requested age to the nanosecond, and where the request
  names the MFA class includes a proven second factor that is no recovery code. No age a client can send overflows.
\<close>

theorem request_enforced:
  assumes parse: "ParseAuthenticationRequest q = Some p" and sat: "Satisfied (WithAppPolicy policy p) e now" and mode: "policy_Valid policy"
  shows "EvidenceReason policy e now = '''' \<and> ap_mode policy \<noteq> ''fresh'' \<and>
    (\<forall>age. an_max_age p = Some age \<longrightarrow> (\<exists>t. ev_primary_at e = Some t \<and> now - age * second \<le> t \<and> t \<le> now)) \<and>
    (an_acr p = MFAACR \<longrightarrow> (\<exists>t. ev_factor_at e = Some t \<and> t \<le> now \<and> ev_factor_method e \<in> {''totp'', ''push'', ''webauthn''}))"
proof -
  let ?r = "WithAppPolicy policy p"
  have r: "an_policy ?r = policy" "an_max_age ?r = an_max_age p" "an_acr ?r = an_acr p" "an_fresh ?r \<longleftrightarrow> an_fresh p \<or> ap_mode policy = ''fresh''"
    by (simp_all add: WithAppPolicy_def)
  have "ap_mode policy \<noteq> ''''" using mode by (auto simp: policy_Valid_def)
  with sat have 1: "EvidenceReason policy e now = ''''" "ap_mode policy \<noteq> ''fresh''" by (auto simp: Satisfied_def r split: if_splits)
  have 2: "\<exists>t. ev_primary_at e = Some t \<and> now - age * second \<le> t \<and> t \<le> now" if age: "an_max_age p = Some age" for age
  proof -
    from sat age have pr: "proven_by (ev_primary_at e) now" by (auto simp: Satisfied_def r split: if_splits)
    then obtain t where t: "ev_primary_at e = Some t" "t \<le> now" by (cases "ev_primary_at e") auto
    have "wrap64 (- age * second) = - age * second" using parsed_request(2)[OF parse age] by (simp add: wrap64_def)
    moreover from sat age t have "\<not> t < now + wrap64 (- age * second)" by (auto simp: Satisfied_def r split: if_splits)
    ultimately show ?thesis using t by simp
  qed
  have 3: "\<exists>t. ev_factor_at e = Some t \<and> t \<le> now \<and> ev_factor_method e \<in> {''totp'', ''push'', ''webauthn''}" if "an_acr p = MFAACR"
    using sat that by (cases "ev_factor_at e") (auto simp: Satisfied_def r split: if_splits)
  show ?thesis using 1 2 3 by blast
qed

section \<open>Refreshing and revoking\<close>

text \<open>
  C9. Revocation is final. Once the client a token was issued to has revoked it, the UserInfo endpoint refuses the token at
  every later time. The JWT library is assumed to read the same claims from the same token whenever it accepts it.
\<close>

theorem revoked_token_is_dead:
  assumes rev: "EngineRevokeToken id cx token clientID secret w = (Inr (), w')"
    and tok: "VerifyJWT cx token (cx_issuer cx) ''access_token'' (w_now w) = Some cs" "map_of cs ''aud'' = Some (JStr clientID)"
    and lib: "\<And>x y i j s t a b. cx_parse cx x i s token = Some a \<Longrightarrow> cx_parse cx y j t token = Some b \<Longrightarrow> a = b"
  shows "isl (fst (GetUserinfo id cx token (w'\<lparr>w_now := later\<rparr>)))"
proof -
  have same: "cs' = cs" if "VerifyJWT cx token (cx_issuer cx) ''access_token'' later = Some cs'" for cs'
    using that tok(1) lib by (auto simp: VerifyJWT_def verifyJWT_def split: if_splits option.splits json.splits)
  show ?thesis
  proof (rule ccontr)
    assume "\<not> isl (fst (GetUserinfo id cx token (w'\<lparr>w_now := later\<rparr>)))"
    then obtain r v where "GetUserinfo id cx token (w'\<lparr>w_now := later\<rparr>) = (Inr r, v)"
      by (cases "GetUserinfo id cx token (w'\<lparr>w_now := later\<rparr>)") (auto simp: isl_def, metis sum.exhaust)
    then obtain cs' where "VerifyJWT cx token (cx_issuer cx) ''access_token'' later = Some cs'" "claim_string cs' ''jti'' \<noteq> ''''"
        "\<not> IsTokenRevoked (claim_string cs' ''jti'') later (w_db w')"
      by (auto simp: GetUserinfo_def verifyAccessToken_def run_iffs Let_def split: option.splits)
    then have jti: "claim_string cs ''jti'' \<noteq> ''''" and live: "\<not> IsTokenRevoked (claim_string cs ''jti'') later (w_db w')" using same by auto
    from rev tok jti have "w_db w' = RevokeToken (claim_string cs ''jti'') (w_now w) (w_db w)"
      by (auto simp: EngineRevokeToken_def run_iffs accept_client_iff split: option.splits)
    then have "\<forall>t \<in> set (issued_tokens (w_db w')). it_jti t = claim_string cs ''jti'' \<longrightarrow> it_revoked_at t \<noteq> None"
      by (auto simp: RevokeToken_def revoke_tokens_def sql_simps)
    then have "IsTokenRevoked (claim_string cs ''jti'') later (w_db w')"
      by (auto simp: IsTokenRevoked_def split: option.splits dest!: find_SomeD)
    with live show False by simp
  qed
qed

lemma narrowed_subset:
  assumes "narrowed original scope = Some granted"
  shows "set (Fields granted) \<subseteq> set (Fields original)"
proof (cases "Fields scope = []")
  case True
  with assms show ?thesis by (simp add: narrowed_def)
next
  case False
  with assms have g: "granted = JoinSpace (Fields scope)" "list_all (hasScope original) (Fields scope)" by (auto simp: narrowed_def Let_def split: if_splits)
  have "Fields granted = Fields scope" unfolding g(1) by (rule Fields_JoinSpace) (auto simp: list_all_iff dest: Fields_like)
  with g(2) show ?thesis by (auto simp: list_all_iff hasScope_def)
qed

lemma RotateRefreshToken_InrD:
  assumes "RotateRefreshToken oldHash clientID newHash access now d = (Inr f, d')"
  shows "LookupRefreshFamily oldHash d = Inr f" "fam_client_id f = clientID"
    "\<exists>t \<in> set (issued_tokens d'). it_jti t = tr_jti access \<and> it_user_id t = fam_user_id f \<and> it_client_id t = clientID \<and> it_revoked_at t = None \<and>
       it_family_jti t = (if fam_jti f = '''' then None else Some (fam_jti f)) \<and> it_expires_at t = earlier (Some (fam_expires_at f)) (tr_expires_at access)"
proof -
  from assms obtain r fr t where j: "refresh_join oldHash d = Some (r, fr, t)" and f: "f = scanRefreshFamily fr t" "fam_client_id f = clientID"
    and ro: "rotate_usable f oldHash newHash access now d = Inr d'"
    by (auto simp: RotateRefreshToken_def Let_def split: option.splits if_splits sum.splits)
  show "LookupRefreshFamily oldHash d = Inr f" using j f by (simp add: LookupRefreshFamily_def)
  show "fam_client_id f = clientID" by (rule f(2))
  show "\<exists>t \<in> set (issued_tokens d'). it_jti t = tr_jti access \<and> it_user_id t = fam_user_id f \<and> it_client_id t = clientID \<and> it_revoked_at t = None \<and>
       it_family_jti t = (if fam_jti f = '''' then None else Some (fam_jti f)) \<and> it_expires_at t = earlier (Some (fam_expires_at f)) (tr_expires_at access)"
    using ro f(2) unfolding rotate_usable_def Let_def
    by (auto simp: andthen_Inr_iff recordIssuedTokenTx_def insertRefreshTokenTx_def Let_def sql_insert_def earlier_def split: sum.splits if_splits)
qed

lemma call_rotate_iff:
  "call other (RotateRefreshToken a b c t) w = (Inr x, w') \<longleftrightarrow> (\<exists>d'. RotateRefreshToken a b c t (w_now (other w)) (w_db (other w)) = (Inr x, d') \<and> w' = (other w)\<lparr>w_db := d'\<rparr>)"
  by (auto simp: call_def Let_def split: prod.splits sum.splits)

lemma Lookup_rand [simp]: "LookupRefreshFamily h (d\<lparr>rand_pos := p\<rparr>) = LookupRefreshFamily h d"
proof -
  have "refresh_tokens (d\<lparr>rand_pos := p\<rparr>) = refresh_tokens d" "refresh_families (d\<lparr>rand_pos := p\<rparr>) = refresh_families d" "issued_tokens (d\<lparr>rand_pos := p\<rparr>) = issued_tokens d" by simp_all
  then show ?thesis unfolding LookupRefreshFamily_def refresh_join_def by presburger
qed

lemma keeps_user_tokens: "keeps (\<lambda>w. t \<in> set (issued_tokens (w_db w))) (active_user id i)"
  by (rule keeps_active_user) simp

text \<open>
  C8. Refreshing never widens. A refresh that answers belongs to a live family of the very client that asked, grants no scope
  the login did not grant, and registers an access token of that family which ends within fifteen minutes and no later than
  the family does, so no chain of refreshes outlives it.
\<close>

theorem refresh_never_widens:
  assumes ex: "ExchangeRefreshToken id cx raw clientID secret scope w = (Inr resp, w')"
  shows "\<exists>f. LookupRefreshFamily (cx_sha cx raw) (w_db w) = Inr f \<and> fam_client_id f = clientID \<and> set (Fields (tp_scope resp)) \<subseteq> set (Fields (fam_scope f)) \<and>
    (\<exists>t \<in> set (issued_tokens (w_db w')). it_user_id t = fam_user_id f \<and> it_client_id t = clientID \<and> it_revoked_at t = None \<and>
       it_expires_at t \<le> fam_expires_at f \<and> it_expires_at t \<le> w_now w + AccessTokenTTL \<and>
       tp_access_token resp = SignJWT cx (access_claims cx (fam_user_id f) clientID (tp_scope resp) (it_jti t) (it_expires_at t) (w_now w)))"
proof -
  from ex obtain peek where peek: "LookupRefreshFamily (cx_sha cx raw) (w_db w) = Inr peek"
    by (auto simp: ExchangeRefreshToken_def run_iffs accept_client_iff split: option.splits)
  from ex peek obtain granted where gr: "narrowed (fam_scope peek) scope = Some granted"
    by (auto simp: ExchangeRefreshToken_def run_iffs accept_client_iff split: option.splits)
  define exp where "exp = earlier (AccessEndsAt (fam_user_id peek) clientID (w_now w) (w_db w)) (w_now w + AccessTokenTTL)"
  from ex peek gr obtain nextRaw jti p family d1 u w2 r w3 where
      rot: "RotateRefreshToken (cx_sha cx raw) clientID (cx_sha cx nextRaw) \<lparr>tr_code_id = '''', tr_policy = no_policy, tr_device = no_device, tr_family_jti = '''',
        tr_session_id = '''', tr_jti = jti, tr_user_id = '''', tr_client_id = '''', tr_expires_at = exp\<rparr> (w_now w) ((w_db w)\<lparr>rand_pos := p\<rparr>) = (Inr family, d1)"
    and us: "active_user id (fam_user_id family) (w\<lparr>w_db := d1\<rparr>) = (Inr u, w2)"
    and tr: "tokenResponse id cx u clientID (fam_session_id family) granted (fam_evidence family) '''' jti (earlier (Some (fam_expires_at family)) exp) (w_now w) w2 = (Inr r, w')"
    and resp: "resp = r\<lparr>tp_refresh_token := nextRaw\<rparr>"
    unfolding ExchangeRefreshToken_def exp_def
    by (auto simp: run_iffs accept_client_iff Let_def call_rotate_iff split: option.splits)
  note rotated = RotateRefreshToken_InrD[OF rot, simplified]
  have fam: "family = peek" using rotated(1) peek by simp
  from rotated(3) obtain t where t: "t \<in> set (issued_tokens d1)" "it_jti t = jti" "it_user_id t = fam_user_id peek" "it_client_id t = clientID" "it_revoked_at t = None"
      "it_expires_at t = earlier (Some (fam_expires_at peek)) exp" by (auto simp: fam)
  have "t \<in> set (issued_tokens (w_db w2))" by (rule keepsD[OF keeps_user_tokens us]) (use t in simp)
  then have t': "t \<in> set (issued_tokens (w_db w'))" by (rule keepsD[OF keeps_response_tokens tr])
  have uid: "usr_id u = fam_user_id peek" using us
    by (auto simp: active_user_def run_iffs GetUserByID_def user_by_id_def scanUser_keeps fam split: option.splits dest!: find_SomeD)
  have lim: "it_expires_at t \<le> fam_expires_at peek" "it_expires_at t \<le> w_now w + AccessTokenTTL"
    using earlier_le(2)[of "Some (fam_expires_at peek)"] order_trans[OF earlier_le(1) earlier_le(1)] unfolding t(6) exp_def by blast+
  show ?thesis
    using peek rotated(2) narrowed_subset[OF gr] t t' lim tokenResponse_InrD[OF tr] uid by (auto simp: resp fam)
qed

section \<open>Witnesses\<close>

definition sample_engine :: engine where
  "sample_engine = \<lparr>cx_issuer = ''https://id.example'', cx_sha = (\<lambda>s. CHR ''s'' # s), cx_challenge = (\<lambda>s. CHR ''c'' # s),
     cx_sign = (\<lambda>typ cs. typ @ ''.'' @ claim_string cs ''jti''),
     cx_parse = (\<lambda>e i t token. if token = ''tok'' then Some [(''exp'', JNum 5000), (''iss'', JStr ''https://id.example''), (''token_use'', JStr ''access_token''),
       (''aud'', JStr ''c1''), (''sub'', JStr ''u1''), (''jti'', JStr ''j1'')] else None), cx_size = length\<rparr>"

definition sample_uri :: string where
  "sample_uri = ''https://notes.example/cb''"

text \<open>A code issued to the sample client, and the world it was issued in.\<close>

definition coded_run :: "(oauth_err + string) \<times> world" where
  "coded_run = CreateAuthorizationCodeWithNonce id sample_engine ''c1'' ''s1'' sample_uri ''openid'' ''cv'' ''S256'' ''n'' \<lparr>w_db = sample_db, w_now = sample_now\<rparr>"

definition sample_code :: string where
  "sample_code = projr (fst coded_run)"

definition coded_world :: world where
  "coded_world = snd coded_run"

lemma run_succeeds: "\<not> isl (fst r) \<Longrightarrow> \<exists>x w. r = (Inr x, w)"
  by (cases r) (metis fst_conv isl_def sum.exhaust)

theorem granted_scope_exact_witness:
  "\<exists>g w'. GrantedScope id ''c1'' ''profile openid openid'' coded_world = (Inr g, w') \<and> set (Fields g) = {''openid''} \<and> distinct (Fields g)"
proof -
  have "\<not> isl (fst (GrantedScope id ''c1'' ''profile openid openid'' coded_world))" by code_simp
  then obtain g w' where r: "GrantedScope id ''c1'' ''profile openid openid'' coded_world = (Inr g, w')" by (blast dest: run_succeeds)
  have "list_all (\<lambda>c. oc_allowed_scopes c = [''openid'']) (oauth_clients (w_db coded_world))" "TrimSpace ''openid'' = ''openid''"
    "Fields ''profile openid openid'' = [''profile'', ''openid'', ''openid'']" by code_simp+
  with granted_scope_exact[OF r] r show ?thesis by (auto simp: list_all_iff)
qed

theorem code_exchanged_once_witness:
  "\<exists>resp w'. ExchangeAuthorizationCode (\<lambda>w. w\<lparr>w_now := w_now w + second\<rparr>) sample_engine sample_code ''c1'' ''h'' sample_uri ''v'' coded_world = (Inr resp, w') \<and>
     open_code (cx_sha sample_engine sample_code) (authorization_codes (w_db coded_world)) \<and> \<not> open_code (cx_sha sample_engine sample_code) (authorization_codes (w_db w'))"
proof -
  let ?other = "\<lambda>w :: world. w\<lparr>w_now := w_now w + second\<rparr>"
  have "\<not> isl (fst (ExchangeAuthorizationCode ?other sample_engine sample_code ''c1'' ''h'' sample_uri ''v'' coded_world))" by code_simp
  then obtain resp w' where r: "ExchangeAuthorizationCode ?other sample_engine sample_code ''c1'' ''h'' sample_uri ''v'' coded_world = (Inr resp, w')" by (blast dest: run_succeeds)
  have "respects_codes (cx_sha sample_engine sample_code) ?other" by (simp add: respects_codes_def)
  moreover have "code_named (cx_sha sample_engine sample_code) (ac_id (hd (authorization_codes (w_db coded_world)))) (authorization_codes (w_db coded_world))" by code_simp
  ultimately show ?thesis using code_exchanged_once[OF r] r by blast
qed

theorem failed_binding_spends_nothing_witness:
  "\<exists>e. ExchangeAuthorizationCode id sample_engine sample_code ''c1'' ''h'' sample_uri ''wrong'' coded_world = (Inl e, coded_world)"
proof -
  have "\<exists>code. GetValidAuthorizationCode (cx_sha sample_engine sample_code) (w_now coded_world) (w_db coded_world) = Some code \<and>
      \<not> ValidatePKCE sample_engine ''wrong'' (ac_code_challenge code) (ac_code_challenge_method code)"
  proof -
    have "(case GetValidAuthorizationCode (cx_sha sample_engine sample_code) (w_now coded_world) (w_db coded_world) of None \<Rightarrow> False
      | Some code \<Rightarrow> \<not> ValidatePKCE sample_engine ''wrong'' (ac_code_challenge code) (ac_code_challenge_method code))" by code_simp
    then show ?thesis by (auto split: option.splits)
  qed
  then show ?thesis using failed_binding_spends_nothing by blast
qed

theorem exchange_means_witness:
  "\<exists>resp w'. ExchangeAuthorizationCode id sample_engine sample_code ''c1'' ''h'' sample_uri ''v'' coded_world = (Inr resp, w') \<and>
     (\<exists>t \<in> set (issued_tokens (w_db w')). it_client_id t = ''c1'' \<and> it_revoked_at t = None \<and> it_expires_at t \<le> w_now coded_world + AccessTokenTTL)"
proof -
  have "\<not> isl (fst (ExchangeAuthorizationCode id sample_engine sample_code ''c1'' ''h'' sample_uri ''v'' coded_world))" by code_simp
  then obtain resp w' where r: "ExchangeAuthorizationCode id sample_engine sample_code ''c1'' ''h'' sample_uri ''v'' coded_world = (Inr resp, w')" by (blast dest: run_succeeds)
  from exchange_means[OF r] r show ?thesis by blast
qed

theorem request_enforced_witness:
  "\<exists>t. ev_primary_at sample_evidence = Some t \<and> sample_now - 60 * second \<le> t \<and> t \<le> sample_now"
proof -
  let ?q = "[(''max_age'', [''60'']), (''acr_values'', [MFAACR])]"
  obtain p where p: "ParseAuthenticationRequest ?q = Some p" "an_max_age p = Some 60" and s: "Satisfied (WithAppPolicy sample_policy p) sample_evidence sample_now"
  proof -
    have "(case ParseAuthenticationRequest ?q of None \<Rightarrow> False | Some p \<Rightarrow> an_max_age p = Some 60 \<and> Satisfied (WithAppPolicy sample_policy p) sample_evidence sample_now)" by code_simp
    then show ?thesis using that by (auto split: option.splits)
  qed
  have "policy_Valid sample_policy" by code_simp
  from request_enforced[OF p(1) s this] p(2) show ?thesis by simp
qed

definition revoked_world :: world where
  "revoked_world = snd (EngineRevokeToken id sample_engine ''tok'' ''c1'' ''h'' coded_world)"

theorem revoked_token_is_dead_witness:
  "isl (fst (GetUserinfo id sample_engine ''tok'' (revoked_world\<lparr>w_now := sample_now + minute\<rparr>)))"
proof (rule revoked_token_is_dead)
  have "fst (EngineRevokeToken id sample_engine ''tok'' ''c1'' ''h'' coded_world) = Inr ()" by code_simp
  then show "EngineRevokeToken id sample_engine ''tok'' ''c1'' ''h'' coded_world = (Inr (), revoked_world)" by (simp add: revoked_world_def prod_eq_iff)
  show "VerifyJWT sample_engine ''tok'' (cx_issuer sample_engine) ''access_token'' (w_now coded_world) = Some (the (cx_parse sample_engine False '''' 0 ''tok''))" by code_simp
  show "map_of (the (cx_parse sample_engine False '''' 0 ''tok'')) ''aud'' = Some (JStr ''c1'')" by code_simp
qed (simp add: sample_engine_def)

definition refreshed_world :: world where
  "refreshed_world = snd (ExchangeAuthorizationCode id sample_engine sample_code ''c1'' ''h'' sample_uri ''v'' coded_world)"

definition sample_refresh :: string where
  "sample_refresh = tp_refresh_token (projr (fst (ExchangeAuthorizationCode id sample_engine sample_code ''c1'' ''h'' sample_uri ''v'' coded_world)))"

theorem refresh_never_widens_witness:
  "\<exists>resp w' f. ExchangeRefreshToken id sample_engine sample_refresh ''c1'' ''h'' ''openid'' refreshed_world = (Inr resp, w') \<and>
     LookupRefreshFamily (cx_sha sample_engine sample_refresh) (w_db refreshed_world) = Inr f \<and> set (Fields (tp_scope resp)) \<subseteq> set (Fields (fam_scope f))"
proof -
  have "\<not> isl (fst (ExchangeRefreshToken id sample_engine sample_refresh ''c1'' ''h'' ''openid'' refreshed_world))" by code_simp
  then obtain resp w' where r: "ExchangeRefreshToken id sample_engine sample_refresh ''c1'' ''h'' ''openid'' refreshed_world = (Inr resp, w')" by (blast dest: run_succeeds)
  from refresh_never_widens[OF r] r show ?thesis by blast
qed

end
