(* ===== verification/Ky_RateLimit.thy ===== *)
theory Ky_RateLimit
  imports Complex_Main Ky_Prelude
begin

text \<open>
  Rate limits (\<^verbatim>\<open>internal/api/middleware.go\<close>): one token bucket per key, created full, refilled by the passing of time and
  dropped only once it is full again. The counts the code keeps in \<open>float64\<close> are exact rationals here. Go visits a map in an
  order of its own: \<open>order\<close> lists the keys as an eviction meets them.
\<close>

section \<open>Buckets\<close>

record rate_limiter =
  lm_tokens :: rat
  lm_max :: rat
  lm_rate :: rat
  lm_last :: time

type_synonym limiters = "(string \<times> rate_limiter) list"

definition defaultMaxLimiters :: nat where
  "defaultMaxLimiters = 100000"

definition limiterEvictionProbe :: nat where
  "limiterEvictionProbe = 64"

definition seconds_between :: "time \<Rightarrow> time \<Rightarrow> rat" where
  "seconds_between a b = of_int (b - a) / of_int second"

definition limiter_refilled :: "rate_limiter \<Rightarrow> time \<Rightarrow> bool" where
  "limiter_refilled l now \<longleftrightarrow> lm_tokens l + seconds_between (lm_last l) now * lm_rate l \<ge> lm_max l"

definition drop_key :: "string \<Rightarrow> limiters \<Rightarrow> limiters" where
  "drop_key k ls = filter (\<lambda>(k', _). k' \<noteq> k) ls"

definition put_key :: "string \<Rightarrow> rate_limiter \<Rightarrow> limiters \<Rightarrow> limiters" where
  "put_key k l ls = (k, l) # drop_key k ls"

definition sweepLimiters :: "time \<Rightarrow> limiters \<Rightarrow> limiters" where
  "sweepLimiters now ls = filter (\<lambda>(_, l). \<not> (now - lm_last l > minute \<and> limiter_refilled l now)) ls"

text \<open>The eviction looks at a bounded sample and drops the first full bucket of it.\<close>

definition evictRefilledLocked :: "(string list \<Rightarrow> string list) \<Rightarrow> time \<Rightarrow> limiters \<Rightarrow> bool \<times> limiters" where
  "evictRefilledLocked order now ls =
     (case List.find (\<lambda>k. case map_of ls k of None \<Rightarrow> False | Some l \<Rightarrow> limiter_refilled l now) (take limiterEvictionProbe (order (map fst ls))) of
        None \<Rightarrow> (False, ls) | Some k \<Rightarrow> (True, drop_key k ls))"

definition fill :: "rate_limiter \<Rightarrow> time \<Rightarrow> rate_limiter" where
  "fill l now = l\<lparr>lm_tokens := min (lm_max l) (lm_tokens l + seconds_between (lm_last l) now * lm_rate l), lm_last := now\<rparr>"

definition take_token :: "string \<Rightarrow> rate_limiter \<Rightarrow> time \<Rightarrow> limiters \<Rightarrow> bool \<times> limiters" where
  "take_token key l now ls =
     (let l1 = fill l now
      in if lm_tokens l1 < 1 then (False, put_key key l1 ls) else (True, put_key key (l1\<lparr>lm_tokens := lm_tokens l1 - 1\<rparr>) ls))"

definition allowRateLimit :: "(string list \<Rightarrow> string list) \<Rightarrow> nat \<Rightarrow> string \<Rightarrow> rat \<Rightarrow> rat \<Rightarrow> time \<Rightarrow> limiters \<Rightarrow> bool \<times> limiters" where
  "allowRateLimit order maxLimiters key maxTokens refillRate now ls =
     (case map_of ls key of
        Some l \<Rightarrow> take_token key l now ls
      | None \<Rightarrow>
         (let new = \<lparr>lm_tokens = maxTokens, lm_max = maxTokens, lm_rate = refillRate, lm_last = now\<rparr>
          in if length ls \<ge> maxLimiters then
               (case evictRefilledLocked order now ls of
                  (False, ls') \<Rightarrow> (False, ls')
                | (True, ls') \<Rightarrow> take_token key new now ls')
             else take_token key new now ls))"

section \<open>What a key may spend\<close>

text \<open>The tokens a key could spend at an instant; one without a bucket would get a full one.\<close>

definition available :: "string \<Rightarrow> rat \<Rightarrow> time \<Rightarrow> limiters \<Rightarrow> rat" where
  "available key maxTokens now ls = (case map_of ls key of None \<Rightarrow> maxTokens | Some l \<Rightarrow> min (lm_max l) (lm_tokens l + seconds_between (lm_last l) now * lm_rate l))"

text \<open>Every bucket of the key was made by its own limit, and none is dated ahead of the clock.\<close>

definition bucket_ok :: "string \<Rightarrow> rat \<Rightarrow> rat \<Rightarrow> time \<Rightarrow> limiters \<Rightarrow> bool" where
  "bucket_ok key maxTokens refillRate now ls \<longleftrightarrow>
     (case map_of ls key of None \<Rightarrow> True | Some l \<Rightarrow> lm_max l = maxTokens \<and> lm_rate l = refillRate \<and> lm_last l \<le> now \<and> 0 \<le> lm_tokens l \<and> lm_tokens l \<le> maxTokens)"

lemma map_of_drop: "map_of (drop_key k ls) k' = (if k' = k then None else map_of ls k')"
  by (induction ls) (auto simp: drop_key_def)

lemma map_of_put: "map_of (put_key k l ls) k' = (if k' = k then Some l else map_of ls k')"
  by (simp add: put_key_def map_of_drop)

lemma seconds_between_simps [simp]: "seconds_between a a = 0"
  by (simp add: seconds_between_def)

lemma seconds_between_add: "seconds_between a b + seconds_between b c = seconds_between a c"
  by (simp add: seconds_between_def add_divide_distrib[symmetric])

lemma seconds_between_nonneg: "a \<le> b \<Longrightarrow> 0 \<le> seconds_between a b"
  by (simp add: seconds_between_def)

text \<open>Waiting adds at most what the rate adds.\<close>

lemma available_later:
  assumes "bucket_ok key m r t ls" "t \<le> t'" "0 \<le> r"
  shows "available key m t' ls \<le> available key m t ls + seconds_between t t' * r" "bucket_ok key m r t' ls"
proof -
  have s: "0 \<le> seconds_between t t' * r" using assms by (simp add: seconds_between_nonneg)
  show "available key m t' ls \<le> available key m t ls + seconds_between t t' * r"
  proof (cases "map_of ls key")
    case None
    with s show ?thesis by (simp add: available_def)
  next
    case (Some l)
    with assms(1) have l: "lm_max l = m" "lm_rate l = r" by (auto simp: bucket_ok_def)
    have "seconds_between (lm_last l) t' * r = seconds_between (lm_last l) t * r + seconds_between t t' * r"
      using seconds_between_add[of "lm_last l" t t'] by (simp add: distrib_right[symmetric])
    with s Some l show ?thesis by (simp add: available_def min_def)
  qed
  show "bucket_ok key m r t' ls" using assms by (auto simp: bucket_ok_def split: option.splits)
qed

text \<open>An operation at the instant \<open>t\<close>: it may spend one token of \<open>key\<close>, and nothing else changes what the key has.\<close>

lemma take_token_own:
  assumes "take_token key l t ls = (ok, ls')" "lm_max l = m" "lm_rate l = r" "lm_last l \<le> t" "0 \<le> lm_tokens l" "lm_tokens l \<le> m" "0 \<le> r"
    and av: "available key m t ls = min m (lm_tokens l + seconds_between (lm_last l) t * r)"
  shows "available key m t ls' = available key m t ls - (if ok then 1 else 0)" "bucket_ok key m r t ls'" "ok \<Longrightarrow> 1 \<le> available key m t ls"
proof -
  have f: "0 \<le> lm_tokens l + seconds_between (lm_last l) t * r" using assms by (simp add: seconds_between_nonneg)
  show "available key m t ls' = available key m t ls - (if ok then 1 else 0)" "ok \<Longrightarrow> 1 \<le> available key m t ls"
    using assms by (auto simp: take_token_def fill_def Let_def available_def map_of_put split: if_splits)
  show "bucket_ok key m r t ls'" using assms f by (auto simp: take_token_def fill_def Let_def bucket_ok_def map_of_put split: if_splits)
qed

lemma take_token_other:
  assumes "take_token k l t ls = (ok, ls')" "k \<noteq> key"
  shows "available key m t' ls' = available key m t' ls" "bucket_ok key m r t' ls' = bucket_ok key m r t' ls"
  using assms by (auto simp: take_token_def Let_def available_def bucket_ok_def map_of_put split: if_splits)

lemma drop_refilled:
  assumes "map_of ls k = Some l" "limiter_refilled l t" "bucket_ok key m r t ls"
  shows "available key m t (drop_key k ls) = available key m t ls" "bucket_ok key m r t (drop_key k ls)"
  using assms by (auto simp: available_def bucket_ok_def limiter_refilled_def map_of_drop)

lemma evict_keeps:
  assumes "evictRefilledLocked order t ls = (ok, ls')" "bucket_ok key m r t ls"
  shows "available key m t ls' = available key m t ls" "bucket_ok key m r t ls'"
  using assms drop_refilled[of ls _ _ t key m r]
  by (auto simp: evictRefilledLocked_def split: option.splits dest!: find_SomeD)

lemma allow_own:
  assumes a: "allowRateLimit order cap key m r t ls = (ok, ls')" and b: "bucket_ok key m r t ls" "0 \<le> r" "0 \<le> m"
  shows "available key m t ls' = available key m t ls - (if ok then 1 else 0)" "bucket_ok key m r t ls'"
proof -
  have new: "available key m t xs' = available key m t xs - (if ok then 1 else 0) \<and> bucket_ok key m r t xs'"
    if "take_token key \<lparr>lm_tokens = m, lm_max = m, lm_rate = r, lm_last = t\<rparr> t xs = (ok, xs')" "map_of xs key = None" for xs xs'
    using take_token_own(1,2)[OF that(1), of m r] that(2) b by (simp add: available_def)
  have "available key m t ls' = available key m t ls - (if ok then 1 else 0) \<and> bucket_ok key m r t ls'"
  proof (cases "map_of ls key")
    case (Some l)
    with a have "take_token key l t ls = (ok, ls')" by (simp add: allowRateLimit_def)
    from take_token_own(1,2)[OF this, of m r] Some b show ?thesis by (simp add: bucket_ok_def available_def)
  next
    case None
    show ?thesis
    proof (cases "length ls \<ge> cap")
      case False
      with a None new show ?thesis by (simp add: allowRateLimit_def Let_def)
    next
      case True
      obtain e xs where ev: "evictRefilledLocked order t ls = (e, xs)" by fastforce
      have none: "map_of xs key = None" using ev None by (auto simp: evictRefilledLocked_def map_of_drop split: option.splits)
      have "available key m t xs = available key m t ls" "bucket_ok key m r t xs" using evict_keeps[OF ev b(1)] by auto
      with a None True ev new[OF _ none] show ?thesis by (cases e) (auto simp: allowRateLimit_def Let_def)
    qed
  qed
  then show "available key m t ls' = available key m t ls - (if ok then 1 else 0)" "bucket_ok key m r t ls'" by auto
qed

lemma allow_other:
  assumes a: "allowRateLimit order cap k m' r' t ls = (ok, ls')" "k \<noteq> key" and b: "bucket_ok key m r t ls"
  shows "available key m t ls' = available key m t ls \<and> bucket_ok key m r t ls'"
proof (cases "map_of ls k = None \<and> length ls \<ge> cap")
  case True
  obtain e xs where ev: "evictRefilledLocked order t ls = (e, xs)" by fastforce
  note kept = evict_keeps[OF ev b]
  show ?thesis
  proof (cases e)
    case True2: True
    with a True ev have "take_token k \<lparr>lm_tokens = m', lm_max = m', lm_rate = r', lm_last = t\<rparr> t xs = (ok, ls')" by (simp add: allowRateLimit_def)
    with take_token_other[OF this a(2)] kept show ?thesis by simp
  next
    case False
    with a True ev kept show ?thesis by (simp add: allowRateLimit_def)
  qed
next
  case False
  with a obtain l where "take_token k l t ls = (ok, ls')" by (auto simp: allowRateLimit_def Let_def split: option.splits if_splits)
  with take_token_other[OF this a(2)] b show ?thesis by simp
qed

lemma sweep_keeps:
  assumes "distinct (map fst ls)" "bucket_ok key m r t ls"
  shows "available key m t (sweepLimiters t ls) = available key m t ls \<and> bucket_ok key m r t (sweepLimiters t ls)"
proof -
  have "map_of (sweepLimiters t ls) key = (case map_of ls key of None \<Rightarrow> None | Some l \<Rightarrow> if t - lm_last l > minute \<and> limiter_refilled l t then None else Some l)"
    using assms(1) by (induction ls) (auto simp: sweepLimiters_def map_of_eq_None_iff image_iff split: option.splits)
  with assms(2) show ?thesis by (auto simp: available_def bucket_ok_def limiter_refilled_def split: option.splits)
qed

lemma limiter_keys:
  "distinct (map fst ls) \<Longrightarrow> distinct (map fst (drop_key k ls))"
  "distinct (map fst ls) \<Longrightarrow> distinct (map fst (put_key k l ls))"
  "distinct (map fst ls) \<Longrightarrow> distinct (map fst (sweepLimiters t ls))"
  by (auto simp: drop_key_def put_key_def sweepLimiters_def intro: distinct_map_filter)

lemma allow_keys:
  assumes "allowRateLimit order cap k m r t ls = (ok, ls')" "distinct (map fst ls)"
  shows "distinct (map fst ls')"
  using assms limiter_keys
  by (auto simp: allowRateLimit_def take_token_def evictRefilledLocked_def Let_def split: option.splits if_splits prod.splits)

text \<open>A history of the limiter: calls for the key and for others, and sweeps, at times that do not run backwards.\<close>

inductive limiter_run :: "(string list \<Rightarrow> string list) \<Rightarrow> nat \<Rightarrow> string \<Rightarrow> rat \<Rightarrow> rat \<Rightarrow> time \<Rightarrow> limiters \<Rightarrow> nat \<Rightarrow> time \<Rightarrow> limiters \<Rightarrow> bool"
  for order cap key m r t0 ls0 where
  start: "limiter_run order cap key m r t0 ls0 0 t0 ls0"
| own: "limiter_run order cap key m r t0 ls0 n t ls \<Longrightarrow> t \<le> t' \<Longrightarrow> allowRateLimit order cap key m r t' ls = (ok, ls') \<Longrightarrow>
     limiter_run order cap key m r t0 ls0 (if ok then Suc n else n) t' ls'"
| other: "limiter_run order cap key m r t0 ls0 n t ls \<Longrightarrow> t \<le> t' \<Longrightarrow> k \<noteq> key \<Longrightarrow> allowRateLimit order cap k m' r' t' ls = (ok, ls') \<Longrightarrow>
     limiter_run order cap key m r t0 ls0 n t' ls'"
| sweep: "limiter_run order cap key m r t0 ls0 n t ls \<Longrightarrow> t \<le> t' \<Longrightarrow> limiter_run order cap key m r t0 ls0 n t' (sweepLimiters t' ls)"

lemma limiter_run_account:
  assumes "limiter_run order cap key m r t0 ls0 n t ls" "distinct (map fst ls0)" "bucket_ok key m r t0 ls0" "0 \<le> r" "0 \<le> m"
  shows "distinct (map fst ls) \<and> bucket_ok key m r t ls \<and> of_nat n + available key m t ls \<le> available key m t0 ls0 + seconds_between t0 t * r"
  using assms
proof (induction rule: limiter_run.induct)
  case start
  then show ?case by simp
next
  case (own n t ls t' ok ls')
  then have IH: "distinct (map fst ls)" "bucket_ok key m r t ls" "of_nat n + available key m t ls \<le> available key m t0 ls0 + seconds_between t0 t * r" by auto
  note later = available_later[OF IH(2) own.hyps(2) own.prems(3)]
  note al = allow_own[OF own.hyps(3) later(2) own.prems(3,4)]
  have "seconds_between t0 t' * r = seconds_between t0 t * r + seconds_between t t' * r" using seconds_between_add[of t0 t t'] by (simp add: distrib_right[symmetric])
  with IH later(1) al allow_keys[OF own.hyps(3) IH(1)] show ?case by (cases ok) auto
next
  case (other n t ls t' k m' r' ok ls')
  then have IH: "distinct (map fst ls)" "bucket_ok key m r t ls" "of_nat n + available key m t ls \<le> available key m t0 ls0 + seconds_between t0 t * r" by auto
  note later = available_later[OF IH(2) other.hyps(2) other.prems(3)]
  have "seconds_between t0 t' * r = seconds_between t0 t * r + seconds_between t t' * r" using seconds_between_add[of t0 t t'] by (simp add: distrib_right[symmetric])
  with IH later(1) allow_other[OF other.hyps(4,3) later(2)] allow_keys[OF other.hyps(4) IH(1)] show ?case by auto
next
  case (sweep n t ls t')
  then have IH: "distinct (map fst ls)" "bucket_ok key m r t ls" "of_nat n + available key m t ls \<le> available key m t0 ls0 + seconds_between t0 t * r" by auto
  note later = available_later[OF IH(2) sweep.hyps(2) sweep.prems(3)]
  have "seconds_between t0 t' * r = seconds_between t0 t * r + seconds_between t t' * r" using seconds_between_add[of t0 t t'] by (simp add: distrib_right[symmetric])
  with IH later(1) sweep_keeps[OF IH(1) later(2)] limiter_keys(3)[OF IH(1)] show ?case by auto
qed



end
