(* ===== verification/Ky_Gate.thy ===== *)
theory Ky_Gate
  imports Ky_OAuth Ky_StepUp Ky_Accounts
begin

text \<open>
  Who may call what (\<^verbatim>\<open>internal/api/middleware.go\<close>, \<^verbatim>\<open>permissions.go\<close>, \<^verbatim>\<open>stepup.go\<close> and the
  route table of \<^verbatim>\<open>server.go\<close>): the session behind a request, the CSRF check, the permission of an administrative route
  and the step-up grant it spends. A guard answers with the status and error it writes or with what it hands to the handler.
\<close>

section \<open>Requests\<close>

record http_request =
  hr_method :: string
  hr_path :: string
  hr_id :: string
  hr_session_token :: string
  hr_csrf_cookie :: string
  hr_csrf_header :: string
  hr_csrf_form :: string
  hr_step_up :: string
  hr_ip :: string
  hr_agent :: string

type_synonym 'a guard = "world \<Rightarrow> ((nat \<times> string) + 'a) \<times> world"

text \<open>\<open>sha\<close> is the hex SHA-256 and \<open>hmac\<close> the signature under the server's CSRF key.\<close>

definition authenticate :: "(world \<Rightarrow> world) \<Rightarrow> (string \<Rightarrow> string) \<Rightarrow> string \<Rightarrow> world \<Rightarrow> (user \<times> session) option \<times> world" where
  "authenticate other sha token w =
     (if token = '''' then (None, w)
      else let w1 = other w; l = SessionLimits (w_db w1); w2 = other w1
           in case GetSessionByTokenHash (sha token) (IdleTTL l) (w_now w2) (w_db w2) of
                None \<Rightarrow> (None, w2)
              | Some sess \<Rightarrow>
                 (let w3 = other w2
                  in case GetUserByID (ses_user_id sess) (w_now w3) (w_db w3) of
                       None \<Rightarrow> (None, w3)
                     | Some u \<Rightarrow>
                        if usr_status u \<noteq> Active then (None, w3)
                        else let w4 = other w3 in (Some (u, sess), w4\<lparr>w_db := TouchSession (ses_id sess) (w_now w4) (w_db w4)\<rparr>)))"

definition enrollmentRouteAllowed :: "string \<Rightarrow> string \<Rightarrow> bool" where
  "enrollmentRouteAllowed m p \<longleftrightarrow> m @ '' '' @ p \<in>
     {''GET /api/auth/me'', ''POST /api/auth/logout'', ''GET /api/user/devices'', ''GET /api/user/passkeys'',
      ''GET /api/auth/step-up/methods'', ''POST /api/auth/step-up'', ''POST /api/auth/step-up/finish'', ''POST /api/auth/step-up/cancel'',
      ''POST /api/user/devices/pairing-token'', ''POST /api/user/mfa/totp/setup'', ''POST /api/user/mfa/totp/enable'',
      ''POST /api/user/passkeys/register/begin'', ''POST /api/user/passkeys/register/finish''}"

definition passwordChangeRouteAllowed :: "string \<Rightarrow> string \<Rightarrow> bool" where
  "passwordChangeRouteAllowed m p \<longleftrightarrow> m @ '' '' @ p = ''POST /api/user/password'' \<or> enrollmentRouteAllowed m p"

definition RequireAuth :: "(world \<Rightarrow> world) \<Rightarrow> (string \<Rightarrow> string) \<Rightarrow> http_request \<Rightarrow> (user \<times> session) guard" where
  "RequireAuth other sha r w =
     (case authenticate other sha (hr_session_token r) w of
        (None, w1) \<Rightarrow> (Inl (401, ''unauthorized''), w1)
      | (Some (u, sess), w1) \<Rightarrow>
         (let w2 = other w1
          in case SessionEnrollmentStatus (usr_id u) (ses_id sess) (w_now w2) (w_db w2) of
               Inl _ \<Rightarrow> (Inl (500, ''internal_error''), w2)
             | Inr status \<Rightarrow>
                if usr_password_change_required u \<and> \<not> passwordChangeRouteAllowed (hr_method r) (hr_path r) then (Inl (403, ''password_change_required''), w2)
                else if es_restricted status \<and> \<not> enrollmentRouteAllowed (hr_method r) (hr_path r) then (Inl (403, ''enrollment_required''), w2)
                else (Inr (u, sess), w2)))"

section \<open>CSRF\<close>

text \<open>\<open>random\<close> is the hex string drawn for a browser without a session.\<close>

definition IssueCSRFToken :: "(string \<Rightarrow> string) \<Rightarrow> (string \<Rightarrow> string) \<Rightarrow> string \<Rightarrow> string \<Rightarrow> string" where
  "IssueCSRFToken sha hmac random token = (if token = '''' then ''u.'' @ random else ''s.'' @ hmac (sha token))"

definition csrfTokenMatchesSession :: "(string \<Rightarrow> string) \<Rightarrow> (string \<Rightarrow> string) \<Rightarrow> string \<Rightarrow> string \<Rightarrow> string \<Rightarrow> bool" where
  "csrfTokenMatchesSession sha hmac random session csrf \<longleftrightarrow>
     (let expected = IssueCSRFToken sha hmac random session in expected \<noteq> '''' \<and> expected = csrf)"

definition has_prefix :: "string \<Rightarrow> string \<Rightarrow> bool" where
  "has_prefix p s \<longleftrightarrow> take (length p) s = p"

definition has_suffix :: "string \<Rightarrow> string \<Rightarrow> bool" where
  "has_suffix p s \<longleftrightarrow> length p \<le> length s \<and> drop (length s - length p) s = p"

definition csrf_exempt :: "string \<Rightarrow> bool" where
  "csrf_exempt p \<longleftrightarrow> has_prefix ''/scim/v2/'' p \<or> p \<in> {''/api/systems/register'', ''/api/notifications/native/register'', ''/api/mfa/push/respond'', ''/oauth/token'', ''/oauth/revoke'', ''/oauth/logout''} \<or>
     has_prefix ''/api/notifications/native/devices/'' p \<and> has_suffix ''/push-token'' p"

definition csrf_submitted :: "http_request \<Rightarrow> string" where
  "csrf_submitted r = (if hr_csrf_header r = '''' then hr_csrf_form r else hr_csrf_header r)"

definition CSRFValidate :: "(string \<Rightarrow> string) \<Rightarrow> (string \<Rightarrow> string) \<Rightarrow> string \<Rightarrow> http_request \<Rightarrow> (nat \<times> string) option" where
  "CSRFValidate sha hmac random r =
     (if hr_method r = ''GET'' \<or> hr_method r = ''HEAD'' \<or> hr_method r = ''OPTIONS'' then None
      else if csrf_exempt (hr_path r) then None
      else if hr_csrf_cookie r = '''' then Some (403, ''CSRF cookie missing'')
      else if hr_csrf_cookie r \<noteq> csrf_submitted r then Some (403, ''CSRF token mismatch'')
      else if hr_session_token r \<noteq> '''' \<and> \<not> csrfTokenMatchesSession sha hmac random (hr_session_token r) (hr_csrf_cookie r)
        then Some (403, ''CSRF token was not issued for this session'')
      else None)"

section \<open>Permissions\<close>

record permission =
  pm_name :: string
  pm_auditor :: bool
  pm_helpdesk :: bool
  pm_app_owner :: bool
  pm_any_owner :: bool
  pm_protect_admins :: bool

definition perm :: "string \<Rightarrow> permission" where
  "perm name = \<lparr>pm_name = name, pm_auditor = False, pm_helpdesk = False, pm_app_owner = False, pm_any_owner = False, pm_protect_admins = False\<rparr>"

definition permAdmin :: permission where
  "permAdmin = perm ''admin''"

definition permRead :: permission where
  "permRead = (perm ''read'')\<lparr>pm_auditor := True\<rparr>"

definition permDirectory :: permission where
  "permDirectory = (perm ''directory'')\<lparr>pm_auditor := True, pm_helpdesk := True, pm_any_owner := True\<rparr>"

definition permUserRead :: permission where
  "permUserRead = (perm ''user_read'')\<lparr>pm_auditor := True, pm_helpdesk := True, pm_protect_admins := True\<rparr>"

definition permRecovery :: permission where
  "permRecovery = (perm ''recovery'')\<lparr>pm_helpdesk := True, pm_protect_admins := True\<rparr>"

definition permAppRead :: permission where
  "permAppRead = (perm ''app_read'')\<lparr>pm_auditor := True, pm_app_owner := True\<rparr>"

definition permAppGrants :: permission where
  "permAppGrants = (perm ''app_grants'')\<lparr>pm_app_owner := True\<rparr>"

definition permRequests :: permission where
  "permRequests = (perm ''requests'')\<lparr>pm_any_owner := True\<rparr>"

record access =
  acs_admin :: bool
  acs_helpdesk :: bool
  acs_auditor :: bool
  acs_app_owner :: "string list"

definition allows :: "access \<Rightarrow> permission \<Rightarrow> string \<Rightarrow> bool" where
  "allows a p i \<longleftrightarrow> acs_admin a \<or> (pm_auditor p \<and> acs_auditor a \<or> pm_helpdesk p \<and> acs_helpdesk a) \<or>
     (pm_app_owner p \<and> i \<in> set (acs_app_owner a)) \<or> (pm_any_owner p \<and> acs_app_owner a \<noteq> [])"

definition access_of :: "delegations \<Rightarrow> access" where
  "access_of dl = \<lparr>acs_admin = False, acs_helpdesk = dl_helpdesk dl, acs_auditor = dl_auditor dl, acs_app_owner = dl_app_owner dl\<rparr>"

definition accessFor :: "(world \<Rightarrow> world) \<Rightarrow> user \<Rightarrow> world \<Rightarrow> access \<times> world" where
  "accessFor other u w =
     (if usr_role u = RoleAdmin then (\<lparr>acs_admin = True, acs_helpdesk = False, acs_auditor = False, acs_app_owner = []\<rparr>, w)
      else let w1 = other w in (access_of (Delegations (usr_id u) (w_db w1)), w1))"

definition delegate :: "delegations \<Rightarrow> bool" where
  "delegate dl \<longleftrightarrow> dl_helpdesk dl \<or> dl_auditor dl \<or> dl_app_owner dl \<noteq> []"

text \<open>Whether the account named in the path is an administrator's or a delegate's.\<close>

definition protected_target :: "(world \<Rightarrow> world) \<Rightarrow> string \<Rightarrow> world \<Rightarrow> bool \<times> world" where
  "protected_target other i w =
     (let w1 = other w
      in case GetUserByID i (w_now w1) (w_db w1) of
           None \<Rightarrow> (False, w1)
         | Some t \<Rightarrow> if usr_role t = RoleAdmin then (True, w1) else let w2 = other w1 in (delegate (Delegations (usr_id t) (w_db w2)), w2))"

section \<open>Step-up\<close>

definition stepUpOperation :: "string \<Rightarrow> string" where
  "stepUpOperation op = (if op = ''POST /api/user/mfa/totp/setup'' then ''POST /api/user/mfa/totp/enable''
     else if op = ''POST /api/user/passkeys/register/begin'' then ''POST /api/user/passkeys/register/finish'' else op)"

definition operation_of :: "http_request \<Rightarrow> string" where
  "operation_of r = stepUpOperation (hr_method r @ '' '' @ hr_path r)"

definition consumeStepUp :: "(world \<Rightarrow> world) \<Rightarrow> (string \<Rightarrow> string) \<Rightarrow> user \<Rightarrow> session \<Rightarrow> http_request \<Rightarrow> world \<Rightarrow> bool \<times> world" where
  "consumeStepUp other sha u sess r w =
     (if hr_step_up r = '''' then (False, w)
      else let w1 = other w
           in case ConsumeStepUpToken (sha (hr_step_up r)) (usr_id u) (ses_id sess) (operation_of r) (w_now w1) (w_db w1) of
                (spent, d) \<Rightarrow> (spent, w1\<lparr>w_db := d\<rparr>))"

definition buildEvent :: "string \<Rightarrow> string \<Rightarrow> string \<Rightarrow> string \<Rightarrow> string \<Rightarrow> string \<Rightarrow> string \<Rightarrow> outcome \<Rightarrow> json \<Rightarrow> string \<Rightarrow> time \<Rightarrow> audit_event" where
  "buildEvent action actor name target kind ip agent outcome details i now =
     \<lparr>au_id = i, au_actor_id = actor, au_actor_username = name, au_action = action, au_target_id = target, au_target_type = kind,
      au_ip_address = ip, au_user_agent = agent, au_outcome = outcome, au_details = details, au_created_at = Some now\<rparr>"

text \<open>
  \<open>Logger.Record\<close>: the identifier and the time are taken when the event is built, the row is one write of its own.
  \<open>Observe\<close> drops its error, so losing the row never changes the caller's answer. The console copy is not modelled.
\<close>

definition RecordEvent :: "(world \<Rightarrow> world) \<Rightarrow> (string \<Rightarrow> time \<Rightarrow> audit_event) \<Rightarrow> world \<Rightarrow> err option \<times> world" where
  "RecordEvent other ev w =
     (case fresh_id (w_db w) of (i, d) \<Rightarrow>
        let w1 = other (w\<lparr>w_db := d\<rparr>)
        in case recordAuditTx (Some (ev i (w_now w))) (w_now w1) (w_db w1) of Inl e \<Rightarrow> (Some e, w1) | Inr d' \<Rightarrow> (None, w1\<lparr>w_db := d'\<rparr>))"

definition Observe :: "(world \<Rightarrow> world) \<Rightarrow> (string \<Rightarrow> time \<Rightarrow> audit_event) \<Rightarrow> world \<Rightarrow> world" where
  "Observe other ev w = snd (RecordEvent other ev w)"

definition step_up_refusal :: "user \<Rightarrow> http_request \<Rightarrow> string \<Rightarrow> time \<Rightarrow> audit_event" where
  "step_up_refusal u r = buildEvent ''admin.step_up_required'' (usr_id u) (usr_username u) (hr_path r) ''endpoint'' (hr_ip r) (hr_agent r) Denied
     (JObj [(''method'', JStr (hr_method r))])"

text \<open>The guard of an administrative route: the session, the permission, the protected accounts, and only then the grant.\<close>

definition authorize_admin :: "(world \<Rightarrow> world) \<Rightarrow> permission \<Rightarrow> http_request \<Rightarrow> user \<Rightarrow> access guard" where
  "authorize_admin other p r u w =
     (case accessFor other u w of (a, w1) \<Rightarrow>
        if \<not> allows a p (hr_id r) then (Inl (403, ''forbidden''), w1)
        else if pm_protect_admins p \<and> \<not> acs_admin a then
          (case protected_target other (hr_id r) w1 of (prot, w2) \<Rightarrow> if prot then (Inl (403, ''forbidden''), w2) else (Inr a, w2))
        else (Inr a, w1))"

definition require :: "(world \<Rightarrow> world) \<Rightarrow> (string \<Rightarrow> string) \<Rightarrow> permission \<Rightarrow> bool \<Rightarrow> http_request \<Rightarrow> (user \<times> session \<times> access) guard" where
  "require other sha p stepUp r w =
     (case RequireAuth other sha r w of
        (Inl e, w1) \<Rightarrow> (Inl e, w1)
      | (Inr (u, sess), w1) \<Rightarrow>
         (case authorize_admin other p r u w1 of
            (Inl e, w2) \<Rightarrow> (Inl e, w2)
          | (Inr a, w2) \<Rightarrow>
             if \<not> stepUp then (Inr (u, sess, a), w2)
             else case consumeStepUp other sha u sess r w2 of
                    (True, w3) \<Rightarrow> (Inr (u, sess, a), w3)
                  | (False, w3) \<Rightarrow> (Inl (403, ''step_up_required''), Observe other (step_up_refusal u r) w3)))"

section \<open>The administrative routes\<close>

type_synonym admin_route = "string \<times> string \<times> permission \<times> bool"

definition adminRoutes :: "admin_route list" where
  "adminRoutes = [
     (''GET'', ''/api/admin/enrollment-policies'', permRead, False),
     (''POST'', ''/api/admin/enrollment-policies/preview'', permAdmin, False),
     (''PUT'', ''/api/admin/enrollment-policies'', permAdmin, True),
     (''GET'', ''/api/admin/groups'', permDirectory, False),
     (''POST'', ''/api/admin/groups'', permAdmin, True),
     (''PUT'', ''/api/admin/groups/{id}'', permAdmin, True),
     (''DELETE'', ''/api/admin/groups/{id}'', permAdmin, True),
     (''GET'', ''/api/admin/groups/{id}/members'', permDirectory, False),
     (''PUT'', ''/api/admin/groups/{id}/members/{userId}'', permAdmin, True),
     (''DELETE'', ''/api/admin/groups/{id}/members/{userId}'', permAdmin, True),
     (''GET'', ''/api/admin/users'', permDirectory, False),
     (''POST'', ''/api/admin/users'', permAdmin, True),
     (''PUT'', ''/api/admin/users/{id}'', permAdmin, True),
     (''POST'', ''/api/admin/users/{id}/reset-mfa'', permRecovery, True),
     (''POST'', ''/api/admin/users/{id}/revoke-sessions'', permRecovery, False),
     (''GET'', ''/api/admin/users/{id}/sessions'', permUserRead, False),
     (''DELETE'', ''/api/admin/users/{id}/sessions/{sid}'', permRecovery, False),
     (''POST'', ''/api/admin/users/{id}/apps/{clientId}/revoke'', permRecovery, False),
     (''POST'', ''/api/admin/users/{id}/logouts/{deliveryId}/retry'', permRecovery, False),
     (''GET'', ''/api/admin/users/{id}/offboarding'', permUserRead, False),
     (''POST'', ''/api/admin/users/{id}/activation-link'', permRecovery, True),
     (''POST'', ''/api/admin/users/{id}/reset-link'', permRecovery, True),
     (''GET'', ''/api/admin/app-registry/{id}/roles'', permAppRead, False),
     (''POST'', ''/api/admin/app-registry/{id}/roles'', permAppGrants, True),
     (''DELETE'', ''/api/admin/app-registry/{id}/roles/{roleId}'', permAppGrants, True),
     (''PUT'', ''/api/admin/app-registry/{id}/roles/{roleId}/assignments/{kind}/{principal}'', permAppGrants, True),
     (''DELETE'', ''/api/admin/app-registry/{id}/roles/{roleId}/assignments/{kind}/{principal}'', permAppGrants, True),
     (''PUT'', ''/api/admin/app-registry/{id}/claims'', permAdmin, True),
     (''GET'', ''/api/admin/scim-connectors'', permRead, False),
     (''POST'', ''/api/admin/scim-connectors'', permAdmin, True),
     (''PUT'', ''/api/admin/scim-connectors/{id}'', permAdmin, True),
     (''POST'', ''/api/admin/scim-connectors/{id}/tokens'', permAdmin, True),
     (''DELETE'', ''/api/admin/scim-connectors/{id}/tokens/{tokenId}'', permAdmin, False),
     (''DELETE'', ''/api/admin/scim-connectors/{id}'', permAdmin, True),
     (''GET'', ''/api/admin/mail'', permRead, False),
     (''PUT'', ''/api/admin/mail'', permAdmin, True),
     (''POST'', ''/api/admin/mail/test'', permAdmin, False),
     (''DELETE'', ''/api/admin/users/{id}'', permAdmin, True),
     (''GET'', ''/api/admin/systems/{id}/deliveries'', permRead, False),
     (''GET'', ''/api/admin/systems/{id}/deliveries/failing'', permRead, False),
     (''POST'', ''/api/admin/systems/{id}/deliveries/{token}/read-back'', permAdmin, False),
     (''POST'', ''/api/admin/systems/{id}/deliveries/{token}/resume'', permAdmin, True),
     (''POST'', ''/api/admin/systems/{id}/deliveries/resume'', permAdmin, True),
     (''GET'', ''/api/admin/systems/{id}/provisioning'', permRead, False),
     (''POST'', ''/api/admin/systems/{id}/provisioning/{userId}/retry'', permAdmin, False),
     (''GET'', ''/api/admin/systems/{id}/reconcile'', permRead, False),
     (''POST'', ''/api/admin/systems/{id}/reconcile/preview'', permAdmin, False),
     (''POST'', ''/api/admin/systems/{id}/reconcile/repair'', permAdmin, True),
     (''GET'', ''/api/admin/systems'', permRead, False),
     (''PUT'', ''/api/admin/systems/{id}/connection'', permAdmin, True),
     (''POST'', ''/api/admin/systems/{id}/test'', permAdmin, False),
     (''POST'', ''/api/admin/systems'', permAdmin, True),
     (''POST'', ''/api/admin/systems/{id}/resync'', permAdmin, False),
     (''POST'', ''/api/admin/systems/{id}/recovery-evidence'', permAdmin, True),
     (''POST'', ''/api/admin/systems/{id}/provisioning/resume'', permAdmin, True),
     (''DELETE'', ''/api/admin/systems/{id}'', permAdmin, True),
     (''GET'', ''/api/admin/clients'', permRead, False),
     (''POST'', ''/api/admin/clients'', permAdmin, True),
     (''PUT'', ''/api/admin/clients/{id}'', permAdmin, True),
     (''DELETE'', ''/api/admin/clients/{id}'', permAdmin, True),
     (''PUT'', ''/api/admin/clients/{id}/launcher'', permAdmin, False),
     (''GET'', ''/api/admin/app-registry/{id}/access-users'', permAppRead, False),
     (''GET'', ''/api/admin/app-registry/{id}/access-groups'', permAppRead, False),
     (''PUT'', ''/api/admin/app-registry/{id}/access-policy'', permAdmin, True),
     (''PUT'', ''/api/admin/app-registry/{id}/assignments/{kind}/{principal}'', permAppGrants, True),
     (''DELETE'', ''/api/admin/app-registry/{id}/assignments/{kind}/{principal}'', permAppGrants, True),
     (''PUT'', ''/api/admin/app-registry/{id}/authentication-policy'', permAdmin, True),
     (''GET'', ''/api/admin/app-registry'', permDirectory, False),
     (''POST'', ''/api/admin/app-registry/{id}/link'', permAdmin, True),
     (''POST'', ''/api/admin/app-registry/{id}/unlink'', permAdmin, True),
     (''GET'', ''/api/admin/applications'', permRead, False),
     (''POST'', ''/api/admin/applications'', permAdmin, False),
     (''PUT'', ''/api/admin/applications/{id}'', permAdmin, False),
     (''DELETE'', ''/api/admin/applications/{id}'', permAdmin, False),
     (''POST'', ''/api/admin/icons'', permAdmin, False),
     (''GET'', ''/api/admin/audit-events'', permRead, False),
     (''GET'', ''/api/admin/audit-events/export'', permRead, False),
     (''GET'', ''/api/admin/alerts'', permRead, False),
     (''POST'', ''/api/admin/alerts/{id}/acknowledge'', permAdmin, False),
     (''GET'', ''/api/admin/alerts/settings'', permRead, False),
     (''PUT'', ''/api/admin/alerts/settings'', permAdmin, True),
     (''GET'', ''/api/admin/attestation/settings'', permRead, False),
     (''PUT'', ''/api/admin/attestation/settings'', permAdmin, True),
     (''PUT'', ''/api/admin/branding/name'', permAdmin, False),
     (''PUT'', ''/api/admin/branding/logo'', permAdmin, False),
     (''DELETE'', ''/api/admin/branding/logo'', permAdmin, False),
     (''GET'', ''/api/admin/session-settings'', permRead, False),
     (''PUT'', ''/api/admin/session-settings'', permAdmin, True),
     (''POST'', ''/api/admin/backup/drill'', permAdmin, False),
     (''GET'', ''/api/admin/backup/export-capsule'', permAdmin, True),
     (''POST'', ''/api/admin/backup/pair-remote'', permAdmin, True),
     (''POST'', ''/api/admin/backup/deposit'', permAdmin, False),
     (''DELETE'', ''/api/admin/backup/pairing'', permAdmin, True),
     (''POST'', ''/api/admin/backup/pin-key'', permAdmin, True),
     (''PUT'', ''/api/admin/backup/schedule'', permAdmin, True),
     (''GET'', ''/api/admin/backup/status'', permRead, False),
     (''GET'', ''/api/admin/users/{id}/delegations'', permAdmin, False),
     (''PUT'', ''/api/admin/users/{id}/delegations'', permAdmin, True),
     (''PUT'', ''/api/admin/app-registry/{id}/requestable'', permAdmin, True),
     (''GET'', ''/api/admin/app-registry/{id}/access-users/{userId}/explain'', permAppRead, False),
     (''GET'', ''/api/admin/access-requests'', permRequests, False),
     (''POST'', ''/api/admin/access-requests/{id}/approve'', permRequests, True),
     (''POST'', ''/api/admin/access-requests/{id}/deny'', permRequests, True)]"
section \<open>What the guards leave alone\<close>

lemma authenticate_quiet:
  assumes "authenticate id sha token w = (x, w')"
  shows "\<exists>ss. w' = w\<lparr>w_db := (w_db w)\<lparr>sessions := ss\<rparr>\<rparr>"
proof (cases "w' = w")
  case True
  then show ?thesis by (intro exI[of _ "sessions (w_db w)"]) simp
next
  case False
  with assms obtain i where "w' = w\<lparr>w_db := TouchSession i (w_now w) (w_db w)\<rparr>"
    by (auto simp: authenticate_def Let_def split: if_splits option.splits)
  then show ?thesis unfolding TouchSession_def by blast
qed

lemma authenticate_SomeD:
  assumes "authenticate id sha token w = (Some (u, sess), w')"
  shows "token \<noteq> ''''" "GetSessionByTokenHash (sha token) (IdleTTL (SessionLimits (w_db w))) (w_now w) (w_db w) = Some sess"
    "GetUserByID (ses_user_id sess) (w_now w) (w_db w) = Some u" "usr_status u = Active"
  using assms by (auto simp: authenticate_def Let_def split: if_splits option.splits)

lemma RequireAuth_quiet:
  assumes "RequireAuth id sha r w = (x, w')"
  shows "\<exists>ss. w' = w\<lparr>w_db := (w_db w)\<lparr>sessions := ss\<rparr>\<rparr>"
proof -
  obtain y w1 where a: "authenticate id sha (hr_session_token r) w = (y, w1)" by (meson surj_pair)
  with assms have "w' = w1" by (auto simp: RequireAuth_def Let_def split: option.splits sum.splits if_splits prod.splits)
  with authenticate_quiet[OF a] show ?thesis by simp
qed

lemma RequireAuth_InrD:
  assumes "RequireAuth id sha r w = (Inr (u, sess), w')"
  shows "authenticate id sha (hr_session_token r) w = (Some (u, sess), w')"
    "\<exists>st. SessionEnrollmentStatus (usr_id u) (ses_id sess) (w_now w') (w_db w') = Inr st \<and> (es_restricted st \<longrightarrow> enrollmentRouteAllowed (hr_method r) (hr_path r))"
    "usr_password_change_required u \<longrightarrow> passwordChangeRouteAllowed (hr_method r) (hr_path r)"
  using assms by (auto simp: RequireAuth_def Let_def split: option.splits sum.splits if_splits prod.splits)

lemma sessions_only [simp]:
  "GetUserByID i now (d\<lparr>sessions := ss\<rparr>) = GetUserByID i now d"
  "Delegations i (d\<lparr>sessions := ss\<rparr>) = Delegations i d"
  by (simp_all add: GetUserByID_def user_by_id_def Delegations_def)

lemma authorize_admin_quiet: "authorize_admin id p r u w = (x, w') \<Longrightarrow> w' = w"
  by (auto simp: authorize_admin_def accessFor_def protected_target_def Let_def split: if_splits option.splits prod.splits)

text \<open>The rows behind a delegate's access, kind by kind.\<close>

definition delegated :: "permission \<Rightarrow> string \<Rightarrow> string \<Rightarrow> delegation \<Rightarrow> bool" where
  "delegated p i user x \<longleftrightarrow> de_user_id x = user \<and>
     (case de_kind x of Auditor \<Rightarrow> pm_auditor p | Helpdesk \<Rightarrow> pm_helpdesk p | AppOwner \<Rightarrow> pm_any_owner p \<or> pm_app_owner p \<and> ref (de_app_id x) = i)"

lemma Delegations_iffs:
  "dl_helpdesk (Delegations i d) \<longleftrightarrow> (\<exists>x \<in> set (admin_delegations d). de_user_id x = i \<and> de_kind x = Helpdesk)"
  "dl_auditor (Delegations i d) \<longleftrightarrow> (\<exists>x \<in> set (admin_delegations d). de_user_id x = i \<and> de_kind x = Auditor)"
  "dl_app_owner (Delegations i d) = [] \<longleftrightarrow> (\<forall>x \<in> set (admin_delegations d). de_user_id x = i \<longrightarrow> de_kind x \<noteq> AppOwner)"
  "a \<in> set (dl_app_owner (Delegations i d)) \<longleftrightarrow> (\<exists>x \<in> set (admin_delegations d). de_user_id x = i \<and> de_kind x = AppOwner \<and> ref (de_app_id x) = a)"
proof -
  have s: "sort xs = [] \<longleftrightarrow> xs = []" for xs :: "string list" by (metis length_0_conv length_sort)
  show "dl_app_owner (Delegations i d) = [] \<longleftrightarrow> (\<forall>x \<in> set (admin_delegations d). de_user_id x = i \<longrightarrow> de_kind x \<noteq> AppOwner)"
    by (simp add: Delegations_def Let_def s filter_empty_conv)
qed (auto simp: Delegations_def Let_def)

lemma delegate_iff: "delegate (Delegations i d) \<longleftrightarrow> (\<exists>x \<in> set (admin_delegations d). de_user_id x = i)"
proof -
  have "de_kind x = Helpdesk \<or> de_kind x = Auditor \<or> de_kind x = AppOwner" for x :: delegation by (cases "de_kind x") simp_all
  then show ?thesis unfolding delegate_def Delegations_iffs by blast
qed

lemma allows_delegated:
  "allows (access_of (Delegations user d)) p i \<longleftrightarrow> (\<exists>x \<in> set (admin_delegations d). delegated p i user x)"
proof
  assume "allows (access_of (Delegations user d)) p i"
  then consider (a) "pm_auditor p" "dl_auditor (Delegations user d)" | (h) "pm_helpdesk p" "dl_helpdesk (Delegations user d)"
    | (o) "pm_app_owner p" "i \<in> set (dl_app_owner (Delegations user d))" | (any) "pm_any_owner p" "dl_app_owner (Delegations user d) \<noteq> []"
    by (auto simp: allows_def access_of_def)
  then show "\<exists>x \<in> set (admin_delegations d). delegated p i user x"
    unfolding Delegations_iffs delegated_def by cases fastforce+
next
  assume "\<exists>x \<in> set (admin_delegations d). delegated p i user x"
  then obtain x where x: "x \<in> set (admin_delegations d)" "delegated p i user x" by blast
  then show "allows (access_of (Delegations user d)) p i"
    by (cases "de_kind x") (auto simp: delegated_def allows_def access_of_def Delegations_iffs)
qed

lemma authorize_admin_InrD:
  assumes "authorize_admin id p r u w = (Inr a, w')"
  shows "usr_role u = RoleAdmin \<or> (\<exists>x \<in> set (admin_delegations (w_db w)). delegated p (hr_id r) (usr_id u) x)"
    and "pm_protect_admins p \<Longrightarrow> usr_role u \<noteq> RoleAdmin \<Longrightarrow> GetUserByID (hr_id r) (w_now w) (w_db w) = Some t \<Longrightarrow>
      usr_role t \<noteq> RoleAdmin \<and> (\<forall>x \<in> set (admin_delegations (w_db w)). de_user_id x \<noteq> usr_id t)"
proof -
  have acc: "accessFor id u w = (if usr_role u = RoleAdmin then \<lparr>acs_admin = True, acs_helpdesk = False, acs_auditor = False, acs_app_owner = []\<rparr>
      else access_of (Delegations (usr_id u) (w_db w)), w)" by (simp add: accessFor_def)
  from assms show "usr_role u = RoleAdmin \<or> (\<exists>x \<in> set (admin_delegations (w_db w)). delegated p (hr_id r) (usr_id u) x)"
    unfolding allows_delegated[symmetric] by (auto simp: authorize_admin_def acc split: if_splits)
  assume "pm_protect_admins p" "usr_role u \<noteq> RoleAdmin" "GetUserByID (hr_id r) (w_now w) (w_db w) = Some t"
  moreover from this have "\<not> fst (protected_target id (hr_id r) w)"
    using assms by (auto simp: authorize_admin_def acc access_of_def split: if_splits prod.splits)
  ultimately have "usr_role t \<noteq> RoleAdmin \<and> \<not> delegate (Delegations (usr_id t) (w_db w))"
    by (auto simp: protected_target_def Let_def split: if_splits)
  then show "usr_role t \<noteq> RoleAdmin \<and> (\<forall>x \<in> set (admin_delegations (w_db w)). de_user_id x \<noteq> usr_id t)"
    by (auto simp: delegate_iff)
qed

lemma require_InrE:
  assumes "require id sha p stepUp r w = (Inr (u, sess, a), w')"
  obtains w1 where "RequireAuth id sha r w = (Inr (u, sess), w1)" "authorize_admin id p r u w1 = (Inr a, w1)"
    "\<not> stepUp \<Longrightarrow> w' = w1" "stepUp \<Longrightarrow> consumeStepUp id sha u sess r w1 = (True, w')"
proof -
  from assms obtain w1 where a: "RequireAuth id sha r w = (Inr (u, sess), w1)"
    by (auto simp: require_def split: sum.splits prod.splits if_splits bool.splits)
  with assms obtain w2 where b: "authorize_admin id p r u w1 = (Inr a, w2)"
    by (auto simp: require_def split: sum.splits prod.splits if_splits bool.splits)
  from a b assms have "\<not> stepUp \<Longrightarrow> w' = w2" "stepUp \<Longrightarrow> consumeStepUp id sha u sess r w2 = (True, w')"
    by (auto simp: require_def split: prod.splits if_splits bool.splits)
  with authorize_admin_quiet[OF b] show thesis using that a b by blast
qed

lemma consumeStepUp_quiet:
  assumes "consumeStepUp id sha u sess r w = (spent, w')"
  shows "hr_step_up r = '''' \<Longrightarrow> \<not> spent \<and> w' = w"
    "hr_step_up r \<noteq> '''' \<Longrightarrow> ConsumeStepUpToken (sha (hr_step_up r)) (usr_id u) (ses_id sess) (operation_of r) (w_now w) (w_db w) = (spent, w_db w') \<and> w_now w' = w_now w"
  using assms by (auto simp: consumeStepUp_def Let_def split: if_splits prod.splits)

lemma ConsumeStepUpToken_TrueD:
  assumes "ConsumeStepUpToken hash user sid op now d = (True, d')"
  obtains g where "g \<in> set (step_up_tokens d)" "su_token_hash g = hash" "su_user_id g = user" "su_session_id g = sid" "su_operation g = op"
    "su_used_at g = None" "now < su_expires_at g" "g\<lparr>su_used_at := Some now\<rparr> \<in> set (step_up_tokens d')"
proof -
  let ?p = "\<lambda>t. step_up_matches hash user sid op now t \<and> step_up_session (su_session_id t) (\<lambda>_. True) now d"
  from assms have "sql_count ?p (step_up_tokens d) = 1" and d': "step_up_tokens d' = sql_update ?p (\<lambda>t. t\<lparr>su_used_at := Some now\<rparr>) (step_up_tokens d)"
    by (auto simp: ConsumeStepUpToken_def Let_def)
  then obtain g where g: "g \<in> set (step_up_tokens d)" "?p g" using sql_count_oneD by blast
  then have "g\<lparr>su_used_at := Some now\<rparr> \<in> set (step_up_tokens d')" unfolding d' by (force simp: sql_simps)
  with g show thesis by (intro that) (simp_all add: step_up_matches_def)
qed

lemma ConsumeStepUpToken_FalseD:
  assumes "ConsumeStepUpToken hash user sid op now d = (False, d')" and "distinct (map su_token_hash (step_up_tokens d))"
  shows "step_up_tokens d' = step_up_tokens d"
proof -
  let ?q = "\<lambda>t. su_user_id t = user \<and> su_session_id t = sid \<and> su_operation t = op \<and> su_used_at t = None \<and> now < su_expires_at t \<and> step_up_session (su_session_id t) (\<lambda>_. True) now d"
  have p: "(\<lambda>t. step_up_matches hash user sid op now t \<and> step_up_session (su_session_id t) (\<lambda>_. True) now d) = (\<lambda>t. su_token_hash t = hash \<and> ?q t)"
    by (auto simp: step_up_matches_def fun_eq_iff)
  from assms(1) have "sql_count (\<lambda>t. su_token_hash t = hash \<and> ?q t) (step_up_tokens d) \<noteq> 1"
    and d': "step_up_tokens d' = sql_update (\<lambda>t. su_token_hash t = hash \<and> ?q t) (\<lambda>t. t\<lparr>su_used_at := Some now\<rparr>) (step_up_tokens d)"
    unfolding p[symmetric] by (auto simp: ConsumeStepUpToken_def Let_def)
  with sql_count_key_le[OF assms(2), of hash ?q] have "sql_count (\<lambda>t. su_token_hash t = hash \<and> ?q t) (step_up_tokens d) = 0" by linarith
  then show ?thesis unfolding d' by (intro sql_update_noop) (simp add: sql_count_0_iff)
qed

lemma Observe_grants: "step_up_tokens (w_db (Observe id ev w)) = step_up_tokens (w_db w)"
  by (auto simp: Observe_def RecordEvent_def fresh_id_def Let_def dest!: recordAuditTx_InrD split: sum.splits prod.splits)

lemma require_session:
  assumes "require id sha p stepUp r w = (Inr (u, sess, a), w')"
  shows "hr_session_token r \<noteq> '''' \<and> sess \<in> set (sessions (w_db w)) \<and> ses_token_hash sess = sha (hr_session_token r) \<and> w_now w < ses_expires_at sess \<and>
      w_now w - IdleTTL (SessionLimits (w_db w)) < ses_last_active_at sess \<and> w_now w - AbsoluteTTL (SessionLimits (w_db w)) < ses_created_at sess"
proof -
  from assms obtain w1 where ra: "RequireAuth id sha r w = (Inr (u, sess), w1)" by (rule require_InrE) blast
  from authenticate_SomeD(1,2)[OF RequireAuth_InrD(1)[OF ra]] show ?thesis by (auto simp: GetSessionByTokenHash_def find_Some_iff)
qed

lemma require_user:
  assumes "require id sha p stepUp r w = (Inr (u, sess, a), w')"
  shows "GetUserByID (ses_user_id sess) (w_now w) (w_db w) = Some u \<and> usr_status u = Active \<and>
    (usr_password_change_required u \<longrightarrow> passwordChangeRouteAllowed (hr_method r) (hr_path r))"
proof -
  from assms obtain w1 where ra: "RequireAuth id sha r w = (Inr (u, sess), w1)" by (rule require_InrE) blast
  from authenticate_SomeD(3,4)[OF RequireAuth_InrD(1)[OF ra]] RequireAuth_InrD(3)[OF ra] show ?thesis by simp
qed

lemma require_permission:
  assumes "require id sha p stepUp r w = (Inr (u, sess, a), w')"
  shows "usr_role u = RoleAdmin \<or> (\<exists>x \<in> set (admin_delegations (w_db w)). delegated p (hr_id r) (usr_id u) x)"
    and "pm_protect_admins p \<and> usr_role u \<noteq> RoleAdmin \<longrightarrow> (\<forall>t. GetUserByID (hr_id r) (w_now w) (w_db w) = Some t \<longrightarrow>
      usr_role t \<noteq> RoleAdmin \<and> (\<forall>x \<in> set (admin_delegations (w_db w)). de_user_id x \<noteq> usr_id t))"
proof -
  from assms obtain w1 where ra: "RequireAuth id sha r w = (Inr (u, sess), w1)" and az: "authorize_admin id p r u w1 = (Inr a, w1)"
    by (rule require_InrE) blast
  from RequireAuth_quiet[OF ra] obtain ss where w1: "w1 = w\<lparr>w_db := (w_db w)\<lparr>sessions := ss\<rparr>\<rparr>" ..
  from authorize_admin_InrD[OF az] show "usr_role u = RoleAdmin \<or> (\<exists>x \<in> set (admin_delegations (w_db w)). delegated p (hr_id r) (usr_id u) x)"
    and "pm_protect_admins p \<and> usr_role u \<noteq> RoleAdmin \<longrightarrow> (\<forall>t. GetUserByID (hr_id r) (w_now w) (w_db w) = Some t \<longrightarrow>
      usr_role t \<noteq> RoleAdmin \<and> (\<forall>x \<in> set (admin_delegations (w_db w)). de_user_id x \<noteq> usr_id t))" by (simp_all add: w1)
qed

lemma require_grant:
  assumes "require id sha p stepUp r w = (Inr (u, sess, a), w')"
  shows "stepUp \<longrightarrow> (\<exists>g \<in> set (step_up_tokens (w_db w)). su_token_hash g = sha (hr_step_up r) \<and> su_user_id g = usr_id u \<and> su_session_id g = ses_id sess \<and>
      su_operation g = operation_of r \<and> su_used_at g = None \<and> w_now w < su_expires_at g \<and> g\<lparr>su_used_at := Some (w_now w)\<rparr> \<in> set (step_up_tokens (w_db w')))"
proof
  assume s: stepUp
  from assms obtain w1 where ra: "RequireAuth id sha r w = (Inr (u, sess), w1)" and su: "consumeStepUp id sha u sess r w1 = (True, w')"
    by (rule require_InrE) (use s in blast)
  from RequireAuth_quiet[OF ra] obtain ss where w1: "w1 = w\<lparr>w_db := (w_db w)\<lparr>sessions := ss\<rparr>\<rparr>" ..
  from consumeStepUp_quiet[OF su] have "ConsumeStepUpToken (sha (hr_step_up r)) (usr_id u) (ses_id sess) (operation_of r) (w_now w1) (w_db w1) = (True, w_db w')" by blast
  then obtain g where "g \<in> set (step_up_tokens (w_db w1))" "su_token_hash g = sha (hr_step_up r)" "su_user_id g = usr_id u" "su_session_id g = ses_id sess"
    "su_operation g = operation_of r" "su_used_at g = None" "w_now w1 < su_expires_at g" "g\<lparr>su_used_at := Some (w_now w1)\<rparr> \<in> set (step_up_tokens (w_db w'))"
    by (rule ConsumeStepUpToken_TrueD)
  then show "\<exists>g \<in> set (step_up_tokens (w_db w)). su_token_hash g = sha (hr_step_up r) \<and> su_user_id g = usr_id u \<and> su_session_id g = ses_id sess \<and>
    su_operation g = operation_of r \<and> su_used_at g = None \<and> w_now w < su_expires_at g \<and> g\<lparr>su_used_at := Some (w_now w)\<rparr> \<in> set (step_up_tokens (w_db w'))"
    by (auto simp: w1)
qed

text \<open>
  C19. What passing the guard of an administrative route proves, on a server with no other request under way: the cookie is
  the token of a session that is neither expired, idle nor past the absolute limit, its account is active, neither a pending
  password change nor a missing enrolment bars the route, the account is an administrator or holds a delegation row that covers this very route and
  record, a caller who is not an administrator reaches no administrator's and no delegate's account through a recovery route, and where the route asks for
  re-authentication the request carried an unspent grant for this operation, account and session, now spent.
\<close>

theorem admin_route_means:
  assumes "require id sha p stepUp r w = (Inr (u, sess, a), w')"
  shows "hr_session_token r \<noteq> '''' \<and> sess \<in> set (sessions (w_db w)) \<and> ses_token_hash sess = sha (hr_session_token r) \<and> w_now w < ses_expires_at sess \<and>
      w_now w - IdleTTL (SessionLimits (w_db w)) < ses_last_active_at sess \<and> w_now w - AbsoluteTTL (SessionLimits (w_db w)) < ses_created_at sess \<and>
    GetUserByID (ses_user_id sess) (w_now w) (w_db w) = Some u \<and> usr_status u = Active \<and>
    (usr_password_change_required u \<longrightarrow> passwordChangeRouteAllowed (hr_method r) (hr_path r)) \<and>
    (usr_role u = RoleAdmin \<or> (\<exists>x \<in> set (admin_delegations (w_db w)). delegated p (hr_id r) (usr_id u) x)) \<and>
    (pm_protect_admins p \<and> usr_role u \<noteq> RoleAdmin \<longrightarrow> (\<forall>t. GetUserByID (hr_id r) (w_now w) (w_db w) = Some t \<longrightarrow>
      usr_role t \<noteq> RoleAdmin \<and> (\<forall>x \<in> set (admin_delegations (w_db w)). de_user_id x \<noteq> usr_id t))) \<and>
    (stepUp \<longrightarrow> (\<exists>g \<in> set (step_up_tokens (w_db w)). su_token_hash g = sha (hr_step_up r) \<and> su_user_id g = usr_id u \<and> su_session_id g = ses_id sess \<and>
      su_operation g = operation_of r \<and> su_used_at g = None \<and> w_now w < su_expires_at g \<and> g\<lparr>su_used_at := Some (w_now w)\<rparr> \<in> set (step_up_tokens (w_db w'))))"
  using require_session[OF assms] require_user[OF assms] require_permission[OF assms] require_grant[OF assms] by simp

text \<open>
  A refused administrative call spends no step-up grant, whatever refused it: the session, the pending password change or
  enrolment, the permission, the protected account, or a grant that does not fit.
\<close>

theorem refused_call_spends_no_grant:
  assumes "require id sha p stepUp r w = (Inl e, w')" and "distinct (map su_token_hash (step_up_tokens (w_db w)))"
  shows "step_up_tokens (w_db w') = step_up_tokens (w_db w)"
proof -
  obtain x w1 where ra: "RequireAuth id sha r w = (x, w1)" by (meson surj_pair)
  from RequireAuth_quiet[OF ra] have w1: "step_up_tokens (w_db w1) = step_up_tokens (w_db w)" by auto
  consider (auth) "w' = w1" | (more) u sess y w2 where "x = Inr (u, sess)" "authorize_admin id p r u w1 = (y, w2)"
    using assms(1) ra by (cases x) (auto simp: require_def, metis surj_pair)
  then show ?thesis
  proof cases
    case auth
    with w1 show ?thesis by simp
  next
    case (more u sess y w2)
    with authorize_admin_quiet have w2: "w2 = w1" by blast
    show ?thesis
    proof (cases "w' = w1")
      case False
      obtain b w3 where c: "consumeStepUp id sha u sess r w1 = (b, w3)" by (meson surj_pair)
      with assms(1) ra more w2 False have b: "\<not> b" and w': "w' = Observe id (step_up_refusal u r) w3"
        by (auto simp: require_def split: sum.splits if_splits bool.splits)
      have "step_up_tokens (w_db w3) = step_up_tokens (w_db w1)"
      proof (cases "hr_step_up r = ''''")
        case False
        with consumeStepUp_quiet(2)[OF c] b have "ConsumeStepUpToken (sha (hr_step_up r)) (usr_id u) (ses_id sess) (operation_of r) (w_now w1) (w_db w1) = (False, w_db w3)" by simp
        from ConsumeStepUpToken_FalseD[OF this] assms(2) w1 show ?thesis by simp
      qed (use consumeStepUp_quiet(1)[OF c] in simp)
      with w' w1 Observe_grants show ?thesis by simp
    qed (simp add: w1)
  qed
qed

lemma route_table:
  "list_all (\<lambda>(m, path, p, s). m = ''GET'' \<or> p = permAdmin \<or> p = permRecovery \<or> p = permAppGrants \<or> p = permRequests) adminRoutes"
  by code_simp

lemmas perm_defs = permAdmin_def permRead_def permDirectory_def permUserRead_def permRecovery_def permAppRead_def permAppGrants_def permRequests_def perm_def

text \<open>
  C20. What a delegate can change: whoever passes the guard of a state-changing route of the table without being an
  administrator either holds a help-desk delegation and recovers an account that is neither an administrator's nor a delegate's,
  or owns the very application whose grants it edits, or owns an application and decides access requests (which the store then
  narrows to its own). An auditor passes none of them.
\<close>

theorem delegate_writes_confined:
  assumes "(m, path, p, s) \<in> set adminRoutes" and "m \<noteq> ''GET''"
    and "require id sha p s r w = (Inr (u, sess, a), w')" and "usr_role u \<noteq> RoleAdmin"
  shows "\<exists>x \<in> set (admin_delegations (w_db w)). de_user_id x = usr_id u \<and>
    (de_kind x = Helpdesk \<and> p = permRecovery \<and> (\<forall>t. GetUserByID (hr_id r) (w_now w) (w_db w) = Some t \<longrightarrow>
        usr_role t \<noteq> RoleAdmin \<and> (\<forall>y \<in> set (admin_delegations (w_db w)). de_user_id y \<noteq> usr_id t)) \<or>
     de_kind x = AppOwner \<and> (p = permAppGrants \<and> ref (de_app_id x) = hr_id r \<or> p = permRequests))"
proof -
  from require_permission(1)[OF assms(3)] assms(4) obtain x where x: "x \<in> set (admin_delegations (w_db w))" "delegated p (hr_id r) (usr_id u) x" by blast
  have "p = permAdmin \<or> p = permRecovery \<or> p = permAppGrants \<or> p = permRequests"
    using route_table assms(1,2) by (fastforce simp: list_all_iff)
  then show ?thesis
  proof (elim disjE)
    assume p: "p = permRecovery"
    with require_permission(2)[OF assms(3)] assms(4) x show ?thesis
      by (intro bexI[OF _ x(1)]) (simp add: delegated_def perm_defs split: delegation_kind.splits)
  qed (use x in \<open>auto simp: delegated_def perm_defs split: delegation_kind.splits\<close>)
qed


section \<open>Examples\<close>

definition sample_bob :: user where
  "sample_bob = sample_ann\<lparr>usr_id := ''u2'', usr_username := ''bob'', usr_email := ''bob@example''\<rparr>"

definition sample_delegation :: delegation where
  "sample_delegation = \<lparr>de_user_id = ''u1'', de_kind = Helpdesk, de_app_id = None, de_created_at = 0\<rparr>"

definition reset_grant :: step_up_token where
  "reset_grant = sample_grant\<lparr>su_user_id := ''u1'', su_session_id := ''s1'', su_token_hash := ''tg'', su_expires_at := 1300 * second, su_used_at := None,
     su_operation := ''POST /api/admin/users/u2/reset-mfa''\<rparr>"

definition desk_world :: world where
  "desk_world = \<lparr>w_db = sample_db\<lparr>users := [sample_root, sample_ann, sample_bob], admin_delegations := [sample_delegation], step_up_tokens := [reset_grant]\<rparr>,
     w_now = sample_now\<rparr>"

definition reset_request :: "string \<Rightarrow> http_request" where
  "reset_request i = \<lparr>hr_method = ''POST'', hr_path = ''/api/admin/users/'' @ i @ ''/reset-mfa'', hr_id = i, hr_session_token = ''s1'', hr_csrf_cookie = '''',
     hr_csrf_header = '''', hr_csrf_form = '''', hr_step_up = ''g'', hr_ip = ''192.0.2.1'', hr_agent = ''browser''\<rparr>"

lemma desk_passes: "\<exists>u sess a w'. require id ((@) ''t'') permRecovery True (reset_request ''u2'') desk_world = (Inr (u, sess, a), w')"
proof -
  have "\<not> isl (fst (require id ((@) ''t'') permRecovery True (reset_request ''u2'') desk_world))" by code_simp
  then show ?thesis by (metis run_succeeds surj_pair)
qed

theorem admin_route_means_witness:
  "\<exists>u sess a w'. require id ((@) ''t'') permRecovery True (reset_request ''u2'') desk_world = (Inr (u, sess, a), w') \<and>
     GetUserByID (ses_user_id sess) (w_now desk_world) (w_db desk_world) = Some u \<and> usr_status u = Active"
  using desk_passes admin_route_means by blast

theorem refused_call_spends_no_grant_witness:
  "\<exists>e w'. require id ((@) ''t'') permRecovery True (reset_request ''u0'') desk_world = (Inl e, w') \<and> step_up_tokens (w_db w') = [reset_grant]"
proof -
  have "isl (fst (require id ((@) ''t'') permRecovery True (reset_request ''u0'') desk_world))"
    "distinct (map su_token_hash (step_up_tokens (w_db desk_world)))" "step_up_tokens (w_db desk_world) = [reset_grant]" by code_simp+
  then show ?thesis using refused_call_spends_no_grant by (metis isl_def prod.collapse)
qed

theorem delegate_writes_confined_witness:
  "\<exists>x \<in> set (admin_delegations (w_db desk_world)). de_user_id x = ''u1''"
proof -
  obtain u sess a w' where r: "require id ((@) ''t'') permRecovery True (reset_request ''u2'') desk_world = (Inr (u, sess, a), w')" using desk_passes by blast
  have "usr_id (fst (projr (fst (require id ((@) ''t'') permRecovery True (reset_request ''u2'') desk_world)))) = ''u1''"
    "usr_role (fst (projr (fst (require id ((@) ''t'') permRecovery True (reset_request ''u2'') desk_world)))) \<noteq> RoleAdmin" by code_simp+
  then have u: "usr_id u = ''u1''" "usr_role u \<noteq> RoleAdmin" by (simp_all add: r)
  have "(''POST'', ''/api/admin/users/{id}/reset-mfa'', permRecovery, True) \<in> set adminRoutes" by (simp add: adminRoutes_def)
  from delegate_writes_confined[OF this _ r u(2)] u(1) show ?thesis by auto
qed

definition logged_request :: http_request where
  "logged_request = (reset_request ''u2'')\<lparr>hr_csrf_cookie := ''s.s1'', hr_csrf_form := ''s.s1''\<rparr>"



end
