(* ===== verification/Ky_Explain.thy ===== *)
theory Ky_Explain
  imports Ky_Requests
begin

text \<open>
  Explanations (\<^verbatim>\<open>internal/store/explain.go\<close>): why a user has or lacks access to an application, read from the rows
  that decide it. The names of launcher entries are an argument, as for access requests.
\<close>

record access_grant =
  xg_kind :: string
  xg_group_id :: string
  xg_group_name :: string
  xg_source_connector_id :: string
  xg_expires_at :: "time option"
  xg_live :: bool

record role_grant =
  xr_role :: string
  xr_via :: string
  xr_group_name :: string

record access_explanation =
  xp_app_id :: string
  xp_app_name :: string
  xp_user_id :: string
  xp_username :: string
  xp_allowed :: bool
  xp_reason :: string
  xp_access_mode :: access_mode
  xp_app_enabled :: bool
  xp_client_enabled :: bool
  xp_user_status :: user_status
  xp_user_ends_at :: "time option"
  xp_grants :: "access_grant list"
  xp_roles :: "role_grant list"
  xp_access_ends_at :: "time option"
  xp_authentication :: auth_policy
  xp_revision :: int
  xp_auth_revision :: int
  xp_role_revision :: int
  xp_requestable :: bool

definition still_live :: "time option \<Rightarrow> time \<Rightarrow> bool" where
  "still_live at now = (case at of None \<Rightarrow> True | Some t \<Rightarrow> now < t)"

definition direct_grant :: "string \<Rightarrow> string \<Rightarrow> time \<Rightarrow> db \<Rightarrow> access_grant list" where
  "direct_grant userID appID now d =
     (case sql_first (\<lambda>x. ua_app_id x = appID \<and> ua_user_id x = userID) (user_assignments d) of
        None \<Rightarrow> []
      | Some x \<Rightarrow> (let at = map_option from_unix (ua_expires_at x)
          in [\<lparr>xg_kind = ''direct'', xg_group_id = '''', xg_group_name = '''', xg_source_connector_id = '''', xg_expires_at = at, xg_live = still_live at now\<rparr>]))"

definition group_grant :: "time \<Rightarrow> directory_group \<times> membership \<Rightarrow> access_grant" where
  "group_grant now = (\<lambda>(g, m). let at = map_option from_unix (gm_expires_at m)
     in \<lparr>xg_kind = ''group'', xg_group_id = dg_id g, xg_group_name = dg_name g, xg_source_connector_id = ref (dg_source_connector_id g),
         xg_expires_at = at, xg_live = still_live at now\<rparr>)"

text \<open>The join of the app's assigned groups with the user's memberships, live or lapsed.\<close>

definition assigned_memberships :: "string \<Rightarrow> string \<Rightarrow> db \<Rightarrow> (directory_group \<times> membership) list" where
  "assigned_memberships userID appID d =
     [(g, m). ga \<leftarrow> group_assignments d, g \<leftarrow> directory_groups d, m \<leftarrow> group_memberships d,
        dg_id g = ga_group_id ga \<and> gm_group_id m = dg_id g \<and> gm_user_id m = userID \<and> ga_app_id ga = appID]"

definition group_grants :: "string \<Rightarrow> string \<Rightarrow> time \<Rightarrow> db \<Rightarrow> access_grant list" where
  "group_grants userID appID now d = map (group_grant now) (sort_key (\<lambda>(g, m). nocase (dg_name g)) (assigned_memberships userID appID d))"

definition role_sources :: "string \<Rightarrow> string \<Rightarrow> time \<Rightarrow> db \<Rightarrow> role_grant list" where
  "role_sources userID appID now d = sort_key (\<lambda>r. [xr_role r, xr_via r, xr_group_name r])
     ([\<lparr>xr_role = ar_name r, xr_via = ''direct'', xr_group_name = ''''\<rparr>. r \<leftarrow> app_roles d, a \<leftarrow> role_users d,
         ru_role_id a = ar_id r \<and> ar_app_id r = appID \<and> ru_user_id a = userID] @
      [\<lparr>xr_role = ar_name r, xr_via = ''group'', xr_group_name = dg_name g\<rparr>. r \<leftarrow> app_roles d, a \<leftarrow> role_groups d, ga \<leftarrow> group_assignments d,
         m \<leftarrow> live_group_memberships now d, g \<leftarrow> directory_groups d,
         rg_role_id a = ar_id r \<and> ga_app_id ga = ar_app_id r \<and> ga_group_id ga = rg_group_id a \<and> gm_group_id m = rg_group_id a \<and> dg_id g = rg_group_id a \<and>
         ar_app_id r = appID \<and> gm_user_id m = userID])"

text \<open>The reason, corrected for an account that has ended and for grants that have all lapsed.\<close>

definition final_reason :: "user \<Rightarrow> bool \<Rightarrow> access_grant list \<Rightarrow> string \<Rightarrow> time \<Rightarrow> string" where
  "final_reason u allowed grants reason now =
     (let r1 = (case usr_ends_at u of Some v \<Rightarrow> if from_unix v \<le> now then ''account_ended'' else reason | None \<Rightarrow> reason)
      in if \<not> allowed \<and> r1 = ''not_assigned'' \<and> grants \<noteq> [] then ''grants_expired'' else r1)"

definition ExplainAccess :: "(string \<times> string) list \<Rightarrow> string \<Rightarrow> string \<Rightarrow> time \<Rightarrow> db \<Rightarrow> err + access_explanation" where
  "ExplainAccess launchers userID appID now d =
     (case sql_first (\<lambda>a. app_id a = appID) (app_registry d) of
        None \<Rightarrow> Inl ErrAppRecordMissing
      | Some app \<Rightarrow>
         (case user_by_id userID now d of
            None \<Rightarrow> Inl ErrUserMissing
          | Some u \<Rightarrow>
             (case sql_first (\<lambda>f. af_app_id f = appID \<and> af_user_id f = userID) (app_access_facts now d) of
                None \<Rightarrow> Inl ErrNoRows
              | Some f \<Rightarrow>
                 (let allowed = ((af_app_id f, af_user_id f) \<in> set (effective_app_access now d));
                      grants = direct_grant userID appID now d @ group_grants userID appID now d
                  in Inr \<lparr>xp_app_id = app_id app, xp_app_name = appDisplayName launchers d app, xp_user_id = usr_id u, xp_username = usr_username u,
                       xp_allowed = allowed, xp_reason = final_reason u allowed grants (accessReasonSQL f) now, xp_access_mode = app_access_mode app,
                       xp_app_enabled = app_enabled app, xp_client_enabled = af_client_enabled f, xp_user_status = usr_status u,
                       xp_user_ends_at = map_option from_unix (usr_ends_at u), xp_grants = grants, xp_roles = role_sources userID appID now d,
                       xp_access_ends_at = (if allowed \<and> ref (app_client_id app) \<noteq> '''' then AccessEndsAt userID (ref (app_client_id app)) now d else None),
                       xp_authentication = app_authentication app, xp_revision = app_revision app, xp_auth_revision = app_auth_revision app,
                       xp_role_revision = app_role_revision app, xp_requestable = app_requestable app\<rparr>))))"

definition ExplainClientAccess :: "(string \<times> string) list \<Rightarrow> string \<Rightarrow> string \<Rightarrow> time \<Rightarrow> db \<Rightarrow> err + access_explanation" where
  "ExplainClientAccess launchers userID clientID now d =
     (case sql_first (\<lambda>a. app_client_id a = Some clientID) (app_registry d) of
        None \<Rightarrow> Inl ErrAppRecordMissing
      | Some a \<Rightarrow> ExplainAccess launchers userID (app_id a) now d)"

section \<open>What an explanation means\<close>

lemma ExplainAccess_InrE:
  assumes "ExplainAccess launchers userID appID now d = Inr e" and "wf_keys d"
  obtains a u where "a \<in> set (app_registry d)" "app_id a = appID" "u \<in> set (users d)" "usr_id u = userID"
    "xp_allowed e \<longleftrightarrow> (appID, userID) \<in> set (effective_app_access now d)"
    "xp_grants e = direct_grant userID appID now d @ group_grants userID appID now d"
    "xp_reason e = final_reason u (xp_allowed e) (xp_grants e) (accessReasonSQL (access_facts_row now d a u)) now"
    "xp_roles e = role_sources userID appID now d" "xp_access_mode e = app_access_mode a"
proof -
  from assms(1) obtain a v f where a: "sql_first (\<lambda>a. app_id a = appID) (app_registry d) = Some a" and v: "user_by_id userID now d = Some v"
    and f: "sql_first (\<lambda>f. af_app_id f = appID \<and> af_user_id f = userID) (app_access_facts now d) = Some f"
    and e: "xp_allowed e \<longleftrightarrow> (af_app_id f, af_user_id f) \<in> set (effective_app_access now d)"
      "xp_grants e = direct_grant userID appID now d @ group_grants userID appID now d"
      "xp_reason e = final_reason v (xp_allowed e) (xp_grants e) (accessReasonSQL f) now"
      "xp_roles e = role_sources userID appID now d" "xp_access_mode e = app_access_mode a"
    by (auto simp: ExplainAccess_def Let_def split: option.splits)
  from a have a': "a \<in> set (app_registry d)" "app_id a = appID" by (auto dest: find_SomeD)
  from v obtain u where u: "u \<in> set (users d)" "usr_id u = userID" and vu: "v = scanUser now u" by (auto simp: user_by_id_def dest: find_SomeD)
  from f have ff: "f \<in> set (app_access_facts now d)" "af_app_id f = appID" "af_user_id f = userID" by (auto dest: find_SomeD)
  then obtain a2 u2 where "f = access_facts_row now d a2 u2" "a2 \<in> set (app_registry d)" "u2 \<in> set (users d)" by (auto simp: app_access_facts_def)
  moreover from this ff(2,3) have "app_id a2 = appID" "usr_id u2 = userID" by (simp_all add: access_facts_row_def)
  ultimately have fr: "f = access_facts_row now d a u"
    using a' u key_unique[of app_id "app_registry d" a2 a] key_unique[of usr_id "users d" u2 u] assms(2) by (simp add: wf_keys_def)
  have "final_reason v = final_reason u" by (auto simp: vu final_reason_def scanUser_def fun_eq_iff split: option.splits)
  with e a' u fr ff show thesis by (intro that) simp_all
qed
text \<open>Grants are keyed by app and account, and a group that is assigned exists.\<close>

definition grants_wf :: "db \<Rightarrow> bool" where
  "grants_wf d \<longleftrightarrow> distinct (map (\<lambda>x. (ua_app_id x, ua_user_id x)) (user_assignments d)) \<and> ga_group_id ` set (group_assignments d) \<subseteq> dg_id ` set (directory_groups d)"

lemma still_live_unix: "still_live (map_option from_unix v) now \<longleftrightarrow> live_until v now"
  by (cases v) (simp_all add: still_live_def)

lemma direct_grant_facts:
  assumes "grants_wf d"
  shows "(\<exists>g \<in> set (direct_grant (usr_id u) (app_id a) now d). xg_live g) \<longleftrightarrow> af_direct (access_facts_row now d a u)"
proof (cases "sql_first (\<lambda>x. ua_app_id x = app_id a \<and> ua_user_id x = usr_id u) (user_assignments d)")
  case None
  then have "direct_grant (usr_id u) (app_id a) now d = []" by (simp add: direct_grant_def)
  with None show ?thesis by (auto simp: access_facts_row_def find_None_iff)
next
  case (Some x)
  then have x: "x \<in> set (user_assignments d)" "ua_app_id x = app_id a" "ua_user_id x = usr_id u" by (auto dest: find_SomeD)
  have uniq: "y = x" if "y \<in> set (user_assignments d)" "ua_app_id y = app_id a" "ua_user_id y = usr_id u" for y
    using key_unique[of "\<lambda>x. (ua_app_id x, ua_user_id x)" "user_assignments d" y x] assms x that by (simp add: grants_wf_def)
  have "af_direct (access_facts_row now d a u) \<longleftrightarrow> (\<exists>y \<in> set (user_assignments d). ua_app_id y = app_id a \<and> ua_user_id y = usr_id u \<and> live_until (ua_expires_at y) now)"
    by (simp add: access_facts_row_def)
  also have "\<dots> \<longleftrightarrow> live_until (ua_expires_at x) now" using x uniq by blast
  finally show ?thesis by (simp add: direct_grant_def Some Let_def still_live_unix)
qed

lemma group_grants_facts:
  assumes "grants_wf d"
  shows "(\<exists>g \<in> set (group_grants (usr_id u) (app_id a) now d). xg_live g) \<longleftrightarrow> af_group_assigned (access_facts_row now d a u)"
proof -
  have "(\<exists>g \<in> set (group_grants (usr_id u) (app_id a) now d). xg_live g) \<longleftrightarrow>
      (\<exists>ga \<in> set (group_assignments d). \<exists>g \<in> set (directory_groups d). \<exists>m \<in> set (group_memberships d).
         dg_id g = ga_group_id ga \<and> gm_group_id m = dg_id g \<and> gm_user_id m = usr_id u \<and> ga_app_id ga = app_id a \<and> live_until (gm_expires_at m) now)"
    by (fastforce simp: group_grants_def assigned_memberships_def group_grant_def Let_def still_live_unix)
  also have "\<dots> \<longleftrightarrow> af_group_assigned (access_facts_row now d a u)"
  proof
    assume "af_group_assigned (access_facts_row now d a u)"
    then obtain ga m where m: "ga \<in> set (group_assignments d)" "m \<in> set (group_memberships d)" "live_until (gm_expires_at m) now" "gm_group_id m = ga_group_id ga"
      "ga_app_id ga = app_id a" "gm_user_id m = usr_id u" by (auto simp: access_facts_row_def live_group_memberships_def)
    from m(1) assms have "ga_group_id ga \<in> dg_id ` set (directory_groups d)" unfolding grants_wf_def by blast
    then obtain g where "g \<in> set (directory_groups d)" "dg_id g = ga_group_id ga" by force
    with m show "\<exists>ga \<in> set (group_assignments d). \<exists>g \<in> set (directory_groups d). \<exists>m \<in> set (group_memberships d).
         dg_id g = ga_group_id ga \<and> gm_group_id m = dg_id g \<and> gm_user_id m = usr_id u \<and> ga_app_id ga = app_id a \<and> live_until (gm_expires_at m) now" by metis
  qed (fastforce simp: access_facts_row_def live_group_memberships_def)
  finally show ?thesis .
qed

lemma final_reason_iff:
  assumes "f = access_facts_row now d a u" and "allowed \<longleftrightarrow> appAllowedSQL (af_access_mode f) (af_enabled f) f"
  shows "allowed \<longleftrightarrow> final_reason u allowed gs (accessReasonSQL f) now \<in> {''all_active_users'', ''direct_assignment'', ''group_assignment''}"
    and "final_reason u allowed gs (accessReasonSQL f) now \<in> {''not_assigned'', ''grants_expired''} \<Longrightarrow> \<not> af_direct f \<and> \<not> af_group_assigned f \<and>
      (final_reason u allowed gs (accessReasonSQL f) now = ''not_assigned'' \<longleftrightarrow> gs = [])"
proof -
  have "af_active f \<Longrightarrow> live_until (usr_ends_at u) now" by (simp add: assms(1) access_facts_row_def)
  moreover have "final_reason u allowed gs r now = (if \<not> live_until (usr_ends_at u) now then ''account_ended'' else
      if \<not> allowed \<and> r = ''not_assigned'' \<and> gs \<noteq> [] then ''grants_expired'' else r)" for r
    by (cases "usr_ends_at u") (auto simp: final_reason_def Let_def)
  ultimately show "allowed \<longleftrightarrow> final_reason u allowed gs (accessReasonSQL f) now \<in> {''all_active_users'', ''direct_assignment'', ''group_assignment''}"
    "final_reason u allowed gs (accessReasonSQL f) now \<in> {''not_assigned'', ''grants_expired''} \<Longrightarrow> \<not> af_direct f \<and> \<not> af_group_assigned f \<and>
      (final_reason u allowed gs (accessReasonSQL f) now = ''not_assigned'' \<longleftrightarrow> gs = [])"
    using assms(2) by (auto simp: appAllowedSQL_def accessReasonSQL_def split: if_splits)
qed

text \<open>
  C96. An explanation never contradicts the decision it explains: its verdict is the access view's, the reason names a grant
  exactly when the verdict allows, a denial for want of an assignment lists no grant row, a denial for lapsed grants lists some and none of
  them live, and access to an app that is not open to everyone lists a live grant.
\<close>

theorem explanation_agrees:
  assumes "ExplainAccess launchers userID appID now d = Inr e" and "wf_keys d" and "grants_wf d"
  shows "(xp_allowed e \<longleftrightarrow> (appID, userID) \<in> set (effective_app_access now d)) \<and>
    (xp_allowed e \<longleftrightarrow> xp_reason e \<in> {''all_active_users'', ''direct_assignment'', ''group_assignment''}) \<and>
    (xp_reason e = ''not_assigned'' \<longrightarrow> xp_grants e = []) \<and>
    (xp_reason e = ''grants_expired'' \<longrightarrow> xp_grants e \<noteq> [] \<and> (\<forall>g \<in> set (xp_grants e). \<not> xg_live g)) \<and>
    (xp_allowed e \<and> xp_access_mode e \<noteq> AllActiveUsers \<longrightarrow> (\<exists>g \<in> set (xp_grants e). xg_live g))"
proof -
  from assms(1,2) obtain a u where a: "a \<in> set (app_registry d)" "app_id a = appID" and u: "u \<in> set (users d)" "usr_id u = userID"
    and al: "xp_allowed e \<longleftrightarrow> (appID, userID) \<in> set (effective_app_access now d)"
    and gs: "xp_grants e = direct_grant userID appID now d @ group_grants userID appID now d"
    and re: "xp_reason e = final_reason u (xp_allowed e) (xp_grants e) (accessReasonSQL (access_facts_row now d a u)) now"
    and mode: "xp_access_mode e = app_access_mode a" by (rule ExplainAccess_InrE)
  define f where f: "f = access_facts_row now d a u"
  have v: "xp_allowed e \<longleftrightarrow> appAllowedSQL (af_access_mode f) (af_enabled f) f"
    using al effective_app_access_row[OF assms(2) a(1) u(1), of now] a(2) u(2) by (simp add: f)
  have live: "(\<exists>g \<in> set (xp_grants e). xg_live g) \<longleftrightarrow> af_direct f \<or> af_group_assigned f"
    using direct_grant_facts[OF assms(3), of u a now] group_grants_facts[OF assms(3), of u a now] a(2) u(2) by (auto simp: gs f)
  note r = final_reason_iff[OF f v, of "xp_grants e", folded re[folded f]]
  have "xp_allowed e \<and> xp_access_mode e \<noteq> AllActiveUsers \<longrightarrow> af_direct f \<or> af_group_assigned f"
    unfolding v mode appAllowedSQL_def using f by (simp add: access_facts_row_def) blast
  with al live r show ?thesis by auto
qed

lemma const_image: "r \<in> (\<lambda>a. c) ` {x. x = k \<and> P} \<longleftrightarrow> r = c \<and> P"
  by auto

lemma role_source_names:
  "r \<in> xr_role ` set (role_sources userID appID now d) \<longleftrightarrow> (\<exists>x \<in> set (app_roles d). ar_name x = r \<and> ar_app_id x = appID \<and>
    ((\<exists>a \<in> set (role_users d). ru_role_id a = ar_id x \<and> ru_user_id a = userID) \<or>
     (\<exists>a \<in> set (role_groups d). \<exists>m \<in> set (live_group_memberships now d). \<exists>ga \<in> set (group_assignments d). \<exists>g \<in> set (directory_groups d).
        rg_role_id a = ar_id x \<and> gm_group_id m = rg_group_id a \<and> gm_user_id m = userID \<and> ga_app_id ga = appID \<and> ga_group_id ga = rg_group_id a \<and> dg_id g = ga_group_id ga)))"
  (is "_ \<longleftrightarrow> ?held")
proof -
  let ?direct = "[\<lparr>xr_role = ar_name r, xr_via = ''direct'', xr_group_name = ''''\<rparr>. r \<leftarrow> app_roles d, a \<leftarrow> role_users d,
         ru_role_id a = ar_id r \<and> ar_app_id r = appID \<and> ru_user_id a = userID]"
  let ?group = "[\<lparr>xr_role = ar_name r, xr_via = ''group'', xr_group_name = dg_name g\<rparr>. r \<leftarrow> app_roles d, a \<leftarrow> role_groups d, ga \<leftarrow> group_assignments d,
         m \<leftarrow> live_group_memberships now d, g \<leftarrow> directory_groups d,
         rg_role_id a = ar_id r \<and> ga_app_id ga = ar_app_id r \<and> ga_group_id ga = rg_group_id a \<and> gm_group_id m = rg_group_id a \<and> dg_id g = rg_group_id a \<and>
         ar_app_id r = appID \<and> gm_user_id m = userID]"
  have "r \<in> xr_role ` set ?direct \<longleftrightarrow> (\<exists>x \<in> set (app_roles d). ar_name x = r \<and> ar_app_id x = appID \<and>
      (\<exists>a \<in> set (role_users d). ru_role_id a = ar_id x \<and> ru_user_id a = userID))"
    by (simp add: image_UN) blast
  moreover have "r \<in> xr_role ` set ?group \<longleftrightarrow> (\<exists>x \<in> set (app_roles d). ar_name x = r \<and> ar_app_id x = appID \<and>
     (\<exists>a \<in> set (role_groups d). \<exists>m \<in> set (live_group_memberships now d). \<exists>ga \<in> set (group_assignments d). \<exists>g \<in> set (directory_groups d).
        rg_role_id a = ar_id x \<and> gm_group_id m = rg_group_id a \<and> gm_user_id m = userID \<and> ga_app_id ga = appID \<and> ga_group_id ga = rg_group_id a \<and> dg_id g = ga_group_id ga))"
    by (simp add: image_UN const_image) (safe; fastforce)
  moreover have "xr_role ` set (role_sources userID appID now d) = xr_role ` set ?direct \<union> xr_role ` set ?group"
    by (simp add: role_sources_def image_Un)
  ultimately show ?thesis by blast
qed

text \<open>
  C97. The roles an explanation lists are roles the user's tokens carry; they are all of them exactly when each group through which the
  user holds a role is also assigned to the app. A role held only through a group that is mapped to the role and not assigned to the app is in the token
  and missing from the explanation.
\<close>

theorem explained_roles_exact:
  assumes "ExplainAccess launchers userID appID now d = Inr e" and "appClaimsTx userID appID now d = Inr c" and "wf_keys d" and "grants_wf d"
  shows "xr_role ` set (xp_roles e) \<subseteq> set (cl_roles c) \<and>
    (\<forall>r \<in> set (cl_roles c). r \<in> xr_role ` set (xp_roles e) \<longleftrightarrow>
      (\<exists>x \<in> set (app_roles d). ar_name x = r \<and> ar_app_id x = appID \<and>
        ((\<exists>a \<in> set (role_users d). ru_role_id a = ar_id x \<and> ru_user_id a = userID) \<or>
         (\<exists>a \<in> set (role_groups d). \<exists>m \<in> set (live_group_memberships now d). \<exists>ga \<in> set (group_assignments d).
            rg_role_id a = ar_id x \<and> gm_group_id m = rg_group_id a \<and> gm_user_id m = userID \<and> ga_app_id ga = appID \<and> ga_group_id ga = rg_group_id a))))"
proof -
  from assms(1,3) have roles: "xp_roles e = role_sources userID appID now d" by (rule ExplainAccess_InrE)
  have c: "set (cl_roles c) = {ar_name x |x. x \<in> set (app_roles d) \<and> ar_app_id x = appID \<and> holds_role userID now d x}"
    using assms(2) by (auto simp: appClaimsTx_def split: option.splits)
  have ref: "\<exists>g \<in> set (directory_groups d). dg_id g = ga_group_id ga" if "ga \<in> set (group_assignments d)" for ga
    using assms(4) that unfolding grants_wf_def by force
  define held where "held x \<longleftrightarrow> (\<exists>a \<in> set (role_users d). ru_role_id a = ar_id x \<and> ru_user_id a = userID) \<or>
    (\<exists>a \<in> set (role_groups d). \<exists>m \<in> set (live_group_memberships now d). \<exists>ga \<in> set (group_assignments d).
       rg_role_id a = ar_id x \<and> gm_group_id m = rg_group_id a \<and> gm_user_id m = userID \<and> ga_app_id ga = appID \<and> ga_group_id ga = rg_group_id a)" for x :: app_role
  have names: "r \<in> xr_role ` set (xp_roles e) \<longleftrightarrow> (\<exists>x \<in> set (app_roles d). ar_name x = r \<and> ar_app_id x = appID \<and> held x)" for r
    unfolding roles role_source_names held_def using ref by blast
  have "held x \<Longrightarrow> holds_role userID now d x" for x unfolding held_def holds_role_def by blast
  then have "xr_role ` set (xp_roles e) \<subseteq> set (cl_roles c)" by (intro subsetI) (auto simp: names c)
  moreover have "\<forall>r \<in> set (cl_roles c). r \<in> xr_role ` set (xp_roles e) \<longleftrightarrow> (\<exists>x \<in> set (app_roles d). ar_name x = r \<and> ar_app_id x = appID \<and> held x)"
    using names by blast
  ultimately show ?thesis unfolding held_def by (rule conjI)
qed

section \<open>Examples\<close>

definition mapped_db :: db where
  "mapped_db = sample_db
     \<lparr>directory_groups := [\<lparr>dg_id = ''g1'', dg_name = ''Editors'', dg_description = '''', dg_source_connector_id = None, dg_external_id = None, dg_created_at = 0, dg_updated_at = 0\<rparr>],
      group_memberships := [\<lparr>gm_group_id = ''g1'', gm_user_id = ''u1'', gm_expires_at = None\<rparr>],
      app_roles := [\<lparr>ar_id = ''r1'', ar_app_id = ''a1'', ar_name = ''editor'', ar_description = '''', ar_created_at = 0, ar_administrator = False\<rparr>],
      role_groups := [\<lparr>rg_role_id = ''r1'', rg_group_id = ''g1''\<rparr>]\<rparr>"

lemma mapped_db_wf: "wf_keys mapped_db" "grants_wf mapped_db"
  by code_simp+

theorem explanation_agrees_witness:
  "\<exists>e. ExplainAccess [] ''u1'' ''a1'' sample_now mapped_db = Inr e \<and> xp_allowed e \<and> xp_reason e = ''direct_assignment'' \<and> (\<exists>g \<in> set (xp_grants e). xg_live g)"
proof -
  have "map_sum (\<lambda>_. ()) (\<lambda>e. (xp_allowed e, xp_reason e, xp_access_mode e)) (ExplainAccess [] ''u1'' ''a1'' sample_now mapped_db) = Inr (True, ''direct_assignment'', AssignedOnly)"
    by code_simp
  then obtain e where e: "ExplainAccess [] ''u1'' ''a1'' sample_now mapped_db = Inr e" "xp_allowed e" "xp_reason e = ''direct_assignment''" "xp_access_mode e = AssignedOnly"
    by (cases "ExplainAccess [] ''u1'' ''a1'' sample_now mapped_db") auto
  from explanation_agrees[OF e(1) mapped_db_wf] e show ?thesis by auto
qed

theorem explained_roles_exact_witness:
  "\<exists>e c. ExplainAccess [] ''u1'' ''a1'' sample_now mapped_db = Inr e \<and> appClaimsTx ''u1'' ''a1'' sample_now mapped_db = Inr c \<and>
     ''editor'' \<in> set (cl_roles c) \<and> ''editor'' \<notin> xr_role ` set (xp_roles e)"
proof -
  have "\<not> isl (ExplainAccess [] ''u1'' ''a1'' sample_now mapped_db)" "map_sum (\<lambda>_. ()) cl_roles (appClaimsTx ''u1'' ''a1'' sample_now mapped_db) = Inr [''editor'']" by code_simp+
  then obtain e c where e: "ExplainAccess [] ''u1'' ''a1'' sample_now mapped_db = Inr e" and c: "appClaimsTx ''u1'' ''a1'' sample_now mapped_db = Inr c" "cl_roles c = [''editor'']"
    by (cases "ExplainAccess [] ''u1'' ''a1'' sample_now mapped_db"; cases "appClaimsTx ''u1'' ''a1'' sample_now mapped_db") simp_all
  have none: "group_assignments mapped_db = []" "role_users mapped_db = []" by code_simp+
  from explained_roles_exact[OF e c(1) mapped_db_wf] c e show ?thesis by (auto simp: none)
qed


end
