(* ===== verification/Ky_Authorize.thy ===== *)
theory Ky_Authorize
  imports Ky_Gate Ky_RateLimit Ky_Explain
begin

text \<open>
  The browser side of OAuth: \<open>/oauth/authorize\<close> (\<^verbatim>\<open>internal/api/oauth_handlers.go\<close>), the interactions that carry a request through a
  sign-in (\<^verbatim>\<open>authorization_interactions.go\<close>) and \<open>/oauth/logout\<close> (\<^verbatim>\<open>logout_handlers.go\<close>). A handler is a run of several transactions that always ends in one
  response; other requests run before each of them.
\<close>

section \<open>Requests, responses and what the handlers are given\<close>

record browse = http_request +
  br_query :: string
  br_browser :: string
  br_rate_ip :: string

text \<open>
  A response: an error or a page with its status, a redirect, the sign-in page with a new interaction and perhaps a new browser cookie,
  the confirmation page of a sign-out with its token, the details of an interaction, a plain success. Other headers, a browser cookie set beside an
  error among them, are left out.
\<close>

datatype response =
    Page nat string
  | Location nat string
  | Login string "string option"
  | Confirm string
  | Details string string bool bool
  | Answered

text \<open>
  \<open>fe_hmac\<close> signs under the server's CSRF key; \<open>fe_target uri params\<close> is what package \<open>net/url\<close> prints for a URI it can parse with these
  query parameters set; \<open>fe_launchers\<close> names the launcher entries.
\<close>

record frontend =
  fe_engine :: engine
  fe_hmac :: "string \<Rightarrow> string"
  fe_target :: "string \<Rightarrow> (string \<times> string) list \<Rightarrow> string option"
  fe_launchers :: "(string \<times> string) list"

type_synonym handler = "world \<Rightarrow> response \<times> world"

definition reply :: "response \<Rightarrow> handler" where
  "reply x w = (x, w)"

definition attempt :: "'a run \<Rightarrow> (oauth_err \<Rightarrow> world \<Rightarrow> 'b) \<Rightarrow> ('a \<Rightarrow> world \<Rightarrow> 'b) \<Rightarrow> world \<Rightarrow> 'b" where
  "attempt m fail next w = (case m w of (Inl e, w1) \<Rightarrow> fail e w1 | (Inr x, w1) \<Rightarrow> next x w1)"

definition stepUpInternalError :: handler where
  "stepUpInternalError = reply (Page 500 ''internal_error'')"

definition fe_sha :: "frontend \<Rightarrow> string \<Rightarrow> string" where
  "fe_sha fe = cx_sha (fe_engine fe)"

definition redirectError :: "frontend \<Rightarrow> string \<Rightarrow> string \<Rightarrow> string \<Rightarrow> string \<Rightarrow> handler" where
  "redirectError fe redirectURI state code description =
     reply (case fe_target fe redirectURI ([(''error'', code)] @ (if description \<noteq> '''' then [(''error_description'', description)] else []) @
              (if state \<noteq> '''' then [(''state'', state)] else [])) of
              None \<Rightarrow> Page 400 ''invalid_redirect_uri'' | Some l \<Rightarrow> Location 302 l)"

section \<open>Interactions\<close>

definition authorizationBrowserHash :: "frontend \<Rightarrow> browse \<Rightarrow> string" where
  "authorizationBrowserHash fe r =
     (if CHR ''.'' \<notin> set (br_browser r) then ''''
      else let (raw, signature) = cut (CHR ''.'') (br_browser r)
           in if length raw \<noteq> 64 then ''''
              else if signature \<noteq> fe_hmac fe (''authorization-browser:'' @ raw) then '''' else fe_sha fe raw)"

definition browser_cookie :: "frontend \<Rightarrow> string \<Rightarrow> string" where
  "browser_cookie fe raw = raw @ ''.'' @ fe_hmac fe (''authorization-browser:'' @ raw)"

definition new_interaction :: "frontend \<Rightarrow> (user \<times> session) option \<Rightarrow> string \<Rightarrow> string \<Rightarrow> url_values \<Rightarrow> time \<Rightarrow> interaction" where
  "new_interaction fe ident raw browserHash q now =
     \<lparr>ai_hash = fe_sha fe raw, ai_browser_hash = browserHash, ai_user_id = (case ident of None \<Rightarrow> '''' | Some (_, s) \<Rightarrow> ses_user_id s),
      ai_original_session_id = (case ident of None \<Rightarrow> '''' | Some (_, s) \<Rightarrow> ses_id s), ai_session_id = '''', ai_request = Encode q,
      ai_created_at = now, ai_expires_at = now + 5 * minute, ai_client_id = url_get q ''client_id''\<rparr>"

definition beginInteraction :: "frontend \<Rightarrow> (world \<Rightarrow> world) \<Rightarrow> (user \<times> session) option \<Rightarrow> browse \<Rightarrow> url_values \<Rightarrow> handler" where
  "beginInteraction fe other ident r q =
     (let known = authorizationBrowserHash fe r
      in attempt (if known = '''' then draw else ret '''') (\<lambda>_. stepUpInternalError) (\<lambda>fresh.
         attempt draw (\<lambda>_. stepUpInternalError) (\<lambda>raw.
         attempt clock (\<lambda>_. stepUpInternalError) (\<lambda>now.
         let i = new_interaction fe ident raw (if known = '''' then fe_sha fe fresh else known) q now
         in attempt (call other (writing (CreateAuthorizationInteraction i)))
              (\<lambda>e. if e = Store ErrAuthorizationInteraction
                    then redirectError fe (url_get q ''redirect_uri'') (url_get q ''state'') ''temporarily_unavailable'' ''Too many sign-in requests; wait a few minutes and restart''
                    else redirectError fe (url_get q ''redirect_uri'') (url_get q ''state'') ''server_error'' ''Could not start sign-in'')
              (\<lambda>_ w. reply (Login raw (if known = '''' then Some (browser_cookie fe fresh) else None))
                 (Observe other (buildEvent ''oauth.interaction'' (ai_user_id i) '''' (url_get q ''client_id'') ''client'' (hr_ip r) (hr_agent r) Success
                    (JObj [(''reason'', JStr ''interaction_started'')])) w))))))"

definition CancelInteraction :: "frontend \<Rightarrow> (world \<Rightarrow> world) \<Rightarrow> browse \<Rightarrow> string option \<Rightarrow> handler" where
  "CancelInteraction fe other r body =
     (case body of
        None \<Rightarrow> reply (Page 400 ''invalid_request'')
      | Some i \<Rightarrow> if length i \<noteq> 64 then reply (Page 400 ''invalid_request'')
          else attempt (call other (writing (\<lambda>now d. Inr (CancelAuthorizationInteraction (fe_sha fe i) (authorizationBrowserHash fe r) d))))
                 (\<lambda>_. stepUpInternalError) (\<lambda>_. reply Answered))"

definition ClientAuthenticationPolicy :: "string \<Rightarrow> db \<Rightarrow> err + auth_policy" where
  "ClientAuthenticationPolicy clientID d = andthen (ClientAuthenticationPolicyBinding clientID d) (\<lambda>(p, _). Inr p)"

text \<open>The account an interaction was opened for, where it was; an account that is gone or inactive ends it.\<close>

definition interaction_username :: "(world \<Rightarrow> world) \<Rightarrow> interaction \<Rightarrow> string option run" where
  "interaction_username other i =
     (if ai_user_id i = '''' then ret (Some '''')
      else seqr (call other (reading (GetUserByID (ai_user_id i)))) (\<lambda>ou. ret (case ou of
        None \<Rightarrow> None | Some u \<Rightarrow> if usr_status u \<noteq> Active then None else Some (usr_username u))))"

definition InteractionDetails :: "frontend \<Rightarrow> (world \<Rightarrow> world) \<Rightarrow> browse \<Rightarrow> handler" where
  "InteractionDetails fe other r =
     (let invalid = reply (Page 400 ''invalid_interaction'')
      in attempt (call other (querying (GetAuthorizationInteraction (fe_sha fe (hr_id r)) (authorizationBrowserHash fe r)))) (\<lambda>_. invalid) (\<lambda>i.
         if ai_session_id i \<noteq> '''' then invalid
         else case ParseQuery (ai_request i) of None \<Rightarrow> stepUpInternalError | Some q \<Rightarrow>
           attempt (call other (reading (\<lambda>now. GetOAuthClientByID (url_get q ''client_id'')))) (\<lambda>_. invalid) (\<lambda>oc.
           case oc of None \<Rightarrow> invalid | Some client \<Rightarrow>
             if \<not> oc_enabled client then invalid
             else attempt (interaction_username other i) (\<lambda>_. invalid) (\<lambda>name.
               case name of None \<Rightarrow> invalid | Some username \<Rightarrow>
                 (case ParseAuthenticationRequest q of None \<Rightarrow> stepUpInternalError | Some req \<Rightarrow>
                   attempt (call other (querying (\<lambda>now. ClientAuthenticationPolicy (oc_id client)))) (\<lambda>_. stepUpInternalError) (\<lambda>policy.
                   reply (Details (oc_client_name client) username (an_acr req = MFAACR \<or> ap_factor policy \<noteq> ''password'') (ap_factor policy = ''passkey'')))))) ))"

section \<open>Authorization\<close>

definition denyAccess :: "frontend \<Rightarrow> (world \<Rightarrow> world) \<Rightarrow> browse \<Rightarrow> user \<Rightarrow> string \<Rightarrow> string \<Rightarrow> string \<Rightarrow> handler" where
  "denyAccess fe other r u clientID redirectURI state =
     (let finish = (\<lambda>details description w. redirectError fe redirectURI state ''access_denied'' description
            (Observe other (buildEvent ''oauth.authorize'' (usr_id u) (usr_username u) clientID ''client'' (hr_ip r) (hr_agent r) Denied (JObj details)) w));
          ask = ''You do not have access to this application. Ask an administrator for access''
      in attempt (call other (querying (ExplainClientAccess (fe_launchers fe) (usr_id u) clientID)))
           (\<lambda>_. finish [(''reason'', JStr ''app_access_denied'')] ask)
           (\<lambda>e. finish [(''reason'', JStr (xp_reason e)), (''revision'', JNum (xp_revision e)), (''authenticationRevision'', JNum (xp_auth_revision e)), (''roleRevision'', JNum (xp_role_revision e))]
              (if xp_requestable e then ''You do not have access to this application. You can request it from your KyIdentity dashboard'' else ask)))"

text \<open>The request that counts: the query itself, or the one stored with an interaction this session has signed in to.\<close>

definition authorization_query :: "frontend \<Rightarrow> (world \<Rightarrow> world) \<Rightarrow> (user \<times> session) option \<Rightarrow> browse \<Rightarrow> world \<Rightarrow> (response + (url_values \<times> string)) \<times> world" where
  "authorization_query fe other ident r =
     (let invalid = (\<lambda>w. (Inl (Page 400 ''invalid_request''), w)); stale = (\<lambda>w. (Inl (Page 400 ''invalid_interaction''), w))
      in if length (br_query r) > 8192 then invalid
         else case ParseQuery (br_query r) of None \<Rightarrow> invalid | Some q \<Rightarrow>
           (let raw = url_get q ''interaction''
            in if raw = '''' then (\<lambda>w. (Inr (q, ''''), w))
               else if length q \<noteq> 1 \<or> (case map_of q ''interaction'' of None \<Rightarrow> True | Some vs \<Rightarrow> length vs \<noteq> 1) \<or> length raw \<noteq> 64 then invalid
               else attempt (call other (querying (GetAuthorizationInteraction (fe_sha fe raw) (authorizationBrowserHash fe r)))) (\<lambda>_. stale) (\<lambda>i.
                 case ident of None \<Rightarrow> stale | Some (_, sess) \<Rightarrow>
                   if ai_session_id i \<noteq> ses_id sess then stale
                   else case ParseQuery (ai_request i) of None \<Rightarrow> (\<lambda>w. (Inl (Page 500 ''internal_error''), w)) | Some q2 \<Rightarrow> (\<lambda>w. (Inr (q2, fe_sha fe raw), w)))))"

definition once_only :: "url_values \<Rightarrow> string \<Rightarrow> bool" where
  "once_only q key \<longleftrightarrow> (case map_of q key of None \<Rightarrow> False | Some vs \<Rightarrow> length vs = 1)"

text \<open>The client and its redirect URI; until both hold, no response leaves for that URI.\<close>

definition authorization_client :: "frontend \<Rightarrow> (world \<Rightarrow> world) \<Rightarrow> browse \<Rightarrow> url_values \<Rightarrow> world \<Rightarrow> (response + oauth_client) \<times> world" where
  "authorization_client fe other r q =
     (let clientID = url_get q ''client_id''; redirectURI = url_get q ''redirect_uri''; unknown = (\<lambda>w. (Inl (Page 401 ''unauthorized_client''), w))
      in if \<not> list_all (once_only q) [''client_id'', ''redirect_uri'', ''response_type''] then (\<lambda>w. (Inl (Page 400 ''invalid_request''), w))
         else if clientID = '''' \<or> redirectURI = '''' \<or> url_get q ''response_type'' \<noteq> ''code'' then (\<lambda>w. (Inl (Page 400 ''invalid_request''), w))
         else attempt (call other (reading (\<lambda>now. GetOAuthClientByID clientID))) (\<lambda>_. unknown) (\<lambda>oc. case oc of None \<Rightarrow> unknown | Some client \<Rightarrow>
           if \<not> oc_enabled client then unknown
           else if \<not> ValidateRedirectURI (Some client) redirectURI then (\<lambda>w. (Inl (Page 400 ''invalid_redirect_uri''),
             Observe other (buildEvent ''oauth.authorize'' '''' '''' clientID ''client'' (hr_ip r) (hr_agent r) Denied
               (JObj [(''reason'', JStr ''redirect_uri_not_registered''), (''redirectUri'', JStr redirectURI)])) w))
           else (\<lambda>w. (Inr client, w))))"

text \<open>The code and its redirect, once everything else has been checked.\<close>

definition issue_code :: "frontend \<Rightarrow> (world \<Rightarrow> world) \<Rightarrow> browse \<Rightarrow> user \<Rightarrow> session \<Rightarrow> url_values \<Rightarrow> string \<Rightarrow> authentication_request \<Rightarrow> string \<Rightarrow> handler" where
  "issue_code fe other r u sess q grantedScope requirements interactionHash =
     (let clientID = url_get q ''client_id''; redirectURI = url_get q ''redirect_uri''; state = url_get q ''state''
      in attempt (CreateAuthorizationCodeForInteraction other (fe_engine fe) clientID (ses_id sess) redirectURI grantedScope (url_get q ''code_challenge'')
             (url_get q ''code_challenge_method'') (url_get q ''nonce'') requirements interactionHash)
           (\<lambda>e. if e = Store ErrAppAuthentication \<or> e = Store ErrAuthorizationInteraction
                 then redirectError fe redirectURI state ''login_required'' ''Application requirements changed; restart sign-in''
                 else if e = Store ErrAppAccessDenied then denyAccess fe other r u clientID redirectURI state
                 else redirectError fe redirectURI state ''server_error'' ''Could not issue an authorization code'')
           (\<lambda>code w. reply (case fe_target fe redirectURI ([(''code'', code)] @ (if state \<noteq> '''' then [(''state'', state)] else [])) of
                None \<Rightarrow> Page 400 ''invalid_redirect_uri'' | Some l \<Rightarrow> Location 302 l)
              (Observe other (buildEvent ''oauth.authorize'' (usr_id u) (usr_username u) clientID ''client'' (hr_ip r) (hr_agent r) Success
                 (JObj [(''scope'', JStr grantedScope), (''requestedScope'', JStr (url_get q ''scope''))])) w)))"

text \<open>The signed-in account's side: enrolment, password, access and the evidence of this session.\<close>

definition authorize_user :: "frontend \<Rightarrow> (world \<Rightarrow> world) \<Rightarrow> browse \<Rightarrow> user \<Rightarrow> session \<Rightarrow> url_values \<Rightarrow> string \<Rightarrow> authentication_request \<Rightarrow> string \<Rightarrow> handler" where
  "authorize_user fe other r u sess q grantedScope requirements interactionHash =
     (let err = redirectError fe (url_get q ''redirect_uri'') (url_get q ''state'')
      in attempt (call other (querying (SessionEnrollmentStatus (usr_id u) (ses_id sess)))) (\<lambda>_. err ''server_error'' ''Could not check enrollment'') (\<lambda>enrollment.
         if es_restricted enrollment then err ''interaction_required'' ''Complete MFA enrollment at your account dashboard and sign in again''
         else if usr_password_change_required u then err ''interaction_required'' ''password_change_required: choose a new password at your account dashboard, then sign in to this app again''
         else attempt (call other (reading (ClientAccessAllowed (usr_id u) (url_get q ''client_id'')))) (\<lambda>_. err ''server_error'' ''Could not check application access'') (\<lambda>allowed.
           if \<not> allowed then denyAccess fe other r u (url_get q ''client_id'') (url_get q ''redirect_uri'') (url_get q ''state'')
           else attempt clock (\<lambda>_. stepUpInternalError) (\<lambda>now.
             if \<not> Satisfied requirements (ses_evidence sess) now then
               (if an_silent requirements \<or> interactionHash \<noteq> '''' then err ''login_required'' ''Authentication does not meet the requested age or assurance''
                else beginInteraction fe other (Some (u, sess)) r q)
             else issue_code fe other r u sess q grantedScope requirements interactionHash))))"

text \<open>The request's own side, from PKCE to the application's policy.\<close>

definition authorize_request :: "frontend \<Rightarrow> (world \<Rightarrow> world) \<Rightarrow> (user \<times> session) option \<Rightarrow> browse \<Rightarrow> url_values \<Rightarrow> string \<Rightarrow> handler" where
  "authorize_request fe other ident r q interactionHash =
     (let err = redirectError fe (url_get q ''redirect_uri'') (url_get q ''state''); clientID = url_get q ''client_id''
      in if url_get q ''code_challenge'' = '''' \<or> url_get q ''code_challenge_method'' \<noteq> ''S256'' then err ''invalid_request'' ''PKCE with code_challenge_method S256 is required''
         else attempt (GrantedScope other clientID (url_get q ''scope'')) (\<lambda>_. err ''invalid_scope'' ''No requested scope is permitted for this client'') (\<lambda>grantedScope.
           case ParseAuthenticationRequest q of None \<Rightarrow> err ''invalid_request'' ''unsupported or malformed authentication request'' | Some req \<Rightarrow>
             attempt (call other (querying (\<lambda>now. ClientAuthenticationPolicy clientID))) (\<lambda>_. err ''server_error'' ''Could not check authentication policy'') (\<lambda>policy.
             let r1 = WithAppPolicy policy req; requirements = (if interactionHash \<noteq> '''' then r1\<lparr>an_fresh := False\<rparr> else r1)
             in case ident of
                  None \<Rightarrow> if an_silent requirements then err ''login_required'' ''Sign-in is required'' else beginInteraction fe other None r q
                | Some (u, sess) \<Rightarrow> authorize_user fe other r u sess q grantedScope requirements interactionHash)))"

text \<open>The handler. The one bucket it draws on is keyed by the client's address (\<open>order\<close> and \<open>maxLimiters\<close> as in the rate limiter).\<close>

definition Authorize :: "frontend \<Rightarrow> (world \<Rightarrow> world) \<Rightarrow> (string list \<Rightarrow> string list) \<Rightarrow> nat \<Rightarrow> (user \<times> session) option \<Rightarrow> browse \<Rightarrow>
    world \<times> limiters \<Rightarrow> response \<times> world \<times> limiters" where
  "Authorize fe other order maxLimiters ident r = (\<lambda>(w, ls).
     case authorization_query fe other ident r w of
       (Inl e, w1) \<Rightarrow> (e, w1, ls)
     | (Inr (q, interactionHash), w1) \<Rightarrow>
        (case authorization_client fe other r q w1 of
           (Inl e, w2) \<Rightarrow> (e, w2, ls)
         | (Inr client, w2) \<Rightarrow>
            (case allowRateLimit order maxLimiters (''authorize:ip:'' @ br_rate_ip r) 300 5 (w_now w2) ls of (ok, ls') \<Rightarrow>
               case (if ok then authorize_request fe other ident r q interactionHash
                     else redirectError fe (url_get q ''redirect_uri'') (url_get q ''state'') ''temporarily_unavailable'' ''Too many authorization requests; try again shortly'') w2 of
                 (resp, w3) \<Rightarrow> (resp, w3, ls'))))"
section \<open>Sign-out asked for by an application\<close>

record logout_request = browse +
  lo_malformed :: bool
  lo_hint :: string
  lo_client :: string
  lo_redirect :: string
  lo_state :: string
  lo_confirm :: string

definition hintNamesSession :: "(world \<Rightarrow> world) \<Rightarrow> id_token_hint option \<Rightarrow> string \<Rightarrow> string \<Rightarrow> bool run" where
  "hintNamesSession other hint userID sessionID =
     (case hint of
        None \<Rightarrow> ret False
      | Some h \<Rightarrow> if ih_sid h = '''' \<or> ih_subject h \<noteq> userID then ret False
          else seqr (call other (reading (\<lambda>now. GetClientSession (ih_sid h)))) (\<lambda>cs. ret (case cs of
            None \<Rightarrow> False | Some c \<Rightarrow> cs_session_id c = sessionID \<and> cs_user_id c = userID \<and> cs_client_id c = ih_client_id h)))"

definition finishLogout :: "frontend \<Rightarrow> string \<Rightarrow> string \<Rightarrow> handler" where
  "finishLogout fe redirect state =
     (if redirect = '''' then reply (Page 200 ''Signed out'')
      else case fe_target fe redirect (if state \<noteq> '''' then [(''state'', state)] else []) of
             None \<Rightarrow> stepUpInternalError | Some l \<Rightarrow> reply (Location 302 l))"

definition rejected :: handler where
  "rejected = reply (Page 400 ''Sign-out request rejected'')"

definition bounce :: "logout_request \<Rightarrow> string" where
  "bounce r = ''/oauth/logout?'' @ Encode [(k, [v]). (k, v) \<leftarrow> [(''id_token_hint'', lo_hint r), (''client_id'', lo_client r), (''post_logout_redirect_uri'', lo_redirect r), (''state'', lo_state r)], v \<noteq> '''']"

text \<open>The hint and the client a request names; a hint must verify and agree with the client.\<close>

definition logout_hint :: "frontend \<Rightarrow> logout_request \<Rightarrow> id_token_hint option option run" where
  "logout_hint fe r =
     (if lo_hint r = '''' then ret (Some None)
      else seqr clock (\<lambda>now. ret (case ParseIDTokenHint (fe_engine fe) (lo_hint r) now of
        None \<Rightarrow> None | Some h \<Rightarrow> if lo_client r \<noteq> '''' \<and> lo_client r \<noteq> ih_client_id h then None else Some (Some h))))"

definition logout_client :: "(world \<Rightarrow> world) \<Rightarrow> string \<Rightarrow> oauth_client option option run" where
  "logout_client other clientID =
     (if clientID = '''' then ret (Some None)
      else seqr (call other (reading (\<lambda>now. GetOAuthClientByID clientID))) (\<lambda>oc. ret (case oc of
        None \<Rightarrow> None | Some c \<Rightarrow> if \<not> oc_enabled c then None else Some (Some c))))"

definition end_session :: "frontend \<Rightarrow> (world \<Rightarrow> world) \<Rightarrow> logout_request \<Rightarrow> user \<Rightarrow> session \<Rightarrow> string \<Rightarrow> handler" where
  "end_session fe other r u sess clientID =
     attempt draw (\<lambda>_. stepUpInternalError) (\<lambda>i.
     attempt clock (\<lambda>_. stepUpInternalError) (\<lambda>now.
     let row = buildEvent ''auth.logout'' (usr_id u) (usr_username u) (usr_id u) ''user'' (hr_ip r) (hr_agent r) Success
                 (JObj [(''clientId'', JStr clientID), (''initiator'', JStr ''rp'')]) i now
     in attempt (call other (updating (RevokeSession (usr_id u) (ses_id sess) (Some row))))
          (\<lambda>e. if e = Store ErrNotFound then finishLogout fe (lo_redirect r) (lo_state r) else stepUpInternalError)
          (\<lambda>_. finishLogout fe (lo_redirect r) (lo_state r))))"

text \<open>What a checked request is answered with, for whoever is signed in.\<close>

definition logout_answer :: "frontend \<Rightarrow> (world \<Rightarrow> world) \<Rightarrow> (user \<times> session) option \<Rightarrow> logout_request \<Rightarrow> id_token_hint option \<Rightarrow> string \<Rightarrow> handler" where
  "logout_answer fe other ident r hint clientID =
     (case ident of
        None \<Rightarrow> if hr_method r = ''POST'' then reply (Location 303 (bounce r)) else finishLogout fe (lo_redirect r) (lo_state r)
      | Some (u, sess) \<Rightarrow>
         attempt (hintNamesSession other hint (usr_id u) (ses_id sess)) (\<lambda>_. stepUpInternalError) (\<lambda>named.
         if named then end_session fe other r u sess clientID
         else if lo_confirm r = '''' then reply (Confirm (IssueCSRFToken (fe_sha fe) (fe_hmac fe) '''' (hr_session_token r)))
         else if \<not> csrfTokenMatchesSession (fe_sha fe) (fe_hmac fe) '''' (hr_session_token r) (lo_confirm r) then reply (Page 403 ''Sign-out request rejected'')
         else end_session fe other r u sess clientID))"

definition named_client :: "logout_request \<Rightarrow> id_token_hint option \<Rightarrow> string" where
  "named_client r hint = (case hint of None \<Rightarrow> lo_client r | Some h \<Rightarrow> ih_client_id h)"

definition EndSession :: "frontend \<Rightarrow> (world \<Rightarrow> world) \<Rightarrow> (user \<times> session) option \<Rightarrow> logout_request \<Rightarrow> handler" where
  "EndSession fe other ident r =
     (if hr_method r = ''POST'' \<and> lo_malformed r then rejected
      else if length (lo_hint r) > 8192 \<or> length (lo_client r) > 256 \<or> length (lo_redirect r) > 2048 \<or> length (lo_state r) > 512 then rejected
      else attempt (logout_hint fe r) (\<lambda>_. rejected) (\<lambda>oh. case oh of None \<Rightarrow> rejected | Some hint \<Rightarrow>
        (let clientID = named_client r hint
         in attempt (logout_client other clientID) (\<lambda>_. stepUpInternalError) (\<lambda>oc. case oc of None \<Rightarrow> rejected | Some client \<Rightarrow>
            if lo_redirect r \<noteq> '''' \<and> \<not> ValidatePostLogoutRedirectURI client (lo_redirect r) then rejected
            else logout_answer fe other ident r hint clientID))))"

section \<open>Where responses lead\<close>

definition answers :: "(response \<Rightarrow> bool) \<Rightarrow> handler \<Rightarrow> bool" where
  "answers P h \<longleftrightarrow> (\<forall>w. P (fst (h w)))"

lemma answersD: "answers P h \<Longrightarrow> h w = (x, w') \<Longrightarrow> P x"
  unfolding answers_def by (metis fst_conv)

lemma answers_reply [simp]: "answers P (reply x) \<longleftrightarrow> P x"
  by (simp add: answers_def reply_def)

lemma answers_observed: "answers P h \<Longrightarrow> answers P (\<lambda>w. h (Observe other ev w))"
  by (simp add: answers_def)

lemma answers_attempt: "(\<And>e. answers P (f e)) \<Longrightarrow> (\<And>x. answers P (g x)) \<Longrightarrow> answers P (attempt m f g)"
  unfolding answers_def attempt_def by (auto split: prod.splits sum.splits)

text \<open>A redirect leads to \<open>uri\<close>, with some parameters.\<close>

definition leads_to :: "frontend \<Rightarrow> string \<Rightarrow> response \<Rightarrow> bool" where
  "leads_to fe uri x \<longleftrightarrow> (\<forall>s l. x = Location s l \<longrightarrow> (\<exists>ps. fe_target fe uri ps = Some l))"

lemma leads_to_simps [simp]: "leads_to fe uri (Page n e)" "leads_to fe uri (Login i c)" "leads_to fe uri (Confirm t)"
  "leads_to fe uri (case fe_target fe uri ps of None \<Rightarrow> Page n e | Some l \<Rightarrow> Location s l)"
  by (auto simp: leads_to_def split: option.splits)

lemma redirectError_leads [simp]: "answers (leads_to fe uri) (redirectError fe uri state code desc)"
  by (simp add: redirectError_def)

lemma internal_leads [simp]: "answers (leads_to fe uri) stepUpInternalError"
  by (simp add: stepUpInternalError_def)

lemma beginInteraction_leads [simp]: "answers (leads_to fe (url_get q ''redirect_uri'')) (beginInteraction fe other ident r q)"
  unfolding beginInteraction_def Let_def by (intro answers_attempt) (auto intro!: answers_observed)

lemma denyAccess_leads [simp]: "answers (leads_to fe uri) (denyAccess fe other r u c uri state)"
  unfolding denyAccess_def Let_def by (intro answers_attempt answers_observed) simp_all

lemma issue_code_leads [simp]: "answers (leads_to fe (url_get q ''redirect_uri'')) (issue_code fe other r u sess q g req h)"
  unfolding issue_code_def Let_def by (intro answers_attempt) (auto intro!: answers_observed)

lemma authorize_user_leads [simp]: "answers (leads_to fe (url_get q ''redirect_uri'')) (authorize_user fe other r u sess q g req h)"
  unfolding authorize_user_def Let_def by (auto intro!: answers_attempt)

lemma authorize_request_leads: "answers (leads_to fe (url_get q ''redirect_uri'')) (authorize_request fe other ident r q h)"
  unfolding authorize_request_def Let_def by (auto intro!: answers_attempt split: option.splits)

lemma authorization_client_InrD:
  assumes "authorization_client fe other r q w = (Inr client, w')"
  shows "GetOAuthClientByID (url_get q ''client_id'') (w_db (other w)) = Some client" "oc_enabled client" "ValidateRedirectURI (Some client) (url_get q ''redirect_uri'')"
    "w' = other w" "url_get q ''response_type'' = ''code''"
  using assms by (auto simp: authorization_client_def attempt_def call_def reading_def Let_def split: if_splits option.splits)

lemma authorization_query_page: "authorization_query fe other ident r w = (Inl x, w') \<Longrightarrow> \<exists>n e. x = Page n e"
  by (auto simp: authorization_query_def attempt_def Let_def split: if_splits option.splits prod.splits sum.splits)

lemma authorization_client_page: "authorization_client fe other r q w = (Inl x, w') \<Longrightarrow> \<exists>n e. x = Page n e"
  by (auto simp: authorization_client_def attempt_def Let_def split: if_splits option.splits prod.splits sum.splits)

text \<open>
  C98. The authorization endpoint is no open redirector, whatever other requests do meanwhile: a redirect it answers with leads to
  the URI the request names, and only after an enabled client was read whose registration lists that URI exactly. Every
  other answer is an error page or this server's own sign-in page.
\<close>

theorem authorize_redirects_registered:
  assumes "Authorize fe other order maxLimiters ident r (w, ls) = (Location s l, w', ls')"
  shows "\<exists>q h w1 client ps. authorization_query fe other ident r w = (Inr (q, h), w1) \<and>
    GetOAuthClientByID (url_get q ''client_id'') (w_db (other w1)) = Some client \<and> oc_enabled client \<and>
    registeredExactly (oc_redirect_uris client) (url_get q ''redirect_uri'') \<and> fe_target fe (url_get q ''redirect_uri'') ps = Some l"
proof -
  obtain q h w1 where q: "authorization_query fe other ident r w = (Inr (q, h), w1)"
    using assms by (cases "authorization_query fe other ident r w") (auto simp: Authorize_def dest!: authorization_query_page split: sum.splits prod.splits)
  obtain client w2 where c: "authorization_client fe other r q w1 = (Inr client, w2)"
    using assms q by (cases "authorization_client fe other r q w1") (auto simp: Authorize_def dest!: authorization_client_page split: sum.splits prod.splits)
  have "answers (leads_to fe (url_get q ''redirect_uri'')) (if ok then authorize_request fe other ident r q h
      else redirectError fe (url_get q ''redirect_uri'') (url_get q ''state'') code desc)" for ok code desc by (simp add: authorize_request_leads)
  with assms q c have "leads_to fe (url_get q ''redirect_uri'') (Location s l)"
    by (auto simp: Authorize_def dest!: answersD split: prod.splits)
  with q authorization_client_InrD[OF c] show ?thesis by (auto simp: leads_to_def ValidateRedirectURI_def)
qed

section \<open>When a code is issued\<close>

text \<open>On a server with no other request under way a read changes nothing.\<close>

lemma attempt_querying [simp]: "attempt (call id (querying f)) fl nx w = (case f (w_now w) (w_db w) of Inl e \<Rightarrow> fl (Store e) w | Inr x \<Rightarrow> nx x w)"
  by (auto simp: attempt_def call_def querying_def Let_def split: sum.splits)

lemma attempt_reading [simp]: "attempt (call id (reading f)) fl nx w = nx (f (w_now w) (w_db w)) w"
  by (simp add: attempt_def call_def reading_def Let_def)

lemma attempt_clock [simp]: "attempt clock fl nx w = nx (w_now w) w"
  by (simp add: attempt_def clock_def)

lemma attempt_ret [simp]: "attempt (ret x) fl nx w = nx x w"
  by (simp add: attempt_def ret_def)

definition leaves_codes :: "(world \<Rightarrow> 'a \<times> world) \<Rightarrow> bool" where
  "leaves_codes h \<longleftrightarrow> (\<forall>w. authorization_codes (w_db (snd (h w))) = authorization_codes (w_db w))"

lemma leaves_codesD: "leaves_codes h \<Longrightarrow> h w = (x, w') \<Longrightarrow> authorization_codes (w_db w') = authorization_codes (w_db w)"
  unfolding leaves_codes_def by (metis snd_conv)

lemma leaves_codes_basic [simp]:
  "leaves_codes (reply x)" "leaves_codes draw" "leaves_codes (redirectError fe uri state code desc)" "leaves_codes stepUpInternalError" "leaves_codes clock" "leaves_codes (ret y)"
  "leaves_codes (call id (reading f))" "leaves_codes (call id (querying g))"
  by (auto simp: leaves_codes_def reply_def draw_def fresh_id_def redirectError_def stepUpInternalError_def clock_def ret_def call_def reading_def querying_def Let_def split: sum.splits)

lemma leaves_codes_attempt: "leaves_codes m \<Longrightarrow> (\<And>e. leaves_codes (f e)) \<Longrightarrow> (\<And>x. leaves_codes (g x)) \<Longrightarrow> leaves_codes (attempt m f g)"
  unfolding leaves_codes_def attempt_def by (simp split: prod.split sum.split) (metis snd_conv)

lemma Observe_codes [simp]: "authorization_codes (w_db (Observe id ev w)) = authorization_codes (w_db w)"
  by (auto simp: Observe_def RecordEvent_def fresh_id_def Let_def dest!: recordAuditTx_InrD split: sum.splits prod.splits)

lemma leaves_codes_observed: "leaves_codes h \<Longrightarrow> leaves_codes (\<lambda>w. h (Observe id ev w))"
  by (simp add: leaves_codes_def)

lemma denyAccess_codes [simp]: "leaves_codes (denyAccess fe id r u c uri state)"
  unfolding denyAccess_def Let_def by (intro leaves_codes_attempt leaves_codes_observed) simp_all

lemma beginInteraction_codes [simp]: "leaves_codes (beginInteraction fe id ident r q)"
proof -
  have "leaves_codes (call id (writing (CreateAuthorizationInteraction i)))" for i
    by (auto simp: leaves_codes_def call_def writing_def CreateAuthorizationInteraction_def Let_def result_iffs split: sum.splits)
  then show ?thesis unfolding beginInteraction_def Let_def by (intro leaves_codes_attempt) (auto intro!: leaves_codes_observed)
qed

lemma GrantedScope_codes: "GrantedScope id clientID scope w = (x, w') \<Longrightarrow> w' = w"
  by (auto simp: GrantedScope_def seqr_def call_def reading_def refuse_def ret_def Let_def split: option.splits if_splits)

lemma authorization_query_quiet: "authorization_query fe id ident r w = (x, w') \<Longrightarrow> w' = w"
  by (auto simp: authorization_query_def Let_def split: if_splits option.splits sum.splits)

lemma resumed_interaction:
  assumes "authorization_query fe id (Some (u, sess)) r w = (Inr (q, h), w')" and "h \<noteq> []"
  shows "\<exists>i \<in> set (interactions (w_db w)). ai_hash i = h \<and> ai_browser_hash i = authorizationBrowserHash fe r \<and> ai_session_id i = ses_id sess \<and> w_now w < ai_expires_at i"
  using assms by (auto simp: authorization_query_def GetAuthorizationInteraction_def Let_def dest!: find_SomeD split: if_splits option.splits sum.splits)

lemma authorization_client_codes: "authorization_client fe id r q w = (Inl x, w') \<Longrightarrow> authorization_codes (w_db w') = authorization_codes (w_db w)"
  by (auto simp: authorization_client_def Let_def split: if_splits option.splits)

text \<open>What an issued code records, and what held of its session.\<close>

definition fails_clean :: "'a run \<Rightarrow> bool" where
  "fails_clean m \<longleftrightarrow> (\<forall>w e w'. m w = (Inl e, w') \<longrightarrow> authorization_codes (w_db w') = authorization_codes (w_db w))"

lemma fails_clean_basic [simp]: "fails_clean (ret x)" "fails_clean (refuse e)" "fails_clean (seqr (call id (writing F)) (\<lambda>_. ret x))"
  by (auto simp: fails_clean_def ret_def refuse_def seqr_def call_def writing_def Let_def split: sum.splits)

lemma fails_clean_seqr: "leaves_codes m \<Longrightarrow> (\<And>x. fails_clean (f x)) \<Longrightarrow> fails_clean (seqr m f)"
  unfolding fails_clean_def leaves_codes_def seqr_def by (auto split: prod.splits sum.splits) (metis snd_conv)+

lemma create_code_failed: "fails_clean (CreateAuthorizationCodeForInteraction id cx clientID sid uri g ch meth nonce req h)"
proof -
  have [simp]: "leaves_codes (demand b e)" for b e by (simp add: leaves_codes_def demand_def ret_def refuse_def)
  show ?thesis unfolding CreateAuthorizationCodeForInteraction_def Let_def
    by (rule fails_clean_basic | rule fails_clean_seqr | simp split: option.split prod.split | intro allI impI conjI)+
qed

lemma created_code:
  assumes "CreateAuthorizationCodeForInteraction id cx clientID sid uri g ch meth nonce req h w = (Inr code, w')"
  shows "\<exists>c s. authorization_codes (w_db w') = authorization_codes (w_db w) @ [c] \<and> s \<in> set (sessions (w_db w)) \<and> ses_id s = sid \<and> w_now w < ses_expires_at s \<and>
    ac_session_id c = sid \<and> ac_user_id c = ses_user_id s \<and> ac_client_id c = clientID \<and> ac_redirect_uri c = uri \<and>
    ac_scope c = g \<and> ac_code_challenge c = ch \<and> ac_used_at c = None \<and> ac_expires_at c = w_now w + AuthorizationCodeTTL \<and> ch \<noteq> [] \<and> meth = ''S256''"
proof -
  define d1 where "d1 = (w_db w)\<lparr>rand_pos := Suc (Suc (rand_pos (w_db w)))\<rparr>"
  define i where "i = rand_src (w_db w) (Suc (rand_pos (w_db w)))"
  define raw where "raw = rand_src (w_db w) (rand_pos (w_db w))"
  from assms obtain s pol d' where s: "GetSessionByID sid (w_now w) (w_db w) = Some s" and ch: "ch \<noteq> []" "meth = ''S256''"
    and cr0: "CreateAuthorizationCode (new_code i (cx_sha cx raw) clientID s uri g ch meth nonce
      (an_max_age (if h \<noteq> [] then (WithAppPolicy pol req)\<lparr>an_fresh := False\<rparr> else WithAppPolicy pol req)) (w_now w)) h (w_now w) d1 = Inr d'" and w': "w' = w\<lparr>w_db := d'\<rparr>"
    by (auto simp: CreateAuthorizationCodeForInteraction_def run_iffs Let_def d1_def i_def raw_def split: option.splits)
  then obtain age where cr: "CreateAuthorizationCode (new_code i (cx_sha cx raw) clientID s uri g ch meth nonce age (w_now w)) h (w_now w) d1 = Inr d'" by blast
  have d1: "authorization_codes d1 = authorization_codes (w_db w)" by (simp add: d1_def)
  from cr obtain code' ins where c: "checkCodeAppAuthenticationTx (new_code i (cx_sha cx raw) clientID s uri g ch meth nonce age (w_now w)) h (w_now w) d1 = Inr code'"
    and d': "d' = d1\<lparr>interactions := ins, authorization_codes := authorization_codes d1 @ [code'\<lparr>ac_used_at := None, ac_created_at := w_now w\<rparr>]\<rparr>"
    by (rule CreateAuthorizationCode_InrD)
  from checkCodeAppAuthenticationTx_InrD[OF c] obtain e aid pr rr where
    "code' = (new_code i (cx_sha cx raw) clientID s uri g ch meth nonce age (w_now w))\<lparr>ac_authentication_expires_at := e, ac_auth_app_id := aid, ac_auth_policy_revision := pr, ac_role_revision := rr\<rparr>"
    by blast
  with s ch d1 d' w' show ?thesis
    by (intro exI[of _ "code'\<lparr>ac_used_at := None, ac_created_at := w_now w\<rparr>"] exI[of _ s]) (auto simp: new_code_def GetSessionByID_def dest: find_SomeD)
qed

lemma issue_code_codes:
  assumes "issue_code fe id r u sess q g req h w = (x, w')" and "authorization_codes (w_db w') \<noteq> authorization_codes (w_db w)"
  shows "\<exists>c s. authorization_codes (w_db w') = authorization_codes (w_db w) @ [c] \<and> s \<in> set (sessions (w_db w)) \<and> ses_id s = ses_id sess \<and> w_now w < ses_expires_at s \<and>
    ac_session_id c = ses_id sess \<and> ac_user_id c = ses_user_id s \<and> ac_client_id c = url_get q ''client_id'' \<and> ac_redirect_uri c = url_get q ''redirect_uri'' \<and>
    ac_scope c = g \<and> ac_code_challenge c = url_get q ''code_challenge'' \<and> ac_used_at c = None \<and> ac_expires_at c = w_now w + AuthorizationCodeTTL \<and>
    url_get q ''code_challenge'' \<noteq> [] \<and> url_get q ''code_challenge_method'' = ''S256''"
proof -
  obtain y w1 where cr: "CreateAuthorizationCodeForInteraction id (fe_engine fe) (url_get q ''client_id'') (ses_id sess) (url_get q ''redirect_uri'') g (url_get q ''code_challenge'')
      (url_get q ''code_challenge_method'') (url_get q ''nonce'') req h w = (y, w1)" by (meson surj_pair)
  have w1: "authorization_codes (w_db w') = authorization_codes (w_db w1)"
    using assms(1) cr by (auto simp: issue_code_def attempt_def Let_def reply_def split: sum.splits if_splits
      intro: leaves_codesD[OF leaves_codes_basic(3)] leaves_codesD[OF denyAccess_codes])
  from assms(2) w1 cr create_code_failed obtain code where "y = Inr code" unfolding fails_clean_def by (cases y) auto
  with cr have "CreateAuthorizationCodeForInteraction id (fe_engine fe) (url_get q ''client_id'') (ses_id sess) (url_get q ''redirect_uri'') g (url_get q ''code_challenge'')
      (url_get q ''code_challenge_method'') (url_get q ''nonce'') req h w = (Inr code, w1)" by simp
  from created_code[OF this] show ?thesis unfolding w1 .
qed
lemma refusals_leave_codes:
  assumes "authorization_codes (w_db w') \<noteq> authorization_codes (w_db w)"
  shows "redirectError fe uri state code desc w \<noteq> (x, w')" "denyAccess fe id r u c uri state w \<noteq> (x, w')" "beginInteraction fe id ident r q w \<noteq> (x, w')"
  using assms leaves_codesD[OF leaves_codes_basic(3)] leaves_codesD[OF denyAccess_codes] leaves_codesD[OF beginInteraction_codes] by metis+

lemma authorize_user_codes:
  assumes "authorize_user fe id r u sess q g req h w = (x, w')" and "authorization_codes (w_db w') \<noteq> authorization_codes (w_db w)"
  shows "\<exists>st. SessionEnrollmentStatus (usr_id u) (ses_id sess) (w_now w) (w_db w) = Inr st \<and> \<not> es_restricted st" "\<not> usr_password_change_required u"
    "ClientAccessAllowed (usr_id u) (url_get q ''client_id'') (w_now w) (w_db w)" "Satisfied req (ses_evidence sess) (w_now w)"
    "issue_code fe id r u sess q g req h w = (x, w')"
  using assms(1) refusals_leave_codes[OF assms(2)] by (auto simp: authorize_user_def Let_def split: sum.splits if_splits)

lemma authorize_request_codes:
  assumes "authorize_request fe id ident r q h w = (x, w')" and "authorization_codes (w_db w') \<noteq> authorization_codes (w_db w)"
  shows "\<exists>u sess g req policy. ident = Some (u, sess) \<and> ParseAuthenticationRequest q = Some req \<and> ClientAuthenticationPolicy (url_get q ''client_id'') (w_db w) = Inr policy \<and>
    GrantedScope id (url_get q ''client_id'') (url_get q ''scope'') w = (Inr g, w) \<and>
    authorize_user fe id r u sess q g (if h \<noteq> [] then (WithAppPolicy policy req)\<lparr>an_fresh := False\<rparr> else WithAppPolicy policy req) h w = (x, w')"
proof -
  note leave = refusals_leave_codes[OF assms(2)]
  obtain y w1 where g: "GrantedScope id (url_get q ''client_id'') (url_get q ''scope'') w = (y, w1)" by (meson surj_pair)
  with GrantedScope_codes have w1: "w1 = w" by blast
  from assms(1) g w1 leave(1) obtain g' where "y = Inr g'" by (cases y) (auto simp: authorize_request_def Let_def attempt_def split: if_splits)
  with assms(1) g w1 leave show ?thesis
    by (auto simp: authorize_request_def Let_def attempt_def[of "GrantedScope id a b" for a b] split: if_splits option.splits sum.splits)
qed

text \<open>
  C99. Who gets a code: when a request to the authorization endpoint adds a code (no other request being under way), its caller holds a
  session that is enrolled, whose account need not change its password and has access to the application now, and whose evidence satisfies
  what the client asked together with the application's policy; the client is enabled, the redirect URI is registered exactly, and the one
  new code is bound to that client, URI, session, scope and PKCE challenge. A request resumed from an interaction was opened by this browser and signed in to by this session.
\<close>

theorem code_only_when_entitled:
  assumes "Authorize fe id order maxLimiters ident r (w, ls) = (x, w', ls')" and "authorization_codes (w_db w') \<noteq> authorization_codes (w_db w)"
  shows "\<exists>u sess q h client req policy st c s g. ident = Some (u, sess) \<and> authorization_query fe id ident r w = (Inr (q, h), w) \<and>
    GetOAuthClientByID (url_get q ''client_id'') (w_db w) = Some client \<and> oc_enabled client \<and> registeredExactly (oc_redirect_uris client) (url_get q ''redirect_uri'') \<and>
    SessionEnrollmentStatus (usr_id u) (ses_id sess) (w_now w) (w_db w) = Inr st \<and> \<not> es_restricted st \<and> \<not> usr_password_change_required u \<and>
    ClientAccessAllowed (usr_id u) (url_get q ''client_id'') (w_now w) (w_db w) \<and>
    ParseAuthenticationRequest q = Some req \<and> ClientAuthenticationPolicy (url_get q ''client_id'') (w_db w) = Inr policy \<and>
    Satisfied (if h \<noteq> [] then (WithAppPolicy policy req)\<lparr>an_fresh := False\<rparr> else WithAppPolicy policy req) (ses_evidence sess) (w_now w) \<and>
    GrantedScope id (url_get q ''client_id'') (url_get q ''scope'') w = (Inr g, w) \<and>
    authorization_codes (w_db w') = authorization_codes (w_db w) @ [c] \<and> s \<in> set (sessions (w_db w)) \<and> ses_id s = ses_id sess \<and> w_now w < ses_expires_at s \<and>
    ac_session_id c = ses_id sess \<and> ac_user_id c = ses_user_id s \<and> ac_client_id c = url_get q ''client_id'' \<and> ac_redirect_uri c = url_get q ''redirect_uri'' \<and>
    ac_scope c = g \<and> ac_code_challenge c = url_get q ''code_challenge'' \<and> ac_code_challenge c \<noteq> [] \<and> ac_used_at c = None \<and>
    (h \<noteq> [] \<longrightarrow> (\<exists>i \<in> set (interactions (w_db w)). ai_hash i = h \<and> ai_browser_hash i = authorizationBrowserHash fe r \<and> ai_session_id i = ses_id sess \<and> w_now w < ai_expires_at i))"
proof -
  obtain q h where q: "authorization_query fe id ident r w = (Inr (q, h), w)"
    using assms authorization_query_quiet[of fe ident r w]
    by (cases "authorization_query fe id ident r w") (auto simp: Authorize_def split: sum.splits prod.splits)
  obtain client w2 where c: "authorization_client fe id r q w = (Inr client, w2)"
    using assms q authorization_client_codes[of fe r q w]
    by (cases "authorization_client fe id r q w") (auto simp: Authorize_def split: sum.splits prod.splits)
  note cl = authorization_client_InrD[OF c, simplified]
  from assms q c cl(4) refusals_leave_codes(1)[OF assms(2)] have "authorize_request fe id ident r q h w = (x, w')"
    by (auto simp: Authorize_def split: prod.splits if_splits)
  from authorize_request_codes[OF this assms(2)] obtain u sess g req policy where id: "ident = Some (u, sess)"
    and req: "ParseAuthenticationRequest q = Some req" "ClientAuthenticationPolicy (url_get q ''client_id'') (w_db w) = Inr policy" "GrantedScope id (url_get q ''client_id'') (url_get q ''scope'') w = (Inr g, w)"
    and au: "authorize_user fe id r u sess q g (if h \<noteq> [] then (WithAppPolicy policy req)\<lparr>an_fresh := False\<rparr> else WithAppPolicy policy req) h w = (x, w')" by blast
  note us = authorize_user_codes[OF au assms(2)]
  note issued = issue_code_codes[OF us(5) assms(2)]
  have "h \<noteq> [] \<longrightarrow> (\<exists>i \<in> set (interactions (w_db w)). ai_hash i = h \<and> ai_browser_hash i = authorizationBrowserHash fe r \<and> ai_session_id i = ses_id sess \<and> w_now w < ai_expires_at i)"
    using resumed_interaction[OF q[unfolded id]] by blast
  with id q cl req us(1-4) issued show ?thesis by (simp add: ValidateRedirectURI_def) metis
qed

section \<open>Signing out\<close>

lemma finishLogout_leads: "answers (\<lambda>x. \<forall>s l. x = Location s l \<longrightarrow> s = 302 \<and> lo_redirect r \<noteq> [] \<and> (\<exists>ps. fe_target fe (lo_redirect r) ps = Some l)) (finishLogout fe (lo_redirect r) state)"
  by (auto simp: finishLogout_def stepUpInternalError_def split: option.splits)

lemma end_session_leads: "answers (\<lambda>x. \<forall>s l. x = Location s l \<longrightarrow> s = 302 \<and> lo_redirect r \<noteq> [] \<and> (\<exists>ps. fe_target fe (lo_redirect r) ps = Some l)) (end_session fe other r u sess c)"
  unfolding end_session_def Let_def by (intro answers_attempt) (auto simp: stepUpInternalError_def intro: finishLogout_leads)

text \<open>The request as checked: a hint that verifies, a client that is enabled, a registered address.\<close>

definition logout_checked :: "frontend \<Rightarrow> (world \<Rightarrow> world) \<Rightarrow> logout_request \<Rightarrow> world \<Rightarrow> id_token_hint option \<Rightarrow> string \<Rightarrow> oauth_client option \<Rightarrow> bool" where
  "logout_checked fe other r w hint clientID client \<longleftrightarrow>
     (case hint of None \<Rightarrow> lo_hint r = [] \<and> clientID = lo_client r
      | Some h \<Rightarrow> ParseIDTokenHint (fe_engine fe) (lo_hint r) (w_now w) = Some h \<and> clientID = ih_client_id h \<and> (lo_client r = [] \<or> lo_client r = ih_client_id h)) \<and>
     (case client of None \<Rightarrow> clientID = [] | Some c \<Rightarrow> GetOAuthClientByID clientID (w_db (other w)) = Some c \<and> oc_enabled c) \<and>
     (lo_redirect r \<noteq> [] \<longrightarrow> ValidatePostLogoutRedirectURI client (lo_redirect r))"

lemma logout_hint_SomeD:
  assumes "logout_hint fe r w = (Inr (Some hint), w')"
  shows "case hint of None \<Rightarrow> lo_hint r = [] | Some h \<Rightarrow> ParseIDTokenHint (fe_engine fe) (lo_hint r) (w_now w) = Some h \<and> (lo_client r = [] \<or> lo_client r = ih_client_id h)"
proof (cases "lo_hint r = []")
  case True
  with assms show ?thesis by (auto simp: logout_hint_def ret_def)
next
  case False
  define p where "p = ParseIDTokenHint (fe_engine fe) (lo_hint r) (w_now w)"
  show ?thesis unfolding p_def[symmetric] using assms False
    by (cases p) (auto simp: logout_hint_def ret_def seqr_def clock_def p_def[symmetric] split: if_splits)
qed

lemma logout_client_SomeD:
  assumes "logout_client other cid w = (Inr (Some client), w')"
  shows "case client of None \<Rightarrow> cid = [] | Some c \<Rightarrow> GetOAuthClientByID cid (w_db (other w)) = Some c \<and> oc_enabled c"
proof (cases "cid = []")
  case True
  with assms show ?thesis by (auto simp: logout_client_def ret_def)
next
  case False
  define g where "g = GetOAuthClientByID cid (w_db (other w))"
  show ?thesis unfolding g_def[symmetric] using assms False
    by (cases g) (auto simp: logout_client_def ret_def seqr_def call_def reading_def Let_def g_def[symmetric] split: if_splits)
qed

lemma EndSession_cases:
  assumes "EndSession fe other ident r w = (x, w')"
  obtains (rejected) n e where "x = Page n e" "w' = w \<or> w' = other w"
    | (checked) hint clientID client v where "logout_checked fe other r w hint clientID client" "v = w \<or> v = other w" "logout_answer fe other ident r hint clientID v = (x, w')"
proof -
  have rej: "rejected v = (Page 400 ''Sign-out request rejected'', v)" for v by (simp add: rejected_def reply_def)
  obtain oh where oh: "logout_hint fe r w = (Inr oh, w)" by (cases "lo_hint r = []") (auto simp: logout_hint_def ret_def seqr_def clock_def)
  show thesis
  proof (cases "(hr_method r = ''POST'' \<and> lo_malformed r) \<or> length (lo_hint r) > 8192 \<or> length (lo_client r) > 256 \<or> length (lo_redirect r) > 2048 \<or> length (lo_state r) > 512 \<or> oh = None")
    case True
    with assms oh have "(x, w') = rejected w" by (auto simp: EndSession_def attempt_def split: if_splits)
    with rej rejected show thesis by simp
  next
    case False
    then obtain hint where hint: "oh = Some hint" by auto
    define cid where "cid = named_client r hint"
    have h: "case hint of None \<Rightarrow> lo_hint r = [] \<and> cid = lo_client r
      | Some h \<Rightarrow> ParseIDTokenHint (fe_engine fe) (lo_hint r) (w_now w) = Some h \<and> cid = ih_client_id h \<and> (lo_client r = [] \<or> lo_client r = ih_client_id h)"
      using logout_hint_SomeD[OF oh[unfolded hint]] by (auto simp: cid_def named_client_def split: option.splits)
    obtain oc v where oc: "logout_client other cid w = (Inr oc, v)" "v = w \<or> v = other w"
      by (cases "cid = []") (auto simp: logout_client_def ret_def seqr_def call_def reading_def Let_def)
    have c: "case client of None \<Rightarrow> cid = [] | Some c \<Rightarrow> GetOAuthClientByID cid (w_db (other w)) = Some c \<and> oc_enabled c" if "oc = Some client" for client
      using logout_client_SomeD[of other cid w client v] oc(1) that by simp
    have e: "(x, w') = (case oc of None \<Rightarrow> rejected v | Some client \<Rightarrow>
        if lo_redirect r \<noteq> [] \<and> \<not> ValidatePostLogoutRedirectURI client (lo_redirect r) then rejected v else logout_answer fe other ident r hint cid v)"
    proof -
      have n: "\<not> (hr_method r = ''POST'' \<and> lo_malformed r)" "\<not> (length (lo_hint r) > 8192 \<or> length (lo_client r) > 256 \<or> length (lo_redirect r) > 2048 \<or> length (lo_state r) > 512)"
        using False by blast+
      have "EndSession fe other ident r w = attempt (logout_client other cid) (\<lambda>_. stepUpInternalError) (\<lambda>oc. case oc of None \<Rightarrow> rejected | Some client \<Rightarrow>
          if lo_redirect r \<noteq> [] \<and> \<not> ValidatePostLogoutRedirectURI client (lo_redirect r) then rejected else logout_answer fe other ident r hint cid) w"
        unfolding EndSession_def if_not_P[OF n(1)] if_not_P[OF n(2)] attempt_def[of "logout_hint fe r"] oh hint cid_def by (simp add: Let_def)
      then show ?thesis unfolding assms attempt_def oc(1) by (simp split: option.split)
    qed
    show thesis
    proof (cases "oc = None \<or> (\<exists>client. oc = Some client \<and> lo_redirect r \<noteq> [] \<and> \<not> ValidatePostLogoutRedirectURI client (lo_redirect r))")
      case True
      with e have "(x, w') = rejected v" by auto
      with rej rejected oc(2) show thesis by simp
    next
      case False
      with e obtain client where "oc = Some client" "lo_redirect r \<noteq> [] \<longrightarrow> ValidatePostLogoutRedirectURI client (lo_redirect r)" "logout_answer fe other ident r hint cid v = (x, w')"
        by (auto split: if_splits)
      with checked h c oc(2) show thesis by (auto simp: logout_checked_def)
    qed
  qed
qed

text \<open>
  C100. A sign-out sends the browser only where the application registered: a redirect is either this server's own endpoint (the bounce of
  a cross-site POST) or the address asked for, and then an enabled client was read whose post-logout registration lists it exactly.
\<close>

theorem logout_redirects_registered:
  assumes "EndSession fe other ident r w = (Location s l, w')"
  shows "(s = 303 \<and> l = bounce r \<and> ident = None) \<or>
    (s = 302 \<and> (\<exists>hint clientID client ps. logout_checked fe other r w hint clientID (Some client) \<and> oc_enabled client \<and>
      registeredExactly (oc_post_logout_redirect_uris client) (lo_redirect r) \<and> fe_target fe (lo_redirect r) ps = Some l))"
  using assms
proof (cases rule: EndSession_cases)
  case (checked hint clientID client v)
  show ?thesis
  proof (cases "s = 303 \<and> l = bounce r \<and> ident = None")
    case False
    have "answers (\<lambda>x. \<forall>s l. x = Location s l \<longrightarrow> (s = 303 \<and> l = bounce r \<and> ident = None) \<or> s = 302 \<and> lo_redirect r \<noteq> [] \<and> (\<exists>ps. fe_target fe (lo_redirect r) ps = Some l))
        (logout_answer fe other ident r hint clientID)"
      unfolding logout_answer_def stepUpInternalError_def using finishLogout_leads[of r fe "lo_state r"] end_session_leads[of r fe other]
      by (auto simp: answers_def reply_def attempt_def split: option.splits prod.splits sum.splits)
    from answersD[OF this checked(3)] False obtain ps where "s = 302" "lo_redirect r \<noteq> []" "fe_target fe (lo_redirect r) ps = Some l" by blast
    moreover from this checked(1) obtain c where "client = Some c" "oc_enabled c" "registeredExactly (oc_post_logout_redirect_uris c) (lo_redirect r)"
      by (cases client) (auto simp: logout_checked_def ValidatePostLogoutRedirectURI_def)
    ultimately show ?thesis using checked(1) by blast
  qed simp
qed simp

lemma named_session:
  assumes "hintNamesSession id hint userID sessionID w = (Inr named, w')" and "named"
  shows "\<exists>h c. hint = Some h \<and> ih_subject h = userID \<and> GetClientSession (ih_sid h) (w_db w) = Some c \<and> cs_session_id c = sessionID \<and> cs_user_id c = userID \<and> cs_client_id c = ih_client_id h"
  using assms by (cases hint) (auto simp: hintNamesSession_def run_iffs split: if_splits option.splits)

lemma revoked_by_logout:
  assumes "end_session fe id r u sess clientID w = (x, w')" and "sessions (w_db w') \<noteq> sessions (w_db w)"
  shows "\<exists>row d. RevokeSession (usr_id u) (ses_id sess) (Some row) (w_now w) d = Inr ((), w_db w') \<and> rand_only (w_db w) d"
proof -
  have fin: "finishLogout fe redirect state v = (x, w') \<Longrightarrow> w' = v" for redirect state v
    by (auto simp: finishLogout_def reply_def stepUpInternalError_def split: if_splits option.splits)
  define d where "d = (w_db w)\<lparr>rand_pos := Suc (rand_pos (w_db w))\<rparr>"
  have d: "rand_only (w_db w) d" "sessions d = sessions (w_db w)" by (auto simp: rand_only_def d_def)
  from assms(1) obtain row where e: "attempt (call id (updating (RevokeSession (usr_id u) (ses_id sess) (Some row))))
      (\<lambda>e. if e = Store ErrNotFound then finishLogout fe (lo_redirect r) (lo_state r) else stepUpInternalError) (\<lambda>_. finishLogout fe (lo_redirect r) (lo_state r)) (w\<lparr>w_db := d\<rparr>) = (x, w')"
    by (auto simp: end_session_def attempt_def[of draw] draw_def fresh_id_def Let_def d_def)
  show ?thesis
  proof (cases "RevokeSession (usr_id u) (ses_id sess) (Some row) (w_now w) d")
    case (Inl a)
    with e have "w' = w\<lparr>w_db := d\<rparr>" by (auto simp: attempt_def call_def updating_def Let_def stepUpInternalError_def reply_def split: if_splits dest!: fin)
    with d(2) assms(2) show ?thesis by simp
  next
    case (Inr y)
    with e have "w_db w' = snd y" by (cases y) (auto simp: attempt_def call_def updating_def Let_def dest!: fin)
    with Inr d(1) show ?thesis by (cases y) auto
  qed
qed

text \<open>
  C101. A sign-out asked for by an application ends a session only with proof: the session it ends is the one of this browser, and either an ID
  token issued to that client for this very session was presented or the confirmation carries the token issued for this session.
\<close>

theorem logout_needs_proof:
  assumes "EndSession fe id ident r w = (x, w')" and "sessions (w_db w') \<noteq> sessions (w_db w)"
  shows "\<exists>u sess. ident = Some (u, sess) \<and>
    ((\<exists>h c. ParseIDTokenHint (fe_engine fe) (lo_hint r) (w_now w) = Some h \<and> GetClientSession (ih_sid h) (w_db w) = Some c \<and> ih_subject h = usr_id u \<and>
        cs_session_id c = ses_id sess \<and> cs_user_id c = usr_id u \<and> cs_client_id c = ih_client_id h) \<or>
     (lo_confirm r = IssueCSRFToken (fe_sha fe) (fe_hmac fe) [] (hr_session_token r))) \<and>
    (\<exists>row d. RevokeSession (usr_id u) (ses_id sess) (Some row) (w_now w) d = Inr ((), w_db w') \<and> rand_only (w_db w) d)"
  using assms(1)
proof (cases rule: EndSession_cases)
  case (checked hint clientID client v)
  then have ans: "logout_answer fe id ident r hint clientID w = (x, w')" by simp
  have fin: "finishLogout fe redirect state v = (x, w') \<Longrightarrow> w' = v" for redirect state v
    by (auto simp: finishLogout_def reply_def stepUpInternalError_def split: if_splits option.splits)
  from ans assms(2) obtain u sess where id: "ident = Some (u, sess)"
    by (cases ident) (auto simp: logout_answer_def reply_def split: if_splits dest!: fin)
  obtain named where named: "hintNamesSession id hint (usr_id u) (ses_id sess) w = (Inr named, w)"
    by (cases hint; cases "ih_sid (the hint) = [] \<or> ih_subject (the hint) \<noteq> usr_id u") (auto simp: hintNamesSession_def ret_def seqr_def call_def reading_def Let_def)
  from ans assms(2) named id have es: "end_session fe id r u sess clientID w = (x, w')" and shown: "named \<or> lo_confirm r = IssueCSRFToken (fe_sha fe) (fe_hmac fe) [] (hr_session_token r)"
    by (auto simp: logout_answer_def attempt_def[of "hintNamesSession a b c d" for a b c d] reply_def csrfTokenMatchesSession_def Let_def split: if_splits)
  from named_session[OF named] checked(1) shown es revoked_by_logout[OF es assms(2)] show ?thesis unfolding id logout_checked_def by (cases hint) auto
qed (use assms(2) in auto)

section \<open>Examples\<close>

definition sample_front :: frontend where
  "sample_front = \<lparr>fe_engine = sample_engine, fe_hmac = (\<lambda>s. CHR ''m'' # s), fe_target = (\<lambda>uri ps. Some (uri @ ''?'' @ Encode (map (\<lambda>(k, v). (k, [v])) ps))), fe_launchers = []\<rparr>"

definition sample_ident :: "user \<times> session" where
  "sample_ident = (sample_ann, sample_session ''s1'' ''u1'')"

definition sample_browse :: browse where
  "sample_browse = \<lparr>hr_method = ''GET'', hr_path = ''/oauth/authorize'', hr_id = '''', hr_session_token = ''s1'', hr_csrf_cookie = '''', hr_csrf_header = '''', hr_csrf_form = '''',
     hr_step_up = '''', hr_ip = ''192.0.2.1'', hr_agent = ''browser'',
     br_query = ''client_id=c1&redirect_uri=https%3A%2F%2Fnotes.example%2Fcb&response_type=code&scope=openid&state=x&code_challenge=cv&code_challenge_method=S256'',
     br_browser = '''', br_rate_ip = ''192.0.2.1''\<rparr>"

definition sample_world :: world where
  "sample_world = \<lparr>w_db = sample_db, w_now = sample_now\<rparr>"

definition sample_authorize :: "response \<times> world \<times> limiters" where
  "sample_authorize = Authorize sample_front id id 10 (Some sample_ident) sample_browse (sample_world, [])"

definition is_location :: "response \<Rightarrow> bool" where
  "is_location x = (case x of Location s l \<Rightarrow> True | _ \<Rightarrow> False)"

lemma located: "is_location (fst r) \<Longrightarrow> \<exists>s l w. r = (Location s l, w)"
  by (cases r; cases "fst r") (simp_all add: is_location_def)

theorem authorize_redirects_registered_witness:
  "\<exists>s l w' ls'. \<exists>client :: oauth_client. Authorize sample_front id id 10 (Some sample_ident) sample_browse (sample_world, []) = (Location s l, w', ls') \<and>
     oc_enabled client \<and> registeredExactly (oc_redirect_uris client) sample_uri"
proof -
  have "is_location (fst sample_authorize)" by code_simp
  then obtain s l w' ls' where a: "Authorize sample_front id id 10 (Some sample_ident) sample_browse (sample_world, []) = (Location s l, w', ls')"
    unfolding sample_authorize_def[symmetric] by (metis located surj_pair)
  have "url_get (fst (projr (fst (authorization_query sample_front id (Some sample_ident) sample_browse sample_world)))) ''redirect_uri'' = sample_uri" by code_simp
  with authorize_redirects_registered[OF a] a show ?thesis by auto
qed

theorem code_only_when_entitled_witness:
  "\<exists>x w' ls' c. Authorize sample_front id id 10 (Some sample_ident) sample_browse (sample_world, []) = (x, w', ls') \<and>
     authorization_codes (w_db w') = authorization_codes (w_db sample_world) @ [c] \<and> ac_session_id c = ''s1''"
proof -
  obtain x w' ls' where a: "Authorize sample_front id id 10 (Some sample_ident) sample_browse (sample_world, []) = (x, w', ls')" by (metis prod_cases3)
  have "length (authorization_codes (w_db (fst (snd sample_authorize)))) \<noteq> length (authorization_codes (w_db sample_world))" by code_simp
  then have "authorization_codes (w_db w') \<noteq> authorization_codes (w_db sample_world)" by (auto simp: sample_authorize_def a)
  from code_only_when_entitled[OF a this] obtain u sess c where "Some sample_ident = Some (u, sess)"
    "authorization_codes (w_db w') = authorization_codes (w_db sample_world) @ [c]" "ac_session_id c = ses_id sess" by blast
  moreover from this(1) have "ses_id sess = ''s1''" by (auto simp: sample_ident_def sample_session_def)
  ultimately show ?thesis using a by auto
qed

definition leaving_request :: logout_request where
  "leaving_request = \<lparr>hr_method = ''POST'', hr_path = ''/oauth/logout'', hr_id = '''', hr_session_token = ''s1'', hr_csrf_cookie = '''', hr_csrf_header = '''', hr_csrf_form = '''',
     hr_step_up = '''', hr_ip = ''192.0.2.1'', hr_agent = ''browser'', br_query = '''', br_browser = '''', br_rate_ip = ''192.0.2.1'',
     lo_malformed = False, lo_hint = '''', lo_client = ''c1'', lo_redirect = ''https://notes.example/bye'', lo_state = ''x'', lo_confirm = ''s.mss1''\<rparr>"

definition leaving_world :: world where
  "leaving_world = \<lparr>w_db = sample_db\<lparr>oauth_clients := [sample_client\<lparr>oc_post_logout_redirect_uris := [''https://notes.example/bye'']\<rparr>]\<rparr>, w_now = sample_now\<rparr>"

definition sample_leave :: "response \<times> world" where
  "sample_leave = EndSession sample_front id (Some sample_ident) leaving_request leaving_world"

theorem logout_redirects_registered_witness:
  "\<exists>s l w'. \<exists>client :: oauth_client. EndSession sample_front id (Some sample_ident) leaving_request leaving_world = (Location s l, w') \<and>
     registeredExactly (oc_post_logout_redirect_uris client) ''https://notes.example/bye''"
proof -
  have "is_location (fst sample_leave)" by code_simp
  then obtain s l w' where a: "EndSession sample_front id (Some sample_ident) leaving_request leaving_world = (Location s l, w')"
    unfolding sample_leave_def[symmetric] by (metis located)
  have "lo_redirect leaving_request = ''https://notes.example/bye''" by (simp add: leaving_request_def)
  with logout_redirects_registered[OF a] a show ?thesis by auto
qed

theorem logout_needs_proof_witness:
  "lo_confirm leaving_request = IssueCSRFToken (fe_sha sample_front) (fe_hmac sample_front) [] (hr_session_token leaving_request) \<and>
   length (sessions (w_db (snd (EndSession sample_front id (Some sample_ident) leaving_request leaving_world)))) = 2"
proof -
  have l: "length (sessions (w_db (snd sample_leave))) = 2" "length (sessions (w_db leaving_world)) = 3" by code_simp+
  obtain x w' where a: "EndSession sample_front id (Some sample_ident) leaving_request leaving_world = (x, w')" by (meson surj_pair)
  then have "sessions (w_db w') \<noteq> sessions (w_db leaving_world)" using l by (auto simp: sample_leave_def)
  moreover have "ParseIDTokenHint (fe_engine sample_front) (lo_hint leaving_request) (w_now leaving_world) = None" by code_simp
  ultimately show ?thesis using logout_needs_proof[OF a] l(1) unfolding sample_leave_def by auto
qed


end
