(* ===== verification/Spec2Isabelle.thy ===== *)
theory Spec2Isabelle
  imports Ky_Access Ky_AppAuth Ky_Enrollment Ky_Logout Ky_Sessions Ky_Tokens Ky_Refresh Ky_StepUp Ky_Lockout Ky_Devices Ky_MFA Ky_Push Ky_Provisioning Ky_Delivery Ky_Roles Ky_Groups Ky_Registry Ky_Requests Ky_Accounts Ky_Expiry Ky_Inbound Ky_Text Ky_Reconcile Ky_Jobs Ky_OAuth Ky_URL Ky_RateLimit Ky_Gate Ky_Explain Ky_Authorize
begin

text \<open>
  A verification library for the KyIdentity server, an identity provider written in Go: accounts, sessions,
  second factors, OAuth codes and tokens, application access and enrolment policies, all kept in one SQLite
  database behind \<^verbatim>\<open>internal/store\<close>.

  The model is a shallow embedding of the store. A table is a list of records in row order, a database is the
  record \<^typ>\<open>db\<close> of the tables, and each Go method is a function of its arguments, the clock and the
  database. A method that runs in a transaction returns either an error, and the database is then as before, or
  the result with the new database.
\<close>

end
